(* ===== verification/Py_Prelude.thy ===== *)
theory Py_Prelude
  imports Complex_Main "HOL-Library.AList" "HOL-Library.Sublist" "HOL-Library.Char_ord"
    "HOL-Library.List_Lexorder" "HOL-Library.Product_Lexorder" "HOL-Library.Multiset"
begin

text \<open>
  The fragment of Python that the components share.

  \<^item> A \<open>str\<close> is a list of characters, each a code point below 256; \<open>py_lower\<close> and
    \<open>py_strip\<close> are exact on that range.
  \<^item> A \<open>dict\<close> is an association list in insertion order with distinct keys: \<open>map_of\<close>
    reads it, \<open>AList.update\<close> assigns (in place when the key exists, at the end otherwise)
    and \<open>AList.delete\<close> removes.
  \<^item> A \<open>float\<close> is an exact real; where the code treats NaN or an infinity, it is a
    \<open>pyfloat\<close>. Rounding of IEEE doubles is not modelled.
  \<^item> A raised exception is the left side of a sum.
  \<^item> A JSON-like value (\<open>json.loads\<close>, \<open>**kwargs\<close>, LLM output) is a \<open>json\<close>.
\<close>

named_theorems dict_simps \<open>reading a dict after an update or a delete\<close>
named_theorems str_simps \<open>facts on the string functions\<close>

subsection \<open>Exceptions\<close>

datatype py_error =
    ValueError string
  | KeyError string
  | IndexError
  | TypeError string
  | AttributeError string
  | OverflowError
  | Raised string

type_synonym 'a result = "py_error + 'a"

primrec is_ok :: "'e + 'a \<Rightarrow> bool" where
  "is_ok (Inl e) = False"
| "is_ok (Inr a) = True"

lemma is_ok_iff: "is_ok r \<longleftrightarrow> (\<exists>a. r = Inr a)"
  by (cases r) auto

text \<open>A list comprehension whose body may raise: the first exception wins.\<close>

fun traverse :: "('a \<Rightarrow> 'e + 'b) \<Rightarrow> 'a list \<Rightarrow> 'e + 'b list" where
  "traverse f [] = Inr []"
| "traverse f (x # xs) =
     (case f x of Inl e \<Rightarrow> Inl e
      | Inr y \<Rightarrow> (case traverse f xs of Inl e \<Rightarrow> Inl e | Inr ys \<Rightarrow> Inr (y # ys)))"

lemma traverse_Inr: "(\<And>x. x \<in> set xs \<Longrightarrow> f x = Inr (g x)) \<Longrightarrow> traverse f xs = Inr (map g xs)"
  by (induction xs) auto

subsection \<open>Numbers\<close>

datatype pyfloat = Fin real | PInf | NInf | NaN

definition is_finite :: "pyfloat \<Rightarrow> bool" where
  "is_finite x = (case x of Fin _ \<Rightarrow> True | _ \<Rightarrow> False)"

definition fin_val :: "pyfloat \<Rightarrow> real" where
  "fin_val x = (case x of Fin r \<Rightarrow> r | _ \<Rightarrow> 0)"

text \<open>\<open>int(x)\<close> of a float truncates towards zero.\<close>

definition py_trunc :: "real \<Rightarrow> int" where
  "py_trunc x = (if 0 \<le> x then \<lfloor>x\<rfloor> else - \<lfloor>- x\<rfloor>)"

lemma py_trunc_bounds: "0 \<le> x \<Longrightarrow> real_of_int (py_trunc x) \<le> x \<and> x < py_trunc x + 1"
  by (simp add: py_trunc_def)

lemma py_trunc_nonneg [simp]: "0 \<le> x \<Longrightarrow> 0 \<le> py_trunc x"
  by (simp add: py_trunc_def)

subsection \<open>Lists\<close>

text \<open>\<open>xs[:k]\<close>, where a negative \<open>k\<close> counts from the end.\<close>

definition slice_to :: "int \<Rightarrow> 'a list \<Rightarrow> 'a list" where
  "slice_to k xs = take (nat (if k < 0 then int (length xs) + k else k)) xs"

lemma slice_to_nonneg [simp]: "0 \<le> k \<Longrightarrow> slice_to k xs = take (nat k) xs"
  by (simp add: slice_to_def)

lemma set_slice_to: "set (slice_to k xs) \<subseteq> set xs"
  by (auto simp: slice_to_def dest: in_set_takeD)

lemma slice_to_prefix: "\<exists>ys. xs = slice_to k xs @ ys"
  unfolding slice_to_def by (rule exI) (rule append_take_drop_id [symmetric])

lemma length_slice_to: "length (slice_to k xs) \<le> length xs"
  by (simp add: slice_to_def)

text \<open>\<open>sorted(xs, key=f, reverse=True)\<close>: descending, and stable like every Python sort.\<close>

definition sort_desc :: "('a \<Rightarrow> real) \<Rightarrow> 'a list \<Rightarrow> 'a list" where
  "sort_desc f xs = sort_key (\<lambda>x. - f x) xs"

lemma mset_sort_desc [simp]: "mset (sort_desc f xs) = mset xs"
  by (simp add: sort_desc_def)

lemma set_sort_desc [simp]: "set (sort_desc f xs) = set xs"
  by (simp add: sort_desc_def)

lemma length_sort_desc [simp]: "length (sort_desc f xs) = length xs"
  by (simp add: sort_desc_def)

lemma distinct_sort_desc [simp]: "distinct (sort_desc f xs) = distinct xs"
  by (simp add: sort_desc_def)

lemma sorted_sort_desc: "sorted_wrt (\<lambda>x y. f y \<le> f x) (sort_desc f xs)"
proof -
  have "sorted (map (\<lambda>x. - f x) (sort_desc f xs))"
    by (simp add: sort_desc_def)
  then show ?thesis by (simp add: sorted_map)
qed

lemma sort_desc_stable:
  "filter (\<lambda>y. f y = k) (sort_desc f xs) = filter (\<lambda>y. f y = k) xs"
proof -
  have "filter (\<lambda>y. - f y = - k) (sort_key (\<lambda>x. - f x) xs) = filter (\<lambda>y. - f y = - k) xs"
    by (rule sort_key_stable)
  then show ?thesis by (simp add: sort_desc_def)
qed

text \<open>\<open>max(xs, key=f)\<close> on a non-empty list: the first of the maximal elements.\<close>

fun argmax_from :: "('a \<Rightarrow> 'b::linorder) \<Rightarrow> 'a \<Rightarrow> 'a list \<Rightarrow> 'a" where
  "argmax_from f b [] = b"
| "argmax_from f b (x # xs) = argmax_from f (if f b < f x then x else b) xs"

lemma argmax_from_in: "argmax_from f b xs \<in> insert b (set xs)"
  by (induction xs arbitrary: b) auto

lemma argmax_from_max: "y \<in> insert b (set xs) \<Longrightarrow> f y \<le> f (argmax_from f b xs)"
proof (induction xs arbitrary: b y)
  case Nil
  then show ?case by simp
next
  case (Cons x xs)
  let ?b = "if f b < f x then x else b"
  have b: "f ?b \<le> f (argmax_from f ?b xs)" by (rule Cons.IH) simp
  show ?case
  proof (cases "y \<in> set xs")
    case True
    then have "f y \<le> f (argmax_from f ?b xs)" by (intro Cons.IH) simp
    then show ?thesis by simp
  next
    case False
    with Cons.prems have "f y \<le> f ?b" by auto
    with b have "f y \<le> f (argmax_from f ?b xs)" by (rule order_trans [rotated])
    then show ?thesis by simp
  qed
qed

lemma filter_eq_take_last:
  assumes "\<exists>x \<in> set xs. P x"
  shows "\<exists>n < length xs. P (xs ! n) \<and> filter P xs = filter P (take (Suc n) xs)"
  using assms
proof (induction xs rule: rev_induct)
  case Nil
  then show ?case by simp
next
  case (snoc x xs)
  show ?case
  proof (cases "P x")
    case True
    then show ?thesis by (intro exI [of _ "length xs"]) simp
  next
    case False
    with snoc obtain n where "n < length xs" "P (xs ! n)" "filter P xs = filter P (take (Suc n) xs)"
      by auto
    with False show ?thesis by (intro exI [of _ n]) (auto simp: nth_append)
  qed
qed

text \<open>\<open>list(dict.fromkeys(xs))\<close>: the first of equal elements stays.\<close>

fun unique_in_order :: "'a list \<Rightarrow> 'a list" where
  "unique_in_order [] = []"
| "unique_in_order (x # xs) = x # filter (\<lambda>y. y \<noteq> x) (unique_in_order xs)"

lemma set_unique_in_order [simp]: "set (unique_in_order xs) = set xs"
  by (induction xs) auto

lemma unique_in_order_Nil [simp]: "unique_in_order xs = [] \<longleftrightarrow> xs = []"
  by (cases xs) simp_all

lemma distinct_unique_in_order [simp]: "distinct (unique_in_order xs)"
  by (induction xs) auto

subsection \<open>Dicts\<close>

type_synonym ('k, 'v) dict = "('k \<times> 'v) list"

abbreviation dict_ok :: "('k, 'v) dict \<Rightarrow> bool" where
  "dict_ok d \<equiv> distinct (map fst d)"

definition dget :: "'v \<Rightarrow> 'k \<Rightarrow> ('k, 'v) dict \<Rightarrow> 'v" where
  "dget v0 k d = (case map_of d k of None \<Rightarrow> v0 | Some v \<Rightarrow> v)"

definition setdefault :: "'k \<Rightarrow> 'v \<Rightarrow> ('k, 'v) dict \<Rightarrow> ('k, 'v) dict" where
  "setdefault k v d = (case map_of d k of None \<Rightarrow> d @ [(k, v)] | Some _ \<Rightarrow> d)"

lemma map_of_update [dict_simps, simp]:
  "map_of (AList.update k v d) k' = (if k' = k then Some v else map_of d k')"
  by (simp add: update_conv')

lemma map_of_delete [dict_simps, simp]:
  "map_of (AList.delete k d) k' = (if k' = k then None else map_of d k')"
  by (simp add: delete_conv')

lemma map_of_setdefault [dict_simps]:
  "map_of (setdefault k v d) k' =
     (if k' = k \<and> map_of d k = None then Some v else map_of d k')"
  by (cases "map_of d k")
     (auto simp: setdefault_def map_add_def split: option.splits)

lemma dget_update [dict_simps, simp]: "dget v0 k' (AList.update k v d) = (if k' = k then v else dget v0 k' d)"
  by (simp add: dget_def)

lemma keys_update: "fst ` set (AList.update k v d) = insert k (fst ` set d)"
  by (simp add: dom_update)

lemma dict_ok_update [intro]: "dict_ok d \<Longrightarrow> dict_ok (AList.update k v d)"
  by (rule distinct_update)

lemma dict_ok_delete [intro]: "dict_ok d \<Longrightarrow> dict_ok (AList.delete k d)"
  by (rule distinct_delete)

lemma dict_ok_setdefault [intro]: "dict_ok d \<Longrightarrow> dict_ok (setdefault k v d)"
  by (auto simp: setdefault_def map_of_eq_None_iff split: option.splits)

lemma map_of_in_iff: "dict_ok d \<Longrightarrow> (k, v) \<in> set d \<longleftrightarrow> map_of d k = Some v"
  by simp

text \<open>Lookups stay lookups: the library's rewriting of \<open>map_of d k = Some v\<close> to membership is off.\<close>

declare map_of_eq_Some_iff [simp del] Some_eq_map_of_iff [simp del]

subsection \<open>Strings\<close>

definition py_lower_char :: "char \<Rightarrow> char" where
  "py_lower_char c = (let n = (of_char c :: nat) in
     if (65 \<le> n \<and> n \<le> 90) \<or> (192 \<le> n \<and> n \<le> 222 \<and> n \<noteq> 215) then char_of (n + 32) else c)"

definition py_lower :: "string \<Rightarrow> string" where
  "py_lower s = map py_lower_char s"

definition is_space :: "char \<Rightarrow> bool" where
  "is_space c = (let n = (of_char c :: nat) in
     (9 \<le> n \<and> n \<le> 13) \<or> (28 \<le> n \<and> n \<le> 32) \<or> n = 133 \<or> n = 160)"

definition py_lstrip :: "string \<Rightarrow> string" where
  "py_lstrip s = dropWhile is_space s"

definition py_rstrip :: "string \<Rightarrow> string" where
  "py_rstrip s = rev (dropWhile is_space (rev s))"

definition py_strip :: "string \<Rightarrow> string" where
  "py_strip s = py_rstrip (py_lstrip s)"

text \<open>\<open>s.strip(chars)\<close> for a single character.\<close>

definition strip_char :: "char \<Rightarrow> string \<Rightarrow> string" where
  "strip_char c s = rev (dropWhile (\<lambda>x. x = c) (rev (dropWhile (\<lambda>x. x = c) s)))"

text \<open>\<open>hay.find(sub)\<close>, with \<open>None\<close> for Python's \<open>-1\<close>.\<close>

fun py_find :: "string \<Rightarrow> string \<Rightarrow> nat option" where
  "py_find sub [] = (if sub = [] then Some 0 else None)"
| "py_find sub (c # cs) =
     (if prefix sub (c # cs) then Some 0 else map_option Suc (py_find sub cs))"

definition py_in :: "string \<Rightarrow> string \<Rightarrow> bool" where
  "py_in sub hay \<longleftrightarrow> py_find sub hay \<noteq> None"

definition startswith :: "string \<Rightarrow> string \<Rightarrow> bool" where
  "startswith s p = prefix p s"

definition endswith :: "string \<Rightarrow> string \<Rightarrow> bool" where
  "endswith s p = suffix p s"

fun join :: "string \<Rightarrow> string list \<Rightarrow> string" where
  "join sep [] = []"
| "join sep [x] = x"
| "join sep (x # y # ys) = x @ sep @ join sep (y # ys)"

text \<open>\<open>s.split(c)\<close> for a one-character separator: never empty.\<close>

fun split_on :: "char \<Rightarrow> string \<Rightarrow> string list" where
  "split_on c [] = [[]]"
| "split_on c (x # xs) =
     (if x = c then [] # split_on c xs
      else (case split_on c xs of [] \<Rightarrow> [[x]] | y # ys \<Rightarrow> (x # y) # ys))"

definition digit_char :: "nat \<Rightarrow> char" where
  "digit_char n = char_of (48 + n)"

fun str_nat :: "nat \<Rightarrow> string" where
  "str_nat n = (if n < 10 then [digit_char n] else str_nat (n div 10) @ [digit_char (n mod 10)])"

declare str_nat.simps [simp del]

definition str_int :: "int \<Rightarrow> string" where
  "str_int i = (if i < 0 then CHR ''-'' # str_nat (nat (- i)) else str_nat (nat i))"

text \<open>\<open>s.split(None, 1)\<close>: the first word and, if anything is left, the rest from its first non-space.\<close>

definition split_ws1 :: "string \<Rightarrow> string list" where
  "split_ws1 s =
     (let s1 = py_lstrip s;
          first = takeWhile (\<lambda>c. \<not> is_space c) s1;
          rest = py_lstrip (dropWhile (\<lambda>c. \<not> is_space c) s1)
      in if s1 = [] then [] else if rest = [] then [first] else [first, rest])"

lemma py_find_Some:
  "py_find sub hay = Some n \<Longrightarrow> \<exists>ys zs. hay = ys @ sub @ zs \<and> length ys = n"
proof (induction hay arbitrary: n)
  case Nil
  then show ?case by (simp split: if_splits)
next
  case (Cons c cs)
  show ?case
  proof (cases "prefix sub (c # cs)")
    case True
    with Cons.prems have "n = 0" by simp
    with True show ?thesis by (auto simp: prefix_def)
  next
    case False
    with Cons.prems obtain m where m: "py_find sub cs = Some m" "n = Suc m" by auto
    from Cons.IH [OF m(1)] obtain ys zs where "cs = ys @ sub @ zs" "length ys = m" by blast
    with m have "c # cs = (c # ys) @ sub @ zs \<and> length (c # ys) = n" by simp
    then show ?thesis by blast
  qed
qed

lemma py_find_None: "py_find sub hay = None \<longleftrightarrow> \<not> sublist sub hay"
  by (induction hay) (auto simp: sublist_Cons_right)

lemma py_in_iff [str_simps]: "py_in sub hay \<longleftrightarrow> sublist sub hay"
  by (simp add: py_in_def py_find_None)

lemma sublist_lower: "sublist xs ys \<Longrightarrow> sublist (py_lower xs) (py_lower ys)"
  by (auto simp: sublist_def py_lower_def) blast

lemma find_SomeD: "find P xs = Some x \<Longrightarrow> x \<in> set xs \<and> P x"
  by (induction xs) (auto split: if_splits)

lemma split_on_nonempty [simp]: "split_on c s \<noteq> []"
  by (induction s) (auto split: list.splits)

lemma join_split_on: "join [c] (split_on c s) = s"
proof (induction s)
  case Nil
  then show ?case by simp
next
  case (Cons x xs)
  show ?case
  proof (cases "split_on c xs")
    case Nil
    then show ?thesis by simp
  next
    case (Cons y ys)
    with Cons.IH show ?thesis by (cases ys) auto
  qed
qed

lemma split_on_no_sep: "y \<in> set (split_on c s) \<Longrightarrow> c \<notin> set y"
  by (induction s arbitrary: y) (auto split: if_splits list.splits)

subsection \<open>JSON values\<close>

datatype json =
    JNull
  | JBool bool
  | JInt int
  | JFloat pyfloat
  | JStr string
  | JList "json list"
  | JObj "(string \<times> json) list"

text \<open>Python's truth value of a JSON-like object.\<close>

fun truthy :: "json \<Rightarrow> bool" where
  "truthy JNull = False"
| "truthy (JBool b) = b"
| "truthy (JInt i) = (i \<noteq> 0)"
| "truthy (JFloat x) = (x \<noteq> Fin 0)"
| "truthy (JStr s) = (s \<noteq> [])"
| "truthy (JList xs) = (xs \<noteq> [])"
| "truthy (JObj d) = (d \<noteq> [])"

type_synonym obj = "(string, json) dict"

text \<open>\<open>str(x)\<close> of a JSON-like value; the printing of floats and containers is a parameter.\<close>

definition json_str :: "(json \<Rightarrow> string) \<Rightarrow> json \<Rightarrow> string" where
  "json_str other j =
     (case j of JNull \<Rightarrow> ''None'' | JBool b \<Rightarrow> (if b then ''True'' else ''False'')
      | JInt i \<Rightarrow> str_int i | JStr s \<Rightarrow> s | _ \<Rightarrow> other j)"

text \<open>What a \<open>for\<close> loop over a value sees: the items of a list, the characters of a string, the keys of a dict.\<close>

definition iterate :: "json \<Rightarrow> json list result" where
  "iterate v =
     (case v of JList xs \<Rightarrow> Inr xs | JStr s \<Rightarrow> Inr (map (\<lambda>c. JStr [c]) s) | JObj d \<Rightarrow> Inr (map (JStr \<circ> fst) d)
      | _ \<Rightarrow> Inl (TypeError ''not iterable''))"

definition iterate_or_empty :: "json \<Rightarrow> json list result" where
  "iterate_or_empty v = (if truthy v then iterate v else Inr [])"

text \<open>\<open>v or w\<close>, and the values that \<open>in (None, "", [], {})\<close> finds.\<close>

definition py_or :: "json \<Rightarrow> json \<Rightarrow> json" where
  "py_or v w = (if truthy v then v else w)"

definition empty_value :: "json \<Rightarrow> bool" where
  "empty_value v \<longleftrightarrow> v = JNull \<or> v = JStr [] \<or> v = JList [] \<or> v = JObj []"

end
