(* ===== verification/Chunk_Model.thy ===== *)
theory Chunk_Model
  imports Py_Prelude
begin

text \<open>
  The data that the retrieval components exchange: document types and chunks
  (\<open>opsrag/interfaces/parser.py\<close>, \<open>opsrag/interfaces/chunker.py\<close>) and search results
  (\<open>opsrag/interfaces/vectorstore.py\<close>).
\<close>

datatype doc_type =
    RUNBOOK | POSTMORTEM | TERRAFORM | HELM | KUBERNETES | DOCKERFILE | ALERT_DEFINITION
  | ARCHITECTURE | ADR | GENERIC_MARKDOWN | YAML_CONFIG | PYTHON | JAVASCRIPT | TYPESCRIPT
  | GO | JAVA | SHELL

fun doc_value :: "doc_type \<Rightarrow> string" where
  "doc_value RUNBOOK = ''runbook''"
| "doc_value POSTMORTEM = ''postmortem''"
| "doc_value TERRAFORM = ''terraform''"
| "doc_value HELM = ''helm''"
| "doc_value KUBERNETES = ''kubernetes''"
| "doc_value DOCKERFILE = ''dockerfile''"
| "doc_value ALERT_DEFINITION = ''alert_definition''"
| "doc_value ARCHITECTURE = ''architecture''"
| "doc_value ADR = ''adr''"
| "doc_value GENERIC_MARKDOWN = ''generic_markdown''"
| "doc_value YAML_CONFIG = ''yaml_config''"
| "doc_value PYTHON = ''python''"
| "doc_value JAVASCRIPT = ''javascript''"
| "doc_value TYPESCRIPT = ''typescript''"
| "doc_value GO = ''go''"
| "doc_value JAVA = ''java''"
| "doc_value SHELL = ''shell''"

record chunk =
  chunk_id :: string
  content :: string
  chunk_doc_type :: doc_type
  source_path :: string
  repo :: string
  metadata :: obj
  parent_chunk_id :: "string option"
  chunk_type :: string
  token_count :: int
  embed_content :: "string option"

record search_result =
  sr_chunk :: chunk
  score :: real
  distance_metric :: string

text \<open>A minimal chunk and hit with a given id, used to instantiate theorems.\<close>

definition plain_hit :: "string \<Rightarrow> real \<Rightarrow> search_result" where
  "plain_hit cid s =
     \<lparr>sr_chunk = \<lparr>chunk_id = cid, content = cid, chunk_doc_type = GO, source_path = [], repo = [],
        metadata = [], parent_chunk_id = None, chunk_type = ''child'', token_count = 0,
        embed_content = None\<rparr>,
      score = s, distance_metric = ''cosine''\<rparr>"

end
