(* ===== verification/Fusion.thy ===== *)
theory Fusion
  imports Chunk_Model
begin

text \<open>
  Cross-pool Reciprocal Rank Fusion (\<open>opsrag/vectorstores/rrf.py\<close>) and the priority tiers
  that bias it (\<open>opsrag/vectorstores/priority.py\<close>).

  The two dicts of \<open>rrf_merge_pools\<close> are the record \<open>fusion\<close>; one iteration of its inner loop
  is \<open>rrf_hit\<close>, the loops over a pool and over the pools are \<open>rrf_pool\<close> and \<open>rrf_pools\<close>.
  The specification \<open>rrf_total\<close> is the sum of the docstring, with no dict and no loop.
  \<open>sha1\<close> (a hex digest) is a parameter: the code only uses that it is a function.
\<close>

subsection \<open>Fusion\<close>

definition rrf_k :: real where
  "rrf_k = 60"

definition chunk_key :: "(string \<Rightarrow> string) \<Rightarrow> search_result \<Rightarrow> string" where
  "chunk_key sha1 r =
     (let c = sr_chunk r; cid = chunk_id c in
      if cid \<noteq> [] then cid
      else repo c @ '':'' @ source_path c @ '':'' @ take 16 (sha1 (content c)))"

record fusion =
  rrf_score :: "(string, real) dict"
  first_seen :: "(string, search_result) dict"

definition fusion0 :: fusion where
  "fusion0 = \<lparr>rrf_score = [], first_seen = []\<rparr>"

definition rrf_hit :: "(string \<Rightarrow> string) \<Rightarrow> real \<Rightarrow> nat \<Rightarrow> search_result \<Rightarrow> fusion \<Rightarrow> fusion" where
  "rrf_hit sha1 w rank r st =
     (let key = chunk_key sha1 r in
      \<lparr>rrf_score = AList.update key (dget 0 key (rrf_score st) + w / (rrf_k + real rank + 1))
                     (rrf_score st),
       first_seen = (if map_of (first_seen st) key = None
                     then AList.update key r (first_seen st) else first_seen st)\<rparr>)"

fun rrf_pool :: "(string \<Rightarrow> string) \<Rightarrow> real \<Rightarrow> nat \<Rightarrow> search_result list \<Rightarrow> fusion \<Rightarrow> fusion" where
  "rrf_pool sha1 w rank [] st = st"
| "rrf_pool sha1 w rank (r # rs) st = rrf_pool sha1 w (Suc rank) rs (rrf_hit sha1 w rank r st)"

fun rrf_pools :: "(string \<Rightarrow> string) \<Rightarrow> (search_result list \<times> real) list \<Rightarrow> fusion \<Rightarrow> fusion" where
  "rrf_pools sha1 [] st = st"
| "rrf_pools sha1 ((pool, w) # rest) st = rrf_pools sha1 rest (rrf_pool sha1 w 0 pool st)"

definition rrf_ranked :: "int \<Rightarrow> fusion \<Rightarrow> (string \<times> real) list" where
  "rrf_ranked top_k st = slice_to top_k (sort_desc snd (rrf_score st))"

definition rrf_emit :: "fusion \<Rightarrow> string \<times> real \<Rightarrow> search_result result" where
  "rrf_emit st = (\<lambda>(key, s). case map_of (first_seen st) key of
       None \<Rightarrow> Inl (KeyError key)
     | Some sr \<Rightarrow> Inr \<lparr>sr_chunk = sr_chunk sr, score = s, distance_metric = ''rrf-cross-pool''\<rparr>)"

definition pool_weights_of :: "search_result list list \<Rightarrow> real list option \<Rightarrow> real list result" where
  "pool_weights_of pools pool_weights = (case pool_weights of
       None \<Rightarrow> Inr (replicate (length pools) 1)
     | Some ws \<Rightarrow>
         if length ws \<noteq> length pools
         then Inl (ValueError (''pool_weights length '' @ str_nat (length ws) @
                ''  != pools length '' @ str_nat (length pools)))
         else Inr ws)"

definition rrf_merge_pools ::
  "(string \<Rightarrow> string) \<Rightarrow> search_result list list \<Rightarrow> int \<Rightarrow> real list option
     \<Rightarrow> search_result list result" where
  "rrf_merge_pools sha1 pools top_k pool_weights =
     (if pools = [] then Inr []
      else case pool_weights_of pools pool_weights of
             Inl e \<Rightarrow> Inl e
           | Inr ws \<Rightarrow> (let st = rrf_pools sha1 (zip pools ws) fusion0
                       in traverse (rrf_emit st) (rrf_ranked top_k st)))"

subsection \<open>The specification and the loop invariant\<close>

definition rrf_pool_sum :: "(string \<Rightarrow> string) \<Rightarrow> real \<Rightarrow> search_result list \<Rightarrow> string \<Rightarrow> real" where
  "rrf_pool_sum sha1 w pool key =
     (\<Sum>i<length pool. if chunk_key sha1 (pool ! i) = key then w / (rrf_k + real i + 1) else 0)"

definition rrf_total ::
  "(string \<Rightarrow> string) \<Rightarrow> search_result list list \<Rightarrow> real list \<Rightarrow> string \<Rightarrow> real" where
  "rrf_total sha1 pools ws key = (\<Sum>(pool, w)\<leftarrow>zip pools ws. rrf_pool_sum sha1 w pool key)"

definition pool_keys :: "(string \<Rightarrow> string) \<Rightarrow> search_result list list \<Rightarrow> string set" where
  "pool_keys sha1 pools = chunk_key sha1 ` (\<Union>(set ` set pools))"

text \<open>What holds of the two dicts after any number of iterations, whose hits have the keys \<open>K\<close>.\<close>

definition fusion_inv :: "(string \<Rightarrow> string) \<Rightarrow> string set \<Rightarrow> (string \<Rightarrow> real) \<Rightarrow> fusion \<Rightarrow> bool" where
  "fusion_inv sha1 K t st \<longleftrightarrow>
     dict_ok (rrf_score st) \<and> fst ` set (rrf_score st) = K \<and>
     (\<forall>k. dget 0 k (rrf_score st) = t k) \<and>
     (\<forall>k. k \<in> K \<longleftrightarrow> map_of (first_seen st) k \<noteq> None) \<and>
     (\<forall>k r. map_of (first_seen st) k = Some r \<longrightarrow> chunk_key sha1 r = k)"

lemma fusion_inv_0: "fusion_inv sha1 {} (\<lambda>_. 0) fusion0"
  by (simp add: fusion_inv_def fusion0_def dget_def)

lemma fusion_inv_hit:
  assumes "fusion_inv sha1 K t st"
  shows "fusion_inv sha1 (insert (chunk_key sha1 r) K)
           (\<lambda>k. t k + (if chunk_key sha1 r = k then w / (rrf_k + real rank + 1) else 0))
           (rrf_hit sha1 w rank r st)"
  using assms by (auto simp: fusion_inv_def rrf_hit_def Let_def keys_update)

lemma fusion_inv_pool:
  "fusion_inv sha1 K t st \<Longrightarrow>
   fusion_inv sha1 (chunk_key sha1 ` set pool \<union> K)
     (\<lambda>k. t k + (\<Sum>i<length pool. if chunk_key sha1 (pool ! i) = k
                               then w / (rrf_k + real (rank + i) + 1) else 0))
     (rrf_pool sha1 w rank pool st)"
proof (induction pool arbitrary: rank K t st)
  case Nil
  then show ?case by simp
next
  case (Cons r pool)
  from Cons.IH [OF fusion_inv_hit [OF Cons.prems], of r w rank "Suc rank"]
  show ?case
    by (simp add: sum.lessThan_Suc_shift add.assoc algebra_simps del: sum.lessThan_Suc cong: if_cong)
qed

lemma fusion_inv_pools:
  "fusion_inv sha1 K t st \<Longrightarrow>
   fusion_inv sha1 (chunk_key sha1 ` (\<Union>(p, w)\<in>set pws. set p) \<union> K)
     (\<lambda>k. t k + (\<Sum>(pool, w)\<leftarrow>pws. rrf_pool_sum sha1 w pool k))
     (rrf_pools sha1 pws st)"
proof (induction pws arbitrary: K t st)
  case Nil
  then show ?case by simp
next
  case (Cons pw pws)
  obtain p w where pw: "pw = (p, w)" by (cases pw)
  have "fusion_inv sha1 (chunk_key sha1 ` set p \<union> K) (\<lambda>k. t k + rrf_pool_sum sha1 w p k)
          (rrf_pool sha1 w 0 p st)"
    using fusion_inv_pool [OF Cons.prems, of p w 0] by (simp add: rrf_pool_sum_def cong: if_cong)
  from Cons.IH [OF this] show ?case
    by (simp add: pw add.assoc image_Un Un_ac)
qed

lemma fusion_inv_result:
  "length ws = length pools \<Longrightarrow>
   fusion_inv sha1 (chunk_key sha1 ` (\<Union>(set ` set pools))) (rrf_total sha1 pools ws)
     (rrf_pools sha1 (zip pools ws) fusion0)"
proof -
  assume len: "length ws = length pools"
  have "(\<Union>(p, w)\<in>set (zip pools ws). set p) = (\<Union>p\<in>set (map fst (zip pools ws)). set p)"
    by auto
  then have "(\<Union>(p, w)\<in>set (zip pools ws). set p) = \<Union>(set ` set pools)"
    using len by simp
  then show ?thesis
    using fusion_inv_pools [OF fusion_inv_0, of sha1 "zip pools ws"] by (simp add: rrf_total_def [abs_def])
qed

subsection \<open>The merged list\<close>

definition rrf_out :: "fusion \<Rightarrow> string \<times> real \<Rightarrow> search_result" where
  "rrf_out st kv = \<lparr>sr_chunk = sr_chunk (the (map_of (first_seen st) (fst kv))), score = snd kv,
                   distance_metric = ''rrf-cross-pool''\<rparr>"

lemma chunk_key_cong: "sr_chunk r = sr_chunk r' \<Longrightarrow> chunk_key sha1 r = chunk_key sha1 r'"
  by (simp add: chunk_key_def)

lemma fusion_inv_entry:
  assumes "fusion_inv sha1 K t st" and "kv \<in> set (rrf_score st)"
  shows "rrf_emit st kv = Inr (rrf_out st kv)" and "chunk_key sha1 (rrf_out st kv) = fst kv"
    and "snd kv = t (fst kv)" and "fst kv \<in> K"
proof -
  from assms have K: "fst kv \<in> K" by (auto simp: fusion_inv_def)
  with assms(1) obtain r where r: "map_of (first_seen st) (fst kv) = Some r" "chunk_key sha1 r = fst kv"
    by (auto simp: fusion_inv_def)
  show "fst kv \<in> K" by (rule K)
  from r show "rrf_emit st kv = Inr (rrf_out st kv)"
    by (cases kv) (simp add: rrf_emit_def rrf_out_def)
  from r show "chunk_key sha1 (rrf_out st kv) = fst kv"
    by (simp add: rrf_out_def chunk_key_def)
  from assms have "dict_ok (rrf_score st)" and t: "dget 0 (fst kv) (rrf_score st) = t (fst kv)"
    by (simp_all add: fusion_inv_def)
  then have "map_of (rrf_score st) (fst kv) = Some (snd kv)"
    using assms(2) by (simp only: map_of_in_iff [symmetric] prod.collapse)
  with t show "snd kv = t (fst kv)" by (simp add: dget_def)
qed

lemma rrf_emit_all:
  assumes "fusion_inv sha1 K t st" and "set xs \<subseteq> set (rrf_score st)"
  shows "traverse (rrf_emit st) xs = Inr (map (rrf_out st) xs)"
    and "map (chunk_key sha1) (map (rrf_out st) xs) = map fst xs"
    and "map score (map (rrf_out st) xs) = map snd xs"
  using assms fusion_inv_entry [OF assms(1)]
  by (auto intro!: traverse_Inr simp: subset_iff rrf_out_def)

lemma rrf_ranked_subset: "set (rrf_ranked top_k st) \<subseteq> set (rrf_score st)"
  using set_slice_to [of top_k "sort_desc snd (rrf_score st)"] by (simp add: rrf_ranked_def)

lemma rrf_ranked_cut:
  assumes "0 \<le> top_k" and "kv \<in> set (rrf_ranked top_k st)"
    and "kv' \<in> set (rrf_score st)" and "kv' \<notin> set (rrf_ranked top_k st)"
  shows "snd kv' \<le> snd kv"
proof -
  let ?L = "sort_desc snd (rrf_score st)"
  have "kv' \<in> set (take (nat top_k) ?L) \<union> set (drop (nat top_k) ?L)"
    using assms(3) by (metis append_take_drop_id set_append set_sort_desc)
  with assms have "kv' \<in> set (drop (nat top_k) ?L)" by (simp add: rrf_ranked_def)
  moreover have "sorted_wrt (\<lambda>x y. snd y \<le> snd x) (take (nat top_k) ?L @ drop (nat top_k) ?L)"
    by (simp add: sorted_sort_desc)
  ultimately show ?thesis
    using assms(1,2) by (auto simp: sorted_wrt_append rrf_ranked_def simp del: append_take_drop_id)
qed

lemma rrf_ranked_facts:
  assumes inv: "fusion_inv sha1 K f st" and "0 \<le> top_k"
  shows "distinct (map fst (rrf_ranked top_k st))" "length (rrf_ranked top_k st) = min (nat top_k) (card K)"
    "sorted_wrt (\<ge>) (map snd (rrf_ranked top_k st))"
proof -
  have "mset (map fst (sort_desc snd (rrf_score st))) = mset (map fst (rrf_score st))" by simp
  then have "distinct (map fst (sort_desc snd (rrf_score st)))"
    using inv by (metis fusion_inv_def mset_eq_imp_distinct_iff)
  then show "distinct (map fst (rrf_ranked top_k st))"
    using assms(2) by (simp add: rrf_ranked_def take_map [symmetric])
  have "card K = length (rrf_score st)"
    using inv distinct_card [of "map fst (rrf_score st)"] by (simp add: fusion_inv_def)
  then show "length (rrf_ranked top_k st) = min (nat top_k) (card K)"
    using assms(2) by (simp add: rrf_ranked_def min.commute)
  show "sorted_wrt (\<ge>) (map snd (rrf_ranked top_k st))"
    using assms(2) by (simp add: rrf_ranked_def sorted_wrt_map sorted_wrt_take sorted_sort_desc)
qed

lemma rrf_out_entry:
  assumes inv: "fusion_inv sha1 K f st" and "kv \<in> set (rrf_ranked top_k st)"
  shows "chunk_key sha1 (rrf_out st kv) \<in> K" "score (rrf_out st kv) = f (chunk_key sha1 (rrf_out st kv))"
proof -
  note entry = fusion_inv_entry(2-4) [OF inv]
  have kv: "kv \<in> set (rrf_score st)" using assms(2) rrf_ranked_subset by blast
  then show "chunk_key sha1 (rrf_out st kv) \<in> K" using entry(1,3) by simp
  have "score (rrf_out st kv) = snd kv" by (simp add: rrf_out_def)
  with entry(1,2) [OF kv] kv show "score (rrf_out st kv) = f (chunk_key sha1 (rrf_out st kv))" by simp
qed

text \<open>C7: the merged list is the specification's: with one weight per pool it is never an error,
  each distinct chunk occurs at most once, carries exactly the sum of its weighted reciprocal ranks,
  the list is in descending order of that score and of length \<open>min top_k (number of distinct
  chunks)\<close>, and no chunk that was cut off scores higher than one that was kept.\<close>

theorem rrf_merge_correct:
  assumes "pools \<noteq> []" and "length ws = length pools" and "0 \<le> top_k"
  shows "\<exists>out. rrf_merge_pools sha1 pools top_k (Some ws) = Inr out
     \<and> length out = min (nat top_k) (card (pool_keys sha1 pools))
     \<and> distinct (map (chunk_key sha1) out)
     \<and> sorted_wrt (\<ge>) (map score out)
     \<and> (\<forall>r\<in>set out. chunk_key sha1 r \<in> pool_keys sha1 pools \<and> score r = rrf_total sha1 pools ws (chunk_key sha1 r))
     \<and> (\<forall>k\<in>pool_keys sha1 pools - chunk_key sha1 ` set out. \<forall>r\<in>set out. rrf_total sha1 pools ws k \<le> score r)"
proof -
  define K where "K = pool_keys sha1 pools"
  define st where "st = rrf_pools sha1 (zip pools ws) fusion0"
  have inv: "fusion_inv sha1 K (rrf_total sha1 pools ws) st"
    unfolding K_def pool_keys_def st_def by (rule fusion_inv_result) (rule assms)
  define R where "R = rrf_ranked top_k st"
  note emit = rrf_emit_all [OF inv rrf_ranked_subset [of top_k st], folded R_def]
  note ranked = rrf_ranked_facts [OF inv assms(3), folded R_def]
  note each = rrf_out_entry [OF inv, of _ top_k, folded R_def]
  have merged: "rrf_merge_pools sha1 pools top_k (Some ws) = Inr (map (rrf_out st) R)"
    using assms(1,2) emit(1) by (simp add: rrf_merge_pools_def pool_weights_of_def Let_def st_def R_def)
  have keys: "chunk_key sha1 ` set (map (rrf_out st) R) = fst ` set R"
    unfolding set_map [symmetric] by (simp only: emit(2))
  have cut: "rrf_total sha1 pools ws k \<le> score r" if k: "k \<in> K - fst ` set R" and r: "r \<in> set (map (rrf_out st) R)" for k r
  proof -
    have "K = fst ` set (rrf_score st)" using inv by (simp add: fusion_inv_def)
    then obtain kv where kv: "kv \<in> set (rrf_score st)" "fst kv = k" "kv \<notin> set R" using k by auto
    from r obtain kv' where kv': "kv' \<in> set R" "r = rrf_out st kv'" by auto
    have "snd kv \<le> snd kv'"
      using rrf_ranked_cut [OF assms(3), of kv' st kv] kv kv' by (simp add: R_def)
    then show ?thesis using fusion_inv_entry(3) [OF inv kv(1)] kv(2) by (simp add: kv'(2) rrf_out_def)
  qed
  have "distinct (map (chunk_key sha1) (map (rrf_out st) R))" "sorted_wrt (\<ge>) (map score (map (rrf_out st) R))"
    unfolding emit(2,3) by (rule ranked)+
  then show ?thesis
    unfolding K_def [symmetric] using merged ranked(2) each cut keys
    by (intro exI [of _ "map (rrf_out st) R"] conjI ballI) auto
qed

theorem rrf_merge_correct_witness:
  "\<exists>out. rrf_merge_pools (\<lambda>s. s) [[plain_hit ''a'' 1], [plain_hit ''b'' 1, plain_hit ''a'' 1]] 5 (Some [1, 2]) = Inr out
     \<and> length out = 2"
proof -
  have "card (pool_keys (\<lambda>s. s) [[plain_hit ''a'' 1], [plain_hit ''b'' 1, plain_hit ''a'' 1]]) = 2"
    by (simp add: pool_keys_def chunk_key_def plain_hit_def)
  then show ?thesis
    using rrf_merge_correct [of "[[plain_hit ''a'' 1], [plain_hit ''b'' 1, plain_hit ''a'' 1]]" "[1, 2]" 5 "\<lambda>s. s"]
    by auto
qed

text \<open>The only exception is \<open>ValueError\<close>, and it is raised exactly when weights are given for
  a different number of pools (an empty list of pools returns before the check).\<close>

theorem rrf_merge_error_iff:
  "(\<exists>e. rrf_merge_pools sha1 pools top_k pool_weights = Inl e) \<longleftrightarrow>
     pools \<noteq> [] \<and> (\<exists>ws. pool_weights = Some ws \<and> length ws \<noteq> length pools)"
proof (cases "pools = []")
  case True
  then show ?thesis by (simp add: rrf_merge_pools_def)
next
  case False
  show ?thesis
  proof (cases "pool_weights_of pools pool_weights")
    case (Inl e)
    with False show ?thesis
      by (auto simp: rrf_merge_pools_def pool_weights_of_def split: option.splits if_splits)
  next
    case (Inr ws)
    then have len: "length ws = length pools"
      by (auto simp: pool_weights_of_def split: option.splits if_splits)
    note emit = rrf_emit_all(1) [OF fusion_inv_result [OF len] rrf_ranked_subset]
    from False Inr emit have "\<exists>out. rrf_merge_pools sha1 pools top_k pool_weights = Inr out"
      by (simp add: rrf_merge_pools_def Let_def)
    with False Inr show ?thesis
      by (auto simp: pool_weights_of_def split: option.splits if_splits)
  qed
qed

subsection \<open>Consensus\<close>

lemma rrf_pool_sum_absent: "key \<notin> chunk_key sha1 ` set pool \<Longrightarrow> rrf_pool_sum sha1 w pool key = 0"
  by (auto simp: rrf_pool_sum_def intro!: sum.neutral)

lemma rrf_pool_sum_at:
  assumes "distinct (map (chunk_key sha1) pool)" and "i < length pool"
  shows "rrf_pool_sum sha1 w pool (chunk_key sha1 (pool ! i)) = w / (rrf_k + real i + 1)"
proof -
  have "chunk_key sha1 (pool ! j) = chunk_key sha1 (pool ! i) \<longleftrightarrow> j = i" if "j < length pool" for j
    using assms that by (metis (no_types, lifting) length_map nth_eq_iff_index_eq nth_map)
  then have "rrf_pool_sum sha1 w pool (chunk_key sha1 (pool ! i))
      = (\<Sum>j<length pool. if j = i then w / (rrf_k + real i + 1) else 0)"
    unfolding rrf_pool_sum_def by (intro sum.cong) auto
  then show ?thesis using assms(2) by simp
qed

lemma rrf_pool_sum_le:
  assumes "distinct (map (chunk_key sha1) pool)" and "0 \<le> w"
  shows "rrf_pool_sum sha1 w pool key \<le> w / 61"
proof (cases "key \<in> chunk_key sha1 ` set pool")
  case True
  then obtain i where i: "i < length pool" "key = chunk_key sha1 (pool ! i)"
    by (auto simp: in_set_conv_nth)
  have "w / (rrf_k + real i + 1) \<le> w / 61"
    using assms(2) by (intro divide_left_mono) (auto simp: rrf_k_def)
  with assms(1) i show ?thesis by (simp add: rrf_pool_sum_at)
next
  case False
  with assms(2) show ?thesis by (simp add: rrf_pool_sum_absent)
qed

lemma rrf_merge_score:
  assumes "rrf_merge_pools sha1 pools top_k None = Inr out" and "r \<in> set out"
  shows "score r = rrf_total sha1 pools (replicate (length pools) 1) (chunk_key sha1 r)"
proof -
  let ?ws = "replicate (length pools) (1::real)"
  let ?st = "rrf_pools sha1 (zip pools ?ws) fusion0"
  have inv: "fusion_inv sha1 (pool_keys sha1 pools) (rrf_total sha1 pools ?ws) ?st"
    unfolding pool_keys_def by (rule fusion_inv_result) simp
  from assms have "pools \<noteq> []" by (auto simp: rrf_merge_pools_def)
  with assms(1) have "out = map (rrf_out ?st) (rrf_ranked top_k ?st)"
    using rrf_emit_all(1) [OF inv rrf_ranked_subset [of top_k]]
    by (simp add: rrf_merge_pools_def pool_weights_of_def Let_def)
  with assms(2) obtain kv where kv: "kv \<in> set (rrf_score ?st)" "r = rrf_out ?st kv"
    using rrf_ranked_subset [of top_k ?st] by auto
  with fusion_inv_entry(2,3) [OF inv kv(1)] show ?thesis by (simp add: rrf_out_def)
qed

text \<open>Consensus wins. In a merge of two pools without repeated chunks, a chunk that both pools
  rank among their first 61 outranks every chunk that only the first pool returned, its number one
  included.\<close>

theorem rrf_consensus_wins:
  assumes "distinct (map (chunk_key sha1) p)" and "distinct (map (chunk_key sha1) q)"
    and "i < length p" and "j < length q" and "i \<le> 60" and "j \<le> 60"
    and "chunk_key sha1 (p ! i) = chunk_key sha1 a" and "chunk_key sha1 (q ! j) = chunk_key sha1 a"
    and "chunk_key sha1 b \<notin> chunk_key sha1 ` set q"
    and "rrf_merge_pools sha1 [p, q] top_k None = Inr out" and "a \<in> set out" and "b \<in> set out"
  shows "score b < score a"
proof -
  have total: "score r = rrf_pool_sum sha1 1 p (chunk_key sha1 r) + rrf_pool_sum sha1 1 q (chunk_key sha1 r)"
    if "r \<in> set out" for r
    using rrf_merge_score [OF assms(10) that] by (simp add: rrf_total_def numeral_2_eq_2)
  have a: "score a = 1 / (61 + real i) + 1 / (61 + real j)"
    using total [OF assms(11)] rrf_pool_sum_at [OF assms(1,3), of 1] rrf_pool_sum_at [OF assms(2,4), of 1]
    by (simp add: assms(7,8) rrf_k_def add_ac)
  have "score b \<le> 1 / 61"
    using total [OF assms(12)] rrf_pool_sum_le [OF assms(1), of 1] rrf_pool_sum_absent [OF assms(9), of 1]
    by simp
  also have "(1::real) / 61 < 1 / 121 + 1 / 121" by simp
  also have "\<dots> \<le> score a"
    unfolding a using assms(5,6) by (intro add_mono frac_le) auto
  finally show ?thesis .
qed

theorem rrf_consensus_wins_witness:
  "score (plain_hit ''b'' (1 / 61)) < score (plain_hit ''a'' (1 / 62 + 1 / 61))"
proof -
  let ?p = "[plain_hit ''b'' 1, plain_hit ''a'' 1]" and ?q = "[plain_hit ''a'' 1]"
  let ?a = "(plain_hit ''a'' (1 / 62 + 1 / 61))\<lparr>distance_metric := ''rrf-cross-pool''\<rparr>"
  let ?b = "(plain_hit ''b'' (1 / 61))\<lparr>distance_metric := ''rrf-cross-pool''\<rparr>"
  have run: "rrf_merge_pools (\<lambda>s. s) [?p, ?q] 5 None = Inr [?a, ?b]"
    by (simp add: rrf_merge_pools_def pool_weights_of_def rrf_ranked_def rrf_emit_def rrf_hit_def
        chunk_key_def plain_hit_def fusion0_def dget_def sort_desc_def rrf_k_def Let_def)
  have "score ?b < score ?a"
    by (rule rrf_consensus_wins [where p = ?p and q = ?q and i = 1 and j = 0, OF _ _ _ _ _ _ _ _ _ run])
       (simp_all add: chunk_key_def plain_hit_def)
  then show ?thesis by simp
qed

subsection \<open>Priority tiers\<close>

definition priority_boosts :: "(string, real) dict" where
  "priority_boosts = [(''architecture-canonical'', 2), (''user-correction'', 18 / 10), (''high'', 15 / 10)]"

definition rrf_unit :: real where
  "rrf_unit = 1 / (60 + 1)"

definition priority_rrf_bonuses :: "(string, real) dict" where
  "priority_rrf_bonuses =
     [(''architecture-canonical'', 75 / 100 * rrf_unit), (''user-correction'', 6 / 10 * rrf_unit),
      (''high'', 4 / 10 * rrf_unit)]"

definition default_high_priority :: "string list" where
  "default_high_priority = [''sre-knowledge-base'']"

text \<open>\<open>set_priority_repos\<close> returns the new value of the module variable.\<close>

definition clean_repo :: "json \<Rightarrow> string list" where
  "clean_repo j = (case j of JStr s \<Rightarrow> if py_strip s \<noteq> [] then [py_lower (py_strip s)] else [] | _ \<Rightarrow> [])"

definition set_priority_repos :: "json list option \<Rightarrow> string list" where
  "set_priority_repos repos =
     (let cleaned = concat (map clean_repo (case repos of None \<Rightarrow> [] | Some xs \<Rightarrow> xs))
      in if cleaned = [] then default_high_priority else cleaned)"

definition priority_multiplier :: "string option \<Rightarrow> real" where
  "priority_multiplier tag = (case tag of None \<Rightarrow> 1
     | Some t \<Rightarrow> if t = [] then 1 else dget 1 (py_lower t) priority_boosts)"

definition priority_rrf_bonus :: "string option \<Rightarrow> real" where
  "priority_rrf_bonus tag = (case tag of None \<Rightarrow> 0
     | Some t \<Rightarrow> if t = [] then 0 else dget 0 (py_lower t) priority_rrf_bonuses)"

definition chunk_priority :: "string list \<Rightarrow> string option \<Rightarrow> string option \<Rightarrow> string option" where
  "chunk_priority high_repos r path = (case r of None \<Rightarrow> None
     | Some rp \<Rightarrow>
         if rp = [] \<or> \<not> (\<exists>s\<in>set high_repos. py_in s (py_lower rp)) then None
         else case path of
                Some p \<Rightarrow> if p \<noteq> [] \<and> startswith p ''docs/architecture/''
                          then Some ''architecture-canonical'' else Some ''high''
              | None \<Rightarrow> Some ''high'')"

text \<open>The \<open>priority\<close> entry of a chunk's metadata, as \<open>priority_rrf_bonus\<close> receives it: falsy
  values mean no tag, and \<open>.lower()\<close> of a truthy value that is not a string raises.\<close>

definition metadata_tag :: "chunk \<Rightarrow> string option result" where
  "metadata_tag c = (case map_of (metadata c) ''priority'' of None \<Rightarrow> Inr None
     | Some j \<Rightarrow> if \<not> truthy j then Inr None
                else case j of JStr s \<Rightarrow> Inr (Some s) | _ \<Rightarrow> Inl (AttributeError ''lower''))"

text \<open>The re-boost of the fanout merge (\<open>vector_retriever.py\<close>).\<close>

definition reboost_one :: "search_result \<Rightarrow> search_result result" where
  "reboost_one sr = (case metadata_tag (sr_chunk sr) of Inl e \<Rightarrow> Inl e
     | Inr tag \<Rightarrow> (let bonus = priority_rrf_bonus tag in
          Inr (if bonus = 0 then sr else sr\<lparr>score := score sr + bonus\<rparr>)))"

definition reboost :: "search_result list \<Rightarrow> search_result list result" where
  "reboost results = (case traverse reboost_one results of Inl e \<Rightarrow> Inl e
     | Inr boosted \<Rightarrow> Inr (sort_desc score boosted))"

text \<open>The boost of the pgvector store's hybrid search: the stored tag, or the derived one.\<close>

definition pg_boost_one :: "string list \<Rightarrow> search_result \<Rightarrow> search_result result" where
  "pg_boost_one high_repos sr = (let c = sr_chunk sr in
     case metadata_tag c of Inl e \<Rightarrow> Inl e
     | Inr stored \<Rightarrow>
         (let tag = (case stored of Some t \<Rightarrow> Some t
                     | None \<Rightarrow> chunk_priority high_repos (Some (repo c)) (Some (source_path c)))
          in Inr \<lparr>sr_chunk = c, score = score sr + priority_rrf_bonus tag,
                  distance_metric = ''rrf+priority''\<rparr>))"

definition pg_boost :: "string list \<Rightarrow> int \<Rightarrow> search_result list \<Rightarrow> search_result list result" where
  "pg_boost high_repos top_k fused = (case traverse (pg_boost_one high_repos) fused of Inl e \<Rightarrow> Inl e
     | Inr boosted \<Rightarrow> Inr (slice_to top_k (sort_desc score boosted)))"

lemma priority_rrf_bonus_bounds:
  "0 \<le> priority_rrf_bonus tag \<and> priority_rrf_bonus tag \<le> 75 / 100 / 61"
  by (auto simp: priority_rrf_bonus_def priority_rrf_bonuses_def rrf_unit_def dget_def split: option.split)

text \<open>The additive boost is a tie-breaker, never a tier-jumper: whatever tag a single-lane hit
  carries, at whatever rank, its boosted score stays strictly below a two-lane consensus at ranks
  one and two, and the boost of an architecture page at rank at most 182 still lifts it above an
  untagged single-lane number one.\<close>

theorem priority_bonus_band:
  "1 / (rrf_k + real rank + 1) + priority_rrf_bonus tag < 1 / (rrf_k + 1) + 1 / (rrf_k + 2)
   \<and> (real rank < 183 \<longleftrightarrow>
        1 / (rrf_k + 1) < 1 / (rrf_k + real rank + 1) + priority_rrf_bonus (Some ''Architecture-Canonical''))"
proof
  have "1 / (rrf_k + real rank + 1) \<le> 1 / 61"
    unfolding rrf_k_def by (intro frac_le) auto
  then have "1 / (rrf_k + real rank + 1) + priority_rrf_bonus tag \<le> 1 / 61 + 75 / 100 / 61"
    using priority_rrf_bonus_bounds [of tag] by (intro add_mono) auto
  also have "(1::real) / 61 + 75 / 100 / 61 < 1 / (rrf_k + 1) + 1 / (rrf_k + 2)"
    by (simp add: rrf_k_def)
  finally show "1 / (rrf_k + real rank + 1) + priority_rrf_bonus tag < 1 / (rrf_k + 1) + 1 / (rrf_k + 2)" .
  have b: "priority_rrf_bonus (Some ''Architecture-Canonical'') = 75 / 100 / 61"
  proof -
    have "py_lower ''Architecture-Canonical'' = ''architecture-canonical''" by code_simp
    then show ?thesis
      by (simp add: priority_rrf_bonus_def priority_rrf_bonuses_def rrf_unit_def dget_def)
  qed
  show "real rank < 183 \<longleftrightarrow>
      1 / (rrf_k + 1) < 1 / (rrf_k + real rank + 1) + priority_rrf_bonus (Some ''Architecture-Canonical'')"
    unfolding b rrf_k_def by (auto simp: field_simps)
qed

lemma traverse_mset_chunks:
  "traverse f xs = Inr ys \<Longrightarrow> (\<And>x y. f x = Inr y \<Longrightarrow> sr_chunk y = sr_chunk x)
   \<Longrightarrow> map sr_chunk ys = map sr_chunk xs"
  by (induction xs arbitrary: ys) (auto split: sum.splits)

text \<open>The re-boost of the fanout merge loses and invents nothing: the result is a permutation of
  the merged chunks in descending order of the boosted score, and when no chunk carries a known tag
  the merged order is untouched.\<close>

theorem reboost_order:
  assumes "reboost results = Inr out"
  shows "mset (map sr_chunk out) = mset (map sr_chunk results) \<and> sorted_wrt (\<ge>) (map score out)
    \<and> ((\<forall>r\<in>set results. map_of (metadata (sr_chunk r)) ''priority'' = None)
         \<longrightarrow> sorted_wrt (\<ge>) (map score results) \<longrightarrow> out = results)"
proof -
  from assms obtain bs where bs: "traverse reboost_one results = Inr bs" "out = sort_desc score bs"
    by (auto simp: reboost_def split: sum.splits)
  have "map sr_chunk bs = map sr_chunk results"
    using bs(1) by (rule traverse_mset_chunks)
      (auto simp: reboost_one_def Let_def split: sum.splits if_splits)
  then have "mset (map sr_chunk bs) = mset (map sr_chunk results)" by simp
  then have perm: "mset (map sr_chunk out) = mset (map sr_chunk results)"
    by (simp add: bs(2))
  have sorted: "sorted_wrt (\<ge>) (map score out)"
    by (simp add: bs(2) sorted_wrt_map sorted_sort_desc)
  have id: "out = results"
    if none: "\<forall>r\<in>set results. map_of (metadata (sr_chunk r)) ''priority'' = None"
      and s: "sorted_wrt (\<ge>) (map score results)"
  proof -
    have "traverse reboost_one results = Inr (map id results)"
      by (rule traverse_Inr) (use none in \<open>simp add: reboost_one_def metadata_tag_def priority_rrf_bonus_def\<close>)
    with bs have "out = sort_desc score results" by simp
    also have "\<dots> = results"
      unfolding sort_desc_def using s by (intro sort_key_id_if_sorted) (simp add: sorted_map sorted_wrt_map)
    finally show ?thesis .
  qed
  from perm sorted id show ?thesis by blast
qed

theorem reboost_order_witness:
  "\<exists>out. reboost [plain_hit ''a'' 1] = Inr out \<and> mset (map sr_chunk out) = {#sr_chunk (plain_hit ''a'' 1)#}"
proof -
  have run: "reboost [plain_hit ''a'' 1] = Inr [plain_hit ''a'' 1]"
    by (simp add: reboost_def reboost_one_def metadata_tag_def priority_rrf_bonus_def plain_hit_def sort_desc_def)
  show ?thesis using run reboost_order [OF run] by simp
qed

end
