(* ===== verification/Mmr.thy ===== *)
theory Mmr
  imports Py_Prelude
begin

text \<open>
  Maximal Marginal Relevance re-ordering (\<open>opsrag/rerankers/mmr.py\<close>).

  Candidates are indices into \<open>items\<close>, as in the code. \<open>mmr_scan\<close> is the inner loop over the
  remaining candidates (\<open>None\<close> is the initial best score minus infinity), \<open>mmr_loop\<close> the greedy
  outer loop. The text extractor and the similarity are arguments, as in the code;
  \<open>jaccard_similarity\<close> is the code's default for the latter.
\<close>

subsection \<open>Relevance and similarity\<close>

definition finite_vals :: "pyfloat list \<Rightarrow> real list" where
  "finite_vals rs = map fin_val (filter is_finite rs)"

definition rel_lo :: "pyfloat list \<Rightarrow> real" where
  "rel_lo rs = (if finite_vals rs = [] then 0 else Min (set (finite_vals rs)))"

definition rel_hi :: "pyfloat list \<Rightarrow> real" where
  "rel_hi rs = (if finite_vals rs = [] then 0 else Max (set (finite_vals rs)))"

definition sanitize_rel :: "real \<Rightarrow> real \<Rightarrow> pyfloat \<Rightarrow> real" where
  "sanitize_rel lo hi r = (case r of NaN \<Rightarrow> lo | NInf \<Rightarrow> lo | PInf \<Rightarrow> hi | Fin x \<Rightarrow> x)"

definition normalize_relevance :: "pyfloat list \<Rightarrow> real list" where
  "normalize_relevance relevance =
     (let lo = rel_lo relevance; hi = rel_hi relevance; span = hi - lo
      in map (\<lambda>r. if span = 0 then 0 else (sanitize_rel lo hi r - lo) / span) relevance)"

definition is_word_char :: "char \<Rightarrow> bool" where
  "is_word_char c = (let n = (of_char c :: nat) in
     (65 \<le> n \<and> n \<le> 90) \<or> (97 \<le> n \<and> n \<le> 122) \<or> (48 \<le> n \<and> n \<le> 57) \<or> n = 95)"

text \<open>\<open>re.findall("[A-Za-z0-9_]+", text)\<close>: maximal runs of word characters; \<open>cur\<close> is the run read
  so far, reversed.\<close>

fun find_words :: "string \<Rightarrow> string \<Rightarrow> string list" where
  "find_words cur [] = (if cur = [] then [] else [rev cur])"
| "find_words cur (c # cs) =
     (if is_word_char c then find_words (c # cur) cs
      else if cur = [] then find_words [] cs else rev cur # find_words [] cs)"

definition mmr_tokens :: "string \<Rightarrow> string set" where
  "mmr_tokens text = set (find_words [] (py_lower text))"

definition jaccard_similarity :: "string \<Rightarrow> string \<Rightarrow> real" where
  "jaccard_similarity a b =
     (let ta = mmr_tokens a; tb = mmr_tokens b in
      if ta = {} \<and> tb = {} then 1
      else if ta = {} \<or> tb = {} then 0
      else (let inter = card (ta \<inter> tb); union = card (ta \<union> tb)
            in if union = 0 then 0 else real inter / real union))"

subsection \<open>The greedy loop\<close>

fun mmr_scan :: "(nat \<Rightarrow> real) \<Rightarrow> nat list \<Rightarrow> nat \<Rightarrow> real option \<Rightarrow> nat" where
  "mmr_scan f [] best_idx best_score = best_idx"
| "mmr_scan f (i # is) best_idx best_score =
     (if (case best_score of None \<Rightarrow> True | Some s \<Rightarrow> s < f i)
      then mmr_scan f is i (Some (f i))
      else mmr_scan f is best_idx best_score)"

lemma mmr_scan_Some: "mmr_scan f is b (Some (f b)) = argmax_from f b is"
  by (induction "is" arbitrary: b) auto

lemma mmr_scan_argmax: "remaining \<noteq> [] \<Longrightarrow>
   mmr_scan f remaining (hd remaining) None = argmax_from f (hd remaining) (tl remaining)"
  by (cases remaining) (auto simp: mmr_scan_Some)

lemma mmr_scan_in: "remaining \<noteq> [] \<Longrightarrow> mmr_scan f remaining (hd remaining) None \<in> set remaining"
  using argmax_from_in [of f "hd remaining" "tl remaining"]
  by (cases remaining) (simp_all add: mmr_scan_Some)

lemma mmr_scan_max:
  "i \<in> set remaining \<Longrightarrow> f i \<le> f (mmr_scan f remaining (hd remaining) None)"
  using argmax_from_max [of i "hd remaining" "tl remaining" f]
  by (cases remaining) (simp_all add: mmr_scan_Some)

function mmr_loop :: "(nat list \<Rightarrow> nat \<Rightarrow> real) \<Rightarrow> int \<Rightarrow> nat list \<Rightarrow> nat list \<Rightarrow> nat list" where
  "mmr_loop f limit remaining selected =
     (if remaining \<noteq> [] \<and> int (length selected) < limit
      then let best_idx = mmr_scan (f selected) remaining (hd remaining) None
           in mmr_loop f limit (remove1 best_idx remaining) (selected @ [best_idx])
      else selected)"
  by pat_completeness auto
termination
  by (relation "measure (\<lambda>(f, limit, remaining, selected). length remaining)")
     (use mmr_scan_in in \<open>auto simp: length_remove1 Let_def\<close>)

declare mmr_loop.simps [simp del]

definition mmr_score ::
  "(string \<Rightarrow> string \<Rightarrow> real) \<Rightarrow> string list \<Rightarrow> real list \<Rightarrow> real \<Rightarrow> nat list \<Rightarrow> nat \<Rightarrow> real" where
  "mmr_score sim texts rel dv selected i =
     (1 - dv) * rel ! i - dv * Max (set (map (\<lambda>s. sim (texts ! i) (texts ! s)) selected))"

definition mmr_limit :: "nat \<Rightarrow> int option \<Rightarrow> int" where
  "mmr_limit n top_k = (case top_k of None \<Rightarrow> int n | Some k \<Rightarrow> min k (int n))"

definition mmr_enabled :: "nat \<Rightarrow> real option \<Rightarrow> bool" where
  "mmr_enabled n diversity \<longleftrightarrow> (case diversity of None \<Rightarrow> False | Some d \<Rightarrow> 0 < d) \<and> 1 < n"

definition mmr_select ::
  "(string \<Rightarrow> string \<Rightarrow> real) \<Rightarrow> string list \<Rightarrow> real list \<Rightarrow> real \<Rightarrow> int \<Rightarrow> nat list" where
  "mmr_select sim texts rel dv limit =
     (let remaining = [0..<length texts];
          first = argmax_from (\<lambda>i. rel ! i) (hd remaining) (tl remaining)
      in mmr_loop (mmr_score sim texts rel dv) limit (remove1 first remaining) [first])"

definition mmr_reorder ::
  "'a list \<Rightarrow> pyfloat list \<Rightarrow> real option \<Rightarrow> ('a \<Rightarrow> string) \<Rightarrow> (string \<Rightarrow> string \<Rightarrow> real)
     \<Rightarrow> int option \<Rightarrow> 'a list result" where
  "mmr_reorder items relevance diversity text_of sim top_k =
     (let n = length items; limit = mmr_limit n top_k in
      if \<not> mmr_enabled n diversity then Inr (slice_to limit items)
      else (let dv = min 1 (the diversity); rel = normalize_relevance relevance in
            if length rel < n then Inl IndexError
            else Inr (map (\<lambda>i. items ! i) (mmr_select sim (map text_of items) rel dv limit))))"

subsection \<open>Correctness\<close>

lemma normalize_relevance_length [simp]: "length (normalize_relevance rs) = length rs"
  by (simp add: normalize_relevance_def Let_def)

lemma rel_bounds: "is_finite r \<Longrightarrow> r \<in> set rs \<Longrightarrow> rel_lo rs \<le> fin_val r \<and> fin_val r \<le> rel_hi rs"
  by (auto simp: rel_lo_def rel_hi_def finite_vals_def image_iff filter_empty_conv
      intro!: Min_le Max_ge)

lemma rel_lo_hi: "rel_lo rs \<le> rel_hi rs"
proof (cases "finite_vals rs = []")
  case True
  then show ?thesis by (simp add: rel_lo_def rel_hi_def)
next
  case False
  then have v: "hd (finite_vals rs) \<in> set (finite_vals rs)" by simp
  have "Min (set (finite_vals rs)) \<le> hd (finite_vals rs)" by (rule Min_le) (use v in simp_all)
  also have "\<dots> \<le> Max (set (finite_vals rs))" by (rule Max_ge) (use v in simp_all)
  finally show ?thesis using False by (simp add: rel_lo_def rel_hi_def)
qed

text \<open>Whatever scores the reranker returns, NaN and infinities included, the normalised
  relevance has one entry per score, all in the unit interval, and it never reorders two finite
  scores.\<close>

lemma normalize_relevance_unit:
  "length (normalize_relevance rs) = length rs
   \<and> (\<forall>x\<in>set (normalize_relevance rs). 0 \<le> x \<and> x \<le> 1)
   \<and> (\<forall>i<length rs. \<forall>j<length rs. \<forall>x y. rs ! i = Fin x \<longrightarrow> rs ! j = Fin y \<longrightarrow> x \<le> y \<longrightarrow>
        normalize_relevance rs ! i \<le> normalize_relevance rs ! j)"
proof -
  let ?lo = "rel_lo rs" and ?hi = "rel_hi rs"
  have range: "?lo \<le> sanitize_rel ?lo ?hi r \<and> sanitize_rel ?lo ?hi r \<le> ?hi" if "r \<in> set rs" for r
    using rel_bounds [OF _ that] rel_lo_hi [of rs]
    by (auto simp: sanitize_rel_def is_finite_def fin_val_def split: pyfloat.splits)
  have quot: "0 \<le> (y - ?lo) / (?hi - ?lo) \<and> (y - ?lo) / (?hi - ?lo) \<le> 1"
    if "?hi - ?lo \<noteq> 0" "?lo \<le> y \<and> y \<le> ?hi" for y
    using that by (auto simp: divide_le_eq_1)
  have unit: "0 \<le> x \<and> x \<le> 1" if "x \<in> set (normalize_relevance rs)" for x
    using that quot [OF _ range] by (auto simp: normalize_relevance_def Let_def split: if_splits)
  have mono: "normalize_relevance rs ! i \<le> normalize_relevance rs ! j"
    if "i < length rs" "j < length rs" "rs ! i = Fin x" "rs ! j = Fin y" "x \<le> y" for i j x y
    using that rel_lo_hi [of rs]
    by (auto simp: normalize_relevance_def Let_def sanitize_rel_def intro: divide_right_mono)
  from unit mono show ?thesis by simp
qed

text \<open>Jaccard similarity is a similarity: symmetric, in the unit interval, and 1 exactly for
  texts with the same tokens.\<close>

lemma jaccard_similarity_laws:
  "jaccard_similarity a b = jaccard_similarity b a
   \<and> 0 \<le> jaccard_similarity a b \<and> jaccard_similarity a b \<le> 1
   \<and> (jaccard_similarity a b = 1 \<longleftrightarrow> mmr_tokens a = mmr_tokens b)"
proof -
  have fin: "finite (mmr_tokens x)" for x by (simp add: mmr_tokens_def)
  let ?a = "mmr_tokens a" and ?b = "mmr_tokens b"
  have sym: "jaccard_similarity a b = jaccard_similarity b a"
    by (auto simp: jaccard_similarity_def Let_def Int_commute Un_commute)
  have le: "card (?a \<inter> ?b) \<le> card (?a \<union> ?b)"
    by (rule card_mono) (auto simp: fin)
  have eq: "card (?a \<union> ?b) = card (?a \<inter> ?b) \<longleftrightarrow> ?a = ?b"
  proof
    assume "card (?a \<union> ?b) = card (?a \<inter> ?b)"
    then have "?a \<inter> ?b = ?a \<union> ?b"
      by (intro card_subset_eq) (auto simp: fin)
    then show "?a = ?b" by blast
  qed simp
  consider "?a = {}" "?b = {}" | "?a = {}" "?b \<noteq> {}" | "?a \<noteq> {}" "?b = {}" | "?a \<noteq> {}" "?b \<noteq> {}" by blast
  then have "0 \<le> jaccard_similarity a b \<and> jaccard_similarity a b \<le> 1
      \<and> (jaccard_similarity a b = 1 \<longleftrightarrow> ?a = ?b)"
  proof cases
    case 4
    then have pos: "0 < card (?a \<union> ?b)" using fin by (simp add: card_gt_0_iff)
    then have "jaccard_similarity a b = real (card (?a \<inter> ?b)) / real (card (?a \<union> ?b))"
      using 4 by (simp add: jaccard_similarity_def Let_def)
    with pos le eq show ?thesis by simp
  qed (auto simp: jaccard_similarity_def)
  with sym show ?thesis by blast
qed

text \<open>What the greedy loop keeps: the picks so far and the rest partition the candidates, and each
  pick after the first was the best of the candidates left at that time.\<close>

definition mmr_inv :: "nat \<Rightarrow> (nat list \<Rightarrow> nat \<Rightarrow> real) \<Rightarrow> nat list \<Rightarrow> nat list \<Rightarrow> bool" where
  "mmr_inv n f remaining selected \<longleftrightarrow>
     distinct remaining \<and> distinct selected \<and> set remaining = {..<n} - set selected
     \<and> set selected \<subseteq> {..<n} \<and> selected \<noteq> []
     \<and> (\<forall>m. 0 < m \<longrightarrow> m < length selected \<longrightarrow>
          (\<forall>i\<in>{..<n} - set (take m selected). f (take m selected) i \<le> f (take m selected) (selected ! m)))"

lemma mmr_inv_step:
  assumes "mmr_inv n f remaining selected" and "remaining \<noteq> []"
  defines "b \<equiv> mmr_scan (f selected) remaining (hd remaining) None"
  shows "mmr_inv n f (remove1 b remaining) (selected @ [b])"
proof -
  have b: "b \<in> set remaining" unfolding b_def by (rule mmr_scan_in) (rule assms)
  have best: "f selected i \<le> f selected b" if "i \<in> set remaining" for i
    unfolding b_def using that by (rule mmr_scan_max)
  show ?thesis
    using assms(1) b best
    by (auto simp: mmr_inv_def nth_append set_remove1_eq less_Suc_eq)
qed

lemma mmr_loop_inv:
  "mmr_inv n f remaining selected \<Longrightarrow>
   \<exists>remaining'. mmr_inv n f remaining' (mmr_loop f limit remaining selected)
     \<and> int (length (mmr_loop f limit remaining selected)) = max (int (length selected)) (min limit (int n))
     \<and> take (length selected) (mmr_loop f limit remaining selected) = selected"
proof (induction f limit remaining selected rule: mmr_loop.induct)
  case (1 f limit remaining selected)
  have parts: "length selected + length remaining = n"
  proof -
    have sub: "set selected \<subseteq> {..<n}" and dist: "distinct selected" "distinct remaining"
      and rem: "set remaining = {..<n} - set selected"
      using 1(2) by (auto simp: mmr_inv_def)
    have "card (set remaining) = n - card (set selected)"
      unfolding rem using sub by (simp add: card_Diff_subset)
    moreover have "card (set selected) \<le> n"
      using card_mono [OF _ sub] by simp
    ultimately show ?thesis using dist by (simp add: distinct_card)
  qed
  show ?case
  proof (cases "remaining \<noteq> [] \<and> int (length selected) < limit")
    case True
    let ?b = "mmr_scan (f selected) remaining (hd remaining) None"
    have "mmr_inv n f (remove1 ?b remaining) (selected @ [?b])"
      using 1(2) True by (intro mmr_inv_step) auto
    from 1(1) [OF True refl this] obtain r' where r':
      "mmr_inv n f r' (mmr_loop f limit remaining selected)"
      "int (length (mmr_loop f limit remaining selected)) = max (int (length selected) + 1) (min limit (int n))"
      "take (Suc (length selected)) (mmr_loop f limit remaining selected) = selected @ [?b]"
      using True by (auto simp: mmr_loop.simps [of f limit remaining selected] Let_def)
    have "take (length selected) (take (Suc (length selected)) (mmr_loop f limit remaining selected)) = selected"
      by (simp only: r'(3)) simp
    moreover have "int (length selected) + 1 \<le> min limit (int n)"
      using True parts by (cases remaining) auto
    ultimately show ?thesis using r'(1,2) by (auto simp: min_def)
  next
    case False
    then show ?thesis
      using 1(2) parts by (auto simp: mmr_loop.simps [of f limit remaining selected])
  qed
qed

lemma mmr_select_correct:
  fixes sim :: "string \<Rightarrow> string \<Rightarrow> real" and texts :: "string list" and rel :: "real list"
    and dv :: real and limit :: int
  assumes "0 < length texts"
  defines "sel \<equiv> mmr_select sim texts rel dv limit" and "n \<equiv> length texts"
  shows "\<exists>r. mmr_inv n (mmr_score sim texts rel dv) r sel"
    and "int (length sel) = max 1 (min limit (int n))"
    and "i < n \<Longrightarrow> rel ! i \<le> rel ! hd sel"
proof -
  define first where "first = argmax_from (\<lambda>i. rel ! i) (hd [0..<n]) (tl [0..<n])"
  have up: "hd [0..<n] # tl [0..<n] = [0..<n]" by (rule list.collapse) (use assms(1) in \<open>simp add: n_def\<close>)
  have rng: "insert (hd [0..<n]) (set (tl [0..<n])) = {..<n}"
    by (metis up list.simps(15) set_upt atLeast0LessThan)
  have "first \<in> insert (hd [0..<n]) (set (tl [0..<n]))"
    unfolding first_def by (rule argmax_from_in)
  then have first: "first < n" unfolding rng by simp
  have top: "rel ! i \<le> rel ! first" if "i < n" for i
    unfolding first_def
    by (rule argmax_from_max [where f = "\<lambda>i. rel ! i"]) (use that in \<open>simp only: rng lessThan_iff\<close>)
  have sel: "sel = mmr_loop (mmr_score sim texts rel dv) limit (remove1 first [0..<n]) [first]"
    by (simp add: sel_def mmr_select_def Let_def first_def n_def)
  have "mmr_inv n (mmr_score sim texts rel dv) (remove1 first [0..<n]) [first]"
    using first by (auto simp: mmr_inv_def set_remove1_eq)
  from mmr_loop_inv [OF this, of limit] obtain r where
    r: "mmr_inv n (mmr_score sim texts rel dv) r sel"
      "int (length sel) = max 1 (min limit (int n))" "take 1 sel = [first]"
    by (auto simp: sel)
  from r(1) show "\<exists>r. mmr_inv n (mmr_score sim texts rel dv) r sel" by blast
  from r(2) show "int (length sel) = max 1 (min limit (int n))" .
  from r(3) have "hd sel = first" by (cases sel) auto
  then show "i < n \<Longrightarrow> rel ! i \<le> rel ! hd sel" using top by simp
qed



text \<open>The length of the result. Switched off, MMR is the slice \<open>items[:top_k]\<close>; switched on, it
  returns the requested number of items but never fewer than one, so \<open>top_k = 0\<close> yields one item
  where the disabled path yields none. Without \<open>top_k\<close> the result is a permutation of the items.\<close>

theorem mmr_length:
  assumes "length relevance = length items"
    and "mmr_reorder items relevance diversity text_of sim top_k = Inr out"
  shows "(\<not> mmr_enabled (length items) diversity \<longrightarrow> out = slice_to (mmr_limit (length items) top_k) items)
    \<and> (mmr_enabled (length items) diversity \<longrightarrow>
         int (length out) = max 1 (mmr_limit (length items) top_k))
    \<and> (top_k = None \<longrightarrow> mset out = mset items)"
proof (cases "mmr_enabled (length items) diversity")
  case False
  with assms show ?thesis by (auto simp: mmr_reorder_def Let_def mmr_limit_def)
next
  case True
  let ?sel = "mmr_select sim (map text_of items) (normalize_relevance relevance) (min 1 (the diversity))
                (mmr_limit (length items) top_k)"
  have n: "0 < length (map text_of items)" using True by (auto simp: mmr_enabled_def)
  note c = mmr_select_correct [OF n, where sim = sim and rel = "normalize_relevance relevance"
      and dv = "min 1 (the diversity)" and limit = "mmr_limit (length items) top_k"]
  have out: "out = map (\<lambda>i. items ! i) ?sel"
    using assms True by (simp add: mmr_reorder_def Let_def)
  have len: "int (length out) = max 1 (mmr_limit (length items) top_k)"
    using c(2) by (auto simp: out mmr_limit_def split: option.splits)
  have perm: "mset out = mset items" if "top_k = None"
  proof -
    from c(1) have s: "distinct ?sel" "set ?sel \<subseteq> {..<length items}" by (auto simp: mmr_inv_def)
    have "length ?sel = length items"
      using len that True by (simp add: out mmr_limit_def mmr_enabled_def)
    with s have "set ?sel = {..<length items}"
      by (metis card_lessThan card_subset_eq distinct_card finite_lessThan)
    with s have "mset ?sel = mset [0..<length items]"
      by (metis atLeast_upt distinct_upt set_eq_iff_mset_eq_distinct)
    then have "image_mset (\<lambda>i. items ! i) (mset ?sel) = image_mset (\<lambda>i. items ! i) (mset [0..<length items])"
      by simp
    then show ?thesis
      by (metis out map_nth mset_map)
  qed
  from len perm True show ?thesis by blast
qed

theorem mmr_length_witness:
  "mmr_reorder [''a'', ''b''] [Fin 1, Fin 0] (Some 1) (\<lambda>x. x) (\<lambda>_ _. 0) (Some 0) = Inr [''a'']
   \<and> mmr_enabled 2 (Some 1)"
proof -
  have run: "mmr_reorder [''a'', ''b''] [Fin 1, Fin 0] (Some 1) (\<lambda>x. x) (\<lambda>_ _. 0) (Some 0) = Inr [''a'']"
    by (simp add: mmr_reorder_def Let_def mmr_enabled_def mmr_limit_def mmr_select_def mmr_loop.simps
        normalize_relevance_def rel_lo_def rel_hi_def finite_vals_def is_finite_def fin_val_def
        sanitize_rel_def upt_rec)
  have "int (length [''a'']) = 1"
    using mmr_length [OF _ run] by (simp add: mmr_enabled_def mmr_limit_def)
  with run show ?thesis by (simp add: mmr_enabled_def)
qed

end
