(* ===== verification/Rate_Limits.thy ===== *)
theory Rate_Limits
  imports Py_Prelude
begin

text \<open>
  The three in-process limiters: the MCP token limiter (\<open>opsrag/mcp_server/rate_limit.py\<close>), the
  request and login limiter of the API (\<open>MemoryRateLimitBackend\<close> in
  \<open>opsrag/api/rate_limit_backend.py\<close>) and the channel allowlist with its daily quota
  (\<open>opsrag/channels/permission.py\<close>).

  All three keep a log of timestamps per key, prune it at every call and compare its length with a
  cap. That contract is the locale \<open>sliding_log\<close>; each limiter interprets it with its own pruning,
  and the bound on the number of accepted calls in a window is proved once, in the locale. The clock
  reading of a call is an argument of its model.
\<close>

subsection \<open>The contract of a pruned log\<close>

text \<open>\<open>A\<close> are the times of all accepted calls so far, \<open>lg\<close> is the log that the code stores.\<close>

definition log_inv :: "(real \<Rightarrow> real \<Rightarrow> bool) \<Rightarrow> int \<Rightarrow> real \<Rightarrow> real list \<Rightarrow> real list \<Rightarrow> bool" where
  "log_inv counted cap now A lg \<longleftrightarrow>
     sorted A \<and> sorted lg \<and> (\<forall>a\<in>set A. a \<le> now) \<and> (\<forall>a\<in>set lg. a \<le> now)
     \<and> filter (counted now) lg = filter (counted now) A
     \<and> (\<forall>n<length A. int (length (filter (counted (A ! n)) (take (Suc n) A))) \<le> cap)"

locale sliding_log =
  fixes prune :: "real \<Rightarrow> real list \<Rightarrow> real list"
    and counted :: "real \<Rightarrow> real \<Rightarrow> bool"
  assumes prune_sorted: "sorted ts \<Longrightarrow> prune now ts = filter (counted now) ts"
    and counted_antimono: "now \<le> now' \<Longrightarrow> counted now' t \<Longrightarrow> counted now t"
begin

lemma inv_init: "log_inv counted cap now [] []"
  by (simp add: log_inv_def)

lemma filter_later: "now \<le> now' \<Longrightarrow> filter (counted now') ts = filter (counted now') (filter (counted now) ts)"
  by (induction ts) (auto dest: counted_antimono)

lemma inv_later:
  assumes "log_inv counted cap now A lg" and "now \<le> now'"
  shows "log_inv counted cap now' A lg"
proof -
  have "filter (counted now') lg = filter (counted now') (filter (counted now) lg)"
    by (rule filter_later) (rule assms)
  also have "filter (counted now) lg = filter (counted now) A"
    using assms(1) by (simp add: log_inv_def)
  also have "filter (counted now') \<dots> = filter (counted now') A"
    by (rule filter_later [symmetric]) (rule assms)
  finally have "filter (counted now') lg = filter (counted now') A" .
  with assms show ?thesis by (fastforce simp: log_inv_def)
qed

lemma inv_prune:
  assumes "log_inv counted cap now A lg" and "now \<le> now'"
  shows "log_inv counted cap now' A (prune now' lg)"
proof -
  have inv: "log_inv counted cap now' A lg" by (rule inv_later [OF assms])
  then have "prune now' lg = filter (counted now') lg"
    by (intro prune_sorted) (simp add: log_inv_def)
  with inv show ?thesis by (auto simp: log_inv_def sorted_wrt_filter)
qed

lemma inv_admit:
  assumes "log_inv counted cap now A lg" and "now \<le> now'" and "int (length (prune now' lg)) < cap"
  shows "log_inv counted cap now' (A @ [now']) (prune now' lg @ [now'])"
proof -
  have inv: "log_inv counted cap now' A lg" by (rule inv_later [OF assms(1,2)])
  then have p: "prune now' lg = filter (counted now') A"
    using prune_sorted [of lg now'] by (simp add: log_inv_def)
  have len: "int (length (filter (counted now') (A @ [now']))) \<le> cap"
    using assms(3) by (simp add: p)
  have bnd: "int (length (filter (counted ((A @ [now']) ! n)) (take (Suc n) (A @ [now'])))) \<le> cap"
    if "n < length (A @ [now'])" for n
  proof (cases "n < length A")
    case True
    with inv show ?thesis by (simp add: log_inv_def nth_append)
  next
    case False
    with that have "n = length A" by simp
    with len show ?thesis by simp
  qed
  have srt: "sorted (A @ [now'])" "sorted (prune now' lg @ [now'])"
    using inv by (auto simp: log_inv_def p sorted_append sorted_wrt_filter)
  show ?thesis
    unfolding log_inv_def using inv srt bnd by (auto simp: log_inv_def p)
qed

text \<open>The accepted calls in a window (any set of times in which the earlier are still counted at the
  later) are at most the cap.\<close>

lemma burst_bound:
  assumes inv: "log_inv counted cap now A lg"
    and P: "\<And>a b. P a \<Longrightarrow> P b \<Longrightarrow> a \<le> b \<Longrightarrow> counted b a"
  shows "int (length (filter P A)) \<le> max 0 cap"
proof (cases "\<exists>a\<in>set A. P a")
  case False
  then have "filter P A = []" by (auto simp: filter_empty_conv)
  then show ?thesis by simp
next
  case True
  then obtain n where n: "n < length A" "P (A ! n)" "filter P A = filter P (take (Suc n) A)"
    using filter_eq_take_last [OF True] by blast
  have last: "a \<le> A ! n" if a: "a \<in> set (take (Suc n) A)" for a
  proof -
    from a obtain j where "j \<le> n" "a = A ! j"
      by (auto simp: in_set_conv_nth less_Suc_eq_le)
    with inv n(1) show ?thesis by (simp add: log_inv_def sorted_nth_mono)
  qed
  have "filter P (take (Suc n) A) = filter P (filter (counted (A ! n)) (take (Suc n) A))"
    unfolding filter_filter by (rule filter_cong) (use P n(2) last in auto)
  then have "length (filter P (take (Suc n) A)) \<le> length (filter (counted (A ! n)) (take (Suc n) A))"
    by (metis length_filter_le)
  moreover have "int (length (filter (counted (A ! n)) (take (Suc n) A))) \<le> cap"
    using inv n(1) by (simp add: log_inv_def)
  ultimately show ?thesis using n(3) by simp
qed

end

subsection \<open>The MCP token limiter\<close>

record rate_caps =
  per_tool_window_s :: real
  per_tool_cap :: int
  global_window_s :: real
  global_cap :: int

definition default_caps :: rate_caps where
  "default_caps = \<lparr>per_tool_window_s = 60, per_tool_cap = 60, global_window_s = 3600, global_cap = 600\<rparr>"

record limiter =
  lim_caps :: rate_caps
  lim_global :: "(string, real list) dict"
  lim_per_tool :: "(string \<times> string, real list) dict"

definition new_limiter :: "rate_caps option \<Rightarrow> limiter" where
  "new_limiter c = \<lparr>lim_caps = (case c of None \<Rightarrow> default_caps | Some cs \<Rightarrow> cs),
                    lim_global = [], lim_per_tool = []\<rparr>"

definition evict :: "real list \<Rightarrow> real \<Rightarrow> real list" where
  "evict dq horizon = dropWhile (\<lambda>t. t < horizon) dq"

text \<open>The denial reasons: cap and whole-second window, and the tool of a per-tool denial.\<close>

datatype deny_reason = PerToolExceeded int int string | GlobalExceeded int int

definition allow_call :: "limiter \<Rightarrow> string \<Rightarrow> string \<Rightarrow> real \<Rightarrow> limiter \<times> bool \<times> deny_reason option" where
  "allow_call lm token_id tool_name now =
     (let caps = lim_caps lm;
          pt_key = (token_id, tool_name);
          pt_dq = evict (dget [] pt_key (lim_per_tool lm)) (now - per_tool_window_s caps);
          lm1 = lm\<lparr>lim_per_tool := AList.update pt_key pt_dq (lim_per_tool lm)\<rparr>
      in if per_tool_cap caps \<le> int (length pt_dq)
         then (lm1, False, Some (PerToolExceeded (per_tool_cap caps)
                                    (py_trunc (per_tool_window_s caps)) tool_name))
         else
           (let g_dq = evict (dget [] token_id (lim_global lm1)) (now - global_window_s caps);
                lm2 = lm1\<lparr>lim_global := AList.update token_id g_dq (lim_global lm1)\<rparr>
            in if global_cap caps \<le> int (length g_dq)
               then (lm2, False, Some (GlobalExceeded (global_cap caps)
                                          (py_trunc (global_window_s caps))))
               else (lm2\<lparr>lim_per_tool := AList.update pt_key (pt_dq @ [now]) (lim_per_tool lm2),
                          lim_global := AList.update token_id (g_dq @ [now]) (lim_global lm2)\<rparr>,
                     True, None)))"

record limiter_snapshot =
  snap_global_count :: nat
  snap_global_cap :: int
  snap_per_tool_counts :: "(string, nat) dict"
  snap_per_tool_cap :: int

definition limiter_snapshot_of :: "limiter \<Rightarrow> string \<Rightarrow> limiter_snapshot" where
  "limiter_snapshot_of lm token_id =
     \<lparr>snap_global_count = length (dget [] token_id (lim_global lm)),
      snap_global_cap = global_cap (lim_caps lm),
      snap_per_tool_counts =
        fold (\<lambda>((tok, tool), dq) acc. if tok = token_id then AList.update tool (length dq) acc else acc)
             (lim_per_tool lm) [],
      snap_per_tool_cap = per_tool_cap (lim_caps lm)\<rparr>"

text \<open>A history of calls \<open>(time, token, tool)\<close> with the answer each one got.\<close>

type_synonym call = "real \<times> string \<times> string"

fun run_calls :: "limiter \<Rightarrow> call list \<Rightarrow> limiter \<times> (call \<times> bool) list" where
  "run_calls lm [] = (lm, [])"
| "run_calls lm ((t, tok, tool) # cs) =
     (case allow_call lm tok tool t of (lm', ok, _) \<Rightarrow>
       (case run_calls lm' cs of (lm'', rs) \<Rightarrow> (lm'', ((t, tok, tool), ok) # rs)))"

definition accepted :: "(string \<Rightarrow> string \<Rightarrow> bool) \<Rightarrow> (call \<times> bool) list \<Rightarrow> real list" where
  "accepted P rs = map (\<lambda>((t, _), _). t) (filter (\<lambda>((t, tok, tool), ok). ok \<and> P tok tool) rs)"

definition since :: "real \<Rightarrow> real \<Rightarrow> real \<Rightarrow> bool" where
  "since w now t \<longleftrightarrow> now - w \<le> t"

lemma evict_sorted: "sorted ts \<Longrightarrow> evict ts h = filter (\<lambda>t. h \<le> t) ts"
proof (induction ts)
  case Nil
  then show ?case by (simp add: evict_def)
next
  case (Cons t ts)
  show ?case
  proof (cases "t < h")
    case True
    with Cons show ?thesis by (simp add: evict_def)
  next
    case False
    with Cons.prems have "\<forall>x\<in>set (t # ts). h \<le> x" by auto
    then have "filter (\<lambda>t. h \<le> t) (t # ts) = t # ts" by (simp only: filter_True)
    with False show ?thesis by (simp add: evict_def)
  qed
qed

interpretation token_log: sliding_log "\<lambda>now ts. evict ts (now - w)" "since w" for w
  by unfold_locales (auto simp: evict_sorted since_def [abs_def])

definition limiter_inv :: "limiter \<Rightarrow> real \<Rightarrow> (call \<times> bool) list \<Rightarrow> bool" where
  "limiter_inv lm now rs \<longleftrightarrow>
     (\<forall>tok. log_inv (since (global_window_s (lim_caps lm))) (global_cap (lim_caps lm)) now
        (accepted (\<lambda>tok' _. tok' = tok) rs) (dget [] tok (lim_global lm)))
     \<and> (\<forall>tok tool. log_inv (since (per_tool_window_s (lim_caps lm))) (per_tool_cap (lim_caps lm)) now
        (accepted (\<lambda>tok' tool'. tok' = tok \<and> tool' = tool) rs) (dget [] (tok, tool) (lim_per_tool lm)))"

lemma accepted_snoc:
  "accepted P (rs @ [((t, tok, tool), ok)]) = accepted P rs @ (if ok \<and> P tok tool then [t] else [])"
  by (simp add: accepted_def)

lemma allow_call_caps: "lim_caps (fst (allow_call lm tok tool now)) = lim_caps lm"
  by (simp add: allow_call_def Let_def)

lemma allow_call_inv:
  assumes "limiter_inv lm now rs" and "now \<le> t" and "allow_call lm tok tool t = (lm', ok, r)"
  shows "limiter_inv lm' t (rs @ [((t, tok, tool), ok)])"
proof -
  have g: "log_inv (since (global_window_s (lim_caps lm))) (global_cap (lim_caps lm)) now
        (accepted (\<lambda>tok' _. tok' = k) rs) (dget [] k (lim_global lm))" for k
    using assms(1) by (simp add: limiter_inv_def)
  have p: "log_inv (since (per_tool_window_s (lim_caps lm))) (per_tool_cap (lim_caps lm)) now
        (accepted (\<lambda>tok' tool'. tok' = k \<and> tool' = l) rs) (dget [] (k, l) (lim_per_tool lm))" for k l
    using assms(1) by (simp add: limiter_inv_def)
  note later = token_log.inv_later [OF g assms(2)] token_log.inv_later [OF p assms(2)]
    token_log.inv_prune [OF g assms(2)] token_log.inv_prune [OF p assms(2)]
    token_log.inv_admit [OF g assms(2)] token_log.inv_admit [OF p assms(2)]
  show ?thesis
    using assms(3) later
    by (auto simp: allow_call_def Let_def limiter_inv_def accepted_snoc split: if_splits)
qed

lemma run_calls_inv:
  "limiter_inv lm now rs \<Longrightarrow> sorted (map fst cs) \<Longrightarrow> (\<forall>c\<in>set cs. now \<le> fst c) \<Longrightarrow>
   run_calls lm cs = (lm', rs') \<Longrightarrow>
   lim_caps lm' = lim_caps lm \<and> (\<exists>now'. limiter_inv lm' now' (rs @ rs'))"
proof (induction cs arbitrary: lm now rs rs')
  case Nil
  then show ?case by auto
next
  case (Cons c cs)
  obtain t tok tool where c: "c = (t, tok, tool)" by (cases c)
  obtain lm1 ok r where step: "allow_call lm tok tool t = (lm1, ok, r)"
    by (cases "allow_call lm tok tool t")
  obtain rs1 where rs1: "run_calls lm1 cs = (lm', rs1)" "rs' = ((t, tok, tool), ok) # rs1"
    using Cons.prems(4) by (auto simp: c step split: prod.splits)
  have "limiter_inv lm1 t (rs @ [((t, tok, tool), ok)])"
    using allow_call_inv [OF Cons.prems(1) _ step] Cons.prems(3) by (simp add: c)
  from Cons.IH [OF this _ _ rs1(1)] Cons.prems(2) allow_call_caps [of lm tok tool t]
  show ?case by (auto simp: c rs1(2) step)
qed

lemma limiter_inv_init: "limiter_inv (new_limiter c) now []"
  by (simp add: limiter_inv_def new_limiter_def accepted_def dget_def token_log.inv_init)

lemma length_accepted_window:
  "length (filter (\<lambda>((t, tok, tool), ok). ok \<and> P tok tool \<and> x \<le> t \<and> t \<le> y) rs)
     = length (filter (\<lambda>t. x \<le> t \<and> t \<le> y) (accepted P rs))"
  by (induction rs) (auto simp: accepted_def)

text \<open>C24: the caps hold in every window, not only in aligned ones: over any history of calls in time
  order, a token has at most \<open>global_cap\<close> accepted calls in any closed interval of the global window's
  length, and at most \<open>per_tool_cap\<close> accepted calls of one tool in any interval of the per-tool
  window's length.\<close>

theorem token_limiter_caps:
  assumes "sorted (map fst calls)" and "run_calls (new_limiter (Some caps)) calls = (lm, rs)"
  shows "int (length (filter (\<lambda>((t, tok', tool'), ok). ok \<and> tok' = tok \<and> x \<le> t \<and> t \<le> x + global_window_s caps) rs))
           \<le> max 0 (global_cap caps)
    \<and> int (length (filter (\<lambda>((t, tok', tool'), ok). ok \<and> (tok' = tok \<and> tool' = tool) \<and> x \<le> t \<and> t \<le> x + per_tool_window_s caps) rs))
           \<le> max 0 (per_tool_cap caps)"
proof -
  let ?now = "case calls of [] \<Rightarrow> 0 | c # _ \<Rightarrow> fst c"
  have "\<forall>c\<in>set calls. ?now \<le> fst c" using assms(1) by (cases calls) auto
  from run_calls_inv [OF limiter_inv_init assms(1) this assms(2)] obtain now where
    inv: "limiter_inv lm now rs" and caps: "lim_caps lm = caps"
    by (auto simp: new_limiter_def)
  have g: "log_inv (since (global_window_s caps)) (global_cap caps) now
        (accepted (\<lambda>tok' _. tok' = tok) rs) (dget [] tok (lim_global lm))"
    and p: "log_inv (since (per_tool_window_s caps)) (per_tool_cap caps) now
        (accepted (\<lambda>tok' tool'. tok' = tok \<and> tool' = tool) rs) (dget [] (tok, tool) (lim_per_tool lm))"
    using inv caps by (auto simp: limiter_inv_def)
  show ?thesis
    unfolding length_accepted_window
    by (intro conjI token_log.burst_bound [OF g] token_log.burst_bound [OF p]) (auto simp: since_def)
qed

theorem token_limiter_caps_witness:
  "int (length (filter (\<lambda>((t, tok', tool'), ok). ok \<and> tok' = ''t'' \<and> 0 \<le> t \<and> t \<le> 0 + 10)
     [((0, ''t'', ''q''), True), ((1, ''t'', ''q''), False)])) \<le> max 0 (1::int)"
proof -
  let ?caps = "\<lparr>per_tool_window_s = 10, per_tool_cap = 1, global_window_s = 10, global_cap = 1\<rparr>"
  have run: "snd (run_calls (new_limiter (Some ?caps)) [(0, ''t'', ''q''), (1, ''t'', ''q'')])
      = [((0, ''t'', ''q''), True), ((1, ''t'', ''q''), False)]"
    by (simp add: allow_call_def new_limiter_def dget_def evict_def Let_def)
  show ?thesis
    using token_limiter_caps [where calls = "[(0, ''t'', ''q''), (1, ''t'', ''q'')]" and caps = ?caps and
        tok = "''t''" and x = 0, OF _ prod.collapse [symmetric]]
    unfolding run by simp
qed

lemma evict_evict: "h \<le> h' \<Longrightarrow> evict (evict ts h) h' = evict ts h'"
  unfolding evict_def by (induction ts) auto

text \<open>A denied call leaves no trace: after it, every later call of any token on any tool gets the
  answer it would have got without it.\<close>

theorem denied_call_not_recorded:
  assumes "allow_call lm tok tool now = (lm', False, r)" and "now \<le> now'"
  shows "snd (allow_call lm' tok' tool' now') = snd (allow_call lm tok' tool' now')"
proof -
  have caps: "lim_caps lm' = lim_caps lm"
    using allow_call_caps [of lm tok tool now] assms(1) by simp
  have g: "evict (dget [] k (lim_global lm')) (now' - global_window_s (lim_caps lm))
      = evict (dget [] k (lim_global lm)) (now' - global_window_s (lim_caps lm))" for k
    using assms by (auto simp: allow_call_def Let_def evict_evict split: if_splits)
  have p: "evict (dget [] k (lim_per_tool lm')) (now' - per_tool_window_s (lim_caps lm))
      = evict (dget [] k (lim_per_tool lm)) (now' - per_tool_window_s (lim_caps lm))" for k
    using assms by (auto simp: allow_call_def Let_def evict_evict split: if_splits)
  show ?thesis by (simp add: allow_call_def Let_def caps g p)
qed

theorem denied_call_not_recorded_witness:
  "snd (allow_call (fst (allow_call (new_limiter (Some \<lparr>per_tool_window_s = 10, per_tool_cap = 0,
       global_window_s = 10, global_cap = 1\<rparr>)) ''t'' ''q'' 0)) ''t'' ''q'' 5)
   = snd (allow_call (new_limiter (Some \<lparr>per_tool_window_s = 10, per_tool_cap = 0,
       global_window_s = 10, global_cap = 1\<rparr>)) ''t'' ''q'' 5)"
proof -
  let ?lm = "new_limiter (Some \<lparr>per_tool_window_s = 10, per_tool_cap = 0, global_window_s = 10, global_cap = 1\<rparr>)"
  obtain lm' r where "allow_call ?lm ''t'' ''q'' 0 = (lm', False, r)"
    by (simp add: allow_call_def new_limiter_def Let_def)
  then show ?thesis using denied_call_not_recorded [of ?lm "''t''" "''q''" 0 lm' r 5] by simp
qed

subsection \<open>The request and login limiter of the API\<close>

record rate_decision =
  rd_allowed :: bool
  rd_remaining :: int
  rd_retry_after :: int

record attempts =
  att_count :: int
  first_ts :: real
  locked_until :: real

record mem_backend =
  mem_buckets :: "(string, real list) dict"
  mem_login :: "(string, attempts) dict"

definition new_backend :: mem_backend where
  "new_backend = \<lparr>mem_buckets = [], mem_login = []\<rparr>"

text \<open>\<open>hit\<close>. The pruned bucket is stored before the check, so it is in the new state also when
  \<open>timestamps[0]\<close> raises.\<close>

definition prune_after :: "real \<Rightarrow> real \<Rightarrow> real list \<Rightarrow> real list" where
  "prune_after w now ts = filter (\<lambda>t. now - w < t) ts"

definition mem_hit ::
  "mem_backend \<Rightarrow> string \<Rightarrow> int \<Rightarrow> real \<Rightarrow> real \<Rightarrow> mem_backend \<times> rate_decision result" where
  "mem_hit m key limit window_seconds now =
     (let timestamps = prune_after window_seconds now (dget [] key (mem_buckets m));
          m1 = m\<lparr>mem_buckets := AList.update key timestamps (mem_buckets m)\<rparr>
      in if limit \<le> int (length timestamps)
         then (case timestamps of
                 [] \<Rightarrow> (m1, Inl IndexError)
               | t0 # _ \<Rightarrow> (m1, Inr \<lparr>rd_allowed = False, rd_remaining = 0,
                                  rd_retry_after = py_trunc (window_seconds - (now - t0)) + 1\<rparr>))
         else (let timestamps' = timestamps @ [now] in
                 (m\<lparr>mem_buckets := AList.update key timestamps' (mem_buckets m)\<rparr>,
                  Inr \<lparr>rd_allowed = True, rd_remaining = max 0 (limit - int (length timestamps')),
                       rd_retry_after = 0\<rparr>)))"

definition record_login_failure ::
  "mem_backend \<Rightarrow> string \<Rightarrow> int \<Rightarrow> real \<Rightarrow> real \<Rightarrow> real \<Rightarrow> mem_backend \<times> bool" where
  "record_login_failure m key max_attempts window_seconds lockout_seconds now =
     (let a0 = (case map_of (mem_login m) key of
                  None \<Rightarrow> \<lparr>att_count = 0, first_ts = now, locked_until = 0\<rparr>
                | Some a \<Rightarrow> if window_seconds < now - first_ts a
                            then \<lparr>att_count = 0, first_ts = now, locked_until = 0\<rparr> else a);
          a1 = a0\<lparr>att_count := att_count a0 + 1\<rparr>;
          locked = max_attempts \<le> att_count a1;
          a2 = (if locked then a1\<lparr>locked_until := now + lockout_seconds\<rparr> else a1)
      in (m\<lparr>mem_login := AList.update key a2 (mem_login m)\<rparr>, locked))"

definition record_login_success :: "mem_backend \<Rightarrow> string \<Rightarrow> mem_backend" where
  "record_login_success m key = m\<lparr>mem_login := AList.delete key (mem_login m)\<rparr>"

definition login_locked :: "mem_backend \<Rightarrow> string \<Rightarrow> real \<Rightarrow> bool" where
  "login_locked m key now = (case map_of (mem_login m) key of None \<Rightarrow> False
                              | Some a \<Rightarrow> now < locked_until a)"

definition login_retry_after :: "mem_backend \<Rightarrow> string \<Rightarrow> real \<Rightarrow> int" where
  "login_retry_after m key now = (case map_of (mem_login m) key of None \<Rightarrow> 0
     | Some a \<Rightarrow> if locked_until a \<le> now then 0 else py_trunc (locked_until a - now) + 1)"

text \<open>A history of requests of one key, all with the limiter's configured limit and window.\<close>

fun run_hits :: "mem_backend \<Rightarrow> string \<Rightarrow> int \<Rightarrow> real \<Rightarrow> real list \<Rightarrow> mem_backend \<times> (real \<times> bool) list" where
  "run_hits m key limit w [] = (m, [])"
| "run_hits m key limit w (t # ts) =
     (case mem_hit m key limit w t of (m', r) \<Rightarrow>
       (case run_hits m' key limit w ts of (m'', rs) \<Rightarrow>
         (m'', (t, (case r of Inr d \<Rightarrow> rd_allowed d | Inl _ \<Rightarrow> False)) # rs)))"

definition in_win :: "real \<Rightarrow> real \<Rightarrow> real \<Rightarrow> bool" where
  "in_win w now t \<longleftrightarrow> now - w < t"

interpretation request_log: sliding_log "prune_after w" "in_win w" for w
  by unfold_locales (auto simp: prune_after_def in_win_def [abs_def])

definition allowed_times :: "(real \<times> bool) list \<Rightarrow> real list" where
  "allowed_times rs = map fst (filter snd rs)"

lemma mem_hit_inv:
  assumes "log_inv (in_win w) limit now A (dget [] key (mem_buckets m))" and "now \<le> t"
    and "mem_hit m key limit w t = (m', r)"
  shows "log_inv (in_win w) limit t
           (A @ (if (case r of Inr d \<Rightarrow> rd_allowed d | Inl _ \<Rightarrow> False) then [t] else []))
           (dget [] key (mem_buckets m'))"
  using assms(3) request_log.inv_prune [OF assms(1,2)] request_log.inv_admit [OF assms(1,2)]
  by (auto simp: mem_hit_def Let_def split: if_splits list.splits)

lemma run_hits_inv:
  "log_inv (in_win w) limit now A (dget [] key (mem_buckets m)) \<Longrightarrow> sorted ts \<Longrightarrow>
   (\<forall>t\<in>set ts. now \<le> t) \<Longrightarrow> run_hits m key limit w ts = (m', rs) \<Longrightarrow>
   \<exists>now'. log_inv (in_win w) limit now' (A @ allowed_times rs) (dget [] key (mem_buckets m'))"
proof (induction ts arbitrary: m now A rs)
  case Nil
  then show ?case by (auto simp: allowed_times_def)
next
  case (Cons t ts)
  obtain m1 r where step: "mem_hit m key limit w t = (m1, r)" by (cases "mem_hit m key limit w t")
  obtain rs1 where rs1: "run_hits m1 key limit w ts = (m', rs1)"
    "rs = (t, (case r of Inr d \<Rightarrow> rd_allowed d | Inl _ \<Rightarrow> False)) # rs1"
    using Cons.prems(4) by (auto simp: step split: prod.splits)
  have "now \<le> t" using Cons.prems(3) by simp
  from Cons.IH [OF mem_hit_inv [OF Cons.prems(1) this step] _ _ rs1(1)] Cons.prems(2)
  show ?case by (auto simp: rs1(2) allowed_times_def split: if_splits)
qed

text \<open>Over any history of requests of one key in time order, at most \<open>limit\<close> are allowed in any
  half-open interval of the window's length.\<close>

theorem request_limit:
  assumes "sorted ts" and "run_hits new_backend key limit w ts = (m, rs)"
  shows "int (length (filter (\<lambda>t. x < t \<and> t \<le> x + w) (allowed_times rs))) \<le> max 0 limit"
proof -
  let ?now = "case ts of [] \<Rightarrow> 0 | t # _ \<Rightarrow> t"
  have now: "\<forall>t\<in>set ts. ?now \<le> t" using assms(1) by (cases ts) auto
  have "log_inv (in_win w) limit ?now [] (dget [] key (mem_buckets new_backend))"
    by (simp add: new_backend_def dget_def request_log.inv_init)
  from run_hits_inv [OF this assms(1) now assms(2)] obtain now' where
    inv: "log_inv (in_win w) limit now' (allowed_times rs) (dget [] key (mem_buckets m))" by auto
  show ?thesis by (rule request_log.burst_bound [OF inv]) (auto simp: in_win_def)
qed

theorem request_limit_witness:
  "int (length (filter (\<lambda>t. -1 < t \<and> t \<le> -1 + 60) (allowed_times [(0, True), (1, False)]))) \<le> max 0 (1::int)"
proof -
  obtain m rs where run: "run_hits new_backend ''k'' 1 60 [0, 1] = (m, rs)"
    by (cases "run_hits new_backend ''k'' 1 60 [0, 1]")
  then have "rs = [(0, True), (1, False)]"
    by (auto simp: mem_hit_def new_backend_def dget_def prune_after_def Let_def)
  moreover have "int (length (filter (\<lambda>t. -1 < t \<and> t \<le> -1 + 60) (allowed_times rs))) \<le> max 0 (1::int)"
    by (rule request_limit [OF _ run]) simp
  ultimately show ?thesis by simp
qed

text \<open>\<open>hit\<close> raises \<open>IndexError\<close> exactly when the configured limit is not positive and the key has
  no live request; with a positive limit every call returns a decision.\<close>

lemma mem_hit_error_iff:
  "(\<exists>e. snd (mem_hit m key limit w now) = Inl e) \<longleftrightarrow>
     limit \<le> 0 \<and> prune_after w now (dget [] key (mem_buckets m)) = []"
  by (auto simp: mem_hit_def Let_def split: list.splits)

text \<open>\<open>Retry-After\<close> is honest: it is at least one second, and a client that waits that long (with
  no other request of its key in between) is allowed.\<close>

theorem retry_after_sound:
  assumes "mem_hit m key limit w now = (m', Inr d)" and "\<not> rd_allowed d"
    and "int (length (dget [] key (mem_buckets m))) \<le> limit"
    and "\<forall>t\<in>set (dget [] key (mem_buckets m)). t \<le> now"
    and "now + rd_retry_after d \<le> now'"
  shows "1 \<le> rd_retry_after d
    \<and> (\<exists>d'. snd (mem_hit m' key limit w now') = Inr d' \<and> rd_allowed d')"
proof -
  define ts where "ts = prune_after w now (dget [] key (mem_buckets m))"
  from assms(1,2) obtain t0 rest where ts: "ts = t0 # rest" and lim: "limit \<le> int (length ts)"
    and m': "dget [] key (mem_buckets m') = ts"
    and d: "rd_retry_after d = py_trunc (w - (now - t0)) + 1"
    by (auto simp: mem_hit_def Let_def ts_def split: if_splits list.splits)
  have "t0 \<in> set ts" by (simp add: ts)
  then have live: "0 < w - (now - t0)" by (simp add: ts_def prune_after_def)
  have "w - (now - t0) < real_of_int (rd_retry_after d)"
    using py_trunc_bounds [of "w - (now - t0)"] live by (simp add: d)
  with assms(5) have expired: "\<not> now' - w < t0" by simp
  have "prune_after w now' ts = prune_after w now' rest"
    using expired by (simp add: ts prune_after_def)
  moreover have "length (prune_after w now' rest) \<le> length rest"
    by (simp add: prune_after_def)
  moreover have "int (length ts) \<le> limit"
    using assms(3) by (auto simp: ts_def prune_after_def intro: order_trans [OF _ assms(3)])
  ultimately have "int (length (prune_after w now' (dget [] key (mem_buckets m')))) < limit"
    by (simp add: m' ts)
  then have "\<exists>d'. snd (mem_hit m' key limit w now') = Inr d' \<and> rd_allowed d'"
    by (auto simp: mem_hit_def Let_def)
  moreover have "1 \<le> rd_retry_after d" using live by (simp add: d)
  ultimately show ?thesis by blast
qed

theorem retry_after_sound_witness:
  "\<exists>d'. snd (mem_hit \<lparr>mem_buckets = [(''k'', [0])], mem_login = []\<rparr> ''k'' 1 60 60) = Inr d' \<and> rd_allowed d'"
proof -
  let ?m = "\<lparr>mem_buckets = [(''k'', [0])], mem_login = []\<rparr>"
  have run: "mem_hit ?m ''k'' 1 60 1 = (?m, Inr \<lparr>rd_allowed = False, rd_remaining = 0, rd_retry_after = 60\<rparr>)"
    by (simp add: mem_hit_def dget_def prune_after_def Let_def py_trunc_def)
  show ?thesis using retry_after_sound [OF run, of 61] by (simp add: mem_hit_def dget_def prune_after_def Let_def)
qed

text \<open>A burst of failed logins of one key, with the answer (newly locked or not) of each.\<close>

fun run_failures ::
  "mem_backend \<Rightarrow> string \<Rightarrow> int \<Rightarrow> real \<Rightarrow> real \<Rightarrow> real list \<Rightarrow> mem_backend \<times> bool list" where
  "run_failures m key max_attempts w lockout [] = (m, [])"
| "run_failures m key max_attempts w lockout (t # ts) =
     (case record_login_failure m key max_attempts w lockout t of (m', b) \<Rightarrow>
       (case run_failures m' key max_attempts w lockout ts of (m'', bs) \<Rightarrow> (m'', b # bs)))"

lemma login_locked_update [simp]:
  "login_locked (m\<lparr>mem_login := AList.update key a (mem_login m)\<rparr>) key' now =
     (if key' = key then now < locked_until a else login_locked m key' now)"
  by (simp add: login_locked_def)

lemma record_login_failure_other:
  "key' \<noteq> key \<Longrightarrow> map_of (mem_login (fst (record_login_failure m key k w l t))) key' = map_of (mem_login m) key'"
  by (simp add: record_login_failure_def Let_def)

lemma run_failures_other:
  "key' \<noteq> key \<Longrightarrow> map_of (mem_login (fst (run_failures m key k w l ts))) key' = map_of (mem_login m) key'"
proof (induction ts arbitrary: m)
  case (Cons t ts)
  then show ?case
    using record_login_failure_other [of key' key m k w l t] by (simp add: split_beta)
qed simp

lemma run_failures_tracked:
  assumes "map_of (mem_login m) key = Some a" and "\<forall>t\<in>set ts. t - first_ts a \<le> w"
    and "run_failures m key k w l ts = (m', bs)"
  shows "bs = map (\<lambda>i. k \<le> att_count a + int (Suc i)) [0..<length ts]
    \<and> map_of (mem_login m') key = Some (a\<lparr>att_count := att_count a + int (length ts),
         locked_until := (if ts \<noteq> [] \<and> k \<le> att_count a + int (length ts)
                          then last ts + l else locked_until a)\<rparr>)"
  using assms
proof (induction ts arbitrary: m a bs)
  case Nil
  then show ?case by simp
next
  case (Cons t ts)
  let ?a = "a\<lparr>att_count := att_count a + 1,
      locked_until := (if k \<le> att_count a + 1 then t + l else locked_until a)\<rparr>"
  obtain m1 b where step: "record_login_failure m key k w l t = (m1, b)"
    by (cases "record_login_failure m key k w l t")
  have b: "b = (k \<le> att_count a + 1)" and m1: "map_of (mem_login m1) key = Some ?a"
    using step Cons.prems(1,2) by (auto simp: record_login_failure_def Let_def not_less)
  obtain bs1 where run: "run_failures m1 key k w l ts = (m', bs1)" "bs = b # bs1"
    using Cons.prems(3) by (auto simp: step split: prod.splits)
  have "\<forall>t\<in>set ts. t - first_ts ?a \<le> w" using Cons.prems(2) by simp
  from Cons.IH [OF m1 this run(1)]
  have IH: "bs1 = map (\<lambda>i. k \<le> att_count a + 1 + int (Suc i)) [0..<length ts]"
    "map_of (mem_login m') key = Some (?a\<lparr>att_count := att_count a + 1 + int (length ts),
       locked_until := (if ts \<noteq> [] \<and> k \<le> att_count a + 1 + int (length ts) then last ts + l
                        else locked_until ?a)\<rparr>)"
    by simp_all
  have "bs = map (\<lambda>i. k \<le> att_count a + int (Suc i)) [0..<length (t # ts)]"
    unfolding run(2) IH(1) b list.size add_0_right
    by (simp only: upt_conv_Cons zero_less_Suc map_Suc_upt [symmetric] list.map map_map add_Suc_right)
       (simp add: algebra_simps)
  with IH(2) show ?case by (auto simp: algebra_simps)
qed

text \<open>The login lockout: when a key has no failures on record, a burst of failures in one window
  locks it at exactly the \<open>max_attempts\<close>-th failure and at each one after it; the key is then locked
  until the configured time after the last failure, and not before that many failures; no other key is
  affected.\<close>

theorem login_lockout:
  assumes "map_of (mem_login m) key = None" and "ts \<noteq> []" and "\<forall>t\<in>set ts. t - hd ts \<le> w" and "0 \<le> w"
    and "run_failures m key max_attempts w lockout ts = (m', bs)" and "0 \<le> now"
  shows "bs = map (\<lambda>i. max_attempts \<le> int (Suc i)) [0..<length ts]
    \<and> (login_locked m' key now \<longleftrightarrow> max_attempts \<le> int (length ts) \<and> now < last ts + lockout)
    \<and> (key' \<noteq> key \<longrightarrow> login_locked m' key' now = login_locked m key' now)"
proof -
  obtain t0 rest where ts: "ts = t0 # rest" using assms(2) by (cases ts) auto
  let ?fresh = "m\<lparr>mem_login := AList.update key \<lparr>att_count = 0, first_ts = t0, locked_until = 0\<rparr> (mem_login m)\<rparr>"
  have "record_login_failure ?fresh key max_attempts w lockout t0
      = record_login_failure m key max_attempts w lockout t0"
    using assms(1,4) by (simp add: record_login_failure_def Let_def)
  then have run: "run_failures ?fresh key max_attempts w lockout ts = (m', bs)"
    using assms(5) by (simp add: ts)
  have win: "\<forall>t\<in>set ts. t - first_ts \<lparr>att_count = 0, first_ts = t0, locked_until = 0\<rparr> \<le> w"
    using assms(3) by (simp add: ts)
  have "map_of (mem_login ?fresh) key = Some \<lparr>att_count = 0, first_ts = t0, locked_until = 0\<rparr>" by simp
  note tracked = run_failures_tracked [OF this win run]
  have "map_of (mem_login m') key' = map_of (mem_login m) key'" if "key' \<noteq> key"
    using run_failures_other [OF that, of m max_attempts w lockout ts] assms(5) by simp
  with tracked assms(2,6) show ?thesis by (auto simp: login_locked_def)
qed

theorem login_lockout_witness:
  "login_locked (fst (run_failures new_backend ''bob'' 2 900 60 [0, 5])) ''bob'' 50"
proof -
  obtain m bs where run: "run_failures new_backend ''bob'' 2 900 60 [0, 5] = (m, bs)"
    by (cases "run_failures new_backend ''bob'' 2 900 60 [0, 5]")
  have "bs = map (\<lambda>i. 2 \<le> int (Suc i)) [0..<length [0::real, 5]]
    \<and> (login_locked m ''bob'' 50 \<longleftrightarrow> 2 \<le> int (length [0::real, 5]) \<and> 50 < last [0::real, 5] + 60)
    \<and> (''eve'' \<noteq> ''bob'' \<longrightarrow> login_locked m ''eve'' 50 = login_locked new_backend ''eve'' 50)"
    by (rule login_lockout [OF _ _ _ _ run]) (simp_all add: new_backend_def)
  then show ?thesis by (simp add: run del: run_failures.simps)
qed

end
