(* ===== verification/Channel_Gate.thy ===== *)
theory Channel_Gate
  imports Rate_Limits
begin

text \<open>
  The gate of the chat bots (\<open>opsrag/channels/permission.py\<close>): a channel allowlist, a deny-by-default
  allowlist for direct messages and a rolling daily quota per user. The quota's bucket is the third
  pruned log; the gate prunes it in \<open>allow\<close> and in \<open>record_usage\<close>, and only the latter appends, so the
  cap holds for the callers that ask before they record. The fields \<open>images\<close> and \<open>raw\<close> of a message,
  which the gate does not read, are left out.
\<close>

record inbound_message =
  channel_id :: string
  user_id :: string
  msg_text :: string
  message_id :: string
  thread_id :: "string option"
  is_dm :: bool
  workspace :: "string option"

record channel_permission =
  allowed_channels :: "string set"
  quota :: int
  allowed_dm_users :: "string set"
  deny_dm_message :: string
  usage :: "(string, real list) dict"

definition one_day_s :: real where
  "one_day_s = 24 * 60 * 60"

definition default_deny_message :: string where
  "default_deny_message = ''Sorry, I'm not enabled in that channel. Ping #devops if you want me added.''"

definition new_permission ::
  "string list \<Rightarrow> int \<Rightarrow> string list option \<Rightarrow> string \<Rightarrow> channel_permission" where
  "new_permission chans q dm_users deny_msg =
     \<lparr>allowed_channels = set chans, quota = q,
      allowed_dm_users = set (case dm_users of None \<Rightarrow> [] | Some us \<Rightarrow> us),
      deny_dm_message = deny_msg, usage = []\<rparr>"

definition live_usage :: "real \<Rightarrow> real list \<Rightarrow> real list" where
  "live_usage now bucket = filter (\<lambda>t. now - t < one_day_s) bucket"

definition quota_message :: "int \<Rightarrow> string" where
  "quota_message q = ''You've hit the daily quota of '' @ str_int q @ '' questions. Try again tomorrow.''"

text \<open>The answer: \<open>(ok, deny_reason)\<close>, with \<open>None\<close> for the silent denial.\<close>

definition perm_allow ::
  "channel_permission \<Rightarrow> inbound_message \<Rightarrow> real \<Rightarrow> channel_permission \<times> bool \<times> string option" where
  "perm_allow p msg now =
     (let channel = channel_id msg; user = user_id msg;
          denied =
            (if is_dm msg
             then (if ''*'' \<notin> allowed_dm_users p \<and> user \<notin> allowed_dm_users p then Some None else None)
             else if channel = [] then Some None
             else if channel \<notin> allowed_channels p then Some (Some (deny_dm_message p))
             else None)
      in case denied of
           Some reason \<Rightarrow> (p, False, reason)
         | None \<Rightarrow>
             if user \<noteq> [] \<and> 0 < quota p
             then (let bucket = live_usage now (dget [] user (usage p));
                       p1 = p\<lparr>usage := AList.update user bucket (usage p)\<rparr>
                   in if quota p \<le> int (length bucket)
                      then (p1, False, Some (quota_message (quota p)))
                      else (p1, True, None))
             else (p, True, None))"

definition record_usage :: "channel_permission \<Rightarrow> string \<Rightarrow> real \<Rightarrow> channel_permission" where
  "record_usage p user now =
     (if user = [] then p
      else p\<lparr>usage := AList.update user (live_usage now (dget [] user (usage p)) @ [now]) (usage p)\<rparr>)"

definition usage_count :: "channel_permission \<Rightarrow> string \<Rightarrow> real \<Rightarrow> nat" where
  "usage_count p user now = length (filter (\<lambda>t. now - t < one_day_s) (dget [] user (usage p)))"

definition live_at :: "real \<Rightarrow> real \<Rightarrow> bool" where
  "live_at now t \<longleftrightarrow> now - t < one_day_s"

interpretation usage_log: sliding_log live_usage live_at
  by unfold_locales (auto simp: live_usage_def live_at_def [abs_def])

lemma live_usage_live_usage: "now \<le> now' \<Longrightarrow> live_usage now' (live_usage now ts) = live_usage now' ts"
  using usage_log.filter_later [of now now' ts] by (simp add: live_usage_def live_at_def [abs_def])

text \<open>The gate's decision: a direct message is let through exactly when its user is listed (or
  everybody is) and under quota, a channel message exactly when its channel has an id and is listed and
  its user is under quota; an unlisted direct message gets no reply at all, and no denial is recorded
  as usage.\<close>

theorem perm_allow_iff:
  "(fst (snd (perm_allow p msg now)) \<longleftrightarrow>
      (if is_dm msg then ''*'' \<in> allowed_dm_users p \<or> user_id msg \<in> allowed_dm_users p
       else channel_id msg \<noteq> [] \<and> channel_id msg \<in> allowed_channels p)
      \<and> (user_id msg = [] \<or> quota p \<le> 0 \<or> int (usage_count p (user_id msg) now) < quota p))
   \<and> (snd (snd (perm_allow p msg now)) = None \<longleftrightarrow>
        fst (snd (perm_allow p msg now))
        \<or> (if is_dm msg then ''*'' \<notin> allowed_dm_users p \<and> user_id msg \<notin> allowed_dm_users p
           else channel_id msg = []))
   \<and> usage_count (fst (perm_allow p msg now)) u now = usage_count p u now"
proof -
  have "length (filter (\<lambda>t. now - t < one_day_s) (live_usage now ts))
      = length (filter (\<lambda>t. now - t < one_day_s) ts)" for ts
    by (simp add: live_usage_def)
  then show ?thesis
    by (simp add: perm_allow_def Let_def usage_count_def live_usage_def not_le)
qed

text \<open>The dispatcher's use: ask, and record after a successful run (\<open>ok_run\<close>).\<close>

fun run_messages ::
  "channel_permission \<Rightarrow> (real \<times> inbound_message \<times> bool) list \<Rightarrow> channel_permission \<times> (real \<times> string) list" where
  "run_messages p [] = (p, [])"
| "run_messages p ((now, msg, ok_run) # ms) =
     (case perm_allow p msg now of (p1, ok, _) \<Rightarrow>
       if ok \<and> ok_run
       then (case run_messages (record_usage p1 (user_id msg) now) ms of
               (p2, rs) \<Rightarrow> (p2, (now, user_id msg) # rs))
       else run_messages p1 ms)"

definition served :: "string \<Rightarrow> (real \<times> string) list \<Rightarrow> real list" where
  "served user rs = map fst (filter (\<lambda>r. snd r = user) rs)"

definition usage_inv :: "channel_permission \<Rightarrow> real \<Rightarrow> (real \<times> string) list \<Rightarrow> bool" where
  "usage_inv p now rs \<longleftrightarrow>
     (\<forall>u. u \<noteq> [] \<longrightarrow> log_inv live_at (quota p) now (served u rs) (dget [] u (usage p)))"

lemma perm_allow_config:
  "quota (fst (perm_allow p msg now)) = quota p"
  "quota (record_usage p u now) = quota p"
  by (auto simp: perm_allow_def record_usage_def Let_def split: option.splits)

lemma perm_allow_inv:
  assumes "usage_inv p now rs" and "now \<le> t"
  shows "usage_inv (fst (perm_allow p msg t)) t rs"
proof -
  have u: "log_inv live_at (quota p) now (served u rs) (dget [] u (usage p))" if "u \<noteq> []" for u
    using assms(1) that by (simp add: usage_inv_def)
  note usage_log.inv_later [OF u assms(2)] usage_log.inv_prune [OF u assms(2)]
  then show ?thesis
    by (auto simp: usage_inv_def perm_allow_def Let_def split: option.splits)
qed

lemma served_step_inv:
  assumes "usage_inv p now rs" and "now \<le> t" and "0 < quota p"
    and "perm_allow p msg t = (p1, True, r)"
  shows "usage_inv (record_usage p1 (user_id msg) t) t (rs @ [(t, user_id msg)])"
proof (cases "user_id msg = []")
  case True
  with perm_allow_inv [OF assms(1,2), of msg] assms(4) show ?thesis
    by (auto simp: usage_inv_def record_usage_def served_def)
next
  case False
  have u: "log_inv live_at (quota p) now (served u rs) (dget [] u (usage p))" if "u \<noteq> []" for u
    using assms(1) that by (simp add: usage_inv_def)
  have p1: "p1 = p\<lparr>usage := AList.update (user_id msg) (live_usage t (dget [] (user_id msg) (usage p))) (usage p)\<rparr>"
    and cap: "int (length (live_usage t (dget [] (user_id msg) (usage p)))) < quota p"
    using assms(3,4) False by (auto simp: perm_allow_def Let_def split: option.splits if_splits)
  have here: "served (user_id msg) (rs @ [(t, user_id msg)]) = served (user_id msg) rs @ [t]"
    and there: "\<And>u. u \<noteq> user_id msg \<Longrightarrow> served u (rs @ [(t, user_id msg)]) = served u rs"
    by (auto simp: served_def)
  show ?thesis
    using usage_log.inv_later [OF u assms(2)] usage_log.inv_admit [OF u [OF False] assms(2) cap] False
    by (auto simp: usage_inv_def record_usage_def p1 here there live_usage_live_usage)
qed

lemma run_messages_inv:
  "usage_inv p now rs \<Longrightarrow> 0 < quota p \<Longrightarrow> sorted (map fst ms) \<Longrightarrow> (\<forall>x\<in>set ms. now \<le> fst x) \<Longrightarrow>
   run_messages p ms = (p', rs') \<Longrightarrow>
   quota p' = quota p \<and> (\<exists>now'. usage_inv p' now' (rs @ rs'))"
proof (induction ms arbitrary: p now rs rs')
  case Nil
  then show ?case by auto
next
  case (Cons x ms)
  obtain t msg ok_run where x: "x = (t, msg, ok_run)" by (cases x)
  obtain p1 ok r where step: "perm_allow p msg t = (p1, ok, r)" by (cases "perm_allow p msg t")
  have t: "now \<le> t" and later: "\<forall>y\<in>set ms. t \<le> fst y" and srt: "sorted (map fst ms)"
    using Cons.prems(3,4) by (auto simp: x)
  have q1: "quota p1 = quota p" using perm_allow_config(1) [of p msg t] by (simp add: step)
  show ?case
  proof (cases "ok \<and> ok_run")
    case True
    obtain rs1 where run: "run_messages (record_usage p1 (user_id msg) t) ms = (p', rs1)"
      "rs' = (t, user_id msg) # rs1"
      using Cons.prems(5) True by (auto simp: x step split: prod.splits)
    have "usage_inv (record_usage p1 (user_id msg) t) t (rs @ [(t, user_id msg)])"
      using served_step_inv [OF Cons.prems(1) t Cons.prems(2)] step True by simp
    from Cons.IH [OF this _ srt later run(1)] show ?thesis
      using Cons.prems(2) by (simp add: perm_allow_config(2) q1 run(2))
  next
    case False
    have "run_messages p1 ms = (p', rs')" using Cons.prems(5) False by (simp add: x step)
    from Cons.IH [OF _ _ srt later this] perm_allow_inv [OF Cons.prems(1) t, of msg] Cons.prems(2)
    show ?thesis by (simp add: step q1)
  qed
qed

text \<open>The daily quota: when each message is asked for and recorded before the next, a user with an
  id has at most \<open>quota\<close> successful runs in any half-open day.\<close>

theorem daily_quota:
  assumes "0 < q" and "sorted (map fst ms)"
    and "run_messages (new_permission chans q dm_users deny_msg) ms = (p, rs)" and "user \<noteq> []"
  shows "int (length (filter (\<lambda>t. x < t \<and> t \<le> x + one_day_s) (served user rs))) \<le> q"
proof -
  let ?now = "case ms of [] \<Rightarrow> 0 | m # _ \<Rightarrow> fst m"
  let ?p0 = "new_permission chans q dm_users deny_msg"
  have q0: "quota ?p0 = q" by (simp add: new_permission_def)
  have now: "\<forall>m\<in>set ms. ?now \<le> fst m" using assms(2) by (cases ms) auto
  have "usage_inv ?p0 ?now []"
    by (simp add: usage_inv_def new_permission_def served_def dget_def usage_log.inv_init)
  from run_messages_inv [OF this _ assms(2) now assms(3)] obtain now' where
    "usage_inv p now' rs" "quota p = q" using assms(1) by (auto simp: q0)
  then have "log_inv live_at q now' (served user rs) (dget [] user (usage p))"
    using assms(4) by (simp add: usage_inv_def)
  from usage_log.burst_bound [OF this, of "\<lambda>t. x < t \<and> t \<le> x + one_day_s"] assms(1)
  show ?thesis by (simp add: live_at_def)
qed

theorem daily_quota_witness:
  "\<exists>rs. snd (run_messages (new_permission [] 1 (Some [''*'']) default_deny_message)
        [(0, \<lparr>channel_id = ''d'', user_id = ''u'', msg_text = ''hi'', message_id = ''1'',
              thread_id = None, is_dm = True, workspace = None\<rparr>, True),
         (1, \<lparr>channel_id = ''d'', user_id = ''u'', msg_text = ''hi'', message_id = ''2'',
              thread_id = None, is_dm = True, workspace = None\<rparr>, True)]) = rs
     \<and> rs = [(0, ''u'')] \<and> int (length (filter (\<lambda>t. -1 < t \<and> t \<le> -1 + one_day_s) (served ''u'' rs))) \<le> 1"
proof -
  let ?msg = "\<lambda>i. \<lparr>channel_id = ''d'', user_id = ''u'', msg_text = ''hi'', message_id = i,
              thread_id = None, is_dm = True, workspace = None\<rparr>"
  let ?ms = "[(0, ?msg ''1'', True), (1, ?msg ''2'', True)]"
  let ?p = "new_permission [] 1 (Some [''*'']) default_deny_message"
  obtain p rs where run: "run_messages ?p ?ms = (p, rs)" by (cases "run_messages ?p ?ms")
  have "rs = [(0, ''u'')]"
    using run by (auto simp: new_permission_def perm_allow_def record_usage_def live_usage_def
      one_day_s_def dget_def Let_def)
  moreover have "int (length (filter (\<lambda>t. -1 < t \<and> t \<le> -1 + one_day_s) (served ''u'' rs))) \<le> 1"
    by (rule daily_quota [OF _ _ run]) simp_all
  ultimately show ?thesis by (simp add: run del: run_messages.simps)
qed

end
