(* ===== verification/Authz.thy ===== *)
theory Authz
  imports Py_Prelude
begin

text \<open>
  Scopes and roles: \<open>opsrag/auth/scopes.py\<close>, the identity dependency of
  \<open>opsrag/auth/middleware.py\<close> and the claims of \<open>opsrag/auth/oidc.py\<close>. The module global
  \<open>_DEFAULT_ROLES\<close> is an argument. The cryptography is outside: \<open>verify\<close> is
  \<open>OIDCVerifier.verify\<close> (PyJWT on the issuer's keys), which yields the claims of a token or raises,
  and \<open>cookie\<close> is the payload that \<open>SessionManager.verify_session\<close> reads off the signed cookie.
\<close>

subsection \<open>Roles and scopes\<close>

definition scope_chat :: string where "scope_chat = ''chat''"
definition scope_investigate :: string where "scope_investigate = ''investigate''"
definition scope_mcp :: string where "scope_mcp = ''mcp''"
definition scope_admin :: string where "scope_admin = ''admin''"

lemmas scope_names = scope_chat_def scope_investigate_def scope_mcp_def scope_admin_def

definition all_scopes :: "string set" where
  "all_scopes = {scope_chat, scope_investigate, scope_mcp, scope_admin}"

definition role_scopes :: "(string, string list) dict" where
  "role_scopes =
     [(''admin'', [scope_chat, scope_investigate, scope_mcp, scope_admin]),
      (''member_chat'', [scope_chat]),
      (''member_investigate'', [scope_chat, scope_investigate]),
      (''member_mcp'', [scope_mcp])]"

definition default_role :: string where "default_role = ''member_investigate''"
definition admin_role :: string where "admin_role = ''admin''"

definition set_default_roles :: "string list option \<Rightarrow> string set" where
  "set_default_roles roles =
     (let cleaned = set (map py_strip (filter (\<lambda>r. r \<noteq> [] \<and> py_strip r \<noteq> [])
                          (case roles of None \<Rightarrow> [] | Some rs \<Rightarrow> rs)))
      in if cleaned \<noteq> {} then cleaned else {default_role})"

definition resolve_roles ::
  "string set \<Rightarrow> string list \<Rightarrow> (string, string list) dict option \<Rightarrow> bool \<Rightarrow> string set" where
  "resolve_roles defaults groups role_mappings is_admin =
     (let mappings = (case role_mappings of None \<Rightarrow> [] | Some m \<Rightarrow> m);
          mapped = fold (\<lambda>g roles. case map_of mappings g of
                            Some (r # rs) \<Rightarrow> roles \<union> set (r # rs) | _ \<Rightarrow> roles) groups {};
          roles = (if is_admin then insert admin_role mapped else mapped)
      in if roles = {} then defaults else roles)"

definition scopes_for_roles :: "string set \<Rightarrow> string set" where
  "scopes_for_roles roles = (\<Union>role\<in>roles. set (dget [] role role_scopes))"

record current_user =
  sub :: "string option"
  email :: json
  user_name :: json
  picture_url :: json
  groups :: "string list"
  is_anonymous :: bool
  roles :: "string set"
  scopes :: "string set"

definition anonymous :: current_user where
  "anonymous = \<lparr>sub = None, email = JNull, user_name = JNull, picture_url = JNull, groups = [],
                is_anonymous = True, roles = {}, scopes = {}\<rparr>"

definition with_authz :: "current_user \<Rightarrow> string set \<Rightarrow> string set \<Rightarrow> current_user" where
  "with_authz u rs ss = u\<lparr>roles := rs, scopes := ss\<rparr>"

definition is_member_of :: "current_user \<Rightarrow> string option \<Rightarrow> bool" where
  "is_member_of u g0 =
     (if is_anonymous u then False
      else case g0 of None \<Rightarrow> False | Some g \<Rightarrow> g \<noteq> [] \<and> g \<in> set (groups u))"

definition has_scope :: "current_user option \<Rightarrow> string \<Rightarrow> bool" where
  "has_scope user scope = (case user of None \<Rightarrow> False | Some u \<Rightarrow> scope \<in> scopes u)"

definition attach_authz ::
  "string set \<Rightarrow> current_user \<Rightarrow> (string, string list) dict option \<Rightarrow> bool \<Rightarrow> current_user" where
  "attach_authz defaults user role_mappings is_admin =
     (if is_anonymous user then with_authz user {} {}
      else let rs = resolve_roles defaults (groups user) role_mappings is_admin
           in with_authz user rs (scopes_for_roles rs))"

subsection \<open>Identity from a bearer token\<close>

definition extract_bearer :: "string option \<Rightarrow> string option" where
  "extract_bearer header =
     (case header of None \<Rightarrow> None
      | Some h \<Rightarrow>
          if h = [] then None
          else (case split_ws1 h of
                  [scheme, rest] \<Rightarrow>
                    if py_lower scheme \<noteq> ''bearer'' then None
                    else (let token = py_strip rest in if token = [] then None else Some token)
                | _ \<Rightarrow> None))"

text \<open>\<open>claims.get("groups") or claims.get("roles") or ()\<close>, then the tuple of its elements. A claim
  that is true and cannot be iterated raises.\<close>

definition groups_of_claims :: "(json \<Rightarrow> string) \<Rightarrow> obj \<Rightarrow> string list result" where
  "groups_of_claims other claims =
     (let g = dget JNull ''groups'' claims;
          c = (if truthy g then g
               else (let r = dget JNull ''roles'' claims in if truthy r then r else JList []))
      in case c of
           JStr s \<Rightarrow> Inr [s]
         | JList xs \<Rightarrow> Inr (map (json_str other) xs)
         | JObj d \<Rightarrow> Inr (map fst d)
         | _ \<Rightarrow> Inl (TypeError ''object is not iterable''))"

definition http_401 :: py_error where
  "http_401 = Raised ''HTTPException 401''"

definition verify_to_user ::
  "(json \<Rightarrow> string) \<Rightarrow> (string \<Rightarrow> obj result) \<Rightarrow> string \<Rightarrow> current_user result" where
  "verify_to_user other verify token =
     (case verify token of
        Inl e \<Rightarrow> Inl e
      | Inr claims \<Rightarrow>
          (case groups_of_claims other claims of
             Inl e \<Rightarrow> Inl e
           | Inr gs \<Rightarrow>
               (case map_of claims ''sub'' of
                  None \<Rightarrow> Inl (KeyError ''sub'')
                | Some s \<Rightarrow>
                    Inr \<lparr>sub = Some (json_str other s), email = dget JNull ''email'' claims,
                         user_name = dget JNull ''name'' claims, picture_url = dget JNull ''picture'' claims,
                         groups = gs, is_anonymous = False, roles = {}, scopes = {}\<rparr>)))"

definition get_current_user_dep ::
  "(json \<Rightarrow> string) \<Rightarrow> (string \<Rightarrow> obj result) option \<Rightarrow> string option \<Rightarrow> current_user result" where
  "get_current_user_dep other verifier header =
     (case verifier of
        None \<Rightarrow> Inr anonymous
      | Some verify \<Rightarrow>
          (case extract_bearer header of
             None \<Rightarrow> Inr anonymous
           | Some token \<Rightarrow>
               (case verify_to_user other verify token of
                  Inl e \<Rightarrow> if e = http_401 then Inr anonymous else Inl e
                | Inr user \<Rightarrow> Inr user)))"

definition require_authenticated_user ::
  "(json \<Rightarrow> string) \<Rightarrow> (string \<Rightarrow> obj result) option \<Rightarrow> string option \<Rightarrow> current_user result" where
  "require_authenticated_user other verifier header =
     (case verifier of
        None \<Rightarrow> Inl http_401
      | Some verify \<Rightarrow>
          (case extract_bearer header of
             None \<Rightarrow> Inl http_401
           | Some token \<Rightarrow> verify_to_user other verify token))"

subsection \<open>The guarded route\<close>

record session_payload =
  pl_user_id :: string
  pl_email :: json
  pl_roles :: "string list"

definition user_from_session :: "session_payload \<Rightarrow> current_user" where
  "user_from_session p =
     (let rs = set (pl_roles p) in
      with_authz \<lparr>sub = Some (pl_user_id p), email = pl_email p, user_name = pl_email p,
                  picture_url = JNull, groups = [], is_anonymous = False, roles = {}, scopes = {}\<rparr>
                 rs (scopes_for_roles rs))"

text \<open>What a request and \<open>app.state\<close> offer: the mode, the cookie's payload (\<open>None\<close> when there is no
  session manager or no valid cookie), the verifier, the header and the two places of the role mappings.\<close>

record auth_request =
  rq_mode :: "string option"
  rq_cookie :: "session_payload option"
  rq_verifier :: "(string \<Rightarrow> obj result) option"
  rq_header :: "string option"
  rq_state_mappings :: "(string, string list) dict option"
  rq_config_mappings :: "(string, string list) dict option"

definition role_mappings_of :: "auth_request \<Rightarrow> (string, string list) dict" where
  "role_mappings_of rq =
     (case rq_state_mappings rq of Some m \<Rightarrow> m
      | None \<Rightarrow> (case rq_config_mappings rq of Some m \<Rightarrow> m | None \<Rightarrow> []))"

definition current_user_with_authz ::
  "(json \<Rightarrow> string) \<Rightarrow> string set \<Rightarrow> auth_request \<Rightarrow> current_user result" where
  "current_user_with_authz other defaults rq =
     (if rq_mode rq = Some ''login''
      then (case rq_cookie rq of
              Some p \<Rightarrow> Inr (user_from_session p)
            | None \<Rightarrow> Inr (with_authz anonymous {} {}))
      else (case get_current_user_dep other (rq_verifier rq) (rq_header rq) of
              Inl e \<Rightarrow> Inl e
            | Inr user \<Rightarrow> Inr (attach_authz defaults user (Some (role_mappings_of rq)) False)))"

definition http_403 :: py_error where
  "http_403 = Raised ''HTTPException 403''"

definition require_scope ::
  "(json \<Rightarrow> string) \<Rightarrow> string set \<Rightarrow> string \<Rightarrow> auth_request \<Rightarrow> current_user result" where
  "require_scope other defaults scope rq =
     (case current_user_with_authz other defaults rq of
        Inl e \<Rightarrow> Inl e
      | Inr user \<Rightarrow> if has_scope (Some user) scope then Inr user else Inl http_403)"

subsection \<open>What the guard lets through\<close>

definition role_grants :: "string \<Rightarrow> string \<Rightarrow> bool" where
  "role_grants role scope \<longleftrightarrow> scope \<in> set (dget [] role role_scopes)"

lemma in_scopes_for_roles: "s \<in> scopes_for_roles rs \<longleftrightarrow> (\<exists>r\<in>rs. role_grants r s)"
  by (simp add: scopes_for_roles_def role_grants_def)

lemma fold_mapped:
  "fold (\<lambda>g roles. case map_of m g of Some (r # rs) \<Rightarrow> roles \<union> set (r # rs) | _ \<Rightarrow> roles) gs A
     = A \<union> (\<Union>g\<in>set gs. set (dget [] g m))"
  by (induction gs arbitrary: A) (auto simp: dget_def split: option.splits list.splits)

text \<open>A user's roles are what the groups map to, with \<open>admin\<close> added on the admin signal; the
  defaults are used exactly when that is nothing, so they never add to an explicit mapping. Whatever
  default roles are configured, the result is not empty; and only the four known roles carry scopes.\<close>

theorem resolve_roles_spec:
  "resolve_roles defaults gs rm adm =
     (let mapped = (\<Union>g\<in>set gs. set (dget [] g (case rm of None \<Rightarrow> [] | Some m \<Rightarrow> m)))
                    \<union> (if adm then {admin_role} else {})
      in if mapped = {} then defaults else mapped)
   \<and> resolve_roles (set_default_roles cfg) gs rm adm \<noteq> {}
   \<and> scopes_for_roles rs =
       scopes_for_roles (rs \<inter> {''admin'', ''member_chat'', ''member_investigate'', ''member_mcp''})"
proof (intro conjI)
  show "resolve_roles defaults gs rm adm =
     (let mapped = (\<Union>g\<in>set gs. set (dget [] g (case rm of None \<Rightarrow> [] | Some m \<Rightarrow> m)))
                    \<union> (if adm then {admin_role} else {})
      in if mapped = {} then defaults else mapped)"
    by (auto simp: resolve_roles_def fold_mapped Let_def)
  show "resolve_roles (set_default_roles cfg) gs rm adm \<noteq> {}"
    by (auto simp: resolve_roles_def set_default_roles_def Let_def)
  show "scopes_for_roles rs =
       scopes_for_roles (rs \<inter> {''admin'', ''member_chat'', ''member_investigate'', ''member_mcp''})"
    by (auto simp: scopes_for_roles_def dget_def role_scopes_def split: if_splits)
qed

text \<open>A token's user: the identity that a bearer header proves, if any.\<close>

definition bearer_user ::
  "(json \<Rightarrow> string) \<Rightarrow> (string \<Rightarrow> obj result) option \<Rightarrow> string option \<Rightarrow> current_user option" where
  "bearer_user other verifier header =
     (case verifier of None \<Rightarrow> None
      | Some verify \<Rightarrow> (case extract_bearer header of None \<Rightarrow> None
          | Some token \<Rightarrow> (case verify_to_user other verify token of Inl _ \<Rightarrow> None | Inr u \<Rightarrow> Some u)))"

lemma verified_not_anonymous: "verify_to_user other verify token = Inr u \<Longrightarrow> \<not> is_anonymous u"
  by (auto simp: verify_to_user_def split: sum.splits option.splits)

lemma bearer_user_not_anonymous: "bearer_user other verifier header = Some u \<Longrightarrow> \<not> is_anonymous u"
  by (auto simp: bearer_user_def dest: verified_not_anonymous split: option.splits sum.splits)

lemma current_user_cases:
  "get_current_user_dep other verifier header = Inr u \<longleftrightarrow>
     bearer_user other verifier header = Some u
     \<or> u = anonymous \<and> bearer_user other verifier header = None
        \<and> is_ok (get_current_user_dep other verifier header)"
  by (auto simp: get_current_user_dep_def bearer_user_def split: option.splits sum.splits)

lemma with_authz_scopes [simp]: "scopes (with_authz u rs ss) = ss"
  by (simp add: with_authz_def)

text \<open>C29: a guarded route runs exactly for those who hold the scope: in login mode those with a valid
  session one of whose roles grants it, in the other modes those with a verified bearer token whose
  groups resolve to a role that grants it. A missing or rejected identity never passes.\<close>

theorem require_scope_iff:
  "is_ok (require_scope other defaults scope rq) \<longleftrightarrow>
     (if rq_mode rq = Some ''login''
      then \<exists>p. rq_cookie rq = Some p \<and> (\<exists>r\<in>set (pl_roles p). role_grants r scope)
      else \<exists>u. bearer_user other (rq_verifier rq) (rq_header rq) = Some u
             \<and> (\<exists>r\<in>resolve_roles defaults (groups u) (Some (role_mappings_of rq)) False.
                   role_grants r scope))"
proof (cases "rq_mode rq = Some ''login''")
  case True
  then show ?thesis
    by (auto simp: require_scope_def current_user_with_authz_def user_from_session_def has_scope_def
        in_scopes_for_roles Let_def split: option.splits)
next
  case False
  have anon: "scope \<notin> scopes (attach_authz defaults anonymous m False)" for m
    by (simp add: attach_authz_def anonymous_def)
  show ?thesis
  proof (cases "bearer_user other (rq_verifier rq) (rq_header rq)")
    case None
    have "is_ok (require_scope other defaults scope rq) = False"
    proof (cases "get_current_user_dep other (rq_verifier rq) (rq_header rq)")
      case (Inl e)
      with False show ?thesis by (simp add: require_scope_def current_user_with_authz_def)
    next
      case (Inr b)
      then have "b = anonymous"
        using current_user_cases [of other "rq_verifier rq" "rq_header rq" b] None by simp
      with False Inr anon show ?thesis
        by (simp add: require_scope_def current_user_with_authz_def has_scope_def)
    qed
    with None False show ?thesis by simp
  next
    case (Some u)
    then have dep: "get_current_user_dep other (rq_verifier rq) (rq_header rq) = Inr u"
      by (simp add: current_user_cases)
    show ?thesis
      using False Some dep bearer_user_not_anonymous [OF Some]
      by (auto simp: require_scope_def current_user_with_authz_def has_scope_def attach_authz_def
          in_scopes_for_roles Let_def)
  qed
qed

end
