(* ===== verification/Connector_Perms.thy ===== *)
theory Connector_Perms
  imports Authz
begin

text \<open>
  Which connectors, and so which tools, a request may use: the policy of
  \<open>opsrag/auth/connector_perms.py\<close>, its installation for a request
  (\<open>opsrag/api/_connector_perms.py\<close>) and the two stacked filters of
  \<open>opsrag/mcp_server/registry_loader.py\<close>. The registry, the process-wide set and the two context
  variables are the state; the registry maps a connector to the names of its tools.
\<close>

subsection \<open>The policy\<close>

definition wildcard :: string where "wildcard = ''*''"

definition resolve_allowed_connectors ::
  "string set \<Rightarrow> (string, string list) dict option \<Rightarrow> string list \<Rightarrow> string list \<Rightarrow>
   string list \<Rightarrow> string list \<Rightarrow> string set" where
  "resolve_allowed_connectors rs role_connectors restricted enabled_connectors user_allow user_deny =
     (let enabled = set enabled_connectors in
      if enabled = {} then {}
      else
        (let restricted_set = set restricted \<inter> enabled;
             rc = (case role_connectors of None \<Rightarrow> [] | Some m \<Rightarrow> m);
             grants0 = (\<Union>r\<in>rs. let g = set (dget [] r rc) in
                                   if wildcard \<in> g then enabled else g \<inter> enabled);
             grants = (if admin_role \<in> rs then grants0 \<union> enabled else grants0);
             allowed0 = Set.filter (\<lambda>c. c \<notin> restricted_set) enabled;
             allowed1 = allowed0 \<union> Set.filter (\<lambda>c. c \<in> grants) restricted_set;
             allowed2 = allowed1 \<union> (set user_allow \<inter> enabled)
         in allowed2 - set user_deny))"

subsection \<open>The registry and the gates\<close>

record tool_gate =
  registry :: "(string, string list) dict"
  active_enabled :: "string set option"
  request_allowed_tools :: "string set option"
  denied_connectors :: "string set"
  tool_to_connector :: "(string, string) dict"

definition rebuild_tool_to_connector :: "tool_gate \<Rightarrow> tool_gate" where
  "rebuild_tool_to_connector g =
     g\<lparr>tool_to_connector :=
         fold (\<lambda>(name, tools). fold (\<lambda>t d. AList.update t name d) tools) (registry g) []\<rparr>"

definition tool_names_for_connectors :: "tool_gate \<Rightarrow> string set \<Rightarrow> string set" where
  "tool_names_for_connectors g connectors = (\<Union>c\<in>connectors. set (dget [] c (registry g)))"

definition set_active_enabled :: "tool_gate \<Rightarrow> string list option \<Rightarrow> tool_gate" where
  "set_active_enabled g names =
     g\<lparr>active_enabled := (case names of None \<Rightarrow> None
         | Some ns \<Rightarrow> Some (tool_names_for_connectors g (set ns)))\<rparr>"

definition connector_for_tool :: "tool_gate \<Rightarrow> string option \<Rightarrow> string option" where
  "connector_for_tool g tool_name =
     (case tool_name of None \<Rightarrow> None | Some t \<Rightarrow> map_of (tool_to_connector g) t)"

text \<open>Tools are given by their names; an object without a \<open>name\<close> has \<open>None\<close>.\<close>

definition filter_enabled :: "tool_gate \<Rightarrow> string option list \<Rightarrow> string option list" where
  "filter_enabled g tools =
     (case (active_enabled g, request_allowed_tools g) of
        (None, None) \<Rightarrow> tools
      | (a, r) \<Rightarrow>
          filter (\<lambda>name.
             (case a of None \<Rightarrow> True | Some s \<Rightarrow> name \<in> Some ` s)
             \<and> (case r of None \<Rightarrow> True | Some s \<Rightarrow> name \<in> Some ` s)) tools)"

definition set_request_connector_perms ::
  "tool_gate \<Rightarrow> string set option \<Rightarrow> string set \<Rightarrow> tool_gate" where
  "set_request_connector_perms g allowed_connectors enabled_connectors =
     (case allowed_connectors of
        None \<Rightarrow> g\<lparr>denied_connectors := {}, request_allowed_tools := None\<rparr>
      | Some allowed \<Rightarrow>
          (let enabled = (if enabled_connectors \<noteq> {} then enabled_connectors else allowed)
           in g\<lparr>denied_connectors := enabled - allowed,
                request_allowed_tools := Some (tool_names_for_connectors g allowed)\<rparr>))"

definition clear_request_connector_perms :: "tool_gate \<Rightarrow> tool_gate" where
  "clear_request_connector_perms g = g\<lparr>request_allowed_tools := None, denied_connectors := {}\<rparr>"

definition is_tool_allowed :: "tool_gate \<Rightarrow> string option \<Rightarrow> bool" where
  "is_tool_allowed g tool_name =
     (case request_allowed_tools g of None \<Rightarrow> True | Some s \<Rightarrow> tool_name \<in> Some ` s)"

text \<open>The forbidden connectors in name order, each with its display name, for the prompt note.\<close>

definition denied_names :: "(string, string) dict \<Rightarrow> string list \<Rightarrow> string" where
  "denied_names display denied =
     join '', '' (map (\<lambda>c. dget c c display @ '' (`'' @ c @ ''`)'') (sort denied))"

subsection \<open>Installation for a request\<close>

record connector_block =
  blk_enabled :: bool
  blk_restricted :: bool

record conn_config =
  cfg_mcp :: "(string, connector_block) dict"
  cfg_external_mcp :: "(string, connector_block) dict"
  cfg_role_connectors :: "(string, string list) dict option"

definition enabled_integration_names :: "conn_config \<Rightarrow> string list" where
  "enabled_integration_names cfg =
     map fst (filter (\<lambda>(name, b). blk_enabled b) (cfg_mcp cfg))
     @ map fst (filter (\<lambda>(name, b). blk_enabled b) (cfg_external_mcp cfg))"

definition enabled_and_restricted :: "conn_config \<Rightarrow> string list \<times> string list" where
  "enabled_and_restricted cfg =
     fold (\<lambda>(name, b) (en, rst).
             if \<not> blk_enabled b then (en, rst)
             else (en @ [name], if blk_restricted b then rst @ [name] else rst))
       (cfg_mcp cfg @ cfg_external_mcp cfg) ([], [])"

text \<open>\<open>overrides\<close> is the stored user's allow and deny list, \<open>None\<close> when there is no store, no user id, no
  such user or the lookup raised.\<close>

definition install_request_connector_perms ::
  "tool_gate \<Rightarrow> conn_config option \<Rightarrow> string set \<Rightarrow> (string list \<times> string list) option \<Rightarrow> tool_gate" where
  "install_request_connector_perms g config rs overrides =
     (case config of None \<Rightarrow> g
      | Some cfg \<Rightarrow>
          (case enabled_and_restricted cfg of (enabled, restricted) \<Rightarrow>
             if enabled = [] then set_request_connector_perms g (Some {}) {}
             else (let (allow, deny) = (case overrides of None \<Rightarrow> ([], []) | Some ov \<Rightarrow> ov);
                       allowed = resolve_allowed_connectors rs (cfg_role_connectors cfg) restricted
                                   enabled allow deny
                   in set_request_connector_perms g (Some allowed) (set enabled))))"

subsection \<open>What the gates let through\<close>

text \<open>The access decision: a connector is usable exactly when it is enabled and not denied to the
  user, and it is unrestricted, or the user is an admin, or one of the user's roles grants it by name or
  by the wildcard, or the user's own allow list names it. The deny list beats every other rule.\<close>

theorem allowed_connector_iff:
  "c \<in> resolve_allowed_connectors rs rc restricted enabled allow deny \<longleftrightarrow>
     c \<in> set enabled \<and> c \<notin> set deny
     \<and> (c \<notin> set restricted \<or> admin_role \<in> rs
        \<or> (\<exists>r\<in>rs. \<exists>g\<in>set (dget [] r (case rc of None \<Rightarrow> [] | Some m \<Rightarrow> m)). g = c \<or> g = wildcard)
        \<or> c \<in> set allow)"
  unfolding resolve_allowed_connectors_def Let_def
  by (cases "set enabled = {}") (auto split: if_splits)

theorem allowed_connector_iff_witness:
  "''aws'' \<in> resolve_allowed_connectors {''sre''} (Some [(''sre'', [''aws''])]) [''aws''] [''aws'', ''jira''] [] []
   \<and> ''aws'' \<notin> resolve_allowed_connectors {''sre''} None [''aws''] [''aws'', ''jira''] [] []"
  unfolding allowed_connector_iff by (simp add: dget_def admin_role_def)

lemma enabled_and_restricted_acc:
  "fold (\<lambda>(name, b) (en, rst).
          if \<not> blk_enabled b then (en, rst)
          else (en @ [name], if blk_restricted b then rst @ [name] else rst)) bs (en, rst)
   = (en @ map fst (filter (\<lambda>(name, b). blk_enabled b) bs),
      rst @ map fst (filter (\<lambda>(name, b). blk_enabled b \<and> blk_restricted b) bs))"
  by (induction bs arbitrary: en rst) (auto split: if_splits)

lemma enabled_and_restricted_eq:
  "enabled_and_restricted cfg = (enabled_integration_names cfg,
     map fst (filter (\<lambda>(name, b). blk_enabled b \<and> blk_restricted b) (cfg_mcp cfg @ cfg_external_mcp cfg)))"
  by (simp add: enabled_and_restricted_def enabled_integration_names_def enabled_and_restricted_acc)

lemma request_tools_of_install:
  assumes "enabled_integration_names cfg \<noteq> []"
  shows "request_allowed_tools (install_request_connector_perms g (Some cfg) rs overrides) =
     Some (tool_names_for_connectors g
       (resolve_allowed_connectors rs (cfg_role_connectors cfg) (snd (enabled_and_restricted cfg))
          (enabled_integration_names cfg)
          (fst (case overrides of None \<Rightarrow> ([], []) | Some ov \<Rightarrow> ov))
          (snd (case overrides of None \<Rightarrow> ([], []) | Some ov \<Rightarrow> ov))))"
  using assms
  by (simp add: install_request_connector_perms_def enabled_and_restricted_eq set_request_connector_perms_def
      Let_def split: prod.splits)

lemma not_allowed_denied:
  "c \<in> set deny \<Longrightarrow> c \<notin> resolve_allowed_connectors rs rc restricted enabled allow deny"
  "c \<notin> set enabled \<Longrightarrow> c \<notin> resolve_allowed_connectors rs rc restricted enabled allow deny"
  by (auto simp: resolve_allowed_connectors_def Let_def)

lemma denied_tool_not_requested:
  assumes "c \<in> set deny \<or> c \<notin> set (enabled_integration_names cfg)"
    and "\<forall>(c', tools)\<in>set (registry g). tool \<in> set tools \<longrightarrow> c' = c"
  shows "\<exists>s. request_allowed_tools (install_request_connector_perms g (Some cfg) rs (Some (allow, deny))) = Some s \<and> tool \<notin> s"
proof (cases "enabled_integration_names cfg = []")
  case True
  then show ?thesis
    by (simp add: install_request_connector_perms_def enabled_and_restricted_eq
        set_request_connector_perms_def tool_names_for_connectors_def)
next
  case False
  have only: "c' = c" if t: "tool \<in> set (dget [] c' (registry g))" for c'
  proof -
    from t obtain ts where "map_of (registry g) c' = Some ts" "tool \<in> set ts"
      by (cases "map_of (registry g) c'") (auto simp: dget_def)
    with assms(2) show ?thesis by (auto dest: map_of_SomeD)
  qed
  from request_tools_of_install [OF False, of g rs "Some (allow, deny)"] assms(1) only show ?thesis
    by (auto simp: tool_names_for_connectors_def dest: not_allowed_denied)
qed

lemma denied_tool_hidden:
  assumes "c \<in> set deny \<or> c \<notin> set (enabled_integration_names cfg)"
    and "\<forall>(c', tools)\<in>set (registry g). tool \<in> set tools \<longrightarrow> c' = c"
  shows "\<not> is_tool_allowed (install_request_connector_perms g (Some cfg) rs (Some (allow, deny))) (Some tool)"
  using denied_tool_not_requested [OF assms, of rs allow] by (auto simp: is_tool_allowed_def)

text \<open>C3: the gate of the tool executor and the tool list shown to the model agree and honour the
  policy: after the permissions of a request are installed, a tool of a connector that is denied to the
  user or not enabled can neither be called nor seen, when no other connector offers a tool of that
  name, whatever the roles and the allow list say.\<close>

theorem denied_tool_blocked:
  assumes "c \<in> set deny \<or> c \<notin> set (enabled_integration_names cfg)"
    and "\<forall>(c', tools)\<in>set (registry g). tool \<in> set tools \<longrightarrow> c' = c"
  shows "\<not> is_tool_allowed (install_request_connector_perms g (Some cfg) rs (Some (allow, deny))) (Some tool)
    \<and> Some tool \<notin> set (filter_enabled (install_request_connector_perms g (Some cfg) rs (Some (allow, deny))) tools)"
  using denied_tool_not_requested [OF assms, of rs allow]
  by (auto simp: is_tool_allowed_def filter_enabled_def split: option.splits)

theorem denied_tool_blocked_witness:
  "\<not> is_tool_allowed (install_request_connector_perms
       \<lparr>registry = [(''aws'', [''aws_cost'']), (''jira'', [''jira_get''])], active_enabled = None,
        request_allowed_tools = None, denied_connectors = {}, tool_to_connector = []\<rparr>
       (Some \<lparr>cfg_mcp = [(''aws'', \<lparr>blk_enabled = True, blk_restricted = True\<rparr>)], cfg_external_mcp = [],
              cfg_role_connectors = None\<rparr>)
       {''admin''} (Some ([''aws''], [''aws'']))) (Some ''aws_cost'')"
  by (rule denied_tool_blocked [where c = "''aws''", THEN conjunct1]) auto

end
