(* ===== verification/User_Store.thy ===== *)
theory User_Store
  imports Py_Prelude
begin

text \<open>
  The store of login accounts, federated identities and refresh sessions
  (\<open>InMemoryAuthUserStore\<close> in \<open>opsrag/auth/user_store.py\<close>). Each method runs under the store's lock,
  so each is one step on the state. The fresh uuid and the clock reading (seconds, UTC) of a call are
  arguments. The locale \<open>user_store_api\<close> is the part of the abstract base class that the login layer
  relies on.
\<close>

subsection \<open>Rows and state\<close>

record auth_user =
  au_id :: string
  au_email :: string
  au_email_verified :: bool
  au_password_hash :: "string option"
  au_roles :: "string list"
  au_name :: "string option"
  au_picture_url :: "string option"
  au_connectors_allow :: "string list"
  au_connectors_deny :: "string list"
  au_created_at :: "real option"
  au_updated_at :: "real option"

record federated_identity =
  fi_provider :: string
  fi_subject :: string
  fi_user_id :: string
  fi_email :: "string option"
  fi_email_verified :: bool

record refresh_session =
  rs_id :: string
  rs_user_id :: string
  rs_token_hash :: string
  rs_expires_at :: real
  rs_created_at :: "real option"
  rs_revoked_at :: "real option"

record user_store =
  us_users :: "(string, auth_user) dict"
  us_email_index :: "(string, string) dict"
  us_identities :: "(string \<times> string, federated_identity) dict"
  us_sessions :: "(string, refresh_session) dict"

definition new_store :: user_store where
  "new_store = \<lparr>us_users = [], us_email_index = [], us_identities = [], us_sessions = []\<rparr>"

definition is_active :: "real \<Rightarrow> refresh_session \<Rightarrow> bool" where
  "is_active now s \<longleftrightarrow> rs_revoked_at s = None \<and> now < rs_expires_at s"

definition norm_email :: "string \<Rightarrow> string" where
  "norm_email e = py_lower (py_strip e)"

subsection \<open>Users\<close>

text \<open>The arguments of \<open>create_user\<close>, with the uuid it draws and the clock it reads.\<close>

record new_user =
  nu_email :: string
  nu_password_hash :: "string option"
  nu_email_verified :: bool
  nu_roles :: "string list"
  nu_name :: "string option"
  nu_picture_url :: "string option"
  nu_uuid :: string
  nu_now :: real

definition user_row :: "new_user \<Rightarrow> auth_user" where
  "user_row n =
     \<lparr>au_id = nu_uuid n, au_email = norm_email (nu_email n), au_email_verified = nu_email_verified n,
      au_password_hash = nu_password_hash n, au_roles = nu_roles n, au_name = nu_name n,
      au_picture_url = nu_picture_url n, au_connectors_allow = [], au_connectors_deny = [],
      au_created_at = Some (nu_now n), au_updated_at = Some (nu_now n)\<rparr>"

definition create_user :: "user_store \<Rightarrow> new_user \<Rightarrow> user_store \<times> auth_user result" where
  "create_user st n =
     (let e = norm_email (nu_email n) in
      if e \<in> set (map fst (us_email_index st))
      then (st, Inl (ValueError (''user already exists: '' @ e)))
      else (let user = user_row n
            in (st\<lparr>us_users := AList.update (au_id user) user (us_users st),
                   us_email_index := AList.update e (au_id user) (us_email_index st)\<rparr>,
                Inr user)))"

definition get_user_by_id :: "user_store \<Rightarrow> string \<Rightarrow> auth_user option" where
  "get_user_by_id st uid = map_of (us_users st) uid"

definition get_user_by_email :: "user_store \<Rightarrow> string \<Rightarrow> auth_user option" where
  "get_user_by_email st e =
     (case map_of (us_email_index st) (norm_email e) of
        None \<Rightarrow> None
      | Some uid \<Rightarrow> if uid \<noteq> [] then map_of (us_users st) uid else None)"

definition replace_user :: "user_store \<Rightarrow> string \<Rightarrow> (auth_user \<Rightarrow> auth_user) \<Rightarrow> user_store" where
  "replace_user st uid f =
     (case map_of (us_users st) uid of
        None \<Rightarrow> st
      | Some u \<Rightarrow> st\<lparr>us_users := AList.update uid (f u) (us_users st)\<rparr>)"

definition set_password_hash :: "user_store \<Rightarrow> string \<Rightarrow> string \<Rightarrow> real \<Rightarrow> user_store" where
  "set_password_hash st uid h now =
     replace_user st uid (\<lambda>u. u\<lparr>au_password_hash := Some h, au_updated_at := Some now\<rparr>)"

definition mark_email_verified :: "user_store \<Rightarrow> string \<Rightarrow> real \<Rightarrow> user_store" where
  "mark_email_verified st uid now =
     replace_user st uid (\<lambda>u. u\<lparr>au_email_verified := True, au_updated_at := Some now\<rparr>)"

definition set_roles :: "user_store \<Rightarrow> string \<Rightarrow> string list \<Rightarrow> real \<Rightarrow> user_store" where
  "set_roles st uid rs now =
     replace_user st uid (\<lambda>u. u\<lparr>au_roles := rs, au_updated_at := Some now\<rparr>)"

definition set_connector_overrides ::
  "user_store \<Rightarrow> string \<Rightarrow> string list \<Rightarrow> string list \<Rightarrow> real \<Rightarrow> user_store" where
  "set_connector_overrides st uid allow deny now =
     replace_user st uid (\<lambda>u. u\<lparr>au_connectors_allow := allow, au_connectors_deny := deny,
                                au_updated_at := Some now\<rparr>)"

text \<open>The stand-in for a missing \<open>created_at\<close> is \<open>datetime.min\<close>, in seconds of the epoch.\<close>

definition created_key :: "auth_user \<Rightarrow> real" where
  "created_key u = (case au_created_at u of None \<Rightarrow> - 62135596800 | Some t \<Rightarrow> t)"

definition list_users :: "user_store \<Rightarrow> int \<Rightarrow> auth_user list" where
  "list_users st limit = slice_to limit (sort_desc created_key (map snd (us_users st)))"

subsection \<open>Identities and refresh sessions\<close>

definition get_identity :: "user_store \<Rightarrow> string \<Rightarrow> string \<Rightarrow> federated_identity option" where
  "get_identity st provider subject = map_of (us_identities st) (provider, subject)"

definition identity_row :: "string \<Rightarrow> string \<Rightarrow> string \<Rightarrow> string option \<Rightarrow> bool \<Rightarrow> federated_identity" where
  "identity_row provider subject uid e verified =
     \<lparr>fi_provider = provider, fi_subject = subject, fi_user_id = uid,
      fi_email = (case e of None \<Rightarrow> None | Some x \<Rightarrow> if x = [] then None else Some (norm_email x)),
      fi_email_verified = verified\<rparr>"

definition link_identity ::
  "user_store \<Rightarrow> string \<Rightarrow> string \<Rightarrow> string \<Rightarrow> string option \<Rightarrow> bool \<Rightarrow> user_store" where
  "link_identity st provider subject uid e verified =
     st\<lparr>us_identities := AList.update (provider, subject) (identity_row provider subject uid e verified)
          (us_identities st)\<rparr>"

definition create_refresh_session ::
  "user_store \<Rightarrow> string \<Rightarrow> string \<Rightarrow> real \<Rightarrow> string \<Rightarrow> real \<Rightarrow> user_store" where
  "create_refresh_session st uid token_hash expires_at uuid now =
     st\<lparr>us_sessions := AList.update token_hash
          \<lparr>rs_id = uuid, rs_user_id = uid, rs_token_hash = token_hash, rs_expires_at = expires_at,
           rs_created_at = Some now, rs_revoked_at = None\<rparr> (us_sessions st)\<rparr>"

definition get_refresh_session :: "user_store \<Rightarrow> string \<Rightarrow> refresh_session option" where
  "get_refresh_session st token_hash = map_of (us_sessions st) token_hash"

definition revoke_refresh_session :: "user_store \<Rightarrow> string \<Rightarrow> real \<Rightarrow> user_store" where
  "revoke_refresh_session st token_hash now =
     (case map_of (us_sessions st) token_hash of
        None \<Rightarrow> st
      | Some s \<Rightarrow> if rs_revoked_at s = None
                   then st\<lparr>us_sessions := AList.update token_hash (s\<lparr>rs_revoked_at := Some now\<rparr>) (us_sessions st)\<rparr>
                   else st)"

definition revoke_all_for_user :: "user_store \<Rightarrow> string \<Rightarrow> real \<Rightarrow> user_store" where
  "revoke_all_for_user st uid now =
     st\<lparr>us_sessions :=
          map (\<lambda>(th, s). (th, if rs_user_id s = uid \<and> rs_revoked_at s = None
                               then s\<lparr>rs_revoked_at := Some now\<rparr> else s)) (us_sessions st)\<rparr>"

subsection \<open>Well-formed stores\<close>

definition fresh_uuid :: "user_store \<Rightarrow> string \<Rightarrow> bool" where
  "fresh_uuid st uid \<longleftrightarrow> uid \<noteq> [] \<and> map_of (us_users st) uid = None"

definition store_ok :: "user_store \<Rightarrow> bool" where
  "store_ok st \<longleftrightarrow>
     dict_ok (us_users st) \<and> dict_ok (us_email_index st) \<and> dict_ok (us_identities st) \<and> dict_ok (us_sessions st)
     \<and> (\<forall>uid u. map_of (us_users st) uid = Some u \<longrightarrow>
          uid \<noteq> [] \<and> au_id u = uid \<and> map_of (us_email_index st) (au_email u) = Some uid)
     \<and> (\<forall>e uid. map_of (us_email_index st) e = Some uid \<longrightarrow>
          (\<exists>u. map_of (us_users st) uid = Some u \<and> au_email u = e))"

lemma store_ok_user:
  "store_ok st \<Longrightarrow> map_of (us_users st) uid = Some u \<Longrightarrow>
     uid \<noteq> [] \<and> au_id u = uid \<and> map_of (us_email_index st) (au_email u) = Some uid"
  by (simp add: store_ok_def)

lemma store_ok_index:
  "store_ok st \<Longrightarrow> map_of (us_email_index st) e = Some uid \<Longrightarrow>
     \<exists>u. map_of (us_users st) uid = Some u \<and> au_email u = e"
  by (simp add: store_ok_def)

lemma store_ok_new: "store_ok new_store"
  by (simp add: store_ok_def new_store_def)

lemma store_ok_create:
  assumes "store_ok st" and "fresh_uuid st (nu_uuid n)"
  shows "store_ok (fst (create_user st n))"
proof (cases "norm_email (nu_email n) \<in> set (map fst (us_email_index st))")
  case True
  with assms(1) show ?thesis by (simp add: create_user_def)
next
  case False
  then have none: "map_of (us_email_index st) (norm_email (nu_email n)) = None"
    by (simp add: map_of_eq_None_iff)
  have fr: "nu_uuid n \<noteq> []" "map_of (us_users st) (nu_uuid n) = None"
    using assms(2) by (simp_all add: fresh_uuid_def)
  have dicts: "dict_ok (us_users st)" "dict_ok (us_email_index st)" "dict_ok (us_identities st)"
    "dict_ok (us_sessions st)" using assms(1) by (simp_all add: store_ok_def)
  have old: "uid \<noteq> [] \<and> au_id u = uid \<and> map_of (us_email_index st) (au_email u) = Some uid
      \<and> au_email u \<noteq> norm_email (nu_email n)"
    if "map_of (us_users st) uid = Some u" for uid u
    using store_ok_user [OF assms(1) that] none by auto
  have idx: "\<exists>u. map_of (us_users st) uid = Some u \<and> au_email u = e \<and> uid \<noteq> nu_uuid n"
    if "map_of (us_email_index st) e = Some uid" for e uid
    using store_ok_index [OF assms(1) that] fr(2) by auto
  show ?thesis
    using False dicts fr by (auto simp: create_user_def user_row_def store_ok_def Let_def distinct_update
        dest: old idx)
qed

lemma store_ok_replace:
  assumes "store_ok st" and "\<And>u. au_id (f u) = au_id u" and "\<And>u. au_email (f u) = au_email u"
  shows "store_ok (replace_user st uid f)"
proof (cases "map_of (us_users st) uid")
  case None
  with assms(1) show ?thesis by (simp add: replace_user_def)
next
  case (Some u)
  from assms(1) have ok: "dict_ok (us_users st)" "dict_ok (us_email_index st)" "dict_ok (us_identities st)"
    "dict_ok (us_sessions st)" by (simp_all add: store_ok_def)
  have idx: "\<exists>w. map_of (AList.update uid (f u) (us_users st)) i = Some w \<and> au_email w = e"
    if e: "map_of (us_email_index st) e = Some i" for e i
  proof -
    obtain w where w: "map_of (us_users st) i = Some w" "au_email w = e"
      using store_ok_index [OF assms(1) e] by blast
    show ?thesis
    proof (cases "i = uid")
      case True
      with w Some assms(3) show ?thesis by simp
    next
      case False
      with w show ?thesis by simp
    qed
  qed
  have usr: "i \<noteq> [] \<and> au_id w = i \<and> map_of (us_email_index st) (au_email w) = Some i"
    if w: "map_of (AList.update uid (f u) (us_users st)) i = Some w" for i w
    using w store_ok_user [OF assms(1), of i w] store_ok_user [OF assms(1) Some]
    by (cases "i = uid") (auto simp: assms(2,3))
  show ?thesis
    using ok idx usr by (simp add: store_ok_def replace_user_def Some distinct_update)
qed

lemma store_ok_sessions: "store_ok st \<Longrightarrow> dict_ok ss \<Longrightarrow> store_ok (st\<lparr>us_sessions := ss\<rparr>)"
  by (simp add: store_ok_def)

lemma store_ok_link: "store_ok st \<Longrightarrow> store_ok (link_identity st p s uid e v)"
  by (simp add: store_ok_def link_identity_def distinct_update)

lemma map_fst_revoke: "map fst (map (\<lambda>(th, s). (th, g th s)) ss) = map fst ss"
  by (induction ss) auto

subsection \<open>Histories of the store\<close>

inductive store_step :: "user_store \<Rightarrow> user_store \<Rightarrow> bool" where
  step_create: "fresh_uuid st (nu_uuid n) \<Longrightarrow> store_step st (fst (create_user st n))"
| step_password: "store_step st (set_password_hash st uid h now)"
| step_verified: "store_step st (mark_email_verified st uid now)"
| step_roles: "store_step st (set_roles st uid rs now)"
| step_overrides: "store_step st (set_connector_overrides st uid allow deny now)"
| step_link: "store_step st (link_identity st p s uid e v)"
| step_session: "map_of (us_sessions st) th = None \<Longrightarrow>
     store_step st (create_refresh_session st uid th expires uuid now)"
| step_revoke: "store_step st (revoke_refresh_session st th now)"
| step_revoke_all: "store_step st (revoke_all_for_user st uid now)"

lemma store_step_ok: "store_step st st' \<Longrightarrow> store_ok st \<Longrightarrow> store_ok st'"
proof (induction rule: store_step.induct)
  case (step_create st n)
  then show ?case by (simp add: store_ok_create)
next
  case (step_session st th uid expires uuid now)
  then show ?case
    by (auto simp: create_refresh_session_def store_ok_def intro!: store_ok_sessions)
next
  case (step_revoke st th now)
  then show ?case
    by (auto simp: revoke_refresh_session_def intro!: store_ok_sessions distinct_update
        simp: store_ok_def split: option.splits)
next
  case (step_revoke_all st uid now)
  then show ?case
    unfolding revoke_all_for_user_def
    by (intro store_ok_sessions) (simp_all only: map_fst_revoke, simp add: store_ok_def)
qed (simp_all add: set_password_hash_def mark_email_verified_def set_roles_def
    set_connector_overrides_def store_ok_replace store_ok_link)

lemma store_steps_ok: "store_step\<^sup>*\<^sup>* st st' \<Longrightarrow> store_ok st \<Longrightarrow> store_ok st'"
  by (induction rule: rtranclp_induct) (auto dest: store_step_ok)

text \<open>In every store that the operations can reach, an e-mail address belongs to at most one account
  and every account is found by its address, in any case and with any surrounding white space, and by
  its id.\<close>

theorem account_by_email:
  assumes "store_step\<^sup>*\<^sup>* new_store st" and "get_user_by_id st uid = Some u" and "norm_email e = au_email u"
  shows "get_user_by_email st e = Some u
    \<and> (\<forall>uid' u'. get_user_by_id st uid' = Some u' \<longrightarrow> au_email u' = au_email u \<longrightarrow> uid' = uid \<and> u' = u)"
proof -
  have ok: "store_ok st" by (rule store_steps_ok [OF assms(1) store_ok_new])
  have u: "map_of (us_users st) uid = Some u" using assms(2) by (simp add: get_user_by_id_def)
  note idx = store_ok_user [OF ok u]
  then have "get_user_by_email st e = Some u" using assms(3) u by (simp add: get_user_by_email_def)
  moreover have "uid' = uid \<and> u' = u"
    if "get_user_by_id st uid' = Some u'" "au_email u' = au_email u" for uid' u'
    using store_ok_user [OF ok, of uid' u'] that idx u by (auto simp: get_user_by_id_def)
  ultimately show ?thesis by blast
qed

definition ann :: new_user where
  "ann = \<lparr>nu_email = '' Ann@x.io'', nu_password_hash = None, nu_email_verified = False, nu_roles = [],
          nu_name = None, nu_picture_url = None, nu_uuid = ''u1'', nu_now = 5\<rparr>"

theorem account_by_email_witness:
  "\<exists>u. get_user_by_email (fst (create_user new_store ann)) ''ANN@x.io '' = Some u"
proof -
  let ?st = "fst (create_user new_store ann)"
  have step: "store_step\<^sup>*\<^sup>* new_store ?st"
    by (intro r_into_rtranclp store_step.step_create) (simp add: fresh_uuid_def new_store_def ann_def)
  have row: "get_user_by_id ?st ''u1'' = Some (user_row ann)"
    by (simp add: get_user_by_id_def create_user_def new_store_def user_row_def ann_def Let_def)
  have "norm_email ''ANN@x.io '' = norm_email '' Ann@x.io''" by code_simp
  then have "norm_email ''ANN@x.io '' = au_email (user_row ann)" by (simp add: user_row_def ann_def)
  from account_by_email [OF step row this] show ?thesis by blast
qed

lemma revoked_step:
  assumes "store_step st st'" and "get_refresh_session st th = Some s" and "rs_revoked_at s \<noteq> None"
  shows "get_refresh_session st' th = Some s"
  using assms
proof (induction rule: store_step.induct)
  case (step_revoke_all st uid now)
  have "map_of (map (\<lambda>(th, s). (th, g th s)) ss) k = map_option (g k) (map_of ss k)"
    for g :: "string \<Rightarrow> refresh_session \<Rightarrow> refresh_session" and ss k by (induction ss) auto
  then show ?case
    using step_revoke_all by (simp add: get_refresh_session_def revoke_all_for_user_def)
qed (auto simp: get_refresh_session_def create_user_def set_password_hash_def mark_email_verified_def
    set_roles_def set_connector_overrides_def replace_user_def link_identity_def
    create_refresh_session_def revoke_refresh_session_def Let_def split: option.splits)

text \<open>Revocation is for good: once a refresh session is revoked, no further sequence of store
  operations makes its token active again.\<close>

theorem revoked_forever:
  assumes "store_step\<^sup>*\<^sup>* (revoke_refresh_session st th now) st'" and "get_refresh_session st th = Some s"
  shows "\<exists>s'. get_refresh_session st' th = Some s' \<and> \<not> is_active now' s'"
proof -
  have "\<exists>s'. get_refresh_session (revoke_refresh_session st th now) th = Some s' \<and> rs_revoked_at s' \<noteq> None"
    using assms(2) by (auto simp: get_refresh_session_def revoke_refresh_session_def)
  then obtain s' where s': "get_refresh_session (revoke_refresh_session st th now) th = Some s'"
    "rs_revoked_at s' \<noteq> None" by blast
  from assms(1) have "get_refresh_session st' th = Some s'"
    by (induction rule: rtranclp_induct) (auto simp: s' intro: revoked_step [OF _ _ s'(2)])
  with s'(2) show ?thesis by (auto simp: is_active_def)
qed

theorem revoked_forever_witness:
  "\<not> is_active 7 (the (get_refresh_session
       (revoke_refresh_session (create_refresh_session new_store ''u1'' ''h'' 100 ''s'' 1) ''h'' 5) ''h''))"
proof -
  let ?st = "create_refresh_session new_store ''u1'' ''h'' 100 ''s'' 1"
  obtain s where "get_refresh_session ?st ''h'' = Some s"
    by (simp add: create_refresh_session_def get_refresh_session_def)
  from revoked_forever [OF rtranclp.rtrancl_refl this, of 5 7] show ?thesis by auto
qed

subsection \<open>The contract of the login layer\<close>

text \<open>What \<open>AuthUserStore\<close> promises to a client that resolves identities: the operations of the
  abstract class, and the laws of their results on a well-formed store.\<close>

locale user_store_api =
  fixes inv :: "'s \<Rightarrow> bool"
    and fresh :: "'s \<Rightarrow> string \<Rightarrow> bool"
    and by_id :: "'s \<Rightarrow> string \<Rightarrow> auth_user option"
    and by_email :: "'s \<Rightarrow> string \<Rightarrow> auth_user option"
    and create :: "'s \<Rightarrow> new_user \<Rightarrow> 's \<times> auth_user result"
    and identity :: "'s \<Rightarrow> string \<Rightarrow> string \<Rightarrow> federated_identity option"
    and link :: "'s \<Rightarrow> string \<Rightarrow> string \<Rightarrow> string \<Rightarrow> string option \<Rightarrow> bool \<Rightarrow> 's"
  assumes by_email_id: "inv s \<Longrightarrow> by_email s e = Some u \<Longrightarrow> by_id s (au_id u) = Some u \<and> au_email u = norm_email e"
    and create_ok: "inv s \<Longrightarrow> fresh s (nu_uuid n) \<Longrightarrow> create s n = (s', Inr u) \<Longrightarrow>
        u = user_row n \<and> inv s' \<and> by_id s (au_id u) = None
        \<and> by_id s' i = (if i = au_id u then Some u else by_id s i)
        \<and> by_email s' e = (if norm_email e = au_email u then Some u else by_email s e)
        \<and> identity s' p sub = identity s p sub"
    and create_fails: "inv s \<Longrightarrow> fresh s (nu_uuid n) \<Longrightarrow> create s n = (s', Inl err) \<Longrightarrow>
        s' = s \<and> by_email s (nu_email n) \<noteq> None"
    and create_clash: "inv s \<Longrightarrow> by_email s (nu_email n) \<noteq> None \<Longrightarrow> \<exists>err. create s n = (s, Inl err)"
    and link_ok: "inv s \<Longrightarrow> inv (link s p sub uid em v)"
    and link_identity: "identity (link s p sub uid em v) p' sub' =
        (if (p', sub') = (p, sub) then Some (identity_row p sub uid em v) else identity s p' sub')"
    and link_by_id: "by_id (link s p sub uid em v) i = by_id s i"
    and link_by_email: "by_email (link s p sub uid em v) e = by_email s e"

lemma store_by_email_id:
  assumes "store_ok st" and "get_user_by_email st e = Some u"
  shows "get_user_by_id st (au_id u) = Some u \<and> au_email u = norm_email e"
proof -
  obtain uid where i: "map_of (us_email_index st) (norm_email e) = Some uid" "map_of (us_users st) uid = Some u"
    using assms(2) by (auto simp: get_user_by_email_def split: option.splits if_splits)
  with store_ok_user [OF assms(1) i(2)] store_ok_index [OF assms(1) i(1)] show ?thesis
    by (simp add: get_user_by_id_def)
qed

lemma store_create_ok:
  assumes "store_ok st" and "fresh_uuid st (nu_uuid n)" and "create_user st n = (st', Inr u)"
  shows "u = user_row n \<and> store_ok st' \<and> get_user_by_id st (au_id u) = None
    \<and> get_user_by_id st' i = (if i = au_id u then Some u else get_user_by_id st i)
    \<and> get_user_by_email st' e = (if norm_email e = au_email u then Some u else get_user_by_email st e)
    \<and> get_identity st' p sub = get_identity st p sub"
proof -
  have ok: "store_ok st'" using store_ok_create [OF assms(1,2)] assms(3) by simp
  have u: "u = user_row n" and st': "st' = st\<lparr>us_users := AList.update (nu_uuid n) u (us_users st),
      us_email_index := AList.update (norm_email (nu_email n)) (nu_uuid n) (us_email_index st)\<rparr>"
    using assms(3) by (auto simp: create_user_def user_row_def Let_def split: if_splits)
  have fr: "nu_uuid n \<noteq> []" "map_of (us_users st) (nu_uuid n) = None"
    using assms(2) by (simp_all add: fresh_uuid_def)
  have other: "i \<noteq> nu_uuid n" if "map_of (us_email_index st) x = Some i" for x i
    using store_ok_index [OF assms(1) that] fr(2) by auto
  have "get_user_by_email st' e = (if norm_email e = au_email u then Some u else get_user_by_email st e)"
    using fr other
    by (auto simp: get_user_by_email_def st' u user_row_def split: option.splits)
  with ok u fr show ?thesis by (simp add: st' get_user_by_id_def get_identity_def user_row_def)
qed

lemma store_create_fails:
  assumes "store_ok st" and "fresh_uuid st (nu_uuid n)" and "create_user st n = (st', Inl err)"
  shows "st' = st \<and> get_user_by_email st (nu_email n) \<noteq> None"
proof -
  have st': "st' = st" and "norm_email (nu_email n) \<in> set (map fst (us_email_index st))"
    using assms(3) by (auto simp: create_user_def Let_def split: if_splits)
  then obtain uid where uid: "map_of (us_email_index st) (norm_email (nu_email n)) = Some uid"
    by (metis list.set_map map_of_eq_None_iff not_None_eq)
  with store_ok_index [OF assms(1) uid] store_ok_user [OF assms(1)] st' show ?thesis
    by (auto simp: get_user_by_email_def)
qed

lemma store_create_clash:
  "get_user_by_email st (nu_email n) \<noteq> None \<Longrightarrow> \<exists>err. create_user st n = (st, Inl err)"
  by (auto simp: get_user_by_email_def create_user_def Let_def map_of_eq_None_iff split: option.splits
      dest!: map_of_SomeD intro: rev_image_eqI)

interpretation mem: user_store_api store_ok fresh_uuid get_user_by_id get_user_by_email create_user
    get_identity link_identity
proof (unfold_locales, goal_cases)
  case (1 s e u)
  then show ?case by (rule store_by_email_id)
next
  case (2 s n s' u i e p sub)
  then show ?case by (rule store_create_ok)
next
  case (3 s n s' err)
  then show ?case by (rule store_create_fails)
next
  case (4 s n)
  then show ?case by (intro store_create_clash)
next
  case (5 s p sub uid e v)
  then show ?case by (rule store_ok_link)
qed (simp_all add: link_identity_def get_identity_def get_user_by_id_def get_user_by_email_def split: option.splits)

end
