(* ===== verification/Login.thy ===== *)
theory Login
  imports Authz User_Store Rate_Limits
begin

text \<open>
  First-party login: the identities that the providers' answers carry and their resolution to local
  accounts (\<open>opsrag/auth/sso.py\<close>), and the handlers for password login, refresh, logout and the SSO
  callback with the in-process lockout (\<open>opsrag/auth/login.py\<close>). The OAuth transport, the password
  hash and SHA-256 are parameters; the random tokens, uuids and clock readings of one request are its
  \<open>draws\<close>. With the in-memory store no \<open>await\<close> of a handler suspends, so a handler is one step.
\<close>

subsection \<open>External identities\<close>

record external_identity =
  ei_provider :: string
  ei_subject :: string
  ei_email :: "string option"
  ei_email_verified :: bool
  ei_name :: "string option"
  ei_picture_url :: "string option"
  ei_groups :: "string list"

definition sso_error :: py_error where "sso_error = Raised ''SSOError''"

definition verify_state :: "string option \<Rightarrow> string option \<Rightarrow> bool" where
  "verify_state expected received =
     (case (expected, received) of
        (Some e, Some r) \<Rightarrow> if e = [] \<or> r = [] then False else e = r
      | _ \<Rightarrow> False)"

text \<open>A claim that is meant to be a string. A false value is \<open>None\<close>; a true value of another type raises
  where a string method is called on it, here already where it is read.\<close>

definition str_or_none :: "json \<Rightarrow> string option result" where
  "str_or_none j =
     (if \<not> truthy j then Inr None
      else (case j of JStr s \<Rightarrow> Inr (Some s) | _ \<Rightarrow> Inl (AttributeError ''strip'')))"

definition plain_str :: "json \<Rightarrow> string option" where
  "plain_str j = (case j of JStr s \<Rightarrow> Some s | _ \<Rightarrow> None)"

definition email_verified_of :: "json \<Rightarrow> bool" where
  "email_verified_of ev_raw =
     (case ev_raw of JStr s \<Rightarrow> py_lower (py_strip s) = ''true'' | _ \<Rightarrow> truthy ev_raw)"

definition normalize_oidc_claims :: "(json \<Rightarrow> string) \<Rightarrow> string \<Rightarrow> obj \<Rightarrow> external_identity result" where
  "normalize_oidc_claims other provider claims =
     (case groups_of_claims other claims of
        Inl e \<Rightarrow> Inl e
      | Inr gs \<Rightarrow>
          (case map_of claims ''sub'' of
             None \<Rightarrow> Inl (KeyError ''sub'')
           | Some s \<Rightarrow>
               (case str_or_none (dget JNull ''email'' claims) of
                  Inl e \<Rightarrow> Inl e
                | Inr e \<Rightarrow>
                    Inr \<lparr>ei_provider = provider, ei_subject = json_str other s, ei_email = e,
                         ei_email_verified = email_verified_of (dget JNull ''email_verified'' claims),
                         ei_name = plain_str (dget JNull ''name'' claims),
                         ei_picture_url = plain_str (dget JNull ''picture'' claims), ei_groups = gs\<rparr>)))"

text \<open>The OIDC branch of \<open>fetch_identity\<close>: the parsed claims of the token, or those of the id token.\<close>

definition fetch_oidc_identity ::
  "(json \<Rightarrow> string) \<Rightarrow> string \<Rightarrow> obj \<Rightarrow> obj \<Rightarrow> external_identity result" where
  "fetch_oidc_identity other provider userinfo id_token =
     (let claims = (if userinfo = [] then id_token else userinfo) in
      if claims = [] \<or> \<not> truthy (dget JNull ''sub'' claims) then Inl sso_error
      else normalize_oidc_claims other provider claims)"

text \<open>\<open>next((e for e in emails if P(e)), None)\<close>: an element that is not a dict raises when reached.\<close>

fun next_email :: "(obj \<Rightarrow> bool) \<Rightarrow> json list \<Rightarrow> obj option result" where
  "next_email P [] = Inr None"
| "next_email P (JObj e # es) = (if P e then Inr (Some e) else next_email P es)"
| "next_email P (_ # es) = Inl (AttributeError ''get'')"

text \<open>The block that reads \<open>/user/emails\<close>, \<open>None\<close> when the request failed; every exception in it is
  caught and leaves no address.\<close>

definition github_email :: "json option \<Rightarrow> json \<times> bool" where
  "github_email emails =
     (let verified = (\<lambda>e. truthy (dget JNull ''verified'' e));
          primary = (\<lambda>e. truthy (dget JNull ''primary'' e) \<and> verified e)
      in case emails of
           Some (JList xs) \<Rightarrow>
             (case next_email primary xs of
                Inl _ \<Rightarrow> (JNull, False)
              | Inr (Some e) \<Rightarrow> (dget JNull ''email'' e, verified e)
              | Inr None \<Rightarrow>
                  (case next_email verified xs of
                     Inr (Some e) \<Rightarrow> (dget JNull ''email'' e, verified e)
                   | _ \<Rightarrow> (JNull, False)))
         | _ \<Rightarrow> (JNull, False))"

definition fetch_github_identity ::
  "(json \<Rightarrow> string) \<Rightarrow> obj \<Rightarrow> json option \<Rightarrow> external_identity result" where
  "fetch_github_identity other user emails =
     (let s = dget JNull ''id'' user in
      if s = JNull then Inl sso_error
      else
        (let (e0, v0) = github_email emails;
             public = dget JNull ''email'' user;
             (e, v) = (if e0 = JNull \<and> truthy public then (public, False) else (e0, v0));
             login_name = dget JNull ''name'' user
         in case str_or_none e of
              Inl err \<Rightarrow> Inl err
            | Inr em \<Rightarrow>
                Inr \<lparr>ei_provider = ''github'', ei_subject = json_str other s,
                     ei_email = map_option py_lower em, ei_email_verified = v,
                     ei_name = plain_str (if truthy login_name then login_name
                                          else dget JNull ''login'' user),
                     ei_picture_url = plain_str (dget JNull ''avatar_url'' user), ei_groups = []\<rparr>))"

subsection \<open>Resolution to a local account\<close>

text \<open>The store is duck-typed in the code: its operations are arguments here. An empty address counts
  as none.\<close>

definition given :: "string option \<Rightarrow> string option" where
  "given e = (case e of Some x \<Rightarrow> if x = [] then None else Some x | None \<Rightarrow> None)"

definition sso_account :: "string set \<Rightarrow> external_identity \<Rightarrow> string \<Rightarrow> real \<Rightarrow> new_user" where
  "sso_account defaults ident uuid now =
     \<lparr>nu_email = (case given (ei_email ident) of Some e \<Rightarrow> e
        | None \<Rightarrow> ei_provider ident @ '':'' @ ei_subject ident @ ''@sso.local''),
      nu_password_hash = None, nu_email_verified = ei_email_verified ident,
      nu_roles = sorted_list_of_set defaults, nu_name = ei_name ident,
      nu_picture_url = ei_picture_url ident, nu_uuid = uuid, nu_now = now\<rparr>"

definition resolve_or_link_user ::
  "('s \<Rightarrow> string \<Rightarrow> auth_user option) \<Rightarrow> ('s \<Rightarrow> string \<Rightarrow> auth_user option) \<Rightarrow>
   ('s \<Rightarrow> new_user \<Rightarrow> 's \<times> auth_user result) \<Rightarrow>
   ('s \<Rightarrow> string \<Rightarrow> string \<Rightarrow> federated_identity option) \<Rightarrow>
   ('s \<Rightarrow> string \<Rightarrow> string \<Rightarrow> string \<Rightarrow> string option \<Rightarrow> bool \<Rightarrow> 's) \<Rightarrow>
   string set \<Rightarrow> string \<Rightarrow> real \<Rightarrow> 's \<Rightarrow> external_identity \<Rightarrow> 's \<times> auth_user result" where
  "resolve_or_link_user by_id by_email create identity link defaults uuid now s ident =
     (let p = ei_provider ident; q = ei_subject ident; e = given (ei_email ident);
          linked = (case identity s p q of None \<Rightarrow> None | Some l \<Rightarrow> by_id s (fi_user_id l));
          by_mail = (case e of None \<Rightarrow> None | Some x \<Rightarrow> by_email s x)
      in case linked of
           Some user \<Rightarrow> (s, Inr user)
         | None \<Rightarrow>
             (case (ei_email_verified ident, by_mail) of
                (True, Some user) \<Rightarrow> (link s p q (au_id user) e True, Inr user)
              | (False, Some _) \<Rightarrow> (s, Inl sso_error)
              | (_, None) \<Rightarrow>
                  (case create s (sso_account defaults ident uuid now) of
                     (s1, Inl err) \<Rightarrow> (s1, Inl err)
                   | (s1, Inr user) \<Rightarrow>
                       (link s1 p q (au_id user) e (ei_email_verified ident), Inr user))))"

context user_store_api begin

lemma resolve_cases:
  assumes "inv s" and "fresh s uuid"
    and "resolve_or_link_user by_id by_email create identity link defaults uuid now s ident = (s', Inr u)"
  obtains (Linked) l where "identity s (ei_provider ident) (ei_subject ident) = Some l"
      "by_id s (fi_user_id l) = Some u" "s' = s"
    | (Verified) e where "ei_email_verified ident" "ei_email ident = Some e" "by_email s e = Some u"
      "s' = link s (ei_provider ident) (ei_subject ident) (au_id u) (given (ei_email ident)) True"
    | (Created) s1 where "create s (sso_account defaults ident uuid now) = (s1, Inr u)"
      "s' = link s1 (ei_provider ident) (ei_subject ident) (au_id u) (given (ei_email ident))
              (ei_email_verified ident)"
proof -
  let ?p = "ei_provider ident" and ?q = "ei_subject ident" and ?e = "given (ei_email ident)"
  let ?linked = "case identity s ?p ?q of None \<Rightarrow> None | Some l \<Rightarrow> by_id s (fi_user_id l)"
  let ?mail = "case ?e of None \<Rightarrow> None | Some x \<Rightarrow> by_email s x"
  show thesis
  proof (cases ?linked)
    case (Some v)
    then obtain l where "identity s ?p ?q = Some l" "by_id s (fi_user_id l) = Some v"
      by (cases "identity s ?p ?q") simp_all
    with Some assms(3) show thesis by (intro Linked) (simp_all add: resolve_or_link_user_def Let_def)
  next
    case unlinked: None
    show thesis
    proof (cases ?mail)
      case (Some v)
      then obtain e where e: "?e = Some e" "by_email s e = Some v" by (cases ?e) simp_all
      then have "ei_email ident = Some e" by (simp add: given_def split: option.splits if_splits)
      with unlinked Some e assms(3) show thesis
        by (intro Verified) (auto simp: resolve_or_link_user_def Let_def split: bool.splits)
    next
      case None
      obtain s1 r where step: "create s (sso_account defaults ident uuid now) = (s1, r)"
        by (cases "create s (sso_account defaults ident uuid now)")
      have res: "(case r of Inl err \<Rightarrow> (s1, Inl err)
          | Inr v \<Rightarrow> (link s1 ?p ?q (au_id v) ?e (ei_email_verified ident), Inr v)) = (s', Inr u)"
        using unlinked None assms(3)
        by (cases "ei_email_verified ident"; cases r) (simp_all add: resolve_or_link_user_def Let_def step)
      then have "r = Inr u" by (cases r) simp_all
      with res step show thesis by (intro Created) auto
    qed
  qed
qed

lemma resolve_account:
  assumes "inv s" and "fresh s uuid"
    and "resolve_or_link_user by_id by_email create identity link defaults uuid now s ident = (s', Inr u)"
    and "by_id s (au_id u) = Some v"
  shows "(\<exists>l. identity s (ei_provider ident) (ei_subject ident) = Some l \<and> by_id s (fi_user_id l) = Some u)
    \<or> ei_email_verified ident \<and> (\<exists>e. ei_email ident = Some e \<and> norm_email e = au_email u)"
  using assms(1-3)
proof (cases rule: resolve_cases)
  case (Linked l)
  then show ?thesis by blast
next
  case (Verified e)
  then show ?thesis using by_email_id [OF assms(1), of e u] by auto
next
  case (Created s1)
  have fr: "fresh s (nu_uuid (sso_account defaults ident uuid now))"
    using assms(2) by (simp add: sso_account_def)
  have "by_id s (au_id u) = None" using create_ok [OF assms(1) fr Created(1)] by blast
  with assms(4) show ?thesis by simp
qed

lemma resolve_linked:
  assumes "inv s" and "fresh s uuid"
    and "resolve_or_link_user by_id by_email create identity link defaults uuid now s ident = (s', Inr u)"
  shows "inv s' \<and> (\<exists>l. identity s' (ei_provider ident) (ei_subject ident) = Some l
      \<and> by_id s' (fi_user_id l) = Some u)"
  using assms
proof (cases rule: resolve_cases)
  case (Linked l)
  then show ?thesis using assms(1) by simp
next
  case (Verified e)
  then show ?thesis
    using by_email_id [OF assms(1), of e u] assms(1)
    by (simp add: link_ok link_identity link_by_id identity_row_def)
next
  case (Created s1)
  have fr: "fresh s (nu_uuid (sso_account defaults ident uuid now))"
    using assms(2) by (simp add: sso_account_def)
  have "inv s1 \<and> by_id s1 (au_id u) = Some u"
    by (metis create_ok [OF assms(1) fr Created(1)])
  then show ?thesis
    by (simp add: Created(2) link_ok link_identity link_by_id identity_row_def)
qed

lemma resolve_again:
  assumes "identity s (ei_provider ident) (ei_subject ident) = Some l" and "by_id s (fi_user_id l) = Some u"
  shows "resolve_or_link_user by_id by_email create identity link defaults uuid now s ident = (s, Inr u)"
  using assms by (simp add: resolve_or_link_user_def Let_def)

lemma resolve_unverified_creates:
  assumes "inv s" and "fresh s uuid" and "ei_email ident = Some e" and "e \<noteq> []"
    and "by_email s e = None" and "identity s (ei_provider ident) (ei_subject ident) = None"
  shows "\<exists>s'. resolve_or_link_user by_id by_email create identity link defaults uuid now s ident
      = (s', Inr (user_row (sso_account defaults ident uuid now)))
    \<and> inv s' \<and> by_email s' e = Some (user_row (sso_account defaults ident uuid now))
    \<and> (\<forall>p q. (p, q) \<noteq> (ei_provider ident, ei_subject ident) \<longrightarrow> identity s' p q = identity s p q)
    \<and> (\<exists>l. identity s' (ei_provider ident) (ei_subject ident) = Some l
        \<and> by_id s' (fi_user_id l) = Some (user_row (sso_account defaults ident uuid now)))"
proof -
  let ?n = "sso_account defaults ident uuid now"
  have e: "nu_email ?n = e" "nu_uuid ?n = uuid"
    using assms(3,4) by (simp_all add: sso_account_def given_def)
  obtain s1 r where step: "create s ?n = (s1, r)" by (cases "create s ?n")
  with create_fails [OF assms(1), of ?n s1] assms(2,5) e obtain u where r: "r = Inr u"
    by (cases r) auto
  note ok = create_ok [OF assms(1), of ?n s1 u] step r assms(2) e
  have u: "u = user_row ?n" using ok by auto
  have "by_email s1 e = Some u" "identity s1 p q = identity s p q" "inv s1" "by_id s1 (au_id u) = Some u" for p q
    using ok u by (auto simp: user_row_def)
  moreover have "resolve_or_link_user by_id by_email create identity link defaults uuid now s ident
      = (link s1 (ei_provider ident) (ei_subject ident) (au_id u) (given (ei_email ident))
           (ei_email_verified ident), Inr u)"
    using assms(3-6) step r by (simp add: resolve_or_link_user_def given_def Let_def split: bool.splits)
  ultimately show ?thesis
    by (auto simp: u link_ok link_identity link_by_id link_by_email identity_row_def)
qed

end

definition sso_resolve :: "string set \<Rightarrow> string \<Rightarrow> real \<Rightarrow> user_store \<Rightarrow> external_identity \<Rightarrow> user_store \<times> auth_user result" where
  "sso_resolve = resolve_or_link_user get_user_by_id get_user_by_email create_user get_identity link_identity"

text \<open>C19: the account-takeover guard: on a well-formed store a sign-on reaches an account that existed
  before only through its own earlier link, or when the provider vouches for the address and it is the
  account's address; and the same external account then reaches the same local account for ever,
  whatever it claims about its address.\<close>

theorem sso_guard:
  assumes "store_ok st" and "fresh_uuid st uuid" and "sso_resolve defaults uuid now st ident = (st', Inr u)"
  shows "(get_user_by_id st (au_id u) \<noteq> None \<longrightarrow>
       (\<exists>l. get_identity st (ei_provider ident) (ei_subject ident) = Some l
            \<and> get_user_by_id st (fi_user_id l) = Some u)
       \<or> ei_email_verified ident \<and> (\<exists>e. ei_email ident = Some e \<and> norm_email e = au_email u))
    \<and> (ei_provider ident2 = ei_provider ident \<and> ei_subject ident2 = ei_subject ident
       \<longrightarrow> sso_resolve defaults2 uuid2 now2 st' ident2 = (st', Inr u))"
  using mem.resolve_account [OF assms(1,2) assms(3) [unfolded sso_resolve_def]]
    mem.resolve_linked [OF assms(1,2) assms(3) [unfolded sso_resolve_def]]
    mem.resolve_again [of st' ident2]
  by (auto simp: sso_resolve_def)

definition ident_of :: "string \<Rightarrow> string \<Rightarrow> string \<Rightarrow> bool \<Rightarrow> external_identity" where
  "ident_of p q e v = \<lparr>ei_provider = p, ei_subject = q, ei_email = Some e, ei_email_verified = v,
     ei_name = None, ei_picture_url = None, ei_groups = []\<rparr>"

theorem sso_guard_witness:
  "\<exists>st u. sso_resolve {''member_chat''} ''u1'' 0 new_store (ident_of ''google'' ''1'' ''a@x'' True) = (st, Inr u)
     \<and> sso_resolve {} ''u2'' 1 st (ident_of ''google'' ''1'' ''b@x'' False) = (st, Inr u)"
proof -
  let ?i = "ident_of ''google'' ''1'' ''a@x'' True"
  have ok: "store_ok new_store" "fresh_uuid new_store ''u1''"
    by (simp_all add: store_ok_new, simp add: fresh_uuid_def new_store_def)
  obtain st u where r: "sso_resolve {''member_chat''} ''u1'' 0 new_store ?i = (st, Inr u)"
    using mem.resolve_unverified_creates [OF ok, of ?i "''a@x''" "{''member_chat''}" 0]
    by (auto simp: sso_resolve_def ident_of_def new_store_def get_user_by_email_def get_identity_def)
  with sso_guard [OF ok r, of "ident_of ''google'' ''1'' ''b@x'' False" "{}" "''u2''" 1]
  show ?thesis by (auto simp: ident_of_def)
qed

text \<open>What the guard does not cover: it looks at the provider's assertion only, never at
  \<open>email_verified\<close> of the account it links to. An unverified sign-on with a free address plants an
  account; the verified owner of the address is then linked to that same account, and the first
  external account keeps its access to it.\<close>

theorem sso_planted_account:
  assumes "store_ok st" and "fresh_uuid st uuid" and "get_user_by_email st e = None" and "e \<noteq> []"
    and "get_identity st p1 q1 = None" and "get_identity st p2 q2 = None" and "(p1, q1) \<noteq> (p2, q2)"
  shows "\<exists>st1 st2 u.
      sso_resolve defaults uuid now st (ident_of p1 q1 e False) = (st1, Inr u) \<and> \<not> au_email_verified u
    \<and> sso_resolve defaults uuid2 now2 st1 (ident_of p2 q2 e True) = (st2, Inr u)
    \<and> sso_resolve defaults uuid3 now3 st2 (ident_of p1 q1 e False) = (st2, Inr u)"
proof -
  let ?a = "ident_of p1 q1 e False"
  let ?u = "user_row (sso_account defaults ?a uuid now)"
  obtain st1 where st1: "sso_resolve defaults uuid now st ?a = (st1, Inr ?u)"
    and mail: "get_user_by_email st1 e = Some ?u" and ids: "get_identity st1 p2 q2 = None"
    and l1: "\<exists>l. get_identity st1 p1 q1 = Some l \<and> get_user_by_id st1 (fi_user_id l) = Some ?u"
    using mem.resolve_unverified_creates [OF assms(1,2), of ?a e defaults now] assms(3-7)
    by (auto simp: sso_resolve_def ident_of_def)
  let ?st2 = "link_identity st1 p2 q2 (au_id ?u) (Some e) True"
  have st2: "sso_resolve defaults uuid2 now2 st1 (ident_of p2 q2 e True) = (?st2, Inr ?u)"
    using mail ids assms(4)
    by (simp add: sso_resolve_def resolve_or_link_user_def ident_of_def given_def Let_def)
  have "\<exists>l. get_identity ?st2 p1 q1 = Some l \<and> get_user_by_id ?st2 (fi_user_id l) = Some ?u"
    using l1 assms(7) by (auto simp: mem.link_identity mem.link_by_id)
  then have "sso_resolve defaults uuid3 now3 ?st2 ?a = (?st2, Inr ?u)"
    using mem.resolve_again [of ?st2 ?a] by (auto simp: sso_resolve_def ident_of_def)
  moreover have "\<not> au_email_verified ?u" by (simp add: user_row_def sso_account_def ident_of_def)
  ultimately show ?thesis using st1 st2 by blast
qed

theorem sso_planted_account_witness:
  "\<exists>st1 st2 u.
      sso_resolve {} ''u1'' 0 new_store (ident_of ''github'' ''9'' ''ceo@x'' False) = (st1, Inr u) \<and> \<not> au_email_verified u
    \<and> sso_resolve {} ''u2'' 1 st1 (ident_of ''google'' ''7'' ''ceo@x'' True) = (st2, Inr u)
    \<and> sso_resolve {} ''u3'' 2 st2 (ident_of ''github'' ''9'' ''ceo@x'' False) = (st2, Inr u)"
  by (rule sso_planted_account)
    (simp_all add: store_ok_new fresh_uuid_def new_store_def get_user_by_email_def get_identity_def,
     simp add: store_ok_def)

subsection \<open>The in-process lockout\<close>

record login_limiter =
  ll_max_attempts :: int
  ll_window_seconds :: real
  ll_lockout_seconds :: real
  ll_state :: "(string, attempts) dict"

definition new_login_limiter :: login_limiter where
  "new_login_limiter = \<lparr>ll_max_attempts = 5, ll_window_seconds = 300, ll_lockout_seconds = 900, ll_state = []\<rparr>"

definition is_locked :: "login_limiter \<Rightarrow> string \<Rightarrow> real \<Rightarrow> bool" where
  "is_locked l key now = (case map_of (ll_state l) key of None \<Rightarrow> False | Some a \<Rightarrow> now < locked_until a)"

definition retry_after :: "login_limiter \<Rightarrow> string \<Rightarrow> real \<Rightarrow> int" where
  "retry_after l key now =
     (case map_of (ll_state l) key of None \<Rightarrow> 0
      | Some a \<Rightarrow> if locked_until a \<le> now then 0 else py_trunc (locked_until a - now) + 1)"

definition record_failure :: "login_limiter \<Rightarrow> string \<Rightarrow> real \<Rightarrow> login_limiter \<times> bool" where
  "record_failure l key now =
     (let a0 = (case map_of (ll_state l) key of
                  None \<Rightarrow> \<lparr>att_count = 0, first_ts = now, locked_until = 0\<rparr>
                | Some a \<Rightarrow> if ll_window_seconds l < now - first_ts a
                            then \<lparr>att_count = 0, first_ts = now, locked_until = 0\<rparr> else a);
          a = a0\<lparr>att_count := att_count a0 + 1\<rparr>
      in if ll_max_attempts l \<le> att_count a
         then (l\<lparr>ll_state := AList.update key (a\<lparr>locked_until := now + ll_lockout_seconds l\<rparr>) (ll_state l)\<rparr>, True)
         else (l\<lparr>ll_state := AList.update key a (ll_state l)\<rparr>, False))"

definition record_success :: "login_limiter \<Rightarrow> string \<Rightarrow> login_limiter" where
  "record_success l key = l\<lparr>ll_state := AList.delete key (ll_state l)\<rparr>"

definition as_backend :: "login_limiter \<Rightarrow> mem_backend" where
  "as_backend l = \<lparr>mem_buckets = [], mem_login = ll_state l\<rparr>"

text \<open>The limiter of the login layer is the memory backend's login limiter, operation by operation.\<close>

lemma limiter_backend:
  "is_locked l key now = login_locked (as_backend l) key now"
  "retry_after l key now = login_retry_after (as_backend l) key now"
  "as_backend (record_success l key) = record_login_success (as_backend l) key"
  "(case record_failure l key now of (l', b) \<Rightarrow> (as_backend l', b))
     = record_login_failure (as_backend l) key (ll_max_attempts l) (ll_window_seconds l) (ll_lockout_seconds l) now"
  by (simp_all add: is_locked_def retry_after_def record_success_def record_failure_def as_backend_def
      login_locked_def login_retry_after_def record_login_success_def record_login_failure_def Let_def)

subsection \<open>The handlers\<close>

datatype http_error = HTTP nat string int

type_synonym 'a http = "http_error + 'a"

text \<open>What is fixed for a deployment, and the random values and clock readings of one request.\<close>

record login_env =
  ev_hash_token :: "string \<Rightarrow> string"
  ev_verify_password :: "string \<Rightarrow> string option \<Rightarrow> bool \<times> string option"
  ev_default_roles :: "string set"
  ev_role_mappings :: "(string, string list) dict"
  ev_refresh_ttl :: real

record draws =
  dr_refresh :: string
  dr_csrf :: string
  dr_session_uuid :: string
  dr_user_uuid :: string
  dr_utc :: real
  dr_mono :: real

record login_app =
  la_password_enabled :: bool
  la_store :: "user_store option"
  la_limiter :: "login_limiter option"
  la_session_manager :: bool

record issued =
  is_user_id :: string
  is_email :: string
  is_roles :: "string list"
  is_refresh :: string
  is_csrf :: string

definition not_configured :: http_error where
  "not_configured = HTTP 503 ''login not configured'' 0"

definition roles_for :: "login_env \<Rightarrow> auth_user \<Rightarrow> string set" where
  "roles_for env user =
     (let explicit = set (au_roles user) in
      if explicit \<noteq> {} then explicit
      else resolve_roles (ev_default_roles env) [] (Some (ev_role_mappings env)) False)"

definition issue_session ::
  "login_env \<Rightarrow> draws \<Rightarrow> user_store \<Rightarrow> auth_user \<Rightarrow> user_store \<times> issued" where
  "issue_session env dr st user =
     (create_refresh_session st (au_id user) (ev_hash_token env (dr_refresh dr))
        (dr_utc dr + ev_refresh_ttl env) (dr_session_uuid dr) (dr_utc dr),
      \<lparr>is_user_id = au_id user, is_email = au_email user,
       is_roles = sorted_list_of_set (roles_for env user), is_refresh = dr_refresh dr, is_csrf = dr_csrf dr\<rparr>)"

definition login_key :: "string \<Rightarrow> string option \<Rightarrow> string" where
  "login_key mail ip = norm_email mail @ ''|'' @ (case ip of None \<Rightarrow> ''unknown'' | Some a \<Rightarrow> a)"

definition password_login ::
  "login_env \<Rightarrow> draws \<Rightarrow> login_app \<Rightarrow> string \<Rightarrow> string \<Rightarrow> string option \<Rightarrow> login_app \<times> issued http" where
  "password_login env dr app mail password ip =
     (if \<not> la_password_enabled app then (app, Inl (HTTP 403 ''password_login_disabled'' 0))
      else case (la_store app, la_limiter app) of
        (Some st, Some l) \<Rightarrow>
          (let key = login_key mail ip in
           if is_locked l key (dr_mono dr)
           then (app, Inl (HTTP 429 ''locked_out'' (retry_after l key (dr_mono dr))))
           else
             (let user = get_user_by_email st mail;
                  (ok, new_hash) = ev_verify_password env password
                                     (case user of None \<Rightarrow> None | Some u \<Rightarrow> au_password_hash u)
              in case (ok, user) of
                   (True, Some u) \<Rightarrow>
                     (let app1 = app\<lparr>la_limiter := Some (record_success l key)\<rparr>;
                          st1 = (case new_hash of None \<Rightarrow> st
                                 | Some h \<Rightarrow> set_password_hash st (au_id u) h (dr_utc dr))
                      in if \<not> la_session_manager app
                         then (app1\<lparr>la_store := Some st1\<rparr>, Inl not_configured)
                         else (case issue_session env dr st1 u of
                                 (st2, out) \<Rightarrow> (app1\<lparr>la_store := Some st2\<rparr>, Inr out)))
                 | _ \<Rightarrow>
                     (case record_failure l key (dr_mono dr) of
                        (l', locked) \<Rightarrow>
                          (app\<lparr>la_limiter := Some l'\<rparr>,
                           Inl (if locked then HTTP 429 ''locked_out'' (retry_after l' key (dr_mono dr))
                                else HTTP 401 ''invalid_credentials'' 0)))))
      | _ \<Rightarrow> (app, Inl not_configured))"

definition logout :: "login_env \<Rightarrow> draws \<Rightarrow> login_app \<Rightarrow> string option \<Rightarrow> login_app" where
  "logout env dr app cookie =
     (case (la_session_manager app, given cookie, la_store app) of
        (True, Some raw, Some st) \<Rightarrow>
          app\<lparr>la_store := Some (revoke_refresh_session st (ev_hash_token env raw) (dr_utc dr))\<rparr>
      | _ \<Rightarrow> app)"

definition refresh :: "login_env \<Rightarrow> draws \<Rightarrow> login_app \<Rightarrow> string option \<Rightarrow> login_app \<times> issued http" where
  "refresh env dr app cookie =
     (if \<not> la_session_manager app then (app, Inl not_configured)
      else case la_store app of
        None \<Rightarrow> (app, Inl not_configured)
      | Some st \<Rightarrow>
          (case given cookie of
             None \<Rightarrow> (app, Inl (HTTP 401 ''missing_refresh_token'' 0))
           | Some raw \<Rightarrow>
               (let presented = ev_hash_token env raw in
                case get_refresh_session st presented of
                  None \<Rightarrow> (app, Inl (HTTP 401 ''invalid_refresh_token'' 0))
                | Some s \<Rightarrow>
                    if \<not> is_active (dr_utc dr) s
                    then (app, Inl (HTTP 401 ''invalid_refresh_token'' 0))
                    else (case get_user_by_id st (rs_user_id s) of
                            None \<Rightarrow> (app, Inl (HTTP 401 ''user_gone'' 0))
                          | Some user \<Rightarrow>
                              (case issue_session env dr
                                      (revoke_refresh_session st presented (dr_utc dr)) user of
                                 (st2, out) \<Rightarrow> (app\<lparr>la_store := Some st2\<rparr>, Inr out))))))"

text \<open>The callback, given the two state values and the outcome of \<open>fetch_identity\<close>.\<close>

definition sso_callback ::
  "login_env \<Rightarrow> draws \<Rightarrow> login_app \<Rightarrow> string option \<Rightarrow> string option \<Rightarrow> external_identity result \<Rightarrow>
   login_app \<times> issued http" where
  "sso_callback env dr app expected received fetched =
     (if \<not> la_session_manager app then (app, Inl not_configured)
      else case la_store app of
        None \<Rightarrow> (app, Inl not_configured)
      | Some st \<Rightarrow>
          if \<not> verify_state expected received then (app, Inl (HTTP 400 ''invalid_state'' 0))
          else (case fetched of
                  Inl e \<Rightarrow> (app, Inl (HTTP 400 ''sso_failed'' 0))
                | Inr ident \<Rightarrow>
                    (case sso_resolve (ev_default_roles env) (dr_user_uuid dr) (dr_utc dr) st ident of
                       (st1, Inl e) \<Rightarrow> (app\<lparr>la_store := Some st1\<rparr>, Inl (HTTP 400 ''sso_failed'' 0))
                     | (st1, Inr user) \<Rightarrow>
                         (case issue_session env dr st1 user of
                            (st2, out) \<Rightarrow> (app\<lparr>la_store := Some st2\<rparr>, Inr out)))))"

subsection \<open>Who gets a session\<close>

text \<open>A password login issues a session exactly when password login is on and everything is wired,
  the key is not locked, the address has an account and its stored hash verifies; every failed attempt
  that reaches the check is counted by the lockout, and a locked key is refused without checking the
  password and without counting.\<close>

theorem password_login_iff:
  assumes "la_store app = Some st" and "la_limiter app = Some l" and "la_password_enabled app"
  shows "(is_ok (snd (password_login env dr app mail pw ip)) \<longleftrightarrow>
      la_session_manager app \<and> \<not> is_locked l (login_key mail ip) (dr_mono dr)
      \<and> (\<exists>u. get_user_by_email st mail = Some u \<and> fst (ev_verify_password env pw (au_password_hash u))))
    \<and> (is_locked l (login_key mail ip) (dr_mono dr) \<longrightarrow> fst (password_login env dr app mail pw ip) = app)
    \<and> (\<not> is_locked l (login_key mail ip) (dr_mono dr) \<longrightarrow>
        (\<forall>u. get_user_by_email st mail = Some u \<longrightarrow> \<not> fst (ev_verify_password env pw (au_password_hash u))) \<longrightarrow>
        la_limiter (fst (password_login env dr app mail pw ip))
          = Some (fst (record_failure l (login_key mail ip) (dr_mono dr)))
        \<and> la_store (fst (password_login env dr app mail pw ip)) = Some st)"
  using assms
  by (cases "get_user_by_email st mail")
    (auto simp: password_login_def Let_def split: prod.splits bool.splits if_splits)

definition demo_env :: login_env where
  "demo_env = \<lparr>ev_hash_token = (\<lambda>s. ''#'' @ s), ev_verify_password = (\<lambda>p h. (h = Some p, None)),
     ev_default_roles = {''member_chat''}, ev_role_mappings = [], ev_refresh_ttl = 1000\<rparr>"

definition demo_draws :: draws where
  "demo_draws = \<lparr>dr_refresh = ''r2'', dr_csrf = ''c'', dr_session_uuid = ''s2'', dr_user_uuid = ''u2'',
     dr_utc = 10, dr_mono = 10\<rparr>"

definition demo_app :: "string \<Rightarrow> login_app" where
  "demo_app raw = \<lparr>la_password_enabled = True,
     la_store = Some (create_refresh_session (fst (create_user new_store ann)) ''u1'' (''#'' @ raw) 100 ''s1'' 1),
     la_limiter = Some new_login_limiter, la_session_manager = True\<rparr>"

theorem password_login_iff_witness:
  "\<not> is_ok (snd (password_login demo_env demo_draws (demo_app ''r1'') ''eve@x'' ''pw'' None))"
proof -
  have "get_user_by_email (the (la_store (demo_app ''r1''))) ''eve@x'' = None"
    by code_simp
  with password_login_iff [of "demo_app ''r1''" _ _ demo_env demo_draws "''eve@x''" "''pw''" None]
  show ?thesis by (simp add: demo_app_def)
qed

text \<open>The requests, as steps of the application; the tokens that are drawn are new.\<close>

definition new_draws :: "login_env \<Rightarrow> user_store \<Rightarrow> draws \<Rightarrow> bool" where
  "new_draws env st dr \<longleftrightarrow> fresh_uuid st (dr_user_uuid dr)
     \<and> map_of (us_sessions st) (ev_hash_token env (dr_refresh dr)) = None"

inductive login_step :: "login_env \<Rightarrow> login_app \<Rightarrow> login_app \<Rightarrow> bool" for env where
  login: "la_store app = Some st \<Longrightarrow> new_draws env st dr \<Longrightarrow>
     login_step env app (fst (password_login env dr app mail pw ip))"
| logout: "login_step env app (logout env dr app cookie)"
| refresh: "la_store app = Some st \<Longrightarrow> new_draws env st dr \<Longrightarrow>
     login_step env app (fst (refresh env dr app cookie))"
| sso: "la_store app = Some st \<Longrightarrow> new_draws env st dr \<Longrightarrow>
     login_step env app (fst (sso_callback env dr app expected received fetched))"
| admin: "la_store app = Some st \<Longrightarrow> store_step st st' \<Longrightarrow> login_step env app (app\<lparr>la_store := Some st'\<rparr>)"

lemma issue_session_step:
  "map_of (us_sessions st) (ev_hash_token env (dr_refresh dr)) = None \<Longrightarrow>
   store_step st (fst (issue_session env dr st user))"
  by (simp add: issue_session_def store_step.step_session)

lemma sso_resolve_sessions:
  "us_sessions (fst (sso_resolve defaults uuid now st ident)) = us_sessions st"
proof -
  have c: "us_sessions (fst (create_user st n)) = us_sessions st" for st n
    by (simp add: create_user_def Let_def)
  show ?thesis
    using c [of st "sso_account defaults ident uuid now"]
    by (cases "create_user st (sso_account defaults ident uuid now)")
      (simp add: sso_resolve_def resolve_or_link_user_def link_identity_def Let_def
        split: option.splits bool.splits sum.splits)
qed

lemma revoked_sessions:
  "us_sessions (set_password_hash st uid h now) = us_sessions st"
  "map_of (us_sessions (revoke_refresh_session st k now)) th = None \<longleftrightarrow> map_of (us_sessions st) th = None"
  by (auto simp: set_password_hash_def replace_user_def revoke_refresh_session_def split: option.splits)

text \<open>A revoked token stays revoked across requests, and no request creates a session under its hash.\<close>

definition dead :: "login_app \<Rightarrow> string \<Rightarrow> bool" where
  "dead app th \<longleftrightarrow> (\<exists>st s. la_store app = Some st \<and> get_refresh_session st th = Some s \<and> rs_revoked_at s \<noteq> None)"

lemma create_session_other:
  "th \<noteq> ev_hash_token env (dr_refresh dr) \<Longrightarrow>
   get_refresh_session (fst (issue_session env dr st user)) th = get_refresh_session st th"
  by (simp add: issue_session_def get_refresh_session_def create_refresh_session_def)

lemma revoke_keeps:
  "get_refresh_session st th = Some s \<Longrightarrow> rs_revoked_at s \<noteq> None \<Longrightarrow>
   get_refresh_session (revoke_refresh_session st k now) th = Some s"
  by (rule revoked_step [OF step_revoke])

lemma login_step_dead:
  assumes "login_step env app app'" and "dead app th"
  shows "dead app' th"
  using assms
proof (induction rule: login_step.induct)
  case (login app st dr mail pw ip)
  then obtain s where s: "get_refresh_session st th = Some s" "rs_revoked_at s \<noteq> None"
    by (auto simp: dead_def)
  with login(2) have ne: "th \<noteq> ev_hash_token env (dr_refresh dr)"
    by (auto simp: new_draws_def get_refresh_session_def)
  have "get_refresh_session (set_password_hash st uid h now) th = Some s" for uid h now
    using s by (simp add: get_refresh_session_def revoked_sessions)
  then show ?case
    using login(1) s create_session_other [OF ne]
    by (auto simp: dead_def password_login_def Let_def split_beta split: option.splits bool.splits)
next
  case (logout app dr cookie)
  then show ?case
    by (auto simp: dead_def logout_def revoke_keeps split: bool.splits option.splits)
next
  case (refresh app st dr cookie)
  then obtain s where s: "get_refresh_session st th = Some s" "rs_revoked_at s \<noteq> None"
    by (auto simp: dead_def)
  with refresh(2) have ne: "th \<noteq> ev_hash_token env (dr_refresh dr)"
    by (auto simp: new_draws_def get_refresh_session_def)
  show ?case
    using refresh(1) s revoke_keeps [OF s] create_session_other [OF ne]
    by (auto simp: dead_def refresh_def Let_def split_beta split: option.splits)
next
  case (sso app st dr expected received fetched)
  then obtain s where s: "get_refresh_session st th = Some s" "rs_revoked_at s \<noteq> None"
    by (auto simp: dead_def)
  with sso(2) have ne: "th \<noteq> ev_hash_token env (dr_refresh dr)"
    by (auto simp: new_draws_def get_refresh_session_def)
  have keep: "get_refresh_session (fst (sso_resolve defaults uuid now st ident)) th = Some s"
    for defaults uuid now ident
    using s(1) by (simp add: get_refresh_session_def sso_resolve_sessions)
  then have keep': "get_refresh_session st1 th = Some s"
    if "sso_resolve defaults uuid now st ident = (st1, r)" for defaults uuid now ident st1 r
    using that by (metis fst_conv)
  have issued: "get_refresh_session st2 th = Some s"
    if "issue_session env dr st1 user = (st2, out)" "sso_resolve defaults uuid now st ident = (st1, r)"
    for st1 user st2 out defaults uuid now ident r
    using that(1) create_session_other [OF ne, of st1 user] keep' [OF that(2)] by simp
  show ?case
    using sso(1) s
    by (auto simp: dead_def sso_callback_def create_session_other [OF ne] dest: keep' issued
        split: prod.splits option.splits sum.splits)
next
  case (admin app st st')
  then show ?case by (auto simp: dead_def dest: revoked_step)
qed

text \<open>C1: a refresh token works once: after a refresh that succeeded with it, whatever logins, logouts,
  refreshes, sign-ons and administrative changes follow, presenting it again is refused and changes
  nothing.\<close>

theorem refresh_single_use:
  assumes "refresh env dr app (Some raw) = (app1, Inr out)"
    and "ev_hash_token env raw \<noteq> ev_hash_token env (dr_refresh dr)"
    and "(login_step env)\<^sup>*\<^sup>* app1 app2"
  shows "\<exists>err. refresh env dr' app2 (Some raw) = (app2, Inl err)"
proof -
  let ?th = "ev_hash_token env raw"
  obtain st s user where st: "la_store app = Some st" "raw \<noteq> []"
    and s: "get_refresh_session st ?th = Some s" "is_active (dr_utc dr) s"
    and app1: "app1 = app\<lparr>la_store := Some (fst (issue_session env dr
        (revoke_refresh_session st ?th (dr_utc dr)) user))\<rparr>"
    using assms(1) by (auto simp: refresh_def given_def Let_def split_beta split: option.splits if_splits)
  have "\<exists>s'. get_refresh_session (revoke_refresh_session st ?th (dr_utc dr)) ?th = Some s' \<and> rs_revoked_at s' \<noteq> None"
    using s by (auto simp: get_refresh_session_def revoke_refresh_session_def is_active_def)
  then have "dead app1 ?th"
    by (simp add: app1 dead_def create_session_other [OF assms(2)])
  with assms(3) have "dead app2 ?th"
    by (induction rule: rtranclp_induct) (auto dest: login_step_dead)
  then show ?thesis
    using st(2) by (auto simp: dead_def refresh_def given_def is_active_def Let_def)
qed

theorem refresh_single_use_witness:
  "\<exists>app1 out err. refresh demo_env demo_draws (demo_app ''r1'') (Some ''r1'') = (app1, Inr out)
     \<and> refresh demo_env demo_draws app1 (Some ''r1'') = (app1, Inl err)"
proof -
  have "is_ok (snd (refresh demo_env demo_draws (demo_app ''r1'') (Some ''r1'')))"
    by (simp add: refresh_def demo_app_def demo_env_def demo_draws_def given_def create_refresh_session_def
        get_refresh_session_def create_user_def new_store_def ann_def user_row_def is_active_def
        get_user_by_id_def issue_session_def Let_def)
  then obtain app1 out where r: "refresh demo_env demo_draws (demo_app ''r1'') (Some ''r1'') = (app1, Inr out)"
    by (cases "refresh demo_env demo_draws (demo_app ''r1'') (Some ''r1'')") (auto simp: is_ok_iff)
  from refresh_single_use [OF r _ rtranclp.rtrancl_refl] r show ?thesis
    by (auto simp: demo_env_def demo_draws_def)
qed

end
