(* ===== verification/Tool_Cache.thy ===== *)
theory Tool_Cache
  imports Py_Prelude
begin

text \<open>
  The micro-cache of the tool calls (\<open>opsrag/mcp/tool_cache.py\<close>): an LRU store with a deadline per
  entry that also keeps raised exceptions. \<open>get_or_compute\<close> holds its lock twice, before and after
  \<open>compute\<close>, and lets other calls in between; so it is modelled as its two locked phases, and the
  invariants range over all interleavings of the phases (\<open>cache_step\<close>). The store is a list in LRU
  order, least recently used first. An entry's \<open>value\<close> and \<open>is_error\<close> are one sum: \<open>Inl\<close> is a cached
  exception. JSON printing and SHA-256 are parameters of the key function.
\<close>

subsection \<open>Keys and deadlines\<close>

definition tool_ttls :: "(string, int) dict" where
  "tool_ttls =
     [(''prometheus_query'', 30), (''prometheus_query_range'', 30),
      (''prometheus_label_values'', 3600), (''prometheus_series'', 60),
      (''prometheus_metric_metadata'', 3600), (''prometheus_targets'', 300),
      (''k8s_list_pods'', 30), (''k8s_list_deployments'', 60),
      (''k8s_describe_pod'', 30), (''k8s_pod_logs'', 15),
      (''k8s_get_events'', 60), (''k8s_top_pods'', 30),
      (''k8s_list_services'', 300), (''k8s_list_namespaces'', 300),
      (''k8s_describe_node'', 120), (''cloudsql_list_instances'', 300),
      (''cloudsql_get_instance'', 120), (''cloudsql_get_metrics'', 60),
      (''cloudsql_list_databases'', 300), (''cloudsql_list_users'', 600),
      (''cloudsql_list_backups'', 600), (''cloudsql_list_operations'', 120),
      (''datadog_search_traces'', 30), (''datadog_search_events'', 60),
      (''datadog_list_monitors'', 120), (''datadog_get_monitor'', 60),
      (''datadog_query_metrics'', 60), (''datadog_list_slos'', 300),
      (''datadog_get_slo'', 60), (''rootly_search'', 60),
      (''rootly_list_incidents'', 60), (''rootly_get_incident'', 300),
      (''rootly_get_post_mortem'', 86400), (''rootly_get_severity'', 86400),
      (''rootly_get_environment'', 86400), (''rootly_get_incident_role'', 86400),
      (''gitlab_get_pipeline'', 86400), (''gitlab_list_pipelines'', 120),
      (''gitlab_get_pipeline_job'', 86400), (''gitlab_list_pipeline_jobs'', 300),
      (''gitlab_get_commit'', 2592000), (''gitlab_list_commits'', 300),
      (''gitlab_get_file_contents'', 300), (''gitlab_list_merge_requests'', 120),
      (''gitlab_get_merge_request'', 1800), (''gitlab_list_projects'', 3600)]"

definition default_ttl :: int where "default_ttl = 60"
definition negative_ttl :: int where "negative_ttl = 30"
definition max_entries_default :: int where "max_entries_default = 5000"
definition value_size_limit :: int where "value_size_limit = 500000"

text \<open>\<open>json.dumps(args or {}, sort_keys=True)\<close>: the dicts are sorted at every depth, then printed.\<close>

fun sort_keys :: "json \<Rightarrow> json" where
  "sort_keys (JList xs) = JList (map sort_keys xs)"
| "sort_keys (JObj d) = JObj (sort_key fst (map (\<lambda>(k, v). (k, sort_keys v)) d))"
| "sort_keys j = j"

definition canonical_key ::
  "(string \<Rightarrow> string) \<Rightarrow> (json \<Rightarrow> string) \<Rightarrow> string \<Rightarrow> obj option \<Rightarrow> string" where
  "canonical_key hexdigest dumps tool_name args =
     take 32 (hexdigest (tool_name @ [char_of (0::nat)] @
       dumps (sort_keys (JObj (case args of None \<Rightarrow> [] | Some d \<Rightarrow> d)))))"

subsection \<open>The cache\<close>

record 'v entry =
  en_value :: "'v result"
  en_expires_at :: real
  en_size_bytes :: int

record tool_counts =
  tc_hits :: nat
  tc_misses :: nat
  tc_negative_hits :: nat

record cache_stats =
  cs_hits :: nat
  cs_misses :: nat
  cs_negative_hits :: nat
  cs_evictions :: nat
  cs_skipped_too_big :: nat
  cs_by_tool :: "(string, tool_counts) dict"

record 'v cache =
  ca_store :: "(string, 'v entry) dict"
  ca_max_entries :: int
  ca_default_ttl :: int
  ca_negative_ttl :: int
  ca_stats :: cache_stats
  ca_tool_index :: "(string, string set) dict"

definition new_cache :: "int \<Rightarrow> int \<Rightarrow> int \<Rightarrow> 'v cache" where
  "new_cache max_entries dflt neg =
     \<lparr>ca_store = [], ca_max_entries = max_entries, ca_default_ttl = dflt, ca_negative_ttl = neg,
      ca_stats = \<lparr>cs_hits = 0, cs_misses = 0, cs_negative_hits = 0, cs_evictions = 0,
                  cs_skipped_too_big = 0, cs_by_tool = []\<rparr>,
      ca_tool_index = []\<rparr>"

definition ttl_for :: "'v cache \<Rightarrow> string \<Rightarrow> int" where
  "ttl_for c tool_name = dget (ca_default_ttl c) tool_name tool_ttls"

definition move_to_end :: "string \<Rightarrow> (string, 'v entry) dict \<Rightarrow> (string, 'v entry) dict" where
  "move_to_end k d = (case map_of d k of None \<Rightarrow> d | Some e \<Rightarrow> AList.delete k d @ [(k, e)])"

datatype stat_field = Hits | Misses | Negative_hits

definition bump :: "string \<Rightarrow> stat_field \<Rightarrow> cache_stats \<Rightarrow> cache_stats" where
  "bump tool_name f s =
     (let b = dget \<lparr>tc_hits = 0, tc_misses = 0, tc_negative_hits = 0\<rparr> tool_name (cs_by_tool s);
          b' = (case f of
                  Hits \<Rightarrow> b\<lparr>tc_hits := tc_hits b + 1\<rparr>
                | Misses \<Rightarrow> b\<lparr>tc_misses := tc_misses b + 1\<rparr>
                | Negative_hits \<Rightarrow> b\<lparr>tc_negative_hits := tc_negative_hits b + 1\<rparr>)
      in s\<lparr>cs_by_tool := AList.update tool_name b' (cs_by_tool s)\<rparr>)"

text \<open>The first locked phase. \<open>Some r\<close> is a hit (an exception is raised again), \<open>None\<close> a miss.\<close>

definition cache_lookup ::
  "'v cache \<Rightarrow> string \<Rightarrow> string \<Rightarrow> real \<Rightarrow> 'v cache \<times> 'v result option" where
  "cache_lookup c tool_name key now =
     (let s = ca_stats c in
      case map_of (ca_store c) key of
        Some e \<Rightarrow>
          if now < en_expires_at e
          then (c\<lparr>ca_store := move_to_end key (ca_store c),
                  ca_stats := (if is_ok (en_value e)
                     then bump tool_name Hits (s\<lparr>cs_hits := cs_hits s + 1\<rparr>)
                     else bump tool_name Negative_hits (s\<lparr>cs_negative_hits := cs_negative_hits s + 1\<rparr>))\<rparr>,
                Some (en_value e))
          else (c\<lparr>ca_store := AList.delete key (ca_store c),
                  ca_stats := bump tool_name Misses (s\<lparr>cs_misses := cs_misses s + 1\<rparr>)\<rparr>, None)
      | None \<Rightarrow> (c\<lparr>ca_stats := bump tool_name Misses (s\<lparr>cs_misses := cs_misses s + 1\<rparr>)\<rparr>, None))"

text \<open>The eviction loop of \<open>_put\<close>; \<open>popitem\<close> on an empty store raises.\<close>

fun evict_lru ::
  "int \<Rightarrow> (string, 'v entry) dict \<Rightarrow> (string, string set) dict \<Rightarrow> nat \<Rightarrow>
   ((string, 'v entry) dict \<times> (string, string set) dict \<times> nat) result" where
  "evict_lru m [] index n = (if m < 0 then Inl (KeyError ''dictionary is empty'') else Inr ([], index, n))"
| "evict_lru m ((k, e) # rest) index n =
     (if m < int (length ((k, e) # rest))
      then evict_lru m rest (map (\<lambda>(t, ks). (t, ks - {k})) index) (n + 1)
      else Inr ((k, e) # rest, index, n))"

definition cache_put :: "'v cache \<Rightarrow> string \<Rightarrow> string \<Rightarrow> 'v entry \<Rightarrow> 'v cache result" where
  "cache_put c key tool_name e =
     (let store = move_to_end key (AList.update key e (ca_store c));
          index = AList.update tool_name (insert key (dget {} tool_name (ca_tool_index c))) (ca_tool_index c);
          s = ca_stats c
      in case evict_lru (ca_max_entries c) store index (cs_evictions s) of
           Inl err \<Rightarrow> Inl err
         | Inr (store', index', n) \<Rightarrow>
             Inr (c\<lparr>ca_store := store', ca_tool_index := index', ca_stats := s\<lparr>cs_evictions := n\<rparr>\<rparr>))"

text \<open>The second phase, for the outcome of \<open>compute\<close> at time \<open>now\<close>; \<open>nbytes\<close> is the length of the printed
  value. The answer is the outcome itself.\<close>

definition cache_finish ::
  "'v cache \<Rightarrow> string \<Rightarrow> string \<Rightarrow> 'v result \<Rightarrow> int \<Rightarrow> real \<Rightarrow> 'v cache result" where
  "cache_finish c tool_name key outcome nbytes now =
     (case outcome of
        Inl exc \<Rightarrow>
          cache_put c key tool_name
            \<lparr>en_value = Inl exc, en_expires_at = now + ca_negative_ttl c, en_size_bytes = 0\<rparr>
      | Inr v \<Rightarrow>
          if value_size_limit < nbytes
          then Inr (c\<lparr>ca_stats := (ca_stats c)\<lparr>cs_skipped_too_big := cs_skipped_too_big (ca_stats c) + 1\<rparr>\<rparr>)
          else cache_put c key tool_name
            \<lparr>en_value = Inr v, en_expires_at = now + ttl_for c tool_name, en_size_bytes = nbytes\<rparr>)"

text \<open>A whole call that no other call interleaves with.\<close>

definition get_or_compute ::
  "'v cache \<Rightarrow> string \<Rightarrow> string \<Rightarrow> real \<Rightarrow> 'v result \<Rightarrow> int \<Rightarrow> real \<Rightarrow> ('v cache \<times> 'v result) result" where
  "get_or_compute c tool_name key now outcome nbytes later =
     (case cache_lookup c tool_name key now of
        (c1, Some r) \<Rightarrow> Inr (c1, r)
      | (c1, None) \<Rightarrow>
          (case cache_finish c1 tool_name key outcome nbytes later of
             Inl err \<Rightarrow> Inl err
           | Inr c2 \<Rightarrow> Inr (c2, outcome)))"

definition cache_purge :: "'v cache \<Rightarrow> string option \<Rightarrow> bool \<Rightarrow> 'v cache \<times> nat" where
  "cache_purge c tool_name everything =
     (if everything then (c\<lparr>ca_store := [], ca_tool_index := []\<rparr>, length (ca_store c))
      else case tool_name of
        None \<Rightarrow> (c, 0)
      | Some t \<Rightarrow>
          (let keys = dget {} t (ca_tool_index c) in
           (c\<lparr>ca_tool_index := AList.delete t (ca_tool_index c),
              ca_store := filter (\<lambda>(k, _). k \<notin> keys) (ca_store c)\<rparr>, card keys)))"

definition cache_enabled :: "string option \<Rightarrow> bool" where
  "cache_enabled env =
     (py_lower (case env of None \<Rightarrow> ''1'' | Some v \<Rightarrow> v) \<in> {''1'', ''true'', ''yes'', ''on''})"

definition cached_call ::
  "string option \<Rightarrow> 'v cache \<Rightarrow> string \<Rightarrow> string \<Rightarrow> real \<Rightarrow> 'v result \<Rightarrow> int \<Rightarrow> real \<Rightarrow>
   ('v cache \<times> 'v result) result" where
  "cached_call env c tool_name key now outcome nbytes later =
     (if \<not> cache_enabled env then Inr (c, outcome)
      else get_or_compute c tool_name key now outcome nbytes later)"

subsection \<open>The LRU list\<close>

lemma move_to_end_present: "map_of d k = Some e \<Longrightarrow> move_to_end k d = AList.delete k d @ [(k, e)]"
  by (simp add: move_to_end_def)

lemma delete_update: "AList.delete k (AList.update k e d) = AList.delete k d"
  by (induction d) auto

lemma put_order: "move_to_end k (AList.update k e d) = AList.delete k d @ [(k, e)]"
  by (simp add: move_to_end_def delete_update)

lemma delete_append: "AList.delete k (xs @ ys) = AList.delete k xs @ AList.delete k ys"
  by (simp add: AList.delete_eq)

lemma map_of_move_to_end: "map_of (move_to_end k d) k' = map_of d k'"
  by (auto simp: move_to_end_def map_add_def split: option.splits)

lemma keys_delete: "fst ` set (AList.delete k d) = fst ` set d - {k}"
  by (auto simp: AList.delete_eq)

lemma dict_ok_to_end: "dict_ok d \<Longrightarrow> dict_ok (AList.delete k d @ [(k, e)])"
  using keys_delete [of k d] by (auto simp: distinct_delete)

lemma keys_to_end: "fst ` set (AList.delete k d @ [(k, e)]) = insert k (fst ` set d)"
  using keys_delete [of k d] by auto

lemma length_delete: "dict_ok d \<Longrightarrow> length (AList.delete k d) + (if k \<in> fst ` set d then 1 else 0) = length d"
proof (induction d)
  case Nil
  then show ?case by simp
next
  case (Cons p d)
  have "k \<notin> fst ` set d \<Longrightarrow> AList.delete k d = d" by (simp add: delete_id)
  with Cons show ?case by (cases p) (auto split: if_splits)
qed

lemma evict_lru_eq:
  "0 \<le> m \<Longrightarrow> evict_lru m d index n =
     Inr (drop (length d - nat m) d,
          map (\<lambda>(t, ks). (t, ks - fst ` set (take (length d - nat m) d))) index, n + (length d - nat m))"
proof (induction m d index n rule: evict_lru.induct)
  case (1 m index n)
  then show ?case by (simp add: case_prod_beta' map_idI)
next
  case (2 m k e rest index n)
  show ?case
  proof (cases "m < int (length ((k, e) # rest))")
    case True
    then have len: "length ((k, e) # rest) - nat m = Suc (length rest - nat m)" using 2(2) by auto
    with 2(1) [OF True 2(2)] True len show ?thesis by (auto simp: split_beta)
  next
    case False
    then have "length ((k, e) # rest) - nat m = 0" using 2(2) by auto
    with False show ?thesis by (simp add: case_prod_beta' map_idI)
  qed
qed

lemma cache_put_eq:
  assumes "0 \<le> ca_max_entries c"
  shows "\<exists>n index. cache_put c k t e = Inr (c\<lparr>ca_store :=
       (let d = AList.delete k (ca_store c) @ [(k, e)] in drop (length d - nat (ca_max_entries c)) d),
     ca_tool_index := index, ca_stats := (ca_stats c)\<lparr>cs_evictions := n\<rparr>\<rparr>)"
  unfolding cache_put_def put_order Let_def evict_lru_eq [OF assms] by (intro exI) simp

subsection \<open>Interleavings\<close>

text \<open>A run of phases from a new cache, with the outcomes that were handed to the second phase so far:
  tool, key, outcome and time.\<close>

inductive cache_run ::
  "int \<Rightarrow> int \<Rightarrow> int \<Rightarrow> 'v cache \<Rightarrow> (string \<times> string \<times> 'v result \<times> real) list \<Rightarrow> bool" for m dflt neg where
  run_new: "cache_run m dflt neg (new_cache m dflt neg) []"
| run_lookup: "cache_run m dflt neg c H \<Longrightarrow> cache_run m dflt neg (fst (cache_lookup c t k now)) H"
| run_finish: "cache_run m dflt neg c H \<Longrightarrow> cache_finish c t k r nbytes now = Inr c' \<Longrightarrow>
     cache_run m dflt neg c' ((t, k, r, now) # H)"
| run_purge: "cache_run m dflt neg c H \<Longrightarrow> cache_run m dflt neg (fst (cache_purge c tool everything)) H"

definition life :: "int \<Rightarrow> int \<Rightarrow> string \<Rightarrow> 'v result \<Rightarrow> int" where
  "life dflt neg t r = (case r of Inl _ \<Rightarrow> neg | Inr _ \<Rightarrow> dget dflt t tool_ttls)"

definition cache_inv ::
  "int \<Rightarrow> int \<Rightarrow> int \<Rightarrow> 'v cache \<Rightarrow> (string \<times> string \<times> 'v result \<times> real) list \<Rightarrow> bool" where
  "cache_inv m dflt neg c H \<longleftrightarrow>
     ca_max_entries c = m \<and> ca_default_ttl c = dflt \<and> ca_negative_ttl c = neg
     \<and> dict_ok (ca_store c) \<and> length (ca_store c) \<le> nat m
     \<and> (\<forall>(k, e)\<in>set (ca_store c). \<exists>t s. (t, k, en_value e, s) \<in> set H
          \<and> en_expires_at e = s + life dflt neg t (en_value e))"

lemma cache_inv_shrink:
  assumes "cache_inv m dflt neg c H" and "set d \<subseteq> set (ca_store c)" and "dict_ok d"
    and "length d \<le> length (ca_store c)"
  shows "cache_inv m dflt neg (c\<lparr>ca_store := d, ca_stats := s, ca_tool_index := i\<rparr>) H"
  using assms by (fastforce simp: cache_inv_def)

lemma set_move_to_end: "dict_ok d \<Longrightarrow> set (move_to_end k d) \<subseteq> set d"
  by (auto simp: move_to_end_def AList.delete_eq split: option.splits dest: map_of_SomeD)

lemma length_move_to_end:
  assumes "dict_ok d"
  shows "length (move_to_end k d) = length d"
proof (cases "map_of d k")
  case (Some e)
  then have "k \<in> fst ` set d" by (metis domI dom_map_of_conv_image_fst)
  then show ?thesis using length_delete [OF assms, of k] by (simp add: move_to_end_present [OF Some])
qed (simp add: move_to_end_def)

lemma dict_ok_move_to_end: "dict_ok d \<Longrightarrow> dict_ok (move_to_end k d)"
  by (cases "map_of d k") (simp_all add: move_to_end_def dict_ok_to_end del: distinct_append map_append)

lemma cache_lookup_inv:
  assumes "cache_inv m dflt neg c H"
  shows "cache_inv m dflt neg (fst (cache_lookup c t k now)) H"
proof -
  have ok: "dict_ok (ca_store c)" using assms by (simp add: cache_inv_def)
  have del: "set (AList.delete k (ca_store c)) \<subseteq> set (ca_store c)" "dict_ok (AList.delete k (ca_store c))"
    "length (AList.delete k (ca_store c)) \<le> length (ca_store c)"
    using ok by (auto simp: AList.delete_eq distinct_map_filter)
  note shrink = cache_inv_shrink [OF assms, where i = "ca_tool_index c"]
  have same: "c\<lparr>ca_store := d, ca_stats := s, ca_tool_index := ca_tool_index c\<rparr> = c\<lparr>ca_store := d, ca_stats := s\<rparr>" for d s
    by simp
  show ?thesis
    using shrink [OF del] shrink [OF set_move_to_end [OF ok] dict_ok_move_to_end [OF ok]]
      shrink [OF subset_refl ok order_refl] length_move_to_end [OF ok]
    by (auto simp: cache_lookup_def Let_def same split: option.splits)
qed

lemma cache_put_inv:
  fixes s :: real
  assumes "cache_inv m dflt neg c H" and "0 \<le> m" and "cache_put c k t e = Inr c'"
    and "en_expires_at e = s + life dflt neg t (en_value e)"
  shows "cache_inv m dflt neg c' ((t, k, en_value e, s) # H)"
proof -
  have m: "ca_max_entries c = m" "0 \<le> ca_max_entries c" using assms(1,2) by (simp_all add: cache_inv_def)
  let ?d = "AList.delete k (ca_store c) @ [(k, e)]"
  obtain n index where c': "c' = c\<lparr>ca_store := drop (length ?d - nat m) ?d, ca_tool_index := index,
      ca_stats := (ca_stats c)\<lparr>cs_evictions := n\<rparr>\<rparr>"
    using cache_put_eq [OF m(2), of k t e] assms(3) by (auto simp: m(1) Let_def)
  have "dict_ok ?d" using assms(1) by (intro dict_ok_to_end) (simp add: cache_inv_def)
  then have "dict_ok (drop (length ?d - nat m) ?d)" by (simp only: drop_map [symmetric] distinct_drop)
  moreover have "set (drop (length ?d - nat m) ?d) \<subseteq> insert (k, e) (set (ca_store c))"
    using set_drop_subset [of "length ?d - nat m" ?d] by (auto simp: AList.delete_eq)
  moreover have "\<exists>t' s'. (t', k', en_value e', s') \<in> set ((t, k, en_value e, s) # H)
      \<and> en_expires_at e' = s' + life dflt neg t' (en_value e')"
    if "(k', e') \<in> insert (k, e) (set (ca_store c))" for k' e'
    using that assms(1,4) by (fastforce simp: cache_inv_def)
  moreover have "length (drop (length ?d - nat m) ?d) \<le> nat m" by simp
  moreover have "ca_default_ttl c = dflt" "ca_negative_ttl c = neg" using assms(1) by (simp_all add: cache_inv_def)
  ultimately show ?thesis
    using m(1) unfolding c' cache_inv_def by (simp del: drop_append) blast
qed

lemma cache_run_inv: "cache_run m dflt neg c H \<Longrightarrow> 0 \<le> m \<Longrightarrow> cache_inv m dflt neg c H"
proof (induction rule: cache_run.induct)
  case run_new
  then show ?case by (simp add: cache_inv_def new_cache_def)
next
  case (run_lookup c H t k now)
  then show ?case by (simp add: cache_lookup_inv)
next
  case (run_finish c H t k r nbytes now c')
  then have inv: "cache_inv m dflt neg c H" by simp
  have more: "cache_inv m dflt neg (c\<lparr>ca_stats := s\<rparr>) (x # H)" for s x
    using inv by (fastforce simp: cache_inv_def)
  show ?case
  proof (cases r)
    case (Inl exc)
    let ?e = "\<lparr>en_value = r, en_expires_at = now + ca_negative_ttl c, en_size_bytes = 0\<rparr>"
    have "cache_put c k t ?e = Inr c'" using run_finish(2) by (simp add: cache_finish_def Inl)
    moreover have "en_expires_at ?e = now + life dflt neg t (en_value ?e)"
      using inv by (simp add: life_def cache_inv_def Inl)
    ultimately show ?thesis using cache_put_inv [OF inv run_finish.prems] by fastforce
  next
    case (Inr v)
    show ?thesis
    proof (cases "value_size_limit < nbytes")
      case True
      with run_finish(2) more show ?thesis by (auto simp: cache_finish_def Inr)
    next
      case False
      let ?e = "\<lparr>en_value = r, en_expires_at = now + ttl_for c t, en_size_bytes = nbytes\<rparr>"
      have "cache_put c k t ?e = Inr c'" using run_finish(2) False by (simp add: cache_finish_def Inr)
      moreover have "en_expires_at ?e = now + life dflt neg t (en_value ?e)"
        using inv by (simp add: life_def ttl_for_def cache_inv_def Inr)
      ultimately show ?thesis using cache_put_inv [OF inv run_finish.prems] by fastforce
    qed
  qed
next
  case (run_purge c H tool everything)
  then show ?case
    by (auto simp: cache_inv_def cache_purge_def Let_def distinct_map_filter
        intro: order_trans [OF length_filter_le] split: option.splits)
qed

text \<open>C22: soundness of the cache under every interleaving of its phases: a hit is an outcome, value or
  exception, that some computation of the same key handed in less than its lifetime ago, the tool's for
  a value and the negative one for an exception; and the store never exceeds its bound.\<close>

theorem cache_hit_sound:
  assumes "cache_run m dflt neg c H" and "0 \<le> m"
  shows "(\<forall>r. snd (cache_lookup c tool k now) = Some r \<longrightarrow>
       (\<exists>t s. (t, k, r, s) \<in> set H \<and> now < s + life dflt neg t r))
    \<and> length (ca_store c) \<le> nat m"
proof -
  have inv: "cache_inv m dflt neg c H" by (rule cache_run_inv [OF assms])
  have "\<exists>t s. (t, k, r, s) \<in> set H \<and> now < s + life dflt neg t r"
    if hit: "snd (cache_lookup c tool k now) = Some r" for r
  proof -
    obtain e where e: "map_of (ca_store c) k = Some e" "now < en_expires_at e" "r = en_value e"
      using hit by (auto simp: cache_lookup_def Let_def split: option.splits if_splits)
    with inv show ?thesis by (fastforce simp: cache_inv_def dest: map_of_SomeD)
  qed
  with inv show ?thesis by (auto simp: cache_inv_def)
qed

theorem cache_hit_sound_witness:
  "\<exists>c' c. cache_finish (new_cache 2 60 30 :: nat cache) ''t'' ''k'' (Inr 7) 1 100 = Inr c
     \<and> cache_lookup c ''t'' ''k'' 120 = (c', Some (Inr 7))
     \<and> (\<exists>t s. (t, ''k'', Inr 7, s) \<in> set [(''t'', ''k'', Inr 7 :: nat result, 100)] \<and> 120 < s + life 60 30 t (Inr 7 :: nat result))"
proof -
  obtain c where c: "cache_finish (new_cache 2 60 30 :: nat cache) ''t'' ''k'' (Inr 7) 1 100 = Inr c"
    and e: "map_of (ca_store c) ''k'' = Some \<lparr>en_value = Inr 7, en_expires_at = 160, en_size_bytes = 1\<rparr>"
    by (simp add: cache_finish_def value_size_limit_def cache_put_def new_cache_def move_to_end_def ttl_for_def
        tool_ttls_def dget_def)
  have run: "cache_run 2 60 30 c [(''t'', ''k'', Inr 7 :: nat result, 100)]"
    using cache_run.run_finish [OF cache_run.run_new c] .
  obtain c' where "cache_lookup c ''t'' ''k'' 120 = (c', Some (Inr 7))"
    by (simp add: cache_lookup_def e Let_def)
  with cache_hit_sound [OF run, of "''t''" "''k''" 120] c show ?thesis by auto
qed

subsection \<open>Recency\<close>

text \<open>The phases of calls on keys of \<open>S\<close>.\<close>

inductive key_step :: "string set \<Rightarrow> 'v cache \<Rightarrow> 'v cache \<Rightarrow> bool" for S where
  ks_lookup: "k \<in> S \<Longrightarrow> key_step S c (fst (cache_lookup c t k now))"
| ks_finish: "k \<in> S \<Longrightarrow> cache_finish c t k r nbytes now = Inr c' \<Longrightarrow> key_step S c c'"

definition recent :: "string set \<Rightarrow> string \<Rightarrow> 'v entry \<Rightarrow> 'v cache \<Rightarrow> bool" where
  "recent S k e c \<longleftrightarrow> dict_ok (ca_store c) \<and>
     (\<exists>xs ys. ca_store c = xs @ (k, e) # ys \<and> fst ` set ys \<subseteq> S)"

lemma recentI:
  "ca_store c = xs @ (k, e) # ys \<Longrightarrow> dict_ok (ca_store c) \<Longrightarrow> fst ` set ys \<subseteq> S \<Longrightarrow> recent S k e c"
  unfolding recent_def by blast

lemma recent_delete:
  assumes "recent S k e c" and "k' \<noteq> k"
  shows "\<exists>xs ys. AList.delete k' (ca_store c) = xs @ (k, e) # ys \<and> fst ` set ys \<subseteq> S"
proof -
  from assms(1) obtain xs ys where "ca_store c = xs @ (k, e) # ys" "fst ` set ys \<subseteq> S"
    by (auto simp: recent_def)
  with assms(2) have "AList.delete k' (ca_store c) = AList.delete k' xs @ (k, e) # AList.delete k' ys"
    "fst ` set (AList.delete k' ys) \<subseteq> S"
    by (auto simp: delete_append keys_delete)
  then show ?thesis by blast
qed

lemma recent_put:
  assumes "recent S k e c" and "k' \<noteq> k" and "k' \<in> S" and "finite S"
    and "int (card S) < ca_max_entries c" and "cache_put c k' t e' = Inr c'"
  shows "recent S k e c'"
proof -
  let ?d = "AList.delete k' (ca_store c) @ [(k', e')]"
  let ?q = "length ?d - nat (ca_max_entries c)"
  have m: "0 \<le> ca_max_entries c" using assms(5) by simp
  obtain n index where c': "c' = c\<lparr>ca_store := drop ?q ?d, ca_tool_index := index,
      ca_stats := (ca_stats c)\<lparr>cs_evictions := n\<rparr>\<rparr>"
    using cache_put_eq [OF m, of k' t e'] assms(6) by (auto simp: Let_def)
  obtain xs ys where d: "AList.delete k' (ca_store c) = xs @ (k, e) # ys" "fst ` set ys \<subseteq> S"
    using recent_delete [OF assms(1,2)] by blast
  let ?ys = "ys @ [(k', e')]"
  have ok: "dict_ok ?d" using assms(1) by (intro dict_ok_to_end) (simp add: recent_def)
  have ys: "fst ` set ?ys \<subseteq> S" using d(2) assms(3) by simp
  have "distinct (map fst ?ys)" using ok unfolding d(1) by simp
  then have "length ?ys = card (fst ` set ?ys)" by (metis distinct_card length_map list.set_map)
  also have "\<dots> \<le> card S" by (rule card_mono [OF assms(4) ys])
  finally have "?q \<le> length xs" using assms(5) by (simp add: d(1))
  then have "drop ?q ?d = drop ?q xs @ (k, e) # ?ys" by (simp add: d(1))
  moreover have "dict_ok (drop ?q ?d)" using ok by (simp only: drop_map [symmetric] distinct_drop)
  ultimately have "ca_store c' = drop ?q xs @ (k, e) # ?ys" "dict_ok (ca_store c')"
    unfolding c' by simp_all
  then show ?thesis using ys by (rule recentI)
qed

lemma key_step_recent:
  assumes "key_step S c c'" and "recent S k e c" and "k \<notin> S" and "finite S"
    and "int (card S) < ca_max_entries c"
  shows "recent S k e c' \<and> ca_max_entries c' = ca_max_entries c"
  using assms(1)
proof cases
  case (ks_lookup k' t now)
  then have ne: "k' \<noteq> k" using assms(3) by auto
  have ok: "dict_ok (ca_store c)" using assms(2) by (simp add: recent_def)
  obtain xs ys where d: "AList.delete k' (ca_store c) = xs @ (k, e) # ys" "fst ` set ys \<subseteq> S"
    using recent_delete [OF assms(2) ne] by blast
  have "dict_ok (AList.delete k' (ca_store c))" using ok by (rule distinct_delete)
  moreover have "\<exists>xs' ys'. move_to_end k' (ca_store c) = xs' @ (k, e) # ys' \<and> fst ` set ys' \<subseteq> S"
    if "map_of (ca_store c) k' = Some e'" for e'
    using d ks_lookup(2) by (simp add: move_to_end_present [OF that]) (metis append_Cons append_assoc
        image_insert insert_subset list.set(1) list.set(2) prod.sel(1) set_append sup_bot.right_neutral
        Un_insert_right image_Un le_sup_iff)
  ultimately show ?thesis
    using ks_lookup(1) d ok assms(2) dict_ok_move_to_end [OF ok, of k']
    by (auto simp: cache_lookup_def recent_def Let_def split: option.splits)
next
  case (ks_finish k' t r nbytes now)
  then have ne: "k' \<noteq> k" using assms(3) by auto
  have put: "ca_max_entries c' = ca_max_entries c" if "cache_put c k' t e' = Inr c'" for e'
    using that by (auto simp: cache_put_def Let_def split: sum.splits)
  show ?thesis
    using ks_finish(2) recent_put [OF assms(2) ne ks_finish(1) assms(4,5)] put assms(2)
    by (auto simp: cache_finish_def recent_def split: sum.splits if_splits)
qed

text \<open>Eviction is by recency: right after an entry is stored, no sequence of calls on fewer than
  \<open>max_entries\<close> other keys, however they interleave, drops it; so a lookup before its deadline is
  still a hit.\<close>

theorem recent_entry_survives:
  assumes "cache_put c k t e = Inr c1" and "dict_ok (ca_store c)" and "(key_step S)\<^sup>*\<^sup>* c1 c2"
    and "k \<notin> S" and "finite S" and "int (card S) < ca_max_entries c" and "now < en_expires_at e"
  shows "snd (cache_lookup c2 tool k now) = Some (en_value e)"
proof -
  let ?d = "AList.delete k (ca_store c) @ [(k, e)]"
  have m: "0 \<le> ca_max_entries c" "1 \<le> nat (ca_max_entries c)" using assms(6) by linarith+
  obtain n index where c1: "c1 = c\<lparr>ca_store := drop (length ?d - nat (ca_max_entries c)) ?d,
      ca_tool_index := index, ca_stats := (ca_stats c)\<lparr>cs_evictions := n\<rparr>\<rparr>"
    using cache_put_eq [OF m(1), of k t e] assms(1) by (auto simp: Let_def)
  have ok: "dict_ok ?d" by (rule dict_ok_to_end) (rule assms)
  have "dict_ok (drop (length ?d - nat (ca_max_entries c)) ?d)"
    using ok by (simp only: drop_map [symmetric] distinct_drop)
  moreover have "drop (length ?d - nat (ca_max_entries c)) ?d
      = drop (length ?d - nat (ca_max_entries c)) (AList.delete k (ca_store c)) @ (k, e) # []"
    using m(2) by simp
  ultimately have "ca_store c1 = drop (length ?d - nat (ca_max_entries c)) (AList.delete k (ca_store c)) @ (k, e) # []"
    "dict_ok (ca_store c1)" unfolding c1 by simp_all
  then have "recent S k e c1" by (rule recentI) simp
  then have start: "recent S k e c1 \<and> ca_max_entries c1 = ca_max_entries c" by (simp add: c1)
  from assms(3) have "recent S k e c2 \<and> ca_max_entries c2 = ca_max_entries c"
  proof (induction rule: rtranclp_induct)
    case base
    show ?case by (rule start)
  next
    case (step y z)
    then show ?case using key_step_recent [OF step(2) _ assms(4,5)] assms(6) by auto
  qed
  then have "map_of (ca_store c2) k = Some e"
    by (auto simp: recent_def intro: map_of_is_SomeI)
  with assms(7) show ?thesis by (simp add: cache_lookup_def Let_def)
qed

theorem recent_entry_survives_witness:
  "\<exists>c1. cache_put (new_cache 2 60 30 :: nat cache) ''k'' ''t'' \<lparr>en_value = Inr 7, en_expires_at = 160, en_size_bytes = 1\<rparr> = Inr c1
     \<and> snd (cache_lookup (fst (cache_lookup c1 ''t'' ''j'' 110)) ''t'' ''k'' 120) = Some (Inr 7)"
proof -
  let ?e = "\<lparr>en_value = Inr 7, en_expires_at = 160, en_size_bytes = 1\<rparr>"
  obtain c1 where c1: "cache_put (new_cache 2 60 30 :: nat cache) ''k'' ''t'' ?e = Inr c1"
    by (simp add: cache_put_def new_cache_def move_to_end_def)
  have "(key_step {''j''})\<^sup>*\<^sup>* c1 (fst (cache_lookup c1 ''t'' ''j'' 110))"
    by (intro r_into_rtranclp key_step.ks_lookup) simp
  from recent_entry_survives [OF c1 _ this] c1 show ?thesis by (simp add: new_cache_def)
qed

subsection \<open>Purging\<close>

text \<open>Purging a tool drops exactly the entries that its index names, and reports the number of names.
  That number is not the number of entries dropped: a lookup that finds an expired entry removes it
  from the store and leaves its key in the index, so an empty cache can report a purge.\<close>

theorem purge_counts_names:
  "ca_store (fst (cache_purge c (Some t) False))
     = filter (\<lambda>(k, _). k \<notin> dget {} t (ca_tool_index c)) (ca_store c)
   \<and> snd (cache_purge c (Some t) False) = card (dget {} t (ca_tool_index c))
   \<and> (\<exists>c :: nat cache. \<exists>H. cache_run 2 60 30 c H \<and> ca_store c = [] \<and> snd (cache_purge c (Some t) False) = 1)"
proof (intro conjI)
  let ?c0 = "new_cache 2 60 30 :: nat cache"
  have "\<exists>c. cache_finish ?c0 t ''k'' (Inl IndexError) 1 100 = Inr c
      \<and> ca_store c = [(''k'', \<lparr>en_value = Inl IndexError, en_expires_at = 130, en_size_bytes = 0\<rparr>)]
      \<and> ca_tool_index c = [(t, {''k''})]"
    by (simp add: cache_finish_def cache_put_def new_cache_def move_to_end_def dget_def)
  then obtain c where c: "cache_finish ?c0 t ''k'' (Inl IndexError) 1 100 = Inr c"
    "ca_store c = [(''k'', \<lparr>en_value = Inl IndexError, en_expires_at = 130, en_size_bytes = 0\<rparr>)]"
    "ca_tool_index c = [(t, {''k''})]" by blast
  let ?c2 = "fst (cache_lookup c t ''k'' 200)"
  have "cache_run 2 60 30 ?c2 [(t, ''k'', Inl IndexError, 100)]"
    by (intro cache_run.run_lookup cache_run.run_finish [OF cache_run.run_new c(1)])
  moreover have "ca_store ?c2 = []" "ca_tool_index ?c2 = [(t, {''k''})]"
    by (simp_all add: cache_lookup_def c(2,3) Let_def)
  ultimately show "\<exists>c :: nat cache. \<exists>H. cache_run 2 60 30 c H \<and> ca_store c = []
      \<and> snd (cache_purge c (Some t) False) = 1"
    by (intro exI [of _ ?c2] exI conjI) (auto simp: cache_purge_def dget_def Let_def)
qed (simp_all add: cache_purge_def Let_def)

end
