(* ===== verification/Index_Tracker.thy ===== *)
theory Index_Tracker
  imports Py_Prelude
begin

text \<open>
  The indexing tracker (\<open>opsrag/indexing_tracker.py\<close>): the current state per source and the ring
  buffer of runs. \<open>_current_job\<close> holds references to runs that are also in the buffer; a run is named
  by its id here, and a change through the reference is a change of the buffered run with that id (of
  none, when the buffer has dropped it). Each call of \<open>time.time()\<close> in an operation is an argument.
\<close>

subsection \<open>State\<close>

datatype repo_status = Queued | Listing | Indexing | Done | Failed

definition status_value :: "repo_status \<Rightarrow> string" where
  "status_value s = (case s of Queued \<Rightarrow> ''queued'' | Listing \<Rightarrow> ''listing'' | Indexing \<Rightarrow> ''indexing''
     | Done \<Rightarrow> ''done'' | Failed \<Rightarrow> ''failed'')"

lemma status_value_inj: "status_value a = status_value b \<Longrightarrow> a = b"
  by (cases a; cases b) (simp_all add: status_value_def)

text \<open>\<open>RepoStatus\<close> is a \<open>str\<close> enum: it compares as its value.\<close>

instantiation repo_status :: linorder
begin

definition less_eq_repo_status :: "repo_status \<Rightarrow> repo_status \<Rightarrow> bool" where
  "less_eq_repo_status a b \<longleftrightarrow> status_value a \<le> status_value b"

definition less_repo_status :: "repo_status \<Rightarrow> repo_status \<Rightarrow> bool" where
  "less_repo_status a b \<longleftrightarrow> status_value a < status_value b"

instance
  by standard (auto simp: less_eq_repo_status_def less_repo_status_def intro: status_value_inj)

end

record repo_progress =
  rp_repo :: string
  rp_branch :: string
  rp_status :: repo_status
  rp_total_files :: int
  rp_indexed_files :: int
  rp_skipped_files :: int
  rp_total_chunks :: int
  rp_entities_found :: int
  rp_error :: "string option"
  rp_started_at :: real
  rp_finished_at :: real
  rp_source_type :: string
  rp_display_name :: "string option"

definition new_progress :: "string \<Rightarrow> string \<Rightarrow> string \<Rightarrow> repo_progress" where
  "new_progress repo branch source_type =
     \<lparr>rp_repo = repo, rp_branch = branch, rp_status = Queued, rp_total_files = 0, rp_indexed_files = 0,
      rp_skipped_files = 0, rp_total_chunks = 0, rp_entities_found = 0, rp_error = None,
      rp_started_at = 0, rp_finished_at = 0, rp_source_type = source_type, rp_display_name = None\<rparr>"

text \<open>\<open>round(x, 1)\<close>: to the nearest tenth, ties to the even one.\<close>

definition round_half_even :: "real \<Rightarrow> int" where
  "round_half_even y = (let l = \<lfloor>y\<rfloor>; d = y - of_int l in
     if d < 1/2 then l else if 1/2 < d then l + 1 else if even l then l else l + 1)"

definition round1 :: "real \<Rightarrow> real" where
  "round1 x = of_int (round_half_even (10 * x)) / 10"

definition processed_files :: "repo_progress \<Rightarrow> int" where
  "processed_files p = rp_indexed_files p + rp_skipped_files p"

definition percent :: "repo_progress \<Rightarrow> real" where
  "percent p = (if rp_total_files p = 0 then 0
     else round1 (real_of_int (processed_files p) / real_of_int (rp_total_files p) * 100))"

definition elapsed_seconds :: "repo_progress \<Rightarrow> real \<Rightarrow> real" where
  "elapsed_seconds p now =
     (let end = (if rp_finished_at p \<noteq> 0 then rp_finished_at p else now) in
      if rp_started_at p = 0 then 0 else round1 (end - rp_started_at p))"

record job_run =
  jr_id :: int
  jr_repo :: string
  jr_branch :: string
  jr_source_type :: string
  jr_display_name :: "string option"
  jr_status :: string
  jr_started_at :: real
  jr_finished_at :: real
  jr_chunks_indexed :: int
  jr_files_indexed :: int
  jr_error :: "string option"
  jr_kind :: string

definition duration_seconds :: "job_run \<Rightarrow> real \<Rightarrow> real" where
  "duration_seconds j now =
     (let end = (if jr_finished_at j \<noteq> 0 then jr_finished_at j else now) in
      if jr_started_at j = 0 then 0 else round1 (end - jr_started_at j))"

record tracker =
  tr_repos :: "(string, repo_progress) dict"
  tr_jobs :: "job_run list"
  tr_current :: "(string, int) dict"
  tr_counter :: int

definition max_job_history :: nat where "max_job_history = 200"

definition new_tracker :: tracker where
  "new_tracker = \<lparr>tr_repos = [], tr_jobs = [], tr_current = [], tr_counter = 0\<rparr>"

definition repo_key :: "string \<Rightarrow> string \<Rightarrow> string" where
  "repo_key repo branch = repo @ ''@'' @ branch"

subsection \<open>Operations\<close>

text \<open>\<open>deque(maxlen=200).appendleft\<close> drops the last element of a full buffer.\<close>

definition push_job :: "job_run \<Rightarrow> job_run list \<Rightarrow> job_run list" where
  "push_job j js = take max_job_history (j # js)"

definition queue_repo :: "tracker \<Rightarrow> string \<Rightarrow> string \<Rightarrow> string \<Rightarrow> tracker" where
  "queue_repo t repo branch source_type =
     t\<lparr>tr_repos := AList.update (repo_key repo branch) (new_progress repo branch source_type) (tr_repos t)\<rparr>"

definition ensure_queued :: "tracker \<Rightarrow> string \<Rightarrow> string \<Rightarrow> string \<Rightarrow> tracker" where
  "ensure_queued t repo branch source_type =
     (if map_of (tr_repos t) (repo_key repo branch) = None
      then queue_repo t repo branch source_type else t)"

definition on_repo :: "tracker \<Rightarrow> string \<Rightarrow> (repo_progress \<Rightarrow> repo_progress) \<Rightarrow> tracker" where
  "on_repo t key f =
     (case map_of (tr_repos t) key of None \<Rightarrow> t
      | Some p \<Rightarrow> t\<lparr>tr_repos := AList.update key (f p) (tr_repos t)\<rparr>)"

definition new_job :: "int \<Rightarrow> repo_progress \<Rightarrow> string \<Rightarrow> real \<Rightarrow> job_run" where
  "new_job i p status started =
     \<lparr>jr_id = i, jr_repo = rp_repo p, jr_branch = rp_branch p, jr_source_type = rp_source_type p,
      jr_display_name = rp_display_name p, jr_status = status, jr_started_at = started,
      jr_finished_at = 0, jr_chunks_indexed = 0, jr_files_indexed = 0, jr_error = None, jr_kind = ''run''\<rparr>"

definition start_listing :: "tracker \<Rightarrow> string \<Rightarrow> string \<Rightarrow> real \<Rightarrow> tracker" where
  "start_listing t repo branch now =
     (let key = repo_key repo branch in
      case map_of (tr_repos t) key of None \<Rightarrow> t
      | Some p \<Rightarrow>
          (let p1 = p\<lparr>rp_status := Listing, rp_started_at := now\<rparr>;
               i = tr_counter t + 1
           in t\<lparr>tr_repos := AList.update key p1 (tr_repos t), tr_counter := i,
                tr_current := AList.update key i (tr_current t),
                tr_jobs := push_job (new_job i p1 ''running'' now) (tr_jobs t)\<rparr>))"

definition start_indexing :: "tracker \<Rightarrow> string \<Rightarrow> string \<Rightarrow> int \<Rightarrow> tracker" where
  "start_indexing t repo branch n =
     on_repo t (repo_key repo branch) (\<lambda>p. p\<lparr>rp_status := Indexing, rp_total_files := n\<rparr>)"

definition file_indexed :: "tracker \<Rightarrow> string \<Rightarrow> string \<Rightarrow> int \<Rightarrow> int \<Rightarrow> tracker" where
  "file_indexed t repo branch chunks entities =
     on_repo t (repo_key repo branch)
       (\<lambda>p. p\<lparr>rp_indexed_files := rp_indexed_files p + 1, rp_total_chunks := rp_total_chunks p + chunks,
              rp_entities_found := rp_entities_found p + entities\<rparr>)"

definition file_skipped :: "tracker \<Rightarrow> string \<Rightarrow> string \<Rightarrow> tracker" where
  "file_skipped t repo branch =
     on_repo t (repo_key repo branch) (\<lambda>p. p\<lparr>rp_skipped_files := rp_skipped_files p + 1\<rparr>)"

definition set_display_name :: "tracker \<Rightarrow> string \<Rightarrow> string \<Rightarrow> string \<Rightarrow> tracker" where
  "set_display_name t repo branch name =
     on_repo t (repo_key repo branch) (\<lambda>p. p\<lparr>rp_display_name := Some name\<rparr>)"

definition close_job :: "repo_progress \<Rightarrow> string \<Rightarrow> string option \<Rightarrow> real \<Rightarrow> job_run \<Rightarrow> job_run" where
  "close_job p status err now j =
     j\<lparr>jr_status := status, jr_error := err, jr_finished_at := now, jr_chunks_indexed := rp_total_chunks p,
       jr_files_indexed := rp_indexed_files p, jr_display_name := rp_display_name p\<rparr>"

definition finalize_job ::
  "tracker \<Rightarrow> string \<Rightarrow> repo_progress \<Rightarrow> string \<Rightarrow> string option \<Rightarrow> real \<Rightarrow> real \<Rightarrow> tracker" where
  "finalize_job t key p status err now1 now2 =
     (case map_of (tr_current t) key of
        Some i \<Rightarrow>
          t\<lparr>tr_current := AList.delete key (tr_current t),
            tr_jobs := map (\<lambda>j. if jr_id j = i then close_job p status err now2 j else j) (tr_jobs t)\<rparr>
      | None \<Rightarrow>
          (let i = tr_counter t + 1;
               started = (if rp_started_at p \<noteq> 0 then rp_started_at p else now1)
           in t\<lparr>tr_counter := i,
                tr_jobs := push_job (close_job p status err now2 (new_job i p status started)) (tr_jobs t)\<rparr>))"

definition repo_done :: "tracker \<Rightarrow> string \<Rightarrow> string \<Rightarrow> real \<Rightarrow> real \<Rightarrow> real \<Rightarrow> tracker" where
  "repo_done t repo branch now now1 now2 =
     (let key = repo_key repo branch in
      case map_of (tr_repos t) key of None \<Rightarrow> t
      | Some p \<Rightarrow>
          (let p1 = p\<lparr>rp_status := Done, rp_finished_at := now\<rparr> in
           finalize_job (t\<lparr>tr_repos := AList.update key p1 (tr_repos t)\<rparr>) key p1 ''success'' None now1 now2))"

definition repo_failed :: "tracker \<Rightarrow> string \<Rightarrow> string \<Rightarrow> string \<Rightarrow> real \<Rightarrow> real \<Rightarrow> real \<Rightarrow> tracker" where
  "repo_failed t repo branch err now now1 now2 =
     (let key = repo_key repo branch in
      case map_of (tr_repos t) key of None \<Rightarrow> t
      | Some p \<Rightarrow>
          (let p1 = p\<lparr>rp_status := Failed, rp_error := Some err, rp_finished_at := now\<rparr> in
           finalize_job (t\<lparr>tr_repos := AList.update key p1 (tr_repos t)\<rparr>) key p1 ''failed'' (Some err) now1 now2))"

definition backfill_done :: "tracker \<Rightarrow> string \<Rightarrow> string \<Rightarrow> string \<Rightarrow> int \<Rightarrow> int \<Rightarrow> real \<Rightarrow> tracker" where
  "backfill_done t repo branch source_type chunks files now =
     (let key = repo_key repo branch;
          busy = (case map_of (tr_repos t) key of None \<Rightarrow> False | Some p \<Rightarrow> rp_status p \<notin> {Done, Queued});
          p = (new_progress repo branch source_type)\<lparr>rp_status := Done, rp_total_files := files,
                 rp_indexed_files := files, rp_total_chunks := chunks, rp_started_at := now, rp_finished_at := now\<rparr>;
          i = tr_counter t + 1
      in if busy then t
         else t\<lparr>tr_repos := AList.update key p (tr_repos t), tr_counter := i,
                tr_jobs := push_job ((new_job i p ''success'' now)\<lparr>jr_finished_at := now,
                   jr_chunks_indexed := chunks, jr_files_indexed := files, jr_kind := ''restored''\<rparr>) (tr_jobs t)\<rparr>)"

subsection \<open>Views\<close>

record summary =
  sm_total_repos :: nat
  sm_total_files :: int
  sm_total_indexed :: int
  sm_total_chunks :: int
  sm_repos :: "(repo_progress \<times> int \<times> real \<times> real) list"

definition get_summary :: "tracker \<Rightarrow> real \<Rightarrow> summary" where
  "get_summary t now =
     (let ps = map snd (tr_repos t) in
      \<lparr>sm_total_repos = length (tr_repos t), sm_total_files = (\<Sum>p\<leftarrow>ps. rp_total_files p),
       sm_total_indexed = (\<Sum>p\<leftarrow>ps. rp_indexed_files p), sm_total_chunks = (\<Sum>p\<leftarrow>ps. rp_total_chunks p),
       sm_repos = map (\<lambda>p. (p, processed_files p, percent p, elapsed_seconds p now)) ps\<rparr>)"

record jobs_view =
  jv_jobs :: "(job_run \<times> real) list"
  jv_total :: nat
  jv_running :: nat
  jv_failed :: nat

definition get_jobs :: "tracker \<Rightarrow> real \<Rightarrow> jobs_view" where
  "get_jobs t now =
     \<lparr>jv_jobs = map (\<lambda>j. (j, duration_seconds j now)) (tr_jobs t), jv_total = length (tr_jobs t),
      jv_running = length (filter (\<lambda>j. jr_status j = ''running'') (tr_jobs t)),
      jv_failed = length (filter (\<lambda>j. jr_status j = ''failed'') (tr_jobs t))\<rparr>"

subsection \<open>Histories\<close>

inductive tracker_step :: "tracker \<Rightarrow> tracker \<Rightarrow> bool" where
  t_queue: "tracker_step t (queue_repo t r b s)"
| t_ensure: "tracker_step t (ensure_queued t r b s)"
| t_listing: "tracker_step t (start_listing t r b now)"
| t_indexing: "tracker_step t (start_indexing t r b n)"
| t_indexed: "tracker_step t (file_indexed t r b c e)"
| t_skipped: "tracker_step t (file_skipped t r b)"
| t_name: "tracker_step t (set_display_name t r b name)"
| t_done: "tracker_step t (repo_done t r b n0 n1 n2)"
| t_failed: "tracker_step t (repo_failed t r b err n0 n1 n2)"
| t_backfill: "tracker_step t (backfill_done t r b s c f now)"

definition tracker_ok :: "tracker \<Rightarrow> bool" where
  "tracker_ok t \<longleftrightarrow> length (tr_jobs t) \<le> max_job_history
     \<and> sorted_wrt (>) (map jr_id (tr_jobs t)) \<and> (\<forall>j\<in>set (tr_jobs t). jr_id j \<le> tr_counter t)
     \<and> (\<forall>k i. map_of (tr_current t) k = Some i \<longrightarrow> i \<le> tr_counter t)
     \<and> (\<forall>k k' i. map_of (tr_current t) k = Some i \<longrightarrow> map_of (tr_current t) k' = Some i \<longrightarrow> k = k')"

lemma push_job_ok:
  assumes "sorted_wrt (>) (map jr_id js)" and "\<forall>j\<in>set js. jr_id j \<le> c" and "jr_id j = c + 1"
  shows "length (push_job j js) \<le> max_job_history \<and> sorted_wrt (>) (map jr_id (push_job j js))
    \<and> (\<forall>j\<in>set (push_job j js). jr_id j \<le> c + 1)"
proof -
  have "sorted_wrt (>) (map jr_id (j # js))" using assms by fastforce
  then have "sorted_wrt (>) (take max_job_history (map jr_id (j # js)))" by (rule sorted_wrt_take)
  moreover have "\<forall>i\<in>set (j # js). jr_id i \<le> c + 1" using assms by fastforce
  ultimately show ?thesis
    unfolding push_job_def take_map using set_take_subset [of max_job_history "j # js"] by auto
qed

lemma tracker_ok_repos [simp]: "tracker_ok (t\<lparr>tr_repos := rs\<rparr>) = tracker_ok t"
  by (simp add: tracker_ok_def)

lemma tracker_ok_on_repo: "tracker_ok t \<Longrightarrow> tracker_ok (on_repo t key f)"
  by (simp add: on_repo_def split: option.splits)

lemma close_job_id [simp]: "jr_id (close_job p s e n j) = jr_id j"
  by (simp add: close_job_def)

lemma map_close_id: "map jr_id (map (\<lambda>j. if jr_id j = i then close_job p s e n j else j) js) = map jr_id js"
  by (induction js) auto

lemma tracker_ok_finalize:
  assumes "tracker_ok t"
  shows "tracker_ok (finalize_job t key p s e n1 n2)"
proof (cases "map_of (tr_current t) key")
  case (Some i)
  with assms show ?thesis
    by (auto simp: finalize_job_def tracker_ok_def map_close_id simp del: map_map)
next
  case None
  let ?j = "close_job p s e n2 (new_job (tr_counter t + 1) p s
      (if rp_started_at p \<noteq> 0 then rp_started_at p else n1))"
  have "jr_id ?j = tr_counter t + 1" by (simp add: new_job_def)
  with push_job_ok [of "tr_jobs t" "tr_counter t" ?j] None assms show ?thesis
    by (fastforce simp: finalize_job_def tracker_ok_def Let_def)
qed

lemma tracker_step_ok: "tracker_step t t' \<Longrightarrow> tracker_ok t \<Longrightarrow> tracker_ok t'"
proof (induction rule: tracker_step.induct)
  case (t_listing t r b now)
  show ?case
  proof (cases "map_of (tr_repos t) (repo_key r b)")
    case (Some p)
    let ?j = "new_job (tr_counter t + 1) (p\<lparr>rp_status := Listing, rp_started_at := now\<rparr>) ''running'' now"
    have "jr_id ?j = tr_counter t + 1" by (simp add: new_job_def)
    with push_job_ok [of "tr_jobs t" "tr_counter t" ?j] t_listing Some show ?thesis
      by (fastforce simp: start_listing_def tracker_ok_def Let_def)
  qed (use t_listing in \<open>simp add: start_listing_def\<close>)
next
  case (t_backfill t r b s c f now)
  let ?p = "(new_progress r b s)\<lparr>rp_status := Done, rp_total_files := f, rp_indexed_files := f,
      rp_total_chunks := c, rp_started_at := now, rp_finished_at := now\<rparr>"
  let ?j = "(new_job (tr_counter t + 1) ?p ''success'' now)\<lparr>jr_finished_at := now,
      jr_chunks_indexed := c, jr_files_indexed := f, jr_kind := ''restored''\<rparr>"
  have "jr_id ?j = tr_counter t + 1" by (simp add: new_job_def)
  with push_job_ok [of "tr_jobs t" "tr_counter t" ?j] t_backfill show ?case
    by (fastforce simp: backfill_done_def tracker_ok_def Let_def)
qed (simp_all add: queue_repo_def ensure_queued_def start_indexing_def file_indexed_def file_skipped_def
    set_display_name_def tracker_ok_on_repo repo_done_def repo_failed_def tracker_ok_finalize Let_def
    split: option.splits)

lemma tracker_steps_ok: "tracker_step\<^sup>*\<^sup>* new_tracker t \<Longrightarrow> tracker_ok t"
  by (induction rule: rtranclp_induct)
    (auto simp: tracker_ok_def new_tracker_def dest: tracker_step_ok [unfolded tracker_ok_def])

text \<open>In every reachable state the history has at most 200 runs, newest first with strictly
  decreasing ids, and closing a source's open run (\<open>repo_done\<close>) changes no other run: the run with the
  open id becomes a success with the source's counts, and the source has no open run any more.\<close>

theorem repo_done_closes_its_run:
  assumes "tracker_step\<^sup>*\<^sup>* new_tracker t" and "map_of (tr_repos t) (repo_key r b) = Some p"
    and "map_of (tr_current t) (repo_key r b) = Some i"
  shows "length (tr_jobs t) \<le> 200 \<and> sorted_wrt (>) (map jr_id (tr_jobs t))
    \<and> tr_jobs (repo_done t r b n0 n1 n2) =
        map (\<lambda>j. if jr_id j = i
                 then j\<lparr>jr_status := ''success'', jr_error := None, jr_finished_at := n2,
                        jr_chunks_indexed := rp_total_chunks p, jr_files_indexed := rp_indexed_files p,
                        jr_display_name := rp_display_name p\<rparr>
                 else j) (tr_jobs t)
    \<and> map_of (tr_current (repo_done t r b n0 n1 n2)) (repo_key r b) = None
    \<and> (\<forall>r' b'. repo_key r' b' \<noteq> repo_key r b \<longrightarrow> map_of (tr_current t) (repo_key r' b') \<noteq> Some i)"
proof -
  have "tracker_ok t" by (rule tracker_steps_ok) (rule assms)
  with assms(2,3) show ?thesis
    by (auto simp: tracker_ok_def max_job_history_def repo_done_def finalize_job_def close_job_def Let_def)
qed

lemma run_source:
  "tracker_step\<^sup>*\<^sup>* new_tracker (start_listing (queue_repo new_tracker r b s) r b now)"
  by (rule rtranclp.rtrancl_into_rtrancl [where b = "queue_repo new_tracker r b s"])
    (auto intro: r_into_rtranclp t_queue t_listing)

theorem repo_done_closes_its_run_witness:
  "map jr_status (tr_jobs (repo_done (start_listing (queue_repo new_tracker ''r'' ''b'' ''git'') ''r'' ''b'' 1) ''r'' ''b'' 2 2 2))
     = [''success'']"
proof -
  let ?t = "start_listing (queue_repo new_tracker ''r'' ''b'' ''git'') ''r'' ''b'' 1"
  obtain p where p: "map_of (tr_repos ?t) (repo_key ''r'' ''b'') = Some p"
    by (simp add: start_listing_def queue_repo_def Let_def)
  have i: "map_of (tr_current ?t) (repo_key ''r'' ''b'') = Some 1"
    by (simp add: start_listing_def queue_repo_def new_tracker_def Let_def)
  have "map jr_id (tr_jobs ?t) = [1]"
    by (simp add: start_listing_def queue_repo_def new_tracker_def push_job_def max_job_history_def
        new_job_def Let_def)
  with repo_done_closes_its_run [OF run_source p i, of 2 2 2] show ?thesis
    by (auto simp: map_eq_Cons_conv)
qed

text \<open>A running run that no source's reference names.\<close>

definition orphan :: "tracker \<Rightarrow> int \<Rightarrow> bool" where
  "orphan t i \<longleftrightarrow> i \<le> tr_counter t \<and> (\<forall>k. map_of (tr_current t) k \<noteq> Some i)
     \<and> (\<forall>j\<in>set (tr_jobs t). jr_id j = i \<longrightarrow> jr_status j = ''running'')"

lemma orphan_repos [simp]: "orphan (t\<lparr>tr_repos := rs\<rparr>) i = orphan t i"
  by (simp add: orphan_def)

lemma orphan_finalize:
  assumes "orphan t i"
  shows "orphan (finalize_job t key p s e n1 n2) i"
proof (cases "map_of (tr_current t) key")
  case None
  with assms show ?thesis
    by (auto simp: finalize_job_def orphan_def Let_def push_job_def new_job_def dest!: in_set_takeD)
next
  case (Some k)
  with assms have "k \<noteq> i" by (auto simp: orphan_def)
  with assms Some show ?thesis by (auto simp: finalize_job_def orphan_def)
qed

lemma orphan_step: "tracker_step t t' \<Longrightarrow> orphan t i \<Longrightarrow> orphan t' i"
proof (induction rule: tracker_step.induct)
  case (t_listing t r b now)
  then show ?case
    by (auto simp: start_listing_def orphan_def Let_def push_job_def new_job_def split: option.splits
        dest!: in_set_takeD)
next
  case (t_backfill t r b s c f now)
  then show ?case
    by (auto simp: backfill_done_def orphan_def Let_def push_job_def new_job_def dest!: in_set_takeD)
qed (simp_all add: queue_repo_def ensure_queued_def start_indexing_def file_indexed_def file_skipped_def
    set_display_name_def on_repo_def repo_done_def repo_failed_def orphan_finalize Let_def
    split: option.splits)

text \<open>A second \<open>start_listing\<close> on a source whose run is still open (a retry after a crash of the
  pipeline, a webhook during a run) orphans that run: no sequence of operations ever closes it, so it
  counts as running until the ring buffer drops it.\<close>

theorem second_listing_orphans:
  assumes "tracker_step\<^sup>*\<^sup>* new_tracker t" and "map_of (tr_repos t) (repo_key r b) = Some p"
    and "map_of (tr_current t) (repo_key r b) = Some i"
    and "\<forall>j\<in>set (tr_jobs t). jr_id j = i \<longrightarrow> jr_status j = ''running''"
    and "tracker_step\<^sup>*\<^sup>* (start_listing t r b now) t'"
  shows "\<forall>j\<in>set (tr_jobs t'). jr_id j = i \<longrightarrow> jr_status j = ''running''"
proof -
  have ok: "tracker_ok t" by (rule tracker_steps_ok) (rule assms)
  have le: "i \<le> tr_counter t" using ok assms(3) unfolding tracker_ok_def by blast
  have uniq: "map_of (tr_current t) k \<noteq> Some i" if "k \<noteq> repo_key r b" for k
    using ok assms(3) that unfolding tracker_ok_def by blast
  have "orphan (start_listing t r b now) i"
    using le uniq assms(2,4)
    by (auto simp: start_listing_def orphan_def Let_def push_job_def new_job_def dest!: in_set_takeD)
  with assms(5) have "orphan t' i"
    by (induction rule: rtranclp_induct) (auto dest: orphan_step)
  then show ?thesis by (simp add: orphan_def)
qed

theorem second_listing_orphans_witness:
  "filter (\<lambda>j. jr_id j = 1 \<and> jr_status j \<noteq> ''running'')
     (tr_jobs (repo_done (start_listing (start_listing (queue_repo new_tracker ''r'' ''b'' ''git'') ''r'' ''b'' 1)
       ''r'' ''b'' 5) ''r'' ''b'' 9 9 9)) = []"
proof -
  let ?t = "start_listing (queue_repo new_tracker ''r'' ''b'' ''git'') ''r'' ''b'' 1"
  obtain p where p: "map_of (tr_repos ?t) (repo_key ''r'' ''b'') = Some p"
    by (simp add: start_listing_def queue_repo_def Let_def)
  have i: "map_of (tr_current ?t) (repo_key ''r'' ''b'') = Some 1"
    and run: "\<forall>j\<in>set (tr_jobs ?t). jr_id j = 1 \<longrightarrow> jr_status j = ''running''"
    by (simp_all add: start_listing_def queue_repo_def new_tracker_def push_job_def max_job_history_def
        new_job_def Let_def)
  have "tracker_step\<^sup>*\<^sup>* (start_listing ?t ''r'' ''b'' 5) (repo_done (start_listing ?t ''r'' ''b'' 5) ''r'' ''b'' 9 9 9)"
    by (auto intro: r_into_rtranclp t_done)
  from second_listing_orphans [OF run_source p i run this] show ?thesis by (simp add: filter_empty_conv)
qed

text \<open>The file events of one run: chunk and entity counts of an indexed file, or a skipped one.\<close>

definition file_event :: "string \<Rightarrow> string \<Rightarrow> (int \<times> int) option \<Rightarrow> tracker \<Rightarrow> tracker" where
  "file_event r b ev t = (case ev of Some (c, e) \<Rightarrow> file_indexed t r b c e | None \<Rightarrow> file_skipped t r b)"

lemma file_events:
  "map_of (tr_repos t) (repo_key r b) = Some p \<Longrightarrow>
   \<exists>q. map_of (tr_repos (fold (file_event r b) evs t)) (repo_key r b) = Some q
     \<and> rp_indexed_files q = rp_indexed_files p + int (length (filter (\<lambda>ev. ev \<noteq> None) evs))
     \<and> rp_skipped_files q = rp_skipped_files p + int (length (filter (\<lambda>ev. ev = None) evs))
     \<and> rp_total_chunks q = rp_total_chunks p + (\<Sum>ev\<leftarrow>evs. case ev of Some (c, _) \<Rightarrow> c | None \<Rightarrow> 0)
     \<and> rp_total_files q = rp_total_files p \<and> rp_status q = rp_status p
     \<and> tr_jobs (fold (file_event r b) evs t) = tr_jobs t \<and> tr_current (fold (file_event r b) evs t) = tr_current t"
proof (induction evs arbitrary: t p)
  case Nil
  then show ?case by simp
next
  case (Cons ev evs)
  let ?p = "case ev of Some (c, e) \<Rightarrow> p\<lparr>rp_indexed_files := rp_indexed_files p + 1,
      rp_total_chunks := rp_total_chunks p + c, rp_entities_found := rp_entities_found p + e\<rparr>
    | None \<Rightarrow> p\<lparr>rp_skipped_files := rp_skipped_files p + 1\<rparr>"
  have "map_of (tr_repos (file_event r b ev t)) (repo_key r b) = Some ?p"
    and "tr_jobs (file_event r b ev t) = tr_jobs t" "tr_current (file_event r b ev t) = tr_current t"
    using Cons.prems
    by (auto simp: file_event_def file_indexed_def file_skipped_def on_repo_def split: option.splits prod.splits)
  with Cons.IH [of "file_event r b ev t" ?p] show ?case
    by (auto split: option.splits prod.splits)
qed

text \<open>The counts of a run are those of the source since it was last queued, not of the run: they are
  the progress's counts at the start plus the run's events. A source that is queued anew starts at zero;
  \<open>ensure_queued\<close>, the way of the pipeline and so of a webhook, keeps the old counts, and the second run
  reports the sum.\<close>

theorem run_counts:
  assumes "map_of (tr_repos t) (repo_key r b) = Some p"
    and "t1 = fold (file_event r b) evs (start_indexing (start_listing (ensure_queued t r b s) r b now) r b n)"
  shows "\<exists>j rest. tr_jobs (repo_done t1 r b n0 n1 n2) = j # rest \<and> jr_status j = ''success''
    \<and> jr_files_indexed j = rp_indexed_files p + int (length (filter (\<lambda>ev. ev \<noteq> None) evs))
    \<and> jr_chunks_indexed j = rp_total_chunks p + (\<Sum>ev\<leftarrow>evs. case ev of Some (c, _) \<Rightarrow> c | None \<Rightarrow> 0)"
proof -
  let ?t0 = "start_indexing (start_listing (ensure_queued t r b s) r b now) r b n"
  let ?i = "tr_counter t + 1"
  obtain p0 j0 rest where p0: "map_of (tr_repos ?t0) (repo_key r b) = Some p0"
      "rp_indexed_files p0 = rp_indexed_files p" "rp_total_chunks p0 = rp_total_chunks p"
    and j0: "tr_jobs ?t0 = j0 # rest" "jr_id j0 = ?i"
    and cur: "map_of (tr_current ?t0) (repo_key r b) = Some ?i"
    using assms(1)
    by (simp add: start_indexing_def start_listing_def ensure_queued_def on_repo_def push_job_def
        max_job_history_def new_job_def Let_def)
  obtain q where q: "map_of (tr_repos t1) (repo_key r b) = Some q"
      "rp_indexed_files q = rp_indexed_files p + int (length (filter (\<lambda>ev. ev \<noteq> None) evs))"
      "rp_total_chunks q = rp_total_chunks p + (\<Sum>ev\<leftarrow>evs. case ev of Some (c, _) \<Rightarrow> c | None \<Rightarrow> 0)"
    and t1: "tr_jobs t1 = j0 # rest" "map_of (tr_current t1) (repo_key r b) = Some ?i"
    using file_events [OF p0(1), of evs] p0 j0 cur by (auto simp: assms(2))
  show ?thesis
    using q t1 j0(2) by (simp add: repo_done_def finalize_job_def close_job_def Let_def)
qed

theorem run_counts_witness:
  "\<exists>j rest. tr_jobs (repo_done (fold (file_event ''r'' ''b'') [Some (4, 0), None]
      (start_indexing (start_listing (ensure_queued
         (file_indexed (queue_repo new_tracker ''r'' ''b'' ''git'') ''r'' ''b'' 9 0) ''r'' ''b'' ''git'') ''r'' ''b'' 1)
        ''r'' ''b'' 2)) ''r'' ''b'' 2 2 2) = j # rest \<and> jr_files_indexed j = 2 \<and> jr_chunks_indexed j = 13"
proof -
  let ?p = "(new_progress ''r'' ''b'' ''git'')\<lparr>rp_indexed_files := 1, rp_total_chunks := 9\<rparr>"
  have "map_of (tr_repos (file_indexed (queue_repo new_tracker ''r'' ''b'' ''git'') ''r'' ''b'' 9 0))
      (repo_key ''r'' ''b'') = Some ?p"
    by (simp add: file_indexed_def queue_repo_def on_repo_def new_progress_def)
  from run_counts [OF this refl, of "[Some (4, 0), None]" "''git''" 1 2 2 2 2] show ?thesis
    by (auto simp: new_progress_def)
qed

end
