(* ===== verification/Plan_Tool.thy ===== *)
theory Plan_Tool
  imports Py_Prelude
begin

text \<open>
  The \<open>update_plan\<close> tool of the reasoner (\<open>opsrag/agent/services/plan_tool.py\<close>): merging partial
  updates, which come from a language model and may have any shape, into the plan. Plan items and
  updates are \<open>json\<close> values. Parsing a float from a string (\<open>float(s)\<close>) is the parameter \<open>pf\<close>;
  an \<open>int\<close> beyond the range of a double raises, as \<open>float\<close> does.
\<close>

subsection \<open>Items\<close>

definition valid_statuses :: "string list" where
  "valid_statuses = [''open'', ''testing'', ''validated'', ''invalidated'', ''deferred'']"

definition terminal_statuses :: "string list" where
  "terminal_statuses = [''validated'', ''invalidated'']"

definition is_valid_status :: "json \<Rightarrow> bool" where
  "is_valid_status j \<longleftrightarrow> j \<in> set (map JStr valid_statuses)"

definition is_terminal :: "json \<Rightarrow> bool" where
  "is_terminal j \<longleftrightarrow> j \<in> set (map JStr terminal_statuses)"

text \<open>Membership in the frozenset hashes its argument.\<close>

definition hashable :: "json \<Rightarrow> bool" where
  "hashable j = (case j of JList _ \<Rightarrow> False | JObj _ \<Rightarrow> False | _ \<Rightarrow> True)"

record plan_item =
  pi_id :: string
  pi_hypothesis :: string
  pi_status :: string
  pi_next_tool :: "string option"
  pi_evidence_so_far :: string
  pi_confidence :: pyfloat

definition to_dict :: "plan_item \<Rightarrow> obj" where
  "to_dict p =
     [(''id'', JStr (pi_id p)), (''hypothesis'', JStr (pi_hypothesis p)), (''status'', JStr (pi_status p)),
      (''next_tool'', (case pi_next_tool p of None \<Rightarrow> JNull | Some t \<Rightarrow> JStr t)),
      (''evidence_so_far'', JStr (pi_evidence_so_far p)), (''confidence'', JFloat (pi_confidence p))]"

definition empty_plan :: "json list" where "empty_plan = []"

definition py_float :: "(string \<Rightarrow> pyfloat option) \<Rightarrow> json \<Rightarrow> pyfloat result" where
  "py_float pf value =
     (case value of
        JBool b \<Rightarrow> Inr (Fin (if b then 1 else 0))
      | JInt i \<Rightarrow> if 2 ^ 1024 - 2 ^ 970 \<le> \<bar>i\<bar> then Inl OverflowError else Inr (Fin (of_int i))
      | JFloat x \<Rightarrow> Inr x
      | JStr s \<Rightarrow> (case pf s of None \<Rightarrow> Inl (ValueError s) | Some x \<Rightarrow> Inr x)
      | _ \<Rightarrow> Inl (TypeError ''float''))"

definition float_lt :: "pyfloat \<Rightarrow> pyfloat \<Rightarrow> bool" where
  "float_lt x y = (case (x, y) of
     (Fin a, Fin b) \<Rightarrow> a < b | (NInf, Fin _) \<Rightarrow> True | (NInf, PInf) \<Rightarrow> True | (Fin _, PInf) \<Rightarrow> True
   | _ \<Rightarrow> False)"

definition clamp_confidence :: "(string \<Rightarrow> pyfloat option) \<Rightarrow> json \<Rightarrow> pyfloat result" where
  "clamp_confidence pf value =
     (case py_float pf value of
        Inl (TypeError _) \<Rightarrow> Inr (Fin 0)
      | Inl (ValueError _) \<Rightarrow> Inr (Fin 0)
      | Inl e \<Rightarrow> Inl e
      | Inr v \<Rightarrow> if float_lt v (Fin 0) then Inr (Fin 0) else if float_lt (Fin 1) v then Inr (Fin 1) else Inr v)"

definition new_item :: "(string \<Rightarrow> pyfloat option) \<Rightarrow> obj \<Rightarrow> obj result" where
  "new_item pf update =
     (case clamp_confidence pf (dget (JFloat (Fin 0)) ''confidence'' update) of
        Inl e \<Rightarrow> Inl e
      | Inr c \<Rightarrow>
          (let s0 = dget (JStr ''open'') ''status'' update;
               s = (if is_valid_status s0 then s0 else JStr ''open'')
           in Inr [(''id'', dget JNull ''id'' update), (''hypothesis'', dget (JStr []) ''hypothesis'' update),
                   (''status'', s),
                   (''next_tool'', if is_terminal s then JNull else dget JNull ''next_tool'' update),
                   (''evidence_so_far'', dget (JStr []) ''evidence_so_far'' update),
                   (''confidence'', JFloat c)]))"

subsection \<open>Merging\<close>

definition update_keys :: "string list" where
  "update_keys = [''hypothesis'', ''status'', ''next_tool'', ''evidence_so_far'', ''confidence'']"

text \<open>The loop over the keys that are present in the update.\<close>

fun merge_keys :: "(string \<Rightarrow> pyfloat option) \<Rightarrow> obj \<Rightarrow> string list \<Rightarrow> obj \<Rightarrow> obj result" where
  "merge_keys pf update [] merged = Inr merged"
| "merge_keys pf update (key # keys) merged =
     (case map_of update key of
        None \<Rightarrow> merge_keys pf update keys merged
      | Some v \<Rightarrow>
          if key = ''confidence''
          then (case clamp_confidence pf v of
                  Inl e \<Rightarrow> Inl e
                | Inr c \<Rightarrow> merge_keys pf update keys (AList.update key (JFloat c) merged))
          else if key = ''status''
          then merge_keys pf update keys (if is_valid_status v then AList.update key v merged else merged)
          else merge_keys pf update keys (AList.update key v merged))"

definition merge_item :: "(string \<Rightarrow> pyfloat option) \<Rightarrow> obj \<Rightarrow> obj \<Rightarrow> obj result" where
  "merge_item pf existing update =
     (case merge_keys pf update update_keys existing of
        Inl e \<Rightarrow> Inl e
      | Inr m \<Rightarrow>
          (let s = dget JNull ''status'' m in
           if \<not> hashable s then Inl (TypeError ''unhashable type'')
           else Inr (if is_terminal s then AList.update ''next_tool'' JNull m else m)))"

record plan_stats =
  ps_added :: nat
  ps_updated :: nat
  ps_validated_now :: nat
  ps_invalidated_now :: nat

definition count_status :: "json \<Rightarrow> plan_stats \<Rightarrow> plan_stats" where
  "count_status s st =
     (if s = JStr ''validated'' then st\<lparr>ps_validated_now := ps_validated_now st + 1\<rparr>
      else if s = JStr ''invalidated'' then st\<lparr>ps_invalidated_now := ps_invalidated_now st + 1\<rparr>
      else st)"

definition item_id :: "json \<Rightarrow> (string \<times> obj) option" where
  "item_id j = (case j of
     JObj d \<Rightarrow> (case map_of d ''id'' of Some (JStr i) \<Rightarrow> if i = [] then None else Some (i, d) | _ \<Rightarrow> None)
   | _ \<Rightarrow> None)"

type_synonym plan_state = "(string, obj) dict \<times> string list \<times> plan_stats"

definition load_plan :: "json list \<Rightarrow> (string, obj) dict \<times> string list" where
  "load_plan plan = fold (\<lambda>j (index, order).
     case item_id j of None \<Rightarrow> (index, order) | Some (i, d) \<Rightarrow> (AList.update i d index, order @ [i])) plan ([], [])"

definition apply_update :: "(string \<Rightarrow> pyfloat option) \<Rightarrow> plan_state \<Rightarrow> json \<Rightarrow> plan_state result" where
  "apply_update pf st j =
     (case st of (index, order, stats) \<Rightarrow>
      (case item_id j of
         None \<Rightarrow> Inr st
       | Some (i, update) \<Rightarrow>
           (case map_of index i of
              Some existing \<Rightarrow>
                (case merge_item pf existing update of
                   Inl e \<Rightarrow> Inl e
                 | Inr merged \<Rightarrow>
                     (let stats1 = stats\<lparr>ps_updated := ps_updated stats + 1\<rparr>;
                          s = dget JNull ''status'' merged
                      in Inr (AList.update i merged index, order,
                              if s \<noteq> dget JNull ''status'' existing then count_status s stats1 else stats1)))
            | None \<Rightarrow>
                (case map_of update ''hypothesis'' of
                   Some (JStr h) \<Rightarrow>
                     if py_strip h = [] then Inr st
                     else (case new_item pf update of
                             Inl e \<Rightarrow> Inl e
                           | Inr item \<Rightarrow>
                               Inr (AList.update i item index, order @ [i],
                                    count_status (dget JNull ''status'' item)
                                      (stats\<lparr>ps_added := ps_added stats + 1\<rparr>)))
                 | _ \<Rightarrow> Inr st))))"

fun apply_updates :: "(string \<Rightarrow> pyfloat option) \<Rightarrow> plan_state \<Rightarrow> json list \<Rightarrow> plan_state result" where
  "apply_updates pf st [] = Inr st"
| "apply_updates pf st (u # us) =
     (case apply_update pf st u of Inl e \<Rightarrow> Inl e | Inr st' \<Rightarrow> apply_updates pf st' us)"

definition update_plan ::
  "(string \<Rightarrow> pyfloat option) \<Rightarrow> json list \<Rightarrow> json list \<Rightarrow> (json list \<times> plan_stats) result" where
  "update_plan pf current_plan updates =
     (case load_plan current_plan of (index, order) \<Rightarrow>
      (case apply_updates pf (index, order,
          \<lparr>ps_added = 0, ps_updated = 0, ps_validated_now = 0, ps_invalidated_now = 0\<rparr>) updates of
         Inl e \<Rightarrow> Inl e
       | Inr (index', order', stats) \<Rightarrow> Inr (map (\<lambda>i. JObj (dget [] i index')) order', stats)))"

subsection \<open>Rendering\<close>

definition ljust :: "nat \<Rightarrow> string \<Rightarrow> string" where
  "ljust n s = s @ replicate (n - length s) (CHR '' '')"

text \<open>One line of the prompt; \<open>other\<close> prints floats and containers, \<open>fmt2\<close> is the format \<open>.2f\<close>.\<close>

definition render_line ::
  "(json \<Rightarrow> string) \<Rightarrow> (pyfloat \<Rightarrow> string) \<Rightarrow> nat \<Rightarrow> obj \<Rightarrow> string" where
  "render_line other fmt2 width item =
     (let status = json_str other (dget (JStr ''open'') ''status'' item);
          hypothesis = py_strip (json_str other (dget (JStr []) ''hypothesis'' item));
          next_tool = dget JNull ''next_tool'' item;
          conf = (case dget JNull ''confidence'' item of
                    JInt i \<Rightarrow> Some (Fin (of_int i)) | JFloat x \<Rightarrow> Some x
                  | JBool b \<Rightarrow> Some (Fin (if b then 1 else 0)) | _ \<Rightarrow> None);
          segment = (case conf of
                       Some x \<Rightarrow> if status = ''validated'' then status @ '' ('' @ fmt2 x @ '')'' else ljust width status
                     | None \<Rightarrow> ljust width status);
          sfx = (if truthy next_tool \<and> status \<notin> set terminal_statuses
                 then '' (next: '' @ json_str other next_tool @ '')'' else [])
      in ''  ['' @ json_str other (dget (JStr ''?'') ''id'' item) @ ''] '' @ segment @ '' -- '' @ hypothesis @ sfx)"

definition render_plan_for_prompt ::
  "(json \<Rightarrow> string) \<Rightarrow> (pyfloat \<Rightarrow> string) \<Rightarrow> obj list \<Rightarrow> string" where
  "render_plan_for_prompt other fmt2 plan =
     (if plan = [] then ''Current plan (0 items):''
      else (let width = Max (set (map (\<lambda>i. length (json_str other (dget (JStr ''open'') ''status'' i))) plan))
            in join [CHR 0x0A] ((''Current plan ('' @ str_nat (length plan) @ '' items):'')
                 # map (render_line other fmt2 width) plan)))"

subsection \<open>What an update keeps\<close>

definition confidence_ok :: "pyfloat \<Rightarrow> bool" where
  "confidence_ok x = (case x of Fin r \<Rightarrow> 0 \<le> r \<and> r \<le> 1 | NaN \<Rightarrow> True | _ \<Rightarrow> False)"

text \<open>The clamp: whatever the model sends as a confidence, the result is a number in the unit interval
  or a NaN that was sent as one; it raises exactly on an integer beyond the doubles.\<close>

theorem clamp_confidence_range:
  "(\<forall>c. clamp_confidence pf v = Inr c \<longrightarrow> confidence_ok c \<and> (c = NaN \<longleftrightarrow> py_float pf v = Inr NaN))
   \<and> ((\<exists>e. clamp_confidence pf v = Inl e) \<longleftrightarrow> (\<exists>i. v = JInt i \<and> 2 ^ 1024 - 2 ^ 970 \<le> \<bar>i\<bar>))"
proof (intro conjI allI impI)
  fix c
  assume c: "clamp_confidence pf v = Inr c"
  show "confidence_ok c" and "c = NaN \<longleftrightarrow> py_float pf v = Inr NaN"
    using c by (auto simp: clamp_confidence_def confidence_ok_def float_lt_def not_less
        split: sum.splits py_error.splits pyfloat.splits if_splits)
next
  show "(\<exists>e. clamp_confidence pf v = Inl e) \<longleftrightarrow> (\<exists>i. v = JInt i \<and> 2 ^ 1024 - 2 ^ 970 \<le> \<bar>i\<bar>)"
    by (cases v) (auto simp: clamp_confidence_def py_float_def split: option.splits)
qed

theorem clamp_confidence_range_witness:
  "confidence_ok (Fin 1) \<and> clamp_confidence (\<lambda>_. None) (JInt 7) = Inr (Fin 1)"
proof -
  have c: "clamp_confidence (\<lambda>_. None) (JInt 7) = Inr (Fin 1)"
    by (simp add: clamp_confidence_def py_float_def float_lt_def)
  with clamp_confidence_range [of "\<lambda>_. None" "JInt 7"] show ?thesis by blast
qed

definition item_ok :: "obj \<Rightarrow> bool" where
  "item_ok d \<longleftrightarrow> is_valid_status (dget JNull ''status'' d)
     \<and> (is_terminal (dget JNull ''status'' d) \<longrightarrow> dget JNull ''next_tool'' d = JNull)
     \<and> (\<exists>c. dget JNull ''confidence'' d = JFloat c \<and> confidence_ok c)"

lemma clamp_ok: "clamp_confidence pf v = Inr c \<Longrightarrow> confidence_ok c"
  by (auto simp: clamp_confidence_def confidence_ok_def float_lt_def not_less
      split: sum.splits py_error.splits pyfloat.splits if_splits)

lemma new_item_ok: "new_item pf u = Inr item \<Longrightarrow> item_ok item"
  by (auto simp: new_item_def item_ok_def dget_def is_valid_status_def valid_statuses_def Let_def
      dest: clamp_ok split: sum.splits if_splits)

lemma merge_keys_ok:
  "merge_keys pf u keys d = Inr m \<Longrightarrow> is_valid_status (dget JNull ''status'' d) \<Longrightarrow>
   (\<exists>c. dget JNull ''confidence'' d = JFloat c \<and> confidence_ok c) \<Longrightarrow>
   is_valid_status (dget JNull ''status'' m) \<and> (\<exists>c. dget JNull ''confidence'' m = JFloat c \<and> confidence_ok c)"
proof (induction pf u keys d rule: merge_keys.induct)
  case (1 pf update merged)
  then show ?case by simp
next
  case (2 pf update key keys merged)
  show ?case
  proof (cases "map_of update key")
    case None
    with 2 show ?thesis by simp
  next
    case (Some v)
    with 2 show ?thesis by (auto split: if_splits sum.splits dest: clamp_ok)
  qed
qed

lemma valid_hashable: "is_valid_status s \<Longrightarrow> hashable s"
  by (auto simp: is_valid_status_def hashable_def)

lemma merge_item_ok: "merge_item pf d u = Inr m \<Longrightarrow> item_ok d \<Longrightarrow> item_ok m"
  by (auto simp: merge_item_def item_ok_def Let_def dest!: merge_keys_ok split: sum.splits if_splits)

lemma merge_keys_other:
  "merge_keys pf u keys d = Inr m \<Longrightarrow> k \<notin> set keys \<or> map_of u k = None \<Longrightarrow> map_of m k = map_of d k"
proof (induction pf u keys d rule: merge_keys.induct)
  case (1 pf update merged)
  then show ?case by simp
next
  case (2 pf update key keys merged)
  then show ?case by (cases "map_of update key") (auto split: if_splits sum.splits)
qed

definition state_ok :: "plan_state \<Rightarrow> bool" where
  "state_ok st = (case st of (index, order, _) \<Rightarrow>
     (\<forall>i. i \<in> set order \<longleftrightarrow> map_of index i \<noteq> None)
     \<and> (\<forall>i d. map_of index i = Some d \<longrightarrow> item_ok d \<and> map_of d ''id'' = Some (JStr i)))"

lemma item_id_id: "item_id j = Some (i, d) \<Longrightarrow> i \<noteq> [] \<and> map_of d ''id'' = Some (JStr i)"
  by (auto simp: item_id_def split: json.splits option.splits if_splits)

lemma merge_item_id: "merge_item pf d u = Inr m \<Longrightarrow> map_of m ''id'' = map_of d ''id''"
  using merge_keys_other [of pf u update_keys d _ "''id''"]
  by (auto simp: merge_item_def update_keys_def Let_def split: sum.splits if_splits)

lemma new_item_id: "new_item pf u = Inr item \<Longrightarrow> map_of u ''id'' = Some x \<Longrightarrow> map_of item ''id'' = Some x"
  by (auto simp: new_item_def dget_def Let_def split: sum.splits)

lemma apply_update_ok:
  assumes "state_ok (index, order, stats)" and "apply_update pf (index, order, stats) j = Inr (index', order', stats')"
  shows "state_ok (index', order', stats') \<and> (\<exists>new. order' = order @ new \<and> (distinct order \<longrightarrow> distinct order'))"
proof (cases "item_id j")
  case None
  with assms show ?thesis by (simp add: apply_update_def)
next
  case (Some p)
  obtain i u where p: "p = (i, u)" by (cases p)
  note id = item_id_id [OF Some [unfolded p]]
  show ?thesis
  proof (cases "map_of index i")
    case (Some d)
    then obtain m where m: "merge_item pf d u = Inr m" "index' = AList.update i m index" "order' = order"
      using assms(2) \<open>item_id j = Some p\<close> by (auto simp: apply_update_def p Let_def split: sum.splits)
    have "item_ok m" "map_of m ''id'' = Some (JStr i)"
      using assms(1) Some m(1) merge_item_ok [OF m(1)] merge_item_id [OF m(1)] by (auto simp: state_ok_def)
    with assms(1) Some m(2,3) show ?thesis by (auto simp: state_ok_def)
  next
    case None
    show ?thesis
    proof (cases "(index', order') = (index, order)")
      case True
      with assms(1) show ?thesis by (auto simp: state_ok_def)
    next
      case False
      then obtain item where item: "new_item pf u = Inr item" "index' = AList.update i item index" "order' = order @ [i]"
        using assms(2) \<open>item_id j = Some p\<close> None
        by (auto simp: apply_update_def p split: sum.splits option.splits json.splits if_splits)
      have "item_ok item" "map_of item ''id'' = Some (JStr i)"
        using new_item_ok [OF item(1)] new_item_id [OF item(1)] id by auto
      with assms(1) None item(2,3) show ?thesis by (auto simp: state_ok_def)
    qed
  qed
qed

lemma apply_updates_ok:
  "state_ok st \<Longrightarrow> apply_updates pf st us = Inr st' \<Longrightarrow>
   state_ok st' \<and> (\<exists>new. fst (snd st') = fst (snd st) @ new)
     \<and> (distinct (fst (snd st)) \<longrightarrow> distinct (fst (snd st')))"
proof (induction us arbitrary: st)
  case Nil
  then show ?case by simp
next
  case (Cons u us)
  obtain index order stats where st: "st = (index, order, stats)" by (cases st)
  obtain st1 where step: "apply_update pf st u = Inr st1" using Cons.prems(2) by (auto split: sum.splits)
  obtain index1 order1 stats1 where st1: "st1 = (index1, order1, stats1)" by (cases st1)
  from apply_update_ok [OF Cons.prems(1) [unfolded st] step [unfolded st st1]]
    Cons.IH [of st1] Cons.prems(2) step
  show ?case by (auto simp: st st1)
qed

definition plan_ids :: "json list \<Rightarrow> string list" where
  "plan_ids plan = map fst (List.map_filter item_id plan)"

definition plan_ok :: "json list \<Rightarrow> bool" where
  "plan_ok plan \<longleftrightarrow> distinct (plan_ids plan) \<and>
     (\<forall>j\<in>set plan. \<exists>i d. item_id j = Some (i, d) \<and> item_ok d)"

lemma load_plan_snoc:
  "load_plan (plan @ [j]) = (case load_plan plan of (index, order) \<Rightarrow>
     case item_id j of None \<Rightarrow> (index, order) | Some (i, d) \<Rightarrow> (AList.update i d index, order @ [i]))"
  by (simp add: load_plan_def)

lemma load_plan_ok:
  "(\<forall>j\<in>set plan. \<exists>i d. item_id j = Some (i, d) \<and> item_ok d) \<Longrightarrow>
   load_plan plan = (index, order) \<Longrightarrow> state_ok (index, order, s) \<and> order = plan_ids plan"
proof (induction plan arbitrary: index order rule: rev_induct)
  case Nil
  then show ?case by (simp add: load_plan_def state_ok_def plan_ids_def List.map_filter_def)
next
  case (snoc j plan)
  obtain index0 order0 where l: "load_plan plan = (index0, order0)" by (cases "load_plan plan")
  obtain i d where j: "item_id j = Some (i, d)" "item_ok d" using snoc.prems(1) by auto
  have "state_ok (index0, order0, s) \<and> order0 = plan_ids plan" using snoc.IH [OF _ l] snoc.prems(1) by auto
  moreover have "index = AList.update i d index0" "order = order0 @ [i]"
    using snoc.prems(2) by (simp_all add: load_plan_snoc l j)
  moreover have "plan_ids (plan @ [j]) = plan_ids plan @ [i]"
    by (simp add: plan_ids_def List.map_filter_def j)
  ultimately show ?case
    using item_id_id [OF j(1)] j by (auto simp: state_ok_def)
qed

lemma state_items:
  assumes "state_ok (index, order, stats)" and "distinct order" and "\<forall>i\<in>set order. i \<noteq> []"
  shows "plan_ok (map (\<lambda>i. JObj (dget [] i index)) order)
    \<and> plan_ids (map (\<lambda>i. JObj (dget [] i index)) order) = order"
proof -
  have item: "item_id (JObj (dget [] i index)) = Some (i, dget [] i index) \<and> item_ok (dget [] i index)"
    if "i \<in> set order" for i
    using assms(1,3) that by (fastforce simp: state_ok_def item_id_def dget_def split: option.splits)
  have "plan_ids (map (\<lambda>i. JObj (dget [] i index)) order) = order"
    using item by (induction order) (auto simp: plan_ids_def List.map_filter_def)
  with item assms(2) show ?thesis unfolding plan_ok_def by fastforce
qed

lemma apply_update_nonempty:
  assumes "\<forall>i\<in>set order. i \<noteq> []" and "apply_update pf (index, order, s) j = Inr (index', order', s')"
  shows "\<forall>i\<in>set order'. i \<noteq> []"
  using assms
  by (auto simp: apply_update_def Let_def split: option.splits sum.splits json.splits if_splits prod.splits
      dest: item_id_id)

lemma apply_updates_nonempty:
  "\<forall>i\<in>set (fst (snd st)). i \<noteq> [] \<Longrightarrow> apply_updates pf st us = Inr st' \<Longrightarrow> \<forall>i\<in>set (fst (snd st')). i \<noteq> []"
proof (induction us arbitrary: st)
  case (Cons u us)
  obtain st1 where step: "apply_update pf st u = Inr st1" using Cons.prems(2) by (auto split: sum.splits)
  have "\<forall>i\<in>set (fst (snd st1)). i \<noteq> []"
    using apply_update_nonempty [of "fst (snd st)" pf "fst st" "snd (snd st)" u] Cons.prems(1) step
    by (cases st1) auto
  with Cons.IH [OF this] Cons.prems(2) step show ?case by simp
qed simp

lemma plan_ids_nonempty: "i \<in> set (plan_ids plan) \<Longrightarrow> i \<noteq> []"
  by (auto simp: plan_ids_def List.map_filter_def dest: item_id_id)

text \<open>An update never loses, reorders or corrupts hypotheses: on a well-formed plan any list of
  updates that does not raise yields a well-formed plan (valid statuses, no next tool on a settled
  hypothesis, confidences in the unit interval or NaN, distinct ids) whose ids are the old ids in their
  order followed by the added ones.\<close>

theorem update_plan_ok:
  assumes "plan_ok plan" and "update_plan pf plan updates = Inr (plan', stats)"
  shows "plan_ok plan' \<and> (\<exists>new. plan_ids plan' = plan_ids plan @ new)"
proof -
  let ?s = "\<lparr>ps_added = 0, ps_updated = 0, ps_validated_now = 0, ps_invalidated_now = 0\<rparr>"
  obtain index order where l: "load_plan plan = (index, order)" by (cases "load_plan plan")
  have ok: "state_ok (index, order, ?s)" and order: "order = plan_ids plan"
    using load_plan_ok [OF _ l, of ?s] assms(1) by (auto simp: plan_ok_def)
  obtain index' order' stats' where run: "apply_updates pf (index, order, ?s) updates = Inr (index', order', stats')"
    and plan': "plan' = map (\<lambda>i. JObj (dget [] i index')) order'"
    using assms(2) by (auto simp: update_plan_def l split: sum.splits)
  have "\<forall>i\<in>set order'. i \<noteq> []"
    using apply_updates_nonempty [OF _ run] plan_ids_nonempty by (auto simp: order)
  moreover have "state_ok (index', order', stats')" "distinct order'" "\<exists>new. order' = order @ new"
    using apply_updates_ok [OF ok run] assms(1) by (auto simp: order plan_ok_def)
  ultimately show ?thesis using state_items [of index' order' stats'] by (auto simp: plan' order)
qed

theorem update_plan_ok_witness:
  "\<exists>plan' stats. update_plan (\<lambda>_. None) [] [JObj [(''id'', JStr ''h1''), (''hypothesis'', JStr ''x'')], JInt 3]
     = Inr (plan', stats) \<and> plan_ok plan' \<and> plan_ids plan' = [''h1'']"
proof -
  have strip: "py_strip ''x'' \<noteq> []" by code_simp
  obtain plan' stats where r: "update_plan (\<lambda>_. None) []
      [JObj [(''id'', JStr ''h1''), (''hypothesis'', JStr ''x'')], JInt 3] = Inr (plan', stats)"
    and ids: "plan_ids plan' = [''h1'']"
    using strip
    by (simp add: update_plan_def load_plan_def apply_update_def item_id_def new_item_def clamp_confidence_def
        py_float_def dget_def float_lt_def plan_ids_def List.map_filter_def Let_def is_valid_status_def
        valid_statuses_def)
  have "plan_ok []" by (simp add: plan_ok_def plan_ids_def List.map_filter_def)
  with update_plan_ok [OF _ r] r ids show ?thesis by auto
qed

text \<open>A partial update is a merge: the fields it does not carry keep their values, except that a
  status that becomes terminal clears the next tool; an update that carries an unknown status leaves the
  status alone.\<close>

theorem merge_keeps_the_rest:
  assumes "merge_item pf d u = Inr m"
  shows "(\<forall>k. (k \<notin> set update_keys \<or> map_of u k = None) \<and> (k = ''next_tool'' \<longrightarrow> \<not> is_terminal (dget JNull ''status'' m))
            \<longrightarrow> map_of m k = map_of d k)
    \<and> (\<forall>s. map_of u ''status'' = Some s \<longrightarrow>
          dget JNull ''status'' m = (if is_valid_status s then s else dget JNull ''status'' d))"
proof -
  obtain m0 where m0: "merge_keys pf u update_keys d = Inr m0"
    and m: "m = (if is_terminal (dget JNull ''status'' m0) then AList.update ''next_tool'' JNull m0 else m0)"
    using assms by (auto simp: merge_item_def Let_def split: sum.splits if_splits)
  have status: "dget JNull ''status'' m = dget JNull ''status'' m0" by (simp add: m)
  have "dget JNull ''status'' m0 = (if is_valid_status s then s else dget JNull ''status'' d)"
    if "map_of u ''status'' = Some s" for s
    using m0 that
    by (auto simp: update_keys_def split: option.splits sum.splits if_splits)
  moreover have "map_of m k = map_of d k"
    if "k \<notin> set update_keys \<or> map_of u k = None" "k = ''next_tool'' \<longrightarrow> \<not> is_terminal (dget JNull ''status'' m)" for k
    using merge_keys_other [OF m0 that(1)] that(2) status by (auto simp: m)
  ultimately show ?thesis using status by simp
qed

theorem merge_keeps_the_rest_witness:
  "\<exists>m. merge_item (\<lambda>_. None) [(''id'', JStr ''h''), (''status'', JStr ''open''), (''evidence_so_far'', JStr ''e'')]
        [(''id'', JStr ''h''), (''status'', JStr ''bogus'')] = Inr m
     \<and> map_of m ''evidence_so_far'' = Some (JStr ''e'') \<and> dget JNull ''status'' m = JStr ''open''"
proof -
  let ?d = "[(''id'', JStr ''h''), (''status'', JStr ''open''), (''evidence_so_far'', JStr ''e'')]"
  let ?u = "[(''id'', JStr ''h''), (''status'', JStr ''bogus'')]"
  obtain m where r: "merge_item (\<lambda>_. None) ?d ?u = Inr m"
    by (simp add: merge_item_def update_keys_def is_valid_status_def valid_statuses_def hashable_def dget_def Let_def)
  from merge_keeps_the_rest [OF r] have "map_of m ''evidence_so_far'' = map_of ?d ''evidence_so_far''"
    "dget JNull ''status'' m = (if is_valid_status (JStr ''bogus'') then JStr ''bogus'' else dget JNull ''status'' ?d)"
    by simp_all
  with r show ?thesis by (simp add: is_valid_status_def valid_statuses_def dget_def)
qed

end
