(* ===== verification/Path_Tree.thy ===== *)
theory Path_Tree
  imports Chunk_Model
begin

text \<open>
  The directory-tree summary of retrieved paths (\<open>opsrag/agent/path_tree.py\<close>): finding the pivot
  directory of a path, the tree of a pivot, the choice of the pivot and the choice of the target
  repository. The vector store's \<open>enumerate_paths\<close> (repository, prefix, bound) is a parameter; a store
  without it is \<open>None\<close>.
\<close>

subsection \<open>Pivots\<close>

definition pivot_dirs :: "string list" where
  "pivot_dirs = [''modules/'', ''projects/'', ''envs/'', ''environments/'', ''charts/'', ''values/'',
     ''apps/'', ''services/'', ''playbooks/'', ''ansible/'', ''terraform/'']"

definition min_chunks_for_summary :: nat where "min_chunks_for_summary = 4"
definition min_distinct_tops :: nat where "min_distinct_tops = 3"
definition max_subdirs_per_top :: nat where "max_subdirs_per_top = 100"

definition segments :: "string \<Rightarrow> string list" where
  "segments path = filter (\<lambda>s. s \<noteq> []) (split_on (CHR ''/'') path)"

definition pivot_match :: "string \<Rightarrow> string \<Rightarrow> string list option" where
  "pivot_match p piv =
     (case py_find piv p of
        None \<Rightarrow> None
      | Some idx \<Rightarrow>
          if idx = 0 \<or> p ! (idx - 1) = CHR ''/''
          then (let rest = segments (drop (idx + length piv) p) in if rest = [] then None else Some rest)
          else None)"

fun first_pivot :: "string list \<Rightarrow> string \<Rightarrow> (string \<times> string list) option" where
  "first_pivot [] p = None"
| "first_pivot (piv # pivs) p =
     (case pivot_match p piv of Some rest \<Rightarrow> Some (piv, rest) | None \<Rightarrow> first_pivot pivs p)"

definition find_pivot :: "string \<Rightarrow> (string \<times> string list) option" where
  "find_pivot p = (if p = [] then None else first_pivot pivot_dirs p)"

definition pivot_keywords :: "(string \<times> string) list" where
  "pivot_keywords =
     [(''chart'', ''charts/''), (''module'', ''modules/''), (''project'', ''projects/''),
      (''environment'', ''environments/''), (''env'', ''envs/''), (''app'', ''apps/''),
      (''service'', ''services/''), (''playbook'', ''playbooks/''), (''ansible'', ''ansible/''),
      (''value'', ''values/'')]"

definition pivot_hint_from_query :: "string \<Rightarrow> string option" where
  "pivot_hint_from_query query =
     (if query = [] then None
      else map_option snd (find (\<lambda>(kw, piv). py_in kw (py_lower query) \<and> piv \<in> set pivot_dirs) pivot_keywords))"

subsection \<open>Trees\<close>

text \<open>The second segment, when it looks like a directory.\<close>

definition sub_of :: "string list \<Rightarrow> string" where
  "sub_of segs = (if 2 \<le> length segs \<and> CHR ''.'' \<notin> set (segs ! 1) then segs ! 1 else [])"

definition add_top :: "string list \<Rightarrow> (string, string set) dict \<Rightarrow> (string, string set) dict" where
  "add_top segs tops =
     (if sub_of segs \<noteq> [] then AList.update (hd segs) (insert (sub_of segs) (dget {} (hd segs) tops)) tops
      else setdefault (hd segs) {} tops)"

definition subs_line :: "string \<Rightarrow> string list \<Rightarrow> string" where
  "subs_line tp subs =
     (let shown = take max_subdirs_per_top subs in
      if subs = [] then ''- `'' @ tp @ ''/`''
      else if length subs \<le> max_subdirs_per_top
      then ''- `'' @ tp @ ''/`  (subdirs: '' @ join '', '' subs @ '')''
      else ''- `'' @ tp @ ''/`  (subdirs: '' @ join '', '' shown @ '', ... +''
           @ str_nat (length subs - length shown) @ '' more)'')"

definition tree_line :: "(string, string set) dict \<Rightarrow> string \<Rightarrow> string" where
  "tree_line tops tp = subs_line tp (sorted_list_of_set (dget {} tp tops))"

definition tree_header :: "string \<Rightarrow> string \<Rightarrow> nat \<Rightarrow> string" where
  "tree_header pivot target n = ''Directory tree under `'' @ pivot @ ''` in `'' @ target @ ''` (''
     @ str_nat n @ '' top-level subdirectories observed):''"

definition complete_note :: "string \<Rightarrow> string \<Rightarrow> nat \<Rightarrow> string" where
  "complete_note pivot target n = ''Note: this is the COMPLETE tree as indexed for `'' @ target @ ''` under `'' @ pivot
     @ ''` (n='' @ str_nat n @ '' distinct paths enumerated).''"

definition path_segs :: "string \<Rightarrow> string \<Rightarrow> string list" where
  "path_segs pivot p =
     (case py_find pivot p of None \<Rightarrow> [] | Some idx \<Rightarrow> segments (drop (idx + length pivot) p))"

definition collect_tops :: "string \<Rightarrow> string list \<Rightarrow> nat \<times> (string, string set) dict" where
  "collect_tops pivot paths =
     fold (\<lambda>p (n, tops). let segs = path_segs pivot p in
             if segs = [] then (n, tops) else (n + 1, add_top segs tops)) paths (0, [])"

definition render_tree_for_pivot :: "string list \<Rightarrow> string \<Rightarrow> string \<Rightarrow> string" where
  "render_tree_for_pivot all_paths pivot target_repo =
     (let (chunk_count, tops) = collect_tops pivot all_paths in
      if chunk_count < min_chunks_for_summary \<or> length tops < min_distinct_tops then []
      else join [CHR 0x0A]
        (tree_header pivot target_repo (length tops)
         # map (tree_line tops) (sorted_list_of_set (fst ` set tops))
         @ [complete_note pivot target_repo chunk_count]))"

definition add_chunk ::
  "chunk \<Rightarrow> (string, (string, string set) dict) dict \<times> (string, nat) dict \<Rightarrow>
   (string, (string, string set) dict) dict \<times> (string, nat) dict" where
  "add_chunk c st =
     (case find_pivot (source_path c) of
        None \<Rightarrow> st
      | Some (piv, rest) \<Rightarrow>
          (AList.update piv (add_top rest (dget [] piv (fst st))) (fst st),
           AList.update piv (dget 0 piv (snd st) + 1) (snd st)))"

definition retrieval_note :: string where
  "retrieval_note = ''Note: this is the *observed* tree from retrieval -- it MAY be incomplete (a subdir present in the repo but unretrieved won't appear). If the user asked for the complete list and you're unsure, say the list is from retrieval and offer to verify with a repository-tree tool.''"

definition build_path_tree_summary :: "chunk list \<Rightarrow> string option \<Rightarrow> string" where
  "build_path_tree_summary chunks target_repo =
     (let target = (case target_repo of None \<Rightarrow> [] | Some r \<Rightarrow> r);
          cs = (if target = [] then chunks else filter (\<lambda>c. repo c = target) chunks);
          (by_pivot, counts) = fold add_chunk cs ([], []);
          candidates = filter (\<lambda>(n, m, p). min_chunks_for_summary \<le> n \<and> min_distinct_tops \<le> m)
             (map (\<lambda>(p, tops). (dget 0 p counts, length tops, p)) by_pivot)
      in case sort_key (\<lambda>(n, m, p). (- int n, - int m)) candidates of
           [] \<Rightarrow> []
         | (n, m, chosen) # _ \<Rightarrow>
             (let tops = dget [] chosen by_pivot;
                  hint = (if target = [] then [] else '' in `'' @ target @ ''`'')
              in join [CHR 0x0A]
                ((''Directory tree under `'' @ chosen @ ''`'' @ hint @ '' derived from '' @ str_nat n
                    @ '' retrieved sources ('' @ str_nat (length tops) @ '' top-level subdirectories observed):'')
                 # map (tree_line tops) (sorted_list_of_set (fst ` set tops)) @ [retrieval_note])))"

subsection \<open>The complete tree of a repository\<close>

type_synonym enumerator = "string \<Rightarrow> string \<Rightarrow> nat \<Rightarrow> string list"

text \<open>\<open>p[p.find(hint) + len(hint):]\<close>; without an occurrence \<open>find\<close> is \<open>-1\<close>.\<close>

definition after_hint :: "string \<Rightarrow> string \<Rightarrow> string" where
  "after_hint hint p =
     drop (case py_find hint p of Some i \<Rightarrow> i + length hint | None \<Rightarrow> length hint - 1) p"

definition depth2_children :: "string \<Rightarrow> string list \<Rightarrow> (string, string set) dict" where
  "depth2_children hint paths =
     fold (\<lambda>p d. let segs = segments (after_hint hint p) in
             if 2 \<le> length segs then AList.update (hd segs) (insert (segs ! 1) (dget {} (hd segs) d)) d else d)
       paths []"

definition descend_hint :: "string \<Rightarrow> string list \<Rightarrow> string" where
  "descend_hint hint paths =
     (case depth2_children hint paths of
        [] \<Rightarrow> hint
      | x # xs \<Rightarrow>
          (let (dom_top, dom_set) = argmax_from (\<lambda>t. card (snd t)) x xs;
               runner = fold max (map (card \<circ> snd) (filter (\<lambda>t. fst t \<noteq> dom_top) (x # xs))) 0
           in if 10 \<le> card dom_set \<and> 3 * (runner + 1) \<le> card dom_set then hint @ dom_top @ ''/'' else hint))"

definition count_pivots :: "chunk list \<Rightarrow> string \<Rightarrow> (string, nat) dict" where
  "count_pivots chunks target =
     fold (\<lambda>c d. if repo c \<noteq> target then d
                  else (case find_pivot (source_path c) of None \<Rightarrow> d
                        | Some (piv, _) \<Rightarrow> AList.update piv (dget 0 piv d + 1) d)) chunks []"

definition choose_pivot :: "enumerator \<Rightarrow> chunk list \<Rightarrow> string \<Rightarrow> string option \<Rightarrow> string option" where
  "choose_pivot enum chunks target query =
     (let hinted = (case pivot_hint_from_query (case query of None \<Rightarrow> [] | Some q \<Rightarrow> q) of
                      None \<Rightarrow> None
                    | Some hint \<Rightarrow>
                        (let paths = enum target hint 200 in
                         if min_chunks_for_summary < length paths then Some (descend_hint hint paths) else None))
      in case hinted of
           Some p \<Rightarrow> Some p
         | None \<Rightarrow>
             (case count_pivots chunks target of
                x # xs \<Rightarrow> Some (fst (argmax_from snd x xs))
              | [] \<Rightarrow> find (\<lambda>cand. min_chunks_for_summary <
                              length (enum target cand (min_chunks_for_summary + 1))) pivot_dirs))"

definition build_path_tree_summary_async ::
  "chunk list \<Rightarrow> string option \<Rightarrow> enumerator option \<Rightarrow> string option \<Rightarrow> string" where
  "build_path_tree_summary_async chunks target_repo store query =
     (case (store, target_repo) of
        (Some enum, Some target) \<Rightarrow>
          if target = [] then build_path_tree_summary chunks target_repo
          else (case choose_pivot enum chunks target query of
                  None \<Rightarrow> build_path_tree_summary chunks target_repo
                | Some pivot \<Rightarrow> render_tree_for_pivot (enum target pivot 5000) pivot target)
      | _ \<Rightarrow> build_path_tree_summary chunks target_repo)"

subsection \<open>The target repository\<close>

definition anchor_hit :: "string list \<Rightarrow> chunk \<Rightarrow> bool" where
  "anchor_hit anchors c \<longleftrightarrow> repo c \<noteq> [] \<and> (\<exists>a\<in>set anchors. py_in (py_lower a) (py_lower (repo c)))"

definition detect_target_repo :: "string list \<Rightarrow> chunk list \<Rightarrow> string option" where
  "detect_target_repo anchors chunks =
     (if anchors = [] then None
      else (case fold (\<lambda>c d. if anchor_hit anchors c then AList.update (repo c) (dget 0 (repo c) d + 1) d else d)
                   chunks ([] :: (string, nat) dict) of
              [] \<Rightarrow> None
            | x # xs \<Rightarrow> Some (fst (argmax_from (\<lambda>t. (snd t, fst t)) x xs))))"

subsection \<open>Facts\<close>

lemma first_pivot_Some:
  "first_pivot pivs p = Some (piv, rest) \<Longrightarrow>
   piv \<in> set pivs \<and> pivot_match p piv = Some rest"
  by (induction pivs) (auto split: option.splits)

lemma pivot_match_Some:
  assumes "pivot_match p piv = Some rest"
  shows "\<exists>pre post. p = pre @ piv @ post \<and> (pre = [] \<or> last pre = CHR ''/'') \<and> rest = segments post \<and> rest \<noteq> []"
proof -
  obtain i where i: "py_find piv p = Some i" "i = 0 \<or> p ! (i - 1) = CHR ''/''"
    "rest = segments (drop (i + length piv) p)" "rest \<noteq> []"
    using assms by (auto simp: pivot_match_def Let_def split: option.splits if_splits)
  obtain pre post where p: "p = pre @ piv @ post" "length pre = i" using py_find_Some [OF i(1)] by blast
  have "pre = [] \<or> last pre = CHR ''/''"
    using i(2) p by (cases "pre = []") (auto simp: nth_append last_conv_nth)
  moreover have "rest = segments post" using p i(3) by simp
  ultimately show ?thesis using p(1) i(4) by (intro exI [of _ pre] exI [of _ post]) simp
qed

text \<open>A reported pivot is a known directory of the path, at its start or after a slash, and the rest is
  the non-empty list of the path's segments after it. The converse fails: only the first occurrence of
  a pivot's name is looked at, so a directory that ends in the name hides the real one behind it.\<close>

theorem find_pivot_sound:
  "(find_pivot p = Some (piv, rest) \<longrightarrow>
      piv \<in> set pivot_dirs \<and> rest \<noteq> []
      \<and> (\<exists>pre post. p = pre @ piv @ post \<and> (pre = [] \<or> last pre = CHR ''/'') \<and> rest = segments post))
   \<and> find_pivot ''lib/modules/vpc/main.tf'' = Some (''modules/'', [''vpc'', ''main.tf''])
   \<and> find_pivot ''submodules/x/modules/vpc/main.tf'' = None"
proof (intro conjI impI)
  assume f: "find_pivot p = Some (piv, rest)"
  then have "piv \<in> set pivot_dirs \<and> pivot_match p piv = Some rest"
    by (intro first_pivot_Some) (simp add: find_pivot_def split: if_splits)
  with pivot_match_Some [of p piv rest]
  show "piv \<in> set pivot_dirs" "rest \<noteq> []"
    "\<exists>pre post. p = pre @ piv @ post \<and> (pre = [] \<or> last pre = CHR ''/'') \<and> rest = segments post"
    by blast+
next
  show "find_pivot ''lib/modules/vpc/main.tf'' = Some (''modules/'', [''vpc'', ''main.tf''])"
    by code_simp
  show "find_pivot ''submodules/x/modules/vpc/main.tf'' = None"
    by code_simp
qed

theorem find_pivot_sound_witness:
  "\<exists>pre post. ''apps/a/b'' = pre @ ''apps/'' @ post \<and> (pre = [] \<or> last pre = CHR ''/'') \<and> [''a'', ''b''] = segments post"
proof -
  have "find_pivot ''apps/a/b'' = Some (''apps/'', [''a'', ''b''])" by code_simp
  with find_pivot_sound [of "''apps/a/b''" "''apps/''" "[''a'', ''b'']"] show ?thesis by blast
qed

definition tops_spec :: "string \<Rightarrow> string list \<Rightarrow> string set" where
  "tops_spec pivot paths = hd ` (path_segs pivot ` set paths - {[]})"

definition subs_spec :: "string \<Rightarrow> string list \<Rightarrow> string \<Rightarrow> string set" where
  "subs_spec pivot paths tp =
     sub_of ` {s \<in> path_segs pivot ` set paths - {[]}. hd s = tp} - {[]}"

lemma collect_tops_snoc:
  "collect_tops pivot (paths @ [p]) = (case collect_tops pivot paths of (n, tops) \<Rightarrow>
     let segs = path_segs pivot p in if segs = [] then (n, tops) else (n + 1, add_top segs tops))"
  by (simp add: collect_tops_def)

lemma dget_setdefault: "dget v k (setdefault k' v d) = dget v k d"
  by (auto simp: dget_def map_of_setdefault split: option.splits)

lemma keys_setdefault: "fst ` set (setdefault k v d) = insert k (fst ` set d)"
proof (cases "map_of d k")
  case (Some w)
  then have "k \<in> fst ` set d" by (metis domI dom_map_of_conv_image_fst)
  then show ?thesis by (simp add: setdefault_def Some insert_absorb)
qed (simp add: setdefault_def)

lemma add_top_facts:
  "fst ` set (add_top segs d) = insert (hd segs) (fst ` set d)"
  "dict_ok d \<Longrightarrow> dict_ok (add_top segs d)"
  "dget {} tp (add_top segs d) = dget {} tp d \<union> (if hd segs = tp then {sub_of segs} - {[]} else {})"
  by (auto simp: add_top_def keys_update keys_setdefault dget_setdefault)

lemma collect_tops_spec:
  assumes "collect_tops pivot paths = (n, tops)"
  shows "n = length (filter (\<lambda>p. path_segs pivot p \<noteq> []) paths) \<and> fst ` set tops = tops_spec pivot paths
    \<and> dict_ok tops \<and> (\<forall>tp. dget {} tp tops = subs_spec pivot paths tp)"
  using assms
proof (induction paths arbitrary: n tops rule: rev_induct)
  case Nil
  then show ?case by (simp add: collect_tops_def tops_spec_def subs_spec_def dget_def)
next
  case (snoc p paths)
  obtain n0 tops0 where c: "collect_tops pivot paths = (n0, tops0)" by (cases "collect_tops pivot paths")
  note IH = snoc.IH [OF c]
  show ?case
  proof (cases "path_segs pivot p = []")
    case True
    then have "n = n0" "tops = tops0" using snoc.prems by (simp_all add: collect_tops_snoc c)
    with IH True show ?thesis by (simp add: tops_spec_def subs_spec_def)
  next
    case False
    then have nt: "n = n0 + 1" "tops = add_top (path_segs pivot p) tops0"
      using snoc.prems by (simp_all add: collect_tops_snoc c Let_def)
    have "tops_spec pivot (paths @ [p]) = insert (hd (path_segs pivot p)) (tops_spec pivot paths)"
      using False by (auto simp: tops_spec_def)
    moreover have "subs_spec pivot (paths @ [p]) tp = subs_spec pivot paths tp
        \<union> (if hd (path_segs pivot p) = tp then {sub_of (path_segs pivot p)} - {[]} else {})" for tp
      using False by (auto simp: subs_spec_def)
    ultimately show ?thesis
      using IH False by (simp add: nt add_top_facts)
  qed
qed

text \<open>The tree is complete for the paths it is given: when it is rendered, it has exactly one line per
  distinct first segment under the pivot, in name order, each with exactly its distinct second segments
  without a dot; it is rendered exactly when at least 4 of the paths lie under the pivot and they have
  at least 3 distinct first segments.\<close>

theorem render_tree_complete:
  "render_tree_for_pivot paths pivot target =
     (let n = length (filter (\<lambda>p. path_segs pivot p \<noteq> []) paths); T = tops_spec pivot paths in
      if n < 4 \<or> card T < 3 then []
      else join [CHR 0x0A]
        (tree_header pivot target (card T)
         # map (\<lambda>tp. subs_line tp (sorted_list_of_set (subs_spec pivot paths tp))) (sorted_list_of_set T)
         @ [complete_note pivot target n]))"
proof -
  obtain n tops where c: "collect_tops pivot paths = (n, tops)" by (cases "collect_tops pivot paths")
  note spec = collect_tops_spec [OF c]
  have card: "card (tops_spec pivot paths) = length tops"
    using spec by (metis distinct_card length_map list.set_map)
  have line: "tree_line tops = (\<lambda>tp. subs_line tp (sorted_list_of_set (subs_spec pivot paths tp)))"
    using spec by (simp add: tree_line_def fun_eq_iff)
  have keys: "fst ` set tops = tops_spec pivot paths" and n: "n = length (filter (\<lambda>p. path_segs pivot p \<noteq> []) paths)"
    using spec by simp_all
  show ?thesis
    by (simp add: render_tree_for_pivot_def c min_chunks_for_summary_def min_distinct_tops_def Let_def
        card line keys n)
qed

definition repo_hits :: "string list \<Rightarrow> chunk list \<Rightarrow> string \<Rightarrow> nat" where
  "repo_hits anchors chunks r = length (filter (\<lambda>c. anchor_hit anchors c \<and> repo c = r) chunks)"

lemma hit_counts:
  "let d = fold (\<lambda>c d. if anchor_hit anchors c then AList.update (repo c) (dget 0 (repo c) d + 1) d else d)
        chunks ([] :: (string, nat) dict)
   in dict_ok d \<and> fst ` set d = {r. 0 < repo_hits anchors chunks r} \<and> (\<forall>r. dget 0 r d = repo_hits anchors chunks r)"
proof (induction chunks rule: rev_induct)
  case Nil
  then show ?case by (simp add: repo_hits_def dget_def)
next
  case (snoc c chunks)
  have step: "repo_hits anchors (chunks @ [c]) r = repo_hits anchors chunks r
      + (if anchor_hit anchors c \<and> repo c = r then 1 else 0)" for r
    by (simp add: repo_hits_def)
  show ?case
    using snoc by (auto simp: Let_def step keys_update dict_ok_update split: if_splits)
qed

text \<open>The detected repository is one with the most chunks whose repository name contains an anchor,
  and of those the one with the greatest name; there is none exactly when no chunk matches.\<close>

theorem detect_target_repo_max:
  "(case detect_target_repo anchors chunks of
      None \<Rightarrow> (\<forall>r. repo_hits anchors chunks r = 0)
    | Some r \<Rightarrow> 0 < repo_hits anchors chunks r
        \<and> (\<forall>r'. 0 < repo_hits anchors chunks r' \<longrightarrow>
             (repo_hits anchors chunks r', r') \<le> (repo_hits anchors chunks r, r)))"
proof (cases "anchors = []")
  case True
  then show ?thesis by (simp add: detect_target_repo_def repo_hits_def anchor_hit_def)
next
  case False
  let ?d = "fold (\<lambda>c d. if anchor_hit anchors c then AList.update (repo c) (dget 0 (repo c) d + 1) d else d)
        chunks ([] :: (string, nat) dict)"
  have ok: "dict_ok ?d" and keys: "fst ` set ?d = {r. 0 < repo_hits anchors chunks r}"
    and val: "\<And>r. dget 0 r ?d = repo_hits anchors chunks r"
    using hit_counts [of anchors chunks] by (simp_all add: Let_def)
  have entry: "snd t = repo_hits anchors chunks (fst t)" if "t \<in> set ?d" for t
    using map_of_in_iff [OF ok, of "fst t" "snd t"] that val [of "fst t"] by (simp add: dget_def)
  show ?thesis
  proof (cases ?d)
    case Nil
    with keys False show ?thesis by (auto simp: detect_target_repo_def)
  next
    case (Cons x xs)
    let ?m = "argmax_from (\<lambda>t. (snd t, fst t)) x xs"
    have m: "?m \<in> set ?d" using argmax_from_in [of "\<lambda>t. (snd t, fst t)" x xs] by (simp add: Cons)
    have "(repo_hits anchors chunks r', r') \<le> (repo_hits anchors chunks (fst ?m), fst ?m)"
      if r': "0 < repo_hits anchors chunks r'" for r'
    proof -
      have "r' \<in> fst ` set ?d" unfolding keys using r' by simp
      then obtain t where t: "t \<in> set ?d" "fst t = r'" by blast
      have "(snd t, fst t) \<le> (snd ?m, fst ?m)"
        by (rule argmax_from_max) (use t(1) in \<open>simp add: Cons\<close>)
      then show ?thesis using entry [OF t(1)] entry [OF m] t(2) by simp
    qed
    moreover have "0 < repo_hits anchors chunks (fst ?m)"
    proof -
      have "fst ?m \<in> fst ` set ?d" using m by (rule imageI)
      then show ?thesis unfolding keys by simp
    qed
    ultimately show ?thesis using False by (simp add: detect_target_repo_def Cons)
  qed
qed

theorem detect_target_repo_max_witness:
  "\<not> (repo_hits [''infra''] [(sr_chunk (plain_hit ''1'' 0))\<lparr>repo := ''acme/infra''\<rparr>] ''acme/infra'' = 0)
   \<and> detect_target_repo [''infra''] [(sr_chunk (plain_hit ''1'' 0))\<lparr>repo := ''acme/infra''\<rparr>] \<noteq> None"
proof -
  have "anchor_hit [''infra''] ((sr_chunk (plain_hit ''1'' 0))\<lparr>repo := ''acme/infra''\<rparr>)" by code_simp
  then have "repo_hits [''infra''] [(sr_chunk (plain_hit ''1'' 0))\<lparr>repo := ''acme/infra''\<rparr>] ''acme/infra'' = 1"
    by (simp add: repo_hits_def)
  with detect_target_repo_max [of "[''infra'']" "[(sr_chunk (plain_hit ''1'' 0))\<lparr>repo := ''acme/infra''\<rparr>]"]
  show ?thesis by (auto split: option.splits)
qed

end
