(* ===== verification/Eval_Match.thy ===== *)
theory Eval_Match
  imports Py_Prelude
begin

text \<open>
  The golden queries of the evaluation (\<open>opsrag/eval/loaders.py\<close>): the path matching that every
  retrieval metric uses, the golden record and the load-time validation. YAML parsing is left out: a
  golden entry has the types its dataclass declares.
\<close>

subsection \<open>Path matching\<close>

definition canonical_path :: "string \<Rightarrow> string" where
  "canonical_path s =
     (if s = [] then []
      else (let lowered = py_lower (py_strip s);
                stem = (if endswith lowered ''.md'' then take (length lowered - 3) lowered else lowered)
            in strip_char (CHR ''/'') stem))"

text \<open>\<open>s.rsplit("/", 1)[-1]\<close> and, when there is a slash, \<open>s.rsplit("/", 1)[0]\<close>.\<close>

definition last_segment :: "string \<Rightarrow> string" where
  "last_segment s = rev (takeWhile (\<lambda>c. c \<noteq> CHR ''/'') (rev s))"

definition before_last :: "string \<Rightarrow> string" where
  "before_last s =
     (if CHR ''/'' \<in> set s then rev (tl (dropWhile (\<lambda>c. c \<noteq> CHR ''/'') (rev s))) else [])"

definition is_digit :: "char \<Rightarrow> bool" where
  "is_digit c = (let n = (of_char c :: nat) in 48 \<le> n \<and> n \<le> 57)"

definition page_id :: "string \<Rightarrow> string option" where
  "page_id canon =
     (let leaf = last_segment canon; ds = takeWhile is_digit leaf in
      if ds \<noteq> [] \<and> prefix (ds @ '':'') leaf then Some ds else None)"

definition is_bare_leaf :: "string \<Rightarrow> bool" where
  "is_bare_leaf e \<longleftrightarrow> CHR ''/'' \<notin> set e \<and> CHR '':'' \<notin> set e"

definition suffix_match :: "string \<Rightarrow> string \<Rightarrow> bool" where
  "suffix_match e r \<longleftrightarrow> (\<not> is_bare_leaf e \<and> endswith r (''/'' @ e)) \<or> endswith r ('':'' @ e)"

definition page_match :: "string \<Rightarrow> string \<Rightarrow> bool" where
  "page_match e r =
     (case (page_id e, page_id r) of
        (Some p, Some q) \<Rightarrow> p = q \<and> (before_last e = [] \<or> endswith (before_last r) (before_last e))
      | _ \<Rightarrow> False)"

definition match_path :: "string \<Rightarrow> string \<Rightarrow> bool" where
  "match_path expected retrieved =
     (let e = canonical_path expected; r = canonical_path retrieved in
      if e = [] \<or> r = [] then False
      else if e = r then True
      else if suffix_match e r then True
      else page_match e r)"

subsection \<open>Goldens and their validation\<close>

record golden_query =
  g_id :: string
  g_category :: string
  g_query :: string
  expected_sources :: "string list"
  acceptable_sources :: "string list"
  must_contain :: "string list"
  must_not_contain :: "string list"
  max_retrieved_sources :: "int option"
  g_notes :: string
  expected_baseline_faith :: "real option"

text \<open>The two ways a golden is refused, with what the message shows, and the two warnings.\<close>

datatype golden_error =
    ChunkIdShaped string string
  | ContextualPrefix string string string

datatype golden_warning = BareFilename string string | CapWithoutGuard string

definition re_search :: "(string \<Rightarrow> bool) \<Rightarrow> string \<Rightarrow> bool" where
  "re_search here s = list_ex here (suffixes s)"

definition starts_then :: "string \<Rightarrow> (string \<Rightarrow> bool) \<Rightarrow> string \<Rightarrow> bool" where
  "starts_then lit cont s \<longleftrightarrow> prefix lit s \<and> cont (drop (length lit) s)"

definition digit_next :: "string \<Rightarrow> bool" where
  "digit_next s \<longleftrightarrow> s \<noteq> [] \<and> is_digit (hd s)"

definition assign_next :: "string \<Rightarrow> bool" where
  "assign_next s = (case dropWhile is_space s of [] \<Rightarrow> False | c # _ \<Rightarrow> c = CHR ''='' \<or> c = CHR '':'')"

definition chunk_id_patterns :: "(string \<Rightarrow> bool) list" where
  "chunk_id_patterns =
     [re_search (\<lambda>s. starts_then ''::child-'' digit_next s \<or> starts_then ''::parent-'' digit_next s),
      re_search (starts_then ''chunk_id'' assign_next),
      re_search (starts_then ''parent_chunk_id'' assign_next)]"

definition contextual_prefix_anchors :: "string list" where
  "contextual_prefix_anchors =
     [''<context>'', ''</context>'', ''this chunk is from'', ''this section describes'']"

definition chunk_id_shaped :: "string \<Rightarrow> bool" where
  "chunk_id_shaped src = list_ex (\<lambda>pat. pat src) chunk_id_patterns"

definition contextual_prefix :: "string \<Rightarrow> string option" where
  "contextual_prefix anchor = find (\<lambda>p. py_in p (py_lower anchor)) contextual_prefix_anchors"

definition golden_warnings :: "string \<Rightarrow> golden_query \<Rightarrow> golden_warning list" where
  "golden_warnings loc g =
     map (BareFilename loc) (filter is_bare_leaf (expected_sources g))
     @ (if max_retrieved_sources g \<noteq> None \<and> must_not_contain g = [] then [CapWithoutGuard loc] else [])"

definition validate_golden :: "golden_query \<Rightarrow> string \<Rightarrow> golden_error + golden_warning list" where
  "validate_golden g file_name =
     (let loc = file_name @ ''::'' @ g_id g in
      case find chunk_id_shaped (expected_sources g) of
        Some src \<Rightarrow> Inl (ChunkIdShaped loc src)
      | None \<Rightarrow>
          (case find (\<lambda>a. contextual_prefix a \<noteq> None) (must_contain g) of
             Some anchor \<Rightarrow> Inl (ContextualPrefix loc anchor (the (contextual_prefix anchor)))
           | None \<Rightarrow> Inr (golden_warnings loc g)))"

text \<open>The files in the order they are read, each with its entries; a missing file has none.\<close>

fun load_golden :: "(string \<times> golden_query list) list \<Rightarrow> golden_error + golden_query list" where
  "load_golden [] = Inr []"
| "load_golden ((file_name, entries) # files) =
     (case traverse (\<lambda>g. case validate_golden g file_name of Inl e \<Rightarrow> Inl e | Inr _ \<Rightarrow> Inr g) entries of
        Inl e \<Rightarrow> Inl e
      | Inr gs \<Rightarrow> (case load_golden files of Inl e \<Rightarrow> Inl e | Inr rest \<Rightarrow> Inr (gs @ rest)))"

subsection \<open>Test cases\<close>

text \<open>The fields of an \<open>LLMTestCase\<close> that the metrics read. The metadata that \<open>to_llm_test_case\<close>
  writes always has \<open>retrieved_sources\<close>; a hand-made one may lack it.\<close>

record test_case =
  tc_output :: string
  tc_context :: "string list"
  tc_expected :: "string list"
  tc_acceptable :: "string list"
  tc_retrieved :: "string list option"
  tc_must :: "string list"
  tc_must_not :: "string list"
  tc_cap :: "int option"

definition to_llm_test_case ::
  "golden_query \<Rightarrow> string \<Rightarrow> string list \<Rightarrow> string list option \<Rightarrow> test_case" where
  "to_llm_test_case g actual_output retrieval_context retrieved_sources =
     \<lparr>tc_output = actual_output, tc_context = retrieval_context, tc_expected = expected_sources g,
      tc_acceptable = acceptable_sources g,
      tc_retrieved = Some (case retrieved_sources of Some rs \<Rightarrow> rs | None \<Rightarrow> retrieval_context),
      tc_must = must_contain g, tc_must_not = must_not_contain g, tc_cap = max_retrieved_sources g\<rparr>"

subsection \<open>Facts\<close>

lemma last_segment_suffix:
  "\<exists>pre. s = pre @ last_segment s \<and> (pre = [] \<or> last pre = CHR ''/'')"
proof -
  let ?P = "\<lambda>c. c \<noteq> CHR ''/''"
  have "rev s = takeWhile ?P (rev s) @ dropWhile ?P (rev s)" by simp
  then have s: "s = rev (dropWhile ?P (rev s)) @ last_segment s"
    unfolding last_segment_def by (metis rev_append rev_rev_ident)
  have "dropWhile ?P (rev s) = [] \<or> hd (dropWhile ?P (rev s)) = CHR ''/''"
    using hd_dropWhile [of ?P "rev s"] by blast
  then have "rev (dropWhile ?P (rev s)) = [] \<or> last (rev (dropWhile ?P (rev s))) = CHR ''/''"
    by (auto simp: last_rev)
  with s show ?thesis by blast
qed

lemma takeWhile_all: "\<forall>x\<in>set xs. P x \<Longrightarrow> takeWhile P xs = xs"
  by (simp add: takeWhile_eq_all_conv)

lemma last_segment_append_slash: "last_segment (p @ CHR ''/'' # e) = last_segment e"
  by (cases "CHR ''/'' \<in> set e")
     (auto simp: last_segment_def takeWhile_append takeWhile_all)

lemma last_segment_no_slash: "CHR ''/'' \<notin> set e \<Longrightarrow> last_segment e = e"
proof -
  assume "CHR ''/'' \<notin> set e"
  then have "\<forall>c\<in>set (rev e). c \<noteq> CHR ''/''" by auto
  then show ?thesis by (simp add: last_segment_def takeWhile_all)
qed

lemma last_segment_append: "CHR ''/'' \<in> set e \<Longrightarrow> last_segment (p @ e) = last_segment e"
  by (auto simp: last_segment_def takeWhile_append)

lemma page_id_leaf: "page_id e = page_id (last_segment e)"
proof -
  have "CHR ''/'' \<notin> set (last_segment e)"
    unfolding last_segment_def by (auto dest: set_takeWhileD)
  then have "last_segment (last_segment e) = last_segment e" by (rule last_segment_no_slash)
  then show ?thesis by (simp add: page_id_def)
qed

text \<open>Pages are told apart. A golden and a retrieved path that both carry a page id match only if the
  ids are equal, except for a golden without a directory that the retrieved leaf repeats after a further
  colon. And whatever matches is related in one of the three documented ways: equal canonical forms, a
  suffix at a slash or colon, or the same page id with the golden's directory a suffix of the retrieved one.\<close>

theorem match_page_ids:
  assumes "match_path expected retrieved"
  defines "e \<equiv> canonical_path expected" and "r \<equiv> canonical_path retrieved"
  shows "e \<noteq> [] \<and> r \<noteq> []
    \<and> (e = r \<or> (\<exists>pre. r = pre @ ''/'' @ e) \<or> (\<exists>pre. r = pre @ '':'' @ e)
       \<or> (page_id e = page_id r \<and> page_id e \<noteq> None
          \<and> (before_last e = [] \<or> (\<exists>pre. before_last r = pre @ before_last e))))
    \<and> (page_id e = page_id r \<or> page_id e = None \<or> page_id r = None
       \<or> (CHR ''/'' \<notin> set e \<and> (\<exists>pre. last_segment r = pre @ '':'' @ e)))"
proof -
  have m: "e \<noteq> []" "r \<noteq> []" "e = r \<or> suffix_match e r \<or> page_match e r"
    using assms by (auto simp: match_path_def Let_def split: if_splits)
  have page: "page_id e = page_id r \<and> page_id e \<noteq> None
      \<and> (before_last e = [] \<or> (\<exists>pre. before_last r = pre @ before_last e))" if "page_match e r"
    using that by (auto simp: page_match_def endswith_def suffix_def split: option.splits)
  have slash: "page_id e = page_id r" if "r = pre @ ''/'' @ e" for pre
    using that last_segment_append_slash [of pre e] by (simp add: page_id_def)
  have colon: "page_id e = page_id r \<or> (CHR ''/'' \<notin> set e \<and> (\<exists>pre. last_segment r = pre @ '':'' @ e))"
    if r: "r = pre @ '':'' @ e" for pre
  proof (cases "CHR ''/'' \<in> set e")
    case True
    with r last_segment_append [of e "pre @ '':''"] show ?thesis by (simp add: page_id_def)
  next
    case False
    obtain front where f: "r = front @ last_segment r" "front = [] \<or> last front = CHR ''/''"
      using last_segment_suffix [of r] by blast
    have no: "CHR ''/'' \<notin> set ('':'' @ e)" using False by simp
    have "length front \<le> length pre"
    proof (rule ccontr)
      assume "\<not> length front \<le> length pre"
      then have ne: "front \<noteq> []" and l: "length pre \<le> length front - 1" by auto
      have "last front = r ! (length front - 1)"
        using ne by (subst f(1)) (simp add: nth_append last_conv_nth)
      also have "\<dots> = ('':'' @ e) ! (length front - 1 - length pre)"
        using l by (subst r) (simp add: nth_append)
      also have "\<dots> \<in> set ('':'' @ e)"
      proof (rule nth_mem)
        have "length front \<le> length r" by (subst f(1)) simp
        also have "length r = length pre + length ('':'' @ e)" using r by simp
        finally show "length front - 1 - length pre < length ('':'' @ e)" using ne by (cases front) auto
      qed
      finally show False using no f(2) ne by metis
    qed
    then have "prefix front pre"
      using f(1) r by (metis append_eq_append_conv_if prefixI take_is_prefix prefix_length_prefix)
    then obtain mid where "pre = front @ mid" by (auto simp: prefix_def)
    with f(1) r have "last_segment r = mid @ '':'' @ e" by (metis append_assoc same_append_eq)
    with False show ?thesis by blast
  qed
  show ?thesis
    using m page slash colon unfolding suffix_match_def endswith_def suffix_def by blast
qed

theorem match_page_ids_witness:
  "match_path ''12345:foo'' ''Confluence:SRE/12345:fo.md'' \<and> \<not> match_path ''12345:foo'' ''99999:foo''
   \<and> page_id (canonical_path ''12345:foo'') = page_id (canonical_path ''Confluence:SRE/12345:fo.md'')"
proof -
  have m: "match_path ''12345:foo'' ''Confluence:SRE/12345:fo.md''" by code_simp
  have "page_id (canonical_path ''12345:foo'') \<noteq> None"
    "page_id (canonical_path ''Confluence:SRE/12345:fo.md'') \<noteq> None"
    "last_segment (canonical_path ''Confluence:SRE/12345:fo.md'') = ''12345:fo''"
    "canonical_path ''12345:foo'' = ''12345:foo''"
    by code_simp+
  moreover from this have "\<nexists>pre. last_segment (canonical_path ''Confluence:SRE/12345:fo.md'')
      = pre @ '':'' @ canonical_path ''12345:foo''"
    by (auto dest!: arg_cong [where f = length])
  moreover have "\<not> match_path ''12345:foo'' ''99999:foo''" by code_simp
  ultimately show ?thesis using match_page_ids [OF m] m by auto
qed

lemma bare_leaf_page_id: "is_bare_leaf e \<Longrightarrow> page_id e = None"
proof -
  assume bare: "is_bare_leaf e"
  then have "CHR '':'' \<notin> set (last_segment e)"
    using last_segment_suffix [of e] by (metis Un_iff is_bare_leaf_def set_append)
  then have "\<not> prefix (ds @ '':'') (last_segment e)" for ds
    by (metis UnI2 append_assoc in_set_conv_decomp prefix_def set_append append_Cons)
  then show ?thesis by (simp add: page_id_def Let_def)
qed

text \<open>A golden written as a bare file name is not matched by a path that merely ends in that file name
  after a slash: it matches exactly an equal canonical form or one that ends in it after a colon. It can
  match, which the warning at load time and its comment deny. And the page-id rule has no boundary
  before the golden's directory.\<close>

theorem match_bare_leaf:
  "(is_bare_leaf (canonical_path f) \<longrightarrow>
      match_path f r = (canonical_path f \<noteq> [] \<and> canonical_path r \<noteq> []
        \<and> (canonical_path f = canonical_path r \<or> endswith (canonical_path r) ('':'' @ canonical_path f))))
   \<and> \<not> match_path ''values.yaml'' ''apps/auth/values.yaml''
   \<and> match_path ''values.yaml'' ''Values.yaml'' \<and> match_path ''values.yaml'' ''apps:values.yaml''
   \<and> match_path ''sre/12345:foo'' ''confluence:notsre/12345:bar''"
proof (intro conjI impI)
  assume "is_bare_leaf (canonical_path f)"
  then show "match_path f r = (canonical_path f \<noteq> [] \<and> canonical_path r \<noteq> []
        \<and> (canonical_path f = canonical_path r \<or> endswith (canonical_path r) ('':'' @ canonical_path f)))"
    by (simp add: match_path_def Let_def suffix_match_def page_match_def bare_leaf_page_id)
qed (code_simp+)

theorem match_bare_leaf_witness:
  "match_path ''values.yaml'' ''apps/auth/values.yaml''
     = endswith (canonical_path ''apps/auth/values.yaml'') '':values.yaml''
   \<and> endswith (canonical_path ''apps/auth/values.yaml'') '':values.yaml'' = False"
proof -
  have "is_bare_leaf (canonical_path ''values.yaml'')" "canonical_path ''values.yaml'' = ''values.yaml''"
    "canonical_path ''apps/auth/values.yaml'' = ''apps/auth/values.yaml''"
    "\<not> endswith ''apps/auth/values.yaml'' '':values.yaml''"
    by code_simp+
  with match_bare_leaf [of "''values.yaml''" "''apps/auth/values.yaml''"] show ?thesis by simp
qed

lemma validate_golden_ok:
  "is_ok (validate_golden g f) \<longleftrightarrow>
     (\<forall>s\<in>set (expected_sources g). \<not> chunk_id_shaped s)
     \<and> (\<forall>a\<in>set (must_contain g). contextual_prefix a = None)"
  by (auto simp: validate_golden_def Let_def find_None_iff dest!: find_SomeD split: option.splits)

lemma load_golden_ok:
  "load_golden files = Inr gs \<Longrightarrow>
   gs = concat (map snd files) \<and> (\<forall>(f, entries)\<in>set files. \<forall>g\<in>set entries. is_ok (validate_golden g f))"
proof (induction files arbitrary: gs)
  case (Cons fe files)
  obtain f entries where fe: "fe = (f, entries)" by (cases fe)
  let ?v = "\<lambda>g. case validate_golden g f of Inl e \<Rightarrow> Inl e | Inr _ \<Rightarrow> Inr g"
  have t: "traverse ?v xs = Inr ys \<Longrightarrow> ys = xs \<and> (\<forall>g\<in>set xs. is_ok (validate_golden g f))" for xs ys
    by (induction xs arbitrary: ys) (auto split: sum.splits)
  obtain ys rest where "traverse ?v entries = Inr ys" "load_golden files = Inr rest" "gs = ys @ rest"
    using Cons.prems by (auto simp: fe split: sum.splits)
  with t [of entries ys] Cons.IH [of rest] show ?case by (auto simp: fe)
qed simp

end
