(* ===== verification/Eval_Metrics.thy ===== *)
theory Eval_Metrics
  imports Eval_Match
begin

text \<open>
  The retrieval and answer metrics of the evaluation (\<open>opsrag/eval/metrics/ranking.py\<close>,
  \<open>source_recall.py\<close>, \<open>must_contain.py\<close>), the aggregation and the regression gate
  (\<open>opsrag/eval/runner.py\<close>, \<open>opsrag/eval/report.py\<close>) and the offline retrieval scores
  (\<open>opsrag/eval/retrieval_offline.py\<close>). A metric object is fresh for each test case and is its outcome:
  score, success and the skipped mark; the reason texts are left out. What the retriever and the
  reranker return for a golden is a parameter.
\<close>

record outcome =
  m_score :: real
  m_success :: bool
  m_skipped :: bool

definition skipped_outcome :: outcome where
  "skipped_outcome = \<lparr>m_score = 1, m_success = True, m_skipped = True\<rparr>"

definition scored :: "real \<Rightarrow> bool \<Rightarrow> outcome" where
  "scored s ok = \<lparr>m_score = s, m_success = ok, m_skipped = False\<rparr>"

subsection \<open>Ranking metrics\<close>

definition retrieved_of :: "test_case \<Rightarrow> string list" where
  "retrieved_of tc = (case tc_retrieved tc of Some rs \<Rightarrow> rs | None \<Rightarrow> tc_context tc)"

definition meta_lists :: "test_case \<Rightarrow> string list \<times> string list \<times> string list" where
  "meta_lists tc = (tc_expected tc, tc_acceptable tc, retrieved_of tc)"

definition is_relevant :: "string \<Rightarrow> string list \<Rightarrow> string list \<Rightarrow> bool" where
  "is_relevant r expected acceptable \<longleftrightarrow>
     list_ex (\<lambda>e. match_path e r) expected \<or> list_ex (\<lambda>a. match_path a r) acceptable"

definition expected_hits_in_topk :: "string list \<Rightarrow> string list \<Rightarrow> int \<Rightarrow> string list" where
  "expected_hits_in_topk expected retrieved k =
     (let hits = slice_to k retrieved in filter (\<lambda>e. list_ex (match_path e) hits) expected)"

definition any_acceptable_in_topk :: "string list \<Rightarrow> string list \<Rightarrow> int \<Rightarrow> bool" where
  "any_acceptable_in_topk acceptable retrieved k =
     (let hits = slice_to k retrieved in list_ex (\<lambda>a. list_ex (match_path a) hits) acceptable)"

definition precision_measure :: "int \<Rightarrow> real \<Rightarrow> test_case \<Rightarrow> outcome result" where
  "precision_measure k threshold tc =
     (let (expected, acceptable, retrieved) = meta_lists tc in
      if expected = [] \<and> acceptable = [] then Inr skipped_outcome
      else if retrieved = [] then Inr (scored 0 False)
      else (let shown = slice_to k retrieved;
                hits = filter (\<lambda>r. is_relevant r expected acceptable) shown
            in if shown = [] then Inl (Raised ''ZeroDivisionError'')
               else (let s = real (length hits) / real (length shown) in Inr (scored s (threshold \<le> s)))))"

definition recall_measure :: "int \<Rightarrow> real \<Rightarrow> test_case \<Rightarrow> outcome result" where
  "recall_measure k threshold tc =
     (let (expected, acceptable, retrieved) = meta_lists tc in
      if expected \<noteq> []
      then (let s = real (length (expected_hits_in_topk expected retrieved k)) / real (length expected)
            in Inr (scored s (threshold \<le> s)))
      else if acceptable \<noteq> []
      then (let found = any_acceptable_in_topk acceptable retrieved k
            in Inr (scored (if found then 1 else 0) found))
      else Inr skipped_outcome)"

definition restraint_measure :: "test_case \<Rightarrow> outcome result" where
  "restraint_measure tc =
     (case tc_cap tc of
        None \<Rightarrow> Inr skipped_outcome
      | Some cap \<Rightarrow> (let ok = int (length (retrieved_of tc)) \<le> cap
                     in Inr (scored (if ok then 1 else 0) ok)))"

text \<open>The gain of each position: an expected source earns once, the acceptable set earns once.\<close>

fun ndcg_gains :: "string list \<Rightarrow> string list \<Rightarrow> string set \<Rightarrow> bool \<Rightarrow> string list \<Rightarrow> nat list" where
  "ndcg_gains expected acceptable hit used [] = []"
| "ndcg_gains expected acceptable hit used (r # rs) =
     (case find (\<lambda>e. e \<notin> hit \<and> match_path e r) expected of
        Some e \<Rightarrow> 1 # ndcg_gains expected acceptable (insert e hit) used rs
      | None \<Rightarrow>
          if \<not> used \<and> list_ex (\<lambda>a. match_path a r) acceptable
          then 1 # ndcg_gains expected acceptable hit True rs
          else 0 # ndcg_gains expected acceptable hit used rs)"

text \<open>\<open>sum(g / math.log2(i + 1) for i, g in enumerate(gains, start=i))\<close>\<close>

fun dcg_from :: "nat \<Rightarrow> nat list \<Rightarrow> real" where
  "dcg_from i [] = 0"
| "dcg_from i (g # gs) = real g / log 2 (real i + 1) + dcg_from (Suc i) gs"

definition ideal_dcg :: "nat \<Rightarrow> real" where
  "ideal_dcg n = dcg_from 1 (replicate n 1)"

definition ndcg_measure :: "int \<Rightarrow> real \<Rightarrow> test_case \<Rightarrow> outcome result" where
  "ndcg_measure k threshold tc =
     (let (expected, acceptable, retrieved) = meta_lists tc in
      if expected = [] \<and> acceptable = [] then Inr skipped_outcome
      else (let gains = ndcg_gains expected acceptable {} False (slice_to k retrieved);
                dcg = dcg_from 1 gains;
                relevant_n = int (length expected) + (if acceptable \<noteq> [] then 1 else 0);
                idcg = ideal_dcg (nat (min k relevant_n));
                s = (if 0 < idcg then dcg / idcg else 0)
            in Inr (scored s (threshold \<le> s))))"

fun first_relevant :: "nat \<Rightarrow> (string \<Rightarrow> bool) \<Rightarrow> string list \<Rightarrow> nat option" where
  "first_relevant i rel [] = None"
| "first_relevant i rel (r # rs) = (if rel r then Some i else first_relevant (Suc i) rel rs)"

definition mrr_measure :: "real \<Rightarrow> test_case \<Rightarrow> outcome result" where
  "mrr_measure threshold tc =
     (let (expected, acceptable, retrieved) = meta_lists tc in
      if expected = [] \<and> acceptable = [] then Inr skipped_outcome
      else (case first_relevant 1 (\<lambda>r. is_relevant r expected acceptable) retrieved of
              Some i \<Rightarrow> Inr (scored (1 / real i) (threshold \<le> 1 / real i))
            | None \<Rightarrow> Inr (scored 0 False)))"

subsection \<open>Source recall and substring metrics\<close>

definition source_recall_measure :: "real \<Rightarrow> test_case \<Rightarrow> outcome result" where
  "source_recall_measure threshold tc =
     (let expected = tc_expected tc; acceptable = tc_acceptable tc; retrieved = retrieved_of tc in
      if expected \<noteq> []
      then (let hits = filter (\<lambda>e. list_ex (match_path e) retrieved) expected;
                s = real (length hits) / real (length expected)
            in Inr (scored s (threshold \<le> s)))
      else if acceptable \<noteq> []
      then (let matched = filter (\<lambda>a. list_ex (match_path a) retrieved) acceptable
            in Inr (scored (if matched \<noteq> [] then 1 else 0) (matched \<noteq> [])))
      else Inr skipped_outcome)"

definition contains_sub :: "bool \<Rightarrow> string \<Rightarrow> string \<Rightarrow> bool" where
  "contains_sub case_sensitive txt sub =
     (if case_sensitive then py_in sub txt else py_in (py_lower sub) (py_lower txt))"

text \<open>These two have no skipped mark: without configured substrings they score 1.\<close>

definition must_contain_measure :: "real \<Rightarrow> bool \<Rightarrow> test_case \<Rightarrow> outcome result" where
  "must_contain_measure threshold cs tc =
     (let required = tc_must tc in
      if required = [] then Inr (scored 1 True)
      else (let missing = filter (\<lambda>s. \<not> contains_sub cs (tc_output tc) s) required;
                present = length required - length missing;
                s = real present / real (length required)
            in Inr (scored s (threshold \<le> s))))"

definition must_not_contain_measure :: "real \<Rightarrow> bool \<Rightarrow> test_case \<Rightarrow> outcome result" where
  "must_not_contain_measure threshold cs tc =
     (let forbidden = tc_must_not tc in
      if forbidden = [] then Inr (scored 1 True)
      else (let hits = filter (contains_sub cs (tc_output tc)) forbidden;
                s = real (length forbidden - length hits) / real (length forbidden)
            in Inr (scored s (threshold \<le> s))))"

subsection \<open>Aggregation and the gate\<close>

record metric_result = outcome + m_name :: string

text \<open>The suite of the runner (\<open>opsrag/eval/runner.py\<close>); the judge is a parameter.\<close>

definition metric_suite :: "(test_case \<Rightarrow> outcome result) \<Rightarrow> (string \<times> (test_case \<Rightarrow> outcome result)) list" where
  "metric_suite judge =
     [(''SourceRecall'', source_recall_measure (8 / 10)),
      (''Precision@5'', precision_measure 5 (4 / 10)),
      (''Recall@5'', recall_measure 5 (7 / 10)),
      (''Recall@10'', recall_measure 10 (7 / 10)),
      (''NDCG@5'', ndcg_measure 5 (5 / 10)),
      (''MRR'', mrr_measure (5 / 10)),
      (''RetrievalRestraint'', restraint_measure),
      (''MustContain'', must_contain_measure 1 False),
      (''MustNotContain'', must_not_contain_measure 1 False),
      (''Faithfulness'', judge)]"

definition metric_result_of :: "string \<Rightarrow> outcome result \<Rightarrow> metric_result" where
  "metric_result_of name r =
     (case r of
        Inr m \<Rightarrow> \<lparr>m_score = m_score m, m_success = m_success m, m_skipped = m_skipped m, m_name = name\<rparr>
      | Inl _ \<Rightarrow> \<lparr>m_score = 0, m_success = False, m_skipped = False, m_name = name\<rparr>)"

definition run_metrics :: "(test_case \<Rightarrow> outcome result) \<Rightarrow> test_case \<Rightarrow> metric_result list" where
  "run_metrics judge tc = map (\<lambda>(name, measure). metric_result_of name (measure tc)) (metric_suite judge)"

text \<open>The answer of the service under test; \<open>None\<close> is a query that raised.\<close>

record api_response =
  rs_answer :: string
  rs_sources :: "string list"
  rs_content :: "(string option \<times> string option) list"
  rs_query_type :: "string option"

record eval_run =
  er_id :: string
  er_category :: string
  er_failed :: bool
  er_metrics :: "metric_result list"
  er_variant :: "string option"

definition context_of :: "api_response \<Rightarrow> string list" where
  "context_of resp =
     (if rs_content resp = [] then rs_sources resp
      else map (\<lambda>(src, body). ''['' @ (case src of Some s \<Rightarrow> s | None \<Rightarrow> ''?'') @ '']'' @ [CHR 0x0A]
             @ (case body of Some b \<Rightarrow> b | None \<Rightarrow> [])) (rs_content resp))"

definition case_of :: "golden_query \<Rightarrow> api_response \<Rightarrow> test_case" where
  "case_of g resp = to_llm_test_case g (rs_answer resp) (context_of resp) (Some (rs_sources resp))"

definition run_one ::
  "(test_case \<Rightarrow> outcome result) \<Rightarrow> (golden_query \<Rightarrow> api_response option) \<Rightarrow> golden_query \<Rightarrow> eval_run" where
  "run_one judge query g =
     (case query g of
        None \<Rightarrow> \<lparr>er_id = g_id g, er_category = g_category g, er_failed = True, er_metrics = [], er_variant = None\<rparr>
      | Some resp \<Rightarrow>
          \<lparr>er_id = g_id g, er_category = g_category g, er_failed = False,
           er_metrics = run_metrics judge (case_of g resp), er_variant = rs_query_type resp\<rparr>)"

definition run_golden ::
  "(test_case \<Rightarrow> outcome result) \<Rightarrow> (golden_query \<Rightarrow> api_response option) \<Rightarrow> golden_query list \<Rightarrow> eval_run list" where
  "run_golden judge query goldens = map (run_one judge query) goldens"

definition default_gate_thresholds :: "(string, real) dict" where
  "default_gate_thresholds =
     [(''SourceRecall'', 80 / 100), (''Precision@5'', 40 / 100), (''Recall@5'', 60 / 100),
      (''Recall@10'', 70 / 100), (''NDCG@5'', 50 / 100), (''MRR'', 50 / 100),
      (''RetrievalRestraint'', 1), (''Faithfulness'', 70 / 100)]"

definition mean :: "real list \<Rightarrow> real" where
  "mean xs = sum_list xs / real (length xs)"

definition scored_cases :: "eval_run list \<Rightarrow> string \<Rightarrow> metric_result list" where
  "scored_cases results name =
     filter (\<lambda>m. m_name m = name \<and> \<not> m_skipped m) (concat (map er_metrics results))"

datatype gate_failure = NoScoredCases string | BelowThreshold string real real nat

definition check_one :: "eval_run list \<Rightarrow> string \<times> real \<Rightarrow> gate_failure list" where
  "check_one results nf =
     (let (name, least) = nf; scores = map m_score (scored_cases results name) in
      if scores = [] then [NoScoredCases name]
      else if mean scores < least then [BelowThreshold name (mean scores) least (length scores)] else [])"

definition check_thresholds :: "eval_run list \<Rightarrow> (string, real) dict option \<Rightarrow> gate_failure list" where
  "check_thresholds results thresholds =
     concat (map (check_one results)
       (case thresholds of Some t \<Rightarrow> t | None \<Rightarrow> default_gate_thresholds))"

text \<open>The gated run of the command line (\<open>opsrag/eval/cli.py\<close>), after its cache probe: the exit code.\<close>

definition gate_failures ::
  "(test_case \<Rightarrow> outcome result) \<Rightarrow> (golden_query \<Rightarrow> api_response option) \<Rightarrow> golden_query list \<Rightarrow> gate_failure list" where
  "gate_failures judge query goldens = check_thresholds (run_golden judge query goldens) None"

definition cmd_run ::
  "(test_case \<Rightarrow> outcome result) \<Rightarrow> (golden_query \<Rightarrow> api_response option) \<Rightarrow> golden_query list \<Rightarrow> bool \<Rightarrow> nat" where
  "cmd_run judge query goldens gate =
     (if goldens = [] then 2 else if gate \<and> gate_failures judge query goldens \<noteq> [] then 1 else 0)"

definition agg_metric :: "eval_run list \<Rightarrow> string \<Rightarrow> real \<times> real" where
  "agg_metric results name =
     (let ms = scored_cases results name in
      if ms = [] then (0, 0)
      else (mean (map m_score ms), real (length (filter m_success ms)) / real (length ms)))"

definition skipped_count :: "eval_run list \<Rightarrow> string \<Rightarrow> nat" where
  "skipped_count results name =
     length (filter (\<lambda>m. m_name m = name \<and> m_skipped m) (concat (map er_metrics results)))"

definition group_runs :: "(eval_run \<Rightarrow> string) \<Rightarrow> eval_run list \<Rightarrow> (string, eval_run list) dict" where
  "group_runs key results =
     fold (\<lambda>r d. AList.update (key r) (dget [] (key r) d @ [r]) d) results []"

definition by_category :: "eval_run list \<Rightarrow> (string, eval_run list) dict" where
  "by_category = group_runs er_category"

definition by_prompt_variant :: "eval_run list \<Rightarrow> (string, eval_run list) dict" where
  "by_prompt_variant =
     group_runs (\<lambda>r. case er_variant r of None \<Rightarrow> ''(none)'' | Some v \<Rightarrow> if v = [] then ''(none)'' else v)"

subsection \<open>Offline retrieval scores\<close>

fun dedupe_from :: "string set \<Rightarrow> string list \<Rightarrow> string list" where
  "dedupe_from seen [] = []"
| "dedupe_from seen (r # rs) =
     (if canonical_path r \<in> seen then dedupe_from seen rs
      else r # dedupe_from (insert (canonical_path r) seen) rs)"

definition dedupe_to_documents :: "string list \<Rightarrow> string list" where
  "dedupe_to_documents retrieved = dedupe_from {} retrieved"

definition is_scored :: "golden_query \<Rightarrow> bool" where
  "is_scored g \<longleftrightarrow> expected_sources g \<noteq> [] \<or> acceptable_sources g \<noteq> []"

record offline_scores =
  o_recall :: real
  o_mrr :: real
  o_precision :: real
  o_ndcg :: real

definition offline_recall :: "int \<Rightarrow> golden_query \<Rightarrow> string list \<Rightarrow> real" where
  "offline_recall k g retrieved =
     (if expected_sources g \<noteq> []
      then real (length (expected_hits_in_topk (expected_sources g) retrieved k))
           / real (length (expected_sources g))
      else if any_acceptable_in_topk (acceptable_sources g) retrieved k then 1 else 0)"

definition offline_rels :: "int \<Rightarrow> golden_query \<Rightarrow> string list \<Rightarrow> nat list" where
  "offline_rels k g retrieved =
     map (\<lambda>r. if list_ex (\<lambda>e. match_path e r) (expected_sources g @ acceptable_sources g) then 1 else 0)
       (slice_to k (dedupe_to_documents retrieved))"

definition rels_mrr :: "nat list \<Rightarrow> real" where
  "rels_mrr rels = (let misses = length (takeWhile (\<lambda>x. x = 0) rels) in
     if misses = length rels then 0 else 1 / real (misses + 1))"

definition rels_precision :: "int \<Rightarrow> nat list \<Rightarrow> real" where
  "rels_precision k rels =
     (let d = min k (int (length rels)) in real (sum_list rels) / real_of_int (if d = 0 then 1 else d))"

definition rels_ndcg :: "int \<Rightarrow> nat list \<Rightarrow> real" where
  "rels_ndcg k rels =
     (let idcg = ideal_dcg (nat (min (int (sum_list rels)) k)) in
      if idcg = 0 then 0 else dcg_from 1 rels / idcg)"

definition score_golden :: "int \<Rightarrow> golden_query \<Rightarrow> string list \<Rightarrow> offline_scores" where
  "score_golden k g retrieved =
     (let rels = offline_rels k g retrieved in
      \<lparr>o_recall = offline_recall k g retrieved, o_mrr = rels_mrr rels,
       o_precision = rels_precision k rels, o_ndcg = rels_ndcg k rels\<rparr>)"

record offline_report =
  num_scored :: nat
  num_skipped :: nat
  mean_scores :: offline_scores
  per_golden :: "(string \<times> string \<times> offline_scores \<times> string list) list"

definition mean_or_zero :: "real list \<Rightarrow> real" where
  "mean_or_zero xs = (if xs = [] then 0 else mean xs)"

definition retrieval_scores :: "(golden_query \<Rightarrow> string list) \<Rightarrow> golden_query list \<Rightarrow> int \<Rightarrow> offline_report" where
  "retrieval_scores retrieve goldens k =
     (let gs = filter is_scored goldens; os = map (\<lambda>g. score_golden k g (retrieve g)) gs in
      \<lparr>num_scored = length gs, num_skipped = length goldens - length gs,
       mean_scores = \<lparr>o_recall = mean_or_zero (map o_recall os), o_mrr = mean_or_zero (map o_mrr os),
         o_precision = mean_or_zero (map o_precision os), o_ndcg = mean_or_zero (map o_ndcg os)\<rparr>,
       per_golden = map (\<lambda>g. (g_id g, g_category g, score_golden k g (retrieve g), retrieve g)) gs\<rparr>)"

subsection \<open>Discounted gains\<close>

lemma dcg_term_pos: "1 \<le> i \<Longrightarrow> 0 < 1 / log 2 (real i + 1)"
  by simp

lemma dcg_from_nonneg: "1 \<le> i \<Longrightarrow> 0 \<le> dcg_from i gs"
  by (induction gs arbitrary: i) auto

lemma dcg_replicate_antimono: "1 \<le> i \<Longrightarrow> dcg_from (Suc i) (replicate n 1) \<le> dcg_from i (replicate n 1)"
proof (induction n arbitrary: i)
  case (Suc n)
  have "log 2 (real i + 1) \<le> log 2 (real (Suc i) + 1)" using Suc.prems by simp
  then have "1 / log 2 (real (Suc i) + 1) \<le> 1 / log 2 (real i + 1)"
    using Suc.prems by (intro divide_left_mono) auto
  then show ?case using Suc.IH [of "Suc i"] by simp
qed simp

lemma dcg_replicate_mono: "1 \<le> i \<Longrightarrow> m \<le> n \<Longrightarrow> dcg_from i (replicate m 1) \<le> dcg_from i (replicate n 1)"
proof (induction n arbitrary: i m)
  case (Suc n)
  show ?case
  proof (cases m)
    case 0
    then show ?thesis using dcg_from_nonneg [OF Suc.prems(1), of "replicate (Suc n) 1"] by simp
  next
    case m: (Suc m')
    with Suc.IH [of "Suc i" m'] Suc.prems show ?thesis by simp
  qed
qed simp

text \<open>Binary gains are worth most when they are packed at the front.\<close>

lemma dcg_packed: "1 \<le> i \<Longrightarrow> set gs \<subseteq> {0, 1} \<Longrightarrow> dcg_from i gs \<le> dcg_from i (replicate (sum_list gs) 1)"
proof (induction gs arbitrary: i)
  case (Cons g gs)
  have IH: "dcg_from (Suc i) gs \<le> dcg_from (Suc i) (replicate (sum_list gs) 1)"
    using Cons.prems by (intro Cons.IH) auto
  from Cons.prems consider "g = 0" | "g = 1" by auto
  then show ?case
  proof cases
    case 1
    with IH dcg_replicate_antimono [OF Cons.prems(1)] show ?thesis by (simp add: order_trans)
  qed (use IH in simp)
qed simp

lemma dcg_le_ideal:
  "set gs \<subseteq> {0, 1} \<Longrightarrow> sum_list gs \<le> n \<Longrightarrow> dcg_from 1 gs \<le> ideal_dcg n"
  unfolding ideal_dcg_def
  using dcg_packed [of 1 gs] dcg_replicate_mono [of 1 "sum_list gs" n] by simp

lemma ideal_dcg_pos [simp]: "0 < ideal_dcg n \<longleftrightarrow> 0 < n"
proof (cases n)
  case (Suc m)
  then show ?thesis using dcg_from_nonneg [of 2 "replicate m 1"] by (simp add: ideal_dcg_def numeral_2_eq_2)
qed (simp add: ideal_dcg_def)

lemma ideal_dcg_0 [simp]: "ideal_dcg 0 = 0"
  by (simp add: ideal_dcg_def)

lemma ideal_dcg_eq_0 [simp]: "ideal_dcg n = 0 \<longleftrightarrow> n = 0"
  using ideal_dcg_pos [of n] by (cases n) (auto simp: ideal_dcg_def simp del: ideal_dcg_pos)

lemma sum_binary_le_length: "set gs \<subseteq> {0, 1::nat} \<Longrightarrow> sum_list gs \<le> length gs"
  by (induction gs) auto

lemma ndcg_gains_binary: "set (ndcg_gains ex ac hit used rs) \<subseteq> {0, 1}"
  by (induction rs arbitrary: hit used) (auto split: option.splits)

lemma length_ndcg_gains: "length (ndcg_gains ex ac hit used rs) = length rs"
  by (induction rs arbitrary: hit used) (auto split: option.splits)

text \<open>Each expected source and the acceptable set are credited once.\<close>

lemma ndcg_gains_bound:
  "sum_list (ndcg_gains ex ac hit used rs)
     \<le> card (set ex - hit) + (if used \<or> ac = [] then 0 else 1)"
proof (induction rs arbitrary: hit used)
  case (Cons r rs)
  show ?case
  proof (cases "find (\<lambda>e. e \<notin> hit \<and> match_path e r) ex")
    case None
    have "ac \<noteq> []" if "list_ex (\<lambda>a. match_path a r) ac" using that by auto
    then show ?thesis using Cons.IH [of hit True] Cons.IH [of hit used] None by (auto split: if_splits)
  next
    case (Some e)
    then have e: "e \<in> set ex" "e \<notin> hit" by (auto dest: find_SomeD)
    then have "card (set ex - hit) = Suc (card (set ex - insert e hit))"
      by (metis DiffI Diff_insert card_Suc_Diff1 finite_Diff finite_set)
    then show ?thesis using Cons.IH [of "insert e hit" used] Some by simp
  qed
qed simp

subsection \<open>The contract of a metric\<close>

definition unit_score :: "outcome \<Rightarrow> bool" where
  "unit_score m \<longleftrightarrow> 0 \<le> m_score m \<and> m_score m \<le> 1 \<and> (m_skipped m \<longrightarrow> m_score m = 1 \<and> m_success m)"

lemma unit_scoreI [intro]: "0 \<le> s \<Longrightarrow> s \<le> 1 \<Longrightarrow> unit_score (scored s ok)"
  by (simp add: unit_score_def scored_def)

lemma unit_score_skipped [simp]: "unit_score skipped_outcome"
  by (simp add: unit_score_def skipped_outcome_def)

lemma ratio_unit: "a \<le> b \<Longrightarrow> 0 \<le> real a / real b \<and> real a / real b \<le> 1"
  by (cases "b = 0") (auto simp: divide_le_eq_1)

lemma mean_unit:
  assumes "\<And>x. x \<in> set xs \<Longrightarrow> 0 \<le> x \<and> x \<le> 1" and "xs \<noteq> []"
  shows "0 \<le> mean xs \<and> mean xs \<le> 1"
proof -
  have "0 \<le> sum_list xs \<and> sum_list xs \<le> real (length xs)"
    using assms(1) by (induction xs) fastforce+
  with assms(2) show ?thesis by (simp add: mean_def divide_le_eq_1)
qed

text \<open>A mean of unit scores is 1 only if all of them are.\<close>

lemma mean_one:
  assumes "\<And>x. x \<in> set xs \<Longrightarrow> x \<le> 1" and "1 \<le> mean xs" and "x \<in> set xs"
  shows "x = 1"
proof (rule ccontr)
  assume "x \<noteq> 1"
  with assms have x: "x < 1" by force
  obtain ys zs where xs: "xs = ys @ x # zs" using assms(3) by (meson split_list)
  have le: "sum_list vs \<le> real (length vs)" if "set vs \<subseteq> set xs" for vs
    using that assms(1) by (induction vs) fastforce+
  have "sum_list ys \<le> real (length ys)" "sum_list zs \<le> real (length zs)" by (rule le; auto simp: xs)+
  then have "sum_list xs < real (length xs)" using x by (simp add: xs)
  with assms(2,3) show False by (auto simp: mean_def le_divide_eq split: if_splits)
qed

locale metric =
  fixes measure :: "test_case \<Rightarrow> outcome result"
  assumes unit: "measure tc = Inr m \<Longrightarrow> unit_score m"
begin

lemma mean_of_cases:
  assumes "traverse measure tcs = Inr ms" and "filter (\<lambda>m. \<not> m_skipped m) ms \<noteq> []"
  shows "0 \<le> mean (map m_score (filter (\<lambda>m. \<not> m_skipped m) ms))
       \<and> mean (map m_score (filter (\<lambda>m. \<not> m_skipped m) ms)) \<le> 1"
proof (rule mean_unit)
  have "\<forall>m\<in>set ms. unit_score m"
    using assms(1)
  proof (induction tcs arbitrary: ms)
    case (Cons tc tcs)
    then show ?case using unit [of tc] by (auto split: sum.splits)
  qed simp
  then show "0 \<le> x \<and> x \<le> 1" if "x \<in> set (map m_score (filter (\<lambda>m. \<not> m_skipped m) ms))" for x
    using that by (auto simp: unit_score_def)
qed (use assms(2) in simp)

end

lemma expected_hits_length: "length (expected_hits_in_topk ex rs k) \<le> length ex"
  by (simp add: expected_hits_in_topk_def Let_def)

interpretation precision: metric "precision_measure k t"
  by unfold_locales
     (auto simp: precision_measure_def Let_def meta_lists_def ratio_unit split: if_splits
       intro!: unit_scoreI ratio_unit [THEN conjunct1] ratio_unit [THEN conjunct2])

interpretation recall: metric "recall_measure k t"
  by unfold_locales
     (auto simp: recall_measure_def Let_def meta_lists_def split: if_splits
       intro!: unit_scoreI ratio_unit [THEN conjunct2] expected_hits_length)

interpretation restraint: metric restraint_measure
  by unfold_locales (auto simp: restraint_measure_def Let_def split: option.splits)

interpretation source_recall: metric "source_recall_measure t"
  by unfold_locales
     (auto simp: source_recall_measure_def Let_def split: if_splits
       intro!: unit_scoreI ratio_unit [THEN conjunct2])

interpretation must: metric "must_contain_measure t cs"
  by unfold_locales
     (auto simp: must_contain_measure_def Let_def split: if_splits
       intro!: unit_scoreI ratio_unit [THEN conjunct1] ratio_unit [THEN conjunct2])

interpretation must_not: metric "must_not_contain_measure t cs"
  by unfold_locales
     (auto simp: must_not_contain_measure_def Let_def split: if_splits
       intro!: unit_scoreI ratio_unit [THEN conjunct1] ratio_unit [THEN conjunct2])

lemma first_relevant_ge: "first_relevant i rel rs = Some j \<Longrightarrow> i \<le> j"
  by (induction rs arbitrary: i) (fastforce split: if_splits)+

interpretation mrr: metric "mrr_measure t"
  by unfold_locales
     (auto simp: mrr_measure_def Let_def meta_lists_def split: if_splits option.splits
       intro!: unit_scoreI dest!: first_relevant_ge)

lemma ndcg_unit:
  assumes "set gs \<subseteq> {0, 1}" and "sum_list gs \<le> n"
  shows "0 \<le> dcg_from 1 gs / ideal_dcg n \<and> dcg_from 1 gs / ideal_dcg n \<le> 1"
proof (cases "n = 0")
  case False
  then have "0 < ideal_dcg n" by simp
  then show ?thesis using dcg_le_ideal [OF assms] dcg_from_nonneg [of 1 gs] by (simp add: divide_le_eq_1)
next
  case True
  then have "ideal_dcg n = 0" by simp
  then show ?thesis by simp
qed

lemma ndcg_gains_ideal:
  assumes "0 \<le> k"
  shows "sum_list (ndcg_gains ex ac {} False (slice_to k rs))
    \<le> nat (min k (int (length ex) + (if ac \<noteq> [] then 1 else 0)))"
proof -
  let ?g = "ndcg_gains ex ac {} False (slice_to k rs)"
  have "sum_list ?g \<le> length (slice_to k rs)"
    using sum_binary_le_length [OF ndcg_gains_binary] by (simp add: length_ndcg_gains)
  moreover have "length (slice_to k rs) \<le> nat k" using assms by simp
  moreover have "sum_list ?g \<le> length ex + (if ac \<noteq> [] then 1 else 0)"
    using ndcg_gains_bound [of ex ac "{}" False "slice_to k rs"] card_length [of ex] by (simp split: if_splits)
  ultimately show ?thesis using assms by (auto simp: min_def split: if_splits)
qed

interpretation ndcg: metric "ndcg_measure k t"
proof
  fix tc m
  assume m: "ndcg_measure k t tc = Inr m"
  show "unit_score m"
  proof (cases "0 \<le> k")
    case True
    have "0 \<le> dcg_from 1 gs / ideal_dcg n \<and> dcg_from 1 gs / ideal_dcg n \<le> 1"
      if "gs = ndcg_gains (tc_expected tc) (tc_acceptable tc) {} False (slice_to k (retrieved_of tc))"
        "n = nat (min k (int (length (tc_expected tc)) + (if tc_acceptable tc \<noteq> [] then 1 else 0)))" for gs n
      using ndcg_unit [OF ndcg_gains_binary ndcg_gains_ideal [OF True]] that by simp
    with m show ?thesis
      by (auto simp: ndcg_measure_def Let_def meta_lists_def split: if_splits intro!: unit_scoreI)
  next
    case False
    then have "nat (min k n) = 0" for n by simp
    with m show ?thesis
      by (auto simp: ndcg_measure_def Let_def meta_lists_def split: if_splits)
  qed
qed

subsection \<open>Properties of the metrics\<close>

definition unit_result :: "outcome result \<Rightarrow> bool" where
  "unit_result r = (case r of Inr m \<Rightarrow> unit_score m | Inl _ \<Rightarrow> False)"

lemma unit_resultI: "is_ok r \<Longrightarrow> (\<And>m. r = Inr m \<Longrightarrow> unit_score m) \<Longrightarrow> unit_result r"
  by (cases r) (auto simp: unit_result_def)

text \<open>Every metric of the suite returns, for every test case, a score in the unit interval, and one
  marked as skipped has the vacuous score 1. In particular NDCG never exceeds 1. Precision needs a
  positive cut-off for this: with \<open>k = 0\<close> it divides by zero as soon as something was retrieved.\<close>

theorem metric_scores_unit:
  assumes "1 \<le> k"
  shows "unit_result (recall_measure k t tc) \<and> unit_result (precision_measure k t tc)
    \<and> unit_result (ndcg_measure k t tc) \<and> unit_result (mrr_measure t tc)
    \<and> unit_result (source_recall_measure t tc) \<and> unit_result (restraint_measure tc)
    \<and> unit_result (must_contain_measure t cs tc) \<and> unit_result (must_not_contain_measure t cs tc)
    \<and> is_ok (precision_measure 0 t tc) = (tc_expected tc = [] \<and> tc_acceptable tc = [] \<or> retrieved_of tc = [])"
proof (intro conjI)
  have "slice_to k (retrieved_of tc) = [] \<longleftrightarrow> retrieved_of tc = []" using assms by auto
  then have "is_ok (precision_measure k t tc)"
    by (auto simp: precision_measure_def meta_lists_def Let_def)
  then show "unit_result (precision_measure k t tc)" by (rule unit_resultI) (rule precision.unit)
  show "is_ok (precision_measure 0 t tc) = (tc_expected tc = [] \<and> tc_acceptable tc = [] \<or> retrieved_of tc = [])"
    by (auto simp: precision_measure_def meta_lists_def Let_def)
qed (rule unit_resultI, (auto simp: recall_measure_def ndcg_measure_def mrr_measure_def source_recall_measure_def
      restraint_measure_def must_contain_measure_def must_not_contain_measure_def meta_lists_def Let_def
      split: option.splits; fail),
    (rule recall.unit ndcg.unit mrr.unit source_recall.unit restraint.unit must.unit must_not.unit; assumption))+

definition sample_golden :: golden_query where
  "sample_golden = \<lparr>g_id = ''g1'', g_category = ''neg'', g_query = ''q'', expected_sources = [''a/x'', ''a/y''],
     acceptable_sources = [], must_contain = [], must_not_contain = [], max_retrieved_sources = Some 2,
     g_notes = [], expected_baseline_faith = None\<rparr>"

definition sample_response :: "string list \<Rightarrow> api_response" where
  "sample_response srcs = \<lparr>rs_answer = ''no'', rs_sources = srcs, rs_content = [], rs_query_type = None\<rparr>"

theorem metric_scores_unit_witness:
  "unit_result (ndcg_measure 5 (1 / 2) (case_of sample_golden (sample_response [''a/y'', ''a/x''])))
   \<and> is_ok (precision_measure 0 (1 / 2) (case_of sample_golden (sample_response [''a/y'']))) = False"
proof -
  have "tc_expected (case_of sample_golden (sample_response [''a/y''])) \<noteq> []"
    "retrieved_of (case_of sample_golden (sample_response [''a/y''])) \<noteq> []" by code_simp+
  with metric_scores_unit [of 5 "1 / 2" "case_of sample_golden (sample_response [''a/y'', ''a/x''])" True]
    metric_scores_unit [of 5 "1 / 2" "case_of sample_golden (sample_response [''a/y''])" True]
  show ?thesis by simp
qed

lemma first_relevant_Some:
  "first_relevant i rel rs = Some j \<longleftrightarrow>
     (\<exists>n. j = i + n \<and> n < length rs \<and> rel (rs ! n) \<and> filter rel (take n rs) = [])"
proof (induction rs arbitrary: i)
  case (Cons r rs)
  show ?case
  proof (cases "rel r")
    case True
    have "filter rel (take n (r # rs)) = [] \<longleftrightarrow> n = 0" for n using True by (cases n) auto
    with True show ?thesis by auto
  next
    case False
    have "(\<exists>n. j = i + n \<and> n < length (r # rs) \<and> rel ((r # rs) ! n) \<and> filter rel (take n (r # rs)) = [])
      \<longleftrightarrow> (\<exists>n. j = Suc i + n \<and> n < length rs \<and> rel (rs ! n) \<and> filter rel (take n rs) = [])"
      (is "(\<exists>n. ?P n) \<longleftrightarrow> (\<exists>n. ?Q n)")
    proof
      assume "\<exists>n. ?P n"
      then obtain n where "?P n" ..
      with False have "?Q (n - 1)" by (cases n) auto
      then show "\<exists>n. ?Q n" ..
    next
      assume "\<exists>n. ?Q n"
      then obtain n where "?Q n" ..
      with False have "?P (Suc n)" by simp
      then show "\<exists>n. ?P n" ..
    qed
    with False Cons.IH show ?thesis by simp
  qed
qed simp

subsection \<open>The gate\<close>

lemma scored_cases_answered:
  "scored_cases (run_golden judge query goldens) name
   = scored_cases (run_golden judge query (filter (\<lambda>g. query g \<noteq> None) goldens)) name"
proof (induction goldens)
  case (Cons g gs)
  then show ?case by (cases "query g") (simp_all add: scored_cases_def run_golden_def run_one_def)
qed simp

lemma check_one_nil:
  "check_one results (name, least) = [] \<longleftrightarrow>
     scored_cases results name \<noteq> [] \<and> least \<le> mean (map m_score (scored_cases results name))"
  by (auto simp: check_one_def Let_def)

lemma m_name_of [simp]: "m_name (metric_result_of name r) = name"
  by (simp add: metric_result_of_def split: sum.splits)

lemma restraint_of_run:
  "filter (\<lambda>m. m_name m = ''RetrievalRestraint'' \<and> \<not> m_skipped m) (run_metrics judge (case_of g resp))
   = (case max_retrieved_sources g of None \<Rightarrow> []
      | Some cap \<Rightarrow> [metric_result_of ''RetrievalRestraint''
          (Inr (scored (if int (length (rs_sources resp)) \<le> cap then 1 else 0)
            (int (length (rs_sources resp)) \<le> cap)))])"
  by (simp add: run_metrics_def metric_suite_def restraint_measure_def case_of_def to_llm_test_case_def
      retrieved_of_def Let_def split: option.splits)
     (simp add: metric_result_of_def skipped_outcome_def scored_def)

lemma restraint_scores:
  "map m_score (scored_cases (run_golden judge query goldens) ''RetrievalRestraint'')
   = concat (map (\<lambda>g. case (query g, max_retrieved_sources g) of
        (Some resp, Some cap) \<Rightarrow> [if int (length (rs_sources resp)) \<le> cap then 1 else 0]
      | _ \<Rightarrow> []) goldens)"
proof (induction goldens)
  case (Cons g gs)
  have one: "m_score (metric_result_of name (Inr (scored s ok))) = s" for name s ok
    by (simp add: metric_result_of_def scored_def)
  from Cons show ?case
    by (cases "query g"; cases "max_retrieved_sources g")
       (simp_all add: scored_cases_def run_golden_def run_one_def restraint_of_run one)
qed (simp add: scored_cases_def run_golden_def)

text \<open>What a green gate means. With the default thresholds it passes exactly when every gated metric
  has a scored case and a mean at or above its threshold; then every answered golden with a cap got at
  most that many sources, because a mean of 1 admits no exception. A query that failed outright counts
  nowhere: the gate's verdict is the one on the answered goldens only.\<close>

theorem gate_verdict:
  "(gate_failures judge query goldens = []) =
      list_all (\<lambda>(name, least). scored_cases (run_golden judge query goldens) name \<noteq> []
         \<and> least \<le> mean (map m_score (scored_cases (run_golden judge query goldens) name)))
        default_gate_thresholds
    \<and> gate_failures judge query goldens = gate_failures judge query (filter (\<lambda>g. query g \<noteq> None) goldens)
    \<and> (gate_failures judge query goldens = [] \<longrightarrow>
         (\<forall>g\<in>set goldens. \<forall>resp cap. query g = Some resp \<longrightarrow> max_retrieved_sources g = Some cap \<longrightarrow>
            int (length (rs_sources resp)) \<le> cap))"
proof (intro conjI impI ballI allI)
  let ?cases = "scored_cases (run_golden judge query goldens)"
  show "(gate_failures judge query goldens = []) =
      list_all (\<lambda>(name, least). ?cases name \<noteq> [] \<and> least \<le> mean (map m_score (?cases name)))
        default_gate_thresholds"
    by (auto simp: gate_failures_def check_thresholds_def check_one_nil list_all_iff)
  have "check_one (run_golden judge query goldens)
      = check_one (run_golden judge query (filter (\<lambda>g. query g \<noteq> None) goldens))"
    by (rule ext) (simp add: check_one_def scored_cases_answered [of judge query goldens])
  then show "gate_failures judge query goldens = gate_failures judge query (filter (\<lambda>g. query g \<noteq> None) goldens)"
    by (simp add: gate_failures_def check_thresholds_def)
  fix g resp cap
  assume pass: "gate_failures judge query goldens = []"
    and g: "g \<in> set goldens" "query g = Some resp" "max_retrieved_sources g = Some cap"
  let ?scores = "map m_score (?cases ''RetrievalRestraint'')"
  let ?s = "if int (length (rs_sources resp)) \<le> cap then 1 else (0::real)"
  have "check_one (run_golden judge query goldens) (''RetrievalRestraint'', 1) = []"
    using pass by (simp add: gate_failures_def check_thresholds_def default_gate_thresholds_def)
  then have one: "1 \<le> mean ?scores" by (simp add: check_one_nil)
  obtain ys zs where gs: "goldens = ys @ g # zs" using split_list [OF g(1)] by blast
  have "?s \<in> set ?scores" unfolding restraint_scores gs map_append concat_append set_append
    using g(2,3) by (intro UnI2) simp
  moreover have "x \<le> 1" if "x \<in> set ?scores" for x
    using that unfolding restraint_scores by (auto split: option.splits if_splits)
  ultimately have "?s = 1" using one by (intro mean_one) auto
  then show "int (length (rs_sources resp)) \<le> cap" by (simp split: if_splits)
qed

theorem gate_verdict_witness:
  "gate_failures (\<lambda>_. Inr (scored 1 True)) (\<lambda>_. Some (sample_response [''a/x'', ''a/y''])) [sample_golden] = []
   \<and> int (length (rs_sources (sample_response [''a/x'', ''a/y'']))) \<le> 2"
proof -
  let ?tc = "case_of sample_golden (sample_response [''a/x'', ''a/y''])"
  have mp: "match_path ''a/x'' ''a/x''" "match_path ''a/y'' ''a/y''"
    "\<not> match_path ''a/y'' ''a/x''" "\<not> match_path ''a/x'' ''a/y''" by code_simp+
  have tc: "tc_expected ?tc = [''a/x'', ''a/y'']" "tc_acceptable ?tc = []" "retrieved_of ?tc = [''a/x'', ''a/y'']"
    "tc_cap ?tc = Some 2" "tc_must ?tc = []" "tc_must_not ?tc = []"
    by (simp_all add: case_of_def to_llm_test_case_def sample_golden_def sample_response_def retrieved_of_def)
  have m: "source_recall_measure t ?tc = Inr (scored 1 (t \<le> 1))" "precision_measure 5 t ?tc = Inr (scored 1 (t \<le> 1))"
    "recall_measure 5 t ?tc = Inr (scored 1 (t \<le> 1))" "recall_measure 10 t ?tc = Inr (scored 1 (t \<le> 1))"
    "mrr_measure t ?tc = Inr (scored 1 (t \<le> 1))" "restraint_measure ?tc = Inr (scored 1 True)" for t
    by (simp_all add: source_recall_measure_def precision_measure_def recall_measure_def mrr_measure_def
        restraint_measure_def meta_lists_def tc Let_def is_relevant_def expected_hits_in_topk_def mp)
  have gains: "ndcg_gains [''a/x'', ''a/y''] [] {} False [''a/x'', ''a/y''] = replicate 2 1"
    by (simp add: mp numeral_2_eq_2)
  have "0 < ideal_dcg 2" by simp
  moreover have "dcg_from (Suc 0) (replicate 2 (Suc 0)) = ideal_dcg 2" by (simp add: ideal_dcg_def)
  ultimately have n: "ndcg_measure 5 t ?tc = Inr (scored 1 (t \<le> 1))" for t
    by (simp add: ndcg_measure_def meta_lists_def tc Let_def gains del: ndcg_gains.simps)
  have sc: "scored_cases (run_golden (\<lambda>_. Inr (scored 1 True)) (\<lambda>_. Some (sample_response [''a/x'', ''a/y''])) [sample_golden]) name
      = filter (\<lambda>m. m_name m = name \<and> \<not> m_skipped m) (run_metrics (\<lambda>_. Inr (scored 1 True)) ?tc)" for name
    by (simp add: scored_cases_def run_golden_def run_one_def)
  have one: "m_score (metric_result_of name (Inr (scored 1 ok))) = 1"
    "\<not> m_skipped (metric_result_of name (Inr (scored 1 ok)))" for name ok
    by (simp_all add: metric_result_of_def scored_def)
  have "gate_failures (\<lambda>_. Inr (scored 1 True)) (\<lambda>_. Some (sample_response [''a/x'', ''a/y''])) [sample_golden] = []"
    by (simp add: gate_failures_def check_thresholds_def default_gate_thresholds_def check_one_def Let_def
        sc run_metrics_def metric_suite_def m n one mean_def)
  with gate_verdict [of "\<lambda>_. Inr (scored 1 True)" "\<lambda>_. Some (sample_response [''a/x'', ''a/y''])" "[sample_golden]"]
  show ?thesis by (simp add: sample_golden_def)
qed

subsection \<open>The offline scores\<close>

lemma dedupe_from_distinct:
  "distinct (map canonical_path (dedupe_from seen rs))
   \<and> canonical_path ` set (dedupe_from seen rs) = canonical_path ` set rs - seen"
  by (induction rs arbitrary: seen) auto

text \<open>One document per canonical path, every document of the list, in its order.\<close>

lemma dedupe_to_documents_correct:
  "distinct (map canonical_path (dedupe_to_documents rs))
   \<and> canonical_path ` set (dedupe_to_documents rs) = canonical_path ` set rs
   \<and> subseq (dedupe_to_documents rs) rs"
proof -
  have "subseq (dedupe_from seen rs) rs" for seen by (induction rs arbitrary: seen) auto
  then show ?thesis using dedupe_from_distinct [of "{}" rs] by (simp add: dedupe_to_documents_def)
qed

definition unit_scores :: "offline_scores \<Rightarrow> bool" where
  "unit_scores os \<longleftrightarrow> list_all (\<lambda>x. 0 \<le> x \<and> x \<le> 1) [o_recall os, o_mrr os, o_precision os, o_ndcg os]"

lemma offline_rels_facts:
  "0 \<le> k \<Longrightarrow> set (offline_rels k g rs) \<subseteq> {0, 1} \<and> length (offline_rels k g rs) \<le> nat k"
  by (auto simp: offline_rels_def)

lemma rels_ndcg_eq:
  assumes "set rels \<subseteq> {0, 1}" and "int (length rels) \<le> k"
  shows "rels_ndcg k rels = (if sum_list rels = 0 then 0 else dcg_from 1 rels / ideal_dcg (sum_list rels))"
proof -
  have "int (sum_list rels) \<le> k" using sum_binary_le_length [OF assms(1)] assms(2) by simp
  then show ?thesis by (simp add: rels_ndcg_def Let_def min_def)
qed

lemma rels_precision_eq:
  "int (length rels) \<le> k \<Longrightarrow> rels \<noteq> [] \<Longrightarrow> rels_precision k rels = real (sum_list rels) / real (length rels)"
  by (simp add: rels_precision_def min_def Let_def)

lemma score_golden_unit: "1 \<le> k \<Longrightarrow> unit_scores (score_golden k g rs)"
proof -
  assume k: "1 \<le> k"
  let ?rels = "offline_rels k g rs"
  have b: "set ?rels \<subseteq> {0, 1}" "int (length ?rels) \<le> k"
    using offline_rels_facts [of k g rs] k by (auto simp: nat_le_iff le_nat_iff)
  have s: "sum_list ?rels \<le> length ?rels" by (rule sum_binary_le_length [OF b(1)])
  have "0 \<le> rels_mrr ?rels \<and> rels_mrr ?rels \<le> 1" by (simp add: rels_mrr_def Let_def)
  moreover have "0 \<le> rels_precision k ?rels \<and> rels_precision k ?rels \<le> 1"
  proof (cases "?rels = []")
    case True
    then show ?thesis by (simp add: rels_precision_def)
  next
    case False
    show ?thesis unfolding rels_precision_eq [OF b(2) False] by (rule ratio_unit [OF s])
  qed
  moreover have "0 \<le> rels_ndcg k ?rels \<and> rels_ndcg k ?rels \<le> 1"
    using ndcg_unit [OF b(1) order_refl] by (simp add: rels_ndcg_eq [OF b])
  moreover have "0 \<le> offline_recall k g rs \<and> offline_recall k g rs \<le> 1"
    using ratio_unit [OF expected_hits_length] by (simp add: offline_recall_def)
  ultimately show ?thesis by (simp add: unit_scores_def score_golden_def Let_def)
qed

lemma mean_or_zero_unit:
  "(\<And>x. x \<in> set xs \<Longrightarrow> 0 \<le> x \<and> x \<le> 1) \<Longrightarrow> 0 \<le> mean_or_zero xs \<and> mean_or_zero xs \<le> 1"
  using mean_unit [of xs] by (cases "xs = []") (auto simp: mean_or_zero_def)

text \<open>Every offline score and every mean of them lies in the unit interval. But the offline NDCG is
  normalised by the relevant documents that were retrieved, not by those the golden asks for: it is 1
  whenever what was found of them comes first, however much is missing, where the NDCG of the suite is
  below 1.\<close>

theorem offline_ndcg_ignores_missing:
  assumes "1 \<le> k"
  shows "unit_scores (score_golden k g retrieved)
    \<and> unit_scores (mean_scores (retrieval_scores retrieve goldens k))
    \<and> (offline_rels k g retrieved = replicate (Suc m) 1 @ replicate j 0
        \<longrightarrow> o_ndcg (score_golden k g retrieved) = 1)
    \<and> score_golden 5 sample_golden [''a/x''] = \<lparr>o_recall = 1 / 2, o_mrr = 1, o_precision = 1, o_ndcg = 1\<rparr>
    \<and> (\<exists>s < 1. \<exists>ok. ndcg_measure 5 t (case_of sample_golden (sample_response [''a/x''])) = Inr (scored s ok))"
proof (intro conjI impI)
  show "unit_scores (score_golden k g retrieved)" by (rule score_golden_unit [OF assms])
  have u: "unit_scores (score_golden k g (retrieve g))" for g by (rule score_golden_unit [OF assms])
  have "0 \<le> mean_or_zero (map f (map (\<lambda>g. score_golden k g (retrieve g)) gs))
      \<and> mean_or_zero (map f (map (\<lambda>g. score_golden k g (retrieve g)) gs)) \<le> 1"
    if "\<And>os. unit_scores os \<Longrightarrow> 0 \<le> f os \<and> f os \<le> 1" for f gs
    by (rule mean_or_zero_unit) (use that u in auto)
  from this [of o_recall] this [of o_mrr] this [of o_precision] this [of o_ndcg]
  show "unit_scores (mean_scores (retrieval_scores retrieve goldens k))"
    by (simp add: retrieval_scores_def Let_def unit_scores_def)
next
  assume rels: "offline_rels k g retrieved = replicate (Suc m) 1 @ replicate j 0"
  have z: "dcg_from i (replicate n 0) = 0" for i n by (induction n arbitrary: i) auto
  have app: "dcg_from i (replicate n 1 @ replicate j 0) = dcg_from i (replicate n 1)" for i n
    by (induction n arbitrary: i) (simp_all add: z)
  have b: "set (offline_rels k g retrieved) \<subseteq> {0, 1}" "int (length (offline_rels k g retrieved)) \<le> k"
    using offline_rels_facts [of k g retrieved] assms by (auto simp: nat_le_iff le_nat_iff)
  have "sum_list (offline_rels k g retrieved) = Suc m" by (simp add: rels sum_list_replicate)
  then have "rels_ndcg k (offline_rels k g retrieved) = dcg_from 1 (replicate (Suc m) 1) / ideal_dcg (Suc m)"
    unfolding rels_ndcg_eq [OF b] using app [of 1 "Suc m"] by (simp only: rels) simp
  moreover have "0 < ideal_dcg (Suc m)" by simp
  ultimately show "o_ndcg (score_golden k g retrieved) = 1"
    unfolding ideal_dcg_def by (simp add: score_golden_def Let_def del: replicate.simps dcg_from.simps)
next
  have mp: "match_path ''a/x'' ''a/x''" "\<not> match_path ''a/y'' ''a/x''" by code_simp+
  have d: "dedupe_to_documents [''a/x''] = [''a/x'']" by (simp add: dedupe_to_documents_def)
  have i1: "ideal_dcg 1 = 1" by (simp add: ideal_dcg_def)
  have rels: "offline_rels 5 sample_golden [''a/x''] = [1]"
    by (simp add: offline_rels_def d sample_golden_def mp)
  show "score_golden 5 sample_golden [''a/x''] = \<lparr>o_recall = 1 / 2, o_mrr = 1, o_precision = 1, o_ndcg = 1\<rparr>"
    unfolding score_golden_def rels Let_def
    by (simp add: rels_mrr_def rels_precision_def rels_ndcg_def i1 [simplified] offline_recall_def
        expected_hits_in_topk_def sample_golden_def mp)
  have "1 < ideal_dcg 2" by (simp add: ideal_dcg_def numeral_2_eq_2)
  then have "ndcg_measure 5 t (case_of sample_golden (sample_response [''a/x'']))
      = Inr (scored (1 / ideal_dcg 2) (t \<le> 1 / ideal_dcg 2))"
    by (simp add: ndcg_measure_def meta_lists_def Let_def case_of_def to_llm_test_case_def sample_golden_def
        sample_response_def retrieved_of_def mp)
  moreover have "1 / ideal_dcg 2 < 1" using \<open>1 < ideal_dcg 2\<close> by simp
  ultimately show "\<exists>s < 1. \<exists>ok. ndcg_measure 5 t (case_of sample_golden (sample_response [''a/x''])) = Inr (scored s ok)"
    by blast
qed

theorem offline_ndcg_ignores_missing_witness:
  "o_ndcg (score_golden 5 sample_golden [''a/x'']) = 1 \<and> unit_scores (score_golden 1 sample_golden [])"
proof -
  have "offline_rels 5 sample_golden [''a/x''] = replicate (Suc 0) 1 @ replicate 0 0"
  proof -
    have "match_path ''a/x'' ''a/x''" by code_simp
    then show ?thesis by (simp add: offline_rels_def dedupe_to_documents_def sample_golden_def)
  qed
  with offline_ndcg_ignores_missing [of 5 sample_golden "[''a/x'']" "\<lambda>_. []" "[]" 0 0 0]
    offline_ndcg_ignores_missing [of 1 sample_golden "[]" "\<lambda>_. []" "[]" 0 0 0]
  show ?thesis by simp
qed

end
