(* ===== verification/Compactor.thy ===== *)
theory Compactor
  imports Py_Prelude
begin

text \<open>
  The message history of the tool loop and its compaction
  (\<open>opsrag/agent/services/toolmsg_compactor.py\<close>). A history entry is a chat message, an emitted tool
  call or a tool result; a result carries a text, an error or a summary, the three shapes that the
  agent writes. The summarising model is a parameter that answers or raises; \<open>dumps\<close> is \<open>json.dumps\<close>.
  An archive store only receives copies: its calls are an output, and its failures change nothing.
\<close>

subsection \<open>Histories\<close>

datatype response =
    RText string
  | RError string "int option"
  | RSummary string nat string

datatype entry =
    Msg string string
  | Call string obj "string option"
  | Res string response

type_synonym history = "entry list"

fun is_result :: "entry \<Rightarrow> bool" where
  "is_result (Res _ _) = True"
| "is_result _ = False"

fun response_text :: "entry \<Rightarrow> string option" where
  "response_text (Res _ (RText t)) = Some t"
| "response_text _ = None"

fun is_already_summarized :: "entry \<Rightarrow> bool" where
  "is_already_summarized (Res _ (RSummary _ _ _)) = True"
| "is_already_summarized _ = False"

definition chars_per_token :: int where "chars_per_token = 4"
definition per_entry_overhead_tokens :: int where "per_entry_overhead_tokens = 8"

text \<open>The dict of an error response, as it is printed for the estimate.\<close>

definition error_obj :: "string \<Rightarrow> int option \<Rightarrow> obj" where
  "error_obj e st = (''error'', JStr e) # (case st of None \<Rightarrow> [] | Some s \<Rightarrow> [(''status'', JInt s)])"

fun entry_chars :: "(obj \<Rightarrow> string) \<Rightarrow> entry \<Rightarrow> nat" where
  "entry_chars dumps (Msg _ c) = length c"
| "entry_chars dumps (Call n args _) = length (dumps args) + length n"
| "entry_chars dumps (Res _ (RText t)) = length t"
| "entry_chars dumps (Res _ (RSummary s _ _)) = length s"
| "entry_chars dumps (Res _ (RError e st)) = length (dumps (error_obj e st))"

definition estimate_tokens :: "(obj \<Rightarrow> string) \<Rightarrow> history \<Rightarrow> int" where
  "estimate_tokens dumps h =
     per_entry_overhead_tokens * int (length h)
     + int (sum_list (map (entry_chars dumps) h)) div chars_per_token"

definition tool_result_indices :: "history \<Rightarrow> nat list" where
  "tool_result_indices h = filter (\<lambda>i. is_result (h ! i)) [0..<length h]"

subsection \<open>Compaction\<close>

record compact_stats =
  st_compacted :: nat
  st_tokens_before :: int
  st_tokens_after :: int
  st_summarized_entries :: "string list"

text \<open>\<open>xs[-n:]\<close> for a positive \<open>n\<close>.\<close>

definition last_n :: "nat \<Rightarrow> 'a list \<Rightarrow> 'a list" where
  "last_n n xs = drop (length xs - n) xs"

definition kept_recent :: "int \<Rightarrow> history \<Rightarrow> nat set" where
  "kept_recent n h = (if 0 < n then set (last_n (nat n) (tool_result_indices h)) else {})"

definition eligible :: "int \<Rightarrow> history \<Rightarrow> nat list" where
  "eligible n h =
     filter (\<lambda>i. i \<notin> kept_recent n h \<and> \<not> is_already_summarized (h ! i) \<and> response_text (h ! i) \<noteq> None)
       (tool_result_indices h)"

definition text_length :: "entry \<Rightarrow> nat" where
  "text_length e = (case response_text e of None \<Rightarrow> 0 | Some t \<Rightarrow> length t)"

text \<open>Largest first; a stable sort, as \<open>list.sort(reverse=True)\<close> is.\<close>

definition compact_order :: "int \<Rightarrow> history \<Rightarrow> nat list" where
  "compact_order n h = sort_key (\<lambda>i. - int (text_length (h ! i))) (eligible n h)"

fun entry_name :: "entry \<Rightarrow> string" where
  "entry_name (Call n _ _) = n"
| "entry_name (Res n _) = n"
| "entry_name (Msg _ _) = []"

definition tool_name_of :: "entry \<Rightarrow> string" where
  "tool_name_of e = (if entry_name e = [] then ''unknown_tool'' else entry_name e)"

definition archive_key :: "string \<Rightarrow> entry \<Rightarrow> nat \<Rightarrow> string" where
  "archive_key ikey e idx = ikey @ '':'' @ tool_name_of e @ '':'' @ str_nat idx"

text \<open>One entry: \<open>None\<close> when the model raises or answers with nothing.\<close>

definition summary_for ::
  "(string \<Rightarrow> string \<Rightarrow> string result) \<Rightarrow> string \<Rightarrow> entry \<Rightarrow> nat \<Rightarrow> entry option" where
  "summary_for llm ikey e idx =
     (case response_text e of
        None \<Rightarrow> None
      | Some txt \<Rightarrow>
          (case llm (tool_name_of e) txt of
             Inl _ \<Rightarrow> None
           | Inr content \<Rightarrow>
               (let summary = py_strip content in
                if summary = [] then None
                else Some (Res (entry_name e) (RSummary summary (length txt) (archive_key ikey e idx))))))"

record compacting =
  cp_history :: history
  cp_running :: int
  cp_keys :: "string list"
  cp_archived :: "(string \<times> string) list"

fun compact_loop ::
  "(obj \<Rightarrow> string) \<Rightarrow> (string \<Rightarrow> string \<Rightarrow> string result) \<Rightarrow> string \<Rightarrow> bool \<Rightarrow> int \<Rightarrow> nat list \<Rightarrow> compacting \<Rightarrow> compacting" where
  "compact_loop dumps llm ikey arch threshold [] st = st"
| "compact_loop dumps llm ikey arch threshold (idx # idxs) st =
     (if cp_running st < threshold then st
      else (case summary_for llm ikey (cp_history st ! idx) idx of
              None \<Rightarrow> compact_loop dumps llm ikey arch threshold idxs st
            | Some e \<Rightarrow>
                (let h = (cp_history st)[idx := e]; key = archive_key ikey (cp_history st ! idx) idx in
                 compact_loop dumps llm ikey arch threshold idxs
                   \<lparr>cp_history = h, cp_running = estimate_tokens dumps h, cp_keys = cp_keys st @ [key],
                    cp_archived = cp_archived st @
                      (if arch then [(key, the (response_text (cp_history st ! idx)))] else [])\<rparr>)))"

definition compact_history ::
  "(obj \<Rightarrow> string) \<Rightarrow> (string \<Rightarrow> string \<Rightarrow> string result) \<Rightarrow> history \<Rightarrow> int \<Rightarrow> real \<Rightarrow> int \<Rightarrow> string option \<Rightarrow> bool
   \<Rightarrow> history \<times> compact_stats \<times> (string \<times> string) list" where
  "compact_history dumps llm h max_input_tokens threshold_fraction keep_recent_n investigation_id arch =
     (let threshold = py_trunc (threshold_fraction * real_of_int max_input_tokens);
          before = estimate_tokens dumps h;
          stats = \<lparr>st_compacted = 0, st_tokens_before = before, st_tokens_after = before,
                   st_summarized_entries = []\<rparr>;
          ikey = (case investigation_id of None \<Rightarrow> ''anon'' | Some i \<Rightarrow> if i = [] then ''anon'' else i)
      in if before < threshold then (h, stats, [])
         else if eligible keep_recent_n h = [] then (h, stats, [])
         else (let st = compact_loop dumps llm ikey arch threshold (compact_order keep_recent_n h)
                          \<lparr>cp_history = h, cp_running = before, cp_keys = [], cp_archived = []\<rparr>
               in (cp_history st,
                   stats\<lparr>st_compacted := length (cp_keys st),
                         st_tokens_after := estimate_tokens dumps (cp_history st),
                         st_summarized_entries := cp_keys st\<rparr>,
                   cp_archived st)))"

subsection \<open>What compaction keeps\<close>

text \<open>\<open>compacted e e'\<close>: the entry is unchanged, or its text is replaced by a summary that records the
  length of the text.\<close>

definition compacted :: "entry \<Rightarrow> entry \<Rightarrow> bool" where
  "compacted e e' \<longleftrightarrow> e' = e \<or>
     (\<exists>n t s k. e = Res n (RText t) \<and> e' = Res n (RSummary s (length t) k) \<and> s \<noteq> [])"

lemma compacted_refl [simp, intro]: "compacted e e"
  by (simp add: compacted_def)

lemma compacted_trans: "compacted a b \<Longrightarrow> compacted b c \<Longrightarrow> compacted a c"
  by (auto simp: compacted_def)

lemma summary_for_compacted: "summary_for llm ikey e idx = Some e' \<Longrightarrow> compacted e e'"
  by (cases e rule: response_text.cases)
     (auto simp: summary_for_def compacted_def Let_def split: sum.splits if_splits)

lemma compact_loop_facts:
  "let st' = compact_loop dumps llm ikey arch threshold idxs st in
     list_all2 compacted (cp_history st) (cp_history st')
     \<and> (\<forall>i<length (cp_history st). i \<notin> set idxs \<longrightarrow> cp_history st' ! i = cp_history st ! i)"
proof (induction idxs arbitrary: st)
  case Nil
  then show ?case by (simp add: list_all2_conv_all_nth)
next
  case (Cons idx idxs)
  show ?case
  proof (cases "summary_for llm ikey (cp_history st ! idx) idx")
    case None
    then show ?thesis using Cons.IH [of st] by (auto simp: Let_def list_all2_conv_all_nth)
  next
    case (Some e)
    then have c: "compacted (cp_history st ! idx) e" by (rule summary_for_compacted)
    have step: "list_all2 compacted (cp_history st) ((cp_history st)[idx := e])"
      using c by (cases "idx < length (cp_history st)") (auto simp: list_all2_conv_all_nth nth_list_update)
    show ?thesis
    proof (cases "cp_running st < threshold")
      case True
      then show ?thesis by (simp add: list_all2_conv_all_nth)
    next
      case False
      let ?st = "\<lparr>cp_history = (cp_history st)[idx := e], cp_running = estimate_tokens dumps ((cp_history st)[idx := e]),
          cp_keys = cp_keys st @ [archive_key ikey (cp_history st ! idx) idx],
          cp_archived = cp_archived st @
            (if arch then [(archive_key ikey (cp_history st ! idx) idx, the (response_text (cp_history st ! idx)))] else [])\<rparr>"
      have run: "compact_loop dumps llm ikey arch threshold (idx # idxs) st
          = compact_loop dumps llm ikey arch threshold idxs ?st"
        using Some False by (simp add: Let_def)
      have IH: "list_all2 compacted ((cp_history st)[idx := e])
            (cp_history (compact_loop dumps llm ikey arch threshold idxs ?st))"
        "\<forall>i<length (cp_history st). i \<notin> set idxs \<longrightarrow>
          cp_history (compact_loop dumps llm ikey arch threshold idxs ?st) ! i = (cp_history st)[idx := e] ! i"
        using Cons.IH [of ?st] by (simp_all add: Let_def)
      from list_all2_trans [OF compacted_trans step IH(1)] IH(2)
      show ?thesis unfolding run by (simp add: Let_def)
    qed
  qed
qed

text \<open>The number of entries with a property that compaction cannot touch stays the same.\<close>

lemma compacted_filter:
  assumes "list_all2 compacted h h'"
    and "\<And>n t. \<not> P (Res n (RText t))" and "\<And>n s l k. \<not> P (Res n (RSummary s l k))"
  shows "filter P h' = filter P h"
  using assms(1) by (induction) (auto simp: compacted_def assms(2,3))

lemma compacted_is_result: "compacted e e' \<Longrightarrow> is_result e' = is_result e"
  by (auto simp: compacted_def)

lemma compacted_indices: "list_all2 compacted h h' \<Longrightarrow> tool_result_indices h' = tool_result_indices h"
  by (auto simp: tool_result_indices_def list_all2_conv_all_nth intro!: filter_cong dest: compacted_is_result)

lemma compacted_eligible:
  assumes "list_all2 compacted h h'"
  shows "set (eligible n h') = {i \<in> set (eligible n h). response_text (h' ! i) \<noteq> None}"
proof -
  have orig: "response_text (h' ! i) = Some t \<Longrightarrow> h' ! i = h ! i \<and> \<not> is_already_summarized (h ! i)"
    if "i < length h" for i t
  proof -
    assume r: "response_text (h' ! i) = Some t"
    have "compacted (h ! i) (h' ! i)" using assms that by (simp add: list_all2_conv_all_nth)
    moreover obtain m where "h' ! i = Res m (RText t)"
      using r by (cases "h' ! i" rule: response_text.cases) auto
    ultimately have "h ! i = Res m (RText t) \<and> h' ! i = Res m (RText t)" by (auto simp: compacted_def)
    then show ?thesis by simp
  qed
  have idx: "i \<in> set (tool_result_indices h) \<Longrightarrow> i < length h" for i
    by (simp add: tool_result_indices_def)
  show ?thesis
  proof (rule set_eqI)
    fix i
    show "i \<in> set (eligible n h') \<longleftrightarrow> i \<in> {i \<in> set (eligible n h). response_text (h' ! i) \<noteq> None}"
    proof (cases "i \<in> set (tool_result_indices h) \<and> response_text (h' ! i) \<noteq> None")
      case True
      then obtain v where "i < length h" "response_text (h' ! i) = Some v" using idx by blast
      then have "h' ! i = h ! i" using orig by blast
      then show ?thesis
        unfolding eligible_def kept_recent_def compacted_indices [OF assms] by simp
    next
      case False
      then show ?thesis
        unfolding eligible_def kept_recent_def compacted_indices [OF assms] by auto
    qed
  qed
qed

lemma compact_loop_running:
  "cp_running st = estimate_tokens dumps (cp_history st) \<Longrightarrow>
   cp_running (compact_loop dumps llm ikey arch threshold idxs st)
     = estimate_tokens dumps (cp_history (compact_loop dumps llm ikey arch threshold idxs st))"
  by (induction idxs arbitrary: st) (simp_all add: Let_def split: option.split)

definition changed :: "history \<Rightarrow> history \<Rightarrow> nat set" where
  "changed h h' = {i. i < length h \<and> h' ! i \<noteq> h ! i}"

lemma finite_changed [simp]: "finite (changed h h')"
  by (simp add: changed_def)

text \<open>Each rewritten entry is counted once; with a summariser that never fails the loop stops only
  because the history is small enough or because nothing is left to rewrite.\<close>

lemma compact_loop_counts:
  assumes "distinct idxs" and "\<forall>i\<in>set idxs. i < length (cp_history st) \<and> response_text (cp_history st ! i) \<noteq> None"
  shows "let st' = compact_loop dumps llm ikey arch threshold idxs st in
     length (cp_keys st') = length (cp_keys st) + card (changed (cp_history st) (cp_history st'))
     \<and> ((\<forall>n t. \<exists>c. llm n t = Inr c \<and> py_strip c \<noteq> []) \<longrightarrow>
          cp_running st' < threshold \<or> (\<forall>i\<in>set idxs. response_text (cp_history st' ! i) = None))"
  using assms
proof (induction idxs arbitrary: st)
  case Nil
  then show ?case by (simp add: changed_def)
next
  case (Cons idx idxs)
  let ?h = "cp_history st"
  have here: "idx < length ?h" "response_text (?h ! idx) \<noteq> None" "idx \<notin> set idxs" "distinct idxs"
    using Cons.prems by auto
  show ?case
  proof (cases "summary_for llm ikey (?h ! idx) idx")
    case None
    have N: "\<not> (\<forall>n t. \<exists>c. llm n t = Inr c \<and> py_strip c \<noteq> [])"
    proof
      assume ok: "\<forall>n t. \<exists>c. llm n t = Inr c \<and> py_strip c \<noteq> []"
      obtain v where "response_text (?h ! idx) = Some v" using here(2) by blast
      moreover obtain c where "llm (tool_name_of (?h ! idx)) v = Inr c" "py_strip c \<noteq> []" using ok by metis
      ultimately show False using None by (simp add: summary_for_def Let_def)
    qed
    have "length (cp_keys (compact_loop dumps llm ikey arch threshold idxs st))
        = length (cp_keys st) + card (changed ?h (cp_history (compact_loop dumps llm ikey arch threshold idxs st)))"
      using Cons.IH [of st] Cons.prems by (simp add: Let_def)
    then show ?thesis using None N
      by (cases "cp_running st < threshold") (simp_all only: Let_def changed_def compact_loop.simps, simp_all)
  next
    case (Some e)
    show ?thesis
    proof (cases "cp_running st < threshold")
      case True
      then show ?thesis by (simp add: changed_def)
    next
      case False
      let ?key = "archive_key ikey (?h ! idx) idx"
      let ?st = "\<lparr>cp_history = ?h[idx := e], cp_running = estimate_tokens dumps (?h[idx := e]),
          cp_keys = cp_keys st @ [?key],
          cp_archived = cp_archived st @ (if arch then [(?key, the (response_text (?h ! idx)))] else [])\<rparr>"
      let ?st' = "compact_loop dumps llm ikey arch threshold idxs ?st"
      have run: "compact_loop dumps llm ikey arch threshold (idx # idxs) st = ?st'"
        using Some False by (simp add: Let_def)
      have e: "response_text e = None" "e \<noteq> ?h ! idx"
        using Some here(2) by (cases "?h ! idx" rule: response_text.cases;
          auto simp: summary_for_def Let_def split: sum.splits if_splits)+
      have rest: "\<forall>i\<in>set idxs. i < length (cp_history ?st) \<and> response_text (cp_history ?st ! i) \<noteq> None"
        using Cons.prems(2) here(3) by (auto simp: nth_list_update)
      note IH = Cons.IH [OF here(4) rest, unfolded Let_def]
      note F = compact_loop_facts [where st = ?st and dumps = dumps and llm = llm and ikey = ikey and arch = arch
          and threshold = threshold and idxs = idxs, unfolded Let_def]
      have "length (cp_history ?st') = length ?h" using list_all2_lengthD [OF conjunct1 [OF F]] by simp
      moreover have "cp_history ?st' ! idx = e" using conjunct2 [OF F] here(1,3) by simp
      ultimately have keep: "cp_history ?st' ! idx = e" "length (cp_history ?st') = length ?h" by simp_all
      have ch: "changed ?h (cp_history ?st') = insert idx (changed (?h[idx := e]) (cp_history ?st'))"
        using here(1) e(2) keep by (auto simp: changed_def nth_list_update)
      have "idx \<notin> changed (?h[idx := e]) (cp_history ?st')" using keep here(1) by (simp add: changed_def)
      then have "card (changed ?h (cp_history ?st')) = Suc (card (changed (?h[idx := e]) (cp_history ?st')))"
        by (simp add: ch)
      then have "length (cp_keys ?st) + card (changed (?h[idx := e]) (cp_history ?st'))
          = length (cp_keys st) + card (changed ?h (cp_history ?st'))" by simp
      moreover have "length (cp_keys ?st') = length (cp_keys ?st) + card (changed (?h[idx := e]) (cp_history ?st'))"
        using conjunct1 [OF IH] by (simp only: compacting.select_convs)
      ultimately have "length (cp_keys ?st') = length (cp_keys st) + card (changed ?h (cp_history ?st'))"
        by (rule trans [rotated])
      moreover have "response_text (cp_history ?st' ! idx) = None" using keep(1) e(1) by (simp only:)
      then have "(\<forall>n t. \<exists>c. llm n t = Inr c \<and> py_strip c \<noteq> []) \<longrightarrow>
          cp_running ?st' < threshold \<or> (\<forall>i\<in>set (idx # idxs). response_text (cp_history ?st' ! i) = None)"
        using conjunct2 [OF IH] by (metis set_ConsD)
      ultimately show ?thesis unfolding run Let_def by (rule conjI)
    qed
  qed
qed

lemma distinct_compact_order: "distinct (compact_order n h)"
  by (simp add: compact_order_def eligible_def tool_result_indices_def)

lemma set_compact_order: "set (compact_order n h) = set (eligible n h)"
  by (simp add: compact_order_def)

lemma eligibleD: "i \<in> set (eligible n h) \<Longrightarrow>
    i < length h \<and> response_text (h ! i) \<noteq> None \<and> i \<notin> kept_recent n h"
  by (auto simp: eligible_def tool_result_indices_def)

lemma compact_history_compacted: "list_all2 compacted h (fst (compact_history dumps llm h m f n iid arch))"
proof -
  have refl: "list_all2 compacted h h" by (simp add: list_all2_conv_all_nth)
  show ?thesis
    using refl compact_loop_facts [where dumps = dumps and llm = llm and arch = arch
        and st = "\<lparr>cp_history = h, cp_running = estimate_tokens dumps h, cp_keys = [], cp_archived = []\<rparr>"]
    by (simp add: compact_history_def Let_def)
qed

abbreviation compact_threshold :: "real \<Rightarrow> int \<Rightarrow> int" where
  "compact_threshold f m \<equiv> py_trunc (f * real_of_int m)"

text \<open>C27: compaction keeps the history's length, order, roles and names; it only turns texts into
  summaries that record the length of the text, never one of the last \<open>keep_recent_n\<close> tool results and
  never an error; below the threshold it changes nothing; and its statistics are true.\<close>

theorem compact_history_spec:
  assumes "compact_history dumps llm h m f n iid arch = (h', st, archived)"
  shows "list_all2 compacted h h' \<and> changed h h' \<subseteq> set (eligible n h)
    \<and> changed h h' \<inter> kept_recent n h = {}
    \<and> (estimate_tokens dumps h < compact_threshold f m \<longrightarrow> h' = h \<and> archived = [])
    \<and> st_tokens_before st = estimate_tokens dumps h \<and> st_tokens_after st = estimate_tokens dumps h'
    \<and> st_compacted st = card (changed h h')"
proof (cases "estimate_tokens dumps h < compact_threshold f m \<or> eligible n h = []")
  case True
  then have "h' = h \<and> archived = [] \<and> st = \<lparr>st_compacted = 0, st_tokens_before = estimate_tokens dumps h,
      st_tokens_after = estimate_tokens dumps h, st_summarized_entries = []\<rparr>"
    using assms by (auto simp: compact_history_def Let_def split: if_splits)
  then show ?thesis by (simp add: changed_def list_all2_conv_all_nth)
next
  case False
  let ?ikey = "case iid of None \<Rightarrow> ''anon'' | Some i \<Rightarrow> if i = [] then ''anon'' else i"
  let ?st0 = "\<lparr>cp_history = h, cp_running = estimate_tokens dumps h, cp_keys = [], cp_archived = []\<rparr>"
  let ?st' = "compact_loop dumps llm ?ikey arch (compact_threshold f m) (compact_order n h) ?st0"
  have res: "h' = cp_history ?st'" "st = \<lparr>st_compacted = length (cp_keys ?st'),
      st_tokens_before = estimate_tokens dumps h, st_tokens_after = estimate_tokens dumps (cp_history ?st'),
      st_summarized_entries = cp_keys ?st'\<rparr>"
    using assms False by (auto simp: compact_history_def Let_def)
  have all2: "list_all2 compacted h h'"
    and keep: "\<forall>i<length h. i \<notin> set (eligible n h) \<longrightarrow> h' ! i = h ! i"
    using compact_loop_facts [where st = ?st0 and idxs = "compact_order n h" and dumps = dumps and llm = llm
        and ikey = ?ikey and arch = arch and threshold = "compact_threshold f m"]
    by (simp_all add: Let_def res set_compact_order)
  have "length (cp_keys ?st') = card (changed h h')"
    using compact_loop_counts [where st = ?st0 and idxs = "compact_order n h" and dumps = dumps and llm = llm
        and ikey = ?ikey and arch = arch and threshold = "compact_threshold f m"]
    by (simp add: Let_def res distinct_compact_order set_compact_order eligibleD)
  moreover have "changed h h' \<subseteq> set (eligible n h)" using keep by (auto simp: changed_def)
  ultimately show ?thesis
    using all2 False by (auto simp: res(2) res(1) [symmetric] dest: eligibleD)
qed

theorem compact_history_spec_witness:
  "let h = [Msg ''user'' ''q'', Res ''a'' (RText (replicate 400 (CHR ''x''))), Res ''b'' (RText ''y'')];
       out = compact_history (\<lambda>_. []) (\<lambda>_ _. Inr ''ok'') h 100 (1 / 2) 1 None False
   in changed h (fst out) \<inter> kept_recent 1 h = {} \<and> st_compacted (fst (snd out)) = card (changed h (fst out))"
proof -
  let ?h = "[Msg ''user'' ''q'', Res ''a'' (RText (replicate 400 (CHR ''x''))), Res ''b'' (RText ''y'')]"
  let ?out = "compact_history (\<lambda>_. []) (\<lambda>_ _. Inr ''ok'') ?h 100 (1 / 2) 1 None False"
  have "?out = (fst ?out, fst (snd ?out), snd (snd ?out))" by simp
  from compact_history_spec [OF this] show ?thesis unfolding Let_def by blast
qed

lemma compact_unchanged:
  "estimate_tokens dumps h < compact_threshold f m \<or> eligible n h = [] \<Longrightarrow>
   fst (compact_history dumps llm h m f n iid arch) = h \<and> snd (snd (compact_history dumps llm h m f n iid arch)) = []"
  by (auto simp: compact_history_def Let_def)

text \<open>Compaction is idempotent when the summariser answers: a second pass over its own result changes
  and archives nothing, whatever the model would say, so it makes no difference whether it is asked.\<close>

theorem compact_history_idempotent:
  assumes "\<forall>name txt. \<exists>c. llm name txt = Inr c \<and> py_strip c \<noteq> []"
  shows "let h' = fst (compact_history dumps llm h m f n iid arch) in
     fst (compact_history dumps llm' h' m f n iid' arch') = h'
     \<and> snd (snd (compact_history dumps llm' h' m f n iid' arch')) = []"
proof (cases "estimate_tokens dumps h < compact_threshold f m \<or> eligible n h = []")
  case True
  then have "fst (compact_history dumps llm h m f n iid arch) = h" using compact_unchanged by blast
  then show ?thesis using compact_unchanged [OF True] by (simp add: Let_def)
next
  case False
  let ?ikey = "case iid of None \<Rightarrow> ''anon'' | Some i \<Rightarrow> if i = [] then ''anon'' else i"
  let ?st0 = "\<lparr>cp_history = h, cp_running = estimate_tokens dumps h, cp_keys = [], cp_archived = []\<rparr>"
  let ?st' = "compact_loop dumps llm ?ikey arch (compact_threshold f m) (compact_order n h) ?st0"
  have h': "fst (compact_history dumps llm h m f n iid arch) = cp_history ?st'"
    using False by (simp add: compact_history_def Let_def)
  have run: "cp_running ?st' = estimate_tokens dumps (cp_history ?st')"
    by (rule compact_loop_running) simp
  have all2: "list_all2 compacted h (cp_history ?st')"
    using compact_loop_facts [where st = ?st0 and idxs = "compact_order n h" and dumps = dumps and llm = llm
        and ikey = ?ikey and arch = arch and threshold = "compact_threshold f m"] by (simp add: Let_def)
  have "cp_running ?st' < compact_threshold f m \<or> (\<forall>i\<in>set (eligible n h). response_text (cp_history ?st' ! i) = None)"
    using compact_loop_counts [where st = ?st0 and idxs = "compact_order n h" and dumps = dumps and llm = llm
        and ikey = ?ikey and arch = arch and threshold = "compact_threshold f m"] assms
    by (simp add: Let_def distinct_compact_order set_compact_order eligibleD)
  then have "estimate_tokens dumps (cp_history ?st') < compact_threshold f m \<or> eligible n (cp_history ?st') = []"
  proof
    assume "\<forall>i\<in>set (eligible n h). response_text (cp_history ?st' ! i) = None"
    then have "set (eligible n (cp_history ?st')) = {}" using compacted_eligible [OF all2] by auto
    then show ?thesis by simp
  qed (simp add: run)
  from compact_unchanged [OF this] show ?thesis by (simp add: Let_def h')
qed

theorem compact_history_idempotent_witness:
  "let h = [Res ''a'' (RText (replicate 400 (CHR ''x''))), Res ''b'' (RText ''y'')];
       h' = fst (compact_history (\<lambda>_. []) (\<lambda>_ _. Inr ''ok'') h 100 (1 / 2) 1 None False)
   in fst (compact_history (\<lambda>_. []) (\<lambda>_ _. Inl IndexError) h' 100 (1 / 2) 1 None True) = h'"
proof -
  have "py_strip ''ok'' \<noteq> []" by code_simp
  then have "\<forall>name txt. \<exists>c. (\<lambda>_ _. Inr ''ok'' :: string result) (name :: string) (txt :: string) = Inr c \<and> py_strip c \<noteq> []"
    by simp
  from compact_history_idempotent [OF this, of "\<lambda>_. []" "[Res ''a'' (RText (replicate 400 (CHR ''x''))), Res ''b'' (RText ''y'')]"
      100 "1 / 2" 1 None False "\<lambda>_ _. Inl IndexError" None True]
  show ?thesis by (simp only: Let_def)
qed

end
