(* ===== verification/Chart_Tool.thy ===== *)
theory Chart_Tool
  imports Plan_Tool Compactor
begin

text \<open>
  The \<open>render_chart\<close> engine tool (\<open>opsrag/agent/services/chart_tool.py\<close>): a model-written payload is
  checked and normalised into a chart, written to the tool history as text, and read back from it.
  \<open>pf\<close> is \<open>float\<close> on strings, \<open>other\<close> is \<open>str\<close> on floats and containers, \<open>dumps\<close> and \<open>loads\<close> are
  the \<open>json\<close> module.
\<close>

subsection \<open>Charts\<close>

definition valid_types :: "string list" where "valid_types = [''line'', ''bar'', ''pie'']"
definition max_series :: nat where "max_series = 8"
definition max_points :: nat where "max_points = 500"
definition chart_tool_name :: string where "chart_tool_name = ''render_chart''"

record chart_point =
  pt_x :: string
  pt_y :: pyfloat

record chart_series =
  se_label :: string
  se_points :: "chart_point list"

record chart_spec =
  ch_type :: string
  ch_title :: string
  ch_series :: "chart_series list"
  ch_labels :: "(string, string) dict"

text \<open>\<open>(v or [])[:n]\<close>, the items that a loop over it sees: a string slices to its characters, a dict or a
  number cannot be sliced.\<close>

definition sliced :: "nat \<Rightarrow> json \<Rightarrow> json list result" where
  "sliced n v =
     (if \<not> truthy v then Inr []
      else case v of
        JList xs \<Rightarrow> Inr (take n xs)
      | JStr s \<Rightarrow> Inr (map (\<lambda>c. JStr [c]) (take n s))
      | _ \<Rightarrow> Inl (TypeError ''slice''))"

text \<open>\<open>str(v or "")\<close>.\<close>

definition str_or_empty :: "(json \<Rightarrow> string) \<Rightarrow> json \<Rightarrow> string" where
  "str_or_empty other v = (if truthy v then json_str other v else [])"

definition or_default :: "string \<Rightarrow> string \<Rightarrow> string" where
  "or_default s d = (if s = [] then d else s)"

text \<open>Only a \<open>TypeError\<close> and a \<open>ValueError\<close> are caught.\<close>

definition coerce_float :: "(string \<Rightarrow> pyfloat option) \<Rightarrow> json \<Rightarrow> pyfloat option result" where
  "coerce_float pf v =
     (case py_float pf v of
        Inl (TypeError _) \<Rightarrow> Inr None
      | Inl (ValueError _) \<Rightarrow> Inr None
      | Inl e \<Rightarrow> Inl e
      | Inr x \<Rightarrow> Inr (Some x))"

definition point_of ::
  "(string \<Rightarrow> pyfloat option) \<Rightarrow> (json \<Rightarrow> string) \<Rightarrow> json \<Rightarrow> chart_point option result" where
  "point_of pf other p =
     (case p of
        JObj d \<Rightarrow>
          (case coerce_float pf (dget JNull ''y'' d) of
             Inl e \<Rightarrow> Inl e
           | Inr None \<Rightarrow> Inr None
           | Inr (Some y) \<Rightarrow>
               (let x = dget JNull ''x'' d
                in Inr (Some \<lparr>pt_x = (if x = JNull then [] else json_str other x), pt_y = y\<rparr>)))
      | _ \<Rightarrow> Inr None)"

definition series_of ::
  "(string \<Rightarrow> pyfloat option) \<Rightarrow> (json \<Rightarrow> string) \<Rightarrow> json \<Rightarrow> chart_series option result" where
  "series_of pf other s =
     (case s of
        JObj d \<Rightarrow>
          (case sliced max_points (dget JNull ''points'' d) of
             Inl e \<Rightarrow> Inl e
           | Inr items \<Rightarrow>
               (case traverse (point_of pf other) items of
                  Inl e \<Rightarrow> Inl e
                | Inr ps \<Rightarrow>
                    (let points = List.map_filter id ps
                     in Inr (if points = [] then None
                             else Some \<lparr>se_label = or_default (py_strip (str_or_empty other (dget JNull ''label'' d))) ''series'',
                                        se_points = points\<rparr>))))
      | _ \<Rightarrow> Inr None)"

definition label_of :: "obj \<Rightarrow> string \<Rightarrow> (string \<times> string) option" where
  "label_of args key =
     (case map_of args key of
        Some (JStr v) \<Rightarrow> if py_strip v = [] then None else Some (key, py_strip v)
      | _ \<Rightarrow> None)"

definition build_chart_spec ::
  "(string \<Rightarrow> pyfloat option) \<Rightarrow> (json \<Rightarrow> string) \<Rightarrow> json \<Rightarrow> chart_spec option result" where
  "build_chart_spec pf other payload =
     (case payload of
        JObj args \<Rightarrow>
          (let ctype = dget JNull ''type'' args in
           if \<not> hashable ctype then Inl (TypeError ''unhashable type'')
           else if ctype \<notin> JStr ` set valid_types then Inr None
           else
             (case sliced max_series (dget JNull ''series'' args) of
                Inl e \<Rightarrow> Inl e
              | Inr items \<Rightarrow>
                  (case traverse (series_of pf other) items of
                     Inl e \<Rightarrow> Inl e
                   | Inr ss \<Rightarrow>
                       (let series = List.map_filter id ss in
                        if series = [] then Inr None
                        else Inr (Some
                          \<lparr>ch_type = json_str other ctype,
                           ch_title = or_default (py_strip (str_or_empty other (dget JNull ''title'' args))) ''Chart'',
                           ch_series = series,
                           ch_labels = List.map_filter (label_of args) [''unit'', ''x_label'', ''y_label'']\<rparr>)))))
      | _ \<Rightarrow> Inr None)"

text \<open>The normalised chart as the dict that the code builds.\<close>

definition point_json :: "chart_point \<Rightarrow> json" where
  "point_json p = JObj [(''x'', JStr (pt_x p)), (''y'', JFloat (pt_y p))]"

definition series_json :: "chart_series \<Rightarrow> json" where
  "series_json s = JObj [(''label'', JStr (se_label s)), (''points'', JList (map point_json (se_points s)))]"

definition spec_obj :: "chart_spec \<Rightarrow> obj" where
  "spec_obj c =
     [(''type'', JStr (ch_type c)), (''title'', JStr (ch_title c)), (''series'', JList (map series_json (ch_series c)))]
     @ map (\<lambda>(k, v). (k, JStr v)) (ch_labels c)"

definition to_component :: "obj \<Rightarrow> json" where
  "to_component spec = JObj [(''component'', JStr ''Chart''), (''props'', JObj spec)]"

fun chart_of_entry :: "(string \<Rightarrow> json result) \<Rightarrow> entry \<Rightarrow> json option" where
  "chart_of_entry loads (Res name (RText t)) =
     (if name \<noteq> chart_tool_name \<or> py_strip t = [] then None
      else (case loads t of
              Inr (JObj spec) \<Rightarrow> if truthy (dget JNull ''series'' spec) then Some (to_component spec) else None
            | _ \<Rightarrow> None))"
| "chart_of_entry loads _ = None"

definition extract_chart_from_history :: "(string \<Rightarrow> json result) \<Rightarrow> history \<Rightarrow> json list" where
  "extract_chart_from_history loads h = List.map_filter (chart_of_entry loads) h"

subsection \<open>What a chart satisfies\<close>

lemma length_map_filter: "length (List.map_filter f xs) \<le> length xs"
  by (induction xs) (auto simp: map_filter_simps split: option.splits)

lemma length_traverse: "traverse f xs = Inr ys \<Longrightarrow> length ys = length xs"
  by (induction xs arbitrary: ys) (auto split: sum.splits)

lemma traverse_result: "traverse f xs = Inr ys \<Longrightarrow> y \<in> set ys \<Longrightarrow> \<exists>x \<in> set xs. f x = Inr y"
  by (induction xs arbitrary: ys) (auto split: sum.splits)

lemma length_sliced: "sliced n v = Inr xs \<Longrightarrow> length xs \<le> n"
  by (auto simp: sliced_def split: if_splits json.splits)

lemma or_default_nonempty: "d \<noteq> [] \<Longrightarrow> or_default s d \<noteq> []"
  by (simp add: or_default_def)

definition series_ok :: "chart_series \<Rightarrow> bool" where
  "series_ok s \<longleftrightarrow> se_label s \<noteq> [] \<and> se_points s \<noteq> [] \<and> length (se_points s) \<le> max_points"

lemma series_of_ok: "series_of pf other j = Inr (Some s) \<Longrightarrow> series_ok s"
proof -
  assume "series_of pf other j = Inr (Some s)"
  then obtain d items ps where d: "sliced max_points (dget JNull ''points'' d) = Inr items"
      "traverse (point_of pf other) items = Inr ps"
    and s: "List.map_filter id ps \<noteq> []" "se_points s = List.map_filter id ps"
      "se_label s = or_default (py_strip (str_or_empty other (dget JNull ''label'' d))) ''series''"
    by (auto simp: series_of_def Let_def split: json.splits sum.splits if_splits)
  have "length (List.map_filter id ps) \<le> max_points"
    using length_sliced [OF d(1)] length_traverse [OF d(2)] length_map_filter [of id ps] by simp
  with s show ?thesis by (simp add: series_ok_def or_default_nonempty)
qed

text \<open>A chart that is built is plottable and bounded: its type is one of the three, it has a title, between
  one and eight series, each with a label and between one and five hundred points.\<close>

theorem build_chart_spec_ok:
  assumes "build_chart_spec pf other payload = Inr (Some c)"
  shows "ch_type c \<in> set valid_types \<and> ch_title c \<noteq> [] \<and> ch_series c \<noteq> [] \<and> length (ch_series c) \<le> max_series
     \<and> list_all series_ok (ch_series c)"
proof -
  from assms obtain args where p: "payload = JObj args" by (cases payload) (auto simp: build_chart_spec_def)
  have ctype: "dget JNull ''type'' args \<in> JStr ` set valid_types"
    using assms by (auto simp: build_chart_spec_def p Let_def split: if_splits)
  from assms obtain items ss where
    items: "sliced max_series (dget JNull ''series'' args) = Inr items"
      "traverse (series_of pf other) items = Inr ss" "List.map_filter id ss \<noteq> []"
    and c: "ch_type c = json_str other (dget JNull ''type'' args)" "ch_series c = List.map_filter id ss"
      "ch_title c = or_default (py_strip (str_or_empty other (dget JNull ''title'' args))) ''Chart''"
    by (auto simp: build_chart_spec_def p Let_def split: sum.splits if_splits)
  have "length (List.map_filter id ss) \<le> max_series"
    using length_sliced [OF items(1)] length_traverse [OF items(2)] length_map_filter [of id ss] by simp
  moreover have "series_ok s" if "s \<in> set (List.map_filter id ss)" for s
    using that by (auto simp: map_filter_def dest!: traverse_result [OF items(2)] dest: series_of_ok)
  ultimately show ?thesis
    using ctype c items(3) by (auto simp: or_default_nonempty json_str_def list_all_iff)
qed

definition sample_chart :: json where
  "sample_chart =
     JObj [(''type'', JStr ''bar''),
       (''series'', JList [JObj [(''points'', JList [JObj [(''x'', JStr ''May''), (''y'', JInt 3)], JNull])]])]"

definition sample_spec :: chart_spec where
  "sample_spec = \<lparr>ch_type = ''bar'', ch_title = ''Chart'',
     ch_series = [\<lparr>se_label = ''series'', se_points = [\<lparr>pt_x = ''May'', pt_y = Fin 3\<rparr>]\<rparr>], ch_labels = []\<rparr>"

lemma sample_built: "build_chart_spec (\<lambda>_. None) (\<lambda>_. []) sample_chart = Inr (Some sample_spec)"
  by (simp add: build_chart_spec_def sample_chart_def sample_spec_def dget_def hashable_def valid_types_def sliced_def
      series_of_def point_of_def coerce_float_def py_float_def map_filter_simps or_default_def str_or_empty_def
      label_of_def json_str_def py_strip_def py_lstrip_def py_rstrip_def max_series_def max_points_def)

theorem build_chart_spec_ok_witness:
  "ch_title sample_spec \<noteq> [] \<and> length (ch_series sample_spec) \<le> max_series"
  using build_chart_spec_ok [OF sample_built] by blast

text \<open>A chart survives a reload. The text that the tool caller writes for a built chart is read back, from any
  history around it, as the component of that chart, in its place among the others, as long as the text parses back
  to the dict it was printed from and is not blank.\<close>

theorem chart_survives_reload:
  assumes "build_chart_spec pf other payload = Inr (Some c)"
    and "loads (dumps (JObj (spec_obj c))) = Inr (JObj (spec_obj c))" and "py_strip (dumps (JObj (spec_obj c))) \<noteq> []"
  shows "extract_chart_from_history loads (h @ Res chart_tool_name (RText (dumps (JObj (spec_obj c)))) # h') =
     extract_chart_from_history loads h @ to_component (spec_obj c) # extract_chart_from_history loads h'"
proof -
  have "ch_series c \<noteq> []" using assms(1)
    by (cases payload) (auto simp: build_chart_spec_def Let_def split: sum.splits if_splits)
  then have "truthy (dget JNull ''series'' (spec_obj c))" by (simp add: spec_obj_def dget_def)
  then show ?thesis
    using assms(2,3) by (simp add: extract_chart_from_history_def map_filter_def)
qed

definition one_chart_dumps :: "json \<Rightarrow> string" where "one_chart_dumps j = ''{}''"
definition one_chart_loads :: "string \<Rightarrow> json result" where
  "one_chart_loads t = (if t = ''{}'' then Inr (JObj (spec_obj sample_spec)) else Inl (ValueError t))"

theorem chart_survives_reload_witness:
  "extract_chart_from_history one_chart_loads
     [Msg ''user'' ''q'', Res chart_tool_name (RText (one_chart_dumps (JObj (spec_obj sample_spec))))] =
   [to_component (spec_obj sample_spec)]"
  using chart_survives_reload [where h = "[Msg ''user'' ''q'']" and h' = "[]", OF sample_built,
      of one_chart_loads one_chart_dumps]
  by (simp add: one_chart_dumps_def one_chart_loads_def py_strip_def py_lstrip_def py_rstrip_def is_space_def
      extract_chart_from_history_def map_filter_def)

text \<open>A summarised result is no longer read as a chart: compaction of an old chart entry loses the chart.\<close>

lemma compacted_chart_lost:
  "extract_chart_from_history loads [Res chart_tool_name (RSummary s n key)] = []"
  by (simp add: extract_chart_from_history_def map_filter_def)

text \<open>The validator raises where its comment says that it never does: an unhashable type, a dict for the series
  and an integer beyond the float range.\<close>

lemma build_chart_spec_raises:
  "build_chart_spec pf other (JObj [(''type'', JList [])]) = Inl (TypeError ''unhashable type'')"
  "build_chart_spec pf other (JObj [(''type'', JStr ''bar''), (''series'', JObj [(''a'', JNull)])]) =
     Inl (TypeError ''slice'')"
  "build_chart_spec pf other (JObj [(''type'', JStr ''bar''),
     (''series'', JList [JObj [(''points'', JList [JObj [(''y'', JInt (2 ^ 1024))]])]])]) = Inl OverflowError"
  by (simp_all add: build_chart_spec_def dget_def hashable_def valid_types_def sliced_def max_series_def max_points_def
      series_of_def point_of_def coerce_float_def py_float_def)

end
