(* ===== verification/Agent_Tools.thy ===== *)
theory Agent_Tools
  imports Chart_Tool Connector_Perms Chunk_Model
begin

text \<open>
  The tool caller of the multi-agent graph (\<open>tool_caller_node\<close> in \<open>opsrag/agent/nodes/multi_agent.py\<close>) with the
  helpers it takes from \<open>tool_caller.py\<close>. The state that the nodes of the tool loop share is \<open>agent_state\<close>; what
  lies outside the program is in \<open>tool_env\<close>, and the outcome of the call at each position is a function
  \<open>disp\<close>. A handler that is cancelled or interrupted (\<open>BaseException\<close>) is the left side of the node's result.
  Latencies, timestamps, log lines and the status event are not modelled.
\<close>

subsection \<open>State\<close>

definition max_tool_calls :: nat where "max_tool_calls = 10"
definition max_unknown_tool_rounds :: nat where "max_unknown_tool_rounds = 3"
definition unknown_tool_error_prefix :: string where "unknown_tool_error_prefix = ''TOOL DOES NOT EXIST:''"
definition result_truncate_chars :: nat where "result_truncate_chars = 64000"

type_synonym tool_call = "string \<times> obj"

record audit_row =
  au_name :: string
  au_args :: obj
  au_error :: "string option"
  au_result_chars :: "nat option"
  au_chunks_lifted :: "nat option"

record agent_state =
  ag_query :: string
  ag_tool_calls :: "tool_call list"
  ag_history :: history
  ag_audit :: "audit_row list"
  ag_count :: nat
  ag_chunks :: "chunk list"
  ag_plan :: "json list"
  ag_path_active :: bool
  ag_turn_started :: "real option"
  ag_error :: "string option"
  ag_investigation_id :: "string option"

datatype dispatch_outcome =
    Returned json
  | GitLab_Error int string
  | Failed string
  | Interrupted string

record tool_env =
  env_tools :: "string list"
  env_gate :: tool_gate
  env_float :: "string \<Rightarrow> pyfloat option"
  env_str :: "json \<Rightarrow> string"
  env_dumps :: "json \<Rightarrow> string"
  env_repr :: "string \<Rightarrow> string"
  env_show_stats :: "plan_stats \<Rightarrow> string"
  env_exc :: "py_error \<Rightarrow> string"
  env_summarizer :: "(string \<Rightarrow> string \<Rightarrow> string result) option"

subsection \<open>Helpers\<close>

text \<open>\<open>_registry()\<close> of the multi-agent module: the enabled tools by name.\<close>

definition in_registry :: "tool_env \<Rightarrow> string \<Rightarrow> bool" where
  "in_registry env name \<longleftrightarrow> Some name \<in> set (filter_enabled (env_gate env) (map Some (env_tools env)))"

definition truncate_text :: "nat \<Rightarrow> string \<Rightarrow> string" where
  "truncate_text limit s =
     (if limit < length s then take limit s @ ''... [truncated '' @ str_nat (length s - limit) @ '' chars]'' else s)"

definition safe_json :: "(json \<Rightarrow> string) \<Rightarrow> json \<Rightarrow> nat \<Rightarrow> string" where
  "safe_json dumps j limit = truncate_text limit (dumps j)"

text \<open>The hits of \<open>knowledge_search\<close>; the tool writes their fields as strings.\<close>

definition str_field :: "obj \<Rightarrow> string \<Rightarrow> string" where
  "str_field d k = (case map_of d k of Some (JStr s) \<Rightarrow> s | _ \<Rightarrow> [])"

definition truthy_field :: "obj \<Rightarrow> string \<Rightarrow> string \<Rightarrow> obj" where
  "truthy_field d k k' = (let v = dget JNull k d in if truthy v then [(k', v)] else [])"

definition hit_chunk :: "json \<Rightarrow> chunk option" where
  "hit_chunk h =
     (case h of
        JObj d \<Rightarrow>
          (let src = str_field d ''source''; rp = str_field d ''repo'' in
           if src = [] then None
           else Some \<lparr>chunk_id = ''mcp:knowledge_search:'' @ rp @ '':'' @ src, content = str_field d ''content'',
                  chunk_doc_type = GENERIC_MARKDOWN, source_path = src, repo = rp,
                  metadata = truthy_field d ''url'' ''page_url'' @ truthy_field d ''title'' ''title''
                    @ truthy_field d ''priority'' ''priority'',
                  parent_chunk_id = None, chunk_type = ''parent'', token_count = 0, embed_content = None\<rparr>)
      | _ \<Rightarrow> None)"

definition extract_chunks_from_knowledge_search :: "json \<Rightarrow> chunk list result" where
  "extract_chunks_from_knowledge_search j =
     (case j of JObj d \<Rightarrow> map_sum id (List.map_filter hit_chunk) (iterate_or_empty (dget JNull ''results'' d)) | _ \<Rightarrow> Inr [])"

text \<open>The chunks lifted from a result: only the retrieval tool has an extractor, and its failure lifts nothing.\<close>

definition lifted :: "string \<Rightarrow> json \<Rightarrow> chunk list" where
  "lifted name j =
     (if name = ''knowledge_search''
      then (case extract_chunks_from_knowledge_search j of Inl _ \<Rightarrow> [] | Inr cs \<Rightarrow> cs) else [])"

definition source_key :: "chunk \<Rightarrow> string \<times> string" where
  "source_key c = (repo c, source_path c)"

fun dedupe_chunks_from :: "(string \<times> string) set \<Rightarrow> chunk list \<Rightarrow> chunk list" where
  "dedupe_chunks_from seen [] = []"
| "dedupe_chunks_from seen (c # cs) =
     (if source_key c \<in> seen then dedupe_chunks_from seen cs else c # dedupe_chunks_from (insert (source_key c) seen) cs)"

definition dedupe_chunks :: "chunk list \<Rightarrow> chunk list" where
  "dedupe_chunks cs = dedupe_chunks_from {} cs"

subsection \<open>Errors for names that are not in the registry\<close>

definition permission_denied_text :: "(string \<Rightarrow> string) \<Rightarrow> string \<Rightarrow> string \<Rightarrow> string" where
  "permission_denied_text r name conn =
     ''PERMISSION DENIED: '' @ r name @ '' belongs to the '' @ r conn
     @ '' connector, which the current user is NOT permitted to use. This is an authorization boundary, not a missing capability. DO NOT retry, DO NOT claim the data doesn''
     @ [CHR 0x27] @ ''t exist, and DO NOT fabricate a result. Tell the user they don'' @ [CHR 0x27]
     @ ''t have permission to access that data and can request it from an OpsRAG admin.''"

definition exec_like :: "string \<Rightarrow> bool" where
  "exec_like name =
     list_ex (\<lambda>m. py_in m (py_lower name))
       [''exec'', ''shell'', ''run_command'', ''ssh'', ''kubectl'', ''_run_'', ''command'']"

definition unknown_tool_text :: "(string \<Rightarrow> string) \<Rightarrow> string \<Rightarrow> string" where
  "unknown_tool_text r name =
     unknown_tool_error_prefix @ '' '' @ r name @ '' is not registered. ''
     @ (if exec_like name
        then ''OpsRAG has NO exec / shell / command-execution capability in any environment. Pod-exec, kubectl-exec, and container shell access are NOT implemented and the service account has NO `pods/exec` RBAC. DO NOT claim you ran a command. DO NOT fabricate command output. DO NOT print any value of a secret / key / password / token -- not even partial characters. Reply HONESTLY: ''
          @ [CHR 0x27] @ ''OpsRAG cannot exec into pods. To verify, run `kubectl exec` from your workstation.'' @ [CHR 0x27]
        else ''Pick a real tool from the catalog. DO NOT claim you got data from this tool.'')"

fun is_unknown_marker :: "entry \<Rightarrow> bool" where
  "is_unknown_marker (Res _ (RError e _)) = startswith e unknown_tool_error_prefix"
| "is_unknown_marker _ = False"

definition unknown_rounds :: "history \<Rightarrow> nat" where
  "unknown_rounds h = length (filter is_unknown_marker h)"

definition denied_connector :: "tool_env \<Rightarrow> string \<Rightarrow> string option" where
  "denied_connector env name =
     (case connector_for_tool (env_gate env) (Some name) of
        None \<Rightarrow> None
      | Some c \<Rightarrow> if c \<in> denied_connectors (env_gate env) then Some c else None)"

subsection \<open>The pre-walk\<close>

datatype kind = Update_Plan | Render_Chart | Unknown | Real

definition kind_of :: "tool_env \<Rightarrow> string \<Rightarrow> kind" where
  "kind_of env name =
     (if name = ''update_plan'' then Update_Plan
      else if name = ''render_chart'' then Render_Chart
      else if in_registry env name then Real else Unknown)"

text \<open>Each pending call with its position and kind, up to the cap; an unknown name takes no slot.\<close>

fun classify :: "tool_env \<Rightarrow> nat \<Rightarrow> nat \<Rightarrow> tool_call list \<Rightarrow> (kind \<times> nat \<times> tool_call) list" where
  "classify env sim i [] = []"
| "classify env sim i (c # cs) =
     (if max_tool_calls \<le> sim then []
      else (let k = kind_of env (fst c)
            in (k, i, c) # classify env (if k = Unknown then sim else sim + 1) (i + 1) cs))"

subsection \<open>Applying a result\<close>

record tool_run =
  tr_history :: history
  tr_audit :: "audit_row list"
  tr_count :: nat
  tr_chunks :: "chunk list"
  tr_plan :: "json list"

definition plain_row :: "string \<Rightarrow> obj \<Rightarrow> audit_row" where
  "plain_row name args =
     \<lparr>au_name = name, au_args = args, au_error = None, au_result_chars = None, au_chunks_lifted = None\<rparr>"

definition error_row :: "string \<Rightarrow> obj \<Rightarrow> string \<Rightarrow> audit_row" where
  "error_row name args e = (plain_row name args)\<lparr>au_error := Some e\<rparr>"

definition add_result :: "string \<Rightarrow> response \<Rightarrow> audit_row list \<Rightarrow> tool_run \<Rightarrow> tool_run" where
  "add_result name r rows st = st\<lparr>tr_history := tr_history st @ [Res name r], tr_audit := tr_audit st @ rows\<rparr>"

definition charge :: "tool_run \<Rightarrow> tool_run" where
  "charge st = st\<lparr>tr_count := tr_count st + 1\<rparr>"

definition apply_plan :: "tool_env \<Rightarrow> string \<Rightarrow> obj \<Rightarrow> tool_run \<Rightarrow> tool_run" where
  "apply_plan env name args st =
     (case (case iterate_or_empty (dget JNull ''updates'' args) of
              Inl e \<Rightarrow> Inl e | Inr us \<Rightarrow> update_plan (env_float env) (tr_plan st) us) of
        Inl e \<Rightarrow> add_result name (RError (''update_plan failed: '' @ env_exc env e) None) [] st
      | Inr (plan, stats) \<Rightarrow>
          add_result name (RText (''plan updated: '' @ env_show_stats env stats)) [plain_row name args]
            (st\<lparr>tr_plan := plan\<rparr>))"

definition invalid_chart_text :: string where
  "invalid_chart_text = ''render_chart: invalid spec -- need type in {line,bar,pie} and at least one series with numeric points. Chart not rendered.''"

definition apply_chart :: "tool_env \<Rightarrow> string \<Rightarrow> obj \<Rightarrow> tool_run \<Rightarrow> tool_run" where
  "apply_chart env name args st =
     (case build_chart_spec (env_float env) (env_str env) (JObj args) of
        Inl e \<Rightarrow> add_result name (RError (''render_chart failed: '' @ env_exc env e) None) [] st
      | Inr None \<Rightarrow> add_result name (RError invalid_chart_text None) [] st
      | Inr (Some spec) \<Rightarrow>
          add_result name (RText (env_dumps env (JObj (spec_obj spec)))) [plain_row name args] st)"

definition apply_unknown :: "tool_env \<Rightarrow> string \<Rightarrow> obj \<Rightarrow> tool_run \<Rightarrow> tool_run" where
  "apply_unknown env name args st =
     (let err = (case denied_connector env name of
                   Some c \<Rightarrow> permission_denied_text (env_repr env) name c
                 | None \<Rightarrow> unknown_tool_text (env_repr env) name)
      in add_result name (RError err None) [error_row name args err] st)"

definition apply_real :: "tool_env \<Rightarrow> string \<Rightarrow> obj \<Rightarrow> dispatch_outcome \<Rightarrow> tool_run \<Rightarrow> tool_run" where
  "apply_real env name args out st =
     (case out of
        Returned j \<Rightarrow>
          (let t = safe_json (env_dumps env) j result_truncate_chars; new = lifted name j in
           add_result name (RText t)
             [(plain_row name args)\<lparr>au_result_chars := Some (length t), au_chunks_lifted := Some (length new)\<rparr>]
             (st\<lparr>tr_chunks := tr_chunks st @ new\<rparr>))
      | GitLab_Error status m \<Rightarrow> add_result name (RError m (Some status)) [error_row name args m] st
      | Failed m \<Rightarrow>
          add_result name (RError (''unhandled: '' @ m) None) [error_row name args (''unhandled: '' @ m)] st
      | Interrupted _ \<Rightarrow> st)"

fun apply_entry :: "tool_env \<Rightarrow> (nat \<Rightarrow> tool_call \<Rightarrow> dispatch_outcome) \<Rightarrow> kind \<times> nat \<times> tool_call \<Rightarrow> tool_run \<Rightarrow> tool_run" where
  "apply_entry env disp (k, i, (name, args)) st =
     (case k of
        Update_Plan \<Rightarrow> charge (apply_plan env name args st)
      | Render_Chart \<Rightarrow> charge (apply_chart env name args st)
      | Unknown \<Rightarrow> apply_unknown env name args st
      | Real \<Rightarrow> charge (apply_real env name args (disp i (name, args)) st))"

subsection \<open>The node\<close>

text \<open>The gathered results are searched for an interrupt, in order, before anything is applied.\<close>

fun first_interrupt :: "(nat \<Rightarrow> tool_call \<Rightarrow> dispatch_outcome) \<Rightarrow> (kind \<times> nat \<times> tool_call) list \<Rightarrow> string option" where
  "first_interrupt disp [] = None"
| "first_interrupt disp ((k, i, c) # es) =
     (if k = Real then (case disp i c of Interrupted m \<Rightarrow> Some m | _ \<Rightarrow> first_interrupt disp es)
      else first_interrupt disp es)"

definition dedupe_run :: "tool_run \<Rightarrow> tool_run" where
  "dedupe_run st = st\<lparr>tr_chunks := dedupe_chunks (tr_chunks st)\<rparr>"

definition run_pending :: "tool_env \<Rightarrow> (nat \<Rightarrow> tool_call \<Rightarrow> dispatch_outcome) \<Rightarrow> tool_run \<Rightarrow> tool_call list \<Rightarrow> string + tool_run" where
  "run_pending env disp st pending =
     (let es = classify env (tr_count st) 0 pending in
      case first_interrupt disp es of
        Some m \<Rightarrow> Inl m
      | None \<Rightarrow> Inr (dedupe_run (fold (apply_entry env disp) es st)))"

definition compact_for_reasoner :: "tool_env \<Rightarrow> string option \<Rightarrow> history \<Rightarrow> history" where
  "compact_for_reasoner env iid h =
     (case env_summarizer env of
        None \<Rightarrow> h
      | Some llm \<Rightarrow> fst (compact_history (\<lambda>d. env_dumps env (JObj d)) llm h 200000 (7 / 10) 3
          (Some (case iid of None \<Rightarrow> ''anon'' | Some i \<Rightarrow> if i = [] then ''anon'' else i)) False))"

definition tool_caller :: "tool_env \<Rightarrow> (nat \<Rightarrow> tool_call \<Rightarrow> dispatch_outcome) \<Rightarrow> agent_state \<Rightarrow> string + agent_state" where
  "tool_caller env disp s =
     (if ag_tool_calls s = [] then Inr s
      else (case run_pending env disp
              \<lparr>tr_history = ag_history s, tr_audit = ag_audit s, tr_count = ag_count s, tr_chunks = ag_chunks s,
               tr_plan = ag_plan s\<rparr> (ag_tool_calls s) of
              Inl m \<Rightarrow> Inl m
            | Inr st \<Rightarrow> Inr (s\<lparr>ag_tool_calls := [],
                ag_history := compact_for_reasoner env (ag_investigation_id s) (tr_history st),
                ag_audit := tr_audit st, ag_count := tr_count st, ag_chunks := tr_chunks st, ag_plan := tr_plan st\<rparr>)))"

subsection \<open>The parallel caller and the serial loop\<close>

text \<open>The specification: the serial loop that the concurrent dispatch replaced. It stops at the cap, dispatches one
  call at a time, lets an interrupt out at once, and removes duplicate chunks after every call.\<close>

fun serial_pending :: "tool_env \<Rightarrow> (nat \<Rightarrow> tool_call \<Rightarrow> dispatch_outcome) \<Rightarrow> nat \<Rightarrow> tool_run \<Rightarrow> tool_call list \<Rightarrow> string + tool_run" where
  "serial_pending env disp i st [] = Inr st"
| "serial_pending env disp i st (c # cs) =
     (if max_tool_calls \<le> tr_count st then Inr st
      else (let k = kind_of env (fst c) in
            case (if k = Real then disp i c else Returned JNull) of
              Interrupted m \<Rightarrow> Inl m
            | _ \<Rightarrow> serial_pending env disp (i + 1) (dedupe_run (apply_entry env disp (k, i, c) st)) cs))"

lemma dedupe_chunks_from_append:
  "dedupe_chunks_from seen (xs @ ys) = dedupe_chunks_from seen xs @ dedupe_chunks_from (seen \<union> source_key ` set xs) ys"
proof (induction xs arbitrary: seen)
  case (Cons x xs)
  then show ?case by (simp add: insert_absorb Un_insert_left [symmetric] del: Un_insert_left)
qed simp

lemma dedupe_chunks_from_keys: "seen \<union> source_key ` set (dedupe_chunks_from seen xs) = seen \<union> source_key ` set xs"
proof (induction xs arbitrary: seen)
  case (Cons x xs)
  show ?case using Cons [of seen] Cons [of "insert (source_key x) seen"] by (auto simp: insert_absorb)
qed simp

lemma dedupe_chunks_from_idem: "dedupe_chunks_from seen (dedupe_chunks_from seen xs) = dedupe_chunks_from seen xs"
  by (induction xs arbitrary: seen) auto

lemma dedupe_append: "dedupe_chunks (dedupe_chunks xs @ ys) = dedupe_chunks (xs @ ys)"
  using dedupe_chunks_from_keys [of "{}" xs] by (simp add: dedupe_chunks_def dedupe_chunks_from_append dedupe_chunks_from_idem)

lemma dedupe_idem [simp]: "dedupe_chunks (dedupe_chunks xs) = dedupe_chunks xs"
  by (simp add: dedupe_chunks_def dedupe_chunks_from_idem)

lemma dedupe_keys_distinct: "distinct (map source_key (dedupe_chunks cs))"
proof -
  have "distinct (map source_key (dedupe_chunks_from seen cs)) \<and> seen \<inter> source_key ` set (dedupe_chunks_from seen cs) = {}" for seen
  proof (induction cs arbitrary: seen)
    case (Cons c cs)
    show ?case using Cons [of seen] Cons [of "insert (source_key c) seen"] by auto
  qed simp
  then show ?thesis by (simp add: dedupe_chunks_def)
qed

lemmas apply_defs = apply_plan_def apply_chart_def apply_unknown_def apply_real_def add_result_def charge_def

declare apply_entry.simps [simp del]

lemma count_apply_entry [simp]:
  "tr_count (apply_entry env disp (k, i, c) st) = (if k = Unknown then tr_count st else tr_count st + 1)"
  by (cases c; cases k) (auto simp: apply_entry.simps apply_defs Let_def split: sum.splits option.splits dispatch_outcome.splits)

lemma count_dedupe_run [simp]: "tr_count (dedupe_run st) = tr_count st"
  by (simp add: dedupe_run_def)

text \<open>Chunks are only ever appended to, so duplicates may be removed at any time before the end.\<close>

lemma dedupe_apply: "dedupe_run (apply_entry env disp e (dedupe_run st)) = dedupe_run (apply_entry env disp e st)"
  by (cases "(env, disp, e, st)" rule: apply_entry.cases)
     (auto simp: apply_entry.simps apply_defs dedupe_run_def dedupe_append Let_def split: kind.splits sum.splits option.splits dispatch_outcome.splits)

lemma dedupe_fold:
  "dedupe_run (fold (apply_entry env disp) es (dedupe_run st)) = dedupe_run (fold (apply_entry env disp) es st)"
proof (induction es arbitrary: st)
  case (Cons e es)
  have "dedupe_run (fold (apply_entry env disp) es (apply_entry env disp e (dedupe_run st))) =
    dedupe_run (fold (apply_entry env disp) es (dedupe_run (apply_entry env disp e (dedupe_run st))))"
    by (rule Cons.IH [symmetric])
  also have "\<dots> = dedupe_run (fold (apply_entry env disp) es (apply_entry env disp e st))"
    by (simp add: dedupe_apply Cons.IH)
  finally show ?case by simp
qed (simp add: dedupe_run_def)

lemma serial_pending_eq:
  "dedupe_run st = st \<Longrightarrow> serial_pending env disp i st cs =
     (case first_interrupt disp (classify env (tr_count st) i cs) of
        Some m \<Rightarrow> Inl m
      | None \<Rightarrow> Inr (dedupe_run (fold (apply_entry env disp) (classify env (tr_count st) i cs) st)))"
proof (induction cs arbitrary: i st)
  case (Cons c cs)
  let ?k = "kind_of env (fst c)"
  let ?st = "dedupe_run (apply_entry env disp (?k, i, c) st)"
  have "dedupe_run ?st = ?st" by (simp add: dedupe_run_def)
  note IH = Cons.IH [OF this, of "Suc i"]
  show ?case
    using Cons.prems IH by (auto simp: Let_def dedupe_fold split: dispatch_outcome.splits option.splits)
qed simp

text \<open>C2: Dispatching in parallel changes nothing. For any outcomes, the concurrent tool caller (classify every call
  against the budget, run the real ones together, then apply the results in the pending order and remove duplicate
  chunks once) returns what the serial loop returns: the same history, audit trail, budget, plan and chunks, and the
  same interrupt when a call is cancelled.\<close>

theorem parallel_dispatch_serial:
  assumes "dedupe_chunks (tr_chunks st) = tr_chunks st"
  shows "run_pending env disp st pending = serial_pending env disp 0 st pending"
  using serial_pending_eq [of st env disp 0 pending] assms by (simp add: run_pending_def dedupe_run_def Let_def)

definition sample_env :: tool_env where
  "sample_env =
     \<lparr>env_tools = [''knowledge_search'', ''k8s_list_pods''],
      env_gate = \<lparr>registry = [(''kb'', [''knowledge_search'']), (''k8s'', [''k8s_list_pods''])],
        active_enabled = None, request_allowed_tools = Some {''knowledge_search''}, denied_connectors = {''k8s''},
        tool_to_connector = [(''knowledge_search'', ''kb''), (''k8s_list_pods'', ''k8s'')]\<rparr>,
      env_float = (\<lambda>_. None), env_str = (\<lambda>_. []), env_dumps = (\<lambda>_. ''{}''), env_repr = (\<lambda>s. s),
      env_show_stats = (\<lambda>_. []), env_exc = (\<lambda>_. []), env_summarizer = None\<rparr>"

definition sample_pending :: "tool_call list" where
  "sample_pending = [(''knowledge_search'', []), (''k8s_list_pods'', []), (''no_such_tool'', []), (''update_plan'', [])]"

definition sample_hit :: json where
  "sample_hit = JObj [(''results'', JList [JObj [(''source'', JStr ''a.md''), (''repo'', JStr ''r'')],
      JObj [(''source'', JStr ''a.md''), (''repo'', JStr ''r'')]])]"

definition empty_run :: tool_run where
  "empty_run = \<lparr>tr_history = [], tr_audit = [], tr_count = 0, tr_chunks = [], tr_plan = []\<rparr>"

theorem parallel_dispatch_serial_witness:
  "run_pending sample_env (\<lambda>_ _. Returned sample_hit) empty_run sample_pending =
   serial_pending sample_env (\<lambda>_ _. Returned sample_hit) 0 empty_run sample_pending"
  by (rule parallel_dispatch_serial) (simp add: empty_run_def dedupe_chunks_def)

subsection \<open>Budget and answers\<close>

lemma names_apply_entry:
  "\<exists>r. tr_history (apply_entry env disp (k, i, c) st) = tr_history st @ [Res (fst c) r]"
  if "k = Real \<Longrightarrow> \<forall>m. disp i c \<noteq> Interrupted m"
  using that by (cases c; cases k)
    (auto simp: apply_entry.simps apply_defs Let_def split: sum.splits option.splits dispatch_outcome.splits)

lemma no_interrupt:
  "first_interrupt disp es = None \<Longrightarrow> (Real, i, c) \<in> set es \<Longrightarrow> disp i c \<noteq> Interrupted m"
  by (induction es) (auto split: if_splits dispatch_outcome.splits)

lemma fold_names:
  "first_interrupt disp es = None \<Longrightarrow>
   \<exists>rs. tr_history (fold (apply_entry env disp) es st) = tr_history st @ rs
     \<and> map entry_name rs = map (fst \<circ> snd \<circ> snd) es \<and> list_all is_result rs"
proof (induction es arbitrary: st)
  case (Cons e es)
  obtain k i c where e: "e = (k, i, c)" by (cases e)
  have "\<forall>m. disp i c \<noteq> Interrupted m" if "k = Real" using no_interrupt [OF Cons.prems, of i c] that by (simp add: e)
  from names_apply_entry [where k = k and disp = disp and i = i and c = c and env = env and st = st, OF this] obtain r where
    r: "tr_history (apply_entry env disp e st) = tr_history st @ [Res (fst c) r]" by (auto simp: e)
  have "first_interrupt disp es = None"
    using Cons.prems by (auto simp: e split: if_splits dispatch_outcome.splits)
  from Cons.IH [OF this, of "apply_entry env disp e st"] obtain rs where
    "tr_history (fold (apply_entry env disp) (e # es) st) = tr_history st @ Res (fst c) r # rs"
    "map entry_name rs = map (fst \<circ> snd \<circ> snd) es" "list_all is_result rs" by (auto simp: r)
  then show ?case by (intro exI [of _ "Res (fst c) r # rs"]) (simp add: e)
qed simp

definition charged :: "(kind \<times> nat \<times> tool_call) list \<Rightarrow> nat" where
  "charged es = length (filter (\<lambda>e. fst e \<noteq> Unknown) es)"

lemma count_fold: "tr_count (fold (apply_entry env disp) es st) = tr_count st + charged es"
  by (induction es arbitrary: st) (auto simp: charged_def)

lemma charged_classify: "sim + charged (classify env sim i cs) \<le> max sim max_tool_calls"
proof (induction cs arbitrary: sim i)
  case (Cons c cs)
  show ?case
    using Cons [of sim "i + 1"] Cons [of "sim + 1" "i + 1"] by (auto simp: charged_def Let_def)
qed (simp add: charged_def)

lemma classify_prefix: "map (snd \<circ> snd) (classify env sim i cs) = take (length (classify env sim i cs)) cs"
  by (induction cs arbitrary: sim i) (auto simp: Let_def)

lemma classify_complete:
  "length (classify env sim i cs) < length cs \<Longrightarrow> max_tool_calls \<le> sim + charged (classify env sim i cs)"
proof (induction cs arbitrary: sim i)
  case (Cons c cs)
  then show ?case
    using Cons.IH [of sim "i + 1"] Cons.IH [of "sim + 1" "i + 1"] by (auto simp: Let_def charged_def split: if_splits)
qed simp

text \<open>Every call is answered and the budget holds. A round that is not interrupted appends one result per call,
  in the pending order and under the call's name, for a prefix of the pending calls; it takes no more than the calls
  that exist from the budget of ten, whatever the model asked for; and calls are dropped only once the budget is
  spent.\<close>

theorem tool_round_answers:
  assumes "run_pending env disp st pending = Inr st'" and "tr_count st \<le> max_tool_calls"
  shows "\<exists>rs. tr_history st' = tr_history st @ rs \<and> list_all is_result rs
     \<and> map entry_name rs = map fst (take (length rs) pending)
     \<and> tr_count st' \<le> max_tool_calls \<and> tr_count st' \<le> tr_count st + length rs
     \<and> (length rs < length pending \<longrightarrow> tr_count st' = max_tool_calls)"
proof -
  let ?es = "classify env (tr_count st) 0 pending"
  from assms have none: "first_interrupt disp ?es = None"
    and st': "st' = dedupe_run (fold (apply_entry env disp) ?es st)"
    by (auto simp: run_pending_def Let_def split: option.splits)
  from fold_names [OF none, of env st] obtain rs where
    rs: "tr_history st' = tr_history st @ rs" "map entry_name rs = map (fst \<circ> snd \<circ> snd) ?es" "list_all is_result rs"
    by (auto simp: st' dedupe_run_def)
  then have len: "length rs = length ?es" by (metis length_map)
  have "map (fst \<circ> snd \<circ> snd) ?es = map fst (map (snd \<circ> snd) ?es)" by simp
  also have "\<dots> = map fst (take (length rs) pending)" unfolding len classify_prefix ..
  finally have "map entry_name rs = map fst (take (length rs) pending)" using rs(2) by simp
  moreover have "charged ?es \<le> length ?es" by (simp add: charged_def)
  ultimately show ?thesis
    using rs assms(2) len charged_classify [of "tr_count st" env 0 pending]
      classify_complete [of env "tr_count st" 0 pending]
    by (intro exI [of _ rs]) (simp add: st' count_fold)
qed

lemma sample_kinds:
  "classify sample_env 0 0 sample_pending =
     [(Real, 0, (''knowledge_search'', [])), (Unknown, 1, (''k8s_list_pods'', [])), (Unknown, 2, (''no_such_tool'', [])),
      (Update_Plan, 3, (''update_plan'', []))]"
  by (simp add: sample_pending_def kind_of_def in_registry_def filter_enabled_def sample_env_def max_tool_calls_def
      Let_def image_iff)

theorem tool_round_answers_witness:
  "\<exists>st' rs. run_pending sample_env (\<lambda>_ _. Returned sample_hit) empty_run sample_pending = Inr st'
     \<and> tr_history st' = rs \<and> map entry_name rs = map fst (take (length rs) sample_pending)
     \<and> tr_count st' \<le> max_tool_calls"
proof -
  obtain st' where run: "run_pending sample_env (\<lambda>_ _. Returned sample_hit) empty_run sample_pending = Inr st'"
    by (simp add: run_pending_def sample_kinds empty_run_def)
  have "tr_count empty_run \<le> max_tool_calls" by (simp add: empty_run_def)
  from tool_round_answers [OF run this] run show ?thesis by (auto simp: empty_run_def)
qed

subsection \<open>Forbidden tools\<close>

lemma classify_real: "(Real, j, c) \<in> set (classify env sim i cs) \<Longrightarrow> in_registry env (fst c)"
  by (induction cs arbitrary: sim i) (auto simp: Let_def kind_of_def split: if_splits)

lemma apply_entry_cong:
  "(k = Real \<Longrightarrow> disp i c = disp' i c) \<Longrightarrow> apply_entry env disp (k, i, c) st = apply_entry env disp' (k, i, c) st"
  by (cases c; cases k) (auto simp: apply_entry.simps)

lemma fold_apply_cong:
  "(\<And>i c. (Real, i, c) \<in> set es \<Longrightarrow> disp i c = disp' i c) \<Longrightarrow>
   fold (apply_entry env disp) es st = fold (apply_entry env disp') es st"
proof (induction es arbitrary: st)
  case (Cons e es)
  obtain k i c where e: "e = (k, i, c)" by (cases e)
  have "apply_entry env disp e st = apply_entry env disp' e st"
    unfolding e using Cons.prems by (intro apply_entry_cong) (simp add: e)
  moreover have "fold (apply_entry env disp) es s = fold (apply_entry env disp') es s" for s
    using Cons.prems by (intro Cons.IH) simp
  ultimately show ?case by simp
qed simp

lemma first_interrupt_cong:
  "(\<And>i c. (Real, i, c) \<in> set es \<Longrightarrow> disp i c = disp' i c) \<Longrightarrow> first_interrupt disp es = first_interrupt disp' es"
  by (induction es) (auto split: dispatch_outcome.splits)

text \<open>C16: A forbidden tool is never dispatched. Whatever the model asks for, what a round does depends only on the
  outcomes of calls to tools that the request may use: if two worlds agree on those, the node returns the same
  state, whatever the other tools would have answered or raised.\<close>

theorem forbidden_tool_not_dispatched:
  assumes "\<And>i name args. is_tool_allowed (env_gate env) (Some name) \<Longrightarrow> disp i (name, args) = disp' i (name, args)"
  shows "tool_caller env disp s = tool_caller env disp' s"
proof -
  have agree: "disp i c = disp' i c" if "in_registry env (fst c)" for i c
    using assms [of "fst c" i "snd c"] that
    by (auto simp: in_registry_def filter_enabled_def is_tool_allowed_def split: option.splits)
  have "run_pending env disp st p = run_pending env disp' st p" for st p
    using first_interrupt_cong [of "classify env (tr_count st) 0 p" disp disp']
      fold_apply_cong [of "classify env (tr_count st) 0 p" disp disp' env st] agree classify_real
    by (simp add: run_pending_def Let_def split: option.split)
  then show ?thesis by (simp add: tool_caller_def)
qed

definition sample_state :: agent_state where
  "sample_state = \<lparr>ag_query = ''q'', ag_tool_calls = sample_pending, ag_history = [], ag_audit = [], ag_count = 0,
     ag_chunks = [], ag_plan = [], ag_path_active = True, ag_turn_started = None, ag_error = None,
     ag_investigation_id = None\<rparr>"

theorem forbidden_tool_not_dispatched_witness:
  "tool_caller sample_env (\<lambda>_ _. Returned sample_hit) sample_state =
   tool_caller sample_env (\<lambda>_ c. if fst c = ''knowledge_search'' then Returned sample_hit else Interrupted ''x'') sample_state"
  by (rule forbidden_tool_not_dispatched) (simp add: is_tool_allowed_def sample_env_def)

subsection \<open>Failures\<close>

text \<open>A failing tool is an answer. A call whose tool raised an exception does not end the round: it is answered by
  an error result with the message and an error row in the audit trail, it is charged to the budget like any other
  call, and it leaves everything else as it was.\<close>

theorem failing_tool_is_an_answer:
  assumes "kind_of env name = Real" and "tr_count st < max_tool_calls"
    and "disp 0 (name, args) = Failed m \<or> (\<exists>status. disp 0 (name, args) = GitLab_Error status m)"
  shows "\<exists>e status. run_pending env disp st [(name, args)] =
     Inr (dedupe_run (st\<lparr>tr_history := tr_history st @ [Res name (RError e status)],
       tr_audit := tr_audit st @ [error_row name args e], tr_count := tr_count st + 1\<rparr>))
     \<and> (e = m \<or> e = ''unhandled: '' @ m)"
  using assms(3)
proof (elim disjE exE)
  assume "disp 0 (name, args) = Failed m"
  with assms(1,2) show ?thesis
    by (intro exI [of _ "''unhandled: '' @ m"] exI [of _ None])
       (simp add: run_pending_def Let_def apply_entry.simps apply_defs not_le [symmetric] del: append.simps)
next
  fix status
  assume "disp 0 (name, args) = GitLab_Error status m"
  with assms(1,2) show ?thesis
    by (intro exI [of _ m] exI [of _ "Some status"])
       (simp add: run_pending_def Let_def apply_entry.simps apply_defs not_le [symmetric])
qed

theorem failing_tool_is_an_answer_witness:
  "\<exists>e status. run_pending sample_env (\<lambda>_ _. Failed ''timeout'') empty_run [(''knowledge_search'', [])] =
     Inr (dedupe_run (empty_run\<lparr>tr_history := tr_history empty_run @ [Res ''knowledge_search'' (RError e status)],
       tr_audit := tr_audit empty_run @ [error_row ''knowledge_search'' [] e], tr_count := tr_count empty_run + 1\<rparr>))
     \<and> (e = ''timeout'' \<or> e = ''unhandled: '' @ ''timeout'')"
  by (rule failing_tool_is_an_answer)
     (simp_all add: kind_of_def in_registry_def filter_enabled_def sample_env_def empty_run_def max_tool_calls_def)

end
