(* ===== verification/Agent_Graph.thy ===== *)
theory Agent_Graph
  imports Py_Prelude
begin

text \<open>
  The wiring of the agent (\<open>opsrag/agent/graph.py\<close>) and the decisions on its conditional edges
  (\<open>agent/nodes/grader.py\<close>, \<open>hallucination.py\<close>, \<open>reranker.py\<close>, \<open>tool_caller.py\<close>,
  \<open>multi_agent.py\<close>). A graph is its list of nodes and its outgoing edges; what a node computes is
  left open except for the keys that the decisions read. The locale \<open>variant_loop\<close> is the contract of a
  loop with a variant; the rewrite and regenerate loops of the full graph interpret it.
\<close>

subsection \<open>Loops with a variant\<close>

locale variant_loop =
  fixes step :: "'s \<Rightarrow> 's \<Rightarrow> bool" and inv_of :: "'s \<Rightarrow> bool" and variant :: "'s \<Rightarrow> nat"
  assumes keeps: "inv_of s \<Longrightarrow> step s s' \<Longrightarrow> inv_of s'"
    and falls: "inv_of s \<Longrightarrow> step s s' \<Longrightarrow> variant s' < variant s"
begin

lemma run_length: "inv_of s \<Longrightarrow> (step ^^ n) s s' \<Longrightarrow> inv_of s' \<and> n + variant s' \<le> variant s"
proof (induction n arbitrary: s')
  case (Suc n)
  then obtain t where "(step ^^ n) s t" "step t s'" by auto
  with Suc have "inv_of t" "n + variant t \<le> variant s" "variant s' < variant t"
    using keeps falls by blast+
  then show ?case using keeps \<open>step t s'\<close> by auto
qed simp

text \<open>A run that can always go on while it is not done reaches a done state.\<close>

lemma reaches:
  assumes "inv_of s" and "\<And>t. inv_of t \<Longrightarrow> \<not> done t \<Longrightarrow> \<exists>t'. step t t'"
  shows "\<exists>n t. (step ^^ n) s t \<and> done t"
  using assms(1)
proof (induction "variant s" arbitrary: s rule: less_induct)
  case less
  show ?case
  proof (cases "done s")
    case True
    then show ?thesis by (intro exI [of _ 0]) auto
  next
    case False
    then obtain t where t: "step s t" using assms(2) less.prems by blast
    then obtain n u where "(step ^^ n) t u" "done u"
      using less.hyps falls keeps less.prems by blast
    with relpowp_Suc_I2 [of step s t, OF t] show ?thesis by blast
  qed
qed

end

subsection \<open>The state that the decisions read\<close>

text \<open>A key that \<open>state.get\<close> may find missing is an option; a list that is only tested for truth is its
  truth value.\<close>

record route_state =
  query_category :: "string option"
  tool_path_active :: bool
  tool_calls_pending :: bool
  graded :: bool
  retry_count :: int
  max_retries :: "int option"
  generation_grounded :: "bool option"
  regen_count :: int
  max_regens :: "int option"
  min_rerank_score :: "real option"
  best_rerank_score :: real
  anchors_named :: bool
  anchors_matched :: bool
  kept_any :: bool

definition get_or :: "'a option \<Rightarrow> 'a \<Rightarrow> 'a" where
  "get_or v d = (case v of None \<Rightarrow> d | Some x \<Rightarrow> x)"

definition entry_route :: "route_state \<Rightarrow> string" where
  "entry_route s = (if py_lower (get_or (query_category s) []) = ''casual'' then ''friendly'' else ''triage'')"

definition triage_route :: "route_state \<Rightarrow> string" where
  "triage_route s =
     (if tool_path_active s then (if tool_calls_pending s then ''tool_caller'' else ''retrieval'') else ''retrieval'')"

definition reasoner_route :: "route_state \<Rightarrow> string" where
  "reasoner_route s = (if tool_calls_pending s then ''tool_caller'' else ''generator'')"

definition tool_decide_route :: "route_state \<Rightarrow> string" where
  "tool_decide_route s =
     (if tool_path_active s then (if tool_calls_pending s then ''tool_execute'' else ''tool_synthesize'')
      else ''retrieval'')"

definition grade_decision :: "route_state \<Rightarrow> string" where
  "grade_decision s =
     (if graded s then ''has_relevant''
      else if get_or (max_retries s) 3 \<le> retry_count s then ''insufficient_info''
      else ''needs_rewrite'')"

definition regen_budget :: "route_state \<Rightarrow> int" where
  "regen_budget s = get_or (max_regens s) (get_or (max_retries s) 3)"

definition hallucination_decision :: "route_state \<Rightarrow> string" where
  "hallucination_decision s =
     (if get_or (generation_grounded s) True then ''grounded''
      else if regen_budget s \<le> regen_count s then ''max_retries_hit''
      else ''not_grounded'')"

definition default_min_rerank_score :: real where "default_min_rerank_score = 5 / 100"

definition rerank_decision :: "route_state \<Rightarrow> string" where
  "rerank_decision s =
     (if \<not> kept_any s then ''weak_retrieval''
      else if anchors_named s \<and> \<not> anchors_matched s
        \<and> best_rerank_score s < get_or (min_rerank_score s) default_min_rerank_score
      then ''weak_retrieval'' else ''ok'')"

subsection \<open>Graphs\<close>

datatype target =
    Edge string
  | Branch "route_state \<Rightarrow> string" "(string \<times> string) list"

record graph =
  g_nodes :: "string list"
  g_edges :: "(string \<times> target) list"

definition start :: string where "start = ''__start__''"
definition finish :: string where "finish = ''__end__''"

definition opt :: "bool \<Rightarrow> 'a list \<Rightarrow> 'a list" where
  "opt b xs = (if b then xs else [])"

definition build_minimal_graph :: "bool \<Rightarrow> graph" where
  "build_minimal_graph reranker =
     \<lparr>g_nodes = [''hyde_expansion'', ''vector_retrieve''] @ opt reranker [''rerank'']
        @ [''generate'', ''verify_answer''],
      g_edges = [(start, Edge ''hyde_expansion''), (''hyde_expansion'', Edge ''vector_retrieve'')]
        @ (if reranker then [(''vector_retrieve'', Edge ''rerank''), (''rerank'', Edge ''generate'')]
           else [(''vector_retrieve'', Edge ''generate'')])
        @ [(''generate'', Edge ''verify_answer''), (''verify_answer'', Edge finish)]\<rparr>"

definition build_full_graph :: "bool \<Rightarrow> bool \<Rightarrow> graph" where
  "build_full_graph has_memory light_graph =
     (let rag_entry = (if has_memory then ''load_memory'' else ''route_query'');
          end_after_check = (if has_memory then ''save_memory'' else finish)
      in \<lparr>g_nodes = opt has_memory [''load_memory''] @ [''route_query'', ''hyde_expansion'', ''vector_retrieve'', ''rerank'']
            @ opt light_graph [''entity_expand'']
            @ [''grade_documents'', ''rewrite_query'', ''generate'', ''verify_answer'', ''check_hallucination'',
               ''insufficient_info'']
            @ opt has_memory [''save_memory''] @ [''friendly_generator''],
          g_edges =
            [(''friendly_generator'', Edge finish),
             (start, Branch entry_route [(''friendly'', ''friendly_generator''), (''triage'', rag_entry)])]
            @ opt has_memory [(''load_memory'', Edge ''route_query'')]
            @ [(''route_query'', Edge ''hyde_expansion''), (''hyde_expansion'', Edge ''vector_retrieve'')]
            @ (if light_graph
               then [(''vector_retrieve'', Edge ''entity_expand''), (''entity_expand'', Edge ''rerank'')]
               else [(''vector_retrieve'', Edge ''rerank'')])
            @ [(''rerank'', Branch rerank_decision
                  [(''ok'', ''grade_documents''), (''weak_retrieval'', ''insufficient_info'')]),
               (''grade_documents'', Branch grade_decision
                  [(''has_relevant'', ''generate''), (''needs_rewrite'', ''rewrite_query''),
                   (''insufficient_info'', ''insufficient_info'')]),
               (''rewrite_query'', Edge ''vector_retrieve''),
               (''generate'', Edge ''verify_answer''), (''verify_answer'', Edge ''check_hallucination''),
               (''check_hallucination'', Branch hallucination_decision
                  [(''grounded'', end_after_check), (''not_grounded'', ''generate''),
                   (''max_retries_hit'', end_after_check)]),
               (''insufficient_info'', Edge end_after_check)]
            @ opt has_memory [(''save_memory'', Edge finish)]\<rparr>)"

text \<open>The retrieval branch that the two tool-calling graphs share.\<close>

definition retrieval_nodes :: "bool \<Rightarrow> bool \<Rightarrow> string list" where
  "retrieval_nodes reranker light_graph =
     [''vector_retrieve''] @ opt reranker [''rerank'', ''insufficient_info''] @ [''generate'']
     @ opt light_graph [''entity_expand'']"

definition retrieval_edges :: "bool \<Rightarrow> bool \<Rightarrow> (string \<times> target) list" where
  "retrieval_edges reranker light_graph =
     (let post = (if light_graph then ''entity_expand'' else ''vector_retrieve'') in
      opt light_graph [(''vector_retrieve'', Edge ''entity_expand'')]
      @ (if reranker
         then [(''insufficient_info'', Edge finish), (post, Edge ''rerank''),
               (''rerank'', Branch rerank_decision [(''ok'', ''generate''), (''weak_retrieval'', ''insufficient_info'')])]
         else [(post, Edge ''generate'')]))"

definition build_tool_calling_graph :: "bool \<Rightarrow> bool \<Rightarrow> graph" where
  "build_tool_calling_graph reranker light_graph =
     \<lparr>g_nodes = [''tool_decide'', ''tool_execute'', ''tool_synthesize''] @ retrieval_nodes reranker light_graph,
      g_edges =
        [(start, Edge ''tool_decide''),
         (''tool_decide'', Branch tool_decide_route
            [(''tool_execute'', ''tool_execute''), (''tool_synthesize'', ''tool_synthesize''),
             (''retrieval'', ''vector_retrieve'')]),
         (''tool_execute'', Edge ''tool_decide''), (''tool_synthesize'', Edge finish)]
        @ retrieval_edges reranker light_graph @ [(''generate'', Edge finish)]\<rparr>"

definition build_multi_agent_graph :: "bool \<Rightarrow> bool \<Rightarrow> bool \<Rightarrow> graph" where
  "build_multi_agent_graph reranker light_graph verify_artifacts =
     (let terminus = (if verify_artifacts then ''verify_answer'' else finish) in
      \<lparr>g_nodes = [''friendly_generator'', ''triage'', ''tool_caller'', ''reasoner'', ''generator'']
         @ retrieval_nodes reranker light_graph @ opt verify_artifacts [''verify_answer''],
       g_edges =
         [(start, Branch entry_route [(''friendly'', ''friendly_generator''), (''triage'', ''triage'')]),
          (''friendly_generator'', Edge finish),
          (''triage'', Branch triage_route
             [(''tool_caller'', ''tool_caller''), (''generator'', ''generator''), (''retrieval'', ''vector_retrieve'')]),
          (''tool_caller'', Edge ''reasoner''),
          (''reasoner'', Branch reasoner_route [(''tool_caller'', ''tool_caller''), (''generator'', ''generator'')]),
          (''generator'', Edge terminus)]
         @ retrieval_edges reranker light_graph @ [(''generate'', Edge terminus)]
         @ opt verify_artifacts [(''verify_answer'', Edge finish)]\<rparr>)"

definition successor :: "graph \<Rightarrow> string \<Rightarrow> route_state \<Rightarrow> string option" where
  "successor g n s =
     (case map_of (g_edges g) n of
        None \<Rightarrow> None
      | Some (Edge m) \<Rightarrow> Some m
      | Some (Branch f table) \<Rightarrow> map_of table (f s))"

text \<open>The nodes that an edge can lead to.\<close>

definition targets :: "target \<Rightarrow> string list" where
  "targets t = (case t of Edge m \<Rightarrow> [m] | Branch f table \<Rightarrow> map snd table)"

definition shape_ok :: "graph \<Rightarrow> bool" where
  "shape_ok g \<longleftrightarrow>
     distinct (g_nodes g) \<and> distinct (map fst (g_edges g))
     \<and> set (map fst (g_edges g)) = insert start (set (g_nodes g))
     \<and> set (concat (map (targets \<circ> snd) (g_edges g))) = insert finish (set (g_nodes g))"

definition answers_known :: "target \<Rightarrow> bool" where
  "answers_known t \<longleftrightarrow> (\<forall>f table. t = Branch f table \<longrightarrow> (\<forall>s. f s \<in> fst ` set table))"

definition wired :: "graph \<Rightarrow> bool" where
  "wired g \<longleftrightarrow> shape_ok g \<and> list_all answers_known (map snd (g_edges g))"

lemmas route_defs = entry_route_def triage_route_def reasoner_route_def tool_decide_route_def
  grade_decision_def hallucination_decision_def rerank_decision_def

lemma entry_route_in: "entry_route s \<in> {''friendly'', ''triage''}"
  by (simp add: entry_route_def)

lemma triage_route_in: "triage_route s \<in> {''tool_caller'', ''retrieval''}"
  by (simp add: triage_route_def)

lemma reasoner_route_in: "reasoner_route s \<in> {''tool_caller'', ''generator''}"
  by (simp add: reasoner_route_def)

lemma tool_decide_route_in: "tool_decide_route s \<in> {''tool_execute'', ''tool_synthesize'', ''retrieval''}"
  by (simp add: tool_decide_route_def)

lemma grade_decision_in: "grade_decision s \<in> {''has_relevant'', ''insufficient_info'', ''needs_rewrite''}"
  by (simp add: grade_decision_def)

lemma hallucination_decision_in:
  "hallucination_decision s \<in> {''grounded'', ''max_retries_hit'', ''not_grounded''}"
  by (simp add: hallucination_decision_def)

lemma rerank_decision_in: "rerank_decision s \<in> {''weak_retrieval'', ''ok''}"
  by (simp add: rerank_decision_def)

lemma answers_known_Edge [simp]: "answers_known (Edge m)"
  by (simp add: answers_known_def)

lemma answers_known_Branch: "answers_known (Branch f table) \<longleftrightarrow> (\<forall>s. f s \<in> set (map fst table))"
  by (simp add: answers_known_def)

lemma answers_known_decisions [simp]:
  "answers_known (Branch entry_route [(''friendly'', a), (''triage'', b)])"
  "answers_known (Branch triage_route [(''tool_caller'', a), (''generator'', b), (''retrieval'', c)])"
  "answers_known (Branch reasoner_route [(''tool_caller'', a), (''generator'', b)])"
  "answers_known (Branch tool_decide_route [(''tool_execute'', a), (''tool_synthesize'', b), (''retrieval'', c)])"
  "answers_known (Branch grade_decision [(''has_relevant'', a), (''needs_rewrite'', b), (''insufficient_info'', c)])"
  "answers_known (Branch hallucination_decision [(''grounded'', a), (''not_grounded'', b), (''max_retries_hit'', c)])"
  "answers_known (Branch rerank_decision [(''ok'', a), (''weak_retrieval'', b)])"
  unfolding answers_known_Branch list.map fst_conv route_defs by (simp_all only: list.set) auto

lemmas builder_defs = build_minimal_graph_def build_full_graph_def build_tool_calling_graph_def
  build_multi_agent_graph_def retrieval_nodes_def retrieval_edges_def opt_def Let_def

lemma shape_ok_minimal: "shape_ok (build_minimal_graph r)"
  by (induct r rule: bool.induct) code_simp+

lemma shape_ok_full: "shape_ok (build_full_graph m l)"
  by (induct m rule: bool.induct; induct l rule: bool.induct) code_simp+

lemma shape_ok_tool_calling: "shape_ok (build_tool_calling_graph r l)"
  by (induct r rule: bool.induct; induct l rule: bool.induct) code_simp+

lemma shape_ok_multi_agent: "shape_ok (build_multi_agent_graph r l v)"
  by (induct r rule: bool.induct; induct l rule: bool.induct; induct v rule: bool.induct) code_simp+

lemma answers_known_builders:
  "list_all answers_known (map snd (g_edges (build_minimal_graph r)))"
  "list_all answers_known (map snd (g_edges (build_full_graph m l)))"
  "list_all answers_known (map snd (g_edges (build_tool_calling_graph r l)))"
  "list_all answers_known (map snd (g_edges (build_multi_agent_graph r l v)))"
  by (simp_all add: builder_defs)

text \<open>The four graphs are wired. A graph declares no node twice and gives no node two outgoing rules; the
  start and every declared node have a rule and nothing else has one; every edge leads to a declared node or to
  the end, and every declared node and the end are led to; and whatever the state is, the answer of a decision is
  a label of its table. So no run of the compiled graph dies on a missing edge or a missing label.\<close>

lemma agent_graphs_wired:
  "wired (build_minimal_graph reranker) \<and> wired (build_full_graph has_memory light_graph)
   \<and> wired (build_tool_calling_graph reranker light_graph)
   \<and> wired (build_multi_agent_graph reranker light_graph verify_artifacts)"
  by (simp add: wired_def shape_ok_minimal shape_ok_full shape_ok_tool_calling shape_ok_multi_agent
      answers_known_builders)

subsection \<open>Runs\<close>

text \<open>A run: the node's effect on the state, then the edge. Fuel 0 at a node other than the end is the recursion
  limit (\<open>None\<close>), as is an edge that does not exist.\<close>

fun run_graph :: "graph \<Rightarrow> (string \<Rightarrow> route_state \<Rightarrow> route_state) \<Rightarrow> nat \<Rightarrow> string \<Rightarrow> route_state
    \<Rightarrow> (string list \<times> route_state) option" where
  "run_graph g eff fuel n s =
     (if n = finish then Some ([], s)
      else case fuel of
        0 \<Rightarrow> None
      | Suc k \<Rightarrow>
          (case successor g n (eff n s) of
             None \<Rightarrow> None
           | Some m \<Rightarrow> map_option (\<lambda>(trace, t). (n # trace, t)) (run_graph g eff k m (eff n s))))"

declare run_graph.simps [simp del]

text \<open>What the nodes of the full graph do to the keys that bound its loops: \<open>rewrite_query\<close> counts a rewrite,
  \<open>check_hallucination\<close> sets the verdict and counts a regeneration when it is negative, and no other node
  touches the counters or the limits.\<close>

definition counters_kept :: "route_state \<Rightarrow> route_state \<Rightarrow> bool" where
  "counters_kept s t \<longleftrightarrow> retry_count t = retry_count s \<and> regen_count t = regen_count s
     \<and> max_retries t = max_retries s \<and> max_regens t = max_regens s"

definition node_effect :: "string \<Rightarrow> route_state \<Rightarrow> route_state \<Rightarrow> bool" where
  "node_effect n s t \<longleftrightarrow>
     (if n = ''rewrite_query'' then counters_kept (s\<lparr>retry_count := retry_count s + 1\<rparr>) t
      else if n = ''check_hallucination'' then
        (generation_grounded t = Some True \<and> counters_kept s t
         \<or> generation_grounded t = Some False \<and> counters_kept (s\<lparr>regen_count := regen_count s + 1\<rparr>) t)
      else counters_kept s t)"

definition retries_left :: "route_state \<Rightarrow> nat" where
  "retries_left s = nat (get_or (max_retries s) 3 - retry_count s)"

definition regens_left :: "route_state \<Rightarrow> nat" where
  "regens_left s = nat (regen_budget s - regen_count s)"

text \<open>The longest way from a node to the end once both budgets are spent, and the potential of a run.\<close>

definition node_rank :: "string \<Rightarrow> nat" where
  "node_rank n =
     dget 0 n [(''save_memory'', 1), (''friendly_generator'', 1), (''check_hallucination'', 2), (''insufficient_info'', 2),
       (''verify_answer'', 3), (''generate'', 4), (''rewrite_query'', 4), (''grade_documents'', 5), (''rerank'', 6),
       (''entity_expand'', 7), (''vector_retrieve'', 8), (''hyde_expansion'', 9), (''route_query'', 10),
       (''load_memory'', 11), (start, 12)]"

definition run_variant :: "string \<times> route_state \<Rightarrow> nat" where
  "run_variant c = node_rank (fst c) + 5 * retries_left (snd c) + 3 * regens_left (snd c)"

definition run_inv :: "string \<times> route_state \<Rightarrow> bool" where
  "run_inv c \<longleftrightarrow> (fst c = ''rewrite_query'' \<longrightarrow> 0 < retries_left (snd c))"

definition full_step :: "bool \<Rightarrow> bool \<Rightarrow> string \<times> route_state \<Rightarrow> string \<times> route_state \<Rightarrow> bool" where
  "full_step has_memory light_graph c d \<longleftrightarrow>
     node_effect (fst c) (snd c) (snd d)
     \<and> successor (build_full_graph has_memory light_graph) (fst c) (snd d) = Some (fst d)"

text \<open>The edges of the full graph, one equation per node.\<close>

lemma start_neq [simp]:
  "start \<noteq> ''friendly_generator''" "start \<noteq> ''load_memory''" "start \<noteq> finish"
  "start \<noteq> ''rewrite_query''" "start \<noteq> ''check_hallucination''" "start \<noteq> ''grade_documents''" "finish \<noteq> ''rewrite_query''"
  by (simp_all add: start_def finish_def)

lemma full_edges:
  "map_of (g_edges (build_full_graph m l)) ''friendly_generator'' = Some (Edge finish)"
  "map_of (g_edges (build_full_graph m l)) start =
     Some (Branch entry_route [(''friendly'', ''friendly_generator''), (''triage'', if m then ''load_memory'' else ''route_query'')])"
  "map_of (g_edges (build_full_graph m l)) ''load_memory'' = (if m then Some (Edge ''route_query'') else None)"
  "map_of (g_edges (build_full_graph m l)) ''route_query'' = Some (Edge ''hyde_expansion'')"
  "map_of (g_edges (build_full_graph m l)) ''hyde_expansion'' = Some (Edge ''vector_retrieve'')"
  "map_of (g_edges (build_full_graph m l)) ''vector_retrieve'' = Some (Edge (if l then ''entity_expand'' else ''rerank''))"
  "map_of (g_edges (build_full_graph m l)) ''entity_expand'' = (if l then Some (Edge ''rerank'') else None)"
  "map_of (g_edges (build_full_graph m l)) ''rerank'' =
     Some (Branch rerank_decision [(''ok'', ''grade_documents''), (''weak_retrieval'', ''insufficient_info'')])"
  "map_of (g_edges (build_full_graph m l)) ''grade_documents'' =
     Some (Branch grade_decision [(''has_relevant'', ''generate''), (''needs_rewrite'', ''rewrite_query''),
       (''insufficient_info'', ''insufficient_info'')])"
  "map_of (g_edges (build_full_graph m l)) ''rewrite_query'' = Some (Edge ''vector_retrieve'')"
  "map_of (g_edges (build_full_graph m l)) ''generate'' = Some (Edge ''verify_answer'')"
  "map_of (g_edges (build_full_graph m l)) ''verify_answer'' = Some (Edge ''check_hallucination'')"
  "map_of (g_edges (build_full_graph m l)) ''check_hallucination'' =
     Some (Branch hallucination_decision [(''grounded'', if m then ''save_memory'' else finish),
       (''not_grounded'', ''generate''), (''max_retries_hit'', if m then ''save_memory'' else finish)])"
  "map_of (g_edges (build_full_graph m l)) ''insufficient_info'' = Some (Edge (if m then ''save_memory'' else finish))"
  "map_of (g_edges (build_full_graph m l)) ''save_memory'' = (if m then Some (Edge finish) else None)"
  by (simp_all add: build_full_graph_def opt_def start_def Let_def)

lemma full_keys:
  "n \<in> fst ` set (g_edges (build_full_graph m l)) \<Longrightarrow>
   n \<in> {''friendly_generator'', start, ''load_memory'', ''route_query'', ''hyde_expansion'', ''vector_retrieve'',
     ''entity_expand'', ''rerank'', ''grade_documents'', ''rewrite_query'', ''generate'', ''verify_answer'',
     ''check_hallucination'', ''insufficient_info'', ''save_memory''}"
  by (auto simp only: build_full_graph_def opt_def Let_def graph.simps set_append list.set image_Un image_insert
      fst_conv image_empty Un_iff insert_iff empty_iff split: if_splits)

lemma successor_key: "successor g n s = Some k \<Longrightarrow> n \<in> fst ` set (g_edges g)"
  by (cases "map_of (g_edges g) n") (auto simp: successor_def dest: map_of_SomeD intro: rev_image_eqI)

lemma node_ranks [simp]:
  "node_rank finish = 0" "node_rank ''save_memory'' = 1" "node_rank ''friendly_generator'' = 1"
  "node_rank ''check_hallucination'' = 2" "node_rank ''insufficient_info'' = 2" "node_rank ''verify_answer'' = 3"
  "node_rank ''generate'' = 4" "node_rank ''rewrite_query'' = 4" "node_rank ''grade_documents'' = 5"
  "node_rank ''rerank'' = 6" "node_rank ''entity_expand'' = 7" "node_rank ''vector_retrieve'' = 8"
  "node_rank ''hyde_expansion'' = 9" "node_rank ''route_query'' = 10" "node_rank ''load_memory'' = 11"
  "node_rank start = 12"
  by (simp_all add: node_rank_def dget_def start_def finish_def)

lemma kept_left:
  "counters_kept s t \<Longrightarrow> retries_left t = retries_left s \<and> regens_left t = regens_left s"
  by (simp add: counters_kept_def retries_left_def regens_left_def regen_budget_def)

lemma left_after_rewrite:
  "retries_left (s\<lparr>retry_count := retry_count s + 1\<rparr>) = retries_left s - 1"
  "regens_left (s\<lparr>retry_count := retry_count s + 1\<rparr>) = regens_left s"
  by (auto simp: retries_left_def regens_left_def regen_budget_def)

lemma left_after_regen:
  "retries_left (s\<lparr>regen_count := regen_count s + 1\<rparr>) = retries_left s"
  "regens_left (s\<lparr>regen_count := regen_count s + 1\<rparr>) = regens_left s - 1"
  by (auto simp: retries_left_def regens_left_def regen_budget_def)

lemma needs_rewrite_left: "grade_decision s = ''needs_rewrite'' \<Longrightarrow> 0 < retries_left s"
  by (auto simp: grade_decision_def retries_left_def split: if_splits)

lemma not_grounded_left:
  "hallucination_decision s = ''not_grounded'' \<Longrightarrow> generation_grounded s = Some False \<and> 0 < regens_left s"
  by (cases "generation_grounded s")
     (auto simp: hallucination_decision_def regens_left_def get_or_def split: if_splits)

text \<open>One superstep keeps the invariant and lowers the potential.\<close>

lemma full_step_falls:
  assumes inv: "run_inv (n, s)" and eff: "node_effect n s t"
    and suc: "successor (build_full_graph m l) n t = Some k"
  shows "run_inv (k, t) \<and> run_variant (k, t) < run_variant (n, s)"
proof -
  note step = eff suc inv
  note defs = node_effect_def successor_def full_edges run_inv_def run_variant_def kept_left left_after_rewrite
    left_after_regen
  have "n \<in> {''friendly_generator'', start, ''load_memory'', ''route_query'', ''hyde_expansion'', ''vector_retrieve'',
     ''entity_expand'', ''rerank'', ''grade_documents'', ''rewrite_query'', ''generate'', ''verify_answer'',
     ''check_hallucination'', ''insufficient_info'', ''save_memory''}"
    using full_keys successor_key [OF suc] by blast
  then show ?thesis
  proof (elim insertE emptyE)
    assume n: "n = ''check_hallucination''"
    from n step not_grounded_left [of t] show ?thesis
      by (auto simp: defs split: if_splits)
  next
    assume n: "n = ''grade_documents''"
    from grade_decision_in [of t] n step needs_rewrite_left [of t] show ?thesis
      by (elim insertE emptyE) (auto simp: defs)
  qed (use step in \<open>auto simp: defs split: if_splits\<close>)
qed

interpretation full_run: variant_loop "full_step has_memory light_graph" run_inv run_variant
  for has_memory light_graph
  using full_step_falls by unfold_locales (auto simp: full_step_def)

text \<open>A run of a wired graph never meets a missing edge; with a potential that falls at every superstep it
  reaches the end.\<close>

definition at_node :: "graph \<Rightarrow> string \<Rightarrow> bool" where
  "at_node g n \<longleftrightarrow> n = start \<or> n = finish \<or> n \<in> set (g_nodes g)"

lemma wired_successor:
  assumes "wired g" "at_node g n" "n \<noteq> finish"
  shows "\<exists>m. successor g n s = Some m \<and> at_node g m"
proof -
  note shape = assms(1) [unfolded wired_def shape_ok_def]
  from assms shape have "n \<in> set (map fst (g_edges g))" by (auto simp: at_node_def)
  then obtain t where t: "map_of (g_edges g) n = Some t"
    by (cases "map_of (g_edges g) n") (auto simp: map_of_eq_None_iff)
  then have in_edges: "t \<in> set (map snd (g_edges g))" by (auto dest!: map_of_SomeD intro: rev_image_eqI)
  then have known: "answers_known t" and tg: "set (targets t) \<subseteq> insert finish (set (g_nodes g))"
    using shape by (auto simp: list_all_iff)
  show ?thesis
  proof (cases t)
    case (Edge m)
    then show ?thesis using t tg by (auto simp: successor_def targets_def at_node_def)
  next
    case (Branch f table)
    with known have "f s \<in> set (map fst table)" by (simp add: answers_known_Branch)
    then obtain m where m: "map_of table (f s) = Some m"
      by (cases "map_of table (f s)") (auto simp: map_of_eq_None_iff)
    then have "m \<in> set (targets t)" by (auto simp: Branch targets_def dest!: map_of_SomeD intro: rev_image_eqI)
    with m t tg Branch show ?thesis by (auto simp: successor_def at_node_def)
  qed
qed

lemma run_graph_reaches:
  assumes g: "wired g" and "at_node g n" and "Inv (n, s)" and "v (n, s) \<le> fuel"
    and falls: "\<And>n s k. Inv (n, s) \<Longrightarrow> successor g n (eff n s) = Some k \<Longrightarrow>
      Inv (k, eff n s) \<and> v (k, eff n s) < v (n, s)"
  shows "\<exists>trace t. run_graph g eff fuel n s = Some (trace, t) \<and> length trace \<le> v (n, s)"
  using assms(2-4)
proof (induction fuel arbitrary: n s)
  case (0 n s)
  then have "n = finish" using wired_successor [OF g, of n "eff n s"] falls [of n s] by (metis less_nat_zero_code le_zero_eq)
  then show ?case by (simp add: run_graph.simps)
next
  case (Suc fuel n s)
  show ?case
  proof (cases "n = finish")
    case False
    then obtain k where k: "successor g n (eff n s) = Some k" "at_node g k"
      using wired_successor [OF g] Suc.prems by blast
    with falls Suc.prems have "Inv (k, eff n s)" "v (k, eff n s) < v (n, s)" by blast+
    with Suc.IH [of k "eff n s"] k Suc.prems obtain trace t
      where "run_graph g eff fuel k (eff n s) = Some (trace, t)" "length trace \<le> v (k, eff n s)"
      by fastforce
    with k False \<open>v (k, eff n s) < v (n, s)\<close> show ?thesis
      by (intro exI [of _ "n # trace"] exI [of _ t]) (simp add: run_graph.simps [of _ _ "Suc fuel"])
  qed (simp add: run_graph.simps)
qed

text \<open>C20: Every run of the full graph ends. Whatever the nodes do, as long as only the rewrite node counts
  rewrites and only the hallucination check counts regenerations, a run of \<open>n\<close> supersteps has
  \<open>n\<close> at most 12 plus five per rewrite left plus three per regeneration left, so the run that starts
  from it reaches the end within that number of supersteps, without meeting a missing edge.\<close>

theorem full_graph_terminates:
  assumes "\<And>n s. node_effect n s (eff n s)"
    and "12 + 5 * retries_left s + 3 * regens_left s \<le> fuel"
  shows "\<exists>trace t. run_graph (build_full_graph has_memory light_graph) eff fuel start s = Some (trace, t)
     \<and> length trace \<le> 12 + 5 * retries_left s + 3 * regens_left s"
proof -
  have "run_inv (start, s)" "run_variant (start, s) = 12 + 5 * retries_left s + 3 * regens_left s"
    by (simp_all add: run_inv_def run_variant_def)
  moreover have "wired (build_full_graph has_memory light_graph)"
    by (simp add: wired_def shape_ok_full answers_known_builders)
  moreover have "at_node (build_full_graph has_memory light_graph) start" by (simp add: at_node_def)
  ultimately show ?thesis
    using assms(2) full_step_falls [OF _ assms(1)]
      run_graph_reaches [of "build_full_graph has_memory light_graph" start run_inv s run_variant fuel eff]
    by presburger
qed

text \<open>The counters of a fresh run (\<open>graph.py\<close>), and nodes that never succeed: every grade fails and, with
  evidence in the state, every verdict is negative.\<close>

definition fresh_state :: "string \<Rightarrow> route_state" where
  "fresh_state category =
     \<lparr>query_category = Some category, tool_path_active = False, tool_calls_pending = False, graded = False,
      retry_count = 0, max_retries = Some 3, generation_grounded = Some False, regen_count = 0, max_regens = Some 3,
      min_rerank_score = None, best_rerank_score = 0, anchors_named = False, anchors_matched = False, kept_any = True\<rparr>"

definition never_good :: "string \<Rightarrow> route_state \<Rightarrow> route_state" where
  "never_good n s =
     (if n = ''rewrite_query'' then s\<lparr>retry_count := retry_count s + 1\<rparr>
      else if n = ''check_hallucination''
      then s\<lparr>generation_grounded := Some False, regen_count := regen_count s + 1\<rparr>
      else if n = ''grade_documents'' then s\<lparr>graded := 3 \<le> retry_count s\<rparr>
      else s)"

lemma never_good_effect: "node_effect n s (never_good n s)"
  by (simp add: node_effect_def never_good_def counters_kept_def)

lemma fresh_left: "retries_left (fresh_state c) = 3" "regens_left (fresh_state c) = 3"
  by (simp_all add: fresh_state_def retries_left_def regens_left_def regen_budget_def get_or_def)

theorem full_graph_terminates_witness:
  "\<exists>trace t. run_graph (build_full_graph True True) never_good 48 start (fresh_state ''how_to'') = Some (trace, t)
     \<and> length trace \<le> 36"
  using full_graph_terminates [where eff = never_good and s = "fresh_state ''how_to''" and fuel = 48,
      OF never_good_effect] by (simp add: fresh_left)

text \<open>The gates before the end: the grounding check, the honest refusal and the casual lane.\<close>

definition gates :: "string set" where
  "gates = {''check_hallucination'', ''insufficient_info'', ''friendly_generator''}"

lemma before_gate:
  assumes "successor (build_full_graph m l) n t = Some k" "n \<notin> gates" "n \<noteq> ''save_memory''"
  shows "k \<noteq> ''save_memory'' \<and> k \<noteq> finish"
proof -
  have "n \<in> {''friendly_generator'', start, ''load_memory'', ''route_query'', ''hyde_expansion'', ''vector_retrieve'',
     ''entity_expand'', ''rerank'', ''grade_documents'', ''rewrite_query'', ''generate'', ''verify_answer'',
     ''check_hallucination'', ''insufficient_info'', ''save_memory''}"
    using full_keys successor_key [OF assms(1)] by blast
  then show ?thesis
    using assms by (elim insertE emptyE) (auto simp: successor_def full_edges gates_def finish_def split: if_splits)
qed

lemma run_graph_SomeD:
  assumes "run_graph g eff fuel n s = Some (trace, t)" "n \<noteq> finish"
  obtains k m tail where "fuel = Suc k" "successor g n (eff n s) = Some m"
    "run_graph g eff k m (eff n s) = Some (tail, t)" "trace = n # tail"
  using assms by (subst (asm) run_graph.simps) (auto split: nat.splits option.splits)

lemma run_full_gated:
  assumes "run_graph (build_full_graph m l) eff fuel n s = Some (trace, t)" "n \<noteq> ''save_memory''" "n \<noteq> finish"
  shows "set trace \<inter> gates \<noteq> {}"
  using assms
proof (induction fuel arbitrary: n s trace)
  case 0
  then show ?case by (simp add: run_graph.simps)
next
  case (Suc fuel)
  from Suc.prems obtain k tail where k: "successor (build_full_graph m l) n (eff n s) = Some k"
    and tail: "run_graph (build_full_graph m l) eff fuel k (eff n s) = Some (tail, t)" "trace = n # tail"
    by (auto elim: run_graph_SomeD)
  show ?case
  proof (cases "n \<in> gates")
    case False
    then have "set tail \<inter> gates \<noteq> {}" using before_gate [OF k] Suc.IH [OF tail(1)] Suc.prems by simp
    with tail show ?thesis by auto
  qed (use tail in auto)
qed

lemma run_full_checked:
  assumes "run_graph (build_full_graph m l) eff fuel n s = Some (trace, t)" "i < length trace" "trace ! i = ''generate''"
  shows "i + 2 < length trace \<and> trace ! (i + 2) = ''check_hallucination''"
  using assms
proof (induction i arbitrary: fuel n s trace)
  case 0
  then have n: "n \<noteq> finish" by (auto simp: run_graph.simps)
  have neq: "''generate'' \<noteq> finish" "''verify_answer'' \<noteq> finish" "''check_hallucination'' \<noteq> finish"
    by (simp_all add: finish_def)
  obtain k k1 tail where 1: "successor (build_full_graph m l) n (eff n s) = Some k1" "trace = n # tail"
      "run_graph (build_full_graph m l) eff k k1 (eff n s) = Some (tail, t)"
    by (rule run_graph_SomeD [OF 0(1) n])
  with 0 have gen: "n = ''generate''" "k1 = ''verify_answer''" by (simp_all add: successor_def full_edges)
  with 1 obtain k' k2 tail' where 2: "successor (build_full_graph m l) k1 (eff k1 (eff n s)) = Some k2"
      "tail = k1 # tail'" "run_graph (build_full_graph m l) eff k' k2 (eff k1 (eff n s)) = Some (tail', t)"
    using run_graph_SomeD [OF 1(3)] neq by metis
  with gen have "k2 = ''check_hallucination''" by (simp add: successor_def full_edges)
  moreover from this obtain tail'' where "tail' = k2 # tail''"
    using run_graph_SomeD [OF 2(3)] neq by metis
  moreover note 1(2) 2(2)
  ultimately show ?case by simp
next
  case (Suc i)
  then have n: "n \<noteq> finish" by (auto simp: run_graph.simps)
  from run_graph_SomeD [OF Suc.prems(1) n] obtain k m' tail where
    tail: "run_graph (build_full_graph m l) eff k m' (eff n s) = Some (tail, t)" "trace = n # tail" .
  with Suc.prems Suc.IH [OF tail(1)] show ?case by simp
qed

text \<open>C28: No answer of the full graph leaves ungated. Whatever the nodes compute, a run that ends has passed
  the hallucination check, the honest refusal or the casual lane, and each visit of the generator is followed,
  two supersteps later, by the hallucination check.\<close>

theorem full_graph_gated:
  assumes "run_graph (build_full_graph has_memory light_graph) eff fuel start s = Some (trace, t)"
  shows "set trace \<inter> gates \<noteq> {}
     \<and> (\<forall>i < length trace. trace ! i = ''generate'' \<longrightarrow>
          i + 2 < length trace \<and> trace ! (i + 2) = ''check_hallucination'')"
  using run_full_gated [OF assms] run_full_checked [OF assms] by (simp add: start_def finish_def)

definition all_good :: "string \<Rightarrow> route_state \<Rightarrow> route_state" where
  "all_good n s =
     (if n = ''check_hallucination'' then s\<lparr>generation_grounded := Some True\<rparr>
      else if n = ''grade_documents'' then s\<lparr>graded := True\<rparr> else s)"

lemma run_graph_step:
  "n \<noteq> finish \<Longrightarrow> run_graph g eff (Suc k) n s =
     (case successor g n (eff n s) of
        None \<Rightarrow> None
      | Some m \<Rightarrow> map_option (\<lambda>(trace, t). (n # trace, t)) (run_graph g eff k m (eff n s)))"
  "run_graph g eff k finish s = Some ([], s)"
  by (simp_all add: run_graph.simps)



lemma successors:
  "successor (build_full_graph True False) start (fresh_state ''how_to'') = Some ''load_memory''"
  "successor (build_full_graph True False) ''load_memory'' s = Some ''route_query''"
  "successor (build_full_graph True False) ''route_query'' s = Some ''hyde_expansion''"
  "successor (build_full_graph True False) ''hyde_expansion'' s = Some ''vector_retrieve''"
  "successor (build_full_graph True False) ''vector_retrieve'' s = Some ''rerank''"
  "successor (build_full_graph True False) ''rerank'' (fresh_state c) = Some ''grade_documents''"
  "successor (build_full_graph True False) ''grade_documents'' (s\<lparr>graded := True\<rparr>) = Some ''generate''"
  "successor (build_full_graph True False) ''generate'' s = Some ''verify_answer''"
  "successor (build_full_graph True False) ''verify_answer'' s = Some ''check_hallucination''"
  "successor (build_full_graph True False) ''check_hallucination'' (s\<lparr>generation_grounded := Some True\<rparr>) = Some ''save_memory''"
  "successor (build_full_graph True False) ''save_memory'' s = Some finish"
proof -
  have low: "py_lower ''how_to'' \<noteq> ''casual''" by code_simp
  show "successor (build_full_graph True False) start (fresh_state ''how_to'') = Some ''load_memory''"
    using low by (simp add: successor_def full_edges entry_route_def fresh_state_def get_or_def)
qed (simp_all add: successor_def full_edges rerank_decision_def fresh_state_def grade_decision_def
    hallucination_decision_def get_or_def)

theorem full_graph_gated_witness:
  "\<exists>trace t. run_graph (build_full_graph True False) all_good 12 start (fresh_state ''how_to'') = Some (trace, t)
     \<and> length trace = 11 \<and> set trace \<inter> gates \<noteq> {}"
proof -
  let ?r = "run_graph (build_full_graph True False) all_good 12 start (fresh_state ''how_to'')"
  have neq: "\<And>c cs. c \<noteq> CHR ''_'' \<Longrightarrow> c # cs \<noteq> finish" by (simp add: finish_def)
  have "map_option (length \<circ> fst) ?r = Some 11"
    by (simp add: eval_nat_numeral run_graph_step neq successors all_good_def)
  then obtain trace t where "?r = Some (trace, t)" "length trace = 11" by (cases ?r) auto
  with full_graph_gated [OF this(1)] show ?thesis by blast
qed

end
