(* ===== verification/Agent_Loop.thy ===== *)
theory Agent_Loop
  imports Agent_Tools Agent_Graph
begin

text \<open>
  The tool loop of the multi-agent graph: \<open>triage_node\<close>, \<open>reasoner_node\<close> and their composition with the
  tool caller (\<open>opsrag/agent/nodes/multi_agent.py\<close>). What a model answers, the clock and the outcomes of the
  tools are a \<open>hop_world\<close> per hop; the two trigger patterns are predicates on the query. Prompts, the runbook
  card, model selection and status events are not modelled.
\<close>

subsection \<open>Model answers\<close>

type_synonym emitted = "string \<times> obj \<times> string option"

definition call_of :: "emitted \<Rightarrow> tool_call" where
  "call_of e = (case e of (name, args, sig) \<Rightarrow> (name, args))"

definition tool_call_history_row :: "emitted \<Rightarrow> entry" where
  "tool_call_history_row e =
     (case e of (name, args, sig) \<Rightarrow> Call name args (case sig of None \<Rightarrow> None | Some s \<Rightarrow> if s = [] then None else sig))"

datatype stream_event = Text_Delta string | Done "emitted list" | Other_Event

datatype stream_reply = No_Streaming | Stream_Failed string | Reply "emitted list"

text \<open>A stream is its events and the exception that ends it, if any; \<open>None\<close> is a provider that has none.\<close>

definition reason_streaming :: "(stream_event list \<times> string option) option \<Rightarrow> stream_reply" where
  "reason_streaming stream =
     (case stream of
        None \<Rightarrow> No_Streaming
      | Some (events, Some m) \<Rightarrow> Stream_Failed m
      | Some (events, None) \<Rightarrow>
          (case fold (\<lambda>e r. case e of Done calls \<Rightarrow> Some calls | _ \<Rightarrow> r) events None of
             None \<Rightarrow> No_Streaming
           | Some calls \<Rightarrow> Reply calls))"

subsection \<open>Triage\<close>

text \<open>The last turns that are shown to the triage model.\<close>

definition triage_messages :: "(string \<times> string option) list \<Rightarrow> string \<Rightarrow> entry list" where
  "triage_messages prior query =
     List.map_filter (\<lambda>(role, c).
        let t = py_strip (case c of None \<Rightarrow> [] | Some s \<Rightarrow> s) in
        if t = [] \<or> role \<notin> {''user'', ''assistant''} then None
        else Some (Msg role (if role = ''assistant'' \<and> 800 < length t then take 800 t @ ''...'' else t)))
       (last_n 4 prior)
     @ [Msg ''user'' query]"

definition with_code_guard :: "(string \<Rightarrow> bool) \<Rightarrow> string \<Rightarrow> emitted list \<Rightarrow> emitted list" where
  "with_code_guard code_intent query calls =
     (if code_intent query \<and> \<not> list_ex (\<lambda>e. startswith (fst e) ''code_'') calls
      then calls @ [(''code_list_repos'', [], None)] else calls)"

definition triage_node ::
  "(string \<Rightarrow> bool) \<Rightarrow> (string \<Rightarrow> bool) \<Rightarrow> real \<Rightarrow> string + emitted list \<Rightarrow> agent_state \<Rightarrow> agent_state" where
  "triage_node strong_trigger code_intent now reply s =
     (let query = ag_query s; h = [Msg ''user'' query] in
      case reply of
        Inl exc \<Rightarrow> s\<lparr>ag_tool_calls := [], ag_path_active := False, ag_error := Some (''triage_failed: '' @ exc)\<rparr>
      | Inr emitted_calls \<Rightarrow>
          (let calls = with_code_guard code_intent query emitted_calls in
           if calls = [] \<and> strong_trigger query then
             (let forced = (''runbook_list'', [(''topic'', JStr (take 200 query))])
              in s\<lparr>ag_tool_calls := [forced], ag_history := h @ [Call (fst forced) (snd forced) None],
                   ag_path_active := True, ag_count := 0, ag_turn_started := Some now\<rparr>)
           else if calls = [] then s\<lparr>ag_tool_calls := [], ag_path_active := False\<rparr>
           else s\<lparr>ag_tool_calls := map call_of calls, ag_history := h @ map tool_call_history_row calls,
                  ag_path_active := True, ag_turn_started := Some now\<rparr>))"

subsection \<open>The reasoner\<close>

definition max_turn_wall_clock_sec :: real where "max_turn_wall_clock_sec = 120"

fun is_call :: "entry \<Rightarrow> bool" where
  "is_call (Call _ _ _) = True"
| "is_call _ = False"

definition call_names :: "history \<Rightarrow> string list" where
  "call_names h = map entry_name (filter is_call h)"

text \<open>The tool that the last three call rows agree on.\<close>

definition stuck_tool :: "history \<Rightarrow> string option" where
  "stuck_tool h =
     (case last_n 3 (call_names h) of
        [a, b, c] \<Rightarrow> if a = b \<and> b = c then Some a else None
      | _ \<Rightarrow> None)"

definition stuck_note :: "string \<Rightarrow> entry" where
  "stuck_note tool0 =
     (let tool = (if tool0 = [] then ''?'' else tool0) in
      Msg ''user''
       (''[system note -- stuck-detector fired]'' @ [CHR 0x0A] @ ''The reasoner attempted `'' @ tool
        @ ''` 3 times in a row without converging on new evidence. The generator is now being forced with whatever tool results are in history. DO NOT draw a placeholder diagram or fabricate a flow. Instead:''
        @ [CHR 0x0A] @ ''- Lead with one short line stating what you DID find (from earlier tool results in this turn).''
        @ [CHR 0x0A] @ ''- Then state what'' @ [CHR 0x27] @ ''s MISSING and why (e.g. '' @ [CHR 0x22] @ ''`'' @ tool
        @ ''` returned no rows for the labels/patterns I tried -- common cause: the label isn'' @ [CHR 0x27]
        @ ''t ingested into our cartography graph'' @ [CHR 0x22] @ '').'' @ [CHR 0x0A]
        @ ''- Suggest the next concrete step the user can take (a different tool, a more specific query, or a manual check).''
        @ [CHR 0x0A] @ ''- DO NOT pretend to have data you don'' @ [CHR 0x27] @ ''t have.''))"

record hop_world =
  hw_disp :: "nat \<Rightarrow> tool_call \<Rightarrow> dispatch_outcome"
  hw_now :: real
  hw_stream :: "(stream_event list \<times> string option) option"
  hw_fallback :: "string + emitted list"

definition hand_over :: "history \<Rightarrow> agent_state \<Rightarrow> agent_state" where
  "hand_over h s = s\<lparr>ag_tool_calls := [], ag_history := h, ag_path_active := True\<rparr>"

definition reasoner_reply :: "hop_world \<Rightarrow> string + emitted list" where
  "reasoner_reply w =
     (case reason_streaming (hw_stream w) of
        No_Streaming \<Rightarrow> hw_fallback w
      | Stream_Failed m \<Rightarrow> Inl m
      | Reply calls \<Rightarrow> Inr calls)"

definition time_is_up :: "real \<Rightarrow> real option \<Rightarrow> bool" where
  "time_is_up now started =
     (case started of None \<Rightarrow> False | Some t \<Rightarrow> max_turn_wall_clock_sec \<le> now - t)"

definition reasoner_node :: "hop_world \<Rightarrow> agent_state \<Rightarrow> agent_state" where
  "reasoner_node w s =
     (let h = ag_history s in
      if max_tool_calls \<le> ag_count s then hand_over h s
      else if max_unknown_tool_rounds \<le> unknown_rounds h then hand_over h s
      else if time_is_up (hw_now w) (ag_turn_started s) then hand_over h s
      else case stuck_tool h of
        Some tool \<Rightarrow> hand_over (h @ [stuck_note tool]) s
      | None \<Rightarrow>
          (case reasoner_reply w of
             Inl exc \<Rightarrow> (hand_over h s)\<lparr>ag_error := Some (''reasoner_failed: '' @ exc)\<rparr>
           | Inr calls \<Rightarrow>
               if calls = [] then hand_over h s
               else s\<lparr>ag_tool_calls := map call_of calls, ag_history := h @ map tool_call_history_row calls,
                      ag_path_active := True\<rparr>))"

subsection \<open>The loop\<close>

text \<open>From the tool caller to the generator; \<open>None\<close> is the recursion limit.\<close>

fun tool_loop :: "tool_env \<Rightarrow> (nat \<Rightarrow> hop_world) \<Rightarrow> nat \<Rightarrow> nat \<Rightarrow> agent_state \<Rightarrow> (string + agent_state) option" where
  "tool_loop env world fuel k s =
     (if ag_tool_calls s = [] then Some (Inr s)
      else case fuel of
        0 \<Rightarrow> None
      | Suc f \<Rightarrow>
          (case tool_caller env (hw_disp (world k)) s of
             Inl m \<Rightarrow> Some (Inl m)
           | Inr s' \<Rightarrow> tool_loop env world f (k + 1) (reasoner_node (world k) s')))"

declare tool_loop.simps [simp del]

subsection \<open>When the reasoner may ask for more\<close>

lemma reasoner_cases:
  obtains (stop) "ag_tool_calls (reasoner_node w s) = []" "ag_count (reasoner_node w s) = ag_count s"
    | (go) calls where "ag_tool_calls (reasoner_node w s) = map call_of calls" "calls \<noteq> []" "reasoner_reply w = Inr calls"
        "ag_history (reasoner_node w s) = ag_history s @ map tool_call_history_row calls"
        "ag_count s < max_tool_calls" "unknown_rounds (ag_history s) < max_unknown_tool_rounds"
        "\<not> time_is_up (hw_now w) (ag_turn_started s)" "stuck_tool (ag_history s) = None"
        "ag_count (reasoner_node w s) = ag_count s"
proof (cases "max_tool_calls \<le> ag_count s \<or> max_unknown_tool_rounds \<le> unknown_rounds (ag_history s)
    \<or> time_is_up (hw_now w) (ag_turn_started s) \<or> stuck_tool (ag_history s) \<noteq> None
    \<or> (\<forall>calls. reasoner_reply w = Inr calls \<longrightarrow> calls = [])")
  case True
  then show ?thesis
    by (intro stop) (auto simp: reasoner_node_def Let_def hand_over_def split: option.splits sum.splits)
next
  case False
  then obtain calls where "reasoner_reply w = Inr calls" "calls \<noteq> []" by blast
  with False show ?thesis by (intro go [of calls]) (simp_all add: reasoner_node_def Let_def)
qed

text \<open>C30: The reasoner asks for tools only inside every limit. If it leaves calls pending then the budget and the
  unknown-tool cap are not spent, the turn is younger than two minutes and the last three call rows do not name one
  tool; each pending call has its row at the end of the history, in order; and the counters are untouched.\<close>

theorem reasoner_within_limits:
  assumes "ag_tool_calls (reasoner_node w s) \<noteq> []"
  shows "ag_count s < 10 \<and> unknown_rounds (ag_history s) < 3 \<and> \<not> time_is_up (hw_now w) (ag_turn_started s)
     \<and> stuck_tool (ag_history s) = None
     \<and> (\<exists>rows. ag_history (reasoner_node w s) = ag_history s @ rows
          \<and> map entry_name rows = map fst (ag_tool_calls (reasoner_node w s)))
     \<and> ag_count (reasoner_node w s) = ag_count s"
proof (cases w s rule: reasoner_cases)
  case stop
  with assms show ?thesis by simp
next
  case (go calls)
  have "map entry_name (map tool_call_history_row calls) = map fst (map call_of calls)"
    by (auto simp: tool_call_history_row_def call_of_def)
  with go show ?thesis by (auto simp: max_tool_calls_def max_unknown_tool_rounds_def)
qed

definition asking_world :: "string \<Rightarrow> hop_world" where
  "asking_world tool =
     \<lparr>hw_disp = (\<lambda>_ _. Failed ''down''), hw_now = 1, hw_stream = None, hw_fallback = Inr [(tool, [], None)]\<rparr>"

definition mid_turn :: agent_state where
  "mid_turn = sample_state\<lparr>ag_tool_calls := [], ag_history := [Msg ''user'' ''q''], ag_turn_started := Some 0\<rparr>"

lemma asking_world_asks: "ag_tool_calls (reasoner_node (asking_world t) mid_turn) = [(t, [])]"
  by (simp add: reasoner_node_def mid_turn_def sample_state_def asking_world_def max_tool_calls_def
      unknown_rounds_def max_unknown_tool_rounds_def time_is_up_def max_turn_wall_clock_sec_def stuck_tool_def
      call_names_def last_n_def reasoner_reply_def reason_streaming_def call_of_def)

theorem reasoner_within_limits_witness:
  "ag_count mid_turn < 10 \<and> stuck_tool (ag_history mid_turn) = None"
  using reasoner_within_limits [of "asking_world ''a''" mid_turn] by (simp add: asking_world_asks)

subsection \<open>The loop ends\<close>

text \<open>A call that some counter pays for: to a registered or engine tool, or to a name that does not exist. The one
  kind left out is a call that is refused by permission.\<close>

definition counted :: "tool_env \<Rightarrow> tool_call \<Rightarrow> bool" where
  "counted env c \<longleftrightarrow> kind_of env (fst c) \<noteq> Unknown \<or> denied_connector env (fst c) = None"

definition loop_left :: "agent_state \<Rightarrow> nat" where
  "loop_left s = (max_tool_calls - ag_count s) + (max_unknown_tool_rounds - unknown_rounds (ag_history s))"

lemma unknown_rounds_append [simp]: "unknown_rounds (h @ h') = unknown_rounds h + unknown_rounds h'"
  by (simp add: unknown_rounds_def)

lemma unknown_rounds_simps [simp]:
  "unknown_rounds [] = 0"
  "unknown_rounds (e # h) = (if is_unknown_marker e then 1 else 0) + unknown_rounds h"
  by (simp_all add: unknown_rounds_def)

lemma unknown_text_marker: "startswith (unknown_tool_text r name) unknown_tool_error_prefix"
  by (simp add: unknown_tool_text_def startswith_def)

lemma unknown_rounds_compact [simp]: "unknown_rounds (compact_for_reasoner env iid h) = unknown_rounds h"
proof -
  have "filter is_unknown_marker (fst (compact_history d llm h m f n i a)) = filter is_unknown_marker h" for d llm m f n i a
    by (rule compacted_filter [OF compact_history_compacted]) simp_all
  then show ?thesis by (simp add: compact_for_reasoner_def unknown_rounds_def split: option.split)
qed

lemma unknown_rounds_rows [simp]: "unknown_rounds (map tool_call_history_row calls) = 0"
  by (auto simp: unknown_rounds_def filter_empty_conv tool_call_history_row_def)

lemma apply_entry_grows:
  "unknown_rounds (tr_history st) \<le> unknown_rounds (tr_history (apply_entry env disp e st))
   \<and> tr_count st \<le> tr_count (apply_entry env disp e st)"
  by (cases "(env, disp, e, st)" rule: apply_entry.cases)
     (auto simp: apply_entry.simps apply_defs Let_def split: kind.splits sum.splits option.splits dispatch_outcome.splits)

lemma apply_entry_counted:
  "k = kind_of env (fst c) \<Longrightarrow> counted env c \<Longrightarrow>
   tr_count st + unknown_rounds (tr_history st) <
   tr_count (apply_entry env disp (k, i, c) st) + unknown_rounds (tr_history (apply_entry env disp (k, i, c) st))"
  using apply_entry_grows [of st env disp "(k, i, c)"]
proof (cases "k = Unknown")
  case True
  moreover assume "k = kind_of env (fst c)" "counted env c"
  ultimately show ?thesis
    by (cases c) (simp add: counted_def apply_entry.simps apply_unknown_def add_result_def unknown_text_marker Let_def)
qed simp

lemma fold_grows:
  "unknown_rounds (tr_history st) \<le> unknown_rounds (tr_history (fold (apply_entry env disp) es st))
   \<and> tr_count st \<le> tr_count (fold (apply_entry env disp) es st)"
proof (induction es arbitrary: st)
  case (Cons e es)
  show ?case using Cons [of "apply_entry env disp e st"] apply_entry_grows [of st env disp e] by simp
qed simp

lemma classify_kind: "(k, j, c) \<in> set (classify env sim i cs) \<Longrightarrow> k = kind_of env (fst c)"
  by (induction cs arbitrary: sim i) (auto simp: Let_def split: if_splits)

lemma fold_counted:
  assumes "(k, i, c) \<in> set es" "k = kind_of env (fst c)" "counted env c"
  shows "tr_count st + unknown_rounds (tr_history st) <
     tr_count (fold (apply_entry env disp) es st) + unknown_rounds (tr_history (fold (apply_entry env disp) es st))"
proof -
  from split_list [OF assms(1)] obtain xs ys where es: "es = xs @ (k, i, c) # ys" by blast
  let ?a = "fold (apply_entry env disp) xs st"
  let ?b = "apply_entry env disp (k, i, c) ?a"
  show ?thesis
    using fold_grows [of st env disp xs] fold_grows [of ?b env disp ys]
      apply_entry_counted [OF assms(2,3), of ?a disp i] by (simp add: es)
qed

text \<open>One hop: either it leaves nothing pending, or it has used up part of what the counters allow, and some is
  left.\<close>

lemma hop_falls:
  assumes pending: "\<exists>c \<in> set (ag_tool_calls s). counted env c"
    and called: "tool_caller env disp s = Inr s'"
    and more: "ag_tool_calls (reasoner_node w s') \<noteq> []"
  shows "loop_left (reasoner_node w s') < loop_left s \<and> 2 \<le> loop_left (reasoner_node w s')"
proof -
  let ?st = "\<lparr>tr_history = ag_history s, tr_audit = ag_audit s, tr_count = ag_count s, tr_chunks = ag_chunks s,
    tr_plan = ag_plan s\<rparr>"
  let ?es = "classify env (ag_count s) 0 (ag_tool_calls s)"
  let ?r = "fold (apply_entry env disp) ?es ?st"
  have s': "ag_count s' = tr_count ?r" "unknown_rounds (ag_history s') = unknown_rounds (tr_history ?r)"
    using called pending
    by (auto simp: tool_caller_def run_pending_def Let_def dedupe_run_def split: if_splits sum.splits option.splits)
  from more obtain room: "ag_count s' < max_tool_calls" "unknown_rounds (ag_history s') < max_unknown_tool_rounds"
    and kept: "ag_count (reasoner_node w s') = ag_count s'"
      "unknown_rounds (ag_history (reasoner_node w s')) = unknown_rounds (ag_history s')"
    by (cases w s' rule: reasoner_cases) auto
  have "length ?es = length (ag_tool_calls s)"
  proof (rule ccontr)
    assume "length ?es \<noteq> length (ag_tool_calls s)"
    then have "length ?es < length (ag_tool_calls s)"
      using arg_cong [OF classify_prefix [of env "ag_count s" 0 "ag_tool_calls s"], of length] by simp
    with classify_complete [of env "ag_count s" 0 "ag_tool_calls s"] room(1) show False
      by (simp add: s' count_fold)
  qed
  then have "map (snd \<circ> snd) ?es = ag_tool_calls s"
    using classify_prefix [of env "ag_count s" 0 "ag_tool_calls s"] by simp
  moreover obtain c where c: "c \<in> set (ag_tool_calls s)" "counted env c" using pending by blast
  ultimately have "c \<in> set (map (snd \<circ> snd) ?es)" by simp
  then obtain e where "e \<in> set ?es" "snd (snd e) = c" by auto
  then have "(fst e, fst (snd e), c) \<in> set ?es" by (metis prod.collapse)
  from fold_counted [OF this classify_kind [OF this] c(2), of ?st disp]
  have used: "ag_count s + unknown_rounds (ag_history s) < ag_count s' + unknown_rounds (ag_history s')"
    by (simp add: s')
  have grown: "ag_count s \<le> ag_count s'" "unknown_rounds (ag_history s) \<le> unknown_rounds (ag_history s')"
    using fold_grows [of ?st env disp ?es] by (simp_all add: s')
  have "\<And>a b c d m u :: nat. a + b < c + d \<Longrightarrow> a \<le> c \<Longrightarrow> b \<le> d \<Longrightarrow> c < m \<Longrightarrow> d < u \<Longrightarrow>
      (m - c) + (u - d) < (m - a) + (u - b) \<and> 2 \<le> (m - c) + (u - d)" by arith
  from this [OF used grown room] show ?thesis by (simp only: loop_left_def kept)
qed

lemma tool_loop_ends:
  assumes "ag_tool_calls s \<noteq> [] \<Longrightarrow> \<exists>c \<in> set (ag_tool_calls s). counted env c"
    and "\<And>j calls. reasoner_reply (world j) = Inr calls \<Longrightarrow> calls \<noteq> [] \<Longrightarrow>
      \<exists>c \<in> set (map call_of calls). counted env c"
    and "ag_tool_calls s \<noteq> [] \<Longrightarrow> loop_left s \<le> Suc fuel \<and> 2 \<le> loop_left s"
  shows "tool_loop env world fuel k s \<noteq> None"
  using assms(1,3)
proof (induction fuel arbitrary: k s)
  case 0
  have "ag_tool_calls s = []" using 0(2) by force
  then show ?case by (simp add: tool_loop.simps)
next
  case (Suc fuel)
  show ?case
  proof (cases "ag_tool_calls s = []")
    case False
    show ?thesis
    proof (cases "tool_caller env (hw_disp (world k)) s")
      case (Inr s')
      let ?t = "reasoner_node (world k) s'"
      have "tool_loop env world fuel (Suc k) ?t \<noteq> None"
      proof (rule Suc.IH)
        assume more: "ag_tool_calls ?t \<noteq> []"
        then show "\<exists>c \<in> set (ag_tool_calls ?t). counted env c"
          using assms(2) [of k] by (cases "world k" s' rule: reasoner_cases) auto
        show "loop_left ?t \<le> Suc fuel \<and> 2 \<le> loop_left ?t"
          using hop_falls [OF _ Inr more] Suc.prems False by fastforce
      qed
      with Inr False show ?thesis by (simp add: tool_loop.simps [of _ _ "Suc fuel"])
    qed (simp add: tool_loop.simps)
  qed (simp add: tool_loop.simps)
qed

text \<open>C4: The tool loop ends. From a fresh turn, if every wave of calls that the model asks for has one call that is
  not refused by permission, then within twelve hops of tool caller and reasoner the loop hands over to the generator
  or a tool's interrupt leaves it, whatever the tools answer, whatever the clock says, and however the model repeats
  itself. Twelve hops are twenty-four of the forty-eight supersteps that the graph is run with.\<close>

theorem tool_loop_terminates:
  assumes "ag_tool_calls s \<noteq> [] \<Longrightarrow> \<exists>c \<in> set (ag_tool_calls s). counted env c"
    and "\<And>j calls. reasoner_reply (world j) = Inr calls \<Longrightarrow> calls \<noteq> [] \<Longrightarrow>
      \<exists>c \<in> set (map call_of calls). counted env c"
    and "ag_count s = 0" and "unknown_rounds (ag_history s) = 0"
  shows "\<exists>r. tool_loop env world 12 k s = Some r"
proof -
  have "tool_loop env world 12 k s \<noteq> None"
    using assms by (intro tool_loop_ends) (simp_all add: loop_left_def max_tool_calls_def max_unknown_tool_rounds_def)
  then show ?thesis by simp
qed

theorem tool_loop_terminates_witness:
  "\<exists>r. tool_loop sample_env (\<lambda>_. asking_world ''no_such_tool'') 12 0
     (mid_turn\<lparr>ag_tool_calls := [(''knowledge_search'', [])]\<rparr>) = Some r"
proof (rule tool_loop_terminates)
  have unknown: "counted sample_env (''no_such_tool'', [])"
    by (simp add: counted_def denied_connector_def connector_for_tool_def sample_env_def)
  have known: "counted sample_env (''knowledge_search'', [])"
    by (simp add: counted_def denied_connector_def connector_for_tool_def sample_env_def)
  show "\<exists>c \<in> set (ag_tool_calls (mid_turn\<lparr>ag_tool_calls := [(''knowledge_search'', [])]\<rparr>)). counted sample_env c"
    using known by simp
  fix j calls
  assume "reasoner_reply (asking_world ''no_such_tool'') = Inr calls" "calls \<noteq> []"
  then show "\<exists>c \<in> set (map call_of calls). counted sample_env c"
    using unknown by (auto simp: reasoner_reply_def asking_world_def reason_streaming_def call_of_def)
qed (simp_all add: mid_turn_def sample_state_def unknown_rounds_def)

subsection \<open>Where no counter runs\<close>

text \<open>A model that alternates between two forbidden tools.\<close>

definition forbidden_env :: tool_env where
  "forbidden_env = sample_env\<lparr>env_tools := [''k8s_a'', ''k8s_b''],
     env_gate := (env_gate sample_env)\<lparr>registry := [(''k8s'', [''k8s_a'', ''k8s_b''])],
       tool_to_connector := [(''k8s_a'', ''k8s''), (''k8s_b'', ''k8s'')]\<rparr>\<rparr>"

definition turn_tool :: "nat \<Rightarrow> string" where
  "turn_tool j = (if even j then ''k8s_a'' else ''k8s_b'')"

definition alternating :: "nat \<Rightarrow> hop_world" where
  "alternating j = asking_world (turn_tool (Suc j))"

lemma turn_tool_refused:
  "kind_of forbidden_env (turn_tool j) = Unknown" "denied_connector forbidden_env (turn_tool j) = Some ''k8s''"
  by (simp_all add: kind_of_def in_registry_def filter_enabled_def forbidden_env_def sample_env_def turn_tool_def
      denied_connector_def connector_for_tool_def)

lemma call_names_append [simp]: "call_names (h @ h') = call_names h @ call_names h'"
  by (simp add: call_names_def)

lemma call_names_simps [simp]:
  "call_names [] = []"
  "call_names (e # h) = (if is_call e then entry_name e # call_names h else call_names h)"
  by (simp_all add: call_names_def)

lemma last_n_append [simp]: "n \<le> length ys \<Longrightarrow> last_n n (xs @ ys) = last_n n ys"
  by (simp add: last_n_def)

lemma stuck_tool_distinct:
  assumes "call_names h = hs @ [a, b]" "a \<noteq> b"
  shows "stuck_tool h = None"
  using assms by (cases hs rule: rev_cases) (auto simp: stuck_tool_def last_n_def)

definition looping :: "nat \<Rightarrow> agent_state \<Rightarrow> bool" where
  "looping j s \<longleftrightarrow> ag_tool_calls s = [(turn_tool j, [])] \<and> ag_count s = 0 \<and> unknown_rounds (ag_history s) = 0
     \<and> ag_turn_started s = Some 0 \<and> (call_names (ag_history s) = [turn_tool j]
       \<or> (\<exists>hs. call_names (ag_history s) = hs @ [turn_tool (j + 1), turn_tool j]))"

lemma looping_step:
  assumes "looping j s"
  shows "\<exists>s'. tool_caller forbidden_env disp s = Inr s' \<and> looping (Suc j) (reasoner_node (alternating j) s')"
proof -
  let ?err = "permission_denied_text (\<lambda>s. s) (turn_tool j) ''k8s''"
  let ?h = "ag_history s @ [Res (turn_tool j) (RError ?err None)]"
  have repr: "env_repr forbidden_env = (\<lambda>s. s)" "env_summarizer forbidden_env = None"
    by (simp_all add: forbidden_env_def sample_env_def)
  obtain s' where call: "tool_caller forbidden_env disp s = Inr s'" and s': "ag_history s' = ?h" "ag_count s' = 0"
      "ag_turn_started s' = Some 0"
    using assms
    by (simp add: looping_def tool_caller_def run_pending_def Let_def max_tool_calls_def turn_tool_refused
        apply_entry.simps apply_unknown_def add_result_def dedupe_run_def compact_for_reasoner_def repr)
  have unknown: "unknown_rounds ?h = 0"
    using assms by (simp add: looping_def unknown_rounds_def permission_denied_text_def startswith_def
        unknown_tool_error_prefix_def)
  have swap: "turn_tool (Suc j) \<noteq> turn_tool j" "turn_tool (Suc (Suc j)) = turn_tool j" by (auto simp: turn_tool_def)
  have unstuck: "stuck_tool ?h = None"
    using assms swap(1)
    by (auto simp: looping_def stuck_tool_def last_n_def intro: stuck_tool_distinct split: list.splits)
  have "reasoner_node (alternating j) s' = s'\<lparr>ag_tool_calls := [(turn_tool (Suc j), [])],
      ag_history := ?h @ [Call (turn_tool (Suc j)) [] None], ag_path_active := True\<rparr>"
    using unstuck unknown
    by (simp add: reasoner_node_def s' Let_def max_tool_calls_def max_unknown_tool_rounds_def time_is_up_def
        max_turn_wall_clock_sec_def alternating_def asking_world_def reasoner_reply_def reason_streaming_def
        call_of_def tool_call_history_row_def)
  moreover have "\<exists>hs. call_names (?h @ [Call (turn_tool (Suc j)) [] None]) = hs @ [turn_tool j, turn_tool (Suc j)]"
    using assms by (auto simp: looping_def)
  ultimately show ?thesis
    using call s' unknown assms swap(2)
    by (intro exI [of _ s']) (auto simp: looping_def)
qed

text \<open>A refused tool is charged to nothing. A model that alternates between two tools that the user may not use
  keeps the loop running for any number of hops: a refusal counts neither against the tool budget nor as an unknown
  tool, and alternation keeps the stuck detector silent. Only the wall clock and the recursion limit of the graph
  end such a turn, the latter with an exception instead of an answer.\<close>

theorem refused_calls_loop:
  "tool_loop forbidden_env alternating fuel 0
     (mid_turn\<lparr>ag_tool_calls := [(''k8s_a'', [])], ag_history := [Msg ''user'' ''q'', Call ''k8s_a'' [] None]\<rparr>) = None"
proof -
  have "looping k s \<Longrightarrow> tool_loop forbidden_env alternating fuel k s = None" for k s
  proof (induction fuel arbitrary: k s)
    case 0
    then show ?case by (simp add: tool_loop.simps looping_def)
  next
    case (Suc fuel)
    from looping_step [OF Suc.prems, of "hw_disp (alternating k)"] obtain s' where
      "tool_caller forbidden_env (hw_disp (alternating k)) s = Inr s'" "looping (Suc k) (reasoner_node (alternating k) s')"
      by blast
    with Suc show ?case by (simp add: tool_loop.simps [of _ _ "Suc fuel"] looping_def)
  qed
  then show ?thesis
    by (simp add: looping_def mid_turn_def sample_state_def turn_tool_def unknown_rounds_def call_names_def)
qed

text \<open>The detector speaks of three hops, but three parallel calls to one tool in the first wave already set it off:
  the reasoner gives up after one hop, whatever the results were.\<close>

lemma parallel_calls_look_stuck:
  assumes "ag_history s = [Msg ''user'' q, Call t a1 g1, Call t a2 g2, Call t a3 g3, Res t r1, Res t r2, Res t r3]"
    and "ag_count s = 3" and "\<not> time_is_up (hw_now w) (ag_turn_started s)"
    and "list_all (\<lambda>r. \<not> is_unknown_marker (Res t r)) [r1, r2, r3]"
  shows "reasoner_node w s = hand_over (ag_history s @ [stuck_note t]) s"
  using assms by (simp add: reasoner_node_def Let_def max_tool_calls_def max_unknown_tool_rounds_def stuck_tool_def
      last_n_def)

subsection \<open>Triage\<close>

text \<open>What triage decides. The tool path is taken exactly when calls are left pending, so the graph's edge never
  sends an empty wave to the tool caller; every pending call has its row in a history that starts with the question
  and forgets the turns before; and the clock of the turn is set with it. A query that the strong trigger matches is
  never sent to retrieval by a model that declined, and a code question always gets a \<open>code_\<close> tool.\<close>

theorem triage_decides:
  assumes "t = triage_node strong code now reply s"
  shows "ag_path_active t = (ag_tool_calls t \<noteq> [])
     \<and> (ag_tool_calls t \<noteq> [] \<longrightarrow> ag_turn_started t = Some now
          \<and> (\<exists>rows. ag_history t = Msg ''user'' (ag_query s) # rows \<and> list_all is_call rows
               \<and> map entry_name rows = map fst (ag_tool_calls t)))
     \<and> (is_ok reply \<longrightarrow> strong (ag_query s) \<longrightarrow> ag_path_active t)
     \<and> (is_ok reply \<longrightarrow> code (ag_query s) \<longrightarrow> list_ex (\<lambda>c. startswith (fst c) ''code_'') (ag_tool_calls t))"
proof (cases reply)
  case (Inl e)
  then show ?thesis by (simp add: assms triage_node_def Let_def)
next
  case (Inr calls)
  let ?calls = "with_code_guard code (ag_query s) calls"
  have rows: "list_all is_call (map tool_call_history_row ?calls)"
    "map entry_name (map tool_call_history_row ?calls) = map fst (map call_of ?calls)"
    by (auto simp: list_all_iff tool_call_history_row_def call_of_def)
  have code: "code (ag_query s) \<Longrightarrow> list_ex (\<lambda>c. startswith (fst c) ''code_'') (map call_of ?calls)"
    by (auto simp: with_code_guard_def list_ex_iff call_of_def startswith_def split: prod.splits)
  show ?thesis
  proof (cases "?calls = []")
    case True
    then show ?thesis using Inr code by (auto simp: assms triage_node_def Let_def)
  next
    case False
    then have "t = s\<lparr>ag_tool_calls := map call_of ?calls,
        ag_history := [Msg ''user'' (ag_query s)] @ map tool_call_history_row ?calls,
        ag_path_active := True, ag_turn_started := Some now\<rparr>"
      by (simp add: assms triage_node_def Let_def Inr)
    then show ?thesis using False rows code by simp
  qed
qed

theorem triage_decides_witness:
  "ag_path_active (triage_node (\<lambda>q. q = ''q'') (\<lambda>_. False) 5 (Inr []) mid_turn)"
proof -
  let ?t = "triage_node (\<lambda>q. q = ''q'') (\<lambda>_. False) 5 (Inr []) mid_turn"
  have "is_ok (Inr [] :: string + emitted list) \<longrightarrow> ag_query mid_turn = ''q'' \<longrightarrow> ag_path_active ?t"
    using triage_decides [of ?t "\<lambda>q. q = ''q''" "\<lambda>_. False" 5 "Inr []" mid_turn, OF refl] by (elim conjE)
  moreover have "ag_query mid_turn = ''q''" by (simp add: mid_turn_def sample_state_def)
  ultimately show ?thesis by (simp only: is_ok.simps simp_thms)
qed

end
