(* ===== verification/File_Store.thy ===== *)
theory File_Store
  imports Fusion
begin

text \<open>
  The two tables that indexing keeps in step. \<open>files_table\<close> is the table of indexed files
  (\<open>indexed_files/postgres.py\<close>): for each repository, branch and path the hash of what was indexed and when the
  file was last seen; a table that is not ready behaves as the no-op tracker. \<open>points\<close> is the chunk table of
  \<open>vectorstores/pgvector.py\<close>, by chunk id: an insert, an update on a conflict of the id, and a delete by
  repository and path. The locale states what indexing needs of such a table.
\<close>

subsection \<open>Indexed files\<close>

type_synonym file_key = "string \<times> string \<times> string"

record file_row =
  fr_hash :: string
  fr_chunk_count :: nat
  fr_last_seen :: real

record files_table =
  ft_ready :: bool
  ft_rows :: "(file_key, file_row) dict"

definition should_skip :: "files_table \<Rightarrow> file_key \<Rightarrow> string \<Rightarrow> bool" where
  "should_skip t key h \<longleftrightarrow>
     ft_ready t \<and> (case map_of (ft_rows t) key of None \<Rightarrow> False | Some r \<Rightarrow> fr_hash r = h)"

definition record_file :: "file_key \<Rightarrow> string \<Rightarrow> nat \<Rightarrow> real \<Rightarrow> files_table \<Rightarrow> files_table" where
  "record_file key h n now t =
     (if \<not> ft_ready t then t
      else t\<lparr>ft_rows := AList.update key \<lparr>fr_hash = h, fr_chunk_count = n, fr_last_seen = now\<rparr> (ft_rows t)\<rparr>)"

definition mark_seen :: "string \<Rightarrow> string \<Rightarrow> string list \<Rightarrow> real \<Rightarrow> files_table \<Rightarrow> files_table" where
  "mark_seen rn br paths now t =
     (if \<not> ft_ready t then t
      else t\<lparr>ft_rows := map (\<lambda>((r, b, p), row).
          ((r, b, p), if r = rn \<and> b = br \<and> p \<in> set paths then row\<lparr>fr_last_seen := now\<rparr> else row)) (ft_rows t)\<rparr>)"

definition stale_row :: "string \<Rightarrow> string \<Rightarrow> real \<Rightarrow> file_key \<times> file_row \<Rightarrow> bool" where
  "stale_row rn br since e = (case e of ((r, b, p), row) \<Rightarrow> r = rn \<and> b = br \<and> fr_last_seen row < since)"

definition sweep_deleted :: "string \<Rightarrow> string \<Rightarrow> real \<Rightarrow> files_table \<Rightarrow> string list \<times> files_table" where
  "sweep_deleted rn br since t =
     (if \<not> ft_ready t then ([], t)
      else (map (\<lambda>((r, b, p), row). p) (filter (stale_row rn br since) (ft_rows t)),
            t\<lparr>ft_rows := filter (\<lambda>e. \<not> stale_row rn br since e) (ft_rows t)\<rparr>))"

lemma row_mark_seen:
  "map_of (ft_rows (mark_seen rn br [p] now t)) key =
     (if ft_ready t \<and> key = (rn, br, p)
      then map_option (fr_last_seen_update (\<lambda>_. now)) (map_of (ft_rows t) key) else map_of (ft_rows t) key)"
proof -
  have "map_of (map (\<lambda>((r, b, q), row). ((r, b, q),
        if r = rn \<and> b = br \<and> q \<in> set [p] then row\<lparr>fr_last_seen := now\<rparr> else row)) xs) key =
      (if key = (rn, br, p) then map_option (fr_last_seen_update (\<lambda>_. now)) (map_of xs key) else map_of xs key)"
    for xs by (induction xs) auto
  then show ?thesis by (auto simp: mark_seen_def)
qed

lemma row_record_file:
  "map_of (ft_rows (record_file key h n now t)) key' =
     (if ft_ready t \<and> key' = key then Some \<lparr>fr_hash = h, fr_chunk_count = n, fr_last_seen = now\<rparr>
      else map_of (ft_rows t) key')"
  by (auto simp: record_file_def)

lemma ready_kept [simp]:
  "ft_ready (mark_seen rn br ps now t) = ft_ready t" "ft_ready (record_file key h n now t) = ft_ready t"
  "ft_ready (snd (sweep_deleted rn br since t)) = ft_ready t"
  by (auto simp: mark_seen_def record_file_def sweep_deleted_def)

lemma keys_kept:
  "dict_ok (ft_rows t) \<Longrightarrow> dict_ok (ft_rows (mark_seen rn br ps now t))"
  "dict_ok (ft_rows t) \<Longrightarrow> dict_ok (ft_rows (record_file key h n now t))"
  "dict_ok (ft_rows t) \<Longrightarrow> dict_ok (ft_rows (snd (sweep_deleted rn br since t)))"
proof -
  show "dict_ok (ft_rows t) \<Longrightarrow> dict_ok (ft_rows (mark_seen rn br ps now t))"
    by (simp add: mark_seen_def comp_def split_def)
  show "dict_ok (ft_rows t) \<Longrightarrow> dict_ok (ft_rows (record_file key h n now t))"
    by (auto simp: record_file_def)
  show "dict_ok (ft_rows t) \<Longrightarrow> dict_ok (ft_rows (snd (sweep_deleted rn br since t)))"
    by (auto simp: sweep_deleted_def distinct_map inj_on_def)
qed

lemma row_sweep:
  assumes "dict_ok (ft_rows t)" "ft_ready t"
  shows "map_of (ft_rows (snd (sweep_deleted rn br since t))) (r, b, p) =
     (case map_of (ft_rows t) (r, b, p) of None \<Rightarrow> None
      | Some row \<Rightarrow> if r = rn \<and> b = br \<and> fr_last_seen row < since then None else Some row)"
proof -
  have "map_of (filter (\<lambda>e. \<not> stale_row rn br since e) xs) (r, b, p) =
     (case map_of xs (r, b, p) of None \<Rightarrow> None
      | Some row \<Rightarrow> if r = rn \<and> b = br \<and> fr_last_seen row < since then None else Some row)"
    if "distinct (map fst xs)" for xs :: "(file_key \<times> file_row) list"
    using that
  proof (induction xs)
    case (Cons e xs)
    obtain k row where e: "e = (k, row)" by fastforce
    show ?case
    proof (cases "k = (r, b, p)")
      case True
      with Cons.prems e have "map_of xs (r, b, p) = None" by (auto simp: map_of_eq_None_iff)
      with Cons True e show ?thesis by (auto simp: stale_row_def)
    next
      case False
      with Cons e show ?thesis by (auto simp: stale_row_def)
    qed
  qed simp
  with assms show ?thesis by (simp add: sweep_deleted_def)
qed

lemma swept_paths:
  assumes "dict_ok (ft_rows t)" "ft_ready t"
  shows "p \<in> set (fst (sweep_deleted rn br since t)) \<longleftrightarrow>
     (\<exists>row. map_of (ft_rows t) (rn, br, p) = Some row \<and> fr_last_seen row < since)"
  using assms by (force simp: sweep_deleted_def stale_row_def map_of_in_iff [symmetric])

subsection \<open>The chunk table\<close>

record point =
  pt_chunk :: chunk
  pt_priority :: "string option"
  pt_embedding :: "real list option"

type_synonym points = "(string, point) dict"

definition priority_for :: "string list \<Rightarrow> (json \<Rightarrow> string) \<Rightarrow> chunk \<Rightarrow> string option" where
  "priority_for high other c =
     (let tag = dget JNull ''priority'' (metadata c)
      in if truthy tag then Some (json_str other tag) else chunk_priority high (Some (repo c)) (Some (source_path c)))"

text \<open>One record of \<open>upsert\<close>. The table has no column for \<open>embed_content\<close>, and a conflict updates
  only the columns that are listed.\<close>

definition put_point :: "(chunk \<Rightarrow> string option) \<Rightarrow> chunk \<times> real list option \<Rightarrow> points \<Rightarrow> points" where
  "put_point prio cv ps =
     (case cv of (c, v) \<Rightarrow>
        let row = (case map_of ps (chunk_id c) of
              None \<Rightarrow> c\<lparr>embed_content := None\<rparr>
            | Some old \<Rightarrow> (pt_chunk old)\<lparr>content := content c, chunk_doc_type := chunk_doc_type c, metadata := metadata c\<rparr>)
        in AList.update (chunk_id c) \<lparr>pt_chunk = row, pt_priority = prio c, pt_embedding = v\<rparr> ps)"

definition upsert :: "(chunk \<Rightarrow> string option) \<Rightarrow> (chunk \<times> real list option) list \<Rightarrow> points \<Rightarrow> points" where
  "upsert prio cvs ps = fold (put_point prio) cvs ps"

definition at_file :: "string \<Rightarrow> string \<Rightarrow> string \<times> point \<Rightarrow> bool" where
  "at_file r p e \<longleftrightarrow> repo (pt_chunk (snd e)) = r \<and> source_path (pt_chunk (snd e)) = p"

definition delete_by_filter :: "string \<Rightarrow> string \<Rightarrow> points \<Rightarrow> points" where
  "delete_by_filter r p ps = filter (\<lambda>e. \<not> at_file r p e) ps"

definition chunks_at :: "points \<Rightarrow> string \<Rightarrow> string \<Rightarrow> chunk list" where
  "chunks_at ps r p = map (pt_chunk \<circ> snd) (filter (at_file r p) ps)"


subsection \<open>What indexing needs of a chunk table\<close>

text \<open>\<open>owner\<close> gives the file that a chunk id belongs to. A batch for one file goes into a table whose ids are owned:
  it leaves the other files alone, and where the file has no chunks yet it leaves what an empty table would hold.\<close>

locale chunk_table =
  fixes put :: "'b list \<Rightarrow> 's \<Rightarrow> 's"
    and delete :: "string \<Rightarrow> string \<Rightarrow> 's \<Rightarrow> 's"
    and look :: "'s \<Rightarrow> string \<Rightarrow> string \<Rightarrow> chunk list"
    and empty :: 's
    and chunk_of :: "'b \<Rightarrow> chunk"
    and owned :: "(string \<Rightarrow> string \<times> string) \<Rightarrow> 's \<Rightarrow> bool"
  assumes look_delete: "look (delete r p s) r' p' = (if r' = r \<and> p' = p then [] else look s r' p')"
    and delete_owned: "owned owner s \<Longrightarrow> owned owner (delete r p s)"
    and put_owned: "owned owner s \<Longrightarrow> (\<And>b. b \<in> set bs \<Longrightarrow> owner (chunk_id (chunk_of b)) = (repo (chunk_of b), source_path (chunk_of b)))
      \<Longrightarrow> owned owner (put bs s)"
    and look_put: "owned owner s \<Longrightarrow> (\<And>b. b \<in> set bs \<Longrightarrow> owner (chunk_id (chunk_of b)) = (r, p)
          \<and> repo (chunk_of b) = r \<and> source_path (chunk_of b) = p)
      \<Longrightarrow> look s r p = [] \<Longrightarrow> look (put bs s) r' p' = (if r' = r \<and> p' = p then look (put bs empty) r p else look s r' p')"
begin

text \<open>Replacing the chunks of a file: what it had is gone and the other files keep theirs.\<close>

lemma replace_file:
  assumes "owned owner s" "\<And>b. b \<in> set bs \<Longrightarrow> owner (chunk_id (chunk_of b)) = (r, p)
      \<and> repo (chunk_of b) = r \<and> source_path (chunk_of b) = p"
  shows "look (put bs (delete r p s)) r' p' = (if r' = r \<and> p' = p then look (put bs empty) r p else look s r' p')"
    and "owned owner (put bs (delete r p s))"
proof -
  show "look (put bs (delete r p s)) r' p' = (if r' = r \<and> p' = p then look (put bs empty) r p else look s r' p')"
    using look_put [OF delete_owned [OF assms(1)] assms(2), of bs r p r' p'] by (simp add: look_delete)
  show "owned owner (put bs (delete r p s))"
    by (rule put_owned) (use assms in \<open>auto intro: delete_owned\<close>)
qed

text \<open>Sweeping a list of files.\<close>

lemma look_sweep:
  "look (fold (delete r) ps s) r' p' = (if r' = r \<and> p' \<in> set ps then [] else look s r' p')"
  by (induction ps arbitrary: s) (auto simp: look_delete)

lemma sweep_owned: "owned owner s \<Longrightarrow> owned owner (fold (delete r) ps s)"
  by (induction ps arbitrary: s) (auto intro: delete_owned)

end

subsection \<open>The table provides it\<close>

definition points_owned :: "(string \<Rightarrow> string \<times> string) \<Rightarrow> points \<Rightarrow> bool" where
  "points_owned owner ps \<longleftrightarrow>
     dict_ok ps \<and> (\<forall>(i, pt) \<in> set ps. owner i = (repo (pt_chunk pt), source_path (pt_chunk pt)))"

lemma filter_update_in:
  assumes "\<And>v0. map_of xs k = Some v0 \<Longrightarrow> P (k, v0)" "P (k, v)" "distinct (map fst xs)"
  shows "filter P (AList.update k v xs) = AList.update k v (filter P xs)"
  using assms by (induction xs) (auto simp: map_of_eq_None_iff)

lemma filter_update_out:
  assumes "\<And>v0. map_of xs k = Some v0 \<Longrightarrow> \<not> P (k, v0)" "\<not> P (k, v)" "distinct (map fst xs)"
  shows "filter P (AList.update k v xs) = filter P xs"
  using assms by (induction xs) (auto simp: map_of_eq_None_iff)

lemma map_of_filter_in:
  assumes "\<And>v0. map_of xs k = Some v0 \<Longrightarrow> P (k, v0)" "distinct (map fst xs)"
  shows "map_of (filter P xs) k = map_of xs k"
  using assms by (induction xs) (auto simp: map_of_eq_None_iff)

lemma owned_row:
  "points_owned owner ps \<Longrightarrow> map_of ps i = Some pt \<Longrightarrow> owner i = (repo (pt_chunk pt), source_path (pt_chunk pt))"
  by (force simp: points_owned_def dest: map_of_SomeD)

lemma put_point_row:
  assumes "points_owned owner ps" "owner (chunk_id c) = (repo c, source_path c)"
  obtains pt where "put_point prio (c, v) ps = AList.update (chunk_id c) pt ps"
    "repo (pt_chunk pt) = repo c" "source_path (pt_chunk pt) = source_path c"
    "pt = (case map_of ps (chunk_id c) of
       None \<Rightarrow> \<lparr>pt_chunk = c\<lparr>embed_content := None\<rparr>, pt_priority = prio c, pt_embedding = v\<rparr>
     | Some old \<Rightarrow> \<lparr>pt_chunk = (pt_chunk old)\<lparr>content := content c, chunk_doc_type := chunk_doc_type c, metadata := metadata c\<rparr>,
         pt_priority = prio c, pt_embedding = v\<rparr>)"
proof (cases "map_of ps (chunk_id c)")
  case (Some old)
  with owned_row [OF assms(1) Some] assms(2) show ?thesis by (intro that) (auto simp: put_point_def Let_def)
qed (use assms(2) in \<open>auto simp: put_point_def Let_def intro: that\<close>)

lemma put_point_owned:
  assumes "points_owned owner ps" "owner (chunk_id c) = (repo c, source_path c)"
  shows "points_owned owner (put_point prio (c, v) ps)"
proof -
  obtain pt where pt: "put_point prio (c, v) ps = AList.update (chunk_id c) pt ps"
    "repo (pt_chunk pt) = repo c" "source_path (pt_chunk pt) = source_path c"
    using put_point_row [OF assms] by metis
  have ok: "dict_ok ps" using assms(1) by (simp add: points_owned_def)
  have "(i, x) \<in> set (AList.update (chunk_id c) pt ps) \<Longrightarrow> owner i = (repo (pt_chunk x), source_path (pt_chunk x))" for i x
    using map_of_in_iff [OF dict_ok_update [OF ok], of i x "chunk_id c" pt] owned_row [OF assms(1), of i x] assms(2) pt(2,3)
    by (auto split: if_splits)
  then show ?thesis using ok by (auto simp: points_owned_def pt(1))
qed

lemma filter_put_point:
  assumes "points_owned owner ps" "owner (chunk_id c) = (r, p)" "repo c = r" "source_path c = p"
  shows "filter (at_file r' p') (put_point prio (c, v) ps) =
    (if r' = r \<and> p' = p then put_point prio (c, v) (filter (at_file r p) ps) else filter (at_file r' p') ps)"
proof -
  have own: "owner (chunk_id c) = (repo c, source_path c)" using assms(2-4) by simp
  obtain pt where pt: "put_point prio (c, v) ps = AList.update (chunk_id c) pt ps"
    "repo (pt_chunk pt) = r" "source_path (pt_chunk pt) = p"
    using put_point_row [OF assms(1) own] assms(3,4) by metis
  have ok: "dict_ok ps" using assms(1) by (simp add: points_owned_def)
  have row: "map_of ps (chunk_id c) = Some x \<Longrightarrow> at_file r p (chunk_id c, x)" for x
    using owned_row [OF assms(1), of "chunk_id c" x] assms(2) by (simp add: at_file_def)
  show ?thesis
  proof (cases "r' = r \<and> p' = p")
    case True
    have "filter (at_file r p) (AList.update (chunk_id c) pt ps) = AList.update (chunk_id c) pt (filter (at_file r p) ps)"
      by (rule filter_update_in) (use row pt ok in \<open>auto simp: at_file_def\<close>)
    moreover have "map_of (filter (at_file r p) ps) (chunk_id c) = map_of ps (chunk_id c)"
      by (rule map_of_filter_in) (use row ok in auto)
    then have "put_point prio (c, v) (filter (at_file r p) ps) = AList.update (chunk_id c) pt (filter (at_file r p) ps)"
      using pt(1) by (simp add: put_point_def Let_def) (metis AList.update_conv' fun_upd_same option.inject map_upd_eqD1)
    ultimately show ?thesis using True pt(1) by simp
  next
    case False
    have "filter (at_file r' p') (AList.update (chunk_id c) pt ps) = filter (at_file r' p') ps"
      by (rule filter_update_out) (use row pt ok False in \<open>auto simp: at_file_def\<close>)
    with False pt(1) show ?thesis by auto
  qed
qed


lemma upsert_owned:
  "points_owned owner ps \<Longrightarrow> (\<And>b. b \<in> set cvs \<Longrightarrow> owner (chunk_id (fst b)) = (repo (fst b), source_path (fst b)))
   \<Longrightarrow> points_owned owner (upsert prio cvs ps)"
proof (induction cvs arbitrary: ps)
  case (Cons b cvs)
  have "points_owned owner (put_point prio b ps)"
    using put_point_owned [OF Cons.prems(1), of "fst b" prio "snd b"] Cons.prems(2) [of b] by simp
  then have "points_owned owner (upsert prio cvs (put_point prio b ps))"
    by (rule Cons.IH) (use Cons.prems(2) in simp)
  then show ?case by (simp add: upsert_def)
qed (simp add: upsert_def)

lemma filter_upsert:
  assumes "points_owned owner ps"
    and "\<And>b. b \<in> set cvs \<Longrightarrow> owner (chunk_id (fst b)) = (r, p) \<and> repo (fst b) = r \<and> source_path (fst b) = p"
  shows "filter (at_file r' p') (upsert prio cvs ps) =
    (if r' = r \<and> p' = p then upsert prio cvs (filter (at_file r p) ps) else filter (at_file r' p') ps)"
  using assms
proof (induction cvs arbitrary: ps)
  case (Cons b cvs)
  obtain c v where b: "b = (c, v)" by fastforce
  have c: "owner (chunk_id c) = (r, p)" "repo c = r" "source_path c = p" using Cons.prems(2) [of b] by (simp_all add: b)
  have own: "points_owned owner (put_point prio (c, v) ps)"
    using put_point_owned [OF Cons.prems(1)] c by simp
  show ?case
    using Cons.IH [OF own] Cons.prems filter_put_point [OF Cons.prems(1) c, of r' p' prio v]
      filter_put_point [OF Cons.prems(1) c, of r p prio v]
    by (auto simp: upsert_def b)
qed (simp add: upsert_def)

lemma points_owned_Nil [simp]: "points_owned owner []"
  by (simp add: points_owned_def)

lemma chunks_at_upsert:
  assumes "points_owned owner ps"
    and "\<And>b. b \<in> set cvs \<Longrightarrow> owner (chunk_id (fst b)) = (r, p) \<and> repo (fst b) = r \<and> source_path (fst b) = p"
    and "chunks_at ps r p = []"
  shows "chunks_at (upsert prio cvs ps) r' p' =
    (if r' = r \<and> p' = p then chunks_at (upsert prio cvs []) r p else chunks_at ps r' p')"
proof -
  have "filter (at_file r p) ps = []" using assms(3) by (simp add: chunks_at_def)
  then show ?thesis
    using filter_upsert [OF assms(1,2), where prio = prio and r' = r' and p' = p']
      filter_upsert [OF points_owned_Nil assms(2), where prio = prio and r' = r and p' = p]
    by (auto simp: chunks_at_def)
qed

lemma chunks_at_delete:
  "chunks_at (delete_by_filter r p ps) r' p' = (if r' = r \<and> p' = p then [] else chunks_at ps r' p')"
proof (cases "r' = r \<and> p' = p")
  case False
  then have "filter (at_file r' p') (filter (\<lambda>e. \<not> at_file r p e) ps) = filter (at_file r' p') ps"
    by (auto simp: at_file_def intro!: filter_cong)
  with False show ?thesis by (auto simp: chunks_at_def delete_by_filter_def)
qed (simp add: chunks_at_def delete_by_filter_def)

lemma delete_owned: "points_owned owner ps \<Longrightarrow> points_owned owner (delete_by_filter r p ps)"
  by (auto simp: points_owned_def delete_by_filter_def distinct_map inj_on_def)

interpretation pg: chunk_table "upsert prio" delete_by_filter chunks_at "[]" fst points_owned for prio
proof
  show "points_owned owner (upsert prio bs s)"
    if "points_owned owner s" "\<And>b. b \<in> set bs \<Longrightarrow> owner (chunk_id (fst b)) = (repo (fst b), source_path (fst b))"
    for owner s bs using that by (rule upsert_owned)
qed (auto simp: chunks_at_delete delete_owned chunks_at_upsert)

end
