(* ===== verification/Enrich.thy ===== *)
theory Enrich
  imports Chunk_Model
begin

text \<open>
  The facets of a chunk: what a file's origin says about it (\<open>ingestion/metadata.py\<close>) and what its path, heading
  and text say (\<open>ingestion/enrich.py\<close>). Both functions change the metadata dict in place; the model returns
  it. A call that raises leaves what it had written, and its caller goes on with that. The order in which Python
  iterates over a set of strings is not fixed, so it is an argument of the tier.
\<close>

subsection \<open>Writing a facet\<close>

text \<open>The two \<open>_set_if_absent\<close>: the one of the enricher skips \<open>None\<close>, the one of the provenance
  every empty value.\<close>

definition set_if_absent :: "string \<Rightarrow> json option \<Rightarrow> obj \<Rightarrow> obj" where
  "set_if_absent k v m =
     (case v of None \<Rightarrow> m | Some x \<Rightarrow> if empty_value (dget JNull k m) then AList.update k x m else m)"

definition set_value_if_absent :: "string \<Rightarrow> json \<Rightarrow> obj \<Rightarrow> obj" where
  "set_value_if_absent k v m = set_if_absent k (if empty_value v then None else Some v) m"

lemma set_if_absent_keeps:
  "\<not> empty_value (dget JNull k m) \<Longrightarrow> dget JNull k (set_if_absent k' v m) = dget JNull k m"
  by (auto simp: set_if_absent_def split: option.splits)

lemma dget_set_if_absent:
  "dget JNull k (set_if_absent k' v m) =
     (if k' = k \<and> empty_value (dget JNull k m) \<and> v \<noteq> None then the v else dget JNull k m)"
  by (auto simp: set_if_absent_def split: option.splits)

lemma set_if_absent_other: "k' \<noteq> k \<Longrightarrow> dget JNull k (set_if_absent k' v m) = dget JNull k m"
  by (simp add: dget_set_if_absent)

lemma set_if_absent_same: "empty_value (dget JNull k m) \<Longrightarrow> dget JNull k (set_if_absent k (Some v) m) = v"
  by (simp add: dget_set_if_absent)

lemma set_if_absent_id:
  "v = None \<or> \<not> empty_value (dget JNull k m) \<Longrightarrow> set_if_absent k v m = m"
  by (auto simp: set_if_absent_def split: option.splits)

subsection \<open>Provenance\<close>

record author_policy =
  ap_plaintext :: bool
  ap_sha256 :: "string \<Rightarrow> string"

definition hash_author :: "author_policy \<Rightarrow> string \<Rightarrow> string option" where
  "hash_author ap author =
     (if author = [] then None else Some (''anon:'' @ take 16 (ap_sha256 ap (py_lower (py_strip author)))))"

definition apply_author :: "author_policy \<Rightarrow> json \<Rightarrow> obj \<Rightarrow> obj" where
  "apply_author ap author m =
     (if \<not> truthy author then m
      else if ap_plaintext ap then AList.update ''author_hashed'' (JBool False) (AList.update ''author'' author m)
      else case author of
        JStr s \<Rightarrow>
          (case hash_author ap s of
             None \<Rightarrow> m
           | Some h \<Rightarrow> AList.update ''author_hashed'' (JBool True) (AList.update ''author'' (JStr h) m))
      | _ \<Rightarrow> m)"

definition service_parents :: "string list" where
  "service_parents =
     [''services'', ''service'', ''charts'', ''chart'', ''apps'', ''app'', ''deploy'', ''k8s'']"

fun service_in :: "string list \<Rightarrow> string option" where
  "service_in (seg # cand # parts) =
     (if py_lower seg \<in> set service_parents \<and> \<not> startswith cand ''.'' then Some cand
      else service_in (cand # parts))"
| "service_in _ = None"

definition service_from_path :: "string \<Rightarrow> string option" where
  "service_from_path path = service_in (filter (\<lambda>p. p \<noteq> []) (split_on CHR ''/'' path))"

text \<open>A date that comes with the metadata is a string in ISO form.\<close>

definition iso_of :: "json \<Rightarrow> json" where
  "iso_of v = (case v of JStr s \<Rightarrow> JStr s | _ \<Rightarrow> JNull)"

definition apply_provenance ::
  "author_policy \<Rightarrow> obj \<Rightarrow> string option \<Rightarrow> string \<Rightarrow> string \<Rightarrow> obj \<Rightarrow> obj" where
  "apply_provenance ap src last_modified path source_type m =
     (let author = py_or (dget JNull ''author'' src) (dget JNull ''last_editor'' src);
          m1 = set_value_if_absent ''source_system'' (py_or (dget JNull ''source_type'' src) (JStr source_type)) m;
          m2 = set_value_if_absent ''updated_at'' (case last_modified of None \<Rightarrow> JNull | Some t \<Rightarrow> JStr t) m1;
          m3 = set_value_if_absent ''url'' (py_or (dget JNull ''url'' src) (dget JNull ''page_url'' src)) m2;
          m4 = set_value_if_absent ''owner_team'' (dget JNull ''owner_team'' src) m3;
          m5 = set_value_if_absent ''created_at'' (iso_of (dget JNull ''created_at'' src)) m4;
          m6 = set_value_if_absent ''service''
                 (case service_from_path path of None \<Rightarrow> JNull | Some s \<Rightarrow> JStr s) m5
      in if truthy author \<and> map_of m6 ''author'' = None then apply_author ap author m6 else m6)"

subsection \<open>What the path and the heading say\<close>

text \<open>\<open>_SEGMENT_SPLIT\<close>: the words between slashes, backslashes, dots, underscores, hyphens and blanks.\<close>

definition is_separator :: "char \<Rightarrow> bool" where
  "is_separator c \<longleftrightarrow> c \<in> {CHR ''/'', CHR 0x5C, CHR ''.'', CHR ''_'', CHR ''-''} \<or> is_space c"

fun words_of :: "string \<Rightarrow> string list" where
  "words_of [] = [[]]"
| "words_of (c # cs) =
     (if is_separator c then [] # words_of cs
      else (case words_of cs of [] \<Rightarrow> [[c]] | w # ws \<Rightarrow> (c # w) # ws))"

definition segments :: "string \<Rightarrow> string list" where
  "segments path = filter (\<lambda>s. s \<noteq> []) (words_of (py_lower path))"

definition env_tokens :: "(string \<times> string) list" where
  "env_tokens =
     [(''prod'', ''prod''), (''production'', ''prod''), (''live'', ''prod''), (''staging'', ''staging''),
      (''stage'', ''staging''), (''preprod'', ''preprod''), (''dev'', ''dev''), (''develop'', ''dev''),
      (''development'', ''dev''), (''sandbox'', ''dev''), (''local'', ''dev''), (''test'', ''test''),
      (''testing'', ''test''), (''qa'', ''qa''), (''uat'', ''qa'')]"

definition path_doc_types :: "(string \<times> string) list" where
  "path_doc_types =
     [(''postmortem'', ''postmortem''), (''post-mortem'', ''postmortem''), (''incident'', ''incident''),
      (''runbook'', ''runbook''), (''/sop/'', ''runbook''), (''/adr/'', ''adr''), (''/adrs/'', ''adr''),
      (''architecture'', ''architecture'')]"

definition tier_tokens :: "(string \<times> string) list" where
  "tier_tokens =
     [(''tier0'', ''tier0''), (''tier-0'', ''tier0''), (''t0'', ''tier0''), (''p0'', ''tier0''),
      (''critical'', ''tier0''), (''tier1'', ''tier1''), (''tier-1'', ''tier1''), (''t1'', ''tier1''),
      (''p1'', ''tier1''), (''tier2'', ''tier2''), (''tier-2'', ''tier2''), (''t2'', ''tier2''), (''p2'', ''tier2''),
      (''tier3'', ''tier3''), (''tier-3'', ''tier3''), (''t3'', ''tier3''), (''p3'', ''tier3'')]"

definition tech_tags :: "string list" where
  "tech_tags =
     [''redis'', ''postgres'', ''postgresql'', ''mysql'', ''kafka'', ''rabbitmq'', ''elasticsearch'', ''kubernetes'',
      ''k8s'', ''docker'', ''nginx'', ''envoy'', ''istio'', ''terraform'', ''helm'', ''prometheus'', ''grafana'',
      ''datadog'', ''latency'', ''oom'', ''deadlock'', ''timeout'', ''throttle'']"

definition doc_types :: "string list" where
  "doc_types =
     [''runbook'', ''postmortem'', ''incident'', ''terraform'', ''helm'', ''helm_values'', ''kubernetes'',
      ''dockerfile'', ''alert_definition'', ''architecture'', ''adr'', ''wiki'', ''chat'', ''yaml_config'', ''code'',
      ''generic_markdown'']"

definition environments :: "string list" where
  "environments = [''prod'', ''staging'', ''preprod'', ''dev'', ''test'', ''qa'']"

definition tiers :: "string list" where
  "tiers = [''tier0'', ''tier1'', ''tier2'', ''tier3'']"

definition languages :: "string list" where
  "languages = [''en'', ''yaml'', ''hcl'', ''json'', ''dockerfile'', ''python'', ''javascript'', ''typescript'',
     ''go'', ''java'', ''shell'', ''markdown'']"

text \<open>The first token that a table knows.\<close>

fun first_known :: "(string \<times> string) list \<Rightarrow> string list \<Rightarrow> string option" where
  "first_known table [] = None"
| "first_known table (t # ts) = (case map_of table t of None \<Rightarrow> first_known table ts | Some v \<Rightarrow> Some v)"

definition derive_environment :: "string \<Rightarrow> string \<Rightarrow> string option" where
  "derive_environment path heading = first_known env_tokens (segments path @ segments heading)"

definition derive_tier :: "(string list \<Rightarrow> string list) \<Rightarrow> string \<Rightarrow> string \<Rightarrow> string option" where
  "derive_tier set_order path heading =
     first_known tier_tokens (set_order (remdups (segments path @ segments heading)))"

definition code_types :: "doc_type list" where
  "code_types = [PYTHON, JAVASCRIPT, TYPESCRIPT, GO, JAVA, SHELL]"

definition derive_doc_type :: "string \<Rightarrow> doc_type option \<Rightarrow> obj \<Rightarrow> string" where
  "derive_doc_type path struct m =
     (case find (\<lambda>(needle, dt). py_in needle (py_lower path)) path_doc_types of
        Some (needle, dt) \<Rightarrow> dt
      | None \<Rightarrow>
          if truthy (dget JNull ''postmortem'' m) then ''postmortem''
          else if truthy (dget JNull ''runbook'' m) then ''runbook''
          else (case struct of
            None \<Rightarrow> ''generic_markdown''
          | Some dt \<Rightarrow>
              if dt \<in> set code_types then ''code''
              else if dt = HELM then
                (if dget JNull ''helm_file_type'' m = JStr ''values'' then ''helm_values'' else ''helm'')
              else doc_value dt))"

definition language_of :: "doc_type \<Rightarrow> string option" where
  "language_of dt =
     (case dt of PYTHON \<Rightarrow> Some ''python'' | JAVASCRIPT \<Rightarrow> Some ''javascript'' | TYPESCRIPT \<Rightarrow> Some ''typescript''
      | GO \<Rightarrow> Some ''go'' | JAVA \<Rightarrow> Some ''java'' | SHELL \<Rightarrow> Some ''shell'' | TERRAFORM \<Rightarrow> Some ''hcl''
      | HELM \<Rightarrow> Some ''yaml'' | KUBERNETES \<Rightarrow> Some ''yaml'' | YAML_CONFIG \<Rightarrow> Some ''yaml''
      | DOCKERFILE \<Rightarrow> Some ''dockerfile'' | _ \<Rightarrow> None)"

text \<open>The branch for code of an unknown language gives the same answer as the last one.\<close>

definition derive_language :: "doc_type option \<Rightarrow> string" where
  "derive_language struct = (case Option.bind struct language_of of None \<Rightarrow> ''en'' | Some l \<Rightarrow> l)"

definition tag_alias :: "string \<Rightarrow> string" where
  "tag_alias t = (if t = ''postgresql'' then ''postgres'' else if t = ''k8s'' then ''kubernetes'' else t)"

definition add_new :: "'a list \<Rightarrow> 'a list \<Rightarrow> 'a list" where
  "add_new xs ys = fold (\<lambda>y acc. if y \<in> set acc then acc else acc @ [y]) ys xs"

definition derive_tags :: "string \<Rightarrow> string \<Rightarrow> string list" where
  "derive_tags path body =
     (let hay = py_lower (path @ [CHR 0x0A] @ body)
      in add_new [] (map tag_alias (filter (\<lambda>t. py_in t hay) tech_tags)))"

definition derive_validity :: "string \<Rightarrow> bool" where
  "derive_validity path =
     (\<not> list_ex (\<lambda>x. py_in x (py_lower path)) [''/archive/'', ''/archived/'', ''/deprecated/'', ''.bak''])"

subsection \<open>The enricher\<close>

definition known :: "string list \<Rightarrow> string option \<Rightarrow> json option" where
  "known vocabulary v = (case v of Some x \<Rightarrow> if x \<in> set vocabulary then Some (JStr x) else None | None \<Rightarrow> None)"

definition heading_of :: "(json \<Rightarrow> string) \<Rightarrow> obj \<Rightarrow> string" where
  "heading_of other m = json_str other (py_or (dget JNull ''section_heading'' m) (JStr []))"

text \<open>The facets before the tags.\<close>

definition enrich_facets ::
  "(string list \<Rightarrow> string list) \<Rightarrow> (json \<Rightarrow> string) \<Rightarrow> string \<Rightarrow> string \<Rightarrow> doc_type option \<Rightarrow> obj \<Rightarrow> obj" where
  "enrich_facets set_order other path source_type struct m =
     (let heading = heading_of other m;
          dt = derive_doc_type path struct (set_if_absent ''source_system''
            (Some (JStr (if source_type = [] then ''unknown'' else source_type))) m);
          tier = known tiers (derive_tier set_order path heading);
          m1 = set_if_absent ''source_system'' (Some (JStr (if source_type = [] then ''unknown'' else source_type))) m;
          m2 = set_if_absent ''doc_type''
                 (Some (JStr (if dt \<in> set doc_types then dt else ''generic_markdown''))) m1;
          m3 = set_if_absent ''environment'' (known environments (derive_environment path heading)) m2;
          m4 = set_if_absent ''criticality'' tier (set_if_absent ''tier'' tier m3)
      in set_if_absent ''language'' (known languages (Some (derive_language struct))) m4)"

definition merge_tags :: "string list \<Rightarrow> json \<Rightarrow> json list result" where
  "merge_tags derived existing =
     map_sum id (\<lambda>xs. add_new xs (map JStr derived)) (iterate_or_empty existing)"

text \<open>Tags that cannot be iterated over end the call before \<open>valid\<close> is written.\<close>

definition enrich_metadata ::
  "(string list \<Rightarrow> string list) \<Rightarrow> (json \<Rightarrow> string) \<Rightarrow> string \<Rightarrow> string \<Rightarrow> string \<Rightarrow> doc_type option \<Rightarrow> obj
    \<Rightarrow> obj" where
  "enrich_metadata set_order other path body source_type struct m =
     (let m1 = enrich_facets set_order other path source_type struct m;
          derived = derive_tags path body;
          valid = (\<lambda>m'. if map_of m' ''valid'' = None
            then AList.update ''valid'' (JBool (derive_validity path)) m' else m')
      in if derived = [] then valid m1
         else case merge_tags derived (dget JNull ''tags'' m1) of
           Inl e \<Rightarrow> m1
         | Inr ts \<Rightarrow> valid (AList.update ''tags'' (JList ts) m1))"


subsection \<open>Explicit values win\<close>

definition written :: "obj \<Rightarrow> string \<Rightarrow> bool" where
  "written m k \<longleftrightarrow> \<not> empty_value (dget JNull k m)"

text \<open>\<open>m'\<close> extends \<open>m\<close>: a facet other than the tags that has a value keeps it.\<close>

definition extends :: "obj \<Rightarrow> obj \<Rightarrow> bool" where
  "extends m m' \<longleftrightarrow> (\<forall>k. k \<noteq> ''tags'' \<longrightarrow> written m k \<longrightarrow> dget JNull k m' = dget JNull k m)"

lemma extends_refl [simp]: "extends m m"
  by (simp add: extends_def)

lemma extends_trans [trans]: "extends m1 m2 \<Longrightarrow> extends m2 m3 \<Longrightarrow> extends m1 m3"
  by (simp add: extends_def written_def)

lemma extends_set_if_absent [intro]: "extends m1 m \<Longrightarrow> extends m1 (set_if_absent k v m)"
  by (auto simp: extends_def written_def dget_set_if_absent)

lemma extends_set_value [intro]: "extends m1 m \<Longrightarrow> extends m1 (set_value_if_absent k v m)"
  by (auto simp: set_value_if_absent_def)

lemma extends_update: "k = ''tags'' \<or> \<not> written m k \<Longrightarrow> extends m1 m \<Longrightarrow> extends m1 (AList.update k v m)"
  by (auto simp: extends_def written_def)

lemma not_written_None: "map_of m k = None \<Longrightarrow> \<not> written m k"
  by (simp add: written_def dget_def empty_value_def)

lemma facets_extend: "extends m (enrich_facets set_order other path st struct m)"
  unfolding enrich_facets_def Let_def by (intro extends_set_if_absent extends_refl)

lemma set_add_new: "set (add_new xs ys) = set xs \<union> set ys"
  unfolding add_new_def by (induction ys arbitrary: xs) auto

lemma prefix_add_new: "prefix xs (add_new xs ys)"
proof (induction ys arbitrary: xs)
  case (Cons y ys)
  have "prefix xs (if y \<in> set xs then xs else xs @ [y])" by simp
  also have "prefix \<dots> (add_new (if y \<in> set xs then xs else xs @ [y]) ys)" by (rule Cons)
  finally show ?case by (simp add: add_new_def)
qed (simp add: add_new_def)

lemma add_new_absorb: "set ys \<subseteq> set xs \<Longrightarrow> add_new xs ys = xs"
  unfolding add_new_def by (induction ys arbitrary: xs) auto

lemma first_known_range: "first_known table ts = Some v \<Longrightarrow> v \<in> snd ` set table"
  by (induction ts) (force split: option.splits dest: map_of_SomeD)+

text \<open>A second write of a facet after the first changes nothing.\<close>

lemma set_again:
  assumes "extends (set_if_absent k v m0) m" "k \<noteq> ''tags''" "\<And>x. v = Some x \<Longrightarrow> \<not> empty_value x"
  shows "set_if_absent k (map_option f v) m = m"
proof (cases v)
  case (Some x)
  have "written (set_if_absent k v m0) k" using assms(3) Some by (auto simp: written_def dget_set_if_absent)
  then have "written m k" using assms(1,2) by (auto simp: extends_def written_def)
  then show ?thesis by (simp add: set_if_absent_id written_def)
qed (simp add: set_if_absent_def)

lemma set_again_same:
  "extends (set_if_absent k v m0) m \<Longrightarrow> k \<noteq> ''tags'' \<Longrightarrow> (\<And>x. v = Some x \<Longrightarrow> \<not> empty_value x)
   \<Longrightarrow> set_if_absent k v m = m"
  using set_again [of k v m0 m id] by (simp add: option.map_id)

lemma set_again_any:
  "extends (set_if_absent k (Some x) m0) m \<Longrightarrow> k \<noteq> ''tags'' \<Longrightarrow> \<not> empty_value x \<Longrightarrow> set_if_absent k (Some y) m = m"
  using set_again [of k "Some x" m0 m "\<lambda>_. y"] by simp

lemma not_empty_str: "s \<noteq> [] \<Longrightarrow> \<not> empty_value (JStr s)"
  by (simp add: empty_value_def)

lemma known_not_empty: "[] \<notin> set vs \<Longrightarrow> known vs v = Some x \<Longrightarrow> \<not> empty_value x"
  by (auto simp: known_def empty_value_def split: option.splits if_splits)

lemma vocabularies_nonempty:
  "[] \<notin> set doc_types" "[] \<notin> set environments" "[] \<notin> set tiers" "[] \<notin> set languages"
  by (simp_all add: doc_types_def environments_def tiers_def languages_def)

lemma language_of_known: "language_of dt = Some l \<Longrightarrow> l \<in> set languages"
  by (cases dt) (auto simp: language_of_def languages_def)

lemma language_known: "derive_language struct \<in> set languages"
proof (cases "Option.bind struct language_of")
  case (Some l)
  then show ?thesis using language_of_known by (auto simp: derive_language_def bind_eq_Some_conv)
qed (simp add: derive_language_def languages_def)

definition facet_keys :: "string list" where
  "facet_keys = [''source_system'', ''doc_type'', ''environment'', ''tier'', ''criticality'', ''language'']"

lemma facets_untouched: "k \<notin> set facet_keys \<Longrightarrow> dget JNull k (enrich_facets set_order other path st struct m) = dget JNull k m"
  unfolding enrich_facets_def Let_def facet_keys_def by (auto simp: set_if_absent_other split del: if_split)

text \<open>What makes the facets of a dict stable.\<close>

lemma facets_again:
  assumes "extends (enrich_facets set_order other path st struct m) m'"
    and "heading_of other m' = heading_of other m"
  shows "enrich_facets set_order other path st struct m' = m'"
proof -
  define src where "src = Some (JStr (if st = [] then ''unknown'' else st))"
  define dt where "dt = (\<lambda>m. JStr (let d = derive_doc_type path struct (set_if_absent ''source_system'' src m)
    in if d \<in> set doc_types then d else ''generic_markdown''))"
  define env where "env = known environments (derive_environment path (heading_of other m))"
  define tier where "tier = known tiers (derive_tier set_order path (heading_of other m))"
  define lang where "lang = known languages (Some (derive_language struct))"
  have shape: "enrich_facets set_order other path st struct x =
      set_if_absent ''language'' lang (set_if_absent ''criticality'' tier (set_if_absent ''tier'' tier
        (set_if_absent ''environment'' env (set_if_absent ''doc_type'' (Some (dt x)) (set_if_absent ''source_system'' src x)))))"
    if "heading_of other x = heading_of other m" for x
    unfolding enrich_facets_def Let_def that src_def dt_def env_def tier_def lang_def by simp
  note ext = assms(1) [unfolded shape [OF refl]]
  have ne: "\<And>x. src = Some x \<Longrightarrow> \<not> empty_value x" "\<And>x. env = Some x \<Longrightarrow> \<not> empty_value x"
    "\<And>x. tier = Some x \<Longrightarrow> \<not> empty_value x" "\<And>x. lang = Some x \<Longrightarrow> \<not> empty_value x"
    using known_not_empty vocabularies_nonempty
    by (auto simp: src_def env_def tier_def lang_def empty_value_def split: if_splits)
  have d: "\<not> empty_value (dt m)"
    using vocabularies_nonempty(1) by (auto simp: dt_def Let_def empty_value_def)
  define x1 where "x1 = set_if_absent ''source_system'' src m"
  define x2 where "x2 = set_if_absent ''doc_type'' (Some (dt m)) x1"
  define x3 where "x3 = set_if_absent ''environment'' env x2"
  define x4 where "x4 = set_if_absent ''tier'' tier x3"
  define x5 where "x5 = set_if_absent ''criticality'' tier x4"
  have e6: "extends (set_if_absent ''language'' lang x5) m'"
    using ext unfolding x5_def x4_def x3_def x2_def x1_def .
  note peel = extends_trans [OF extends_set_if_absent [OF extends_refl]]
  have e5: "extends x5 m'" by (rule peel [OF e6])
  then have e4: "extends x4 m'" unfolding x5_def by (rule peel)
  then have e3: "extends x3 m'" unfolding x4_def by (rule peel)
  then have e2: "extends x2 m'" unfolding x3_def by (rule peel)
  then have e1: "extends x1 m'" unfolding x2_def by (rule peel)
  have "set_if_absent ''source_system'' src m' = m'"
    by (rule set_again_same [OF e1 [unfolded x1_def]]) (simp_all add: ne)
  moreover have "set_if_absent ''doc_type'' (Some (dt m')) m' = m'"
    by (rule set_again_any [OF e2 [unfolded x2_def]]) (simp_all add: d)
  moreover have "set_if_absent ''environment'' env m' = m'"
    by (rule set_again_same [OF e3 [unfolded x3_def]]) (simp_all add: ne)
  moreover have "set_if_absent ''tier'' tier m' = m'"
    by (rule set_again_same [OF e4 [unfolded x4_def]]) (simp_all add: ne)
  moreover have "set_if_absent ''criticality'' tier m' = m'"
    by (rule set_again_same [OF e5 [unfolded x5_def]]) (simp_all add: ne)
  moreover have "set_if_absent ''language'' lang m' = m'"
    by (rule set_again_same [OF e6]) (simp_all add: ne)
  ultimately show ?thesis unfolding shape [OF assms(2)] by simp
qed

lemma update_same: "map_of m k = Some v \<Longrightarrow> AList.update k v m = m"
  by (induction m) auto


text \<open>The two results of the tag merge, and the last write.\<close>

definition stamp_valid :: "string \<Rightarrow> obj \<Rightarrow> obj" where
  "stamp_valid path m =
     (if map_of m ''valid'' = None then AList.update ''valid'' (JBool (derive_validity path)) m else m)"

lemma enrich_cases:
  obtains (none) "derive_tags path body = []"
      "enrich_metadata so other path body st struct m = stamp_valid path (enrich_facets so other path st struct m)"
    | (bad) e where "derive_tags path body \<noteq> []" "iterate_or_empty (dget JNull ''tags'' m) = Inl e"
      "enrich_metadata so other path body st struct m = enrich_facets so other path st struct m"
    | (tags) xs where "derive_tags path body \<noteq> []" "iterate_or_empty (dget JNull ''tags'' m) = Inr xs"
      "enrich_metadata so other path body st struct m = stamp_valid path
         (AList.update ''tags'' (JList (add_new xs (map JStr (derive_tags path body))))
           (enrich_facets so other path st struct m))"
  by (cases "derive_tags path body = []"; cases "iterate_or_empty (dget JNull ''tags'' m)")
    (simp_all add: enrich_metadata_def Let_def stamp_valid_def merge_tags_def facets_untouched facet_keys_def)

lemma extends_stamp: "extends m m' \<Longrightarrow> extends m (stamp_valid path m')"
  by (auto simp: stamp_valid_def intro!: extends_update dest: not_written_None)

lemma enrich_extends_facets:
  "extends (enrich_facets so other path st struct m) (enrich_metadata so other path body st struct m)"
proof (rule enrich_cases [of path body so other st struct m])
qed (auto intro!: extends_stamp extends_update [OF disjI1 [OF refl]])

lemma enrich_extends: "extends m (enrich_metadata so other path body st struct m)"
  by (rule extends_trans [OF facets_extend enrich_extends_facets])

lemma dget_stamp: "k \<noteq> ''valid'' \<Longrightarrow> dget JNull k (stamp_valid path m) = dget JNull k m"
  by (auto simp: stamp_valid_def)

lemma stamp_again: "stamp_valid path (stamp_valid path m) = stamp_valid path m"
  by (simp add: stamp_valid_def)

lemma dget_enrich:
  "k \<notin> set facet_keys \<Longrightarrow> k \<noteq> ''tags'' \<Longrightarrow> k \<noteq> ''valid'' \<Longrightarrow>
   dget JNull k (enrich_metadata so other path body st struct m) = dget JNull k m"
  by (rule enrich_cases [of path body so other st struct m]) (simp_all add: facets_untouched dget_stamp)

lemma enrich_fixed:
  assumes "enrich_facets so other path st struct x = x" "stamp_valid path x = x"
    and "derive_tags path body = []
      \<or> (\<exists>ts. merge_tags (derive_tags path body) (dget JNull ''tags'' x) = Inr ts \<and> map_of x ''tags'' = Some (JList ts))"
  shows "enrich_metadata so other path body st struct x = x"
  using assms(3)
proof
  assume "derive_tags path body = []"
  then show ?thesis using assms(1,2) by (simp add: enrich_metadata_def Let_def stamp_valid_def)
next
  assume "\<exists>ts. merge_tags (derive_tags path body) (dget JNull ''tags'' x) = Inr ts \<and> map_of x ''tags'' = Some (JList ts)"
  then show ?thesis using assms(1,2) by (auto simp: enrich_metadata_def Let_def stamp_valid_def update_same)
qed

lemma enrich_again:
  "enrich_metadata so other path body st struct (enrich_metadata so other path body st struct m) =
   enrich_metadata so other path body st struct m"
  (is "?enrich ?m = ?m")
proof -
  have "heading_of other ?m = heading_of other m"
    unfolding heading_of_def by (subst dget_enrich) (simp_all add: facet_keys_def)
  then have f: "enrich_facets so other path st struct ?m = ?m"
    using facets_again [OF enrich_extends_facets] by blast
  show ?thesis
  proof (cases rule: enrich_cases [of path body so other st struct m])
    case none
    then have "stamp_valid path ?m = ?m" by (simp add: stamp_again)
    with f none(1) show ?thesis by (intro enrich_fixed) simp_all
  next
    case (bad e)
    then have "dget JNull ''tags'' ?m = dget JNull ''tags'' m" by (simp add: facets_untouched facet_keys_def)
    with bad(2) have "merge_tags (derive_tags path body) (dget JNull ''tags'' ?m) = Inl e" by (simp add: merge_tags_def)
    with f bad(1) show ?thesis by (subst enrich_metadata_def) (simp add: Let_def)
  next
    case (tags xs)
    define ts where "ts = add_new xs (map JStr (derive_tags path body))"
    have ts: "ts \<noteq> []" "add_new ts (map JStr (derive_tags path body)) = ts"
      using tags(1) set_add_new [of xs "map JStr (derive_tags path body)"]
      by (auto simp: ts_def intro!: add_new_absorb)
    have m: "map_of ?m ''tags'' = Some (JList ts)" unfolding tags(3) ts_def by (simp add: stamp_valid_def)
    have st: "stamp_valid path ?m = ?m" unfolding tags(3) by (rule stamp_again)
    from m ts have "merge_tags (derive_tags path body) (dget JNull ''tags'' ?m) = Inr ts"
      by (simp add: merge_tags_def dget_def iterate_or_empty_def iterate_def)
    with f st m show ?thesis by (intro enrich_fixed) auto
  qed
qed

lemma enrich_tags:
  assumes "dget JNull ''tags'' m = JList ts"
  shows "\<exists>new. dget JNull ''tags'' (enrich_metadata so other path body st struct m) = JList (ts @ new)"
proof (cases rule: enrich_cases [of path body so other st struct m])
  case none
  with assms show ?thesis by (simp add: dget_stamp facets_untouched facet_keys_def)
next
  case (bad e)
  with assms show ?thesis by (simp add: iterate_or_empty_def iterate_def split: if_splits)
next
  case (tags xs)
  with assms have "xs = ts" by (auto simp: iterate_or_empty_def iterate_def split: if_splits)
  with tags prefix_add_new [of ts "map JStr (derive_tags path body)"] show ?thesis
    by (auto simp: dget_stamp prefix_def)
qed

lemma facet_doc_type:
  assumes "\<not> written m ''doc_type''"
  shows "\<exists>s \<in> set doc_types. dget JNull ''doc_type'' (enrich_metadata so other path body st struct m) = JStr s"
proof -
  obtain d where d: "dget JNull ''doc_type'' (enrich_facets so other path st struct m)
      = JStr (if d \<in> set doc_types then d else ''generic_markdown'')"
    using assms unfolding enrich_facets_def Let_def written_def
    by (auto simp: set_if_absent_other set_if_absent_same split del: if_split)
  define s where "s = (if d \<in> set doc_types then d else ''generic_markdown'')"
  have s: "s \<in> set doc_types" "dget JNull ''doc_type'' (enrich_facets so other path st struct m) = JStr s"
    using d by (auto simp: s_def doc_types_def)
  moreover have "written (enrich_facets so other path st struct m) ''doc_type''"
    using s vocabularies_nonempty(1) by (auto simp: written_def empty_value_def)
  ultimately show ?thesis using enrich_extends_facets by (fastforce simp: extends_def)
qed

text \<open>Enriching a chunk only adds. Whatever the parser or the connector said is kept: a facet that has a value is
  not overwritten, tags that were given stay in front of the derived ones, and enriching twice is enriching once; a
  missing document type becomes one of the vocabulary.\<close>

theorem enrich_keeps_explicit:
  "extends m (enrich_metadata so other path body st struct m)
   \<and> enrich_metadata so other path body st struct (enrich_metadata so other path body st struct m) =
      enrich_metadata so other path body st struct m
   \<and> (\<forall>ts. dget JNull ''tags'' m = JList ts \<longrightarrow>
        (\<exists>new. dget JNull ''tags'' (enrich_metadata so other path body st struct m) = JList (ts @ new)))
   \<and> (\<not> written m ''doc_type'' \<longrightarrow>
        (\<exists>s \<in> set doc_types. dget JNull ''doc_type'' (enrich_metadata so other path body st struct m) = JStr s))"
  by (intro conjI allI impI enrich_extends enrich_again enrich_tags facet_doc_type)

theorem enrich_keeps_explicit_witness:
  "\<exists>new. dget JNull ''tags'' (enrich_metadata id (\<lambda>_. []) ''runbooks/redis.md'' ''Kafka'' ''git'' None
      [(''tags'', JList [JStr ''db''])]) = JList ([JStr ''db''] @ new)"
proof -
  have "dget JNull ''tags'' [(''tags'', JList [JStr ''db''])] = JList [JStr ''db'']" by (simp add: dget_def)
  then show ?thesis
    using enrich_keeps_explicit [of "[(''tags'', JList [JStr ''db''])]" id "\<lambda>_. []" "''runbooks/redis.md''" "''Kafka''" "''git''" None]
    by blast
qed

text \<open>Two tier tokens in a path: the facet depends on the order in which the set is walked.\<close>

lemma tier_depends_on_set_order:
  "derive_tier id ''p0/tier1/readme.md'' [] = Some ''tier0'' \<and> derive_tier rev ''p0/tier1/readme.md'' [] = Some ''tier1''"
  by code_simp

text \<open>A directory at the top of the repository is not recognised by its name.\<close>

lemma top_level_archive_is_valid:
  "derive_validity ''archive/old.md'' \<and> \<not> derive_validity ''docs/archive/old.md''
   \<and> derive_doc_type ''adr/001.md'' None [] = ''generic_markdown'' \<and> derive_doc_type ''docs/adr/001.md'' None [] = ''adr''"
  by code_simp

end
