(* ===== verification/Chunk_Split.thy ===== *)
theory Chunk_Split
  imports Py_Prelude
begin

text \<open>
  How the chunkers cut a text (\<open>opsrag/chunkers/parent_child.py\<close>): whole lines up to a budget for code and
  configuration, character slices that keep fenced blocks whole for prose. Positions are indices into the text;
  the two fence patterns are matched by hand, \<open>^\<close> at the start of the text and after a newline, \<open>$\<close> at its end
  and before a newline.
\<close>

subsection \<open>Python's text searches\<close>

definition newline :: char where "newline = CHR 0x0A"

text \<open>\<open>s.splitlines(keepends=True)\<close>; CR LF is one boundary.\<close>

definition is_linebreak :: "char \<Rightarrow> bool" where
  "is_linebreak c = (let n = (of_char c :: nat) in (10 \<le> n \<and> n \<le> 13) \<or> (28 \<le> n \<and> n \<le> 30) \<or> n = 133)"

fun splitlines_keep :: "string \<Rightarrow> string list" where
  "splitlines_keep [] = []"
| "splitlines_keep (c # cs) =
     (if c = CHR 0x0D \<and> take 1 cs = [newline] then [c, newline] # splitlines_keep (drop 1 cs)
      else if is_linebreak c then [c] # splitlines_keep cs
      else (case splitlines_keep cs of [] \<Rightarrow> [[c]] | l # ls \<Rightarrow> (c # l) # ls))"

text \<open>\<open>text.find(sub, lo)\<close> and \<open>text.rfind(sub, lo, hi)\<close>.\<close>

definition find_from :: "string \<Rightarrow> string \<Rightarrow> nat \<Rightarrow> nat option" where
  "find_from sub s lo = find (\<lambda>i. prefix sub (drop i s)) [lo..<Suc (length s) - length sub]"

definition rfind_in :: "string \<Rightarrow> string \<Rightarrow> nat \<Rightarrow> nat \<Rightarrow> nat option" where
  "rfind_in sub s lo hi =
     find (\<lambda>i. prefix sub (drop i s)) (rev [lo..<Suc (min hi (length s)) - length sub])"

lemma find_Some_mem: "find P xs = Some x \<Longrightarrow> x \<in> set xs \<and> P x"
  by (auto simp: find_Some_iff)

lemma rfind_bounds: "rfind_in sub s lo hi = Some i \<Longrightarrow> lo \<le> i \<and> i + length sub \<le> min hi (length s) \<and> prefix sub (drop i s)"
  by (auto simp: rfind_in_def dest!: find_Some_mem)

lemma find_from_bounds: "find_from sub s lo = Some i \<Longrightarrow> lo \<le> i \<and> i + length sub \<le> length s"
  by (auto simp: find_from_def dest!: find_Some_mem)

lemma concat_splitlines_keep: "concat (splitlines_keep s) = s"
proof (induction s rule: splitlines_keep.induct)
  case (2 c cs)
  show ?case
  proof (cases "c = CHR 0x0D \<and> take 1 cs = [newline]")
    case True
    then obtain ds where "cs = newline # ds" by (cases cs) auto
    with 2 True show ?thesis by simp
  next
    case False
    then show ?thesis
      using 2(2,3) by (cases "splitlines_keep cs") (auto split: if_splits)
  qed
qed simp

lemma splitlines_nonempty: "l \<in> set (splitlines_keep s) \<Longrightarrow> l \<noteq> []"
proof (induction s rule: splitlines_keep.induct)
  case (2 c cs)
  then show ?case by (cases "splitlines_keep cs") (auto split: if_splits)
qed simp

subsection \<open>Whole lines\<close>

text \<open>\<open>[line[i : i + n] for i in range(0, len(line), n)]\<close> for a positive \<open>n\<close>.\<close>

function slices :: "nat \<Rightarrow> string \<Rightarrow> string list" where
  "slices n s = (if s = [] \<or> n = 0 then [] else take n s # slices n (drop n s))"
  by pat_completeness auto
termination by (relation "measure (\<lambda>(n, s). length s)") auto

declare slices.simps [simp del]

record packing =
  pk_pieces :: "string list"
  pk_cur :: "string list"
  pk_len :: nat

definition flush :: "packing \<Rightarrow> packing" where
  "flush st = (if pk_cur st = [] then st
     else \<lparr>pk_pieces = pk_pieces st @ [concat (pk_cur st)], pk_cur = [], pk_len = 0\<rparr>)"

definition pack_line :: "nat \<Rightarrow> string \<Rightarrow> packing \<Rightarrow> packing" where
  "pack_line max_chars line st =
     (if max_chars < length line
      then (let st1 = flush st in st1\<lparr>pk_pieces := pk_pieces st1 @ slices max_chars line\<rparr>)
      else (let st1 = (if max_chars < pk_len st + length line \<and> pk_cur st \<noteq> [] then flush st else st)
            in st1\<lparr>pk_cur := pk_cur st1 @ [line], pk_len := pk_len st1 + length line\<rparr>))"

definition split_by_lines :: "string \<Rightarrow> nat \<Rightarrow> string list" where
  "split_by_lines s max_chars =
     (if length s \<le> max_chars then [s]
      else (let st = flush (fold (pack_line max_chars) (splitlines_keep s) \<lparr>pk_pieces = [], pk_cur = [], pk_len = 0\<rparr>);
                pieces = filter (\<lambda>p. p \<noteq> []) (pk_pieces st)
            in if pieces = [] then [s] else pieces))"

lemma slices_facts:
  assumes "0 < n"
  shows "concat (slices n s) = s" and "\<forall>p \<in> set (slices n s). p \<noteq> [] \<and> length p \<le> n"
proof -
  have "concat (slices n s) = s \<and> (\<forall>p \<in> set (slices n s). p \<noteq> [] \<and> length p \<le> n)"
    using assms
  proof (induction n s rule: slices.induct)
    case (1 n s)
    show ?case
    proof (cases "s = []")
      case False
      with 1 have "slices n s = take n s # slices n (drop n s)" by (simp add: slices.simps [of n s])
      with 1 False show ?thesis by simp
    qed (simp add: slices.simps)
  qed
  then show "concat (slices n s) = s" and "\<forall>p \<in> set (slices n s). p \<noteq> [] \<and> length p \<le> n" by blast+
qed

definition packed :: "packing \<Rightarrow> string" where
  "packed st = concat (pk_pieces st) @ concat (pk_cur st)"

definition packing_ok :: "nat \<Rightarrow> packing \<Rightarrow> bool" where
  "packing_ok n st \<longleftrightarrow> (\<forall>p \<in> set (pk_pieces st). length p \<le> n)
     \<and> pk_len st = length (concat (pk_cur st)) \<and> pk_len st \<le> n"

lemma flush_facts: "packing_ok n st \<Longrightarrow> packing_ok n (flush st) \<and> packed (flush st) = packed st"
  by (auto simp: packing_ok_def packed_def flush_def)

lemma flush_cur: "pk_cur (flush st) = []" "pk_cur st = [] \<or> pk_len (flush st) = 0"
  by (auto simp: flush_def)

lemma pack_line_facts:
  assumes "0 < n" "packing_ok n st"
  shows "packing_ok n (pack_line n line st) \<and> packed (pack_line n line st) = packed st @ line"
proof (cases "n < length line")
  case True
  have "pk_cur (flush st) = []" "pk_len (flush st) = 0"
    using flush_facts [OF assms(2)] by (simp_all add: flush_cur packing_ok_def)
  with True show ?thesis
    using flush_facts [OF assms(2)] slices_facts [OF assms(1), of line]
    by (auto simp: pack_line_def packing_ok_def packed_def Let_def)
next
  case False
  show ?thesis
  proof (cases "n < pk_len st + length line \<and> pk_cur st \<noteq> []")
    case True
    have "pk_len (flush st) = 0" using True by (simp add: flush_def)
    with True False show ?thesis
      using flush_facts [OF assms(2)] by (auto simp: pack_line_def packing_ok_def packed_def Let_def flush_cur)
  next
    case cont: False
    have "pk_len st + length line \<le> n"
      using cont False assms(2) by (cases "pk_cur st = []") (auto simp: packing_ok_def)
    with cont False assms(2) show ?thesis
      by (auto simp: pack_line_def packing_ok_def packed_def Let_def)
  qed
qed

lemma fold_pack:
  assumes "0 < n" "packing_ok n st"
  shows "packing_ok n (fold (pack_line n) ls st) \<and> packed (fold (pack_line n) ls st) = packed st @ concat ls"
  using assms(2)
proof (induction ls arbitrary: st)
  case (Cons l ls)
  from Cons.IH [OF conjunct1 [OF pack_line_facts [OF assms(1) Cons.prems]]] pack_line_facts [OF assms(1) Cons.prems, of l]
  show ?case by simp
qed simp

lemma concat_filter_nonempty: "concat (filter (\<lambda>p. p \<noteq> []) ps) = concat ps"
  by (induction ps) auto

text \<open>C23: Cutting by lines loses nothing. The pieces concatenate back to the text, character for character, and
  each is within the budget; pieces of a text longer than the budget are not empty.\<close>

theorem split_by_lines_roundtrip:
  assumes "0 < max_chars"
  shows "concat (split_by_lines s max_chars) = s \<and> list_all (\<lambda>p. length p \<le> max_chars) (split_by_lines s max_chars)
     \<and> (max_chars < length s \<longrightarrow> [] \<notin> set (split_by_lines s max_chars))"
proof (cases "length s \<le> max_chars")
  case True
  then show ?thesis by (simp add: split_by_lines_def)
next
  case False
  let ?st = "fold (pack_line max_chars) (splitlines_keep s) \<lparr>pk_pieces = [], pk_cur = [], pk_len = 0\<rparr>"
  have "packing_ok max_chars ?st \<and> packed ?st = s"
    using fold_pack [OF assms, of "\<lparr>pk_pieces = [], pk_cur = [], pk_len = 0\<rparr>" "splitlines_keep s"]
    by (simp add: packing_ok_def packed_def concat_splitlines_keep)
  then have ok: "packing_ok max_chars (flush ?st)" and all: "concat (pk_pieces (flush ?st)) = s"
    using flush_facts [of max_chars ?st] by (auto simp: packed_def flush_cur)
  have "filter (\<lambda>p. p \<noteq> []) (pk_pieces (flush ?st)) \<noteq> []"
    using all False concat_filter_nonempty [of "pk_pieces (flush ?st)"] by (metis concat.simps(1) le0 list.size(3))
  with False show ?thesis
    using ok all by (auto simp: split_by_lines_def Let_def concat_filter_nonempty packing_ok_def list_all_iff)
qed

theorem split_by_lines_roundtrip_witness:
  "concat (split_by_lines ''ab cdefgh'' 3) = ''ab cdefgh''"
  using split_by_lines_roundtrip [of 3 "''ab cdefgh''"] by simp

subsection \<open>Fenced blocks\<close>

definition blank_len :: "string \<Rightarrow> nat \<Rightarrow> nat" where
  "blank_len s i = length (takeWhile (\<lambda>c. c = CHR '' '' \<or> c = CHR 0x09) (drop i s))"

definition run_len :: "char \<Rightarrow> string \<Rightarrow> nat \<Rightarrow> nat" where
  "run_len c s i = length (takeWhile (\<lambda>x. x = c) (drop i s))"

definition line_start :: "string \<Rightarrow> nat \<Rightarrow> bool" where
  "line_start s i \<longleftrightarrow> i = 0 \<or> (i \<le> length s \<and> s ! (i - 1) = newline)"

text \<open>An opening marker at \<open>i\<close>: the end of the match, its character and the length of its run.\<close>

definition fence_at :: "string \<Rightarrow> nat \<Rightarrow> (nat \<times> char \<times> nat) option" where
  "fence_at s i =
     (let j = i + blank_len s i; b = run_len (CHR 0x60) s j; t = run_len (CHR 0x7E) s j in
      if \<not> line_start s i then None
      else if 3 \<le> b then Some (j + b, CHR 0x60, b)
      else if 3 \<le> t then Some (j + t, CHR 0x7E, t)
      else None)"

definition find_fence :: "string \<Rightarrow> nat \<Rightarrow> (nat \<times> nat \<times> char \<times> nat) option" where
  "find_fence s pos =
     map_option (\<lambda>i. (i, the (fence_at s i))) (find (\<lambda>i. fence_at s i \<noteq> None) [pos..<length s])"

text \<open>A closing marker at \<open>i\<close>: the same character, a run at least as long, and blanks to the end of the line.\<close>

definition close_at :: "char \<Rightarrow> nat \<Rightarrow> string \<Rightarrow> nat \<Rightarrow> nat option" where
  "close_at c k s i =
     (let j = i + blank_len s i; r = run_len c s j; e = j + r + blank_len s (j + r) in
      if line_start s i \<and> k \<le> r \<and> (e = length s \<or> e < length s \<and> s ! e = newline) then Some e else None)"

definition find_close :: "char \<Rightarrow> nat \<Rightarrow> string \<Rightarrow> nat \<Rightarrow> nat option" where
  "find_close c k s pos =
     map_option (\<lambda>i. the (close_at c k s i)) (find (\<lambda>i. close_at c k s i \<noteq> None) [pos..<length s])"

text \<open>Just past the next newline, or the end of the text.\<close>

definition past_line :: "string \<Rightarrow> nat \<Rightarrow> nat" where
  "past_line s i = (case find_from [newline] s i of None \<Rightarrow> length s | Some l \<Rightarrow> l + 1)"

definition fence_close_end :: "string \<Rightarrow> nat \<Rightarrow> char \<Rightarrow> nat \<Rightarrow> nat" where
  "fence_close_end s open_end c k =
     (case find_close c k s (past_line s open_end) of None \<Rightarrow> length s | Some e \<Rightarrow> past_line s e)"

definition fence_extend_cap :: nat where "fence_extend_cap = 4096"

lemma blank_len_le: "i + blank_len s i \<le> max i (length s)"
  using length_takeWhile_le [of "\<lambda>c. c = CHR '' '' \<or> c = CHR 0x09" "drop i s"] by (auto simp: blank_len_def max_def)

lemma run_len_le: "i + run_len c s i \<le> max i (length s)"
  using length_takeWhile_le [of "\<lambda>x. x = c" "drop i s"] by (auto simp: run_len_def max_def)

lemma find_fence_bounds:
  "find_fence s pos = Some (i, e, c, k) \<Longrightarrow> pos \<le> i \<and> i < e \<and> e \<le> length s"
proof -
  assume "find_fence s pos = Some (i, e, c, k)"
  then have i: "pos \<le> i" "i < length s" "fence_at s i = Some (e, c, k)"
    by (auto simp: find_fence_def dest!: find_Some_mem)
  then show ?thesis
    using blank_len_le [of i s] run_len_le [of "i + blank_len s i" _ s]
    by (auto simp: fence_at_def Let_def max_def split: if_splits)
qed

lemma past_line_le: "i \<le> length s \<Longrightarrow> i \<le> past_line s i \<and> past_line s i \<le> length s"
  by (auto simp: past_line_def split: option.splits dest: find_from_bounds)

lemma find_close_bounds: "find_close c k s pos = Some e \<Longrightarrow> pos \<le> e \<and> e \<le> length s"
  by (auto simp: find_close_def close_at_def Let_def dest!: find_Some_mem split: if_splits)

lemma fence_close_end_bounds:
  "e \<le> length s \<Longrightarrow> e \<le> fence_close_end s e c k \<and> fence_close_end s e c k \<le> length s"
  using past_line_le [of e s] past_line_le [of _ s] find_close_bounds [of c k s "past_line s e"]
  by (auto simp: fence_close_end_def split: option.splits) (meson le_trans)+

text \<open>\<open>_fence_boundary_at\<close>: the loop over the fences from \<open>pos\<close>.\<close>

function fence_scan :: "string \<Rightarrow> nat \<Rightarrow> nat \<Rightarrow> nat \<Rightarrow> nat option" where
  "fence_scan s start stop pos =
     (if stop \<le> pos then None
      else case find_fence s pos of
        None \<Rightarrow> None
      | Some (open_start, open_end, c, k) \<Rightarrow>
          if stop \<le> open_start then None
          else if stop < fence_close_end s open_end c k then
            (if fence_close_end s open_end c k - start \<le> fence_extend_cap then Some (fence_close_end s open_end c k)
             else if start < open_start then Some open_start
             else (case rfind_in [newline] s (start + 1) (stop + 1) of None \<Rightarrow> Some stop | Some nl \<Rightarrow> Some (nl + 1)))
          else fence_scan s start stop (fence_close_end s open_end c k))"
  by pat_completeness auto
termination
proof (relation "measure (\<lambda>(s, start, stop, pos). stop - pos)", goal_cases)
  case (2 s start stop pos v open_start v' open_end v'' c k)
  then have "pos \<le> open_start \<and> open_start < open_end \<and> open_end \<le> length s"
    using find_fence_bounds [of s pos open_start open_end c k] by simp
  then have "pos < fence_close_end s open_end c k"
    using fence_close_end_bounds [of open_end s c k] by linarith
  with 2 show ?case by simp
qed simp

declare fence_scan.simps [simp del]

definition fence_boundary_at :: "string \<Rightarrow> nat \<Rightarrow> nat \<Rightarrow> nat option" where
  "fence_boundary_at s start stop = fence_scan s start stop start"

lemma fence_scan_bounds:
  "start < stop \<Longrightarrow> stop \<le> length s \<Longrightarrow> start \<le> pos \<Longrightarrow> fence_scan s start stop pos = Some e \<Longrightarrow>
   start < e \<and> e \<le> length s \<and> (e \<le> stop + 1 \<or> e - start \<le> fence_extend_cap)"
proof (induction s start stop pos rule: fence_scan.induct)
  case (1 s start stop pos)
  from 1(5) obtain i oe c k where f: "find_fence s pos = Some (i, oe, c, k)" "pos < stop" "i < stop"
    by (subst (asm) fence_scan.simps) (auto split: if_splits option.splits)
  let ?ce = "fence_close_end s oe c k"
  from find_fence_bounds [OF f(1)] have b: "pos \<le> i" "i < oe" "oe \<le> length s" by simp_all
  with fence_close_end_bounds [of oe s c k] have ce: "oe \<le> ?ce" "?ce \<le> length s" by simp_all
  show ?case
  proof (cases "stop < ?ce")
    case True
    with 1(5) f have "e = ?ce \<and> ?ce - start \<le> fence_extend_cap \<or> e = i \<and> start < i \<or> e = stop
        \<or> (\<exists>nl. rfind_in [newline] s (start + 1) (stop + 1) = Some nl \<and> e = nl + 1)"
      by (subst (asm) fence_scan.simps) (auto split: if_splits option.splits)
    then show ?thesis
      using True f ce 1(2,3) rfind_bounds [of "[newline]" s "start + 1" "stop + 1"] by fastforce
  next
    case False
    with 1(5) f have "fence_scan s start stop ?ce = Some e" by (subst (asm) fence_scan.simps) simp
    with 1(1) [OF _ f(1) refl refl refl _ False] f ce b 1(2-4) show ?thesis by simp
  qed
qed

text \<open>A boundary that moves back to a fence leaves one character only when the window starts with a newline and the
  fence reaches past the cap.\<close>

lemma fence_scan_gap:
  "start + 2 \<le> stop \<Longrightarrow> stop \<le> length s \<Longrightarrow> start \<le> pos \<Longrightarrow> fence_scan s start stop pos = Some e \<Longrightarrow>
   length s \<le> start + fence_extend_cap \<or> s ! start \<noteq> newline \<Longrightarrow> start + 2 \<le> e"
proof (induction s start stop pos rule: fence_scan.induct)
  case (1 s start stop pos)
  from 1(5) obtain i oe c k where f: "find_fence s pos = Some (i, oe, c, k)" "pos < stop" "i < stop"
    by (subst (asm) fence_scan.simps) (auto split: if_splits option.splits)
  let ?ce = "fence_close_end s oe c k"
  from find_fence_bounds [OF f(1)] have b: "pos \<le> i" "i < oe" "oe \<le> length s" by simp_all
  with fence_close_end_bounds [of oe s c k] have ce: "oe \<le> ?ce" "?ce \<le> length s" by simp_all
  have "line_start s i"
    using f(1) by (auto simp: find_fence_def fence_at_def Let_def dest!: find_Some_mem split: if_splits)
  then have gap: "start + 2 \<le> i" if "start < i" "s ! start \<noteq> newline"
    using that by (cases "i = Suc start") (auto simp: line_start_def)
  show ?case
  proof (cases "stop < ?ce")
    case True
    with 1(5) f have "e = ?ce \<or> e = i \<and> start < i \<and> fence_extend_cap < ?ce - start \<or> e = stop
        \<or> (\<exists>nl. rfind_in [newline] s (start + 1) (stop + 1) = Some nl \<and> e = nl + 1)"
      by (subst (asm) fence_scan.simps) (auto split: if_splits option.splits)
    then show ?thesis
      using True ce gap 1(2,6) rfind_bounds [of "[newline]" s "start + 1" "stop + 1"] by fastforce
  next
    case False
    with 1(5) f have "fence_scan s start stop ?ce = Some e" by (subst (asm) fence_scan.simps) simp
    with 1(1) [OF _ f(1) refl refl refl _ False] f ce b 1(2-4,6) show ?thesis by simp
  qed
qed

lemma fence_at_not_newline: "fence_at s i = Some x \<Longrightarrow> i < length s \<Longrightarrow> s ! i \<noteq> newline"
proof
  assume f: "fence_at s i = Some x" and i: "i < length s" "s ! i = newline"
  then have "drop i s = newline # drop (Suc i) s" using Cons_nth_drop_Suc [of i s] by simp
  then have "blank_len s i = 0" "run_len (CHR 0x60) s i = 0" "run_len (CHR 0x7E) s i = 0"
    by (simp_all add: blank_len_def run_len_def newline_def)
  then show False using f by (simp add: fence_at_def split: if_splits)
qed

text \<open>A fence boundary one past the window is only chosen when the window starts with the fence.\<close>

lemma fence_scan_tight:
  "start < stop \<Longrightarrow> stop \<le> length s \<Longrightarrow> start \<le> pos \<Longrightarrow> fence_scan s start stop pos = Some e \<Longrightarrow>
   e \<le> stop \<or> e - start \<le> fence_extend_cap \<or> (e \<le> stop + 1 \<and> s ! start \<noteq> newline)"
proof (induction s start stop pos rule: fence_scan.induct)
  case (1 s start stop pos)
  from 1(5) obtain i oe c k where f: "find_fence s pos = Some (i, oe, c, k)" "pos < stop" "i < stop"
    by (subst (asm) fence_scan.simps) (auto split: if_splits option.splits)
  let ?ce = "fence_close_end s oe c k"
  from find_fence_bounds [OF f(1)] have b: "pos \<le> i" "i < oe" "oe \<le> length s" by simp_all
  with fence_close_end_bounds [of oe s c k] have ce: "oe \<le> ?ce" "?ce \<le> length s" by simp_all
  have at: "\<exists>x. fence_at s i = Some x"
    using f(1) by (auto simp: find_fence_def dest!: find_Some_mem)
  show ?case
  proof (cases "stop < ?ce")
    case True
    with 1(5) f have "e = ?ce \<and> ?ce - start \<le> fence_extend_cap \<or> e = i \<or> e = stop
        \<or> (\<exists>nl. rfind_in [newline] s (start + 1) (stop + 1) = Some nl \<and> e = nl + 1 \<and> \<not> start < i)"
      by (subst (asm) fence_scan.simps) (auto split: if_splits option.splits)
    moreover have "s ! start \<noteq> newline" if "\<not> start < i"
      using that at b 1(4) fence_at_not_newline [of s i] by (metis le_antisym le_trans less_le_trans not_le)
    ultimately show ?thesis
      using f rfind_bounds [of "[newline]" s "start + 1" "stop + 1"] by fastforce
  next
    case False
    with 1(5) f have "fence_scan s start stop ?ce = Some e" by (subst (asm) fence_scan.simps) simp
    with 1(1) [OF _ f(1) refl refl refl _ False] f ce b 1(2-4) show ?thesis by simp
  qed
qed

subsection \<open>Character slices\<close>

function char_slices :: "string \<Rightarrow> nat \<Rightarrow> nat \<Rightarrow> string list" where
  "char_slices s max_chars i =
     (if length s \<le> i \<or> max_chars = 0 then []
      else (let e0 = min (i + max_chars) (length s);
                e = (if e0 < length s
                     then (case fence_boundary_at s i e0 of Some f \<Rightarrow> if i < f then f else e0 | None \<Rightarrow> e0)
                     else e0)
            in take (e - i) (drop i s) # char_slices s max_chars e))"
  by pat_completeness auto
termination
  by (relation "measure (\<lambda>(s, m, i). length s - i)") (auto split: option.splits)

declare char_slices.simps [simp del]

definition split_by_char_size :: "string \<Rightarrow> nat \<Rightarrow> string list" where
  "split_by_char_size s max_chars =
     (if length s \<le> max_chars then [s]
      else (let pieces = char_slices s max_chars 0 in if pieces = [] then [s] else pieces))"

lemma char_slices_facts:
  assumes "0 < max_chars"
  shows "concat (char_slices s max_chars i) = drop i s
    \<and> (\<forall>p \<in> set (char_slices s max_chars i). p \<noteq> [] \<and> length p \<le> max (max_chars + 1) fence_extend_cap)"
proof (induction "length s - i" arbitrary: i rule: less_induct)
  case less
  show ?case
  proof (cases "length s \<le> i")
    case False
    let ?e0 = "min (i + max_chars) (length s)"
    define e where "e = (if ?e0 < length s
        then (case fence_boundary_at s i ?e0 of Some f \<Rightarrow> if i < f then f else ?e0 | None \<Rightarrow> ?e0) else ?e0)"
    have step: "char_slices s max_chars i = take (e - i) (drop i s) # char_slices s max_chars e"
      using False assms by (subst char_slices.simps) (simp add: e_def Let_def)
    have e: "i < e" "e \<le> length s" "e - i \<le> max (max_chars + 1) fence_extend_cap"
      using False assms fence_scan_bounds [of i ?e0 s i]
      by (auto simp: e_def fence_boundary_at_def max_def split: option.splits)
    have "drop i s = take (e - i) (drop i s) @ drop e s"
      using e by (metis append_take_drop_id drop_drop le_add_diff_inverse2 less_imp_le)
    moreover have "take (e - i) (drop i s) \<noteq> []" using e False by simp
    ultimately show ?thesis
      using less [of e] e False by (simp add: step)
  qed (simp add: char_slices.simps)
qed

lemma char_slices_tight:
  assumes "0 < max_chars" "max_chars \<le> fence_extend_cap" "p \<in> set (char_slices s max_chars i)"
  shows "length p \<le> fence_extend_cap \<or> (length p \<le> fence_extend_cap + 1 \<and> p ! 0 \<noteq> newline)"
  using assms(3)
proof (induction "length s - i" arbitrary: i rule: less_induct)
  case less
  then have i: "\<not> length s \<le> i" by (auto simp: char_slices.simps)
  let ?e0 = "min (i + max_chars) (length s)"
  define e where "e = (if ?e0 < length s
      then (case fence_boundary_at s i ?e0 of Some f \<Rightarrow> if i < f then f else ?e0 | None \<Rightarrow> ?e0) else ?e0)"
  have step: "char_slices s max_chars i = take (e - i) (drop i s) # char_slices s max_chars e"
    using i assms by (subst char_slices.simps) (simp add: e_def Let_def)
  have e: "i < e" "e \<le> length s"
    using i assms fence_scan_bounds [of i ?e0 s i]
    by (auto simp: e_def fence_boundary_at_def split: option.splits)
  have tight: "e \<le> ?e0 \<or> e - i \<le> fence_extend_cap \<or> (e \<le> ?e0 + 1 \<and> s ! i \<noteq> newline)"
    using i assms fence_scan_tight [of i ?e0 s i]
    by (auto simp: e_def fence_boundary_at_def split: option.splits)
  show ?case
  proof (cases "p = take (e - i) (drop i s)")
    case True
    then have "p ! 0 = s ! i" "length p = e - i" using e i by simp_all
    then show ?thesis using tight assms(2) by auto
  next
    case False
    then have "p \<in> set (char_slices s max_chars e)" using less.prems by (simp add: step)
    then show ?thesis by (intro less.hyps [of e]) (use e i in auto)
  qed
qed

text \<open>Cutting prose loses nothing. The pieces concatenate back to the text; each is at most one character over
  the budget, unless keeping a fenced block whole makes it longer, and then it has at most 4096 characters.\<close>

theorem split_by_char_size_roundtrip:
  assumes "0 < max_chars"
  shows "concat (split_by_char_size s max_chars) = s
     \<and> list_all (\<lambda>p. length p \<le> max (max_chars + 1) fence_extend_cap) (split_by_char_size s max_chars)
     \<and> (max_chars < length s \<longrightarrow> [] \<notin> set (split_by_char_size s max_chars))"
proof (cases "length s \<le> max_chars")
  case True
  then show ?thesis by (auto simp: split_by_char_size_def)
next
  case False
  then have "char_slices s max_chars 0 \<noteq> []"
    using char_slices_facts [OF assms, of s 0] by auto
  with False show ?thesis
    using char_slices_facts [OF assms, of s 0] by (auto simp: split_by_char_size_def Let_def list_all_iff)
qed

theorem split_by_char_size_roundtrip_witness:
  "concat (split_by_char_size ''run this now'' 5) = ''run this now''"
  using split_by_char_size_roundtrip [of 5 "''run this now''"] by simp

end
