(* ===== verification/Chunkers.thy ===== *)
theory Chunkers
  imports Chunk_Split Chunk_Model
begin

text \<open>
  The two chunkers (\<open>opsrag/chunkers/fixed_size.py\<close>, \<open>parent_child.py\<close>) and the token estimate that
  sizes them (\<open>opsrag/tokenization.py\<close>). The tokenizer, the two hashes and the first match of the signature
  pattern are the fields of \<open>chunk_env\<close>. A loop that is not known to end takes fuel and returns \<open>None\<close> when it runs
  out.
\<close>

subsection \<open>Documents and token estimates\<close>

record doc_section =
  sec_heading :: string
  sec_content :: string
  sec_level :: int
  sec_type :: string
  sec_breadcrumb :: "string list"

record parsed_doc =
  doc_content :: string
  doc_kind :: doc_type
  doc_title :: string
  doc_path :: string
  doc_repo :: string
  doc_metadata :: obj
  doc_sections :: "doc_section list"

record chunk_env =
  ce_tokenizer :: "string \<Rightarrow> int option"
  ce_sha1 :: "string \<Rightarrow> string"
  ce_sha256 :: "string \<Rightarrow> string"
  ce_signature :: "string \<Rightarrow> string option"

fun chars_per_token_for :: "doc_type \<Rightarrow> real" where
  "chars_per_token_for TERRAFORM = 5 / 2"
| "chars_per_token_for HELM = 5 / 2"
| "chars_per_token_for KUBERNETES = 5 / 2"
| "chars_per_token_for DOCKERFILE = 5 / 2"
| "chars_per_token_for ALERT_DEFINITION = 5 / 2"
| "chars_per_token_for YAML_CONFIG = 5 / 2"
| "chars_per_token_for PYTHON = 7 / 2"
| "chars_per_token_for JAVASCRIPT = 7 / 2"
| "chars_per_token_for TYPESCRIPT = 7 / 2"
| "chars_per_token_for GO = 7 / 2"
| "chars_per_token_for JAVA = 7 / 2"
| "chars_per_token_for SHELL = 7 / 2"
| "chars_per_token_for RUNBOOK = 4"
| "chars_per_token_for POSTMORTEM = 4"
| "chars_per_token_for ARCHITECTURE = 4"
| "chars_per_token_for ADR = 4"
| "chars_per_token_for GENERIC_MARKDOWN = 4"

text \<open>\<open>int(n * cpt)\<close>: a token target as a number of characters.\<close>

definition char_budget :: "nat \<Rightarrow> doc_type \<Rightarrow> nat" where
  "char_budget n dt = nat (py_trunc (real n * chars_per_token_for dt))"

definition estimate_text_tokens :: "chunk_env \<Rightarrow> string \<Rightarrow> doc_type \<Rightarrow> int" where
  "estimate_text_tokens env s dt =
     (if s = [] then 0
      else case ce_tokenizer env s of
        Some n \<Rightarrow> n
      | None \<Rightarrow> max 1 (py_trunc (real (length s) / chars_per_token_for dt)))"

definition content_hash :: "chunk_env \<Rightarrow> string \<Rightarrow> string" where
  "content_hash env s = ''sha256:'' @ ce_sha256 env s"

definition make_id :: "chunk_env \<Rightarrow> parsed_doc \<Rightarrow> string \<Rightarrow> string \<Rightarrow> string" where
  "make_id env doc tag c =
     doc_repo doc @ '':'' @ doc_path doc @ '':'' @ tag @ '':''
     @ take 16 (ce_sha1 env (doc_repo doc @ '':'' @ doc_path doc @ '':'' @ tag @ '':'' @ c))"

text \<open>\<open>text[a:b]\<close> and \<open>{**m, k: v, ...}\<close>.\<close>

definition slice :: "string \<Rightarrow> nat \<Rightarrow> nat \<Rightarrow> string" where
  "slice s a b = take (b - a) (drop a s)"

definition with_keys :: "obj \<Rightarrow> obj \<Rightarrow> obj" where
  "with_keys m kvs = fold (\<lambda>(k, v). AList.update k v) kvs m"

subsection \<open>Fixed-size windows\<close>

record fixed_config =
  fx_chunk_size :: nat
  fx_overlap :: nat

definition fixed_size_chunker :: "nat \<Rightarrow> nat \<Rightarrow> fixed_config result" where
  "fixed_size_chunker size0 overlap =
     (if size0 \<le> overlap then Inl (ValueError ''overlap must be smaller than chunk_size'')
      else Inr \<lparr>fx_chunk_size = size0, fx_overlap = overlap\<rparr>)"

definition fixed_chunk :: "chunk_env \<Rightarrow> parsed_doc \<Rightarrow> nat \<Rightarrow> string \<Rightarrow> chunk" where
  "fixed_chunk env doc idx piece =
     \<lparr>chunk_id = make_id env doc (str_nat idx) piece, content = piece, chunk_doc_type = doc_kind doc,
      source_path = doc_path doc, repo = doc_repo doc,
      metadata = with_keys (doc_metadata doc) [(''title'', JStr (doc_title doc)), (''chunk_index'', JInt (int idx))],
      parent_chunk_id = None, chunk_type = ''child'', token_count = estimate_text_tokens env piece (doc_kind doc),
      embed_content = None\<rparr>"

fun fixed_loop :: "chunk_env \<Rightarrow> parsed_doc \<Rightarrow> nat \<Rightarrow> nat \<Rightarrow> nat \<Rightarrow> nat \<Rightarrow> nat \<Rightarrow> chunk list option" where
  "fixed_loop env doc char_size step fuel start idx =
     (let s = doc_content doc in
      if length s \<le> start then Some []
      else case fuel of
        0 \<Rightarrow> None
      | Suc f \<Rightarrow>
          (let e = min (start + char_size) (length s); piece = py_strip (slice s start e);
               now = (if piece = [] then [] else [fixed_chunk env doc idx piece]);
               idx' = (if piece = [] then idx else idx + 1)
           in if e = length s then Some now
              else map_option ((@) now) (fixed_loop env doc char_size step f (start + step) idx')))"

declare fixed_loop.simps [simp del]

definition fixed_size_chunk :: "chunk_env \<Rightarrow> fixed_config \<Rightarrow> nat \<Rightarrow> parsed_doc \<Rightarrow> chunk list option" where
  "fixed_size_chunk env cfg fuel doc =
     (if py_strip (doc_content doc) = [] then Some []
      else (let char_size = char_budget (fx_chunk_size cfg) (doc_kind doc);
                char_overlap = char_budget (fx_overlap cfg) (doc_kind doc)
            in fixed_loop env doc char_size (char_size - char_overlap) fuel 0 0))"

subsection \<open>Parents\<close>

definition code_doc_types :: "doc_type list" where
  "code_doc_types = [PYTHON, JAVASCRIPT, TYPESCRIPT, GO, JAVA, SHELL]"

definition line_aware_doc_types :: "doc_type list" where
  "line_aware_doc_types =
     code_doc_types @ [KUBERNETES, TERRAFORM, HELM, YAML_CONFIG, DOCKERFILE, ALERT_DEFINITION]"

record pc_config =
  pc_child_size :: nat
  pc_child_overlap :: nat
  pc_parent_max_tokens :: nat
  pc_code_parent_max_tokens :: nat

definition parent_child_chunker :: "nat \<Rightarrow> nat \<Rightarrow> nat \<Rightarrow> nat \<Rightarrow> pc_config result" where
  "parent_child_chunker child_size overlap parent_max code_parent_max =
     (if child_size \<le> overlap then Inl (ValueError ''child_overlap must be smaller than child_size'')
      else Inr \<lparr>pc_child_size = child_size, pc_child_overlap = overlap, pc_parent_max_tokens = parent_max,
             pc_code_parent_max_tokens = code_parent_max\<rparr>)"

definition parent_max_chars_for :: "pc_config \<Rightarrow> doc_type \<Rightarrow> nat" where
  "parent_max_chars_for cfg dt =
     char_budget (if dt \<in> set code_doc_types then pc_code_parent_max_tokens cfg else pc_parent_max_tokens cfg) dt"

definition split_parent_text :: "string \<Rightarrow> nat \<Rightarrow> doc_type \<Rightarrow> string list" where
  "split_parent_text s max_chars dt =
     (if dt \<in> set line_aware_doc_types then split_by_lines s max_chars else split_by_char_size s max_chars)"

definition parent_chunk :: "chunk_env \<Rightarrow> parsed_doc \<Rightarrow> string \<Rightarrow> obj \<Rightarrow> string \<Rightarrow> chunk" where
  "parent_chunk env doc tag extra piece =
     \<lparr>chunk_id = make_id env doc tag piece, content = piece, chunk_doc_type = doc_kind doc,
      source_path = doc_path doc, repo = doc_repo doc, metadata = with_keys (doc_metadata doc) extra,
      parent_chunk_id = None, chunk_type = ''parent'', token_count = estimate_text_tokens env piece (doc_kind doc),
      embed_content = None\<rparr>"

definition parent_tag :: "nat \<Rightarrow> nat \<Rightarrow> string" where
  "parent_tag i j = ''parent-'' @ str_nat i @ ''-'' @ str_nat j"

definition str_list :: "string list \<Rightarrow> json" where
  "str_list xs = JList (map JStr xs)"

definition wrap_whole_doc :: "chunk_env \<Rightarrow> pc_config \<Rightarrow> parsed_doc \<Rightarrow> chunk list" where
  "wrap_whole_doc env cfg doc =
     (let s = py_strip (doc_content doc);
          extra = [(''title'', JStr (doc_title doc)),
                   (''heading_path'', str_list (if doc_title doc = [] then [] else [doc_title doc]))]
      in if s = [] then []
         else map (\<lambda>(j, piece). parent_chunk env doc (parent_tag 0 j) extra piece)
           (enumerate 0 (split_parent_text s (parent_max_chars_for cfg (doc_kind doc)) (doc_kind doc))))"

definition section_body :: "doc_section \<Rightarrow> string" where
  "section_body sec = py_strip (''# '' @ sec_heading sec @ [newline, newline] @ sec_content sec)"

definition heading_path :: "parsed_doc \<Rightarrow> doc_section \<Rightarrow> string list" where
  "heading_path doc sec =
     filter (\<lambda>h. h \<noteq> []) (doc_title doc # (if sec_breadcrumb sec = [] then [sec_heading sec] else sec_breadcrumb sec))"

definition section_parents :: "chunk_env \<Rightarrow> pc_config \<Rightarrow> parsed_doc \<Rightarrow> nat \<Rightarrow> doc_section \<Rightarrow> chunk list" where
  "section_parents env cfg doc i sec =
     (let body = section_body sec;
          extra = [(''title'', JStr (doc_title doc)), (''section_heading'', JStr (sec_heading sec)),
                   (''section_type'', JStr (sec_type sec)), (''section_level'', JInt (sec_level sec)),
                   (''heading_path'', str_list (heading_path doc sec))]
      in if body = [] then []
         else map (\<lambda>(j, piece). parent_chunk env doc (parent_tag i j) extra piece)
           (enumerate 0 (split_parent_text body (parent_max_chars_for cfg (doc_kind doc)) (doc_kind doc))))"

definition build_parents :: "chunk_env \<Rightarrow> pc_config \<Rightarrow> parsed_doc \<Rightarrow> chunk list" where
  "build_parents env cfg doc =
     (let parents = concat (map (\<lambda>(i, sec). section_parents env cfg doc i sec) (enumerate 0 (doc_sections doc)))
      in if doc_sections doc = [] \<or> parents = [] then wrap_whole_doc env cfg doc else parents)"

subsection \<open>Children\<close>

definition rfind_int :: "string \<Rightarrow> string \<Rightarrow> nat \<Rightarrow> nat \<Rightarrow> int" where
  "rfind_int sub s lo hi = (case rfind_in sub s lo hi of None \<Rightarrow> - 1 | Some i \<Rightarrow> int i)"

text \<open>The end of the window at \<open>start\<close>: after the last newline in it for line-aware types; otherwise a safe end around
  a fence, else after the last paragraph break or sentence in its last 40 percent.\<close>

definition child_end :: "bool \<Rightarrow> nat \<Rightarrow> string \<Rightarrow> nat \<Rightarrow> nat" where
  "child_end line_aware child_chars s start =
     (let e = min (start + child_chars) (length s) in
      if length s \<le> e then e
      else if line_aware then
        (case rfind_in [newline] s (start + 1) (e + 1) of None \<Rightarrow> e | Some nl \<Rightarrow> nl + 1)
      else
        (let floor = start + nat (py_trunc (real child_chars * 6 / 10)) in
         case fence_boundary_at s start e of
           Some f \<Rightarrow> f
         | None \<Rightarrow>
             (let para = rfind_int [newline, newline] s floor e in
              if int start < para then nat para + 2
              else (let sent = max (max (rfind_int ''. '' s floor e) (rfind_int ''! '' s floor e))
                                   (max (rfind_int ''? '' s floor e) (rfind_int [CHR ''.'', newline] s floor e))
                    in if int start < sent then nat sent + 1 else e))))"

definition next_start :: "nat \<Rightarrow> nat \<Rightarrow> nat \<Rightarrow> nat" where
  "next_start overlap start e =
     (if start + overlap < e then e - overlap else e - max 1 (min overlap (e - start - 1)))"

definition header_max_chars :: nat where "header_max_chars = 200"

text \<open>The breadcrumb of the enclosing symbol, from the first signature line and the heading path.\<close>

definition scope_path :: "(json \<Rightarrow> string) \<Rightarrow> obj \<Rightarrow> string list" where
  "scope_path shown m =
     drop 1 (case dget JNull ''heading_path'' m of
        JList hs \<Rightarrow> map shown (filter truthy hs)
      | _ \<Rightarrow> [])"

definition code_header_for :: "chunk_env \<Rightarrow> chunk \<Rightarrow> string option" where
  "code_header_for env parent =
     (let sig = (case ce_signature env (content parent) of None \<Rightarrow> [] | Some m \<Rightarrow> py_strip m);
          scope = join '' > '' (scope_path (json_str (\<lambda>_. [])) (metadata parent));
          crumb0 = (if sig = [] then scope
                    else if scope \<noteq> [] \<and> \<not> py_in scope sig then scope @ '' > '' @ sig else sig);
          crumb = py_strip (map (\<lambda>c. if c = newline then CHR '' '' else c) crumb0)
      in if crumb0 = [] then None
         else Some (''# [context] '' @
           (if header_max_chars < length crumb then py_rstrip (take header_max_chars crumb) @ ''...'' else crumb)))"

definition child_chunk :: "chunk_env \<Rightarrow> parsed_doc \<Rightarrow> chunk \<Rightarrow> nat \<Rightarrow> string \<Rightarrow> chunk" where
  "child_chunk env doc parent idx piece =
     \<lparr>chunk_id = make_id env doc (''child-'' @ chunk_id parent @ ''-'' @ str_nat idx) piece, content = piece,
      chunk_doc_type = doc_kind doc, source_path = doc_path doc, repo = doc_repo doc,
      metadata = with_keys (metadata parent) [(''child_index'', JInt (int idx))],
      parent_chunk_id = Some (chunk_id parent), chunk_type = ''child'',
      token_count = estimate_text_tokens env piece (doc_kind doc), embed_content = None\<rparr>"

record child_config =
  cc_chars :: nat
  cc_overlap :: nat
  cc_line_aware :: bool
  cc_header :: "string option"

definition child_piece :: "child_config \<Rightarrow> nat \<Rightarrow> string \<Rightarrow> string" where
  "child_piece cc idx piece =
     (case cc_header cc of Some h \<Rightarrow> if 1 \<le> idx then h @ [newline] @ piece else piece | None \<Rightarrow> piece)"

fun child_loop ::
  "chunk_env \<Rightarrow> parsed_doc \<Rightarrow> chunk \<Rightarrow> child_config \<Rightarrow> nat \<Rightarrow> nat \<Rightarrow> nat \<Rightarrow> nat option \<Rightarrow> chunk list option" where
  "child_loop env doc parent cc fuel start idx last_emit =
     (let s = content parent in
      if length s \<le> start then Some []
      else case fuel of
        0 \<Rightarrow> None
      | Suc f \<Rightarrow>
          (let e = child_end (cc_line_aware cc) (cc_chars cc) s start; piece = py_strip (slice s start e);
               emit = (piece \<noteq> [] \<and> last_emit \<noteq> Some e);
               now = (if emit then [child_chunk env doc parent idx (child_piece cc idx piece)] else [])
           in if e = length s then Some now
              else map_option ((@) now)
                (child_loop env doc parent cc f (next_start (cc_overlap cc) start e)
                   (if emit then idx + 1 else idx) (if emit then Some e else last_emit))))"

declare child_loop.simps [simp del]

definition child_config_for :: "chunk_env \<Rightarrow> pc_config \<Rightarrow> parsed_doc \<Rightarrow> chunk \<Rightarrow> child_config" where
  "child_config_for env cfg doc parent =
     \<lparr>cc_chars = char_budget (pc_child_size cfg) (doc_kind doc),
      cc_overlap = char_budget (pc_child_overlap cfg) (doc_kind doc),
      cc_line_aware = doc_kind doc \<in> set line_aware_doc_types,
      cc_header = (if doc_kind doc \<in> set code_doc_types then code_header_for env parent else None)\<rparr>"

definition split_children :: "chunk_env \<Rightarrow> pc_config \<Rightarrow> nat \<Rightarrow> parsed_doc \<Rightarrow> chunk \<Rightarrow> chunk list option" where
  "split_children env cfg fuel doc parent =
     child_loop env doc parent (child_config_for env cfg doc parent) fuel 0 0 None"

subsection \<open>The document\<close>

fun with_children :: "chunk_env \<Rightarrow> pc_config \<Rightarrow> nat \<Rightarrow> parsed_doc \<Rightarrow> chunk list \<Rightarrow> chunk list option" where
  "with_children env cfg fuel doc [] = Some []"
| "with_children env cfg fuel doc (p # ps) =
     (case (split_children env cfg fuel doc p, with_children env cfg fuel doc ps) of
        (Some cs, Some rest) \<Rightarrow> Some (p # cs @ rest)
      | _ \<Rightarrow> None)"

definition with_facets :: "chunk_env \<Rightarrow> nat \<Rightarrow> nat \<Rightarrow> chunk \<Rightarrow> chunk" where
  "with_facets env n_chunks i c =
     c\<lparr>metadata := setdefault ''token_count'' (JInt (token_count c))
         (setdefault ''content_hash'' (JStr (content_hash env (content c)))
           (with_keys (metadata c) [(''chunk_index'', JInt (int i)), (''chunk_count'', JInt (int n_chunks))]))\<rparr>"

definition parent_child_chunk :: "chunk_env \<Rightarrow> pc_config \<Rightarrow> nat \<Rightarrow> parsed_doc \<Rightarrow> chunk list option" where
  "parent_child_chunk env cfg fuel doc =
     map_option (\<lambda>out. map (\<lambda>(i, c). with_facets env (length out) i c) (enumerate 0 out))
       (with_children env cfg fuel doc (build_parents env cfg doc))"

subsection \<open>Windows\<close>

lemma content_parent_chunk [simp]: "content (parent_chunk env doc tag extra piece) = piece"
  by (simp add: parent_chunk_def)

lemma strip_empty: "py_strip s = [] \<longleftrightarrow> list_all is_space s"
proof -
  have "py_lstrip s = [] \<longleftrightarrow> list_all is_space s" by (simp add: py_lstrip_def dropWhile_eq_Nil_conv list_all_iff)
  moreover have "py_rstrip t = [] \<longleftrightarrow> list_all is_space t" for t
    by (simp add: py_rstrip_def dropWhile_eq_Nil_conv list_all_iff)
  moreover have "list_all is_space (py_lstrip s) \<longleftrightarrow> py_lstrip s = []"
    unfolding py_lstrip_def list_all_iff
    by (metis dropWhile_eq_Nil_conv empty_iff hd_dropWhile list.set(1) list.set_sel(1))
  ultimately show ?thesis by (simp add: py_strip_def)
qed

lemma slice_nonblank:
  "a \<le> i \<Longrightarrow> i < b \<Longrightarrow> i < length s \<Longrightarrow> \<not> is_space (s ! i) \<Longrightarrow> py_strip (slice s a b) \<noteq> []"
proof -
  assume *: "a \<le> i" "i < b" "i < length s" "\<not> is_space (s ! i)"
  then have "slice s a b ! (i - a) = s ! i" "i - a < length (slice s a b)" by (auto simp: slice_def)
  then have "s ! i \<in> set (slice s a b)" by (metis nth_mem)
  with *(4) show ?thesis by (auto simp: strip_empty list_all_iff)
qed

lemma cpt_bounds: "5 / 2 \<le> chars_per_token_for dt \<and> chars_per_token_for dt \<le> 4"
  by (cases dt) auto

lemma cpt_pos: "0 \<le> real n * chars_per_token_for dt"
  using cpt_bounds [of dt] by simp

lemma char_budget_mono: "m \<le> n \<Longrightarrow> char_budget m dt \<le> char_budget n dt"
  using cpt_bounds [of dt] cpt_pos [of m dt] cpt_pos [of n dt]
  by (simp add: char_budget_def py_trunc_def floor_mono mult_right_mono nat_mono)

lemma char_budget_le: "char_budget n dt \<le> 4 * n"
proof -
  have "real n * chars_per_token_for dt \<le> real n * 4" using cpt_bounds [of dt] by (intro mult_left_mono) auto
  then have "\<lfloor>real n * chars_per_token_for dt\<rfloor> \<le> int (4 * n)" by linarith
  then show ?thesis using cpt_pos [of n dt] by (simp add: char_budget_def py_trunc_def)
qed

lemma char_budget_Suc: "char_budget n dt + 2 \<le> char_budget (Suc n) dt"
proof -
  have "real (Suc n) * chars_per_token_for dt = real n * chars_per_token_for dt + chars_per_token_for dt"
    by (simp add: algebra_simps)
  then have "\<lfloor>real n * chars_per_token_for dt\<rfloor> + 2 \<le> \<lfloor>real (Suc n) * chars_per_token_for dt\<rfloor>"
    using cpt_bounds [of dt] by linarith
  then have "nat \<lfloor>real n * chars_per_token_for dt\<rfloor> + 2 \<le> nat \<lfloor>real (Suc n) * chars_per_token_for dt\<rfloor>"
    using cpt_pos [of n dt] by (simp only: le_nat_iff zero_le_floor nat_int_add [symmetric]) linarith
  then show ?thesis
    using cpt_pos [of n dt] cpt_pos [of "Suc n" dt] by (simp only: char_budget_def py_trunc_def if_True)
qed

lemma char_budget_less: "m < n \<Longrightarrow> char_budget m dt + 2 \<le> char_budget n dt"
  using char_budget_Suc [of m dt] char_budget_mono [of "Suc m" n dt] by linarith

lemma char_budget_pos: "0 < n \<Longrightarrow> 2 \<le> char_budget n dt"
  using char_budget_less [of 0 n dt] by simp

lemma fixed_loop_facts:
  assumes "0 < step" "step \<le> char_size"
  shows "length (doc_content doc) - start \<le> fuel \<Longrightarrow>
    \<exists>cs. fixed_loop env doc char_size step fuel start idx = Some cs
      \<and> (\<forall>i. start \<le> i \<and> i < length (doc_content doc) \<and> \<not> is_space (doc_content doc ! i) \<longrightarrow>
           (\<exists>c \<in> set cs. \<exists>a b. a \<le> i \<and> i < b \<and> content c = py_strip (slice (doc_content doc) a b)))"
proof (induction fuel arbitrary: start idx)
  case 0
  then show ?case by (auto simp: fixed_loop.simps)
next
  case (Suc fuel)
  let ?s = "doc_content doc"
  let ?e = "min (start + char_size) (length ?s)"
  let ?piece = "py_strip (slice ?s start ?e)"
  show ?case
  proof (cases "length ?s \<le> start")
    case False
    let ?now = "if ?piece = [] then [] else [fixed_chunk env doc idx ?piece]"
    have now: "\<exists>c \<in> set ?now. content c = ?piece"
      if "start \<le> i" "i < ?e" "\<not> is_space (?s ! i)" for i
      using slice_nonblank [of start i ?e ?s] that by (auto simp: fixed_chunk_def)
    show ?thesis
    proof (cases "?e = length ?s")
      case True
      then have "fixed_loop env doc char_size step (Suc fuel) start idx = Some ?now"
        using False by (simp add: fixed_loop.simps [of _ _ _ _ "Suc fuel"] Let_def)
      with now True show ?thesis by (intro exI [of _ ?now]) (metis (no_types, lifting))
    next
      case more: False
      let ?idx = "if ?piece = [] then idx else idx + 1"
      have "length ?s - (start + step) \<le> fuel" using Suc.prems assms False by simp
      from Suc.IH [OF this, of ?idx] obtain cs where
        cs: "fixed_loop env doc char_size step fuel (start + step) ?idx = Some cs"
          "\<forall>i. start + step \<le> i \<and> i < length ?s \<and> \<not> is_space (?s ! i) \<longrightarrow>
             (\<exists>c \<in> set cs. \<exists>a b. a \<le> i \<and> i < b \<and> content c = py_strip (slice ?s a b))"
        by blast
      have run: "fixed_loop env doc char_size step (Suc fuel) start idx = Some (?now @ cs)"
        using False more cs(1) by (subst fixed_loop.simps) (auto simp: Let_def min_def)
      have "\<exists>c \<in> set (?now @ cs). \<exists>a b. a \<le> i \<and> i < b \<and> content c = py_strip (slice ?s a b)"
        if i: "start \<le> i" "i < length ?s" "\<not> is_space (?s ! i)" for i
      proof (cases "i < ?e")
        case True
        with now [OF i(1) True i(3)] i(1) show ?thesis by (metis Un_iff set_append)
      next
        case False
        with more assms i have "start + step \<le> i" by auto
        with cs(2) i show ?thesis by (metis Un_iff set_append)
      qed
      with run show ?thesis by blast
    qed
  qed (auto simp: fixed_loop.simps)
qed

text \<open>The fixed-size chunker ends and covers. With an overlap smaller than the window, as its constructor demands,
  the loop ends on every document within as many steps as the document has characters, and every visible character
  of the document is inside a window whose stripped text is one of the chunks.\<close>

theorem fixed_size_covers:
  assumes "fixed_size_chunker size0 overlap = Inr cfg" and "length (doc_content doc) \<le> fuel"
    and "i < length (doc_content doc)" and "\<not> is_space (doc_content doc ! i)"
  shows "\<exists>cs. fixed_size_chunk env cfg fuel doc = Some cs
     \<and> (\<exists>c \<in> set cs. \<exists>a b. a \<le> i \<and> i < b \<and> content c = py_strip (slice (doc_content doc) a b))"
proof -
  let ?dt = "doc_kind doc"
  from assms(1) have cfg: "fx_overlap cfg < fx_chunk_size cfg" by (auto simp: fixed_size_chunker_def split: if_splits)
  have "py_strip (doc_content doc) \<noteq> []"
    using assms(3,4) by (auto simp: strip_empty list_all_iff)
  moreover have "0 < char_budget (fx_chunk_size cfg) ?dt - char_budget (fx_overlap cfg) ?dt"
    using char_budget_less [OF cfg, of ?dt] by simp
  ultimately show ?thesis
    using fixed_loop_facts [of "char_budget (fx_chunk_size cfg) ?dt - char_budget (fx_overlap cfg) ?dt"
        "char_budget (fx_chunk_size cfg) ?dt" doc 0 fuel env 0] assms
    by (auto simp: fixed_size_chunk_def Let_def)
qed

definition plain_doc :: "doc_type \<Rightarrow> string \<Rightarrow> parsed_doc" where
  "plain_doc dt s = \<lparr>doc_content = s, doc_kind = dt, doc_title = [], doc_path = ''f'', doc_repo = ''r'',
     doc_metadata = [], doc_sections = []\<rparr>"

definition sample_cfg :: pc_config where
  "sample_cfg = \<lparr>pc_child_size = 2, pc_child_overlap = 1, pc_parent_max_tokens = 8, pc_code_parent_max_tokens = 8\<rparr>"

definition plain_env :: chunk_env where
  "plain_env = \<lparr>ce_tokenizer = (\<lambda>_. None), ce_sha1 = (\<lambda>s. s), ce_sha256 = (\<lambda>s. s), ce_signature = (\<lambda>_. None)\<rparr>"

theorem fixed_size_covers_witness:
  "\<exists>cs. fixed_size_chunk plain_env \<lparr>fx_chunk_size = 2, fx_overlap = 1\<rparr> 6 (plain_doc GO ''ab cde'') = Some cs
     \<and> (\<exists>c \<in> set cs. \<exists>a b. a \<le> 4 \<and> 4 < b \<and> content c = py_strip (slice ''ab cde'' a b))"
  using fixed_size_covers [of 2 1 "\<lparr>fx_chunk_size = 2, fx_overlap = 1\<rparr>" "plain_doc GO ''ab cde''" 6 4 plain_env]
  by (simp add: fixed_size_chunker_def plain_doc_def is_space_def)

subsection \<open>The windows of the children\<close>

text \<open>The loop over the windows alone, and the emission of the chunks over a list of windows.\<close>

fun child_windows :: "child_config \<Rightarrow> string \<Rightarrow> nat \<Rightarrow> nat \<Rightarrow> (nat \<times> nat) list option" where
  "child_windows cc s fuel start =
     (if length s \<le> start then Some []
      else case fuel of
        0 \<Rightarrow> None
      | Suc f \<Rightarrow>
          (let e = child_end (cc_line_aware cc) (cc_chars cc) s start
           in if e = length s then Some [(start, e)]
              else map_option ((#) (start, e)) (child_windows cc s f (next_start (cc_overlap cc) start e))))"

declare child_windows.simps [simp del]

fun emit_children ::
  "chunk_env \<Rightarrow> parsed_doc \<Rightarrow> chunk \<Rightarrow> child_config \<Rightarrow> nat \<Rightarrow> nat option \<Rightarrow> (nat \<times> nat) list \<Rightarrow> chunk list" where
  "emit_children env doc parent cc idx last_emit [] = []"
| "emit_children env doc parent cc idx last_emit ((a, e) # ws) =
     (let piece = py_strip (slice (content parent) a e) in
      if piece \<noteq> [] \<and> last_emit \<noteq> Some e
      then child_chunk env doc parent idx (child_piece cc idx piece) # emit_children env doc parent cc (idx + 1) (Some e) ws
      else emit_children env doc parent cc idx last_emit ws)"

lemma child_loop_windows:
  "child_loop env doc parent cc fuel start idx last_emit =
     map_option (emit_children env doc parent cc idx last_emit) (child_windows cc (content parent) fuel start)"
proof (induction fuel arbitrary: start idx last_emit)
  case 0
  then show ?case by (simp add: child_loop.simps child_windows.simps)
next
  case (Suc fuel)
  show ?case
    by (subst child_loop.simps, subst child_windows.simps)
       (auto simp: Let_def Suc option.map_comp intro!: option.map_cong0)
qed

definition sentence_end :: "string \<Rightarrow> nat \<Rightarrow> nat \<Rightarrow> int" where
  "sentence_end s lo e =
     max (max (rfind_int ''. '' s lo e) (rfind_int ''! '' s lo e))
       (max (rfind_int ''? '' s lo e) (rfind_int [CHR ''.'', newline] s lo e))"

lemma rfind_int_le: "e \<le> length s \<Longrightarrow> length sub = 2 \<Longrightarrow> rfind_int sub s lo e \<le> max (- 1) (int e - 2)"
  using rfind_bounds [of sub s lo e] by (auto simp: rfind_int_def split: option.splits)

lemma sentence_end_le: "e \<le> length s \<Longrightarrow> sentence_end s lo e \<le> max (- 1) (int e - 2)"
  unfolding sentence_end_def by (intro max.boundedI rfind_int_le) simp_all

text \<open>The cases of a window end inside the text.\<close>

lemma child_end_cases:
  assumes "start < length s" "0 < n"
  obtains (last) "child_end la n s start = length s"
    | (cut) "child_end la n s start = start + n" "start + n < length s"
    | (line) nl where "child_end la n s start = nl + 1" "start < nl" "nl < length s"
    | (fence) "\<not> la" "start + n < length s" "fence_boundary_at s start (start + n) = Some (child_end la n s start)"
    | (snap) "start + 1 < child_end la n s start" "child_end la n s start \<le> start + n" "start + n < length s"
proof (cases "length s \<le> start + n")
  case True
  then show ?thesis by (intro last) (simp add: child_end_def)
next
  case False
  then have e: "min (start + n) (length s) = start + n" "start + n < length s" by simp_all
  note defs = child_end_def [unfolded sentence_end_def [symmetric]]
  show ?thesis
  proof (cases la)
    case True
    show ?thesis
    proof (cases "rfind_in [newline] s (start + 1) (start + n + 1)")
      case None
      with True e show ?thesis by (intro cut) (simp_all add: defs Let_def)
    next
      case (Some nl)
      with True e rfind_bounds [OF Some] show ?thesis by (intro line [of nl]) (simp_all add: defs Let_def)
    qed
  next
    case prose: False
    show ?thesis
    proof (cases "fence_boundary_at s start (start + n)")
      case (Some f)
      with prose e show ?thesis by (intro fence) (simp_all add: defs Let_def)
    next
      case None
      define lo where "lo = start + nat (py_trunc (real n * 6 / 10))"
      let ?para = "rfind_int [newline, newline] s lo (start + n)"
      let ?sent = "sentence_end s lo (start + n)"
      have le: "?para \<le> max (- 1) (int (start + n) - 2)" "?sent \<le> max (- 1) (int (start + n) - 2)"
        using e rfind_int_le [of "start + n" s "[newline, newline]" lo] sentence_end_le [of "start + n" s lo] by simp_all
      have val: "child_end la n s start =
          (if int start < ?para then nat ?para + 2 else if int start < ?sent then nat ?sent + 1 else start + n)"
        using prose e None by (simp add: defs lo_def Let_def)
      show ?thesis
      proof (cases "int start < ?para \<or> int start < ?sent")
        case True
        then show ?thesis using le e unfolding max_def by (intro snap) (auto simp: val split: if_splits)
      next
        case False
        with e show ?thesis by (intro cut) (simp_all add: val)
      qed
    qed
  qed
qed

lemma child_end_bounds:
  assumes "start < length s" "0 < n"
  shows "start < child_end la n s start \<and> child_end la n s start \<le> length s"
proof -
  have fence: "start < f" "f \<le> length s" if "fence_boundary_at s start (start + n) = Some f" "start + n < length s" for f
    using fence_scan_bounds [of start "start + n" s start f] assms(2) that by (simp_all add: fence_boundary_at_def)
  show ?thesis
    by (rule child_end_cases [OF assms, of la]) (use assms in \<open>auto dest: fence\<close>)
qed

lemma next_start_bounds: "start < e \<Longrightarrow> start \<le> next_start ov start e \<and> next_start ov start e \<le> e"
  by (auto simp: next_start_def)

lemma next_start_progress: "start + 2 \<le> e \<Longrightarrow> start < next_start ov start e"
  by (auto simp: next_start_def)

lemma child_windows_cover:
  assumes "0 < cc_chars cc"
  shows "child_windows cc s fuel start = Some ws \<Longrightarrow>
    sorted (map fst ws) \<and> (\<forall>w \<in> set ws. start \<le> fst w)
    \<and> (\<forall>i. start \<le> i \<and> i < length s \<longrightarrow> (\<exists>w \<in> set ws. fst w \<le> i \<and> i < snd w))"
proof (induction fuel arbitrary: start ws)
  case 0
  then show ?case by (auto simp: child_windows.simps split: if_splits)
next
  case (Suc fuel)
  show ?case
  proof (cases "length s \<le> start")
    case True
    with Suc.prems show ?thesis by (simp add: child_windows.simps)
  next
    case False
    let ?e = "child_end (cc_line_aware cc) (cc_chars cc) s start"
    let ?n = "next_start (cc_overlap cc) start ?e"
    have e: "start < ?e" "?e \<le> length s" using child_end_bounds [OF _ assms] False by simp_all
    show ?thesis
    proof (cases "?e = length s")
      case True
      with Suc.prems False have "ws = [(start, ?e)]" by (subst (asm) child_windows.simps) (simp add: Let_def)
      with True show ?thesis by auto
    next
      case more: False
      then have "map_option ((#) (start, ?e)) (child_windows cc s fuel ?n) = Some ws"
        using Suc.prems False by (subst (asm) child_windows.simps) (simp add: Let_def)
      then obtain tail where ws: "ws = (start, ?e) # tail" "child_windows cc s fuel ?n = Some tail" by blast
      note IH = Suc.IH [OF ws(2)]
      have n: "start \<le> ?n" "?n \<le> ?e" using next_start_bounds [OF e(1)] by simp_all
      have "\<exists>w \<in> set ws. fst w \<le> i \<and> i < snd w" if "start \<le> i" "i < length s" for i
      proof (cases "i < ?e")
        case False
        then have "?n \<le> i" using n by simp
        with IH that obtain w where "w \<in> set tail" "fst w \<le> i" "i < snd w" by blast
        then show ?thesis by (auto simp: ws)
      qed (use that in \<open>auto simp: ws\<close>)
      then show ?thesis using IH n by (auto simp: ws)
    qed
  qed
qed

lemma child_piece_suffix: "\<exists>h. child_piece cc idx p = h @ p"
proof (cases "cc_header cc \<noteq> None \<and> 1 \<le> idx")
  case True
  then show ?thesis
    by (intro exI [of _ "the (cc_header cc) @ [newline]"]) (auto simp: child_piece_def)
qed (auto simp: child_piece_def split: option.split)

lemma emit_covers:
  assumes "sorted (map fst ws)"
  shows "\<forall>w \<in> set ws. py_strip (slice (content parent) (fst w) (snd w)) \<noteq> [] \<longrightarrow>
    last_emit = Some (snd w)
    \<or> (\<exists>c \<in> set (emit_children env doc parent cc idx last_emit ws). \<exists>a h. a \<le> fst w
        \<and> content c = h @ py_strip (slice (content parent) a (snd w)))"
  using assms
proof (induction ws arbitrary: idx last_emit)
  case (Cons w0 ws)
  obtain a0 e0 where w0: "w0 = (a0, e0)" by (cases w0)
  have le: "\<forall>w \<in> set ws. a0 \<le> fst w" and sorted: "sorted (map fst ws)" using Cons.prems by (auto simp: w0)
  let ?p = "py_strip (slice (content parent) a0 e0)"
  show ?case
  proof (cases "?p \<noteq> [] \<and> last_emit \<noteq> Some e0")
    case True
    let ?c = "child_chunk env doc parent idx (child_piece cc idx ?p)"
    have emit: "emit_children env doc parent cc idx last_emit (w0 # ws) =
        ?c # emit_children env doc parent cc (idx + 1) (Some e0) ws"
      using True by (simp add: w0 Let_def)
    obtain h where h: "content ?c = h @ ?p"
      using child_piece_suffix [of cc idx ?p] by (auto simp: child_chunk_def)
    show ?thesis
    proof (intro ballI impI)
      fix w assume w: "w \<in> set (w0 # ws)" "py_strip (slice (content parent) (fst w) (snd w)) \<noteq> []"
      show "last_emit = Some (snd w) \<or> (\<exists>c \<in> set (emit_children env doc parent cc idx last_emit (w0 # ws)).
          \<exists>a h. a \<le> fst w \<and> content c = h @ py_strip (slice (content parent) a (snd w)))"
      proof (cases "w = w0 \<or> snd w = e0")
        case True
        moreover have "a0 \<le> fst w" using w(1) le by (auto simp: w0)
        ultimately have "a0 \<le> fst w \<and> snd w = e0" by (auto simp: w0)
        then show ?thesis using h unfolding emit by auto
      next
        case False
        then show ?thesis using Cons.IH [OF sorted, of "Some e0" "idx + 1"] w unfolding emit by fastforce
      qed
    qed
  next
    case False
    then have "emit_children env doc parent cc idx last_emit (w0 # ws) = emit_children env doc parent cc idx last_emit ws"
      by (auto simp: w0 Let_def)
    with Cons.IH [OF sorted, of last_emit idx] False show ?thesis by (auto simp: w0)
  qed
qed simp

lemma emit_links:
  "c \<in> set (emit_children env doc parent cc idx last_emit ws) \<Longrightarrow>
   parent_chunk_id c = Some (chunk_id parent) \<and> chunk_type c = ''child'' \<and> content c \<noteq> []"
  by (induction ws arbitrary: idx last_emit rule: list.induct)
     (auto simp: Let_def child_chunk_def child_piece_def split: if_splits option.splits)

text \<open>Every visible character of a parent lies in a window of the parent's text whose stripped text ends the content of one of
  its children, so neither the overlap arithmetic nor the skipping of windows that end where the last one did loses text;
  and each child is linked to its parent and not empty.\<close>

definition covered_by :: "chunk \<Rightarrow> chunk list \<Rightarrow> bool" where
  "covered_by parent cs \<longleftrightarrow>
     (\<forall>i < length (content parent). \<not> is_space (content parent ! i) \<longrightarrow>
        (\<exists>c \<in> set cs. \<exists>a b h. a \<le> i \<and> i < b \<and> content c = h @ py_strip (slice (content parent) a b)))"

lemma split_children_cover:
  assumes "split_children env cfg fuel doc parent = Some cs" and "0 < pc_child_size cfg"
  shows "list_all (\<lambda>c. parent_chunk_id c = Some (chunk_id parent) \<and> chunk_type c = ''child'' \<and> content c \<noteq> []) cs
    \<and> covered_by parent cs"
proof -
  let ?cc = "child_config_for env cfg doc parent"
  from assms(1) obtain ws where ws: "child_windows ?cc (content parent) fuel 0 = Some ws"
    and cs: "cs = emit_children env doc parent ?cc 0 None ws"
    by (auto simp: split_children_def child_loop_windows)
  have "0 < cc_chars ?cc"
    using char_budget_pos [OF assms(2), of "doc_kind doc"] by (simp add: child_config_for_def)
  note cover = child_windows_cover [OF this ws]
  have "\<exists>c \<in> set cs. \<exists>a b h. a \<le> i \<and> i < b \<and> content c = h @ py_strip (slice (content parent) a b)"
    if i: "i < length (content parent)" "\<not> is_space (content parent ! i)" for i
  proof -
    from cover i obtain w where w: "w \<in> set ws" "fst w \<le> i" "i < snd w" by blast
    then have "py_strip (slice (content parent) (fst w) (snd w)) \<noteq> []" using slice_nonblank i by blast
    then obtain c a h where "c \<in> set cs" "a \<le> fst w" "content c = h @ py_strip (slice (content parent) a (snd w))"
      using emit_covers [of ws parent None env doc ?cc 0] cover w(1) unfolding cs by blast
    with w show ?thesis by (meson le_trans)
  qed
  then show ?thesis using emit_links cs by (auto simp: covered_by_def list_all_iff)
qed

subsection \<open>The child loop ends\<close>

text \<open>Windows that are at least two characters long make progress.\<close>

lemma child_windows_end:
  assumes "0 < cc_chars cc"
    and "\<And>start. start < length s \<Longrightarrow>
      start + 2 \<le> child_end (cc_line_aware cc) (cc_chars cc) s start
      \<or> child_end (cc_line_aware cc) (cc_chars cc) s start = length s"
  shows "length s - start \<le> fuel \<Longrightarrow> child_windows cc s fuel start \<noteq> None"
proof (induction fuel arbitrary: start)
  case 0
  then show ?case by (simp add: child_windows.simps)
next
  case (Suc fuel)
  let ?e = "child_end (cc_line_aware cc) (cc_chars cc) s start"
  show ?case
  proof (cases "length s \<le> start \<or> ?e = length s")
    case True
    then show ?thesis by (subst child_windows.simps) (auto simp: Let_def)
  next
    case False
    then have "start < next_start (cc_overlap cc) start ?e"
      using assms(2) [of start] next_start_progress by auto
    then have "child_windows cc s fuel (next_start (cc_overlap cc) start ?e) \<noteq> None"
      using Suc.prems False by (intro Suc.IH) linarith
    with False show ?thesis by (subst child_windows.simps) (auto simp: Let_def)
  qed
qed

lemma child_end_progress:
  assumes "start < length s" "2 \<le> n"
    and "la \<or> length s \<le> fence_extend_cap \<or> (length s \<le> fence_extend_cap + 1 \<and> s ! 0 \<noteq> newline)"
  shows "start + 2 \<le> child_end la n s start \<or> child_end la n s start = length s"
proof -
  have pos: "0 < n" using assms(2) by simp
  have fence: "start + 2 \<le> f"
    if "fence_boundary_at s start (start + n) = Some f" "start + n < length s" "\<not> la" for f
    using fence_scan_gap [of start "start + n" s start f] that assms(2,3)
    by (cases start) (auto simp: fence_boundary_at_def)
  show ?thesis
    by (rule child_end_cases [OF assms(1) pos, of la]) (use assms(2) in \<open>auto dest: fence\<close>)
qed

lemma split_children_ends:
  assumes "0 < pc_child_size cfg" "length (content p) \<le> fuel"
    and "doc_kind doc \<in> set line_aware_doc_types \<or> length (content p) \<le> fence_extend_cap
      \<or> (length (content p) \<le> fence_extend_cap + 1 \<and> content p ! 0 \<noteq> newline)"
  shows "split_children env cfg fuel doc p \<noteq> None"
proof -
  let ?cc = "child_config_for env cfg doc p"
  have cc: "2 \<le> cc_chars ?cc" "cc_line_aware ?cc = (doc_kind doc \<in> set line_aware_doc_types)"
    using char_budget_pos [OF assms(1), of "doc_kind doc"] by (simp_all add: child_config_for_def)
  have "child_windows ?cc (content p) fuel 0 \<noteq> None"
    using cc assms child_end_progress [where s = "content p" and n = "cc_chars ?cc" and la = "cc_line_aware ?cc"]
    by (intro child_windows_end) auto
  then show ?thesis by (simp add: split_children_def child_loop_windows)
qed

text \<open>The parents that the default budgets allow are short enough.\<close>

lemma split_parent_short:
  assumes "p \<in> set (split_parent_text s (parent_max_chars_for cfg dt) dt)"
    and "0 < pc_parent_max_tokens cfg" "pc_parent_max_tokens cfg \<le> 1024" "dt \<notin> set line_aware_doc_types"
  shows "length p \<le> fence_extend_cap \<or> (length p \<le> fence_extend_cap + 1 \<and> p ! 0 \<noteq> newline)"
proof -
  let ?m = "parent_max_chars_for cfg dt"
  have "dt \<notin> set code_doc_types" using assms(4) by (auto simp: line_aware_doc_types_def)
  then have m: "?m = char_budget (pc_parent_max_tokens cfg) dt" by (simp add: parent_max_chars_for_def)
  have pos: "0 < ?m" using char_budget_pos [OF assms(2), of dt] m by simp
  have cap: "?m \<le> fence_extend_cap"
    using char_budget_le [of "pc_parent_max_tokens cfg" dt] assms(3) m by (simp add: fence_extend_cap_def)
  show ?thesis
  proof (cases "length s \<le> ?m \<or> char_slices s ?m 0 = []")
    case True
    moreover have "length s \<le> ?m" if "char_slices s ?m 0 = []"
      using char_slices_facts [OF pos, of s 0] that by simp
    ultimately show ?thesis using assms(1,4) cap by (auto simp: split_parent_text_def split_by_char_size_def Let_def)
  next
    case False
    then show ?thesis
      using assms(1,4) char_slices_tight [OF pos cap]
      by (simp add: split_parent_text_def split_by_char_size_def Let_def)
  qed
qed

lemma enumerate_mem: "(i, x) \<in> set (enumerate n xs) \<Longrightarrow> x \<in> set xs"
  by (auto simp: enumerate_eq_zip dest: set_zip_rightD)

lemma wrap_pieces:
  "p \<in> set (wrap_whole_doc env cfg doc) \<Longrightarrow>
   content p \<in> set (split_parent_text (py_strip (doc_content doc)) (parent_max_chars_for cfg (doc_kind doc)) (doc_kind doc))"
  by (auto simp: wrap_whole_doc_def Let_def dest!: enumerate_mem split: if_splits)

lemma section_pieces:
  "p \<in> set (section_parents env cfg doc i sec) \<Longrightarrow>
   content p \<in> set (split_parent_text (section_body sec) (parent_max_chars_for cfg (doc_kind doc)) (doc_kind doc))"
  by (auto simp: section_parents_def Let_def dest!: enumerate_mem split: if_splits)

lemma parents_are_pieces:
  "p \<in> set (build_parents env cfg doc) \<Longrightarrow>
   \<exists>s. content p \<in> set (split_parent_text s (parent_max_chars_for cfg (doc_kind doc)) (doc_kind doc))"
  by (auto simp: build_parents_def Let_def dest: wrap_pieces section_pieces split: if_splits)

lemma with_children_ends:
  "(\<And>p. p \<in> set ps \<Longrightarrow> split_children env cfg fuel doc p \<noteq> None) \<Longrightarrow> with_children env cfg fuel doc ps \<noteq> None"
  by (induction ps) (auto split: option.splits)

text \<open>C17: With a parent budget of at most 1024 tokens, the default, the child loop ends for every parent of every document, and
  the children cover the parent: each visible character of it, that is each one that is not white space, lies in a window
  of the parent's text whose stripped text ends the content of one of the children; and each child is linked to its
  parent and not empty.\<close>

theorem children_cover_parent:
  assumes "0 < pc_child_size cfg" "0 < pc_parent_max_tokens cfg" "pc_parent_max_tokens cfg \<le> 1024"
    and "parent \<in> set (build_parents env cfg doc)" "length (content parent) \<le> fuel"
  shows "\<exists>cs. split_children env cfg fuel doc parent = Some cs
    \<and> list_all (\<lambda>c. parent_chunk_id c = Some (chunk_id parent) \<and> chunk_type c = ''child'' \<and> content c \<noteq> []) cs
    \<and> (\<forall>i < length (content parent). \<not> is_space (content parent ! i) \<longrightarrow>
         (\<exists>c \<in> set cs. \<exists>a b h. a \<le> i \<and> i < b \<and> content c = h @ py_strip (slice (content parent) a b)))"
proof -
  have "split_children env cfg fuel doc parent \<noteq> None"
    using split_children_ends [OF assms(1,5)] parents_are_pieces [OF assms(4)] split_parent_short [OF _ assms(2,3)] by blast
  then obtain cs where "split_children env cfg fuel doc parent = Some cs" by blast
  with split_children_cover [OF this assms(1)] show ?thesis by (simp add: covered_by_def)
qed

lemma sample_parent:
  obtains parent where "parent \<in> set (build_parents plain_env sample_cfg (plain_doc GO ''ab cdef''))" "content parent = ''ab cdef''"
proof -
  have "py_strip ''ab cdef'' = ''ab cdef''" by code_simp
  moreover have "split_by_lines ''ab cdef'' (char_budget 8 GO) = [''ab cdef'']"
    by (simp add: split_by_lines_def char_budget_def py_trunc_def)
  ultimately show ?thesis
    by (intro that [of "parent_chunk plain_env (plain_doc GO ''ab cdef'') (parent_tag 0 0)
          [(''title'', JStr []), (''heading_path'', str_list [])] ''ab cdef''"])
      (simp_all add: build_parents_def wrap_whole_doc_def Let_def plain_doc_def parent_max_chars_for_def sample_cfg_def
        split_parent_text_def line_aware_doc_types_def code_doc_types_def)
qed

theorem children_cover_parent_witness:
  "\<exists>parent cs. parent \<in> set (build_parents plain_env sample_cfg (plain_doc GO ''ab cdef''))
     \<and> split_children plain_env sample_cfg 8 (plain_doc GO ''ab cdef'') parent = Some cs
     \<and> (\<exists>c \<in> set cs. \<exists>a b h. a \<le> 4 \<and> 4 < b \<and> content c = h @ py_strip (slice ''ab cdef'' a b))"
proof -
  obtain parent where p: "parent \<in> set (build_parents plain_env sample_cfg (plain_doc GO ''ab cdef''))" "content parent = ''ab cdef''"
    by (rule sample_parent)
  have "0 < pc_child_size sample_cfg" "0 < pc_parent_max_tokens sample_cfg" "pc_parent_max_tokens sample_cfg \<le> 1024"
    "length (content parent) \<le> 8"
    by (simp_all add: sample_cfg_def p(2))
  from children_cover_parent [OF this(1-3) p(1) this(4)] obtain cs where
    cs: "split_children plain_env sample_cfg 8 (plain_doc GO ''ab cdef'') parent = Some cs"
    "\<forall>i < length (content parent). \<not> is_space (content parent ! i) \<longrightarrow>
         (\<exists>c \<in> set cs. \<exists>a b h. a \<le> i \<and> i < b \<and> content c = h @ py_strip (slice (content parent) a b))" by blast
  have "\<exists>c \<in> set cs. \<exists>a b h. a \<le> 4 \<and> 4 < b \<and> content c = h @ py_strip (slice ''ab cdef'' a b)"
    using cs(2) [rule_format, of 4] by (simp add: p(2) is_space_def)
  with p(1) cs(1) show ?thesis by blast
qed

text \<open>The parent-child chunker ends. With a parent budget of at most 1024 tokens, the default, it returns for
  every document, every content type, every child size and every overlap, within as many steps per parent as the
  parent has characters.\<close>

theorem parent_child_terminates:
  assumes "0 < pc_child_size cfg" "0 < pc_parent_max_tokens cfg" "pc_parent_max_tokens cfg \<le> 1024"
    and "\<And>p. p \<in> set (build_parents env cfg doc) \<Longrightarrow> length (content p) \<le> fuel"
  shows "\<exists>cs. parent_child_chunk env cfg fuel doc = Some cs"
proof -
  have "split_children env cfg fuel doc p \<noteq> None" if p: "p \<in> set (build_parents env cfg doc)" for p
    using split_children_ends [OF assms(1) assms(4) [OF p]] parents_are_pieces [OF p]
      split_parent_short [OF _ assms(2,3)] by blast
  then have "with_children env cfg fuel doc (build_parents env cfg doc) \<noteq> None" by (rule with_children_ends)
  then show ?thesis by (auto simp: parent_child_chunk_def)
qed

theorem parent_child_terminates_witness:
  "\<exists>cs. parent_child_chunk plain_env sample_cfg 20 (plain_doc GO ''ab cdef'') = Some cs"
proof (rule parent_child_terminates)
  fix p assume "p \<in> set (build_parents plain_env sample_cfg (plain_doc GO ''ab cdef''))"
  then have "p \<in> set (wrap_whole_doc plain_env sample_cfg (plain_doc GO ''ab cdef''))"
    by (simp add: build_parents_def plain_doc_def)
  from wrap_pieces [OF this] have "content p \<in> set (split_by_lines (py_strip ''ab cdef'') (char_budget 8 GO))"
    by (simp add: plain_doc_def parent_max_chars_for_def sample_cfg_def split_parent_text_def line_aware_doc_types_def
        code_doc_types_def)
  moreover have "py_strip ''ab cdef'' = ''ab cdef''" by code_simp
  moreover have "length ''ab cdef'' \<le> char_budget 8 GO" by (simp add: char_budget_def py_trunc_def)
  ultimately show "length (content p) \<le> 20" by (auto simp: split_by_lines_def split: if_splits)
qed (simp_all add: sample_cfg_def)

subsection \<open>Where the child loop does not end\<close>

text \<open>A line of prose and an unclosed fence of \<open>k\<close> characters.\<close>

definition fenced_text :: "nat \<Rightarrow> string" where
  "fenced_text k = [CHR ''x'', newline, CHR 0x60, CHR 0x60, CHR 0x60, newline] @ replicate k (CHR ''y'')"

definition roomy_cfg :: pc_config where
  "roomy_cfg = \<lparr>pc_child_size = 256, pc_child_overlap = 32, pc_parent_max_tokens = 2048,
     pc_code_parent_max_tokens = 2048\<rparr>"

lemma length_fenced_text [simp]: "length (fenced_text k) = k + 6"
  by (simp add: fenced_text_def)

lemma drop_fenced_text: "6 \<le> i \<Longrightarrow> drop i (fenced_text k) = replicate (k - (i - 6)) (CHR ''y'')"
proof -
  assume "6 \<le> i"
  then have "drop i (fenced_text k) = drop (i - 6) (drop 6 (fenced_text k))" by simp
  also have "drop 6 (fenced_text k) = replicate k (CHR ''y'')" by (simp add: fenced_text_def)
  finally show ?thesis by simp
qed

lemma takeWhile_replicate_none: "\<not> P c \<Longrightarrow> takeWhile P (replicate m c) = []"
  by (cases m) auto

lemma fenced_text_fence:
  assumes "start \<le> 1"
  shows "find_fence (fenced_text k) start = Some (2, 5, CHR 0x60, 3)"
proof -
  have at: "fence_at (fenced_text k) 0 = None" "fence_at (fenced_text k) (Suc 0) = None"
    "fence_at (fenced_text k) 2 = Some (5, CHR 0x60, 3)"
    by (simp_all add: fence_at_def fenced_text_def blank_len_def run_len_def line_start_def newline_def Let_def)
  have idx: "[0..<k + 6] = 0 # 1 # 2 # [3..<k + 6]" "[Suc 0..<k + 6] = Suc 0 # 2 # [3..<k + 6]"
    by (simp_all add: upt_conv_Cons eval_nat_numeral)
  from assms consider "start = 0" | "start = 1" by linarith
  then show ?thesis by cases (simp_all add: find_fence_def idx at)
qed

lemma fenced_text_open: "fence_close_end (fenced_text k) 5 (CHR 0x60) 3 = k + 6"
proof -
  have range: "Suc (length (fenced_text k)) - length [newline] = k + 6" "[5..<k + 6] = 5 # [Suc 5..<k + 6]"
    by (simp, rule upt_conv_Cons) simp
  have "prefix [newline] (drop 5 (fenced_text k))" by (simp add: fenced_text_def)
  then have "find_from [newline] (fenced_text k) 5 = Some 5"
    unfolding find_from_def range find.simps by simp
  moreover have "close_at (CHR 0x60) 3 (fenced_text k) i = None" if "6 \<le> i" for i
    using that by (simp add: close_at_def Let_def blank_len_def run_len_def drop_fenced_text takeWhile_replicate_none)
  then have "find_close (CHR 0x60) 3 (fenced_text k) 6 = None"
    by (auto simp: find_close_def find_None_iff)
  ultimately show ?thesis by (simp add: fence_close_end_def past_line_def)
qed

lemma fenced_text_end:
  assumes "start \<le> 1" "4092 \<le> k"
  shows "child_end False 1024 (fenced_text k) start = 2"
  using assms fenced_text_fence [OF assms(1), of k] fenced_text_open [of k]
  by (simp add: child_end_def Let_def fence_boundary_at_def fence_scan.simps fence_extend_cap_def)

lemma fenced_windows_none:
  assumes "cc_chars cc = 1024" "cc_overlap cc = 128" "\<not> cc_line_aware cc" "4092 \<le> k"
  shows "start \<le> 1 \<Longrightarrow> child_windows cc (fenced_text k) fuel start = None"
proof (induction fuel arbitrary: start)
  case 0
  then show ?case using assms(4) by (simp add: child_windows.simps)
next
  case (Suc fuel)
  have "next_start 128 start 2 \<le> 1" using Suc.prems by (auto simp: next_start_def)
  then show ?case
    using Suc assms fenced_text_end [OF Suc.prems assms(4)]
    by (subst child_windows.simps) (simp add: Let_def)
qed

lemma strip_fenced_text:
  assumes "0 < k"
  shows "py_strip (fenced_text k) = fenced_text k"
proof -
  have "dropWhile is_space (replicate k (CHR ''y'') @ zs) = replicate k (CHR ''y'') @ zs" for zs
    using assms by (cases k) (simp_all add: is_space_def)
  then show ?thesis
    by (simp add: py_strip_def py_lstrip_def py_rstrip_def fenced_text_def) (simp add: is_space_def)
qed

text \<open>A long fence stops the chunker. When the parent budget is raised to 2048 tokens, a markdown document of a
  short line and a fenced block of more than 4096 characters makes the child loop run forever: no amount of fuel
  gives a result. The boundary moves back to the opening of the fence, the overlap creeps up to one character before
  it, and the minimum overlap of one character then puts the next window where this one starts.\<close>

theorem long_fence_never_ends:
  assumes "4092 \<le> k" "k \<le> 8000"
  shows "parent_child_chunk env roomy_cfg fuel (plain_doc GENERIC_MARKDOWN (fenced_text k)) = None"
proof -
  let ?doc = "plain_doc GENERIC_MARKDOWN (fenced_text k)"
  have kind: "doc_kind ?doc = GENERIC_MARKDOWN" "GENERIC_MARKDOWN \<notin> set line_aware_doc_types"
    "GENERIC_MARKDOWN \<notin> set code_doc_types"
    by (simp_all add: plain_doc_def line_aware_doc_types_def code_doc_types_def)
  have budgets: "char_budget 2048 GENERIC_MARKDOWN = 8192" "char_budget 256 GENERIC_MARKDOWN = 1024"
    "char_budget 32 GENERIC_MARKDOWN = 128"
    by (simp_all add: char_budget_def py_trunc_def)
  have "split_parent_text (fenced_text k) (parent_max_chars_for roomy_cfg GENERIC_MARKDOWN) GENERIC_MARKDOWN = [fenced_text k]"
    using assms kind budgets
    by (simp add: split_parent_text_def parent_max_chars_for_def roomy_cfg_def split_by_char_size_def)
  moreover have "py_strip (fenced_text k) = fenced_text k" "fenced_text k \<noteq> []"
    using assms strip_fenced_text [of k] by (simp_all add: fenced_text_def)
  ultimately obtain p where p: "build_parents env roomy_cfg ?doc = [p]" "content p = fenced_text k"
    by (simp add: build_parents_def wrap_whole_doc_def Let_def plain_doc_def)
  have "split_children env roomy_cfg fuel ?doc p = None"
    using assms kind budgets p(2)
    by (simp add: split_children_def child_loop_windows fenced_windows_none child_config_for_def roomy_cfg_def)
  then show ?thesis by (simp add: parent_child_chunk_def p(1))
qed

theorem long_fence_never_ends_witness:
  "parent_child_chunk plain_env roomy_cfg 100000 (plain_doc GENERIC_MARKDOWN (fenced_text 5000)) = None"
  by (rule long_fence_never_ends) simp_all

end
