(* ===== verification/Ingest.thy ===== *)
theory Ingest
  imports File_Store Enrich Chunkers Index_Tracker
begin

text \<open>
  The ingestion pipeline (\<open>ingestion/pipeline.py\<close>): one file, one run over a repository or a source, and the
  webhook. The parsers, the chunker, the embedders, the extractors of the light graph, the texts of the contextual step and the
  graph lane are parameters; what
  fails in a run is part of its world, file by file. Workers handle one file at a time; the order in which files
  come through is an argument. The state is the table of indexed files, the chunk table, the code table, and the
  progress tracker of the dashboard.
\<close>

subsection \<open>Files and configuration\<close>

record repo_file =
  rf_path :: string
  rf_content :: string
  rf_sha :: string
  rf_last_modified :: "string option"
  rf_repo :: string
  rf_branch :: string
  rf_metadata :: obj

text \<open>\<open>_index_fingerprint\<close>: the chunker's class and the sizes it exposes, the versions, and the embedder.\<close>

record index_config =
  ic_chunker :: string
  ic_sizes :: "(string \<times> string option) list"
  ic_ratios_version :: string
  ic_embed_model :: string
  ic_embed_dim :: string

definition parser_version :: string where "parser_version = ''ruamel-1''"

definition size_attrs :: "string list" where
  "size_attrs = [''chunk_size'', ''overlap'', ''child_size'', ''child_overlap'', ''parent_max_tokens'',
     ''code_parent_max_tokens'']"

definition fingerprint_text :: "index_config \<Rightarrow> string" where
  "fingerprint_text cfg =
     join ''|''
       ([''chunker='' @ ic_chunker cfg]
        @ List.map_filter (\<lambda>a. case map_of (ic_sizes cfg) a of Some (Some v) \<Rightarrow> Some (a @ ''='' @ v) | _ \<Rightarrow> None) size_attrs
        @ [''ratios_version='' @ ic_ratios_version cfg, ''parser_version='' @ parser_version,
           ''embed_model='' @ ic_embed_model cfg, ''embed_dim='' @ ic_embed_dim cfg])"

definition default_excludes :: "string list" where
  "default_excludes =
     [''/node_modules/'', ''/__pycache__/'', ''/.venv/'', ''/venv/'', ''/dist/'', ''/build/'', ''/.next/'', ''/.nuxt/'',
      ''/.turbo/'', ''/vendor/'', ''/target/'', ''/.cache/'', ''/migrations/0'', ''package-lock.json'', ''yarn.lock'',
      ''pnpm-lock.yaml'', ''poetry.lock'', ''.min.js'', ''.min.css'', ''.pb.go'', ''_pb2.py'', ''/images/opsrag/'',
      ''/.claude/'', ''/.cursor/'', ''/.vscode/'', ''/.idea/'', ''/.codeium/'']"

definition is_excluded :: "string \<Rightarrow> bool" where
  "is_excluded path \<longleftrightarrow> list_ex (\<lambda>s. py_in s (''/'' @ path)) default_excludes"

text \<open>What the light graph extracts: the entities of a structured document, and those of a chunk's metadata.\<close>

record light_lanes =
  lg_structured :: "parsed_doc \<Rightarrow> string list result"
  lg_metadata :: "obj \<Rightarrow> string \<Rightarrow> string list result"

record ingest_env =
  ie_parsers :: "((string \<Rightarrow> string \<Rightarrow> bool) \<times> (repo_file \<Rightarrow> parsed_doc result)) list"
  ie_chunker :: "parsed_doc \<Rightarrow> chunk list result"
  ie_sha256 :: "string \<Rightarrow> string"
  ie_config :: index_config
  ie_authors :: author_policy
  ie_set_order :: "string list \<Rightarrow> string list"
  ie_str :: "json \<Rightarrow> string"
  ie_light :: "light_lanes option"
  ie_contextual :: "(parsed_doc \<Rightarrow> chunk list \<Rightarrow> nat \<Rightarrow> (string \<times> int) option) option"
  ie_code_lane :: bool
  ie_priority :: "chunk \<Rightarrow> string option"

text \<open>What goes wrong around one file, and when it happens.\<close>

record file_world =
  fw_skip_ok :: bool
  fw_seen_ok :: bool
  fw_delete_ok :: bool
  fw_embed :: "string list \<Rightarrow> real list list result"
  fw_upsert :: "nat \<Rightarrow> py_error option"
  fw_record_ok :: bool
  fw_code_delete_ok :: bool
  fw_code_embed :: "string list \<Rightarrow> real list list result"
  fw_code_upsert :: "nat \<Rightarrow> py_error option"
  fw_now :: real

record index_state =
  ix_files :: files_table
  ix_points :: points
  ix_code :: points
  ix_jobs :: tracker

subsection \<open>From a file to its chunks\<close>

definition file_hash :: "ingest_env \<Rightarrow> repo_file \<Rightarrow> string" where
  "file_hash env f = ie_sha256 env (rf_content f @ [CHR 0x00] @ ie_sha256 env (fingerprint_text (ie_config env)))"

definition file_key_of :: "repo_file \<Rightarrow> file_key" where
  "file_key_of f = (rf_repo f, rf_branch f, rf_path f)"

text \<open>Every parser labels its document with the file that it was given.\<close>

definition labelled :: "(repo_file \<Rightarrow> parsed_doc result) \<Rightarrow> repo_file \<Rightarrow> parsed_doc result" where
  "labelled parse f =
     (case parse f of Inl e \<Rightarrow> Inl e | Inr doc \<Rightarrow> Inr (doc\<lparr>doc_repo := rf_repo f, doc_path := rf_path f\<rparr>))"

definition parser_for :: "ingest_env \<Rightarrow> repo_file \<Rightarrow> (repo_file \<Rightarrow> parsed_doc result) option" where
  "parser_for env f = map_option (labelled \<circ> snd) (find (\<lambda>(supports, parse). supports (rf_path f) (rf_content f)) (ie_parsers env))"

definition source_type_for :: "repo_file \<Rightarrow> string" where
  "source_type_for f =
     (case map_of (rf_metadata f) ''source_type'' of
        Some (JStr s) \<Rightarrow> if s = [] then ''git'' else s
      | _ \<Rightarrow> ''git'')"

definition with_provenance :: "ingest_env \<Rightarrow> repo_file \<Rightarrow> parsed_doc \<Rightarrow> parsed_doc" where
  "with_provenance env f doc =
     doc\<lparr>doc_metadata := apply_provenance (ie_authors env) (rf_metadata f) (rf_last_modified f) (rf_path f)
       (source_type_for f) (doc_metadata doc)\<rparr>"

definition enrich_chunk :: "ingest_env \<Rightarrow> repo_file \<Rightarrow> chunk \<Rightarrow> chunk" where
  "enrich_chunk env f c =
     c\<lparr>metadata := enrich_metadata (ie_set_order env) (ie_str env) (source_path c) (content c) (source_type_for f)
       (Some (chunk_doc_type c)) (metadata c)\<rparr>"

text \<open>The light graph: the ids of the document's entities and of those of the chunk's own metadata. A lane that fails adds
  none.\<close>

definition chunk_entities :: "light_lanes \<Rightarrow> string list \<Rightarrow> string \<Rightarrow> chunk \<Rightarrow> string list" where
  "chunk_entities l of_doc rn c =
     (case lg_metadata l (setdefault ''repo'' (JStr rn) (metadata c)) (chunk_id c) of Inl e \<Rightarrow> of_doc | Inr ids \<Rightarrow> ids @ of_doc)"

definition attach_entity_ids :: "ingest_env \<Rightarrow> parsed_doc \<Rightarrow> string \<Rightarrow> chunk list \<Rightarrow> chunk list" where
  "attach_entity_ids env doc rn cs =
     (case ie_light env of
        None \<Rightarrow> cs
      | Some l \<Rightarrow>
          (let of_doc = (case lg_structured l doc of Inl e \<Rightarrow> [] | Inr ids \<Rightarrow> ids)
           in map (\<lambda>c. let ids = chunk_entities l of_doc rn c in
                if ids = [] then c else c\<lparr>metadata := AList.update ''entity_ids'' (str_list (sort (remdups ids))) (metadata c)\<rparr>) cs))"

text \<open>The contextual step writes a text to embed and its token count, on the chunks that it gets to.\<close>

definition contextualise :: "ingest_env \<Rightarrow> parsed_doc \<Rightarrow> chunk list \<Rightarrow> chunk list" where
  "contextualise env doc cs =
     (case ie_contextual env of
        None \<Rightarrow> cs
      | Some context_for \<Rightarrow>
          map (\<lambda>(i, c). case context_for doc cs i of None \<Rightarrow> c | Some (s, n) \<Rightarrow> c\<lparr>embed_content := Some s, token_count := n\<rparr>)
            (enumerate 0 cs))"

text \<open>The chunks of a parsed document; \<open>None\<close> if the chunker makes none.\<close>

definition prepare_chunks :: "ingest_env \<Rightarrow> repo_file \<Rightarrow> parsed_doc \<Rightarrow> chunk list option result" where
  "prepare_chunks env f doc =
     (let doc' = with_provenance env f doc in
      case ie_chunker env doc' of
        Inl e \<Rightarrow> Inl e
      | Inr cs \<Rightarrow>
          Inr (if cs = [] then None
               else Some (contextualise env doc' (attach_entity_ids env doc' (rf_repo f) (map (enrich_chunk env f) cs)))))"

subsection \<open>Embedding and writing\<close>

definition searchable :: "chunk \<Rightarrow> bool" where
  "searchable c \<longleftrightarrow> chunk_type c \<noteq> ''parent''"

definition embed_text :: "chunk \<Rightarrow> string" where
  "embed_text c = (case embed_content c of Some s \<Rightarrow> if s = [] then content c else s | None \<Rightarrow> content c)"

text \<open>Embeddings are dealt out to the searchable chunks in order; too few of them raise.\<close>

fun pair_embeddings :: "chunk list \<Rightarrow> real list list \<Rightarrow> (chunk \<times> real list option) list option" where
  "pair_embeddings [] vs = Some []"
| "pair_embeddings (c # cs) vs =
     (if \<not> searchable c then map_option ((#) (c, None)) (pair_embeddings cs vs)
      else case vs of [] \<Rightarrow> None | v # vs' \<Rightarrow> map_option ((#) (c, Some v)) (pair_embeddings cs vs'))"

definition embed_chunks ::
  "(string list \<Rightarrow> real list list result) \<Rightarrow> chunk list \<Rightarrow> (chunk \<times> real list option) list result" where
  "embed_chunks embedder cs =
     (case embedder (map embed_text (filter searchable cs)) of
        Inl e \<Rightarrow> Inl e
      | Inr vs \<Rightarrow> (case pair_embeddings cs vs of None \<Rightarrow> Inl (Raised ''StopIteration'') | Some cvs \<Rightarrow> Inr cvs))"

definition upsert_batch :: nat where "upsert_batch = 256"

function batches :: "'a list \<Rightarrow> 'a list list" where
  "batches xs = (if xs = [] then [] else take upsert_batch xs # batches (drop upsert_batch xs))"
  by pat_completeness auto
termination by (relation "measure length") (auto simp: upsert_batch_def)

declare batches.simps [simp del]

text \<open>A batch that fails ends the loop and leaves the ones before it in the table.\<close>

fun put_batches ::
  "(chunk \<Rightarrow> string option) \<Rightarrow> (nat \<Rightarrow> py_error option) \<Rightarrow> nat \<Rightarrow> (chunk \<times> real list option) list list \<Rightarrow> points
    \<Rightarrow> points \<times> py_error option" where
  "put_batches prio fail i [] ps = (ps, None)"
| "put_batches prio fail i (b # bs) ps =
     (case fail i of Some e \<Rightarrow> (ps, Some e) | None \<Rightarrow> put_batches prio fail (i + 1) bs (upsert prio b ps))"

definition dual_write_code :: "ingest_env \<Rightarrow> file_world \<Rightarrow> repo_file \<Rightarrow> chunk list \<Rightarrow> points \<Rightarrow> points" where
  "dual_write_code env w f cs code =
     (let cc = filter (\<lambda>c. chunk_doc_type c \<in> set code_types) cs in
      if \<not> ie_code_lane env \<or> cc = [] then code
      else (let code1 = (if fw_code_delete_ok w then delete_by_filter (rf_repo f) (rf_path f) code else code) in
            case embed_chunks (fw_code_embed w) cc of
              Inl e \<Rightarrow> code1
            | Inr cvs \<Rightarrow> fst (put_batches (ie_priority env) (fw_code_upsert w) 0 (batches cvs) code1)))"

subsection \<open>One file\<close>

definition write_file ::
  "ingest_env \<Rightarrow> file_world \<Rightarrow> repo_file \<Rightarrow> chunk list \<Rightarrow> index_state \<Rightarrow> nat result \<times> index_state" where
  "write_file env w f cs st =
     (let ps1 = (if fw_delete_ok w then delete_by_filter (rf_repo f) (rf_path f) (ix_points st) else ix_points st);
          st1 = st\<lparr>ix_points := ps1\<rparr>
      in case embed_chunks (fw_embed w) cs of
           Inl e \<Rightarrow> (Inl e, st1)
         | Inr cvs \<Rightarrow>
             (case put_batches (ie_priority env) (fw_upsert w) 0 (batches cvs) ps1 of
                (ps2, Some e) \<Rightarrow> (Inl e, st1\<lparr>ix_points := ps2\<rparr>)
              | (ps2, None) \<Rightarrow>
                  (Inr (length cs),
                   st1\<lparr>ix_points := ps2, ix_code := dual_write_code env w f cs (ix_code st),
                      ix_files := (if fw_record_ok w
                        then record_file (file_key_of f) (file_hash env f) (length cs) (fw_now w) (ix_files st)
                        else ix_files st)\<rparr>)))"

definition skips :: "ingest_env \<Rightarrow> file_world \<Rightarrow> repo_file \<Rightarrow> index_state \<Rightarrow> bool" where
  "skips env w f st \<longleftrightarrow>
     fw_skip_ok w \<and> should_skip (ix_files st) (file_key_of f) (file_hash env f) \<and> fw_seen_ok w"

definition process_file :: "ingest_env \<Rightarrow> file_world \<Rightarrow> repo_file \<Rightarrow> index_state \<Rightarrow> nat result \<times> index_state" where
  "process_file env w f st =
     (case parser_for env f of
        None \<Rightarrow> (Inr 0, st)
      | Some parse \<Rightarrow>
          if skips env w f st
          then (Inr 0, st\<lparr>ix_files := mark_seen (rf_repo f) (rf_branch f) [rf_path f] (fw_now w) (ix_files st)\<rparr>)
          else (case parse f of
             Inl e \<Rightarrow> (Inr 0, st)
           | Inr doc \<Rightarrow>
               (case prepare_chunks env f doc of
                  Inl e \<Rightarrow> (Inl e, st)
                | Inr None \<Rightarrow> (Inr 0, st)
                | Inr (Some cs) \<Rightarrow> write_file env w f cs st)))"

subsection \<open>A run over a repository\<close>

record repo_run =
  rr_acquired :: bool
  rr_listing :: "string list result"
  rr_order :: "string list \<Rightarrow> string list"
  rr_fetch :: "string \<Rightarrow> repo_file result"
  rr_stream_error :: "py_error option"
  rr_world :: "string \<Rightarrow> file_world"
  rr_started :: real
  rr_sweep_query_ok :: bool
  rr_sweep_delete_ok :: "string \<Rightarrow> bool"
  rr_code_sweep_ok :: "string \<Rightarrow> bool"
  rr_listed_at :: real
  rr_done_at :: "real \<times> real \<times> real"

text \<open>\<open>get_files_batch\<close> of the two remote providers: a file whose download fails is left out of the stream.\<close>

definition get_files_batch :: "(string \<Rightarrow> repo_file result) \<Rightarrow> string list \<Rightarrow> repo_file list" where
  "get_files_batch fetch paths = List.map_filter (\<lambda>p. case fetch p of Inl e \<Rightarrow> None | Inr f \<Rightarrow> Some f) paths"

definition progress :: "string \<Rightarrow> string \<Rightarrow> nat \<Rightarrow> tracker \<Rightarrow> tracker" where
  "progress rn br n t = (if 0 < n then file_indexed t rn br (int n) 0 else file_skipped t rn br)"

definition process_one ::
  "ingest_env \<Rightarrow> file_world \<Rightarrow> string \<Rightarrow> string \<Rightarrow> repo_file \<Rightarrow> nat \<times> index_state \<Rightarrow> nat \<times> index_state" where
  "process_one env w rn br f acc =
     (case process_file env w f (snd acc) of
        (Inl e, st) \<Rightarrow> (fst acc, st\<lparr>ix_jobs := file_skipped (ix_jobs st) rn br\<rparr>)
      | (Inr n, st) \<Rightarrow> (fst acc + n, st\<lparr>ix_jobs := progress rn br n (ix_jobs st)\<rparr>))"

definition index_files ::
  "ingest_env \<Rightarrow> (string \<Rightarrow> file_world) \<Rightarrow> string \<Rightarrow> string \<Rightarrow> repo_file list \<Rightarrow> nat \<times> index_state \<Rightarrow> nat \<times> index_state" where
  "index_files env world rn br fs acc = fold (\<lambda>f. process_one env (world (rf_path f)) rn br f) fs acc"

definition sweep_deleted_files :: "ingest_env \<Rightarrow> repo_run \<Rightarrow> string \<Rightarrow> string \<Rightarrow> index_state \<Rightarrow> index_state" where
  "sweep_deleted_files env run rn br st =
     (if \<not> rr_sweep_query_ok run then st
      else (case sweep_deleted rn br (rr_started run) (ix_files st) of
        (stale, files) \<Rightarrow>
          st\<lparr>ix_files := files,
             ix_points := fold (delete_by_filter rn) (filter (rr_sweep_delete_ok run) stale) (ix_points st),
             ix_code := (if ie_code_lane env
               then fold (delete_by_filter rn) (filter (rr_code_sweep_ok run) stale) (ix_code st) else ix_code st)\<rparr>))"

definition index_repo_locked ::
  "ingest_env \<Rightarrow> repo_run \<Rightarrow> string \<Rightarrow> string \<Rightarrow> index_state \<Rightarrow> nat result \<times> index_state" where
  "index_repo_locked env run rn br st =
     (let st1 = st\<lparr>ix_jobs := start_listing (ensure_queued (ix_jobs st) rn br ''git'') rn br (rr_listed_at run)\<rparr> in
      case rr_listing run of
        Inl e \<Rightarrow> (Inl e, st1)
      | Inr listed \<Rightarrow>
          (let paths = filter (\<lambda>p. \<not> is_excluded p) listed;
               st2 = st1\<lparr>ix_jobs := start_indexing (ix_jobs st1) rn br (int (length paths))\<rparr>;
               (tot, st3) = index_files env (rr_world run) rn br (get_files_batch (rr_fetch run) (rr_order run paths)) (0, st2)
           in case rr_stream_error run of
                Some e \<Rightarrow> (Inl e, st3)
              | None \<Rightarrow>
                  (let st4 = sweep_deleted_files env run rn br st3; (d0, d1, d2) = rr_done_at run
                   in (Inr tot, st4\<lparr>ix_jobs := repo_done (ix_jobs st4) rn br d0 d1 d2\<rparr>))))"

definition index_repo :: "ingest_env \<Rightarrow> repo_run \<Rightarrow> string \<Rightarrow> string \<Rightarrow> index_state \<Rightarrow> nat result \<times> index_state" where
  "index_repo env run rn br st = (if rr_acquired run then index_repo_locked env run rn br st else (Inr 0, st))"

subsection \<open>Sources and webhooks\<close>

definition derive_display_name :: "string \<Rightarrow> obj \<Rightarrow> (json \<Rightarrow> string) \<Rightarrow> string option" where
  "derive_display_name source_type m other =
     (let ch = dget JNull ''channel_name'' m in
      if source_type = ''slack'' \<and> truthy ch then Some (''slack:#'' @ json_str other ch)
      else if source_type = ''rootly'' then Some ''rootly:incidents'' else None)"

record source_run =
  sr_refs :: "string list result"
  sr_fetch :: "string \<Rightarrow> repo_file result"
  sr_order :: "string list \<Rightarrow> string list"
  sr_world :: "string \<Rightarrow> file_world"
  sr_listed_at :: real
  sr_done_at :: "real \<times> real \<times> real"

text \<open>One document: the display name is set from the first one that is fetched.\<close>

definition process_document ::
  "ingest_env \<Rightarrow> source_run \<Rightarrow> string \<Rightarrow> string \<Rightarrow> string \<Rightarrow> bool \<times> nat \<times> index_state \<Rightarrow> bool \<times> nat \<times> index_state" where
  "process_document env run source_type key ref acc =
     (case acc of (named, tot, st) \<Rightarrow>
        case sr_fetch run ref of
          Inl e \<Rightarrow> (named, tot, st\<lparr>ix_jobs := file_skipped (ix_jobs st) key source_type\<rparr>)
        | Inr doc \<Rightarrow>
            (let st1 = (case (if named then None else derive_display_name source_type (rf_metadata doc) (ie_str env)) of
                 None \<Rightarrow> st
               | Some label \<Rightarrow> st\<lparr>ix_jobs := set_display_name (ix_jobs st) key source_type label\<rparr>)
             in (True, process_one env (sr_world run ref) key source_type doc (tot, st1))))"

definition index_source ::
  "ingest_env \<Rightarrow> string list \<Rightarrow> source_run \<Rightarrow> string \<Rightarrow> string \<Rightarrow> index_state \<Rightarrow> nat result \<times> index_state" where
  "index_source env registered run source_type scope st =
     (if source_type \<notin> set registered
      then (Inl (ValueError (''no source provider registered for source_type='' @ source_type)), st)
      else (let key = source_type @ '':'' @ scope;
                st1 = st\<lparr>ix_jobs := start_listing (ensure_queued (ix_jobs st) key source_type source_type) key source_type
                  (sr_listed_at run)\<rparr>
            in case sr_refs run of
                 Inl e \<Rightarrow> (Inl e, st1)
               | Inr refs \<Rightarrow>
                   (let st2 = st1\<lparr>ix_jobs := start_indexing (ix_jobs st1) key source_type (int (length refs))\<rparr>;
                        (named, tot, st3) = fold (process_document env run source_type key) (sr_order run refs) (False, 0, st2);
                        (d0, d1, d2) = sr_done_at run
                    in (Inr tot, st3\<lparr>ix_jobs := repo_done (ix_jobs st3) key source_type d0 d1 d2\<rparr>))))"

record webhook_event =
  wh_repo :: string
  wh_branch :: string
  wh_changed_files :: "string list"

text \<open>The delete of the webhook is not guarded: if it raises, the handler does.\<close>

fun webhook_files ::
  "ingest_env \<Rightarrow> (string \<Rightarrow> repo_file result) \<Rightarrow> (string \<Rightarrow> file_world) \<Rightarrow> string \<Rightarrow> string list \<Rightarrow> nat \<Rightarrow> index_state
    \<Rightarrow> nat result \<times> index_state" where
  "webhook_files env fetch world rn [] tot st = (Inr tot, st)"
| "webhook_files env fetch world rn (p # ps) tot st =
     (case fetch p of
        Inl e \<Rightarrow> webhook_files env fetch world rn ps tot st
      | Inr f \<Rightarrow>
          if \<not> fw_delete_ok (world p) then (Inl (Raised ''delete_by_filter''), st)
          else (case process_file env (world p) f (st\<lparr>ix_points := delete_by_filter rn p (ix_points st)\<rparr>) of
                  (Inl e, st1) \<Rightarrow> (Inl e, st1)
                | (Inr n, st1) \<Rightarrow> webhook_files env fetch world rn ps (tot + n) st1))"

definition handle_webhook ::
  "ingest_env \<Rightarrow> (string \<Rightarrow> repo_file result) \<Rightarrow> (string \<Rightarrow> file_world) \<Rightarrow> webhook_event \<Rightarrow> index_state
    \<Rightarrow> nat result \<times> index_state" where
  "handle_webhook env fetch world ev st = webhook_files env fetch world (wh_repo ev) (wh_changed_files ev) 0 st"

end
