(* ===== verification/Ingest_Facts.thy ===== *)
theory Ingest_Facts
  imports Ingest
begin

text \<open>
  What indexing guarantees: after a completed run the chunk table holds, for each file of the repository, the chunks
  of a version with the bytes that were fetched, and nothing for any other file; and the table of indexed files says
  so. The failures that break the correspondence are stated beside it.
\<close>

subsection \<open>Chunks do not depend on embeddings\<close>

definition bare :: "points \<Rightarrow> (string \<times> chunk) list" where
  "bare ps = map (\<lambda>(i, pt). (i, pt_chunk pt)) ps"

definition put_bare :: "chunk \<Rightarrow> (string \<times> chunk) list \<Rightarrow> (string \<times> chunk) list" where
  "put_bare c xs = AList.update (chunk_id c) (case map_of xs (chunk_id c) of
     None \<Rightarrow> c\<lparr>embed_content := None\<rparr>
   | Some old \<Rightarrow> old\<lparr>content := content c, chunk_doc_type := chunk_doc_type c, metadata := metadata c\<rparr>) xs"

lemma bare_update: "bare (AList.update i pt ps) = AList.update i (pt_chunk pt) (bare ps)"
  by (induction ps) (auto simp: bare_def)

lemma map_of_bare: "map_of (bare ps) i = map_option pt_chunk (map_of ps i)"
  by (induction ps) (auto simp: bare_def)

lemma bare_put: "bare (put_point prio cv ps) = put_bare (fst cv) (bare ps)"
  by (cases cv) (simp add: put_point_def put_bare_def Let_def bare_update map_of_bare split: option.splits)

lemma bare_upsert: "bare (upsert prio cvs ps) = fold put_bare (map fst cvs) (bare ps)"
  unfolding upsert_def by (induction cvs arbitrary: ps) (simp_all add: bare_put)

lemma chunks_at_bare:
  "chunks_at ps r p = map snd (filter (\<lambda>(i, c). repo c = r \<and> source_path c = p) (bare ps))"
  by (simp add: chunks_at_def bare_def at_file_def [abs_def] filter_map comp_def split_def)

lemma chunks_at_upsert_cong:
  "map fst cvs = map fst cvs' \<Longrightarrow> chunks_at (upsert prio cvs ps) r p = chunks_at (upsert prio cvs' ps) r p"
  by (simp add: chunks_at_bare bare_upsert)

subsection \<open>Writing\<close>

lemma pair_embeddings_fst: "pair_embeddings cs vs = Some cvs \<Longrightarrow> map fst cvs = cs"
  by (induction cs vs arbitrary: cvs rule: pair_embeddings.induct) (auto split: if_splits list.splits)

lemma embed_chunks_fst: "embed_chunks embedder cs = Inr cvs \<Longrightarrow> map fst cvs = cs"
  by (auto simp: embed_chunks_def split: sum.splits option.splits dest: pair_embeddings_fst)

lemma upsert_append: "upsert prio (a @ b) ps = upsert prio b (upsert prio a ps)"
  by (simp add: upsert_def)

lemma concat_batches: "concat (batches xs) = xs"
proof (induction xs rule: batches.induct)
  case (1 xs)
  then show ?case by (subst batches.simps) simp
qed

definition atomic_upsert :: "(nat \<Rightarrow> py_error option) \<Rightarrow> bool" where
  "atomic_upsert fail \<longleftrightarrow> fail 0 = None \<longrightarrow> (\<forall>i. fail i = None)"

lemma put_batches_ok: "(\<And>i. fail i = None) \<Longrightarrow> put_batches prio fail n bs ps = (upsert prio (concat bs) ps, None)"
  by (induction bs arbitrary: n ps) (simp_all add: upsert_append, simp add: upsert_def)

lemma put_batches_cases:
  assumes "atomic_upsert fail" "put_batches prio fail 0 (batches cvs) ps = (ps', err)"
  shows "err = None \<and> ps' = upsert prio cvs ps \<or> err \<noteq> None \<and> ps' = ps"
proof (cases "fail 0")
  case None
  then show ?thesis using assms put_batches_ok [of fail prio 0 "batches cvs" ps]
    by (simp add: atomic_upsert_def concat_batches)
next
  case (Some e)
  then show ?thesis using assms(2) concat_batches [of cvs]
    by (cases "batches cvs") (auto simp: upsert_def)
qed

definition produced :: "ingest_env \<Rightarrow> repo_file \<Rightarrow> chunk list" where
  "produced env f =
     (case parser_for env f of
        None \<Rightarrow> []
      | Some parse \<Rightarrow> (case parse f of
          Inl e \<Rightarrow> []
        | Inr doc \<Rightarrow> (case prepare_chunks env f doc of Inr (Some cs) \<Rightarrow> cs | _ \<Rightarrow> [])))"

text \<open>What an empty table holds after the file's chunks were written to it.\<close>

definition file_chunks :: "ingest_env \<Rightarrow> repo_file \<Rightarrow> chunk list" where
  "file_chunks env f =
     chunks_at (upsert (ie_priority env) (map (\<lambda>c. (c, None)) (produced env f)) []) (rf_repo f) (rf_path f)"

text \<open>The ids of a file's chunks tell it apart, and its chunks carry its labels.\<close>

definition ids_owned :: "ingest_env \<Rightarrow> (string \<Rightarrow> string \<times> string) \<Rightarrow> repo_file \<Rightarrow> bool" where
  "ids_owned env owner f \<longleftrightarrow> (\<forall>c \<in> set (produced env f).
     owner (chunk_id c) = (rf_repo f, rf_path f) \<and> repo c = rf_repo f \<and> source_path c = rf_path f)"

text \<open>The faults that the correspondence survives: anything but a failing delete or record and a batch that fails
  after another one was written.\<close>

definition faults_contained :: "file_world \<Rightarrow> bool" where
  "faults_contained w \<longleftrightarrow> fw_delete_ok w \<and> fw_record_ok w \<and> atomic_upsert (fw_upsert w)"

definition indexable :: "ingest_env \<Rightarrow> file_world \<Rightarrow> repo_file \<Rightarrow> bool" where
  "indexable env w f \<longleftrightarrow>
     produced env f \<noteq> [] \<and> is_ok (embed_chunks (fw_embed w) (produced env f)) \<and> fw_upsert w 0 = None"

lemma write_file_cases:
  assumes "ids_owned env owner f" "points_owned owner (ix_points st)" "faults_contained w" "cs = produced env f"
  obtains (written) st' where "write_file env w f cs st = (Inr (length cs), st')"
      "ix_files st' = record_file (file_key_of f) (file_hash env f) (length cs) (fw_now w) (ix_files st)"
      "\<And>r p. chunks_at (ix_points st') r p =
        (if r = rf_repo f \<and> p = rf_path f then file_chunks env f else chunks_at (ix_points st) r p)"
      "points_owned owner (ix_points st')" "ix_jobs st' = ix_jobs st"
    | (lost) e st' where "write_file env w f cs st = (Inl e, st')" "ix_files st' = ix_files st"
      "\<And>r p. chunks_at (ix_points st') r p =
        (if r = rf_repo f \<and> p = rf_path f then [] else chunks_at (ix_points st) r p)"
      "points_owned owner (ix_points st')" "ix_jobs st' = ix_jobs st"
      "\<not> (is_ok (embed_chunks (fw_embed w) cs) \<and> fw_upsert w 0 = None)"
proof -
  define ps1 where "ps1 = delete_by_filter (rf_repo f) (rf_path f) (ix_points st)"
  have del: "fw_delete_ok w" "fw_record_ok w" "atomic_upsert (fw_upsert w)"
    using assms(3) by (simp_all add: faults_contained_def)
  have ps1: "points_owned owner ps1" "\<And>r p. chunks_at ps1 r p =
      (if r = rf_repo f \<and> p = rf_path f then [] else chunks_at (ix_points st) r p)"
    using assms(2) by (simp_all add: ps1_def delete_owned chunks_at_delete)
  show ?thesis
  proof (cases "embed_chunks (fw_embed w) cs")
    case (Inl e)
    then show ?thesis
      by (intro lost [of e "st\<lparr>ix_points := ps1\<rparr>"]) (use ps1 del in \<open>auto simp: write_file_def Let_def ps1_def\<close>)
  next
    case (Inr cvs)
    have own: "owner (chunk_id (fst b)) = (rf_repo f, rf_path f) \<and> repo (fst b) = rf_repo f \<and> source_path (fst b) = rf_path f"
      if "b \<in> set cvs" for b
    proof -
      have "fst b \<in> set cs" using that embed_chunks_fst [OF Inr] by force
      then show ?thesis using assms(1,4) by (auto simp: ids_owned_def)
    qed
    obtain ps2 err where pb: "put_batches (ie_priority env) (fw_upsert w) 0 (batches cvs) ps1 = (ps2, err)" by fastforce
    show ?thesis
    proof (cases err)
      case (Some e)
      then have "ps2 = ps1" "fw_upsert w 0 \<noteq> None"
        using put_batches_cases [OF del(3) pb] pb del(3) put_batches_ok [of "fw_upsert w" "ie_priority env" 0 "batches cvs" ps1]
        by (auto simp: atomic_upsert_def)
      with Some Inr pb show ?thesis
        by (intro lost [of e "st\<lparr>ix_points := ps1\<rparr>"]) (use ps1 del in \<open>auto simp: write_file_def Let_def ps1_def\<close>)
    next
      case None
      then have ps2: "ps2 = upsert (ie_priority env) cvs ps1" using put_batches_cases [OF del(3) pb] by simp
      have "chunks_at (upsert (ie_priority env) cvs []) (rf_repo f) (rf_path f) = file_chunks env f"
        unfolding file_chunks_def
        by (rule chunks_at_upsert_cong) (use embed_chunks_fst [OF Inr] assms(4) in \<open>simp add: comp_def\<close>)
      then have look: "chunks_at ps2 r p =
          (if r = rf_repo f \<and> p = rf_path f then file_chunks env f else chunks_at (ix_points st) r p)" for r p
        unfolding ps2 ps1_def using pg.replace_file(1) [OF assms(2) own] by simp
      have o2: "points_owned owner ps2"
        unfolding ps2 ps1_def using pg.replace_file(2) [OF assms(2) own] by simp
      show ?thesis
        by (rule written [of "st\<lparr>ix_points := ps2, ix_code := dual_write_code env w f cs (ix_code st),
            ix_files := record_file (file_key_of f) (file_hash env f) (length cs) (fw_now w) (ix_files st)\<rparr>"])
          (use Inr pb None del look o2 in \<open>auto simp: write_file_def Let_def ps1_def\<close>)
    qed
  qed
qed

subsection \<open>One file\<close>

abbreviation row_of :: "index_state \<Rightarrow> file_key \<Rightarrow> file_row option" where
  "row_of st key \<equiv> map_of (ft_rows (ix_files st)) key"

abbreviation look :: "index_state \<Rightarrow> string \<Rightarrow> string \<Rightarrow> chunk list" where
  "look st r p \<equiv> chunks_at (ix_points st) r p"

text \<open>The tables are well formed.\<close>

definition tables_ok :: "(string \<Rightarrow> string \<times> string) \<Rightarrow> index_state \<Rightarrow> bool" where
  "tables_ok owner st \<longleftrightarrow> ft_ready (ix_files st) \<and> dict_ok (ft_rows (ix_files st)) \<and> points_owned owner (ix_points st)"

text \<open>The file \<open>f\<close> is in the index: its chunks are those of a version with the same hash.\<close>

definition indexed_as :: "ingest_env \<Rightarrow> index_state \<Rightarrow> repo_file \<Rightarrow> bool" where
  "indexed_as env st f \<longleftrightarrow> (\<exists>f0. rf_repo f0 = rf_repo f \<and> rf_path f0 = rf_path f \<and> file_hash env f0 = file_hash env f
     \<and> look st (rf_repo f) (rf_path f) = file_chunks env f0)"

text \<open>The tables agree on a path: no row and no chunks, or a row with the hash of what the chunks come from.\<close>

definition path_ok :: "ingest_env \<Rightarrow> index_state \<Rightarrow> string \<Rightarrow> string \<Rightarrow> string \<Rightarrow> bool" where
  "path_ok env st r b p \<longleftrightarrow>
     (case row_of st (r, b, p) of
        None \<Rightarrow> look st r p = []
      | Some row \<Rightarrow> \<exists>f. rf_repo f = r \<and> rf_path f = p \<and> file_hash env f = fr_hash row \<and> look st r p = file_chunks env f)"

text \<open>What one step leaves alone.\<close>

definition only_at :: "repo_file \<Rightarrow> index_state \<Rightarrow> index_state \<Rightarrow> bool" where
  "only_at f st st' \<longleftrightarrow> (\<forall>key. key \<noteq> file_key_of f \<longrightarrow> row_of st' key = row_of st key)
     \<and> (\<forall>r p. (r, p) \<noteq> (rf_repo f, rf_path f) \<longrightarrow> look st' r p = look st r p)"

lemma process_file_cases:
  assumes "ids_owned env owner f" "tables_ok owner st" "faults_contained w"
  obtains (untouched) res where "process_file env w f st = (res, st)" "\<not> indexable env w f \<or> skips env w f st"
      "\<not> skips env w f st \<or> parser_for env f = None"
    | (seen) st' where "process_file env w f st = (Inr 0, st')" "skips env w f st" "parser_for env f \<noteq> None"
      "ix_files st' = mark_seen (rf_repo f) (rf_branch f) [rf_path f] (fw_now w) (ix_files st)"
      "ix_points st' = ix_points st" "ix_jobs st' = ix_jobs st"
    | (written) n st' where "process_file env w f st = (Inr n, st')"
      "ix_files st' = record_file (file_key_of f) (file_hash env f) n (fw_now w) (ix_files st)"
      "\<And>r p. look st' r p = (if r = rf_repo f \<and> p = rf_path f then file_chunks env f else look st r p)"
      "points_owned owner (ix_points st')" "ix_jobs st' = ix_jobs st"
    | (lost) e st' where "process_file env w f st = (Inl e, st')" "ix_files st' = ix_files st" "\<not> indexable env w f"
      "\<And>r p. look st' r p = (if r = rf_repo f \<and> p = rf_path f then [] else look st r p)"
      "points_owned owner (ix_points st')" "ix_jobs st' = ix_jobs st"
proof (cases "parser_for env f")
  case None
  then show ?thesis by (intro untouched) (auto simp: process_file_def indexable_def produced_def)
next
  case (Some parse)
  show ?thesis
  proof (cases "skips env w f st")
    case True
    show ?thesis
      by (rule seen [of "st\<lparr>ix_files := mark_seen (rf_repo f) (rf_branch f) [rf_path f] (fw_now w) (ix_files st)\<rparr>"])
        (use True Some in \<open>auto simp: process_file_def\<close>)
  next
    case noskip: False
    show ?thesis
    proof (cases "\<exists>doc cs. parse f = Inr doc \<and> prepare_chunks env f doc = Inr (Some cs)")
      case False
      then have "produced env f = []"
        using Some by (auto simp: produced_def split: sum.splits option.splits)
      moreover have "snd (process_file env w f st) = st"
        using False Some noskip by (auto simp: process_file_def split: sum.splits option.splits)
      ultimately show ?thesis using noskip
        by (intro untouched [of "fst (process_file env w f st)"]) (auto simp: indexable_def prod_eq_iff)
    next
      case True
      then obtain doc cs where d: "parse f = Inr doc" "prepare_chunks env f doc = Inr (Some cs)" by blast
      then have cs: "cs = produced env f" using Some by (simp add: produced_def)
      have pf: "process_file env w f st = write_file env w f cs st" using Some noskip d by (simp add: process_file_def)
      have o: "points_owned owner (ix_points st)" using assms(2) by (simp add: tables_ok_def)
      show ?thesis
      proof (cases rule: write_file_cases [OF assms(1) o assms(3) cs])
        case (1 st')
        show ?thesis by (rule written [of "length cs" st']) (use 1 pf in auto)
      next
        case (2 e st')
        show ?thesis by (rule lost [of e st']) (use 2 pf cs in \<open>auto simp: indexable_def\<close>)
      qed
    qed
  qed
qed


lemma only_atI:
  "(\<And>key. key \<noteq> file_key_of f \<Longrightarrow> row_of st' key = row_of st key)
   \<Longrightarrow> (\<And>r p. look st' r p = (if r = rf_repo f \<and> p = rf_path f then cs else look st r p)) \<Longrightarrow> only_at f st st'"
  by (auto simp: only_at_def)

lemma process_file_only:
  assumes "ids_owned env owner f" "tables_ok owner st" "faults_contained w"
  shows "only_at f st (snd (process_file env w f st)) \<and> tables_ok owner (snd (process_file env w f st))"
proof (cases rule: process_file_cases [OF assms, case_names untouched seen written lost])
  case (seen st')
  then show ?thesis using assms(2)
    by (auto simp: only_at_def tables_ok_def row_mark_seen file_key_of_def keys_kept)
next
  case (written n st')
  then have "only_at f st st'" by (intro only_atI [of f st' st "file_chunks env f"]) (simp_all add: row_record_file)
  with written assms(2) show ?thesis by (simp add: tables_ok_def keys_kept)
next
  case (lost e st')
  then have "only_at f st st'" by (intro only_atI [of f st' st "[]"]) simp_all
  with lost assms(2) show ?thesis by (simp add: tables_ok_def)
qed (use assms(2) in \<open>auto simp: only_at_def\<close>)

text \<open>How a file ends up: absent, with a row from before the run, or indexed with a row of this run.\<close>

definition settled :: "ingest_env \<Rightarrow> real \<Rightarrow> index_state \<Rightarrow> repo_file \<Rightarrow> bool" where
  "settled env t0 st f \<longleftrightarrow>
     (case row_of st (file_key_of f) of
        None \<Rightarrow> look st (rf_repo f) (rf_path f) = []
      | Some row \<Rightarrow> fr_last_seen row < t0 \<or> (fr_hash row = file_hash env f \<and> indexed_as env st f))"

definition fresh :: "real \<Rightarrow> index_state \<Rightarrow> file_key \<Rightarrow> bool" where
  "fresh t0 st key \<longleftrightarrow> (\<exists>row. row_of st key = Some row \<and> t0 \<le> fr_last_seen row)"

lemma process_file_settles:
  assumes "ids_owned env owner f" "tables_ok owner st" "faults_contained w"
    and "path_ok env st (rf_repo f) (rf_branch f) (rf_path f)"
    and "\<And>row. row_of st (file_key_of f) = Some row \<Longrightarrow> fr_last_seen row < t0" and "t0 \<le> fw_now w"
  shows "settled env t0 (snd (process_file env w f st)) f
    \<and> (indexable env w f \<longrightarrow> fresh t0 (snd (process_file env w f st)) (file_key_of f))"
proof (cases rule: process_file_cases [OF assms(1-3), case_names untouched seen written lost])
  case (untouched res)
  have "skips env w f st \<Longrightarrow> \<not> indexable env w f"
    using untouched(3) by (auto simp: indexable_def produced_def)
  then show ?thesis using untouched assms(4,5)
    by (auto simp: settled_def path_ok_def file_key_of_def split: option.splits)
next
  case (seen st')
  then obtain row where row: "row_of st (file_key_of f) = Some row" "fr_hash row = file_hash env f"
    by (auto simp: skips_def should_skip_def split: option.splits)
  have ready: "ft_ready (ix_files st)" using assms(2) by (simp add: tables_ok_def)
  have "row_of st' (file_key_of f) = Some (row\<lparr>fr_last_seen := fw_now w\<rparr>)"
    using seen row ready by (simp add: row_mark_seen file_key_of_def)
  moreover have "indexed_as env st' f"
    using assms(4) row seen by (auto simp: path_ok_def indexed_as_def file_key_of_def)
  ultimately show ?thesis using seen row assms(6) by (auto simp: settled_def fresh_def)
next
  case (written n st')
  have ready: "ft_ready (ix_files st)" using assms(2) by (simp add: tables_ok_def)
  have "row_of st' (file_key_of f) = Some \<lparr>fr_hash = file_hash env f, fr_chunk_count = n, fr_last_seen = fw_now w\<rparr>"
    using written ready by (simp add: row_record_file)
  moreover have "indexed_as env st' f" using written by (auto simp: indexed_as_def)
  ultimately show ?thesis using written assms(6) by (auto simp: settled_def fresh_def)
next
  case (lost e st')
  then show ?thesis using assms(5) by (auto simp: settled_def split: option.splits)
qed

subsection \<open>All files of a run\<close>

lemma jobs_irrelevant [simp]:
  "tables_ok owner (st\<lparr>ix_jobs := j\<rparr>) = tables_ok owner st"
  "settled env t0 (st\<lparr>ix_jobs := j\<rparr>) f = settled env t0 st f"
  "fresh t0 (st\<lparr>ix_jobs := j\<rparr>) key = fresh t0 st key"
  "path_ok env (st\<lparr>ix_jobs := j\<rparr>) r b p = path_ok env st r b p"
  "only_at f st (st'\<lparr>ix_jobs := j\<rparr>) = only_at f st st'"
  "indexed_as env (st\<lparr>ix_jobs := j\<rparr>) f = indexed_as env st f"
  by (simp_all add: tables_ok_def settled_def fresh_def path_ok_def only_at_def indexed_as_def cong: option.case_cong)

lemma process_one_state:
  "\<exists>j. snd (process_one env w rn br f acc) = (snd (process_file env w f (snd acc)))\<lparr>ix_jobs := j\<rparr>"
  by (cases "process_file env w f (snd acc)"; cases "fst (process_file env w f (snd acc))")
    (auto simp: process_one_def)

lemma settled_cong:
  "row_of st' (file_key_of f) = row_of st (file_key_of f) \<Longrightarrow> look st' (rf_repo f) (rf_path f) = look st (rf_repo f) (rf_path f)
   \<Longrightarrow> settled env t0 st' f = settled env t0 st f"
  by (simp add: settled_def indexed_as_def cong: option.case_cong)

text \<open>A list of files of one branch, each on a path of its own, where the tables agree and the rows are old.\<close>

definition pending_files :: "ingest_env \<Rightarrow> real \<Rightarrow> string \<Rightarrow> string \<Rightarrow> index_state \<Rightarrow> repo_file list \<Rightarrow> bool" where
  "pending_files env t0 rn br st fs \<longleftrightarrow> distinct (map rf_path fs) \<and> (\<forall>f \<in> set fs. rf_repo f = rn \<and> rf_branch f = br
     \<and> path_ok env st rn br (rf_path f) \<and> (\<forall>row. row_of st (rn, br, rf_path f) = Some row \<longrightarrow> fr_last_seen row < t0))"

definition other_path :: "repo_file list \<Rightarrow> string \<Rightarrow> bool" where
  "other_path fs p \<longleftrightarrow> (\<forall>f \<in> set fs. rf_path f \<noteq> p)"

lemma pending_distinct:
  assumes "pending_files env t0 rn br st (f # fs)" "g \<in> set fs"
  shows "rf_path g \<noteq> rf_path f"
proof -
  have "rf_path f \<notin> rf_path ` set fs" using assms(1) by (simp add: pending_files_def)
  then show ?thesis using assms(2) by (metis imageI)
qed

lemma pending_rest:
  assumes "pending_files env t0 rn br st (f # fs)" "only_at f st st'"
  shows "pending_files env t0 rn br st' fs"
proof -
  have "row_of st' (rn, br, rf_path g) = row_of st (rn, br, rf_path g) \<and> look st' rn (rf_path g) = look st rn (rf_path g)"
    if "g \<in> set fs" for g
  proof -
    have "rf_path g \<noteq> rf_path f" by (rule pending_distinct [OF assms(1) that])
    then show ?thesis using assms by (simp add: only_at_def file_key_of_def pending_files_def)
  qed
  then show ?thesis using assms(1) by (simp add: pending_files_def path_ok_def cong: option.case_cong)
qed

lemma index_files_settles:
  assumes "list_all (ids_owned env owner) fs" "\<And>p. faults_contained (world p) \<and> t0 \<le> fw_now (world p)"
    and "tables_ok owner (snd acc)" "pending_files env t0 rn br (snd acc) fs"
  shows "tables_ok owner (snd (index_files env world rn br fs acc))
    \<and> (\<forall>b p. other_path fs p \<or> b \<noteq> br \<longrightarrow> row_of (snd (index_files env world rn br fs acc)) (rn, b, p) = row_of (snd acc) (rn, b, p))
    \<and> (\<forall>p. other_path fs p \<longrightarrow> look (snd (index_files env world rn br fs acc)) rn p = look (snd acc) rn p)
    \<and> (\<forall>f \<in> set fs. settled env t0 (snd (index_files env world rn br fs acc)) f
        \<and> (indexable env (world (rf_path f)) f \<longrightarrow> fresh t0 (snd (index_files env world rn br fs acc)) (file_key_of f)))"
  using assms(1,3,4)
proof (induction fs arbitrary: acc)
  case Nil
  then show ?case by (simp add: index_files_def)
next
  case (Cons f fs)
  define acc1 where "acc1 = process_one env (world (rf_path f)) rn br f acc"
  define fin where "fin = snd (index_files env world rn br fs acc1)"
  have fin: "snd (index_files env world rn br (f # fs) acc) = fin" by (simp add: index_files_def fin_def acc1_def)
  have f: "rf_repo f = rn" "rf_branch f = br" "path_ok env (snd acc) (rf_repo f) (rf_branch f) (rf_path f)"
    "\<And>row. row_of (snd acc) (file_key_of f) = Some row \<Longrightarrow> fr_last_seen row < t0" "other_path fs (rf_path f)"
    using Cons.prems(3) pending_distinct [OF Cons.prems(3)] by (auto simp: pending_files_def file_key_of_def other_path_def)
  have own: "ids_owned env owner f" "list_all (ids_owned env owner) fs" using Cons.prems(1) by simp_all
  have w: "faults_contained (world (rf_path f))" "t0 \<le> fw_now (world (rf_path f))" using assms(2) by simp_all
  obtain j where j: "snd acc1 = (snd (process_file env (world (rf_path f)) f (snd acc)))\<lparr>ix_jobs := j\<rparr>"
    using process_one_state unfolding acc1_def by blast
  have only: "only_at f (snd acc) (snd acc1)" and ok: "tables_ok owner (snd acc1)"
    using process_file_only [OF own(1) Cons.prems(2) w(1)] by (simp_all add: j)
  have st: "settled env t0 (snd acc1) f" "indexable env (world (rf_path f)) f \<Longrightarrow> fresh t0 (snd acc1) (file_key_of f)"
    using process_file_settles [OF own(1) Cons.prems(2) w(1) f(3,4) w(2)] by (simp_all add: j)
  note ih = Cons.IH [OF own(2) ok pending_rest [OF Cons.prems(3) only], folded fin_def]
  have here: "row_of fin (file_key_of f) = row_of (snd acc1) (file_key_of f)"
    "look fin (rf_repo f) (rf_path f) = look (snd acc1) (rf_repo f) (rf_path f)"
    using ih f by (simp_all add: file_key_of_def)
  have "settled env t0 fin f" using st(1) settled_cong [OF here] by simp
  moreover have "indexable env (world (rf_path f)) f \<longrightarrow> fresh t0 fin (file_key_of f)"
    using st(2) here(1) by (simp add: fresh_def)
  moreover have "row_of fin (rn, b, p) = row_of (snd acc) (rn, b, p)" if "other_path (f # fs) p \<or> b \<noteq> br" for b p
  proof -
    have "(rn, b, p) \<noteq> file_key_of f" "other_path fs p \<or> b \<noteq> br"
      using that f(1,2) by (auto simp: file_key_of_def other_path_def)
    then show ?thesis using ih only by (auto simp: only_at_def)
  qed
  moreover have "look fin rn p = look (snd acc) rn p" if "other_path (f # fs) p" for p
    using that ih only f(1) by (auto simp: only_at_def other_path_def)
  ultimately show ?case unfolding fin using ih by auto
qed

subsection \<open>The index after a run\<close>

text \<open>The tables agree on every path of a repository that is indexed from one branch.\<close>

definition index_ok :: "ingest_env \<Rightarrow> (string \<Rightarrow> string \<times> string) \<Rightarrow> string \<Rightarrow> string \<Rightarrow> index_state \<Rightarrow> bool" where
  "index_ok env owner rn br st \<longleftrightarrow> tables_ok owner st
     \<and> (\<forall>b p. row_of st (rn, b, p) \<noteq> None \<longrightarrow> b = br) \<and> (\<forall>p. path_ok env st rn br p)"

text \<open>A run that gets the lock, is not broken off, and whose faults are contained: files arrive in any order and any
  download, tracker read, embedding or first batch may fail. Its clock is later than the runs before.\<close>

definition run_ok :: "repo_run \<Rightarrow> string \<Rightarrow> string \<Rightarrow> index_state \<Rightarrow> bool" where
  "run_ok run rn br st \<longleftrightarrow> rr_acquired run \<and> rr_stream_error run = None
     \<and> (\<forall>ps. mset (rr_order run ps) = mset ps)
     \<and> (\<forall>p f. rr_fetch run p = Inr f \<longrightarrow> rf_path f = p \<and> rf_repo f = rn \<and> rf_branch f = br)
     \<and> (\<forall>p. faults_contained (rr_world run p) \<and> rr_started run \<le> fw_now (rr_world run p))
     \<and> (\<forall>b p row. row_of st (rn, b, p) = Some row \<longrightarrow> fr_last_seen row < rr_started run)
     \<and> rr_sweep_query_ok run \<and> (\<forall>p. rr_sweep_delete_ok run p)"

text \<open>The file that a run gets for a path.\<close>

definition streamed :: "repo_run \<Rightarrow> string list \<Rightarrow> string \<Rightarrow> repo_file option" where
  "streamed run listed p =
     (if p \<in> set listed \<and> \<not> is_excluded p
      then (case rr_fetch run p of Inl e \<Rightarrow> None | Inr f \<Rightarrow> Some f) else None)"

lemma set_get_files:
  "set (get_files_batch fetch ps) = {f. \<exists>p \<in> set ps. fetch p = Inr f}"
  by (force simp: get_files_batch_def map_filter_def image_iff split: sum.splits)

lemma distinct_get_files:
  assumes "distinct ps" "\<And>p f. fetch p = Inr f \<Longrightarrow> rf_path f = p"
  shows "distinct (map rf_path (get_files_batch fetch ps))"
proof -
  have "set (map rf_path (get_files_batch fetch ps)) \<subseteq> set ps" for ps
    using assms(2) by (auto simp: set_get_files)
  then show ?thesis using assms
  proof (induction ps)
    case (Cons p ps)
    then show ?case by (auto simp: get_files_batch_def map_filter_simps split: sum.splits)
  qed (simp add: get_files_batch_def map_filter_simps)
qed

text \<open>The sweep drops the rows that the run did not see, with their chunks.\<close>

lemma sweep_facts:
  assumes "tables_ok owner st" "rr_sweep_query_ok run" "\<And>p. rr_sweep_delete_ok run p"
    and "st' = sweep_deleted_files env run rn br st"
  shows "tables_ok owner st'"
    and "row_of st' (rn, b, p) = (case row_of st (rn, b, p) of None \<Rightarrow> None
      | Some row \<Rightarrow> if b = br \<and> fr_last_seen row < rr_started run then None else Some row)"
    and "look st' rn p = (case row_of st (rn, br, p) of None \<Rightarrow> look st rn p
      | Some row \<Rightarrow> if fr_last_seen row < rr_started run then [] else look st rn p)"
proof -
  obtain stale files where sw: "sweep_deleted rn br (rr_started run) (ix_files st) = (stale, files)" by fastforce
  have d: "dict_ok (ft_rows (ix_files st))" "ft_ready (ix_files st)" "points_owned owner (ix_points st)"
    using assms(1) by (simp_all add: tables_ok_def)
  have st': "ix_files st' = files" "ix_points st' = fold (delete_by_filter rn) stale (ix_points st)"
    using assms(2-4) sw by (auto simp: sweep_deleted_files_def)
  have files: "files = snd (sweep_deleted rn br (rr_started run) (ix_files st))" using sw by simp
  show "tables_ok owner st'"
    using d pg.sweep_owned [OF d(3)] by (simp add: tables_ok_def st' files keys_kept)
  show "row_of st' (rn, b, p) = (case row_of st (rn, b, p) of None \<Rightarrow> None
      | Some row \<Rightarrow> if b = br \<and> fr_last_seen row < rr_started run then None else Some row)"
    using row_sweep [OF d(1,2)] by (simp add: st' files cong: option.case_cong)
  have "p \<in> set stale \<longleftrightarrow> (\<exists>row. row_of st (rn, br, p) = Some row \<and> fr_last_seen row < rr_started run)"
    using swept_paths [OF d(1,2), of p rn br "rr_started run"] by (simp add: sw)
  then show "look st' rn p = (case row_of st (rn, br, p) of None \<Rightarrow> look st rn p
      | Some row \<Rightarrow> if fr_last_seen row < rr_started run then [] else look st rn p)"
    by (auto simp: st'(2) pg.look_sweep split: option.splits)
qed


text \<open>One path after the sweep, given how the file that was streamed for it settled.\<close>

lemma after_sweep:
  assumes "tables_ok owner st" "rr_sweep_query_ok run" "\<And>p. rr_sweep_delete_ok run p"
    and "st' = sweep_deleted_files env run rn br st" "settled env (rr_started run) st f"
    and "rf_repo f = rn" "rf_branch f = br"
  shows "path_ok env st' rn br (rf_path f)" "look st' rn (rf_path f) = [] \<or> indexed_as env st' f"
    and "fresh (rr_started run) st (file_key_of f) \<Longrightarrow> indexed_as env st' f"
proof -
  note sw = sweep_facts(2) [OF assms(1-4), where b = br and p = "rf_path f"]
    sweep_facts(3) [OF assms(1-4), where p = "rf_path f"]
  have key: "file_key_of f = (rn, br, rf_path f)" using assms(6,7) by (simp add: file_key_of_def)
  have *: "path_ok env st' rn br (rf_path f) \<and> (look st' rn (rf_path f) = [] \<or> indexed_as env st' f)
     \<and> (fresh (rr_started run) st (file_key_of f) \<longrightarrow> indexed_as env st' f)"
  proof (cases "row_of st (rn, br, rf_path f)")
    case None
    then show ?thesis using assms(5,6) sw by (simp add: settled_def key path_ok_def fresh_def)
  next
    case (Some row)
    show ?thesis
    proof (cases "fr_last_seen row < rr_started run")
      case True
      with Some show ?thesis using sw by (simp add: key path_ok_def fresh_def)
    next
      case False
      then have "fr_hash row = file_hash env f" "indexed_as env st f" using assms(5) Some by (simp_all add: settled_def key)
      moreover have "look st' rn (rf_path f) = look st rn (rf_path f)" "row_of st' (rn, br, rf_path f) = Some row"
        using sw Some False by simp_all
      ultimately show ?thesis using assms(6) by (auto simp: path_ok_def indexed_as_def)
    qed
  qed
  then show "path_ok env st' rn br (rf_path f)" "look st' rn (rf_path f) = [] \<or> indexed_as env st' f"
    "fresh (rr_started run) st (file_key_of f) \<Longrightarrow> indexed_as env st' f" by blast+
qed

text \<open>What the index holds for a path after a run: nothing if no file came for it, else the chunks of a version with the
  hash of the file, and certainly so where parser, chunker, embedder and first batch did their part.\<close>

definition mirrors :: "ingest_env \<Rightarrow> repo_run \<Rightarrow> string list \<Rightarrow> string \<Rightarrow> index_state \<Rightarrow> string \<Rightarrow> bool" where
  "mirrors env run listed rn st p \<longleftrightarrow>
     (case streamed run listed p of
        None \<Rightarrow> look st rn p = []
      | Some f \<Rightarrow> (look st rn p = [] \<or> indexed_as env st f) \<and> (indexable env (rr_world run p) f \<longrightarrow> indexed_as env st f))"

lemma mirrors_jobs [simp]: "mirrors env run listed rn (st\<lparr>ix_jobs := j\<rparr>) = mirrors env run listed rn st"
  by (rule ext) (simp add: mirrors_def cong: option.case_cong)

text \<open>The files that the stream of a run gives, as lists and one by one.\<close>

lemma stream_files:
  assumes "run_ok run rn br st" "distinct listed"
  defines "paths \<equiv> filter (\<lambda>p. \<not> is_excluded p) listed"
  defines "fs \<equiv> get_files_batch (rr_fetch run) (rr_order run paths)"
  shows "set fs = {f. \<exists>p. streamed run listed p = Some f}" "distinct (map rf_path fs)"
    and "\<And>p f. streamed run listed p = Some f \<Longrightarrow> rf_path f = p \<and> rf_repo f = rn \<and> rf_branch f = br"
    and "\<And>f. f \<in> set fs \<Longrightarrow> rf_repo f = rn \<and> rf_branch f = br"
proof -
  have r: "mset (rr_order run paths) = mset paths"
    "\<And>p f. rr_fetch run p = Inr f \<Longrightarrow> rf_path f = p \<and> rf_repo f = rn \<and> rf_branch f = br"
    using assms(1) by (simp_all add: run_ok_def)
  have ord: "set (rr_order run paths) = set paths" "distinct (rr_order run paths)"
    using r(1) assms(2) mset_eq_setD [OF r(1)] mset_eq_imp_distinct_iff [OF r(1)] by (simp_all add: paths_def)
  have "set fs = {f. \<exists>p \<in> set paths. rr_fetch run p = Inr f}" unfolding fs_def set_get_files ord(1) ..
  moreover have "streamed run listed p = Some f \<longleftrightarrow> p \<in> set paths \<and> rr_fetch run p = Inr f" for p f
    by (cases "rr_fetch run p") (auto simp: streamed_def paths_def)
  ultimately show fs: "set fs = {f. \<exists>p. streamed run listed p = Some f}" by (simp add: Bex_def)
  show lab: "\<And>p f. streamed run listed p = Some f \<Longrightarrow> rf_path f = p \<and> rf_repo f = rn \<and> rf_branch f = br"
    using r(2) by (auto simp: streamed_def split: if_splits sum.splits)
  show "distinct (map rf_path fs)" unfolding fs_def using r(2) by (intro distinct_get_files [OF ord(2)]) blast
  show "rf_repo f = rn \<and> rf_branch f = br" if f: "f \<in> set fs" for f
  proof -
    obtain p where "streamed run listed p = Some f" using f unfolding fs by blast
    then show ?thesis by (simp add: lab)
  qed
qed

text \<open>Indexing the files of a run and sweeping after it.\<close>

lemma index_and_sweep:
  assumes io: "index_ok env owner rn br st" and ro: "run_ok run rn br st" and "distinct listed"
  defines "fs \<equiv> get_files_batch (rr_fetch run) (rr_order run (filter (\<lambda>p. \<not> is_excluded p) listed))"
  assumes own: "list_all (ids_owned env owner) fs" and res: "res = index_files env (rr_world run) rn br fs (0, st2)" and st4: "st4 = sweep_deleted_files env run rn br (snd res)"
    and st2: "ix_files st2 = ix_files st" "ix_points st2 = ix_points st" "tables_ok owner st2 = tables_ok owner st"
      "\<And>b p. path_ok env st2 rn b p = path_ok env st rn b p"
  shows "tables_ok owner st4" "row_of st4 (rn, b, p) \<noteq> None \<Longrightarrow> b = br"
    "path_ok env st4 rn br p \<and> mirrors env run listed rn st4 p"
proof -
  note files = stream_files [OF ro assms(3), folded fs_def]
  have r: "\<And>p. faults_contained (rr_world run p) \<and> rr_started run \<le> fw_now (rr_world run p)"
    "\<And>b p row. row_of st (rn, b, p) = Some row \<Longrightarrow> fr_last_seen row < rr_started run"
    "rr_sweep_query_ok run" "\<And>p. rr_sweep_delete_ok run p"
    using ro by (simp_all add: run_ok_def)
  have i: "tables_ok owner st" "\<And>b p. row_of st (rn, b, p) \<noteq> None \<Longrightarrow> b = br" "\<And>p. path_ok env st rn br p"
    using io by (auto simp: index_ok_def)
  have pend: "pending_files env (rr_started run) rn br (snd (0, st2)) fs"
    unfolding pending_files_def by (simp add: st2 i(3) r(2) files(2,4))
  have ok2: "tables_ok owner (snd (0, st2))" using i(1) by (simp add: st2)
  note run = index_files_settles [where world = "rr_world run", OF own r(1) ok2 pend, folded res]
  note ok3 = run [THEN conjunct1] and rows3 = run [THEN conjunct2, THEN conjunct1, rule_format]
    and look3 = run [THEN conjunct2, THEN conjunct2, THEN conjunct1, rule_format]
    and files3 = run [THEN conjunct2, THEN conjunct2, THEN conjunct2, rule_format]
  note sw = sweep_facts [OF ok3 r(3,4) st4]
  show "tables_ok owner st4" by (rule sw(1))
  show "b = br" if "row_of st4 (rn, b, p) \<noteq> None"
  proof (rule ccontr)
    assume "b \<noteq> br"
    then have "row_of (snd res) (rn, b, p) = row_of st (rn, b, p)" using rows3 by (simp add: st2)
    with that i(2) \<open>b \<noteq> br\<close> show False by (auto simp: sw split: option.splits)
  qed
  show "path_ok env st4 rn br p \<and> mirrors env run listed rn st4 p"
  proof (cases "streamed run listed p")
    case None
    then have "other_path fs p" using files(3) by (auto simp: other_path_def files(1))
    then have "row_of (snd res) (rn, br, p) = row_of st (rn, br, p)" "look (snd res) rn p = look st rn p"
      using rows3 look3 by (simp_all add: st2)
    then show ?thesis
      using None i(3) [of p] r(2) by (auto simp: path_ok_def mirrors_def sw split: option.splits)
  next
    case (Some f)
    then have f: "f \<in> set fs" "rf_path f = p" "rf_repo f = rn" "rf_branch f = br" using files(3) by (auto simp: files(1))
    have set: "settled env (rr_started run) (snd res) f"
      "indexable env (rr_world run p) f \<Longrightarrow> fresh (rr_started run) (snd res) (file_key_of f)"
      using files3 [OF f(1)] f(2) by simp_all
    show ?thesis using after_sweep [OF ok3 r(3,4) st4 set(1) f(3,4)] set(2) Some f(2) by (auto simp: mirrors_def)
  qed
qed

subsection \<open>The ids of the two chunkers\<close>

text \<open>Both chunkers begin the id of a chunk with the repository and the path of its document, each with a colon behind it.
  The ids tell two files apart unless the one beginning is a prefix of the other.\<close>

datatype chunker = Fixed_Size fixed_config | Parent_Child pc_config

fun run_chunker :: "chunk_env \<Rightarrow> chunker \<Rightarrow> nat \<Rightarrow> parsed_doc \<Rightarrow> chunk list option" where
  "run_chunker cenv (Fixed_Size cfg) fuel doc = fixed_size_chunk cenv cfg fuel doc"
| "run_chunker cenv (Parent_Child cfg) fuel doc = parent_child_chunk cenv cfg fuel doc"

definition id_head :: "string \<times> string \<Rightarrow> string" where
  "id_head x = fst x @ '':'' @ snd x @ '':''"

definition told_apart :: "(string \<times> string) list \<Rightarrow> bool" where
  "told_apart files \<longleftrightarrow> list_all (\<lambda>x. list_all (\<lambda>y. x = y \<or> \<not> prefix (id_head x) (id_head y)) files) files"

definition owner_in :: "(string \<times> string) list \<Rightarrow> string \<Rightarrow> string \<times> string" where
  "owner_in files i = (case find (\<lambda>x. prefix (id_head x) i) files of Some x \<Rightarrow> x | None \<Rightarrow> ([], []))"

lemma owner_found:
  assumes "told_apart files" "x \<in> set files" "prefix (id_head x) i"
  shows "owner_in files i = x"
proof (cases "find (\<lambda>x. prefix (id_head x) i) files")
  case None
  then show ?thesis using assms(2,3) by (metis find_None_iff)
next
  case (Some y)
  then have y: "y \<in> set files" "prefix (id_head y) i" by (auto simp: find_Some_iff)
  then have "prefix (id_head x) (id_head y) \<or> prefix (id_head y) (id_head x)"
    using assms(3) by (meson prefix_same_cases)
  then have "x = y" using assms(1,2) y(1) by (auto simp: told_apart_def list_all_iff)
  then show ?thesis using Some by (simp add: owner_in_def)
qed

text \<open>A chunk with the labels of its document and an id that begins with them.\<close>

definition made_from :: "parsed_doc \<Rightarrow> chunk \<Rightarrow> bool" where
  "made_from doc c \<longleftrightarrow> repo c = doc_repo doc \<and> source_path c = doc_path doc \<and> prefix (id_head (doc_repo doc, doc_path doc)) (chunk_id c)"

lemma make_id_head: "prefix (id_head (doc_repo doc, doc_path doc)) (make_id cenv doc tag s)"
  by (simp add: id_head_def make_id_def)

lemma made_from_chunks [simp]:
  "made_from doc (fixed_chunk cenv doc idx s)" "made_from doc (parent_chunk cenv doc tag extra s)"
  "made_from doc (child_chunk cenv doc parent idx s)"
  by (simp_all add: made_from_def fixed_chunk_def parent_chunk_def child_chunk_def make_id_head)

lemma made_from_facets [simp]: "made_from doc (with_facets cenv n i c) = made_from doc c"
  by (simp add: made_from_def with_facets_def)

lemma fixed_loop_made: "fixed_loop cenv doc n step fuel start idx = Some cs \<Longrightarrow> list_all (made_from doc) cs"
proof (induction fuel arbitrary: start idx cs)
  case 0
  then show ?case by (subst (asm) fixed_loop.simps) (auto simp: Let_def split: if_splits)
next
  case (Suc fuel)
  from Suc.prems show ?case
    by (subst (asm) fixed_loop.simps) (auto simp: Let_def dest: Suc.IH split: if_splits)
qed

lemma child_loop_made: "child_loop cenv doc p cc fuel start idx last_emit = Some cs \<Longrightarrow> list_all (made_from doc) cs"
proof (induction fuel arbitrary: start idx last_emit cs)
  case 0
  then show ?case by (subst (asm) child_loop.simps) (auto simp: Let_def split: if_splits)
next
  case (Suc fuel)
  from Suc.prems show ?case
    by (subst (asm) child_loop.simps) (auto simp: Let_def dest: Suc.IH split: if_splits)
qed

lemma parents_made: "list_all (made_from doc) (build_parents cenv cfg doc)"
  by (auto simp: build_parents_def wrap_whole_doc_def section_parents_def list_all_iff Let_def)

lemma with_children_made:
  "with_children cenv cfg fuel doc ps = Some cs \<Longrightarrow> list_all (made_from doc) ps \<Longrightarrow> list_all (made_from doc) cs"
  by (induction ps arbitrary: cs) (auto simp: split_children_def dest: child_loop_made split: option.splits)

lemma parent_child_made:
  assumes "parent_child_chunk cenv cfg fuel doc = Some cs"
  shows "list_all (made_from doc) cs"
proof -
  obtain out where out: "with_children cenv cfg fuel doc (build_parents cenv cfg doc) = Some out"
    "cs = map (\<lambda>(i, c). with_facets cenv (length out) i c) (enumerate 0 out)"
    using assms by (auto simp: parent_child_chunk_def)
  have "list_all (made_from doc) out" by (rule with_children_made [OF out(1) parents_made])
  then show ?thesis by (auto simp: out(2) list_all_iff dest: enumerate_mem)
qed

lemma run_chunker_made: "run_chunker cenv k fuel doc = Some cs \<Longrightarrow> list_all (made_from doc) cs"
  by (cases k) (auto simp: fixed_size_chunk_def Let_def dest: fixed_loop_made parent_child_made split: if_splits)

text \<open>The steps between chunking and writing change only metadata, the text to embed and the token count.\<close>

definition same_labels :: "chunk \<Rightarrow> chunk \<Rightarrow> bool" where
  "same_labels c c' \<longleftrightarrow> chunk_id c' = chunk_id c \<and> repo c' = repo c \<and> source_path c' = source_path c"

lemma prepared_labels:
  assumes "prepare_chunks env f doc = Inr (Some cs)"
  obtains cs0 where "ie_chunker env (with_provenance env f doc) = Inr cs0" "list_all2 same_labels cs0 cs"
proof -
  obtain cs0 where cs0: "ie_chunker env (with_provenance env f doc) = Inr cs0"
    "cs = contextualise env (with_provenance env f doc) (attach_entity_ids env (with_provenance env f doc) (rf_repo f) (map (enrich_chunk env f) cs0))"
    using assms by (auto simp: prepare_chunks_def Let_def split: sum.splits if_splits)
  have trans: "list_all2 same_labels xs zs" if "list_all2 same_labels xs ys" "list_all2 same_labels ys zs" for xs ys zs
    by (rule list_all2_trans [OF _ that]) (simp add: same_labels_def)
  have 1: "list_all2 same_labels xs (map (enrich_chunk env f) xs)" for xs
    by (simp add: list_all2_map2 same_labels_def enrich_chunk_def list_all2_same)
  have 2: "list_all2 same_labels xs (attach_entity_ids env d r xs)" for d r xs
    by (simp add: attach_entity_ids_def list_all2_map2 same_labels_def Let_def list_all2_same split: option.split)
  have 3: "list_all2 same_labels xs (contextualise env d xs)" for d xs
    by (auto simp: contextualise_def list_all2_conv_all_nth same_labels_def nth_enumerate_eq split: option.split)
  show ?thesis by (rule that [OF cs0(1)]) (unfold cs0(2), rule trans [OF trans [OF 1 2] 3])
qed

text \<open>The pipeline cuts up the file with the chunker \<open>k\<close> of the repository, and the chunker ends on it.\<close>

definition chunked_by :: "chunk_env \<Rightarrow> chunker \<Rightarrow> ingest_env \<Rightarrow> repo_file \<Rightarrow> bool" where
  "chunked_by cenv k env f \<longleftrightarrow>
     (case parser_for env f of
        None \<Rightarrow> True
      | Some parse \<Rightarrow> (case parse f of
          Inl e \<Rightarrow> True
        | Inr doc \<Rightarrow> (\<exists>fuel cs. run_chunker cenv k fuel (with_provenance env f doc) = Some cs
            \<and> ie_chunker env (with_provenance env f doc) = Inr cs)))"

lemma produced_cases:
  assumes "c \<in> set (produced env f)"
  obtains parse doc cs where "parser_for env f = Some parse" "parse f = Inr doc" "prepare_chunks env f doc = Inr (Some cs)" "c \<in> set cs"
proof (cases "parser_for env f")
  case (Some parse)
  show ?thesis
  proof (cases "parse f")
    case (Inr doc)
    then have "case prepare_chunks env f doc of Inr (Some cs) \<Rightarrow> c \<in> set cs | _ \<Rightarrow> False"
      using assms Some by (simp add: produced_def split: sum.split option.split)
        (auto split: sum.splits option.splits)
    then obtain cs where "prepare_chunks env f doc = Inr (Some cs)" "c \<in> set cs"
      by (cases "prepare_chunks env f doc") (simp_all split: option.split_asm)
    then show ?thesis using that Some Inr by blast
  qed (use assms Some in \<open>simp add: produced_def\<close>)
qed (use assms in \<open>simp add: produced_def\<close>)

lemma chunked_ids_owned:
  assumes "told_apart files" "(rf_repo f, rf_path f) \<in> set files" "chunked_by cenv k env f"
  shows "ids_owned env (owner_in files) f"
  unfolding ids_owned_def
proof
  fix c assume "c \<in> set (produced env f)"
  then obtain parse doc cs where p: "parser_for env f = Some parse" "parse f = Inr doc" "prepare_chunks env f doc = Inr (Some cs)"
    and c: "c \<in> set cs"
    by (rule produced_cases)
  let ?d = "with_provenance env f doc"
  have doc: "doc_repo ?d = rf_repo f" "doc_path ?d = rf_path f"
    using p(1,2) by (auto simp: parser_for_def labelled_def with_provenance_def split: sum.splits)
  obtain fuel cs1 where run: "run_chunker cenv k fuel ?d = Some cs1" "ie_chunker env ?d = Inr cs1"
    using assms(3) p by (auto simp: chunked_by_def)
  obtain cs0 where cs0: "ie_chunker env ?d = Inr cs0" "list_all2 same_labels cs0 cs"
    by (rule prepared_labels [OF p(3)])
  then have "cs0 = cs1" using run(2) by simp
  then obtain c0 where "c0 \<in> set cs1" "same_labels c0 c"
    using cs0(2) c by (metis in_set_conv_nth list_all2_conv_all_nth)
  then have "made_from ?d c0" "same_labels c0 c"
    using run_chunker_made [OF run(1)] by (auto simp: list_all_iff)
  then show "owner_in files (chunk_id c) = (rf_repo f, rf_path f) \<and> repo c = rf_repo f \<and> source_path c = rf_path f"
    using owner_found [OF assms(1,2)] by (simp add: made_from_def same_labels_def doc)
qed

subsection \<open>The run\<close>

text \<open>C5: A run over a repository that completes brings the index in line with the repository: from tables that agree,
  it ends with tables that agree; a path that is not listed, is excluded, or whose download failed has no chunks; a
  path whose file came through has no chunks or exactly the chunks of a version with the same content hash, the
  latter whenever its chunks could be made and written. The pipeline has one of the two chunkers of the program, which
  ends on the files of the run; the names of the files that the table may hold are told apart by the ids of their
  chunks. Embedding, tracker reads, downloads and parsing may fail on the way, file by file, and so may the write of a
  file's first batch; deletes, tracker records, the sweep and later batches succeed.\<close>

theorem index_repo_refines:
  assumes "told_apart files" "list_all (\<lambda>p. (rn, p) \<in> set files) listed"
    and "\<And>p f. rr_fetch run p = Inr f \<Longrightarrow> chunked_by cenv k env f"
    and "index_ok env (owner_in files) rn br st" "run_ok run rn br st"
    and "rr_listing run = Inr listed" "distinct listed"
  shows "\<exists>n st'. index_repo env run rn br st = (Inr n, st') \<and> index_ok env (owner_in files) rn br st'
     \<and> (\<forall>p. mirrors env run listed rn st' p)"
proof -
  define paths where "paths = filter (\<lambda>p. \<not> is_excluded p) listed"
  define fs where "fs = get_files_batch (rr_fetch run) (rr_order run paths)"
  define st2 where "st2 = st\<lparr>ix_jobs := start_indexing (start_listing (ensure_queued (ix_jobs st) rn br ''git'') rn br
    (rr_listed_at run)) rn br (int (length paths))\<rparr>"
  define res where "res = index_files env (rr_world run) rn br fs (0, st2)"
  define st4 where "st4 = sweep_deleted_files env run rn br (snd res)"
  have r: "rr_acquired run" "rr_stream_error run = None" using assms(5) by (simp_all add: run_ok_def)
  have st2: "ix_files st2 = ix_files st" "ix_points st2 = ix_points st" "tables_ok (owner_in files) st2 = tables_ok (owner_in files) st"
    "\<And>b p. path_ok env st2 rn b p = path_ok env st rn b p"
    by (simp_all add: st2_def)
  note stream = stream_files [OF assms(5,7), folded paths_def fs_def]
  have own: "list_all (ids_owned env (owner_in files)) fs"
    unfolding list_all_iff
  proof
    fix f assume f: "f \<in> set fs"
    then obtain p where p: "streamed run listed p = Some f" by (auto simp: stream(1))
    then have "(rf_repo f, rf_path f) \<in> set files" "rr_fetch run p = Inr f"
      using assms(2) stream(3) [OF p] by (auto simp: streamed_def list_all_iff split: if_splits sum.splits)
    then show "ids_owned env (owner_in files) f" using chunked_ids_owned [OF assms(1) _ assms(3)] by blast
  qed
  note swept = index_and_sweep [OF assms(4,5,7) _ _ st4_def st2, folded paths_def fs_def, OF own res_def]
  obtain d0 d1 d2 where d: "rr_done_at run = (d0, d1, d2)" by (cases "rr_done_at run")
  have "index_repo env run rn br st = (Inr (fst res), st4\<lparr>ix_jobs := repo_done (ix_jobs st4) rn br d0 d1 d2\<rparr>)"
    using r assms(6) d
    by (simp add: index_repo_def index_repo_locked_def Let_def split_def st4_def res_def fs_def paths_def st2_def)
  moreover have "index_ok env (owner_in files) rn br (st4\<lparr>ix_jobs := repo_done (ix_jobs st4) rn br d0 d1 d2\<rparr>)"
    using swept by (auto simp: index_ok_def)
  moreover have "mirrors env run listed rn (st4\<lparr>ix_jobs := repo_done (ix_jobs st4) rn br d0 d1 d2\<rparr>) p" for p
    using swept(3) by simp
  ultimately show ?thesis by blast
qed

text \<open>Why the names matter: the ids of two files can begin alike.\<close>

lemma heads_collide: "id_head (''a:b'', ''c'') = id_head (''a'', ''b:c'')" "\<not> told_apart [(''a:b'', ''c''), (''a'', ''b:c'')]"
  by (simp_all add: id_head_def told_apart_def)

text \<open>A small pipeline with the parent-child chunker, and a run of it, for the witnesses.\<close>

definition demo_doc :: "repo_file \<Rightarrow> parsed_doc" where
  "demo_doc f = \<lparr>doc_content = rf_content f, doc_kind = GO, doc_title = [], doc_path = rf_path f, doc_repo = rf_repo f,
     doc_metadata = [], doc_sections = []\<rparr>"

definition demo_env :: ingest_env where
  "demo_env = \<lparr>
     ie_parsers = [(\<lambda>p c. True, \<lambda>f. Inr (demo_doc f))],
     ie_chunker = \<lambda>doc. case parent_child_chunk plain_env sample_cfg 8 doc of Some cs \<Rightarrow> Inr cs | None \<Rightarrow> Inl (Raised ''timeout''),
     ie_sha256 = \<lambda>s. s,
     ie_config = \<lparr>ic_chunker = [], ic_sizes = [], ic_ratios_version = [], ic_embed_model = [], ic_embed_dim = []\<rparr>,
     ie_authors = \<lparr>ap_plaintext = True, ap_sha256 = \<lambda>s. s\<rparr>, ie_set_order = \<lambda>xs. xs, ie_str = \<lambda>j. [], ie_light = None,
     ie_contextual = None, ie_code_lane = False, ie_priority = \<lambda>c. None\<rparr>"

definition demo_world :: file_world where
  "demo_world = \<lparr>fw_skip_ok = True, fw_seen_ok = True, fw_delete_ok = True, fw_embed = \<lambda>ts. Inr (map (\<lambda>t. [0]) ts),
     fw_upsert = \<lambda>i. None, fw_record_ok = True, fw_code_delete_ok = True, fw_code_embed = \<lambda>ts. Inr (map (\<lambda>t. [0]) ts),
     fw_code_upsert = \<lambda>i. None, fw_now = 2\<rparr>"

definition demo_file :: "string \<Rightarrow> repo_file" where
  "demo_file p = \<lparr>rf_path = p, rf_content = ''x'', rf_sha = [], rf_last_modified = None, rf_repo = ''r'',
     rf_branch = ''main'', rf_metadata = []\<rparr>"

definition demo_run :: repo_run where
  "demo_run = \<lparr>rr_acquired = True, rr_listing = Inr [''a.go'', ''b.go''], rr_order = rev,
     rr_fetch = (\<lambda>p. if p = ''b.go'' then Inl (Raised ''503'') else Inr (demo_file p)), rr_stream_error = None,
     rr_world = \<lambda>p. demo_world, rr_started = 1, rr_sweep_query_ok = True, rr_sweep_delete_ok = \<lambda>p. True,
     rr_code_sweep_ok = \<lambda>p. True, rr_listed_at = 1, rr_done_at = (3, 3, 3)\<rparr>"

definition demo_state :: "tracker \<Rightarrow> index_state" where
  "demo_state t = \<lparr>ix_files = \<lparr>ft_ready = True, ft_rows = []\<rparr>, ix_points = [], ix_code = [], ix_jobs = t\<rparr>"

lemma x_chunks:
  assumes "doc_content doc = ''x''" "doc_kind doc = GO" "doc_sections doc = []"
  shows "\<exists>cs. parent_child_chunk plain_env sample_cfg 8 doc = Some cs \<and> cs \<noteq> []"
proof -
  have "py_strip ''x'' = ''x''" by code_simp
  moreover have "split_by_lines ''x'' (char_budget 8 GO) = [''x'']"
    by (simp add: split_by_lines_def char_budget_def py_trunc_def)
  ultimately obtain p where p: "build_parents plain_env sample_cfg doc = [p]" "content p = ''x''"
    using assms by (simp add: build_parents_def wrap_whole_doc_def Let_def parent_max_chars_for_def sample_cfg_def
        split_parent_text_def line_aware_doc_types_def code_doc_types_def)
  obtain cs where cs: "parent_child_chunk plain_env sample_cfg 8 doc = Some cs"
    using parent_child_terminates [of sample_cfg plain_env doc 8] p by (auto simp: sample_cfg_def)
  then have "cs \<noteq> []" by (auto simp: parent_child_chunk_def p(1) split: option.splits)
  with cs show ?thesis by blast
qed

lemma demo_chunks:
  assumes "rf_content f = ''x''"
  obtains doc cs where "parser_for demo_env f = Some (labelled (\<lambda>f. Inr (demo_doc f)))" "labelled (\<lambda>f. Inr (demo_doc f)) f = Inr doc"
    "parent_child_chunk plain_env sample_cfg 8 (with_provenance demo_env f doc) = Some cs" "cs \<noteq> []"
    "produced demo_env f = map (enrich_chunk demo_env f) cs"
proof -
  define doc where "doc = (demo_doc f)\<lparr>doc_repo := rf_repo f, doc_path := rf_path f\<rparr>"
  have d: "parser_for demo_env f = Some (labelled (\<lambda>f. Inr (demo_doc f)))" "labelled (\<lambda>f. Inr (demo_doc f)) f = Inr doc"
    by (simp_all add: parser_for_def demo_env_def labelled_def doc_def)
  have "doc_content (with_provenance demo_env f doc) = ''x''" "doc_kind (with_provenance demo_env f doc) = GO"
    "doc_sections (with_provenance demo_env f doc) = []"
    using assms by (simp_all add: with_provenance_def doc_def demo_doc_def)
  from x_chunks [OF this] obtain cs where cs: "parent_child_chunk plain_env sample_cfg 8 (with_provenance demo_env f doc) = Some cs" "cs \<noteq> []"
    by blast
  have plain: "ie_chunker demo_env = (\<lambda>doc. case parent_child_chunk plain_env sample_cfg 8 doc of Some cs \<Rightarrow> Inr cs | None \<Rightarrow> Inl (Raised ''timeout''))"
    "ie_light demo_env = None" "ie_contextual demo_env = None"
    by (simp_all add: demo_env_def)
  have "produced demo_env f = map (enrich_chunk demo_env f) cs"
    using cs by (simp add: produced_def d prepare_chunks_def plain Let_def attach_entity_ids_def contextualise_def)
  then show ?thesis using that d cs by blast
qed

lemma demo_chunked: "chunked_by plain_env (Parent_Child sample_cfg) demo_env (demo_file p)"
proof -
  have "rf_content (demo_file p) = ''x''" by (simp add: demo_file_def)
  from demo_chunks [OF this] obtain doc cs where d: "parser_for demo_env (demo_file p) = Some (labelled (\<lambda>f. Inr (demo_doc f)))"
    "labelled (\<lambda>f. Inr (demo_doc f)) (demo_file p) = Inr doc"
    "parent_child_chunk plain_env sample_cfg 8 (with_provenance demo_env (demo_file p) doc) = Some cs" by metis
  have "ie_chunker demo_env (with_provenance demo_env (demo_file p) doc) = Inr cs" using d(3) by (simp add: demo_env_def)
  with d show ?thesis unfolding chunked_by_def by (auto intro!: exI [of _ 8])
qed

lemma pair_embeddings_enough: "length vs = length (filter searchable cs) \<Longrightarrow> \<exists>cvs. pair_embeddings cs vs = Some cvs"
proof (induction cs arbitrary: vs)
  case (Cons c cs)
  show ?case
  proof (cases "searchable c")
    case True
    then obtain v vs' where "vs = v # vs'" using Cons.prems by (cases vs) auto
    then show ?thesis using True Cons.prems Cons.IH [of vs'] by auto
  next
    case False
    then show ?thesis using Cons.prems Cons.IH [of vs] by auto
  qed
qed simp

lemma demo_indexable: "indexable demo_env demo_world (demo_file p)"
proof -
  have "rf_content (demo_file p) = ''x''" by (simp add: demo_file_def)
  from demo_chunks [OF this] obtain cs where "produced demo_env (demo_file p) = map (enrich_chunk demo_env (demo_file p)) cs" "cs \<noteq> []"
    by metis
  then have "produced demo_env (demo_file p) \<noteq> []" by simp
  moreover have "is_ok (embed_chunks (fw_embed demo_world) cs)" for cs
    using pair_embeddings_enough [of "map (\<lambda>t. [0]) (map embed_text (filter searchable cs))" cs]
    by (auto simp: embed_chunks_def demo_world_def)
  ultimately show ?thesis by (simp add: indexable_def) (simp add: demo_world_def)
qed

theorem index_repo_refines_witness:
  "\<exists>n st'. index_repo demo_env demo_run ''r'' ''main'' (demo_state new_tracker) = (Inr n, st')
     \<and> indexed_as demo_env st' (demo_file ''a.go'') \<and> look st' ''r'' ''b.go'' = [] \<and> look st' ''r'' ''c.go'' = []"
proof -
  let ?st = "demo_state new_tracker"
  let ?files = "[(''r'', ''a.go''), (''r'', ''b.go''), (''confluence:X'', ''12:Home'')]"
  have apart: "told_apart ?files" by code_simp
  have ok: "index_ok demo_env (owner_in ?files) ''r'' ''main'' ?st"
    by (simp add: index_ok_def tables_ok_def demo_state_def path_ok_def points_owned_def chunks_at_def)
  have run: "run_ok demo_run ''r'' ''main'' ?st"
    by (auto simp: run_ok_def demo_run_def demo_state_def demo_world_def faults_contained_def atomic_upsert_def
        demo_file_def split: if_splits)
  have chunked: "chunked_by plain_env (Parent_Child sample_cfg) demo_env f" if "rr_fetch demo_run p = Inr f" for p f
    using that demo_chunked by (auto simp: demo_run_def split: if_splits)
  have listing: "rr_listing demo_run = Inr [''a.go'', ''b.go'']" by (simp add: demo_run_def)
  have str: "streamed demo_run [''a.go'', ''b.go''] ''a.go'' = Some (demo_file ''a.go'')"
    "streamed demo_run [''a.go'', ''b.go''] ''b.go'' = None" "streamed demo_run [''a.go'', ''b.go''] ''c.go'' = None"
    by code_simp+
  have wld: "rr_world demo_run p = demo_world" for p by (simp add: demo_run_def)
  have known: "list_all (\<lambda>p. (''r'', p) \<in> set ?files) [''a.go'', ''b.go'']" "distinct [''a.go'', ''b.go'']" by simp_all
  have "\<exists>n st'. index_repo demo_env demo_run ''r'' ''main'' ?st = (Inr n, st') \<and> index_ok demo_env (owner_in ?files) ''r'' ''main'' st'
     \<and> (\<forall>p. mirrors demo_env demo_run [''a.go'', ''b.go''] ''r'' st' p)"
    by (rule index_repo_refines [OF apart known(1) _ ok run listing known(2)]) (rule chunked)
  then obtain n st' where st': "index_repo demo_env demo_run ''r'' ''main'' ?st = (Inr n, st')"
    "\<And>p. mirrors demo_env demo_run [''a.go'', ''b.go''] ''r'' st' p" by blast
  show ?thesis
    using st'(2) [of "''a.go''"] st'(2) [of "''b.go''"] st'(2) [of "''c.go''"] demo_indexable
    by (intro exI [of _ n] exI [of _ st']) (simp add: st'(1) mirrors_def str wld)
qed

subsection \<open>Where the correspondence breaks\<close>

text \<open>C40: A webhook that is delivered a second time removes the file from the index: the handler deletes the chunks first and
  the hash, which is still recorded, then makes it skip the file; every later pass over the file skips it too.\<close>

theorem webhook_redelivery_loses_file:
  assumes "wh_changed_files ev = [p]" "fetch p = Inr f" "rf_path f = p" "rf_repo f = wh_repo ev"
    and "parser_for env f \<noteq> None" "ft_ready (ix_files st)"
    and "row_of st (file_key_of f) = Some row" "fr_hash row = file_hash env f"
    and "fw_skip_ok (world p)" "fw_seen_ok (world p)" "fw_delete_ok (world p)"
  shows "\<exists>st'. handle_webhook env fetch world ev st = (Inr 0, st') \<and> look st' (wh_repo ev) p = []
     \<and> (\<forall>w. fw_skip_ok w \<and> fw_seen_ok w \<longrightarrow> fst (process_file env w f st') = Inr 0
          \<and> look (snd (process_file env w f st')) (wh_repo ev) p = [])"
proof -
  define ps where "ps = delete_by_filter (rf_repo f) (rf_path f) (ix_points st)"
  define st' where "st' = st\<lparr>ix_points := ps,
    ix_files := mark_seen (rf_repo f) (rf_branch f) [rf_path f] (fw_now (world p)) (ix_files st)\<rparr>"
  obtain parse where parse: "parser_for env f = Some parse" using assms(5) by blast
  have row': "row_of st' (file_key_of f) = Some (row\<lparr>fr_last_seen := fw_now (world p)\<rparr>)" "ft_ready (ix_files st')"
    using assms(6,7) by (simp_all add: st'_def row_mark_seen file_key_of_def keys_kept)
  have "skips env (world p) f (st\<lparr>ix_points := ps\<rparr>)"
    using assms(6-10) by (simp add: skips_def should_skip_def)
  then have "process_file env (world p) f (st\<lparr>ix_points := ps\<rparr>) = (Inr 0, st')"
    by (simp add: process_file_def parse st'_def)
  then have wh: "handle_webhook env fetch world ev st = (Inr 0, st')"
    using assms(1-4,11) by (simp add: handle_webhook_def ps_def)
  have gone: "look st' (wh_repo ev) p = []" using assms(3,4) by (simp add: st'_def ps_def chunks_at_delete)
  have "skips env w f st'" if "fw_skip_ok w \<and> fw_seen_ok w" for w
    using that row' assms(8) by (simp add: skips_def should_skip_def)
  then have "fst (process_file env w f st') = Inr 0 \<and> look (snd (process_file env w f st')) (wh_repo ev) p = []"
    if "fw_skip_ok w \<and> fw_seen_ok w" for w
    using that gone by (simp add: process_file_def parse)
  with wh gone show ?thesis by blast
qed

text \<open>The demonstration state after its file was indexed.\<close>

definition demo_chunk :: "parsed_doc \<Rightarrow> chunk" where
  "demo_chunk doc = \<lparr>chunk_id = doc_path doc, content = doc_content doc, chunk_doc_type = GO, source_path = doc_path doc,
     repo = doc_repo doc, metadata = [], parent_chunk_id = None, chunk_type = ''child'', token_count = 1,
     embed_content = None\<rparr>"


definition demo_indexed :: index_state where
  "demo_indexed = (demo_state new_tracker)\<lparr>
     ix_files := record_file (''r'', ''main'', ''a.go'') (file_hash demo_env (demo_file ''a.go'')) 1 1
       \<lparr>ft_ready = True, ft_rows = []\<rparr>,
     ix_points := upsert (\<lambda>c. None) [(demo_chunk (demo_doc (demo_file ''a.go'')), Some [0])] []\<rparr>"

definition demo_event :: webhook_event where
  "demo_event = \<lparr>wh_repo = ''r'', wh_branch = ''main'', wh_changed_files = [''a.go'']\<rparr>"

theorem webhook_redelivery_loses_file_witness:
  "look demo_indexed ''r'' ''a.go'' \<noteq> []
   \<and> (\<exists>st'. handle_webhook demo_env (\<lambda>p. Inr (demo_file p)) (\<lambda>p. demo_world) demo_event demo_indexed = (Inr 0, st')
        \<and> look st' ''r'' ''a.go'' = [])"
proof
  show "look demo_indexed ''r'' ''a.go'' \<noteq> []"
    by (simp add: demo_indexed_def upsert_def put_point_def chunks_at_def at_file_def demo_chunk_def demo_doc_def
        demo_file_def)
  have key: "file_key_of (demo_file ''a.go'') = (''r'', ''main'', ''a.go'')" by (simp add: file_key_of_def demo_file_def)
  have ev: "wh_changed_files demo_event = [''a.go'']" "wh_repo demo_event = ''r''" by (simp_all add: demo_event_def)
  have f: "rf_path (demo_file ''a.go'') = ''a.go''" "rf_repo (demo_file ''a.go'') = wh_repo demo_event"
    by (simp_all add: demo_file_def demo_event_def)
  have parser: "parser_for demo_env (demo_file ''a.go'') \<noteq> None" by (simp add: parser_for_def demo_env_def)
  have ready: "ft_ready (ix_files demo_indexed)" by (simp add: demo_indexed_def)
  have row: "row_of demo_indexed (file_key_of (demo_file ''a.go'')) =
      Some \<lparr>fr_hash = file_hash demo_env (demo_file ''a.go''), fr_chunk_count = 1, fr_last_seen = 1\<rparr>"
    by (simp add: demo_indexed_def key row_record_file)
  have hash: "fr_hash \<lparr>fr_hash = file_hash demo_env (demo_file ''a.go''), fr_chunk_count = 1, fr_last_seen = 1\<rparr>
      = file_hash demo_env (demo_file ''a.go'')" by simp
  have w: "fw_skip_ok demo_world" "fw_seen_ok demo_world" "fw_delete_ok demo_world" by (simp_all add: demo_world_def)
  show "\<exists>st'. handle_webhook demo_env (\<lambda>p. Inr (demo_file p)) (\<lambda>p. demo_world) demo_event demo_indexed = (Inr 0, st')
        \<and> look st' ''r'' ''a.go'' = []"
    using webhook_redelivery_loses_file [where fetch = "\<lambda>p. Inr (demo_file p)" and world = "\<lambda>p. demo_world",
        OF ev(1) refl f parser ready row hash w] ev(2) by auto
qed

text \<open>The chunk table does not know branches: a path that is gone from one branch loses its chunks although another branch
  still has it, recorded as indexed.\<close>

lemma sweep_ignores_branch:
  assumes "tables_ok owner st" "rr_sweep_query_ok run" "\<And>p. rr_sweep_delete_ok run p" "b \<noteq> br"
    and "row_of st (rn, br, p) = Some old" "fr_last_seen old < rr_started run" "row_of st (rn, b, p) = Some row"
  shows "look (sweep_deleted_files env run rn br st) rn p = []"
    and "row_of (sweep_deleted_files env run rn br st) (rn, b, p) = Some row"
  using assms(4-7) sweep_facts(2) [OF assms(1-3) refl, where b = b and p = p]
    sweep_facts(3) [OF assms(1-3) refl, where p = p] by simp_all

end
