(* ===== verification/Event_Ledger.thy ===== *)
theory Event_Ledger
  imports Py_Prelude
begin

text \<open>
  The event ledger of investigations: the two tables of \<open>investigations/store.py\<close>, the stream of
  \<open>api/routes_investigations.py\<close> that tails them, and the subscriber that the stream is made for
  (\<open>useInvestigationEvents.ts\<close>). The sequence number is one counter for all investigations; an append is atomic
  because one investigation is written by one task that awaits every append. Timestamps of events are left out.
\<close>

subsection \<open>Tables\<close>

record event =
  ev_seq :: nat
  ev_inv :: string
  ev_type :: string
  ev_payload :: obj
  ev_tags :: "string list"

record inv_row =
  iv_id :: string
  iv_alert :: string
  iv_target :: "string option"
  iv_status :: string
  iv_root_cause :: "string option"
  iv_outcome :: "string option"
  iv_created :: real
  iv_completed :: "real option"

record ledger =
  lg_rows :: "inv_row list"
  lg_events :: "event list"
  lg_next :: nat

definition new_ledger :: ledger where
  "new_ledger = \<lparr>lg_rows = [], lg_events = [], lg_next = 1\<rparr>"

definition create_row :: "string \<Rightarrow> string \<Rightarrow> string option \<Rightarrow> real \<Rightarrow> ledger \<Rightarrow> ledger" where
  "create_row i alert target now lg =
     lg\<lparr>lg_rows := lg_rows lg @ [\<lparr>iv_id = i, iv_alert = alert, iv_target = target, iv_status = ''running'',
       iv_root_cause = None, iv_outcome = None, iv_created = now, iv_completed = None\<rparr>]\<rparr>"

definition get_investigation :: "ledger \<Rightarrow> string \<Rightarrow> inv_row option" where
  "get_investigation lg i = find (\<lambda>r. iv_id r = i) (lg_rows lg)"

definition list_investigations :: "ledger \<Rightarrow> nat \<Rightarrow> inv_row list" where
  "list_investigations lg limit = take limit (sort_desc iv_created (lg_rows lg))"

definition terminal_status :: "string \<Rightarrow> bool" where
  "terminal_status s \<longleftrightarrow> s \<in> {''completed'', ''failed'', ''cancelled''}"

definition coalesce :: "'a option \<Rightarrow> 'a option \<Rightarrow> 'a option" where
  "coalesce x y = (case x of None \<Rightarrow> y | Some _ \<Rightarrow> x)"

definition mark_status ::
  "string \<Rightarrow> string \<Rightarrow> string option \<Rightarrow> string option \<Rightarrow> real \<Rightarrow> ledger \<Rightarrow> ledger" where
  "mark_status i status cause outcome now lg =
     lg\<lparr>lg_rows := map (\<lambda>r. if iv_id r = i
       then r\<lparr>iv_status := status, iv_root_cause := coalesce cause (iv_root_cause r),
              iv_outcome := coalesce outcome (iv_outcome r),
              iv_completed := (if terminal_status status then Some now else iv_completed r)\<rparr>
       else r) (lg_rows lg)\<rparr>"

definition append_event :: "string \<Rightarrow> string \<Rightarrow> obj \<Rightarrow> string list \<Rightarrow> ledger \<Rightarrow> nat \<times> ledger" where
  "append_event i ty payload tags lg =
     (lg_next lg,
      lg\<lparr>lg_events := lg_events lg @ [\<lparr>ev_seq = lg_next lg, ev_inv = i, ev_type = ty, ev_payload = payload, ev_tags = tags\<rparr>],
         lg_next := lg_next lg + 1\<rparr>)"

text \<open>\<open>emit_event\<close> swallows the failure of the append.\<close>

definition emit_event :: "bool \<Rightarrow> string \<Rightarrow> string \<Rightarrow> obj \<Rightarrow> string list \<Rightarrow> ledger \<Rightarrow> nat option \<times> ledger" where
  "emit_event ok i ty payload tags lg =
     (if ok then (case append_event i ty payload tags lg of (n, lg') \<Rightarrow> (Some n, lg')) else (None, lg))"

definition events_after :: "ledger \<Rightarrow> string \<Rightarrow> nat \<Rightarrow> event list" where
  "events_after lg i since = filter (\<lambda>e. ev_inv e = i \<and> since < ev_seq e) (sort_key ev_seq (lg_events lg))"

definition list_events_since :: "ledger \<Rightarrow> string \<Rightarrow> nat \<Rightarrow> nat \<Rightarrow> event list" where
  "list_events_since lg i since limit = take limit (events_after lg i since)"

definition list_all_events :: "ledger \<Rightarrow> string \<Rightarrow> event list" where
  "list_all_events lg i = list_events_since lg i 0 10000"

subsection \<open>Facts on the tables\<close>

text \<open>The ledger is in sequence order and below the counter.\<close>

definition ledger_ok :: "ledger \<Rightarrow> bool" where
  "ledger_ok lg \<longleftrightarrow> sorted_wrt (<) (map ev_seq (lg_events lg)) \<and> (\<forall>e \<in> set (lg_events lg). 0 < ev_seq e \<and> ev_seq e < lg_next lg)
     \<and> 0 < lg_next lg"

lemma ledger_ok_new: "ledger_ok new_ledger"
  by (simp add: ledger_ok_def new_ledger_def)

lemma ledger_ok_append: "ledger_ok lg \<Longrightarrow> ledger_ok (snd (append_event i ty payload tags lg))"
  by (auto simp: ledger_ok_def append_event_def sorted_wrt_append less_Suc_eq)

lemma ledger_ok_mark: "ledger_ok lg \<Longrightarrow> ledger_ok (mark_status i status cause outcome now lg)"
  by (simp add: ledger_ok_def mark_status_def)

lemma events_after_ok:
  "ledger_ok lg \<Longrightarrow> events_after lg i since = filter (\<lambda>e. ev_inv e = i \<and> since < ev_seq e) (lg_events lg)"
  by (simp add: events_after_def ledger_ok_def sort_key_id_if_sorted strict_sorted_imp_sorted)

lemma events_after_mark [simp]: "events_after (mark_status j status cause outcome now lg) i since = events_after lg i since"
  by (simp add: events_after_def mark_status_def)

lemma events_after_append:
  assumes "ledger_ok lg" "since < lg_next lg"
  shows "events_after (snd (append_event j ty payload tags lg)) i since =
     events_after lg i since
     @ (if j = i then [\<lparr>ev_seq = lg_next lg, ev_inv = j, ev_type = ty, ev_payload = payload, ev_tags = tags\<rparr>] else [])"
  using events_after_ok [OF ledger_ok_append [OF assms(1), of j ty payload tags], of i since]
    events_after_ok [OF assms(1), of i since] assms(2)
  by (simp add: append_event_def)

lemma split_sorted_filter:
  "sorted_wrt (<) (map f xs) \<Longrightarrow> filter P xs = ys @ zs \<Longrightarrow> ys \<noteq> [] \<Longrightarrow>
     filter (\<lambda>e. P e \<and> f (last ys) < f e) xs = zs" for f :: "'a \<Rightarrow> nat"
proof -
  assume s: "sorted_wrt (<) (map f xs)" and f: "filter P xs = ys @ zs" and ne: "ys \<noteq> []"
  have srt: "sorted_wrt (\<lambda>x y. f x < f y) (ys @ zs)"
    using sorted_wrt_filter [of "\<lambda>x y. f x < f y" xs P] s f by (simp add: sorted_wrt_map)
  have "filter (\<lambda>e. P e \<and> f (last ys) < f e) xs = filter (\<lambda>e. f (last ys) < f e) (filter P xs)"
    by (simp add: conj_commute)
  also have "\<dots> = filter (\<lambda>e. f (last ys) < f e) ys @ filter (\<lambda>e. f (last ys) < f e) zs" by (simp add: f)
  also have "filter (\<lambda>e. f (last ys) < f e) ys = []"
  proof -
    have "sorted_wrt (\<lambda>x y. f x < f y) (butlast ys @ [last ys])" using srt ne by (simp add: sorted_wrt_append)
    then have "f e \<le> f (last ys)" if "e \<in> set ys" for e
      using that ne by (cases ys rule: rev_cases) (auto simp: sorted_wrt_append)
    then show ?thesis by (fastforce simp: filter_empty_conv)
  qed
  also have "filter (\<lambda>e. f (last ys) < f e) zs = zs"
    using srt ne by (auto simp: sorted_wrt_append filter_id_conv)
  finally show ?thesis by simp
qed

text \<open>Reading on from the last event of a batch gives what the batch left.\<close>

lemma events_after_last:
  assumes "ledger_ok lg" "events_after lg i since = ys @ zs" "ys \<noteq> []"
  shows "events_after lg i (ev_seq (last ys)) = zs"
proof -
  have l: "last ys \<in> set (events_after lg i since)" using assms(2,3) by simp
  then have gt: "since < ev_seq (last ys)" using assms(1) by (simp add: events_after_ok)
  have s: "sorted_wrt (<) (map ev_seq (lg_events lg))" using assms(1) by (simp add: ledger_ok_def)
  have "filter (\<lambda>e. (ev_inv e = i \<and> since < ev_seq e) \<and> ev_seq (last ys) < ev_seq e) (lg_events lg) = zs"
    using split_sorted_filter [OF s _ assms(3), of "\<lambda>e. ev_inv e = i \<and> since < ev_seq e" zs] assms(1,2)
    by (simp add: events_after_ok)
  moreover have "filter (\<lambda>e. (ev_inv e = i \<and> since < ev_seq e) \<and> ev_seq (last ys) < ev_seq e) (lg_events lg)
      = filter (\<lambda>e. ev_inv e = i \<and> ev_seq (last ys) < ev_seq e) (lg_events lg)"
    by (rule filter_cong [OF refl]) (use gt in auto)
  ultimately show ?thesis using assms(1) by (simp add: events_after_ok)
qed

subsection \<open>The stream and its subscriber\<close>

datatype phase = Reading | Checking bool | Ended

record stream =
  sm_cursor :: nat
  sm_polls :: nat
  sm_phase :: phase

definition stream_open :: "nat \<Rightarrow> stream" where
  "stream_open since = \<lparr>sm_cursor = since, sm_polls = 60, sm_phase = Reading\<rparr>"

text \<open>One round of the generator: it reads rows, and later the status. A batch is at most 200 rows.\<close>

definition stream_read :: "ledger \<Rightarrow> string \<Rightarrow> stream \<Rightarrow> event list \<times> stream" where
  "stream_read lg i s =
     (let rows = list_events_since lg i (sm_cursor s) 200
      in (rows, s\<lparr>sm_cursor := (if rows = [] then sm_cursor s else ev_seq (last rows)), sm_phase := Checking (rows = [])\<rparr>))"

text \<open>The flag says that the closing frame is sent.\<close>

definition stream_check :: "ledger \<Rightarrow> string \<Rightarrow> bool \<Rightarrow> stream \<Rightarrow> bool \<times> stream" where
  "stream_check lg i idle s =
     (case get_investigation lg i of
        Some r \<Rightarrow> if terminal_status (iv_status r) \<and> idle then (True, s\<lparr>sm_phase := Ended\<rparr>)
                  else (False, s\<lparr>sm_polls := sm_polls s - 1, sm_phase := (if sm_polls s \<le> 1 then Ended else Reading)\<rparr>)
      | None \<Rightarrow> (False, s\<lparr>sm_polls := sm_polls s - 1, sm_phase := (if sm_polls s \<le> 1 then Ended else Reading)\<rparr>))"

text \<open>The subscriber keeps the highest sequence it has seen and connects again from there until it sees a terminal event.\<close>

record subscriber =
  sb_seq :: nat
  sb_seen :: "event list"
  sb_done :: bool
  sb_conn :: "stream option"

definition new_subscriber :: "nat \<Rightarrow> subscriber" where
  "new_subscriber since = \<lparr>sb_seq = since, sb_seen = [], sb_done = False, sb_conn = None\<rparr>"

definition terminal_type :: "string \<Rightarrow> bool" where
  "terminal_type ty \<longleftrightarrow> ty \<in> {''investigation_completed'', ''investigation_failed''}"

fun receive :: "event list \<Rightarrow> subscriber \<Rightarrow> subscriber" where
  "receive [] c = c"
| "receive (e # es) c =
     (let c' = c\<lparr>sb_seq := max (sb_seq c) (ev_seq e), sb_seen := sb_seen c @ [e]\<rparr>
      in if terminal_type (ev_type e) then c'\<lparr>sb_done := True, sb_conn := None\<rparr> else receive es c')"

text \<open>A connection may break anywhere, also inside a batch.\<close>

inductive watch_step :: "string \<Rightarrow> ledger \<times> subscriber \<Rightarrow> ledger \<times> subscriber \<Rightarrow> bool" for i where
  Write: "watch_step i (lg, c) (snd (append_event j ty payload tags lg), c)"
| Mark: "watch_step i (lg, c) (mark_status j status cause outcome now lg, c)"
| Connect: "sb_conn c = None \<Longrightarrow> \<not> sb_done c \<Longrightarrow> watch_step i (lg, c) (lg, c\<lparr>sb_conn := Some (stream_open (sb_seq c))\<rparr>)"
| Read: "sb_conn c = Some s \<Longrightarrow> sm_phase s = Reading \<Longrightarrow> stream_read lg i s = (rows, s')
    \<Longrightarrow> watch_step i (lg, c) (lg, receive rows (c\<lparr>sb_conn := Some s'\<rparr>))"
| Break: "sb_conn c = Some s \<Longrightarrow> sm_phase s = Reading \<Longrightarrow> stream_read lg i s = (rows, s')
    \<Longrightarrow> watch_step i (lg, c) (lg, receive (take k rows) (c\<lparr>sb_conn := None\<rparr>))"
| Check: "sb_conn c = Some s \<Longrightarrow> sm_phase s = Checking idle \<Longrightarrow> stream_check lg i idle s = (shut, s')
    \<Longrightarrow> watch_step i (lg, c) (lg, c\<lparr>sb_conn := (if sm_phase s' = Ended then None else Some s')\<rparr>)"
| Drop: "watch_step i (lg, c) (lg, c\<lparr>sb_conn := None\<rparr>)"

inductive_cases watch_stepE: "watch_step i (lg, c) (lg', c')"

text \<open>What the subscriber has seen is what was written after its start, up to its cursor.\<close>

definition watching :: "string \<Rightarrow> nat \<Rightarrow> ledger \<times> subscriber \<Rightarrow> bool" where
  "watching i since = (\<lambda>(lg, c). ledger_ok lg \<and> since < lg_next lg \<and> sb_seq c < lg_next lg
     \<and> events_after lg i since = sb_seen c @ events_after lg i (sb_seq c)
     \<and> (sb_done c \<longleftrightarrow> (\<exists>e \<in> set (sb_seen c). terminal_type (ev_type e)))
     \<and> (\<forall>e \<in> set (butlast (sb_seen c)). \<not> terminal_type (ev_type e))
     \<and> (sb_done c \<longrightarrow> sb_conn c = None)
     \<and> (\<forall>s. sb_conn c = Some s \<longrightarrow> sm_cursor s = sb_seq c))"

lemma receive_pending:
  assumes "ledger_ok lg" "events_after lg i (sb_seq c) = es @ rest" "\<not> sb_done c"
  shows "\<exists>got. prefix got es \<and> sb_seen (receive es c) = sb_seen c @ got
     \<and> events_after lg i (sb_seq c) = got @ events_after lg i (sb_seq (receive es c))
     \<and> sb_done (receive es c) = (\<exists>e \<in> set got. terminal_type (ev_type e))
     \<and> (\<forall>e \<in> set (butlast got). \<not> terminal_type (ev_type e))
     \<and> (got = es \<or> sb_done (receive es c))
     \<and> sb_conn (receive es c) = (if sb_done (receive es c) then None else sb_conn c)
     \<and> sb_seq (receive es c) = (if got = [] then sb_seq c else ev_seq (last got))"
  using assms(2,3)
proof (induction es arbitrary: c)
  case Nil
  then show ?case by simp
next
  case (Cons e es)
  have gt: "sb_seq c < ev_seq e"
  proof -
    have "e \<in> set (events_after lg i (sb_seq c))" using Cons.prems(1) by simp
    then show ?thesis using assms(1) by (simp add: events_after_ok)
  qed
  define c' where "c' = c\<lparr>sb_seq := ev_seq e, sb_seen := sb_seen c @ [e]\<rparr>"
  have rest: "events_after lg i (ev_seq e) = es @ rest"
    using events_after_last [OF assms(1), of i "sb_seq c" "[e]" "es @ rest"] Cons.prems(1) by simp
  have rc: "receive (e # es) c = (if terminal_type (ev_type e) then c'\<lparr>sb_done := True, sb_conn := None\<rparr> else receive es c')"
    using gt by (simp add: c'_def Let_def max_def)
  show ?case
  proof (cases "terminal_type (ev_type e)")
    case True
    then show ?thesis
      using rc rest Cons.prems(1) by (intro exI [of _ "[e]"]) (simp add: c'_def)
  next
    case False
    have "events_after lg i (sb_seq c') = es @ rest" "\<not> sb_done c'" using rest Cons.prems(2) by (simp_all add: c'_def)
    from Cons.IH [OF this] obtain got where g:
      "prefix got es" "sb_seen (receive es c') = sb_seen c' @ got"
      "events_after lg i (sb_seq c') = got @ events_after lg i (sb_seq (receive es c'))"
      "sb_done (receive es c') = (\<exists>e \<in> set got. terminal_type (ev_type e))"
      "\<forall>e \<in> set (butlast got). \<not> terminal_type (ev_type e)"
      "got = es \<or> sb_done (receive es c')"
      "sb_conn (receive es c') = (if sb_done (receive es c') then None else sb_conn c')"
      "sb_seq (receive es c') = (if got = [] then sb_seq c' else ev_seq (last got))"
      by blast
    have c': "sb_seen c' = sb_seen c @ [e]" "sb_conn c' = sb_conn c" "sb_seq c' = ev_seq e" by (simp_all add: c'_def)
    have r: "receive (e # es) c = receive es c'" using rc False by simp
    have h1: "prefix (e # got) (e # es)" using g(1) by simp
    have h2: "sb_seen (receive es c') = sb_seen c @ e # got" using g(2) c'(1) by simp
    have h3: "events_after lg i (sb_seq c) = (e # got) @ events_after lg i (sb_seq (receive es c'))"
      using g(3) c'(3) rest Cons.prems(1) by simp
    have h4: "sb_done (receive es c') = (\<exists>e \<in> set (e # got). terminal_type (ev_type e))" using g(4) False by simp
    have h5: "\<forall>e \<in> set (butlast (e # got)). \<not> terminal_type (ev_type e)" using g(5) False by simp
    have h6: "e # got = e # es \<or> sb_done (receive es c')" using g(6) by blast
    have h7: "sb_conn (receive es c') = (if sb_done (receive es c') then None else sb_conn c)" using g(7) c'(2) by simp
    have h8: "sb_seq (receive es c') = (if e # got = [] then sb_seq c else ev_seq (last (e # got)))"
      using g(8) c'(3) by simp
    show ?thesis unfolding r by (intro exI [of _ "e # got"] conjI) (fact h1 h2 h3 h4 h5 h6 h7 h8)+
  qed
qed

lemma watching_receive:
  assumes "watching i since (lg, c)" "\<not> sb_done c" "events_after lg i (sb_seq c) = rows @ rest"
    and "c1 = c\<lparr>sb_conn := conn\<rparr>"
    and "\<And>s. conn = Some s \<Longrightarrow> sm_cursor s = (if rows = [] then sb_seq c else ev_seq (last rows))"
  shows "watching i since (lg, receive rows c1)"
proof -
  have ok: "ledger_ok lg" using assms(1) by (simp add: watching_def)
  have c1: "sb_seen c1 = sb_seen c" "sb_conn c1 = conn" "sb_seq c1 = sb_seq c" using assms(4) by simp_all
  have "events_after lg i (sb_seq c1) = rows @ rest" "\<not> sb_done c1" using assms(2-4) by simp_all
  from receive_pending [OF ok this] obtain got where g:
    "prefix got rows" "sb_seen (receive rows c1) = sb_seen c @ got"
    "events_after lg i (sb_seq c) = got @ events_after lg i (sb_seq (receive rows c1))"
    "sb_done (receive rows c1) = (\<exists>e \<in> set got. terminal_type (ev_type e))"
    "\<forall>e \<in> set (butlast got). \<not> terminal_type (ev_type e)" "got = rows \<or> sb_done (receive rows c1)"
    "sb_conn (receive rows c1) = (if sb_done (receive rows c1) then None else conn)"
    "sb_seq (receive rows c1) = (if got = [] then sb_seq c else ev_seq (last got))"
    unfolding c1 by blast
  have w: "since < lg_next lg" "sb_seq c < lg_next lg" "events_after lg i since = sb_seen c @ events_after lg i (sb_seq c)"
    "\<forall>e \<in> set (sb_seen c). \<not> terminal_type (ev_type e)"
    using assms(1,2) by (auto simp: watching_def)
  have "got \<noteq> [] \<Longrightarrow> last got \<in> set (events_after lg i (sb_seq c))" using g(3) by simp
  then have "got \<noteq> [] \<Longrightarrow> ev_seq (last got) < lg_next lg" using ok by (auto simp: events_after_ok ledger_ok_def)
  then have "sb_seq (receive rows c1) < lg_next lg" using g(8) w(2) by simp
  moreover have "\<forall>e \<in> set (butlast (sb_seen c @ got)). \<not> terminal_type (ev_type e)"
    using g(5) w(4) by (auto simp: butlast_append dest: in_set_butlastD)
  moreover have "sm_cursor s = sb_seq (receive rows c1)" if "sb_conn (receive rows c1) = Some s" for s
    using that g(6-8) assms(5) by (auto split: if_splits)
  ultimately show ?thesis
    unfolding watching_def using ok w g(2-4,7) by auto
qed

lemma watching_step:
  assumes "watch_step i st st'" "watching i since st"
  shows "watching i since st'"
  using assms(1)
proof cases
  case (Write lg c j ty payload tags)
  have "ledger_ok lg" "since < lg_next lg" "sb_seq c < lg_next lg" using assms(2) Write by (simp_all add: watching_def)
  then show ?thesis using assms(2) Write ledger_ok_append
    by (auto simp: watching_def events_after_append, auto simp: append_event_def)
next
  case (Mark lg c j status cause outcome now)
  then show ?thesis using assms(2) by (auto simp: watching_def ledger_ok_mark, auto simp: mark_status_def)
next
  case (Connect c lg)
  then show ?thesis using assms(2) by (auto simp: watching_def stream_open_def)
next
  case (Read c s lg rows s')
  have rows: "rows = take 200 (events_after lg i (sb_seq c))" "\<not> sb_done c"
    "sm_cursor s' = (if rows = [] then sb_seq c else ev_seq (last rows))"
    using assms(2) Read by (auto simp: watching_def stream_read_def Let_def list_events_since_def)
  show ?thesis
    unfolding Read(2) using watching_receive [OF assms(2) [unfolded Read(1)] rows(2) _ refl, of rows "drop 200 (events_after lg i (sb_seq c))" "Some s'"]
    using rows by simp
next
  case (Break c s lg rows s' k)
  have rows: "rows = take 200 (events_after lg i (sb_seq c))" "\<not> sb_done c"
    using assms(2) Break by (auto simp: watching_def stream_read_def Let_def list_events_since_def)
  have "events_after lg i (sb_seq c) = take k rows @ drop (min k 200) (events_after lg i (sb_seq c))"
    by (simp add: rows(1) min_def)
  from watching_receive [OF assms(2) [unfolded Break(1)] rows(2) this refl, of None] show ?thesis
    unfolding Break(2) by simp
next
  case (Check c s idle lg shut s')
  then have "sm_cursor s' = sm_cursor s" by (auto simp: stream_check_def split: option.splits if_splits)
  with Check assms(2) show ?thesis by (auto simp: watching_def)
next
  case (Drop lg c)
  then show ?thesis using assms(2) by (auto simp: watching_def)
qed

lemma watching_start: "ledger_ok lg \<Longrightarrow> since < lg_next lg \<Longrightarrow> watching i since (lg, new_subscriber since)"
  by (simp add: watching_def new_subscriber_def)

lemma watching_run: "(watch_step i)\<^sup>*\<^sup>* st st' \<Longrightarrow> watching i since st \<Longrightarrow> watching i since st'"
  by (induction rule: rtranclp_induct) (auto intro: watching_step)

text \<open>One fresh connection without writes in between makes progress.\<close>

lemma watch_progress:
  assumes "watching i since (lg, c)" "\<not> sb_done c" "events_after lg i (sb_seq c) \<noteq> []"
  shows "\<exists>c'. (watch_step i)\<^sup>*\<^sup>* (lg, c) (lg, c') \<and> watching i since (lg, c')
     \<and> (sb_done c' \<or> length (events_after lg i (sb_seq c')) < length (events_after lg i (sb_seq c)))"
proof -
  define c1 where "c1 = c\<lparr>sb_conn := None\<rparr>"
  define c2 where "c2 = c1\<lparr>sb_conn := Some (stream_open (sb_seq c1))\<rparr>"
  obtain rows s' where rd: "stream_read lg i (stream_open (sb_seq c1)) = (rows, s')" by fastforce
  define c3 where "c3 = receive rows (c2\<lparr>sb_conn := Some s'\<rparr>)"
  have s1: "watch_step i (lg, c) (lg, c1)" unfolding c1_def by (rule Drop)
  have s2: "watch_step i (lg, c1) (lg, c2)" unfolding c2_def by (rule Connect) (simp_all add: c1_def assms(2))
  have s3: "watch_step i (lg, c2) (lg, c3)"
    unfolding c3_def by (rule Read [OF _ _ rd]) (simp_all add: c2_def stream_open_def)
  have run: "(watch_step i)\<^sup>*\<^sup>* (lg, c) (lg, c3)"
    using s1 s2 s3 by (meson converse_rtranclp_into_rtranclp rtranclp.rtrancl_refl)
  have w3: "watching i since (lg, c3)" by (rule watching_run [OF run assms(1)])
  have ok: "ledger_ok lg" using assms(1) by (simp add: watching_def)
  have rows: "rows = take 200 (events_after lg i (sb_seq c))"
    using rd by (simp add: stream_read_def Let_def list_events_since_def stream_open_def c1_def)
  define c4 where "c4 = c2\<lparr>sb_conn := Some s'\<rparr>"
  have c4: "c3 = receive rows c4" "sb_seq c4 = sb_seq c" "\<not> sb_done c4"
    using assms(2) by (simp_all add: c3_def c4_def c2_def c1_def)
  have "events_after lg i (sb_seq c4) = rows @ drop 200 (events_after lg i (sb_seq c))" by (simp add: rows c4)
  from receive_pending [OF ok this c4(3)] obtain got where got:
    "events_after lg i (sb_seq c) = got @ events_after lg i (sb_seq c3)" "got = rows \<or> sb_done c3"
    unfolding c4(1) c4(2) by blast
  have "sb_done c3 \<or> length (events_after lg i (sb_seq c3)) < length (events_after lg i (sb_seq c))"
  proof (cases "sb_done c3")
    case False
    then have "got \<noteq> []" using got(2) assms(3) by (simp add: rows)
    then show ?thesis by (subst got(1)) simp
  qed simp
  with run w3 show ?thesis by blast
qed

lemma watch_finishes:
  assumes "watching i since (lg, c)" "e \<in> set (events_after lg i since)" "terminal_type (ev_type e)"
  shows "\<exists>c'. (watch_step i)\<^sup>*\<^sup>* (lg, c) (lg, c') \<and> sb_done c'"
  using assms(1)
proof (induction "length (events_after lg i (sb_seq c))" arbitrary: c rule: less_induct)
  case less
  show ?case
  proof (cases "sb_done c")
    case False
    then have "events_after lg i (sb_seq c) \<noteq> []" using less.prems assms(2,3) by (auto simp: watching_def)
    from watch_progress [OF less.prems False this] obtain c' where c':
      "(watch_step i)\<^sup>*\<^sup>* (lg, c) (lg, c')" "watching i since (lg, c')"
      "sb_done c' \<or> length (events_after lg i (sb_seq c')) < length (events_after lg i (sb_seq c))" by blast
    then show ?thesis using less.hyps [OF _ c'(2)] by (meson rtranclp_trans)
  qed blast
qed

text \<open>C26: Whatever the runner writes, however the streams are cut off, time out or close, the subscriber sees the events of
  its investigation once each, in order and without a gap, up to the first terminal one, where it stops; and when a
  terminal event has been written it can always still get there.\<close>

theorem watch_exactly_once:
  assumes "ledger_ok lg" "since < lg_next lg" "(watch_step i)\<^sup>*\<^sup>* (lg, new_subscriber since) (lg', c)"
  shows "events_after lg' i since = sb_seen c @ events_after lg' i (sb_seq c)
     \<and> (\<forall>e \<in> set (butlast (sb_seen c)). \<not> terminal_type (ev_type e))
     \<and> (sb_done c \<longleftrightarrow> sb_seen c \<noteq> [] \<and> terminal_type (ev_type (last (sb_seen c))))
     \<and> ((\<exists>e \<in> set (events_after lg' i since). terminal_type (ev_type e))
          \<longrightarrow> (\<exists>c'. (watch_step i)\<^sup>*\<^sup>* (lg', c) (lg', c') \<and> sb_done c'))"
proof -
  have w: "watching i since (lg', c)" using watching_run [OF assms(3) watching_start [OF assms(1,2)]] .
  have "sb_done c \<longleftrightarrow> sb_seen c \<noteq> [] \<and> terminal_type (ev_type (last (sb_seen c)))"
    using w by (cases "sb_seen c" rule: rev_cases) (auto simp: watching_def)
  moreover have "\<exists>c'. (watch_step i)\<^sup>*\<^sup>* (lg', c) (lg', c') \<and> sb_done c'"
    if "\<exists>e \<in> set (events_after lg' i since). terminal_type (ev_type e)"
    using watch_finishes [OF w] that by blast
  moreover have "events_after lg' i since = sb_seen c @ events_after lg' i (sb_seq c)"
    "\<forall>e \<in> set (butlast (sb_seen c)). \<not> terminal_type (ev_type e)"
    using w by (simp_all add: watching_def)
  ultimately show ?thesis by blast
qed

text \<open>A ledger with a finished investigation, for the witness.\<close>

definition demo_ledger :: ledger where
  "demo_ledger = snd (append_event ''i'' ''investigation_completed'' [] []
     (snd (append_event ''j'' ''investigation_started'' [] []
     (snd (append_event ''i'' ''investigation_started'' [] [] (create_row ''i'' ''a'' None 0 new_ledger))))))"

theorem watch_exactly_once_witness:
  "\<exists>c. (watch_step ''i'')\<^sup>*\<^sup>* (demo_ledger, new_subscriber 0) (demo_ledger, c) \<and> sb_done c"
proof -
  have ok: "ledger_ok demo_ledger"
    unfolding demo_ledger_def by (intro ledger_ok_append) (simp add: ledger_ok_def create_row_def new_ledger_def)
  have "\<exists>e \<in> set (events_after demo_ledger ''i'' 0). terminal_type (ev_type e)" by code_simp
  moreover have "0 < lg_next demo_ledger" by (simp add: demo_ledger_def append_event_def create_row_def new_ledger_def)
  ultimately show ?thesis
    using watch_exactly_once [OF ok _ rtranclp.rtrancl_refl, of 0 "''i''"] by blast
qed

lemma find_mapped:
  "(\<And>r. iv_id (f r) = iv_id r) \<Longrightarrow> find (\<lambda>r. iv_id r = i) (map (\<lambda>r. if iv_id r = i then f r else r) rs)
     = map_option f (find (\<lambda>r. iv_id r = i) rs)"
  by (induction rs) auto

text \<open>The closing frame may overtake events. The rows are read before the status: what the runner writes in between,
  such as the mark and its last event, is not drained; the subscriber gets it by connecting again.\<close>

lemma close_overtakes_events:
  assumes "get_investigation lg i = Some r" "events_after lg i (sm_cursor s) = []" "ledger_ok lg" "sm_cursor s < lg_next lg"
    and "stream_read lg i s = (rows, s1)"
    and "lg2 = mark_status i ''completed'' None None now lg"
    and "lg3 = snd (append_event i ''investigation_completed'' payload [] lg2)"
  shows "\<exists>s2. stream_check lg2 i (rows = []) s1 = (True, s2) \<and> events_after lg3 i (sm_cursor s2) \<noteq> []"
proof -
  have rows: "rows = []" "sm_cursor s1 = sm_cursor s"
    using assms(2,5) by (auto simp: stream_read_def list_events_since_def)
  have "get_investigation lg2 i = map_option (\<lambda>r. r\<lparr>iv_status := ''completed'', iv_completed := Some now\<rparr>) (get_investigation lg i)"
    by (simp add: assms(6) mark_status_def get_investigation_def find_mapped coalesce_def terminal_status_def)
  then have "\<exists>r'. get_investigation lg2 i = Some r' \<and> iv_status r' = ''completed''" using assms(1) by simp
  then obtain r' where r': "get_investigation lg2 i = Some r'" "iv_status r' = ''completed''" by blast
  have "ledger_ok lg2" "lg_next lg2 = lg_next lg" using assms(3) by (simp_all add: assms(6) ledger_ok_mark, simp add: mark_status_def)
  then have "events_after lg3 i (sm_cursor s) \<noteq> []" using assms(4) by (simp add: assms(7) events_after_append)
  with rows r' show ?thesis by (simp add: stream_check_def terminal_status_def)
qed

end
