(* ===== verification/Alert_Text.thy ===== *)
theory Alert_Text
  imports Py_Prelude
begin

text \<open>
  What an investigation reads out of the text of an alert (\<open>investigations/runner.py\<close>): the service, the environment,
  the namespace, the reference to a Rootly alert, and the root cause of an answer. Each regular expression is a
  matcher at one position, a function from the rest of the text to its match, and \<open>first_match\<close> is \<open>re.search\<close>.
  \<open>IGNORECASE\<close> on characters below 256 is \<open>py_lower\<close>.
\<close>

subsection \<open>Matching\<close>

fun first_match :: "(string \<Rightarrow> 'a option) \<Rightarrow> string \<Rightarrow> 'a option" where
  "first_match m [] = m []"
| "first_match m (c # cs) = (case m (c # cs) of Some x \<Rightarrow> Some x | None \<Rightarrow> first_match m cs)"

fun all_matches :: "(string \<Rightarrow> 'a option) \<Rightarrow> string \<Rightarrow> 'a list" where
  "all_matches m [] = (case m [] of Some x \<Rightarrow> [x] | None \<Rightarrow> [])"
| "all_matches m (c # cs) = (case m (c # cs) of Some x \<Rightarrow> x # all_matches m cs | None \<Rightarrow> all_matches m cs)"

text \<open>\<open>re.sub\<close> of a pattern given by the length of its match, which is not empty.\<close>

fun re_sub :: "(string \<Rightarrow> nat option) \<Rightarrow> string \<Rightarrow> nat \<Rightarrow> string \<Rightarrow> string" where
  "re_sub m r skip [] = []"
| "re_sub m r skip (c # cs) =
     (if 0 < skip then re_sub m r (skip - 1) cs
      else case m (c # cs) of Some n \<Rightarrow> r @ re_sub m r (n - 1) cs | None \<Rightarrow> c # re_sub m r 0 cs)"

definition strip_prefix :: "string \<Rightarrow> string \<Rightarrow> string option" where
  "strip_prefix p s = (if prefix p s then Some (drop (length p) s) else None)"

definition strip_prefix_ci :: "string \<Rightarrow> string \<Rightarrow> string option" where
  "strip_prefix_ci p s = (if py_lower (take (length p) s) = p then Some (drop (length p) s) else None)"

definition skip_spaces :: "string \<Rightarrow> string" where
  "skip_spaces s = dropWhile is_space s"

definition in_range :: "char \<Rightarrow> char \<Rightarrow> char \<Rightarrow> bool" where
  "in_range lo hi c \<longleftrightarrow> (of_char lo :: nat) \<le> of_char c \<and> (of_char c :: nat) \<le> of_char hi"

definition is_digit :: "char \<Rightarrow> bool" where "is_digit c \<longleftrightarrow> in_range CHR ''0'' CHR ''9'' c"
definition is_lower :: "char \<Rightarrow> bool" where "is_lower c \<longleftrightarrow> in_range CHR ''a'' CHR ''z'' c"
definition is_letter :: "char \<Rightarrow> bool" where "is_letter c \<longleftrightarrow> is_lower c \<or> in_range CHR ''A'' CHR ''Z'' c"

text \<open>\<open>[a-z0-9]\<close> and \<open>[a-z0-9\-_]\<close>, with either case.\<close>

definition name_start :: "char \<Rightarrow> bool" where
  "name_start c \<longleftrightarrow> is_letter c \<or> is_digit c"

definition name_char :: "char \<Rightarrow> bool" where
  "name_char c \<longleftrightarrow> name_start c \<or> c = CHR ''-'' \<or> c = CHR ''_''"

text \<open>\<open>[:=]\<close> with spaces around.\<close>

definition separator_then :: "string \<Rightarrow> string option" where
  "separator_then s =
     (case skip_spaces s of
        c # cs \<Rightarrow> if c = CHR '':'' \<or> c = CHR ''='' then Some (skip_spaces cs) else None
      | [] \<Rightarrow> None)"

subsection \<open>Service and environment\<close>

definition placeholder_values :: "string list" where
  "placeholder_values = [''none'', ''null'', ''nil'', ''unknown'', ''n/a'', ''na'', ''<none>'', ''<unknown>'', []]"

definition target_stopwords :: "string list" where
  "target_stopwords =
     [''p1'', ''p2'', ''p3'', ''p4'', ''p5'', ''sev1'', ''sev2'', ''sev3'', ''sev4'', ''sev5''] @ placeholder_values"

definition env_words :: "string list" where
  "env_words = [''preprod'', ''prod'', ''staging'', ''shared'', ''production'', ''sandbox'', ''dev'']"

text \<open>A name up to the closing bracket.\<close>

definition bracket_name :: "(char \<Rightarrow> bool) \<Rightarrow> nat \<Rightarrow> string \<Rightarrow> string option" where
  "bracket_name start least s =
     (let n = takeWhile name_char s
      in if n \<noteq> [] \<and> start (hd n) \<and> least \<le> length n \<and> prefix '']'' (drop (length n) s) then Some n else None)"

definition env_slot :: "string \<Rightarrow> (string \<times> string) option" where
  "env_slot s =
     (case List.map_filter (\<lambda>e. case strip_prefix_ci (e @ ''/k8s/'') s of
             None \<Rightarrow> None
           | Some rest \<Rightarrow> map_option (\<lambda>n. (take (length e) s, n)) (bracket_name name_start 1 rest)) env_words of
        [] \<Rightarrow> None | x # _ \<Rightarrow> Some x)"

text \<open>\<open>p\d+/\<close>, which is optional.\<close>

definition priority_slot :: "string \<Rightarrow> string option" where
  "priority_slot s =
     (case strip_prefix_ci ''p'' s of
        None \<Rightarrow> None
      | Some r \<Rightarrow> (if takeWhile is_digit r = [] then None else strip_prefix ''/'' (dropWhile is_digit r)))"

definition match_env_target :: "string \<Rightarrow> (string \<times> string) option" where
  "match_env_target s =
     (case strip_prefix ''['' s of
        None \<Rightarrow> None
      | Some r \<Rightarrow> (case map_option env_slot (priority_slot r) of Some (Some x) \<Rightarrow> Some x | _ \<Rightarrow> env_slot r))"

definition match_plain_target :: "string \<Rightarrow> string option" where
  "match_plain_target s =
     (case strip_prefix ''['' s of None \<Rightarrow> None | Some r \<Rightarrow> bracket_name is_letter 4 r)"

definition good_target :: "string \<Rightarrow> bool" where
  "good_target n \<longleftrightarrow> n \<noteq> [] \<and> n \<notin> set target_stopwords \<and> 3 \<le> length n"

definition extract_target :: "string \<Rightarrow> string option" where
  "extract_target s =
     find good_target (map (py_lower \<circ> snd) (all_matches match_env_target s) @ map py_lower (all_matches match_plain_target s))"

definition match_env_field :: "string \<Rightarrow> string option" where
  "match_env_field s =
     (case strip_prefix_ci ''environment'' s of
        None \<Rightarrow> None
      | Some r \<Rightarrow> (case separator_then r of
          None \<Rightarrow> None
        | Some v \<Rightarrow> (let w = take 12 (takeWhile is_letter v) in if length w < 2 then None else Some w)))"

definition extract_env :: "string \<Rightarrow> string option" where
  "extract_env s =
     (let known = [''prod'', ''preprod'', ''staging'', ''shared''];
          field = (case first_match match_env_field s of
             None \<Rightarrow> None
           | Some w \<Rightarrow> (let e = py_lower w in
               if e = ''production'' then Some ''prod'' else if e \<in> set known then Some e else None))
      in case first_match match_env_target s of
           None \<Rightarrow> field
         | Some (e0, n) \<Rightarrow> (let e = py_lower e0 in
             if e = ''production'' then Some ''prod''
             else if e = ''sandbox'' \<or> e = ''dev'' then Some ''shared''
             else if e \<in> set known then Some e else field))"

definition match_namespace_field :: "string \<Rightarrow> string option" where
  "match_namespace_field s =
     (case strip_prefix_ci ''k8s_namespace'' s of
        None \<Rightarrow> None
      | Some r \<Rightarrow> (case separator_then r of
          None \<Rightarrow> None
        | Some v \<Rightarrow> (if v \<noteq> [] \<and> name_start (hd v) then Some (takeWhile name_char v) else None)))"

definition extract_namespace :: "string \<Rightarrow> string option" where
  "extract_namespace s =
     (case first_match match_namespace_field s of Some n \<Rightarrow> Some (py_lower n) | None \<Rightarrow> extract_target s)"

subsection \<open>A Rootly payload\<close>

definition newline_char :: char where "newline_char = CHR 0x0A"
definition quote_char :: char where "quote_char = CHR 0x22"

definition match_title_field :: "string \<Rightarrow> string option" where
  "match_title_field s =
     (case strip_prefix [quote_char] s of
        None \<Rightarrow> None
      | Some r \<Rightarrow>
          (case List.map_filter (\<lambda>k. strip_prefix (k @ [quote_char]) r) [''title'', ''summary''] of
             [] \<Rightarrow> None
           | r1 # _ \<Rightarrow>
               (case strip_prefix '':'' (skip_spaces r1) of
                  None \<Rightarrow> None
                | Some r2 \<Rightarrow>
                    (case strip_prefix [quote_char] (skip_spaces r2) of
                       None \<Rightarrow> None
                     | Some v \<Rightarrow> (let w = takeWhile (\<lambda>c. c \<noteq> quote_char) v
                         in if w \<noteq> [] \<and> drop (length w) v \<noteq> [] then Some w else None)))))"

text \<open>The rest of a line after spaces; spaces give back characters when nothing else is left.\<close>

definition rest_of_line :: "string \<Rightarrow> string option" where
  "rest_of_line s =
     (let v = skip_spaces s in
      if v \<noteq> [] then Some (takeWhile (\<lambda>c. c \<noteq> newline_char) v)
      else if list_ex (\<lambda>c. c \<noteq> newline_char) s then Some [] else None)"

definition match_summary_line :: "string \<Rightarrow> string option" where
  "match_summary_line s =
     (case strip_prefix ''-'' (skip_spaces s) of
        None \<Rightarrow> None
      | Some r \<Rightarrow> (case strip_prefix ''Summary'' (skip_spaces r) of
          None \<Rightarrow> None
        | Some r2 \<Rightarrow> (case strip_prefix '':'' (skip_spaces r2) of None \<Rightarrow> None | Some r3 \<Rightarrow> rest_of_line r3)))"

text \<open>\<open>re.search\<close> of a pattern that begins with \<open>^\<close> in multi-line mode.\<close>

fun first_line_match :: "(string \<Rightarrow> 'a option) \<Rightarrow> bool \<Rightarrow> string \<Rightarrow> 'a option" where
  "first_line_match m at_start [] = (if at_start then m [] else None)"
| "first_line_match m at_start (c # cs) =
     (case (if at_start then m (c # cs) else None) of
        Some x \<Rightarrow> Some x
      | None \<Rightarrow> first_line_match m (c = newline_char) cs)"

record payload_facts =
  pf_title :: "string option"
  pf_env :: "string option"
  pf_target :: "string option"
  pf_namespace :: "string option"

definition payload_env_field :: "string \<Rightarrow> string option" where
  "payload_env_field s =
     map_option (\<lambda>w. let e = py_lower w in
        if e = ''prod'' \<or> e = ''production'' then ''prod'' else if e = ''staging'' then ''staging''
        else if e = ''sandbox'' \<or> e = ''dev'' then ''shared'' else e) (first_match match_env_field s)"

definition extract_from_payload :: "string \<Rightarrow> payload_facts" where
  "extract_from_payload s =
     (if s = [] then \<lparr>pf_title = None, pf_env = None, pf_target = None, pf_namespace = None\<rparr>
      else (let target = extract_target s in
        \<lparr>pf_title = (case first_match match_title_field s of
             Some w \<Rightarrow> Some (take 200 w)
           | None \<Rightarrow> map_option (take 200 \<circ> py_strip) (first_line_match match_summary_line True s)),
         pf_env = (case extract_env s of Some e \<Rightarrow> Some e | None \<Rightarrow> payload_env_field s),
         pf_target = target,
         pf_namespace = (case first_match match_namespace_field s of Some n \<Rightarrow> Some (py_lower n) | None \<Rightarrow> target)\<rparr>))"

subsection \<open>References and answers\<close>

definition id_char :: "char \<Rightarrow> bool" where
  "id_char c \<longleftrightarrow> is_letter c \<or> is_digit c \<or> c = CHR ''_'' \<or> c = CHR ''-''"

definition match_rootly_ref :: "string \<Rightarrow> (string \<times> string) option" where
  "match_rootly_ref s =
     (case strip_prefix ''rootly.com/account/'' s of
        None \<Rightarrow> None
      | Some r \<Rightarrow>
          (case List.map_filter (\<lambda>k. map_option (\<lambda>v. (k, takeWhile id_char v)) (strip_prefix (k @ ''/'') r))
                 [''alerts'', ''incidents''] of
             [] \<Rightarrow> None
           | (k, v) # _ \<Rightarrow> if v = [] then None else Some (k, v)))"

definition rootly_ref :: "string \<Rightarrow> (string \<times> string) option" where
  "rootly_ref s = first_match match_rootly_ref s"

text \<open>\<open>re.sub("https?://\S+", "", s)\<close>: the length of a URL at the front, then the text without URLs.\<close>

definition url_length :: "string \<Rightarrow> nat option" where
  "url_length s =
     (case List.map_filter (\<lambda>p. map_option (\<lambda>r. length p + length (takeWhile (\<lambda>c. \<not> is_space c) r)) 
             (case strip_prefix p s of Some (c # r) \<Rightarrow> if is_space c then None else Some (c # r) | _ \<Rightarrow> None))
           [''https://'', ''http://''] of
        [] \<Rightarrow> None | n # _ \<Rightarrow> Some n)"

definition drop_urls :: "string \<Rightarrow> string" where
  "drop_urls s = re_sub url_length [] 0 s"

definition word_char :: "char \<Rightarrow> bool" where
  "word_char c \<longleftrightarrow> is_letter c \<or> is_digit c \<or> c = CHR ''_'' \<or>
     (let n = (of_char c :: nat) in n = 170 \<or> n = 178 \<or> n = 179 \<or> n = 181 \<or> (185 \<le> n \<and> n \<le> 186) \<or> (188 \<le> n \<and> n \<le> 190)
       \<or> (192 \<le> n \<and> n \<noteq> 215 \<and> n \<noteq> 247))"

text \<open>A heading of two to four hashes that says root cause, and up to 501 characters of the next line that is not empty.\<close>

definition match_root_cause :: "string \<Rightarrow> string option" where
  "match_root_cause s =
     (let hashes = length (takeWhile (\<lambda>c. c = CHR ''#'') s) in
      if hashes < 2 \<or> 4 < hashes then None
      else (case strip_prefix_ci ''root'' (skip_spaces (drop hashes s)) of
              None \<Rightarrow> None
            | Some r \<Rightarrow>
                if r = [] \<or> \<not> is_space (hd r) then None
                else (case strip_prefix_ci ''cause'' (skip_spaces r) of
                        None \<Rightarrow> None
                      | Some r2 \<Rightarrow>
                          if r2 \<noteq> [] \<and> word_char (hd r2) then None
                          else (let r3 = dropWhile (\<lambda>c. c \<noteq> newline_char) r2;
                                    line = takeWhile (\<lambda>c. c \<noteq> newline_char) (dropWhile (\<lambda>c. c = newline_char) r3)
                                in if r3 = [] \<or> line = [] then None else Some (take 501 line)))))"

definition extract_root_cause :: "string \<Rightarrow> string option" where
  "extract_root_cause answer = map_option py_strip (first_line_match match_root_cause True answer)"

subsection \<open>Facts\<close>

lemma extract_target_good: "extract_target s = Some n \<Longrightarrow> n \<notin> set placeholder_values \<and> 3 \<le> length n"
  unfolding extract_target_def by (drule find_SomeD) (auto simp: good_target_def target_stopwords_def)

lemma extract_env_known:
  "extract_env s = Some e \<Longrightarrow> e \<in> {''prod'', ''preprod'', ''staging'', ''shared''}"
  by (auto simp: extract_env_def Let_def split: option.splits if_splits prod.splits)

lemma alert_examples:
  "extract_target ''[P5][preprod/k8s/acme-notes-be] Pods'' = Some ''acme-notes-be''"
  "extract_env ''[P5][preprod/k8s/acme-notes-be] Pods'' = Some ''preprod''"
  "extract_target ''[P3][prod/k8s/none] DaemonSet'' = None"
  "rootly_ref ''see https://rootly.com/account/alerts/TFFFR1'' = Some (''alerts'', ''TFFFR1'')"
  by code_simp+

end
