(* ===== verification/Tool_Args.thy ===== *)
theory Tool_Args
  imports Alert_Text
begin

text \<open>
  The arguments of a tool call before it is dispatched by an investigation (\<open>investigations/runner.py\<close>): placeholders
  that a model copied from an alert are taken out, and a value that narrows the scope is dropped unless it occurs in
  a text that the model was shown.
\<close>

subsection \<open>Placeholders\<close>

definition is_placeholder :: "json \<Rightarrow> bool" where
  "is_placeholder v = (case v of JStr s \<Rightarrow> py_lower (py_strip s) \<in> set placeholder_values | _ \<Rightarrow> False)"

text \<open>A predicate \<open>key="none"\<close> inside a query: the length of its match.\<close>

definition ident_char :: "char \<Rightarrow> bool" where
  "ident_char c \<longleftrightarrow> is_letter c \<or> is_digit c \<or> c = CHR ''_''"

definition placeholder_words :: "string list" where
  "placeholder_words = [''none'', ''null'', ''nil'', ''unknown'', ''n/a'', ''na'', ''<none>'', ''<unknown>'']"

text \<open>One of the words, followed by the closing quote if there was an opening one.\<close>

definition word_then :: "string \<Rightarrow> string \<Rightarrow> string option" where
  "word_then closing s =
     (case List.map_filter (\<lambda>w. case strip_prefix_ci w s of None \<Rightarrow> None | Some r \<Rightarrow> strip_prefix closing r) placeholder_words of
        [] \<Rightarrow> None | r # _ \<Rightarrow> Some r)"

definition embedded_placeholder :: "string \<Rightarrow> nat option" where
  "embedded_placeholder s =
     (let key = takeWhile ident_char s in
      if key = [] \<or> is_digit (hd key) then None
      else (case separator_then (drop (length key) s) of
              None \<Rightarrow> None
            | Some v \<Rightarrow>
                (let rest = (if v \<noteq> [] \<and> (hd v = quote_char \<or> hd v = CHR 0x27) then word_then [hd v] (tl v) else word_then [] v)
                 in map_option (\<lambda>r. length s - length r) rest)))"

text \<open>Two characters with spaces between them.\<close>

definition pair_length :: "char \<Rightarrow> char \<Rightarrow> string \<Rightarrow> nat option" where
  "pair_length a b s =
     (case strip_prefix [a] s of
        None \<Rightarrow> None
      | Some r \<Rightarrow> map_option (\<lambda>r'. length s - length r') (strip_prefix [b] (skip_spaces r)))"

definition scrub_query_string :: "string \<Rightarrow> string" where
  "scrub_query_string s =
     (if length s < 8 \<or> (CHR ''='' \<notin> set s \<and> CHR '':'' \<notin> set s) then s
      else (let s1 = re_sub embedded_placeholder [] 0 s;
                s2 = re_sub (pair_length CHR '','' CHR '','') '','' 0 s1;
                s3 = re_sub (pair_length CHR ''{'' CHR '','') ''{'' 0 s2;
                s4 = re_sub (pair_length CHR '','' CHR ''}'') ''}'' 0 s3
            in re_sub (pair_length CHR ''{'' CHR ''}'') [] 0 s4))"

text \<open>\<open>_walk\<close> goes into dicts and into the dicts of a list; a list inside a list is left as it is.\<close>

fun scrub_fields :: "obj \<Rightarrow> obj" and scrub_items :: "json list \<Rightarrow> json list" where
  "scrub_fields [] = []"
| "scrub_fields ((k, v) # d) =
     (if is_placeholder v then scrub_fields d
      else (k, (case v of
                  JStr s \<Rightarrow> JStr (scrub_query_string s)
                | JList xs \<Rightarrow> JList (scrub_items xs)
                | JObj d' \<Rightarrow> JObj (scrub_fields d')
                | _ \<Rightarrow> v)) # scrub_fields d)"
| "scrub_items [] = []"
| "scrub_items (x # xs) =
     (if is_placeholder x then scrub_items xs
      else (case x of JObj d \<Rightarrow> JObj (scrub_fields d) | _ \<Rightarrow> x) # scrub_items xs)"

subsection \<open>Grounding\<close>

definition scope_narrowing_keys :: "string list" where
  "scope_narrowing_keys =
     [''namespace'', ''k8s_namespace'', ''ns'', ''cluster'', ''cluster_name'', ''k8s_cluster'', ''project'', ''project_id'',
      ''gcp_project'', ''cloud_project'', ''account'', ''account_id'', ''aws_account_id'', ''subscription_id'',
      ''resource_group'', ''tenant_id'', ''region'', ''location'', ''zone'', ''availability_zone'', ''environment'',
      ''env'', ''scope'']"

definition grounding_exempt_values :: "string list" where
  "grounding_exempt_values = [''all'', ''default-region'', ''global'']"

definition haystack_of :: "string list \<Rightarrow> string" where
  "haystack_of corpus = py_lower (join [newline_char] (filter (\<lambda>s. s \<noteq> []) corpus))"

definition ungrounded :: "string \<Rightarrow> string \<times> json \<Rightarrow> bool" where
  "ungrounded hay kv \<longleftrightarrow>
     py_lower (fst kv) \<in> set scope_narrowing_keys \<and>
     (case snd kv of
        JStr s \<Rightarrow> (let n = py_lower (py_strip s) in n \<noteq> [] \<and> n \<notin> set grounding_exempt_values \<and> \<not> py_in n hay)
      | _ \<Rightarrow> False)"

definition drop_ungrounded_scope_args :: "obj \<Rightarrow> string list \<Rightarrow> obj" where
  "drop_ungrounded_scope_args args corpus =
     (let hay = haystack_of corpus in if hay = [] then args else filter (\<lambda>kv. \<not> ungrounded hay kv) args)"

subsection \<open>The texts that ground a value\<close>

definition guess_rule :: string where
  "guess_rule = concat
    [''  - Guess from training-data bias (e.g. defaulting an unknown namespace to `'', ''kube-system'', ''`, `'',
     ''monitoring'', ''`, or `'', ''default'', ''`; defaulting an unknown region to `'', ''us-east-1'', ''`).'']"

definition argument_rule :: string where
  \<open>argument_rule = join [newline_char]
    [[],
     ''=== TOOL ARGUMENT DISCIPLINE (UNIVERSAL HARD RULE) ==='',
     ''Every value you pass to a scope-narrowing argument (namespace, project, cluster, region, account-id, environment, service) MUST trace back to text you actually saw in:'',
     ''  (a) the alert payload above, OR'',
     ''  (b) the insight context (runbook / past investigations / live probe), OR'',
     ''  (c) the result of a previous tool call this round.'',
     [],
     ''If the value isn'' @ [CHR 0x27] @ ''t grounded in one of those three sources, you are GUESSING and the dispatcher will DROP the argument before calling the tool (with a log line).'',
     [],
     ''NEVER:'',
     ''  - Pass a placeholder (`"none"`, `"null"`, `"unknown"`, `"n/a"`, empty string) just because an alert field rendered empty that way.'',
     guess_rule,
     ''  - Embed a guess inside a query string (PromQL, SQL, Lucene): `{namespace="kube-system"}` is the same mistake.'',
     [],
     ''--- WORKED EXAMPLE ---'',
     ''Alert: "[P3][prod/k8s/none] DaemonSet Fluentd Unready"'',
     ''  (env=prod is grounded, namespace is NOT -- the slot reads `none`)'',
     ''WRONG first call: `k8s_list_pods(namespace="kube-system", label_selector="k8s-app=fluentd-logging")`'',
     ''  -- Both `kube-system` and the label string are training-data guesses; nothing in the alert said either.'',
     ''RIGHT first call: `k8s_list_pods(label_selector="name=fluentd")`'',
     ''  -- No namespace filter. The discriminator `name=fluentd` comes from the alert verbatim. Result tells us the real namespace + label keys for the follow-up calls.'',
     ''If a tool returns empty, treat that as "my filter was wrong" before treating it as "the thing doesn'' @ [CHR 0x27] @ ''t exist".'']\<close>

definition skip_rule :: string where
  \<open>skip_rule = join [newline_char]
    [[],
     ''- If you cite a tool but cannot match its required args to real values, SKIP the tool and report UNTESTED for the affected hypothesis.'']\<close>

definition code_span :: "string \<Rightarrow> string" where
  "code_span s = ''`'' @ [quote_char] @ s @ [quote_char] @ ''`''"

text \<open>The block on the environment; the map from environments to clusters and projects is configuration.\<close>

definition env_block ::
  "(string \<Rightarrow> (string \<times> string) option) \<Rightarrow> string option \<Rightarrow> string option \<Rightarrow> string" where
  "env_block cluster_map env namespace =
     (let (cluster, project) = (case Option.bind env cluster_map of None \<Rightarrow> ([], []) | Some cp \<Rightarrow> cp);
          named = (\<lambda>v. case v of None \<Rightarrow> [] | Some s \<Rightarrow> s);
          e = named env; n = named namespace;
          discipline =
            (if e \<noteq> [] \<or> n \<noteq> [] \<or> cluster \<noteq> [] \<or> project \<noteq> [] then
               [''=== ENV DISCIPLINE (HARD RULE) ===''] @
               (if e \<noteq> [] then [''This alert is for the **'' @ e @ ''** environment.''] else []) @
               (if cluster \<noteq> [] then [''- Tools accepting a cluster argument should use `cluster: '' @ [quote_char] @ cluster
                  @ [quote_char] @ ''` for this env.''] else []) @
               (if project \<noteq> [] then [''- Tools accepting a cloud-project / account-id argument should use '' @ code_span project
                  @ '' for this env.''] else []) @
               (if n \<noteq> [] then [''- The alert specified namespace '' @ code_span n
                  @ '' -- prefer that for namespace-scoped tools.''] else [])
             else [])
      in join [newline_char] (discipline @ [argument_rule, skip_rule]) @ [newline_char, newline_char])"

definition opt_text :: "string option \<Rightarrow> string list" where
  "opt_text v = (case v of None \<Rightarrow> [] | Some s \<Rightarrow> if s = [] then [] else [s])"

definition grounding_corpus ::
  "(obj \<Rightarrow> string) \<Rightarrow> string \<Rightarrow> string \<Rightarrow> obj \<Rightarrow> string option \<Rightarrow> string option \<Rightarrow> string list" where
  "grounding_corpus dumps alert block insight target namespace =
     [alert, block, dumps insight] @ opt_text target @ opt_text namespace"

definition dispatched_args :: "obj \<Rightarrow> string list \<Rightarrow> obj" where
  "dispatched_args args corpus = drop_ungrounded_scope_args (scrub_fields args) corpus"

subsection \<open>Facts\<close>

lemma join_Cons: "xs \<noteq> [] \<Longrightarrow> join sep (x # xs) = x @ sep @ join sep xs"
  by (cases xs) simp_all

lemma sublist_join: "x \<in> set xs \<Longrightarrow> sublist x (join sep xs)"
proof (induction xs)
  case (Cons y ys)
  show ?case
  proof (cases "ys = []")
    case False
    have "sublist (join sep ys) (y @ sep @ join sep ys)"
      by (metis append.assoc sublist_append_leftI)
    with Cons False show ?thesis by (auto simp: join_Cons intro: sublist_order.order.trans)
  qed (use Cons in simp)
qed simp

lemma in_haystack:
  "x \<in> set corpus \<Longrightarrow> x \<noteq> [] \<Longrightarrow> sublist g x \<Longrightarrow> py_lower g = g \<Longrightarrow> py_in g (haystack_of corpus)"
proof -
  assume x: "x \<in> set corpus" "x \<noteq> []" "sublist g x" "py_lower g = g"
  have "sublist x (join [newline_char] (filter (\<lambda>s. s \<noteq> []) corpus))" by (rule sublist_join) (use x in simp)
  with x(3) have "sublist g (join [newline_char] (filter (\<lambda>s. s \<noteq> []) corpus))" by (rule sublist_order.order.trans)
  from sublist_lower [OF this] x(4) show ?thesis by (simp add: haystack_of_def py_in_iff)
qed

lemma scrub_entries:
  "(k, v) \<in> set (scrub_fields d) \<Longrightarrow> \<exists>v0. (k, v0) \<in> set d \<and> \<not> is_placeholder v0
     \<and> v = (case v0 of JStr s \<Rightarrow> JStr (scrub_query_string s) | JList xs \<Rightarrow> JList (scrub_items xs)
              | JObj d' \<Rightarrow> JObj (scrub_fields d') | _ \<Rightarrow> v0)"
proof (induction d)
  case (Cons e d)
  obtain k' v' where e: "e = (k', v')" by fastforce
  show ?case
  proof (cases "(k, v) \<in> set (scrub_fields d)")
    case True
    then show ?thesis using Cons.IH by auto
  next
    case False
    with Cons.prems have "\<not> is_placeholder v'" "k = k'"
      "v = (case v' of JStr s \<Rightarrow> JStr (scrub_query_string s) | JList xs \<Rightarrow> JList (scrub_items xs)
              | JObj d' \<Rightarrow> JObj (scrub_fields d') | _ \<Rightarrow> v')"
      by (auto simp: e split: if_splits)
    then show ?thesis using e by auto
  qed
qed simp

lemma scrub_short: "length s < 8 \<Longrightarrow> scrub_query_string s = s"
  by (simp add: scrub_query_string_def)

text \<open>What a search in the joined corpus finds, a search in its texts finds, unless it has a newline in it.\<close>

lemma sublist_append_at:
  assumes "sublist n (xs @ c # ys)" "c \<notin> set n"
  shows "sublist n xs \<or> sublist n ys"
proof -
  from assms(1) consider "sublist n xs" | "sublist n (c # ys)" | n1 n2 where "n = n1 @ n2" "suffix n1 xs" "prefix n2 (c # ys)"
    unfolding sublist_append by blast
  then show ?thesis
  proof cases
    case 2
    then have "sublist n ys \<or> prefix n (c # ys)" by (auto simp: sublist_Cons_right)
    then show ?thesis using assms(2) by (cases n) auto
  next
    case (3 n1 n2)
    then have "n2 = []" using assms(2) by (cases n2) auto
    then show ?thesis using 3 by (auto dest: suffix_imp_sublist)
  qed simp
qed

lemma sublist_join_part:
  "sublist n (join [c] xs) \<Longrightarrow> c \<notin> set n \<Longrightarrow> n \<noteq> [] \<Longrightarrow> \<exists>x \<in> set xs. sublist n x"
proof (induction xs)
  case (Cons x xs)
  show ?case
  proof (cases "xs = []")
    case False
    then have "sublist n (x @ c # join [c] xs)" using Cons.prems(1) by (simp add: join_Cons)
    then show ?thesis using sublist_append_at [OF _ Cons.prems(2)] Cons by auto
  qed (use Cons.prems in simp)
qed simp

lemma lower_join: "py_lower (join [c] xs) = join (py_lower [c]) (map py_lower xs)"
proof (induction xs)
  case (Cons x xs)
  then show ?case by (cases xs) (simp_all add: py_lower_def)
qed (simp add: py_lower_def)

lemma lower_newline: "py_lower [newline_char] = [newline_char]"
  by code_simp

lemma haystack_empty: "haystack_of corpus = [] \<longleftrightarrow> list_all (\<lambda>s. s = []) corpus"
proof -
  have "join [newline_char] xs \<noteq> []" if ne: "xs \<noteq> []" "[] \<notin> set xs" for xs :: "string list"
  proof -
    obtain y ys where y: "xs = y # ys" "y \<noteq> []" using ne by (cases xs) auto
    then show ?thesis by (cases "ys = []") (simp_all add: join_Cons)
  qed
  from this [of "filter (\<lambda>s. s \<noteq> []) corpus"] show ?thesis
    by (auto simp: haystack_of_def py_lower_def list_all_iff filter_empty_conv)
qed

text \<open>What the model sent, as it is dispatched.\<close>

definition scrubbed :: "json \<Rightarrow> json" where
  "scrubbed v = (case v of JStr s \<Rightarrow> JStr (scrub_query_string s) | JList xs \<Rightarrow> JList (scrub_items xs)
     | JObj d \<Rightarrow> JObj (scrub_fields d) | _ \<Rightarrow> v)"

text \<open>A value that the discipline lets through: there is no text to hold it against, it does not narrow the scope, it is not
  a string, it is blank or exempt, or it occurs in a text that the model was shown (or spans several of them).\<close>

definition traceable :: "string list \<Rightarrow> string \<Rightarrow> json \<Rightarrow> bool" where
  "traceable corpus k v \<longleftrightarrow>
     list_all (\<lambda>s. s = []) corpus \<or> py_lower k \<notin> set scope_narrowing_keys
     \<or> (case v of
          JStr s \<Rightarrow> (let n = py_lower (py_strip s) in n = [] \<or> n \<in> set grounding_exempt_values
            \<or> list_ex (\<lambda>x. sublist n (py_lower x)) corpus \<or> newline_char \<in> set n \<and> sublist n (haystack_of corpus))
        | _ \<Rightarrow> True)"

lemma traceable_kept:
  assumes "haystack_of corpus \<noteq> []"
  shows "traceable corpus k v \<longleftrightarrow> \<not> ungrounded (haystack_of corpus) (k, v)"
proof -
  have found: "py_in n (haystack_of corpus) \<longleftrightarrow>
      list_ex (\<lambda>x. sublist n (py_lower x)) corpus \<or> newline_char \<in> set n \<and> sublist n (haystack_of corpus)" if "n \<noteq> []" for n
  proof
    assume n: "py_in n (haystack_of corpus)"
    show "list_ex (\<lambda>x. sublist n (py_lower x)) corpus \<or> newline_char \<in> set n \<and> sublist n (haystack_of corpus)"
    proof (cases "newline_char \<in> set n")
      case False
      have "sublist n (join [newline_char] (map py_lower (filter (\<lambda>s. s \<noteq> []) corpus)))"
        using n by (simp add: py_in_iff haystack_of_def lower_join lower_newline)
      from sublist_join_part [OF this False that] show ?thesis by (auto simp: list_ex_iff)
    qed (use n in \<open>simp add: py_in_iff\<close>)
  next
    assume "list_ex (\<lambda>x. sublist n (py_lower x)) corpus \<or> newline_char \<in> set n \<and> sublist n (haystack_of corpus)"
    then show "py_in n (haystack_of corpus)"
    proof
      assume "list_ex (\<lambda>x. sublist n (py_lower x)) corpus"
      then obtain x where x: "x \<in> set corpus" "sublist n (py_lower x)" by (auto simp: list_ex_iff)
      then have "x \<noteq> []" using that by (auto simp: py_lower_def)
      have "sublist x (join [newline_char] (filter (\<lambda>s. s \<noteq> []) corpus))" by (rule sublist_join) (use x \<open>x \<noteq> []\<close> in simp)
      from sublist_lower [OF this] x(2) show ?thesis
        by (auto simp: haystack_of_def py_in_iff intro: sublist_order.order.trans)
    qed (simp add: py_in_iff)
  qed
  show ?thesis
    using assms found by (auto simp: traceable_def ungrounded_def haystack_empty Let_def split: json.split)
qed

lemma scrub_mem: "(k, v0) \<in> set d \<Longrightarrow> \<not> is_placeholder v0 \<Longrightarrow> (k, scrubbed v0) \<in> set (scrub_fields d)"
  by (induction d) (auto simp: scrubbed_def split: if_splits json.splits)

text \<open>C21: The arguments that reach a tool are exactly those that the model gave, whose value was no placeholder, with their
  query strings rewritten, and which are traceable: an argument whose name narrows the scope and whose value is a string
  reaches the tool only if the value is blank, one of the three exempt words, or occurs in a text that the model was
  shown. Other arguments, among them scopes that are not strings, are passed on unchecked, as is everything when there is
  no text at all.\<close>

theorem dispatched_args_traceable:
  "(k, v) \<in> set (dispatched_args args corpus) \<longleftrightarrow>
     (\<exists>v0. (k, v0) \<in> set args \<and> \<not> is_placeholder v0 \<and> v = scrubbed v0) \<and> traceable corpus k v"
proof -
  have "(k, v) \<in> set (scrub_fields args) \<longleftrightarrow> (\<exists>v0. (k, v0) \<in> set args \<and> \<not> is_placeholder v0 \<and> v = scrubbed v0)"
    using scrub_entries [of k v args] scrub_mem [of k _ args] unfolding scrubbed_def by blast
  moreover have "traceable corpus k v" if "haystack_of corpus = []"
    using that by (simp add: traceable_def haystack_empty)
  ultimately show ?thesis
    using traceable_kept [of corpus k v] by (auto simp: dispatched_args_def drop_ungrounded_scope_args_def Let_def)
qed

text \<open>A region out of thin air is dropped, one from the alert is kept, and so is a number that no text names.\<close>

theorem dispatched_args_traceable_witness:
  "dispatched_args [(''region'', JStr ''mars'')] [''pods of Web-1 down''] = []
   \<and> (''cluster'', JStr ''web-1'') \<in> set (dispatched_args [(''cluster'', JStr ''web-1''), (''account'', JInt 5)] [''pods of Web-1 down''])
   \<and> (''account'', JInt 5) \<in> set (dispatched_args [(''cluster'', JStr ''web-1''), (''account'', JInt 5)] [''pods of Web-1 down''])"
proof (intro conjI)
  let ?t = "[''pods of Web-1 down'']"
  have "\<not> traceable ?t ''region'' (JStr ''mars'')" by code_simp
  moreover have "scrubbed (JStr ''mars'') = JStr ''mars''" by (simp add: scrubbed_def scrub_short)
  ultimately have "(k, v) \<notin> set (dispatched_args [(''region'', JStr ''mars'')] ?t)" for k v
    by (auto simp: dispatched_args_traceable)
  then show "dispatched_args [(''region'', JStr ''mars'')] ?t = []" by (metis last_in_set prod.collapse)
  have "traceable ?t ''cluster'' (JStr ''web-1'')" "\<not> is_placeholder (JStr ''web-1'')" by code_simp+
  then show "(''cluster'', JStr ''web-1'') \<in> set (dispatched_args [(''cluster'', JStr ''web-1''), (''account'', JInt 5)] ?t)"
    unfolding dispatched_args_traceable by (auto simp: scrubbed_def scrub_short)
  have "traceable ?t ''account'' (JInt 5)" "\<not> is_placeholder (JInt 5)" by code_simp+
  then show "(''account'', JInt 5) \<in> set (dispatched_args [(''cluster'', JStr ''web-1''), (''account'', JInt 5)] ?t)"
    unfolding dispatched_args_traceable by (auto simp: scrubbed_def)
qed

subsection \<open>Where the filters fail\<close>

lemma argument_rule_in_block: "sublist argument_rule (env_block cluster_map env namespace)"
proof -
  have "\<exists>xs. env_block cluster_map env namespace = join [newline_char] (xs @ [argument_rule, skip_rule]) @ [newline_char, newline_char]"
    unfolding env_block_def Let_def split_def by (rule exI) (rule refl)
  then obtain xs where xs: "env_block cluster_map env namespace =
      join [newline_char] (xs @ [argument_rule, skip_rule]) @ [newline_char, newline_char]" by blast
  have "sublist argument_rule (join [newline_char] (xs @ [argument_rule, skip_rule]))" by (rule sublist_join) simp
  then show ?thesis unfolding xs by (rule sublist_order.order.trans) (rule sublist_append_rightI)
qed

definition documented_guesses :: "string list" where
  "documented_guesses = [''kube-system'', ''monitoring'', ''default'', ''us-east-1'']"

lemma sublist_concat: "x \<in> set xs \<Longrightarrow> sublist x (concat xs)"
proof (induction xs)
  case (Cons y ys)
  then show ?case by (auto intro: sublist_order.order.trans)
qed simp

lemma guesses_in_line: "g \<in> set documented_guesses \<Longrightarrow> sublist g guess_rule"
  unfolding guess_rule_def by (rule sublist_concat) (auto simp: documented_guesses_def)

lemma guesses_plain: "g \<in> set documented_guesses \<Longrightarrow> py_lower g = g \<and> py_strip g = g"
  by (auto simp: documented_guesses_def py_lower_def py_lower_char_def py_strip_def py_lstrip_def py_rstrip_def
      is_space_def Let_def)

lemma guess_in_rule: "sublist guess_rule argument_rule"
  unfolding argument_rule_def by (rule sublist_join) simp

text \<open>The values that the prompt names as forbidden guesses are never dropped: the corpus that grounds a value contains
  the prompt's own rule, which spells them out, whatever the alert says.\<close>

theorem documented_guess_grounded:
  assumes "g \<in> set documented_guesses" "py_lower k \<in> set scope_narrowing_keys" "\<not> is_placeholder (JStr g)"
    and "corpus = grounding_corpus dumps alert (env_block cluster_map env ns) insight target ns' @ results"
  shows "drop_ungrounded_scope_args [(k, JStr g)] corpus = [(k, JStr g)]"
proof -
  have g: "sublist g argument_rule" "py_lower g = g" "py_strip g = g"
    using guesses_in_line [OF assms(1)] guesses_plain [OF assms(1)] guess_in_rule
    by (auto intro: sublist_order.order.trans)
  have "sublist g (env_block cluster_map env ns)" using g(1) argument_rule_in_block by (rule sublist_order.order.trans)
  moreover have "env_block cluster_map env ns \<noteq> []" by (auto simp: env_block_def Let_def split: prod.splits)
  moreover have "env_block cluster_map env ns \<in> set corpus" by (simp add: assms(4) grounding_corpus_def)
  ultimately have "py_in g (haystack_of corpus)" using in_haystack g(2) by blast
  then show ?thesis by (simp add: drop_ungrounded_scope_args_def Let_def ungrounded_def g)
qed

theorem documented_guess_grounded_witness:
  "drop_ungrounded_scope_args [(''namespace'', JStr ''kube-system'')]
     (grounding_corpus (\<lambda>d. []) ''[P3][prod/k8s/none] DaemonSet Fluentd Unready'' (env_block (\<lambda>e. None) (Some ''prod'') None)
        [] None None @ []) = [(''namespace'', JStr ''kube-system'')]"
  by (rule documented_guess_grounded [OF _ _ _ refl]) (code_simp+)

text \<open>The word that is taken out need not end where the match ends, empty braces go even when nothing was matched, and a
  query that was only a placeholder stays as an empty argument.\<close>

lemma scrub_cuts_words: "scrub_query_string ''service:nats AND level:error'' = ''ts AND level:error''"
  by code_simp

lemma scrub_breaks_json:
  "scrub_query_string (''{'' @ [quote_char] @ ''match_all'' @ [quote_char] @ '': {}}'')
     = ''{'' @ [quote_char] @ ''match_all'' @ [quote_char] @ '': }''"
  by code_simp

lemma scrub_leaves_empty_query:
  "scrub_fields [(''query'', JStr ''namespace=none'')] = [(''query'', JStr [])] \<and> is_placeholder (JStr [])"
  by code_simp

end
