(* ===== verification/Investigation.thy ===== *)
theory Investigation
  imports Event_Ledger Tool_Args
begin

text \<open>
  One investigation (\<open>investigations/runner.py\<close>, \<open>evaluator.py\<close>): three lanes, the insight, the hypotheses, rounds of
  tool calls with a verdict per hypothesis, and the conclusion. The result of a run is the list of its writes to the
  ledger. Whatever comes from outside (stores, models, tools, the clock) is an \<open>inv_world\<close>, with failures as the left
  side of a sum. Prompts, latencies and log lines are left out.
\<close>

subsection \<open>Writes\<close>

datatype effect = Emit string obj | Mark string "string option" "string option"

definition generic_error :: string where "generic_error = ''internal error during investigation''"

fun emitted_types :: "effect list \<Rightarrow> string list" where
  "emitted_types [] = []"
| "emitted_types (Emit ty p # es) = ty # emitted_types es"
| "emitted_types (Mark s r c # es) = emitted_types es"

text \<open>The writes of a run on the ledger; \<open>ok\<close> says which appends succeed.\<close>

fun apply_effects :: "string \<Rightarrow> (nat \<Rightarrow> bool) \<Rightarrow> real \<Rightarrow> nat \<Rightarrow> effect list \<Rightarrow> ledger \<Rightarrow> ledger" where
  "apply_effects i ok now n [] lg = lg"
| "apply_effects i ok now n (Emit ty p # es) lg = apply_effects i ok now (n + 1) es (snd (emit_event (ok n) i ty p [] lg))"
| "apply_effects i ok now n (Mark s r c # es) lg = apply_effects i ok now n es (mark_status i s r c now lg)"

subsection \<open>Data\<close>

record hypothesis =
  hy_id :: string
  hy_text :: string
  hy_tools :: "string list"

record verdict =
  vd_id :: string
  vd_status :: string
  vd_evidence :: string
  vd_confidence :: real
  vd_tools :: "string list"

record tool_item =
  ti_name :: string
  ti_args :: obj
  ti_outcome :: "json result"

record runbook_hit =
  rh_id :: string
  rh_title :: string
  rh_service :: string
  rh_kind :: string
  rh_body :: string
  rh_tags :: "json list"
  rh_score :: "pyfloat option"

datatype 'a lane_source = Unavailable string | Searched "'a list result"

record inv_env =
  ie_tools :: "string list"
  ie_gitlab :: bool
  ie_clusters :: "string \<Rightarrow> (string \<times> string) option"
  ie_dumps :: "json \<Rightarrow> string"
  ie_other :: "json \<Rightarrow> string"
  ie_repr :: "string \<Rightarrow> string"
  ie_score :: "pyfloat \<Rightarrow> string"

record inv_world =
  iw_runbooks :: "runbook_hit lane_source"
  iw_history :: "obj lane_source"
  iw_hydrate :: "string \<Rightarrow> string \<Rightarrow> json result"
  iw_probe :: "string \<Rightarrow> string \<Rightarrow> json result"
  iw_insight :: "obj result"
  iw_hypotheses :: "(string option \<times> hypothesis list) result"
  iw_elapsed :: "nat \<Rightarrow> real"
  iw_reason :: "nat \<Rightarrow> (string \<times> (string \<times> obj) list) result option"
  iw_tool :: "nat \<Rightarrow> nat \<Rightarrow> string \<Rightarrow> obj \<Rightarrow> json result"
  iw_verdicts :: "nat \<Rightarrow> verdict list result"
  iw_answer :: "string result"
  iw_mark :: "unit result"
  iw_mark_failed :: "unit result"

definition max_wall_clock_sec :: real where "max_wall_clock_sec = 240"
definition max_tool_calls_per_run :: nat where "max_tool_calls_per_run = 40"
definition max_reasoner_rounds :: nat where "max_reasoner_rounds = 3"

subsection \<open>Lane A: runbooks\<close>

definition generic_stopwords :: "string list" where
  "generic_stopwords =
     [''the'', ''and'', ''for'', ''with'', ''from'', ''into'', ''have'', ''has'', ''had'', ''this'', ''that'', ''these'', ''those'',
      ''are'', ''was'', ''were'', ''been'', ''but'', ''not'', ''any'', ''all'', ''more'', ''most'', ''than'', ''then'', ''what'',
      ''which'', ''who'', ''when'', ''where'', ''why'', ''how'']"

definition token_char :: "char \<Rightarrow> bool" where
  "token_char c \<longleftrightarrow> is_lower c \<or> is_digit c \<or> c = CHR ''-'' \<or> c = CHR ''_''"

function find_tokens :: "string \<Rightarrow> string list" where
  "find_tokens s =
     (case s of
        [] \<Rightarrow> []
      | c # cs \<Rightarrow>
          (let run = takeWhile token_char (c # cs) in
           if (is_lower c \<or> is_digit c) \<and> 3 \<le> length run then run # find_tokens (drop (length run) (c # cs))
           else find_tokens cs))"
  by pat_completeness auto
termination by (relation "measure length") (auto simp: token_char_def)

declare find_tokens.simps [simp del]

definition runbook_vocab :: "(json \<Rightarrow> string) \<Rightarrow> runbook_hit \<Rightarrow> string list" where
  "runbook_vocab other h =
     (let service = py_lower (rh_service h); tags = map (\<lambda>t. py_lower (json_str other t)) (rh_tags h) in
      filter (\<lambda>w. w \<notin> set generic_stopwords)
        ((if service = [] then [] else service # split_on CHR ''-'' service)
         @ concat (map (\<lambda>t. t # split_on CHR ''-'' t) tags) @ find_tokens (py_lower (rh_title h))))"

definition overlap_of :: "(json \<Rightarrow> string) \<Rightarrow> string \<Rightarrow> runbook_hit \<Rightarrow> string list" where
  "overlap_of other alert h =
     sort (remdups (filter (\<lambda>w. w \<in> set (find_tokens (py_lower alert))) (runbook_vocab other h)))"

definition relevant :: "(json \<Rightarrow> string) \<Rightarrow> string \<Rightarrow> runbook_hit \<Rightarrow> bool" where
  "relevant other alert h \<longleftrightarrow>
     (py_lower (rh_service h) \<noteq> [] \<and> py_in (py_lower (rh_service h)) (py_lower alert)) \<or> 2 \<le> length (overlap_of other alert h)"

definition str_or_null :: "string \<Rightarrow> json" where
  "str_or_null s = (if s = [] then JNull else JStr s)"

definition hit_obj :: "(json \<Rightarrow> string) \<Rightarrow> string \<Rightarrow> runbook_hit \<Rightarrow> json" where
  "hit_obj other alert h = JObj
     [(''id'', JStr (rh_id h)), (''title'', JStr (rh_title h)), (''service'', str_or_null (rh_service h)),
      (''issue_kind'', str_or_null (rh_kind h)), (''snippet'', JStr (take 1200 (rh_body h))),
      (''score'', (case rh_score h of None \<Rightarrow> JNull | Some x \<Rightarrow> JFloat x)),
      (''_overlap'', JList (map JStr (take 6 (overlap_of other alert h))))]"

definition culled_obj :: "(json \<Rightarrow> string) \<Rightarrow> string \<Rightarrow> runbook_hit \<Rightarrow> json" where
  "culled_obj other alert h = JObj
     [(''title'', JStr (rh_title h)), (''service'', str_or_null (rh_service h)),
      (''overlap'', JList (map JStr (take 6 (overlap_of other alert h))))]"

text \<open>The hits that are kept, and the payload.\<close>

definition lane_a :: "inv_env \<Rightarrow> inv_world \<Rightarrow> string \<Rightarrow> runbook_hit list \<times> obj" where
  "lane_a env w alert =
     (case iw_runbooks w of
        Unavailable reason \<Rightarrow> ([], [(''hits'', JList []), (''skipped'', JStr reason)])
      | Searched (Inl e) \<Rightarrow> ([], [(''hits'', JList []), (''error'', JStr generic_error)])
      | Searched (Inr hits) \<Rightarrow>
          (let kept = filter (relevant (ie_other env) alert) hits; culled = filter (\<lambda>h. \<not> relevant (ie_other env) alert h) hits in
           (kept, [(''hits'', JList (map (hit_obj (ie_other env) alert) kept)), (''culled_count'', JInt (int (length culled))),
                   (''culled'', JList (map (culled_obj (ie_other env) alert) culled))])))"

definition render_hit :: "(pyfloat \<Rightarrow> string) \<Rightarrow> nat \<Rightarrow> runbook_hit \<Rightarrow> string" where
  "render_hit fmt i h =
     (let title = (if rh_title h = [] then ''(untitled)'' else rh_title h);
          bits = (if rh_service h = [] then [] else [''service: '' @ rh_service h])
            @ (if rh_kind h = [] then [] else [''issue_kind: '' @ rh_kind h]);
          meta = (if bits = [] then [] else '' ('' @ join '', '' bits @ '')'');
          shown = (case rh_score h of None \<Rightarrow> [] | Some x \<Rightarrow> '' | score='' @ fmt x)
      in ''### Runbook: '' @ title @ meta @ shown @ [newline_char]
         @ take (if i = 0 then 1200 else 400) (take 1200 (rh_body h)))"

definition render_lane_a :: "(pyfloat \<Rightarrow> string) \<Rightarrow> runbook_hit list \<Rightarrow> string" where
  "render_lane_a fmt hits =
     (if hits = [] then ''No matching runbook found.''
      else join [newline_char, newline_char] (map (\<lambda>(i, h). render_hit fmt i h) (List.enumerate 0 (take 3 hits))))"

subsection \<open>Lane B: similar investigations\<close>

text \<open>\<open>(v or w or "")[:n]\<close> of a value that can be sliced.\<close>

definition py_slice :: "nat \<Rightarrow> json \<Rightarrow> json result" where
  "py_slice n v = (case v of JStr s \<Rightarrow> Inr (JStr (take n s)) | JList xs \<Rightarrow> Inr (JList (take n xs)) | _ \<Rightarrow> Inl (TypeError ''slice''))"

definition history_obj :: "inv_env \<Rightarrow> obj \<Rightarrow> json result" where
  "history_obj env d =
     map_sum id (\<lambda>summary. JObj
        [(''id'', JStr (json_str (ie_other env) (py_or (dget JNull ''id'' d) (py_or (dget JNull ''investigation_id'' d) (JStr []))))),
         (''similarity'', py_or (dget JNull ''similarity'' d) (py_or (dget JNull ''score'' d) (JFloat (Fin 0)))),
         (''summary'', summary)])
       (py_slice 400 (py_or (dget JNull ''summary'' d) (py_or (dget JNull ''alert_text'' d) (JStr []))))"

definition lane_b :: "inv_env \<Rightarrow> inv_world \<Rightarrow> json list \<times> obj" where
  "lane_b env w =
     (case iw_history w of
        Unavailable reason \<Rightarrow> ([], [(''hits'', JList []), (''skipped'', JStr reason)])
      | Searched (Inl e) \<Rightarrow> ([], [(''hits'', JList []), (''error'', JStr generic_error)])
      | Searched (Inr hits) \<Rightarrow>
          (case traverse (history_obj env) hits of
             Inl e \<Rightarrow> ([], [(''hits'', JList []), (''error'', JStr generic_error)])
           | Inr objs \<Rightarrow> (objs, [(''hits'', JList objs)])))"

text \<open>\<open>int(float(sim) * 100)\<close> raises for an infinity and for NaN.\<close>

definition percent :: "json \<Rightarrow> string result" where
  "percent sim =
     (case sim of
        JInt i \<Rightarrow> Inr (str_int (100 * i) @ ''%'')
      | JBool b \<Rightarrow> Inr (if b then ''100%'' else ''0%'')
      | JFloat (Fin x) \<Rightarrow> Inr (str_int (py_trunc (x * 100)) @ ''%'')
      | JFloat NaN \<Rightarrow> Inl (ValueError ''cannot convert float NaN to integer'')
      | JFloat x \<Rightarrow> Inl OverflowError
      | _ \<Rightarrow> Inr ''?'')"

definition render_history :: "inv_env \<Rightarrow> json \<Rightarrow> string result" where
  "render_history env h =
     (case h of
        JObj d \<Rightarrow>
          (case percent (py_or (dget JNull ''similarity'' d) (JFloat (Fin 0))) of
             Inl e \<Rightarrow> Inl e
           | Inr pct \<Rightarrow>
               (case py_slice 200 (py_or (dget JNull ''summary'' d) (JStr [])) of
                  Inl e \<Rightarrow> Inl e
                | Inr v \<Rightarrow> Inr (''- '' @ pct @ '' similar: '' @ json_str (ie_other env) v)))
      | _ \<Rightarrow> Inr [])"

definition render_lane_b :: "inv_env \<Rightarrow> json list \<Rightarrow> string result" where
  "render_lane_b env hits =
     (if hits = [] then Inr ''No similar past investigation in the cache.''
      else map_sum id (join [newline_char]) (traverse (render_history env) (take 3 hits)))"

subsection \<open>The alert and lane C\<close>

definition rootly_tool :: "string \<Rightarrow> string" where
  "rootly_tool kind = (if kind = ''alerts'' then ''rootly_get_alert'' else ''rootly_get_incident'')"

definition scalar_lines :: "(json \<Rightarrow> string) \<Rightarrow> (string \<Rightarrow> bool) \<Rightarrow> json \<Rightarrow> string result" where
  "scalar_lines other wanted v =
     (let line = (\<lambda>(k, x). k @ '': '' @ json_str other x);
          scalar = (\<lambda>x. case x of JStr _ \<Rightarrow> True | JInt _ \<Rightarrow> True | JFloat _ \<Rightarrow> True | JBool _ \<Rightarrow> True | _ \<Rightarrow> False)
      in if \<not> truthy v then Inr []
         else case v of
           JObj d \<Rightarrow> Inr (join [newline_char] (map line (filter (\<lambda>(k, x). wanted k \<and> scalar x) d)))
         | _ \<Rightarrow> Inl (AttributeError ''items''))"

definition annotation_keys :: "string list" where
  "annotation_keys = [''summary'', ''description'', ''runbook_url'', ''expr'', ''value'', ''severity'']"

definition as_strings :: "json list \<Rightarrow> string list result" where
  "as_strings = traverse (\<lambda>v. case v of JStr s \<Rightarrow> Inr s | _ \<Rightarrow> Inl (TypeError ''join''))"

definition rich_text :: "inv_env \<Rightarrow> string \<Rightarrow> json \<Rightarrow> string result" where
  "rich_text env original v =
     (let r = (case v of JObj d \<Rightarrow> d | _ \<Rightarrow> []); nl = [newline_char];
          summary = json_str (ie_other env) (py_or (dget JNull ''summary'' r) (JStr []))
      in case (case iterate_or_empty (dget JNull ''service_names'' r) of Inl e \<Rightarrow> Inl e | Inr xs \<Rightarrow> as_strings xs) of
           Inl e \<Rightarrow> Inl e
         | Inr services \<Rightarrow>
             (case scalar_lines (ie_other env) (\<lambda>k. True) (dget JNull ''labels'' r) of
                Inl e \<Rightarrow> Inl e
              | Inr labels \<Rightarrow>
                  map_sum id (\<lambda>anns. original @ nl @ nl @ ''Summary: '' @ summary @ nl @ ''Services: '' @ join '', '' services @ nl
                     @ nl @ ''--- Labels ---'' @ nl @ labels @ nl @ nl @ ''--- Annotations ---'' @ nl @ anns @ nl)
                    (scalar_lines (ie_other env) (\<lambda>k. k \<in> set annotation_keys) (dget JNull ''annotations'' r))))"

definition hydrate_alert_text :: "inv_env \<Rightarrow> inv_world \<Rightarrow> string \<Rightarrow> string" where
  "hydrate_alert_text env w original =
     (case rootly_ref original of
        None \<Rightarrow> original
      | Some (kind, ref) \<Rightarrow>
          if 80 < length (py_strip (drop_urls original)) \<or> rootly_tool kind \<notin> set (ie_tools env) then original
          else (case iw_hydrate w kind ref of
                  Inl e \<Rightarrow> original
                | Inr v \<Rightarrow> (case rich_text env original v of Inl e \<Rightarrow> original | Inr t \<Rightarrow> t)))"

definition opt_field :: "string \<Rightarrow> string option \<Rightarrow> obj" where
  "opt_field k v = (case v of None \<Rightarrow> [] | Some s \<Rightarrow> [(k, JStr s)])"

definition facts_obj :: "payload_facts \<Rightarrow> obj" where
  "facts_obj f = opt_field ''title'' (pf_title f) @ opt_field ''env'' (pf_env f) @ opt_field ''target'' (pf_target f)
     @ opt_field ''namespace'' (pf_namespace f)"

definition as_text :: "inv_env \<Rightarrow> json \<Rightarrow> string" where
  "as_text env v = (case v of JStr s \<Rightarrow> s | _ \<Rightarrow> ie_dumps env v)"

text \<open>The summary, the payload, and what was extracted if a payload was fetched.\<close>

definition lane_c :: "inv_env \<Rightarrow> inv_world \<Rightarrow> string \<Rightarrow> string \<times> obj \<times> payload_facts option" where
  "lane_c env w alert =
     (case rootly_ref alert of
        None \<Rightarrow> (let s = ''No Rootly URL in alert -- live probe skipped.'' in (s, [(''summary'', JStr s)], None))
      | Some (kind, ref) \<Rightarrow>
          if rootly_tool kind \<notin> set (ie_tools env)
          then (let s = rootly_tool kind @ '' not in the tool registry.'' in (s, [(''summary'', JStr s)], None))
          else (case iw_probe w kind ref of
                  Inl e \<Rightarrow> (let s = ''Rootly fetch failed.'' in
                    (s, [(''summary'', JStr s), (''error'', JStr generic_error)], None))
                | Inr v \<Rightarrow>
                    (let txt' = as_text env v; f = extract_from_payload txt';
                         parts = opt_text (pf_title f) @ map ((@) ''env='') (opt_text (pf_env f))
                           @ map ((@) ''target='') (opt_text (pf_target f));
                         s = (if parts = [] then ''Rootly payload fetched.'' else join '' | '' parts)
                     in (s, [(''summary'', JStr s), (''rootly_id'', JStr ref), (''rootly_kind'', JStr kind),
                             (''raw'', JStr (take 3000 txt')), (''extracted'', JObj (facts_obj f))], Some f))))"

subsection \<open>Insight and hypotheses\<close>

definition synthesize_insight :: "inv_world \<Rightarrow> string \<Rightarrow> string \<Rightarrow> string \<Rightarrow> obj" where
  "synthesize_insight w a_block b_block c_block =
     (case iw_insight w of
        Inr filled \<Rightarrow> filled
      | Inl e \<Rightarrow>
          [(''what_we_know'', JStr c_block), (''what_weve_seen'', JStr (take 300 b_block)),
           (''what_runbook_says'', JStr (take 300 a_block)),
           (''open_questions'', JStr ''What is the failing service? What tool result would confirm the symptom?''),
           (''error'', JStr generic_error)])"

definition fallback_hypotheses :: "string option \<Rightarrow> hypothesis list" where
  "fallback_hypotheses target =
     (let named = (\<lambda>default. case opt_text target of [] \<Rightarrow> default | t # _ \<Rightarrow> t) in
      [\<lparr>hy_id = ''h1'', hy_text = ''An application-level bug in '' @ named ''the service'' @ '' is causing the reported alert symptoms.'',
         hy_tools = [''elasticsearch_search_logs'']\<rparr>,
       \<lparr>hy_id = ''h2'', hy_text = ''A recent deployment introduced a regression in '' @ named ''the service'' @ ''.'',
         hy_tools = [''gitlab_list_deployments'']\<rparr>,
       \<lparr>hy_id = ''h3'', hy_text = ''A downstream dependency of '' @ named ''the service'' @ '' is unavailable.'',
         hy_tools = [''k8s_list_pods'', ''cloudsql_query_insights'']\<rparr>,
       \<lparr>hy_id = ''h4'', hy_text = named ''The service'' @ '' pods are unhealthy (CrashLoopBackOff, OOMKilled).'',
         hy_tools = [''k8s_list_pods'']\<rparr>])"

definition generate_hypotheses :: "inv_world \<Rightarrow> string option \<Rightarrow> string option \<times> hypothesis list" where
  "generate_hypotheses w target =
     (case iw_hypotheses w of Inr hs \<Rightarrow> hs | Inl e \<Rightarrow> (target, fallback_hypotheses target))"

definition hypothesis_obj :: "hypothesis \<Rightarrow> json" where
  "hypothesis_obj h = JObj [(''id'', JStr (hy_id h)), (''text'', JStr (hy_text h)),
     (''discriminating_tools'', JList (map JStr (hy_tools h))), (''status'', JStr ''open'')]"

subsection \<open>A round of tools\<close>

definition discovery_fundamentals :: "string list" where
  "discovery_fundamentals = [''k8s_find_workloads'', ''k8s_list_pods'', ''rootly_get_alert'']"

text \<open>The tools that are offered to the model.\<close>

definition offered_tools :: "inv_env \<Rightarrow> hypothesis list \<Rightarrow> string list" where
  "offered_tools env hs =
     filter (\<lambda>t. t \<in> set (ie_tools env))
       (sort (remdups (concat (map (map py_strip \<circ> hy_tools) hs) @ discovery_fundamentals)))"

definition summarize_result :: "inv_env \<Rightarrow> json \<Rightarrow> string" where
  "summarize_result env v =
     (case v of
        JNull \<Rightarrow> ''(empty)''
      | _ \<Rightarrow> (let s = (case v of JObj _ \<Rightarrow> ie_dumps env v | JList _ \<Rightarrow> ie_dumps env v | _ \<Rightarrow> json_str (ie_other env) v)
             in if 200 < length s then take 200 s @ ''...'' else s))"

definition unknown_tool_error :: "inv_env \<Rightarrow> string \<Rightarrow> string" where
  "unknown_tool_error env name = ''unknown tool '' @ ie_repr env name"

definition run_tool :: "inv_env \<Rightarrow> inv_world \<Rightarrow> nat \<Rightarrow> nat \<Rightarrow> string \<Rightarrow> obj \<Rightarrow> json result" where
  "run_tool env w rnd pos name args =
     (if startswith name ''gitlab_'' \<and> \<not> ie_gitlab env
      then Inl (Raised ''GitLab client unavailable -- gitlab_* tool skipped'')
      else iw_tool w rnd pos name args)"

text \<open>The calls in order; a result grounds the arguments of the calls after it. The count is the budget of the run.\<close>

fun call_tools ::
  "inv_env \<Rightarrow> inv_world \<Rightarrow> nat \<Rightarrow> nat \<Rightarrow> string list \<Rightarrow> (string \<times> obj) list \<Rightarrow> nat \<Rightarrow> effect list \<times> tool_item list \<times> nat" where
  "call_tools env w rnd pos corpus [] n = ([], [], n)"
| "call_tools env w rnd pos corpus ((name, args0) # cs) n =
     (if max_tool_calls_per_run \<le> n then ([], [], n)
      else (let args = dispatched_args args0 corpus;
                called = Emit ''tool_called'' [(''name'', JStr name), (''args'', JObj args)]
            in if name \<notin> set (ie_tools env) then
                 (let err = unknown_tool_error env name;
                      (es, items, m) = call_tools env w rnd (pos + 1) corpus cs (n + 1)
                  in (called # Emit ''tool_result'' [(''name'', JStr name), (''error'', JStr err)] # es,
                      \<lparr>ti_name = name, ti_args = args, ti_outcome = Inl (Raised err)\<rparr> # items, m))
               else (let out = run_tool env w rnd pos name args;
                         corpus' = (case out of Inr v \<Rightarrow> corpus @ [as_text env v] | Inl e \<Rightarrow> corpus);
                         shown = (case out of
                            Inr v \<Rightarrow> (''summary'', JStr (summarize_result env v))
                          | Inl e \<Rightarrow> (''error'', JStr ''tool execution failed''));
                         (es, items, m) = call_tools env w rnd (pos + 1) corpus' cs (n + 1)
                     in (called # Emit ''tool_result'' [(''name'', JStr name), shown] # es,
                         \<lparr>ti_name = name, ti_args = args, ti_outcome = out\<rparr> # items, m))))"

definition reasoner_tool_round ::
  "inv_env \<Rightarrow> inv_world \<Rightarrow> nat \<Rightarrow> string list \<Rightarrow> hypothesis list \<Rightarrow> nat \<Rightarrow> effect list \<times> tool_item list \<times> nat" where
  "reasoner_tool_round env w rnd corpus hs n =
     (if offered_tools env hs = [] then ([], [], n)
      else case iw_reason w rnd of
        None \<Rightarrow> ([], [], n)
      | Some (Inl e) \<Rightarrow> ([], [], n)
      | Some (Inr (thinking, calls)) \<Rightarrow>
          if calls = [] then ([], [], n)
          else (let (es, items, m) = call_tools env w rnd 0 corpus (take 6 calls) n
                in (Emit ''reasoner_step'' [(''thinking_text'', JStr (take 800 thinking)),
                      (''pending_tools'', JList (map (JStr \<circ> fst) calls))] # es, items, m)))"

subsection \<open>Verdicts\<close>

definition untested :: "string \<Rightarrow> verdict" where
  "untested i = \<lparr>vd_id = i, vd_status = ''untested'', vd_evidence = [], vd_confidence = 0, vd_tools = []\<rparr>"

definition evaluate_hypotheses :: "inv_world \<Rightarrow> nat \<Rightarrow> hypothesis list \<Rightarrow> verdict list" where
  "evaluate_hypotheses w rnd hs =
     (if hs = [] then []
      else case iw_verdicts w rnd of
        Inl e \<Rightarrow> map (\<lambda>(i, h). untested (if hy_id h = [] then ''h'' @ str_nat (i + 1) else hy_id h)) (List.enumerate 0 hs)
      | Inr vs \<Rightarrow> vs @ map untested (filter (\<lambda>i. i \<noteq> [] \<and> i \<notin> vd_id ` set vs) (map hy_id hs)))"

definition decided :: "verdict \<Rightarrow> bool" where
  "decided v \<longleftrightarrow> vd_status v \<in> {''confirmed'', ''ruled_out''}"

definition verdict_obj :: "verdict \<Rightarrow> obj" where
  "verdict_obj v = [(''hypothesis_id'', JStr (vd_id v)), (''status'', JStr (vd_status v)), (''evidence'', JStr (vd_evidence v)),
     (''confidence'', JFloat (Fin (vd_confidence v))), (''supporting_tools'', JList (map JStr (vd_tools v)))]"

subsection \<open>The run\<close>

text \<open>The rounds from number \<open>rnd\<close> on, at most \<open>left\<close> of them.\<close>

fun reason_rounds ::
  "inv_env \<Rightarrow> inv_world \<Rightarrow> string list \<Rightarrow> hypothesis list \<Rightarrow> nat \<Rightarrow> nat \<Rightarrow> nat \<Rightarrow> tool_item list
    \<Rightarrow> effect list \<times> tool_item list" where
  "reason_rounds env w corpus hs 0 rnd n items = ([], items)"
| "reason_rounds env w corpus hs (Suc left) rnd n items =
     (if max_wall_clock_sec \<le> iw_elapsed w rnd \<or> max_tool_calls_per_run \<le> n
      then ([Emit ''reasoner_step'' [(''note'', JStr ''budget_exhausted''), (''tool_calls'', JInt (int n))]], items)
      else (case reasoner_tool_round env w rnd corpus hs n of
              (es, new, m) \<Rightarrow>
                if new = [] then (es, items)
                else (let vs = evaluate_hypotheses w rnd hs;
                          shown = es @ map (\<lambda>v. Emit ''hypothesis_evaluated'' (verdict_obj v)) vs
                      in if list_all decided vs then (shown, items @ new)
                         else (case reason_rounds env w corpus hs left (rnd + 1) m (items @ new) of
                                 (es', items') \<Rightarrow> (shown @ es', items')))))"

definition generate_answer :: "inv_world \<Rightarrow> string" where
  "generate_answer w =
     (case iw_answer w of
        Inr s \<Rightarrow> if s = [] then ''(empty answer)'' else s
      | Inl e \<Rightarrow> ''### Root cause'' @ [newline_char] @ generic_error)"

definition or_else :: "string option \<Rightarrow> string option \<Rightarrow> string option" where
  "or_else v w = (case v of Some s \<Rightarrow> if s = [] then w else Some s | None \<Rightarrow> w)"

text \<open>From the insight to the end: the writes, and whether the pipeline raised.\<close>

definition run_from_insight ::
  "inv_env \<Rightarrow> inv_world \<Rightarrow> string \<Rightarrow> string \<Rightarrow> string \<Rightarrow> string \<Rightarrow> string option \<Rightarrow> string option \<Rightarrow> string option
    \<Rightarrow> effect list \<times> bool" where
  "run_from_insight env w alert a_block b_block c_block env_name target namespace =
     (let filled = synthesize_insight w a_block b_block c_block;
          insight = filled @ [(''_lane_a_raw'', JStr a_block)];
          (named, hs) = generate_hypotheses w target;
          target' = or_else named target;
          corpus = grounding_corpus (\<lambda>d. ie_dumps env (JObj d)) alert (env_block (ie_clusters env) env_name namespace)
            insight target' namespace;
          (rounds, items) = reason_rounds env w corpus hs max_reasoner_rounds 0 0 [];
          answer = generate_answer w;
          cause = extract_root_cause answer;
          shown = [Emit ''insight_ready'' [(''insight_card'', JObj filled)],
             Emit ''hypotheses_generated'' [(''hypotheses'', JList (map hypothesis_obj hs)),
               (''incident_target'', (case target' of None \<Rightarrow> JNull | Some t \<Rightarrow> JStr t))]]
             @ rounds @ [Emit ''conclusion_ready'' [(''answer'', JStr answer)]]
      in case iw_mark w of
           Inl e \<Rightarrow> (shown, False)
         | Inr u \<Rightarrow> (shown @ [Mark ''completed'' cause (Some ''completed''),
             Emit ''investigation_completed'' [(''root_cause'', (case cause of None \<Rightarrow> JNull | Some c \<Rightarrow> JStr c))]], True))"

definition run_pipeline :: "inv_env \<Rightarrow> inv_world \<Rightarrow> string \<Rightarrow> effect list \<times> bool" where
  "run_pipeline env w original =
     (let alert = hydrate_alert_text env w original;
          target = extract_target alert;
          (kept, a) = lane_a env w alert;
          (past, b) = lane_b env w;
          (c_block, c, facts) = lane_c env w alert;
          env_name = or_else (extract_env alert) (Option.bind facts pf_env);
          target' = or_else target (Option.bind facts pf_target);
          namespace = or_else (extract_namespace alert) (Option.bind facts pf_namespace);
          started = [Emit ''investigation_started'' [(''alert_text'', JStr original),
                       (''incident_target'', (case target of None \<Rightarrow> JNull | Some t \<Rightarrow> JStr t))],
                     Emit ''initial_investigation_started'' [],
                     Emit ''lane_a_completed'' a, Emit ''lane_b_completed'' b, Emit ''lane_c_completed'' c]
      in case render_lane_b env past of
           Inl e \<Rightarrow> (started, False)
         | Inr b_block \<Rightarrow>
             (case run_from_insight env w alert (render_lane_a (ie_score env) kept) b_block c_block env_name target' namespace of
                (es, ok) \<Rightarrow> (started @ es, ok)))"

text \<open>A status that cannot be written after a failure is left as it was; the exception is swallowed.\<close>

definition run_one :: "inv_env \<Rightarrow> inv_world \<Rightarrow> string \<Rightarrow> effect list" where
  "run_one env w original =
     (case run_pipeline env w original of
        (es, True) \<Rightarrow> es
      | (es, False) \<Rightarrow> es @ [Emit ''investigation_failed'' [(''error'', JStr generic_error)]]
          @ (if is_ok (iw_mark_failed w) then [Mark ''failed'' None None] else []))"

text \<open>The endpoint that starts a run.\<close>

definition create_investigation :: "string \<Rightarrow> string \<Rightarrow> real \<Rightarrow> ledger \<Rightarrow> string + ledger" where
  "create_investigation i alert now lg =
     (let a = py_strip alert in
      if a = [] then Inl ''400 alert_text required'' else Inr (create_row i a (extract_target a) now lg))"

end
