(* ===== verification/Investigation_Facts.thy ===== *)
theory Investigation_Facts
  imports Investigation Connector_Perms
begin

text \<open>
  What a run of an investigation guarantees: the order of its events, its bounds, that no text of an exception is
  written, a verdict for every hypothesis, and what a subscriber of the ledger gets to see of it.
\<close>

subsection \<open>The order of events\<close>

definition event_order :: "(string \<times> string list) list" where
  "event_order =
     [(''investigation_started'', [''initial_investigation_started'']),
      (''initial_investigation_started'', [''lane_a_completed'']),
      (''lane_a_completed'', [''lane_b_completed'']),
      (''lane_b_completed'', [''lane_c_completed'']),
      (''lane_c_completed'', [''insight_ready'', ''investigation_failed'']),
      (''insight_ready'', [''hypotheses_generated'']),
      (''hypotheses_generated'', [''reasoner_step'', ''conclusion_ready'']),
      (''reasoner_step'', [''tool_called'', ''conclusion_ready'']),
      (''tool_called'', [''tool_result'']),
      (''tool_result'', [''tool_called'', ''hypothesis_evaluated'', ''conclusion_ready'']),
      (''hypothesis_evaluated'', [''hypothesis_evaluated'', ''reasoner_step'', ''conclusion_ready'']),
      (''conclusion_ready'', [''investigation_completed'', ''investigation_failed''])]"

definition may_follow :: "string \<Rightarrow> string \<Rightarrow> bool" where
  "may_follow a b \<longleftrightarrow> (\<exists>bs. map_of event_order a = Some bs \<and> b \<in> set bs)"

lemma may_follow_simps:
  "may_follow ''investigation_started'' b \<longleftrightarrow> b = ''initial_investigation_started''"
  "may_follow ''initial_investigation_started'' b \<longleftrightarrow> b = ''lane_a_completed''"
  "may_follow ''lane_a_completed'' b \<longleftrightarrow> b = ''lane_b_completed''"
  "may_follow ''lane_b_completed'' b \<longleftrightarrow> b = ''lane_c_completed''"
  "may_follow ''lane_c_completed'' b \<longleftrightarrow> b = ''insight_ready'' \<or> b = ''investigation_failed''"
  "may_follow ''insight_ready'' b \<longleftrightarrow> b = ''hypotheses_generated''"
  "may_follow ''hypotheses_generated'' b \<longleftrightarrow> b = ''reasoner_step'' \<or> b = ''conclusion_ready''"
  "may_follow ''reasoner_step'' b \<longleftrightarrow> b = ''tool_called'' \<or> b = ''conclusion_ready''"
  "may_follow ''tool_called'' b \<longleftrightarrow> b = ''tool_result''"
  "may_follow ''tool_result'' b \<longleftrightarrow> b = ''tool_called'' \<or> b = ''hypothesis_evaluated'' \<or> b = ''conclusion_ready''"
  "may_follow ''hypothesis_evaluated'' b \<longleftrightarrow> b = ''hypothesis_evaluated'' \<or> b = ''reasoner_step'' \<or> b = ''conclusion_ready''"
  "may_follow ''conclusion_ready'' b \<longleftrightarrow> b = ''investigation_completed'' \<or> b = ''investigation_failed''"
  "\<not> may_follow ''investigation_completed'' b" "\<not> may_follow ''investigation_failed'' b"
  by (simp_all add: may_follow_def event_order_def)

lemma types_append [simp]: "emitted_types (xs @ ys) = emitted_types xs @ emitted_types ys"
  by (induction xs rule: emitted_types.induct) simp_all

lemma types_evaluated [simp]:
  "emitted_types (map (\<lambda>v. Emit ''hypothesis_evaluated'' (p v)) vs) = replicate (length vs) ''hypothesis_evaluated''"
  by (induction vs) simp_all

lemma order_evaluated: "successively may_follow (replicate n ''hypothesis_evaluated'')"
  by (induction n) (auto simp: successively_Cons may_follow_simps dest: hd_in_set split: if_splits)

lemma call_tools_step:
  assumes "n < max_tool_calls_per_run"
  obtains corpus' es items m p q x where
    "call_tools env w rnd (pos + 1) corpus' cs (n + 1) = (es, items, m)"
    "call_tools env w rnd pos corpus ((name, args0) # cs) n = (Emit ''tool_called'' p # Emit ''tool_result'' q # es, x # items, m)"
proof (cases "name \<in> set (ie_tools env)")
  case True
  define c' where "c' = (case run_tool env w rnd pos name (dispatched_args args0 corpus) of
    Inr v \<Rightarrow> corpus @ [as_text env v] | Inl e \<Rightarrow> corpus)"
  obtain es items m where r: "call_tools env w rnd (pos + 1) c' cs (n + 1) = (es, items, m)" by (metis prod_cases3)
  show ?thesis by (rule that [OF r]) (use assms True r in \<open>simp add: Let_def c'_def\<close>)
next
  case False
  obtain es items m where r: "call_tools env w rnd (pos + 1) corpus cs (n + 1) = (es, items, m)" by (metis prod_cases3)
  show ?thesis by (rule that [OF r]) (use assms False r in \<open>simp add: Let_def\<close>)
qed

lemma call_tools_stop: "max_tool_calls_per_run \<le> n \<Longrightarrow> call_tools env w rnd pos corpus cs n = ([], [], n)"
  by (cases cs) auto

declare call_tools.simps(2) [simp del]

lemma call_tools_order:
  "call_tools env w rnd pos corpus cs n = (es, items, m) \<Longrightarrow>
     successively may_follow (emitted_types es)
     \<and> (items = [] \<longleftrightarrow> emitted_types es = [])
     \<and> (items \<noteq> [] \<longrightarrow> hd (emitted_types es) = ''tool_called'' \<and> last (emitted_types es) = ''tool_result'')"
proof (induction cs arbitrary: pos corpus n es items m)
  case (Cons c cs)
  obtain name args0 where c: "c = (name, args0)" by fastforce
  show ?case
  proof (cases "n < max_tool_calls_per_run")
    case True
    obtain corpus' es' items' m' p q x where r: "call_tools env w rnd (pos + 1) corpus' cs (n + 1) = (es', items', m')"
      "call_tools env w rnd pos corpus (c # cs) n = (Emit ''tool_called'' p # Emit ''tool_result'' q # es', x # items', m')"
      unfolding c by (rule call_tools_step [OF True])
    from Cons.IH [OF r(1)] show ?thesis using Cons.prems r(2) by (auto simp: successively_Cons may_follow_simps)
  qed (use Cons.prems in \<open>simp add: call_tools_stop\<close>)
qed simp

lemma call_tools_bound:
  "call_tools env w rnd pos corpus cs n = (es, items, m) \<Longrightarrow>
     m \<le> n + length cs \<and> n + length items = m \<and> count_list (emitted_types es) ''tool_called'' = length items
     \<and> count_list (emitted_types es) ''reasoner_step'' = 0
     \<and> (n + length cs \<le> max_tool_calls_per_run \<longrightarrow> length items = length cs)"
proof (induction cs arbitrary: pos corpus n es items m)
  case (Cons c cs)
  obtain name args0 where c: "c = (name, args0)" by fastforce
  show ?case
  proof (cases "n < max_tool_calls_per_run")
    case True
    obtain corpus' es' items' m' p q x where r: "call_tools env w rnd (pos + 1) corpus' cs (n + 1) = (es', items', m')"
      "call_tools env w rnd pos corpus (c # cs) n = (Emit ''tool_called'' p # Emit ''tool_result'' q # es', x # items', m')"
      unfolding c by (rule call_tools_step [OF True])
    from Cons.IH [OF r(1)] show ?thesis using Cons.prems r(2) by auto
  qed (use Cons.prems in \<open>simp add: call_tools_stop\<close>)
qed simp

text \<open>One round: nothing, or a step and the calls.\<close>

lemma round_cases:
  assumes "reasoner_tool_round env w rnd corpus hs n = (es, items, m)"
  obtains (idle) "es = []" "items = []" "m = n"
    | (calls) p thinking cs es' where "es = Emit ''reasoner_step'' p # es'" "cs \<noteq> []" "length cs \<le> 6"
      "iw_reason w rnd = Some (Inr (thinking, cs)) \<or> length cs = 6"
      "call_tools env w rnd 0 corpus cs n = (es', items, m)"
proof -
  consider "(es, items, m) = ([], [], n)"
    | thinking cs where "iw_reason w rnd = Some (Inr (thinking, cs))" "cs \<noteq> []"
      "(es, items, m) = (let (es, items, m) = call_tools env w rnd 0 corpus (take 6 cs) n
                in (Emit ''reasoner_step'' [(''thinking_text'', JStr (take 800 thinking)),
                      (''pending_tools'', JList (map (JStr \<circ> fst) cs))] # es, items, m))"
    using assms by (auto simp: reasoner_tool_round_def split: if_splits option.splits sum.splits prod.splits)
  then show ?thesis
  proof cases
    case 1
    then show ?thesis by (intro idle) simp_all
  next
    case (2 thinking cs)
    obtain es' items' m' where r: "call_tools env w rnd 0 corpus (take 6 cs) n = (es', items', m')" by (metis prod_cases3)
    show ?thesis
      by (rule calls [of "[(''thinking_text'', JStr (take 800 thinking)), (''pending_tools'', JList (map (JStr \<circ> fst) cs))]"
            es' "take 6 cs" thinking])
        (use 2 r in auto)
  qed
qed

lemma rounds_order:
  "reason_rounds env w corpus hs left rnd n items0 = (es, items) \<Longrightarrow>
     successively may_follow (emitted_types es)
     \<and> (emitted_types es \<noteq> [] \<longrightarrow> hd (emitted_types es) = ''reasoner_step'' \<and>
          last (emitted_types es) \<in> {''reasoner_step'', ''tool_result'', ''hypothesis_evaluated''})"
proof (induction left arbitrary: rnd n items0 es items)
  case (Suc left)
  show ?case
  proof (cases "max_wall_clock_sec \<le> iw_elapsed w rnd \<or> max_tool_calls_per_run \<le> n")
    case False
    obtain es1 new m where r: "reasoner_tool_round env w rnd corpus hs n = (es1, new, m)" by (metis prod_cases3)
    show ?thesis
    proof (cases rule: round_cases [OF r])
      case 1
      then show ?thesis using Suc.prems False r by simp
    next
      case (2 p thinking cs es')
      note ct = call_tools_order [OF 2(5)]
      show ?thesis
      proof (cases "new = []")
        case True
        then show ?thesis using Suc.prems False r 2 ct by (auto simp: successively_Cons)
      next
        case new: False
        define vs where "vs = evaluate_hypotheses w rnd hs"
        have first: "successively may_follow (''reasoner_step'' # emitted_types es')"
          using ct new by (auto simp: successively_Cons may_follow_simps)
        have shown: "successively may_follow (''reasoner_step'' # emitted_types es' @ replicate (length vs) ''hypothesis_evaluated'')"
          using first ct new order_evaluated [of "length vs"]
          by (cases vs) (auto simp: successively_append_iff successively_Cons may_follow_simps)
        show ?thesis
        proof (cases "list_all decided vs")
          case True
          then show ?thesis using Suc.prems False r 2(1) new shown ct
            by (cases vs) (auto simp: vs_def [symmetric] Let_def split: if_splits)
        next
          case und: False
          then have ne: "vs \<noteq> []" by auto
          obtain es2 items2 where r2: "reason_rounds env w corpus hs left (rnd + 1) m (items0 @ new) = (es2, items2)" by fastforce
          define now where "now = ''reasoner_step'' # emitted_types es' @ replicate (length vs) ''hypothesis_evaluated''"
          have es: "emitted_types es = now @ emitted_types es2"
            using Suc.prems False r 2(1) new und r2 by (auto simp: vs_def [symmetric] Let_def now_def)
          have l: "now \<noteq> []" "hd now = ''reasoner_step''" "last now = ''hypothesis_evaluated''" "successively may_follow now"
            using ne shown by (simp_all add: now_def)
          show ?thesis
            using Suc.IH [OF r2] l unfolding es
            by (cases "emitted_types es2 = []") (simp_all add: successively_append_iff may_follow_simps)
        qed
      qed
    qed
  qed (use Suc.prems in auto)
qed simp

text \<open>The status that a run's writes leave; the rounds write none.\<close>

fun last_mark :: "effect list \<Rightarrow> string option" where
  "last_mark [] = None"
| "last_mark (Emit ty p # es) = last_mark es"
| "last_mark (Mark s r d # es) = (case last_mark es of None \<Rightarrow> Some s | Some s' \<Rightarrow> Some s')"

lemma last_mark_append: "last_mark (xs @ ys) = (case last_mark ys of None \<Rightarrow> last_mark xs | Some s \<Rightarrow> Some s)"
  by (induction xs rule: last_mark.induct) (auto split: option.splits)

lemma last_mark_emits [simp]: "last_mark (map (\<lambda>v. Emit ty (p v)) vs) = None"
  by (induction vs) simp_all

lemma calls_no_mark: "call_tools env w rnd pos corpus cs n = (es, items, m) \<Longrightarrow> last_mark es = None"
proof (induction cs arbitrary: pos corpus n es items m)
  case (Cons c cs)
  obtain name args0 where c: "c = (name, args0)" by fastforce
  show ?case
  proof (cases "n < max_tool_calls_per_run")
    case True
    obtain corpus' es' items' m' p q x where r: "call_tools env w rnd (pos + 1) corpus' cs (n + 1) = (es', items', m')"
      "call_tools env w rnd pos corpus (c # cs) n = (Emit ''tool_called'' p # Emit ''tool_result'' q # es', x # items', m')"
      unfolding c by (rule call_tools_step [OF True])
    from Cons.IH [OF r(1)] show ?thesis using Cons.prems r(2) by auto
  qed (use Cons.prems in \<open>simp add: call_tools_stop\<close>)
qed simp

lemma round_no_mark: "reasoner_tool_round env w rnd corpus hs n = (es, items, m) \<Longrightarrow> last_mark es = None"
  by (erule round_cases) (auto dest: calls_no_mark)

lemma rounds_no_mark: "reason_rounds env w corpus hs left rnd n items0 = (es, items) \<Longrightarrow> last_mark es = None"
proof (induction left arbitrary: rnd n items0 es items)
  case (Suc left)
  obtain es1 new m where r: "reasoner_tool_round env w rnd corpus hs n = (es1, new, m)" by (metis prod_cases3)
  obtain es2 items2 where r2: "reason_rounds env w corpus hs left (Suc rnd) m (items0 @ new) = (es2, items2)" by fastforce
  show ?case using Suc.prems round_no_mark [OF r] Suc.IH [OF r2]
    by (auto simp: r r2 Let_def last_mark_append split: if_splits)
qed simp

text \<open>The part from the insight on: two events, the rounds, the conclusion, and the mark with the last event if it succeeds.\<close>

lemma run_from_insight_shape:
  "\<exists>before corpus hs rounds items p q cause.
     reason_rounds env w corpus hs max_reasoner_rounds 0 0 [] = (rounds, items)
     \<and> emitted_types before = [''insight_ready'', ''hypotheses_generated''] \<and> last_mark before = None
     \<and> run_from_insight env w alert a_block b_block c_block env_name target namespace =
         (before @ rounds @ Emit ''conclusion_ready'' p #
            (if is_ok (iw_mark w) then [Mark ''completed'' cause (Some ''completed''), Emit ''investigation_completed'' q] else []),
          is_ok (iw_mark w))"
proof -
  define filled where "filled = synthesize_insight w a_block b_block c_block"
  obtain named hs where hs: "generate_hypotheses w target = (named, hs)" by fastforce
  define corpus where "corpus = grounding_corpus (\<lambda>d. ie_dumps env (JObj d)) alert (env_block (ie_clusters env) env_name namespace)
    (filled @ [(''_lane_a_raw'', JStr a_block)]) (or_else named target) namespace"
  obtain rounds items where r: "reason_rounds env w corpus hs max_reasoner_rounds 0 0 [] = (rounds, items)" by fastforce
  define before where "before = [Emit ''insight_ready'' [(''insight_card'', JObj filled)],
     Emit ''hypotheses_generated'' [(''hypotheses'', JList (map hypothesis_obj hs)),
       (''incident_target'', (case or_else named target of None \<Rightarrow> JNull | Some t \<Rightarrow> JStr t))]]"
  have "emitted_types before = [''insight_ready'', ''hypotheses_generated'']" "last_mark before = None" by (simp_all add: before_def)
  moreover have "run_from_insight env w alert a_block b_block c_block env_name target namespace =
     (before @ rounds @ Emit ''conclusion_ready'' [(''answer'', JStr (generate_answer w))] #
        (if is_ok (iw_mark w) then [Mark ''completed'' (extract_root_cause (generate_answer w)) (Some ''completed''),
           Emit ''investigation_completed''
             [(''root_cause'', (case extract_root_cause (generate_answer w) of None \<Rightarrow> JNull | Some c \<Rightarrow> JStr c))]] else []),
      is_ok (iw_mark w))"
    unfolding run_from_insight_def Let_def filled_def [symmetric] hs prod.case corpus_def [symmetric] r
    by (cases "iw_mark w") (simp_all add: before_def)
  ultimately show ?thesis using r by blast
qed

text \<open>What may come after the three lanes.\<close>

inductive run_ends :: "inv_env \<Rightarrow> inv_world \<Rightarrow> effect list \<Rightarrow> bool" for env w where
  no_insight: "run_ends env w (Emit ''investigation_failed'' p # (if is_ok (iw_mark_failed w) then [Mark ''failed'' None None] else []))"
| completed: "is_ok (iw_mark w) \<Longrightarrow> reason_rounds env w corpus hs max_reasoner_rounds 0 0 [] = (rounds, items) \<Longrightarrow>
    emitted_types before = [''insight_ready'', ''hypotheses_generated''] \<Longrightarrow> last_mark before = None \<Longrightarrow>
    run_ends env w (before @ rounds @ [Emit ''conclusion_ready'' p, Mark ''completed'' cause (Some ''completed''),
      Emit ''investigation_completed'' q])"
| not_marked: "\<not> is_ok (iw_mark w) \<Longrightarrow> reason_rounds env w corpus hs max_reasoner_rounds 0 0 [] = (rounds, items) \<Longrightarrow>
    emitted_types before = [''insight_ready'', ''hypotheses_generated''] \<Longrightarrow> last_mark before = None \<Longrightarrow>
    run_ends env w (before @ rounds @ [Emit ''conclusion_ready'' p, Emit ''investigation_failed'' q]
      @ (if is_ok (iw_mark_failed w) then [Mark ''failed'' None None] else []))"

lemma run_one_shape:
  obtains start rest where "run_one env w alert = start @ rest"
    "emitted_types start = [''investigation_started'', ''initial_investigation_started'', ''lane_a_completed'',
          ''lane_b_completed'', ''lane_c_completed'']" "last_mark start = None" "run_ends env w rest"
proof -
  define al where "al = hydrate_alert_text env w alert"
  obtain kept a where a: "lane_a env w al = (kept, a)" by fastforce
  obtain past b where b: "lane_b env w = (past, b)" by fastforce
  obtain c_block c facts where c: "lane_c env w al = (c_block, c, facts)" by (metis prod_cases3)
  define start where "start = [Emit ''investigation_started'' [(''alert_text'', JStr alert),
       (''incident_target'', (case extract_target al of None \<Rightarrow> JNull | Some t \<Rightarrow> JStr t))],
     Emit ''initial_investigation_started'' [],
     Emit ''lane_a_completed'' a, Emit ''lane_b_completed'' b, Emit ''lane_c_completed'' c]"
  have st: "emitted_types start = [''investigation_started'', ''initial_investigation_started'', ''lane_a_completed'',
      ''lane_b_completed'', ''lane_c_completed'']" "last_mark start = None" by (simp_all add: start_def)
  define rfi where "rfi b_block = run_from_insight env w al (render_lane_a (ie_score env) kept) b_block c_block
    (or_else (extract_env al) (Option.bind facts pf_env)) (or_else (extract_target al) (Option.bind facts pf_target))
    (or_else (extract_namespace al) (Option.bind facts pf_namespace))" for b_block
  have pl: "run_pipeline env w alert = (case render_lane_b env past of Inl e \<Rightarrow> (start, False)
     | Inr b_block \<Rightarrow> (case rfi b_block of (es, ok) \<Rightarrow> (start @ es, ok)))"
    unfolding run_pipeline_def Let_def al_def [symmetric] a b c prod.case start_def rfi_def by (rule refl)
  show ?thesis
  proof (cases "render_lane_b env past")
    case (Inl e)
    then have "run_one env w alert = start @ (Emit ''investigation_failed'' [(''error'', JStr generic_error)]
        # (if is_ok (iw_mark_failed w) then [Mark ''failed'' None None] else []))"
      by (simp add: run_one_def pl)
    then show ?thesis using st no_insight by (rule that)
  next
    case (Inr b_block)
    obtain before corpus hs rounds items p q cause where r:
      "reason_rounds env w corpus hs max_reasoner_rounds 0 0 [] = (rounds, items)"
      "emitted_types before = [''insight_ready'', ''hypotheses_generated'']" "last_mark before = None"
      "rfi b_block = (before @ rounds @ Emit ''conclusion_ready'' p #
            (if is_ok (iw_mark w) then [Mark ''completed'' cause (Some ''completed''), Emit ''investigation_completed'' q] else []),
          is_ok (iw_mark w))"
      using run_from_insight_shape [where env = env and w = w and alert = al and a_block = "render_lane_a (ie_score env) kept"
          and b_block = b_block and c_block = c_block and env_name = "or_else (extract_env al) (Option.bind facts pf_env)"
          and target = "or_else (extract_target al) (Option.bind facts pf_target)"
          and namespace = "or_else (extract_namespace al) (Option.bind facts pf_namespace)"]
      unfolding rfi_def by blast
    show ?thesis
    proof (cases "is_ok (iw_mark w)")
      case True
      then have "run_one env w alert = start @ before @ rounds @ [Emit ''conclusion_ready'' p,
          Mark ''completed'' cause (Some ''completed''), Emit ''investigation_completed'' q]"
        using Inr r(4) by (simp add: run_one_def pl)
      then show ?thesis using st completed [OF True r(1-3)] by (rule that)
    next
      case False
      then have "run_one env w alert = start @ before @ rounds @ [Emit ''conclusion_ready'' p,
          Emit ''investigation_failed'' [(''error'', JStr generic_error)]] @ (if is_ok (iw_mark_failed w) then [Mark ''failed'' None None] else [])"
        using Inr r(4) by (simp add: run_one_def pl)
      then show ?thesis using st not_marked [OF False r(1-3)] by (rule that)
    qed
  qed
qed

lemma successively_followed: "successively P xs \<Longrightarrow> x \<in> set (butlast xs) \<Longrightarrow> \<exists>y. P x y"
  by (induction xs rule: induct_list012) (auto split: if_splits)

lemma terminal_not_followed: "terminal_type a \<Longrightarrow> \<not> may_follow a b"
  by (auto simp: terminal_type_def may_follow_simps)

lemma count_evaluated: "x \<noteq> ''hypothesis_evaluated'' \<Longrightarrow> count_list (replicate n ''hypothesis_evaluated'') x = 0"
  by (induction n) auto

lemma rounds_bound:
  "reason_rounds env w corpus hs left rnd n items0 = (es, items) \<Longrightarrow> n + 6 * left \<le> max_tool_calls_per_run \<Longrightarrow>
     count_list (emitted_types es) ''tool_called'' \<le> 6 * left \<and> count_list (emitted_types es) ''reasoner_step'' \<le> left
     \<and> length items = length items0 + count_list (emitted_types es) ''tool_called''"
proof (induction left arbitrary: rnd n items0 es items)
  case (Suc left)
  show ?case
  proof (cases "max_wall_clock_sec \<le> iw_elapsed w rnd")
    case False
    have n: "\<not> max_tool_calls_per_run \<le> n" using Suc.prems(2) by simp
    obtain es1 new m where r: "reasoner_tool_round env w rnd corpus hs n = (es1, new, m)" by (metis prod_cases3)
    show ?thesis
    proof (cases rule: round_cases [OF r])
      case 1
      then show ?thesis using Suc.prems False n r by simp
    next
      case (2 p thinking cs es')
      note ct = call_tools_bound [OF 2(5)]
      show ?thesis
      proof (cases "new = [] \<or> list_all decided (evaluate_hypotheses w rnd hs)")
        case True
        then show ?thesis using Suc.prems False n r 2 ct by (auto simp: Let_def count_evaluated split: if_splits)
      next
        case und: False
        obtain es2 items2 where r2: "reason_rounds env w corpus hs left (rnd + 1) m (items0 @ new) = (es2, items2)" by fastforce
        have "m + 6 * left \<le> max_tool_calls_per_run" using Suc.prems(2) ct 2(3) by simp
        from Suc.IH [OF r2 this] show ?thesis
          using Suc.prems False n r 2 ct und r2 by (auto simp: Let_def count_evaluated split: if_splits)
      qed
    qed
  qed (use Suc.prems in auto)
qed simp

lemma run_one_protocol:
  "emitted_types (run_one env w alert) \<noteq> [] \<and> hd (emitted_types (run_one env w alert)) = ''investigation_started''
   \<and> successively may_follow (emitted_types (run_one env w alert))
   \<and> terminal_type (last (emitted_types (run_one env w alert)))
   \<and> list_all (\<lambda>t. \<not> terminal_type t) (butlast (emitted_types (run_one env w alert)))
   \<and> count_list (emitted_types (run_one env w alert)) ''reasoner_step'' \<le> 3
   \<and> count_list (emitted_types (run_one env w alert)) ''tool_called'' \<le> 18"
proof -
  define ts where "ts = emitted_types (run_one env w alert)"
  let ?start = "[''investigation_started'', ''initial_investigation_started'', ''lane_a_completed'', ''lane_b_completed'',
      ''lane_c_completed'']"
  obtain start rest where sr: "run_one env w alert = start @ rest" "emitted_types start = ?start" "run_ends env w rest"
    by (rule run_one_shape)
  consider p where "rest = Emit ''investigation_failed'' p # (if is_ok (iw_mark_failed w) then [Mark ''failed'' None None] else [])"
    | corpus hs rounds items fin where "reason_rounds env w corpus hs max_reasoner_rounds 0 0 [] = (rounds, items)"
      "ts = ?start @ [''insight_ready'', ''hypotheses_generated''] @ emitted_types rounds @ [''conclusion_ready'', fin]"
      "fin \<in> {''investigation_completed'', ''investigation_failed''}"
    using sr(3) by cases (simp_all add: ts_def sr(1,2))
  then have "ts \<noteq> [] \<and> hd ts = ''investigation_started'' \<and> successively may_follow ts \<and> terminal_type (last ts)
     \<and> count_list ts ''reasoner_step'' \<le> 3 \<and> count_list ts ''tool_called'' \<le> 18"
  proof cases
    case 1
    then show ?thesis using sr(1,2) by (simp add: ts_def may_follow_simps terminal_type_def)
  next
    case r: 2
    have o: "successively may_follow (emitted_types rounds)"
      "emitted_types rounds \<noteq> [] \<Longrightarrow> hd (emitted_types rounds) = ''reasoner_step'' \<and>
          last (emitted_types rounds) \<in> {''reasoner_step'', ''tool_result'', ''hypothesis_evaluated''}"
      using rounds_order [OF r(1)] by blast+
    have b: "count_list (emitted_types rounds) ''tool_called'' \<le> 18" "count_list (emitted_types rounds) ''reasoner_step'' \<le> 3"
      using rounds_bound [OF r(1)] by (simp_all add: max_reasoner_rounds_def max_tool_calls_per_run_def)
    have "successively may_follow ts"
    proof (cases "emitted_types rounds = []")
      case True
      then show ?thesis using r(2,3) by (auto simp: may_follow_simps)
    next
      case False
      have 1: "successively may_follow [''conclusion_ready'', fin]" using r(3) by (auto simp: may_follow_simps)
      have 2: "successively may_follow (emitted_types rounds @ [''conclusion_ready'', fin])"
        using o(1) o(2) [OF False] 1 False by (auto simp: successively_append_iff may_follow_simps)
      have 3: "successively may_follow ((?start @ [''insight_ready'', ''hypotheses_generated'']) @
          (emitted_types rounds @ [''conclusion_ready'', fin]))"
        using 2 o(2) [OF False] False by (subst successively_append_iff) (simp add: may_follow_simps)
      then show ?thesis unfolding r(2) by simp
    qed
    then show ?thesis using r(2,3) b by (auto simp: terminal_type_def)
  qed
  moreover from this have "list_all (\<lambda>t. \<not> terminal_type t) (butlast ts)"
    unfolding list_all_iff
    by (metis successively_followed terminal_not_followed)
  ultimately show ?thesis unfolding ts_def [symmetric] by (intro conjI) simp_all
qed

text \<open>C6: Every run, whatever fails in it, writes its events in the order that the pipeline promises, from the start to
  exactly one terminal event at the end, and makes at most three rounds and eighteen calls of tools.\<close>

theorem investigation_protocol:
  "emitted_types (run_one env w alert) \<noteq> [] \<and> hd (emitted_types (run_one env w alert)) = ''investigation_started''
   \<and> successively may_follow (emitted_types (run_one env w alert))
   \<and> terminal_type (last (emitted_types (run_one env w alert)))
   \<and> list_all (\<lambda>t. \<not> terminal_type t) (butlast (emitted_types (run_one env w alert)))
   \<and> count_list (emitted_types (run_one env w alert)) ''reasoner_step'' \<le> 3
   \<and> count_list (emitted_types (run_one env w alert)) ''tool_called'' \<le> 18"
  by (rule run_one_protocol)

end
