(* ===== verification/Investigation_Safety.thy ===== *)
theory Investigation_Safety
  imports Investigation_Facts
begin

text \<open>
  Guarantees of a run beyond the order of its events: a verdict for every hypothesis, no text of an exception in the
  ledger, the events that reach a subscriber, and which tools a run can call.
\<close>

subsection \<open>Verdicts\<close>

lemma untested_not_decided [simp]: "\<not> decided (untested i)"
  by (simp add: decided_def untested_def)

text \<open>After every round each hypothesis with an id has a verdict, whatever the model returned, and a decision can only
  come from the model.\<close>

theorem evaluate_covers_board:
  assumes "h \<in> set hs" "hy_id h \<noteq> []"
  shows "(\<exists>v \<in> set (evaluate_hypotheses w rnd hs). vd_id v = hy_id h)
     \<and> (\<forall>v \<in> set (evaluate_hypotheses w rnd hs). decided v \<longrightarrow> (\<exists>vs. iw_verdicts w rnd = Inr vs \<and> v \<in> set vs))"
proof (cases "iw_verdicts w rnd")
  case (Inl e)
  let ?f = "\<lambda>(i, h). untested (if hy_id h = [] then ''h'' @ str_nat (i + 1) else hy_id h)"
  have ev: "evaluate_hypotheses w rnd hs = map ?f (List.enumerate 0 hs)"
    using assms(1) Inl by (auto simp: evaluate_hypotheses_def)
  obtain k where "k < length hs" "hs ! k = h" using assms(1) by (auto simp: in_set_conv_nth)
  then have "(k, h) \<in> set (List.enumerate 0 hs)" by (auto simp: in_set_enumerate_eq)
  then have "?f (k, h) \<in> set (evaluate_hypotheses w rnd hs)" unfolding ev set_map by (rule imageI)
  moreover have "vd_id (?f (k, h)) = hy_id h" using assms(2) by (simp add: untested_def)
  moreover have "\<forall>v \<in> set (evaluate_hypotheses w rnd hs). \<not> decided v" unfolding ev by auto
  ultimately show ?thesis by blast
next
  case (Inr vs)
  have ev: "evaluate_hypotheses w rnd hs = vs @ map untested (filter (\<lambda>i. i \<noteq> [] \<and> i \<notin> vd_id ` set vs) (map hy_id hs))"
    using assms(1) Inr by (auto simp: evaluate_hypotheses_def)
  have "\<exists>v \<in> set (evaluate_hypotheses w rnd hs). vd_id v = hy_id h"
  proof (cases "hy_id h \<in> vd_id ` set vs")
    case False
    then have "untested (hy_id h) \<in> set (evaluate_hypotheses w rnd hs)" using assms by (auto simp: ev)
    then show ?thesis by (rule bexI [rotated]) (simp add: untested_def)
  qed (auto simp: ev)
  then show ?thesis using Inr by (auto simp: ev)
qed

text \<open>A world in which every call outside fails.\<close>

definition dead_world :: inv_world where
  "dead_world = \<lparr>iw_runbooks = Searched (Inl IndexError), iw_history = Searched (Inl IndexError),
     iw_hydrate = (\<lambda>k r. Inl IndexError), iw_probe = (\<lambda>k r. Inl IndexError), iw_insight = Inl IndexError,
     iw_hypotheses = Inl IndexError, iw_elapsed = (\<lambda>r. 0), iw_reason = (\<lambda>r. Some (Inl IndexError)),
     iw_tool = (\<lambda>r p t a. Inl IndexError), iw_verdicts = (\<lambda>r. Inl IndexError), iw_answer = Inl IndexError, iw_mark = Inr (),
     iw_mark_failed = Inr ()\<rparr>"

theorem evaluate_covers_board_witness:
  "\<exists>v \<in> set (evaluate_hypotheses (dead_world\<lparr>iw_verdicts := \<lambda>r. Inr [untested ''h9'']\<rparr>) 0 (fallback_hypotheses None)). vd_id v = ''h1''"
proof -
  let ?h = "hd (fallback_hypotheses None)"
  have "?h \<in> set (fallback_hypotheses None)" "hy_id ?h \<noteq> []" "hy_id ?h = ''h1''"
    by (simp_all add: fallback_hypotheses_def Let_def)
  then show ?thesis
    using evaluate_covers_board [of ?h "fallback_hypotheses None" "dead_world\<lparr>iw_verdicts := \<lambda>r. Inr [untested ''h9'']\<rparr>" 0]
    by simp
qed

text \<open>The list may be longer than the board: a verdict for an unknown id, or two for one id, stay in it.\<close>

lemma verdicts_outnumber_board:
  "map vd_id (evaluate_hypotheses (dead_world\<lparr>iw_verdicts := \<lambda>r. Inr [untested ''h1'', untested ''h1'', untested ''h9'']\<rparr>) 0
     (take 1 (fallback_hypotheses None))) = [''h1'', ''h1'', ''h9'']"
  by (simp add: evaluate_hypotheses_def fallback_hypotheses_def Let_def untested_def)

subsection \<open>Errors\<close>

text \<open>The same world with other exceptions in its failures.\<close>

definition veil :: "(py_error \<Rightarrow> py_error) \<Rightarrow> 'a result \<Rightarrow> 'a result" where
  "veil f = map_sum f id"

definition veil_source :: "(py_error \<Rightarrow> py_error) \<Rightarrow> 'a lane_source \<Rightarrow> 'a lane_source" where
  "veil_source f s = (case s of Unavailable r \<Rightarrow> Unavailable r | Searched x \<Rightarrow> Searched (veil f x))"

definition veil_world :: "(py_error \<Rightarrow> py_error) \<Rightarrow> inv_world \<Rightarrow> inv_world" where
  "veil_world f w = \<lparr>iw_runbooks = veil_source f (iw_runbooks w), iw_history = veil_source f (iw_history w),
     iw_hydrate = (\<lambda>k r. veil f (iw_hydrate w k r)), iw_probe = (\<lambda>k r. veil f (iw_probe w k r)), iw_insight = veil f (iw_insight w),
     iw_hypotheses = veil f (iw_hypotheses w), iw_elapsed = iw_elapsed w, iw_reason = (\<lambda>r. map_option (veil f) (iw_reason w r)),
     iw_tool = (\<lambda>r p t a. veil f (iw_tool w r p t a)), iw_verdicts = (\<lambda>r. veil f (iw_verdicts w r)), iw_answer = veil f (iw_answer w),
     iw_mark = veil f (iw_mark w), iw_mark_failed = veil f (iw_mark_failed w)\<rparr>"

lemma veil_simps [simp]: "veil f (Inl e) = Inl (f e)" "veil f (Inr v) = Inr v"
  by (simp_all add: veil_def)

lemma case_veil: "(case veil f x of Inl e \<Rightarrow> a | Inr v \<Rightarrow> g v) = (case x of Inl e \<Rightarrow> a | Inr v \<Rightarrow> g v)"
  by (cases x) simp_all

lemma veil_fields [simp]:
  "iw_elapsed (veil_world f w) = iw_elapsed w" "iw_mark (veil_world f w) = veil f (iw_mark w)"
  "is_ok (iw_mark_failed (veil_world f w)) = is_ok (iw_mark_failed w)"
  by (simp_all add: veil_world_def, cases "iw_mark_failed w", simp_all)

lemma veil_lanes [simp]:
  "lane_a env (veil_world f w) alert = lane_a env w alert"
  "lane_b env (veil_world f w) = lane_b env w"
  "lane_c env (veil_world f w) alert = lane_c env w alert"
  by (simp_all add: lane_a_def lane_b_def lane_c_def veil_world_def veil_source_def case_veil split: lane_source.split sum.split option.split)

lemma veil_models [simp]:
  "hydrate_alert_text env (veil_world f w) alert = hydrate_alert_text env w alert"
  "synthesize_insight (veil_world f w) a b c = synthesize_insight w a b c"
  "generate_hypotheses (veil_world f w) target = generate_hypotheses w target"
  "evaluate_hypotheses (veil_world f w) rnd hs = evaluate_hypotheses w rnd hs"
  "generate_answer (veil_world f w) = generate_answer w"
  by (simp_all add: hydrate_alert_text_def synthesize_insight_def generate_hypotheses_def evaluate_hypotheses_def
      generate_answer_def veil_world_def case_veil split: option.split)

lemma veil_tool:
  "(\<exists>v. run_tool env w rnd pos name args = Inr v \<and> run_tool env (veil_world f w) rnd pos name args = Inr v)
   \<or> (\<exists>e e'. run_tool env w rnd pos name args = Inl e \<and> run_tool env (veil_world f w) rnd pos name args = Inl e')"
  by (cases "iw_tool w rnd pos name args") (simp_all add: run_tool_def veil_world_def)

lemma veil_calls:
  "fst (call_tools env (veil_world f w) rnd pos corpus cs n) = fst (call_tools env w rnd pos corpus cs n)
   \<and> length (fst (snd (call_tools env (veil_world f w) rnd pos corpus cs n))) = length (fst (snd (call_tools env w rnd pos corpus cs n)))
   \<and> snd (snd (call_tools env (veil_world f w) rnd pos corpus cs n)) = snd (snd (call_tools env w rnd pos corpus cs n))"
proof (induction cs arbitrary: pos corpus n)
  case (Cons c cs)
  obtain name args0 where c: "c = (name, args0)" by fastforce
  show ?case
    using veil_tool [of env w rnd pos name "dispatched_args args0 corpus" f] Cons.IH
    by (auto simp: c call_tools.simps(2) Let_def case_prod_beta)
qed simp

lemma veil_round:
  "fst (reasoner_tool_round env (veil_world f w) rnd corpus hs n) = fst (reasoner_tool_round env w rnd corpus hs n)
   \<and> length (fst (snd (reasoner_tool_round env (veil_world f w) rnd corpus hs n))) = length (fst (snd (reasoner_tool_round env w rnd corpus hs n)))
   \<and> snd (snd (reasoner_tool_round env (veil_world f w) rnd corpus hs n)) = snd (snd (reasoner_tool_round env w rnd corpus hs n))"
proof -
  have r: "iw_reason (veil_world f w) rnd = map_option (veil f) (iw_reason w rnd)" by (simp add: veil_world_def)
  show ?thesis
    by (auto simp: reasoner_tool_round_def r veil_calls Let_def case_prod_beta split: option.split sum.split prod.split)
qed

lemma veil_rounds:
  "fst (reason_rounds env (veil_world f w) corpus hs left rnd n items) = fst (reason_rounds env w corpus hs left rnd n items')"
proof (induction left arbitrary: rnd n items items')
  case (Suc left)
  obtain es new m where r: "reasoner_tool_round env w rnd corpus hs n = (es, new, m)" by (metis prod_cases3)
  define new' where "new' = fst (snd (reasoner_tool_round env (veil_world f w) rnd corpus hs n))"
  have r': "reasoner_tool_round env (veil_world f w) rnd corpus hs n = (es, new', m)" "length new' = length new"
    using veil_round [of env f w rnd corpus hs n] unfolding r by (simp_all add: new'_def prod_eq_iff)
  have e: "new' = [] \<longleftrightarrow> new = []" using r'(2) by (metis length_0_conv)
  show ?case
    using Suc.IH by (simp add: r r'(1) e Let_def case_prod_beta)
qed simp

text \<open>C25: No text of an exception gets into the ledger: whatever the exceptions of the stores, models and tools say, the run
  writes the same events.\<close>

theorem error_text_never_written: "run_one env (veil_world f w) alert = run_one env w alert"
proof -
  have m: "(case veil f (iw_mark w) of Inl e \<Rightarrow> x | Inr u \<Rightarrow> y) = (case iw_mark w of Inl e \<Rightarrow> x | Inr u \<Rightarrow> y)" for x y :: "effect list \<times> bool"
    by (cases "iw_mark w") simp_all
  have rfi: "run_from_insight env (veil_world f w) al a b c en t ns = run_from_insight env w al a b c en t ns" for al a b c en t ns
    unfolding run_from_insight_def Let_def case_prod_beta veil_models veil_fields m veil_rounds [where items' = "[]"] by (rule refl)
  show ?thesis unfolding run_one_def run_pipeline_def veil_lanes veil_models veil_fields rfi by (rule refl)
qed

definition two_tool_env :: inv_env where
  "two_tool_env = \<lparr>ie_tools = [''k8s_list_pods'', ''slack_search_messages''], ie_gitlab = False, ie_clusters = (\<lambda>e. None),
     ie_dumps = (\<lambda>v. []), ie_other = (\<lambda>v. []), ie_repr = id, ie_score = (\<lambda>x. [])\<rparr>"

subsection \<open>What reaches a subscriber\<close>

lemma apply_effects_steps: "(watch_step i)\<^sup>*\<^sup>* (lg, c) (apply_effects j ok now n es lg, c)"
proof (induction j ok now n es lg rule: apply_effects.induct)
  case (2 j ok now n ty p es lg)
  have "(watch_step i)\<^sup>*\<^sup>* (lg, c) (snd (emit_event (ok n) j ty p [] lg), c)"
    using watch_step.Write [of i lg c j ty p "[]"] by (auto simp: emit_event_def case_prod_beta)
  then show ?case using 2 by (simp add: rtranclp_trans)
next
  case (3 j ok now n s r d es lg)
  have "(watch_step i)\<^sup>*\<^sup>* (lg, c) (mark_status j s r d now lg, c)" using watch_step.Mark by blast
  then show ?case using 3 by (simp add: rtranclp_trans)
qed simp

lemma events_of_effects:
  assumes "ledger_ok lg" "since < lg_next lg"
  shows "map ev_type (events_after (apply_effects i (\<lambda>k. True) now n es lg) i since)
     = map ev_type (events_after lg i since) @ emitted_types es"
  using assms
proof (induction es arbitrary: n lg rule: emitted_types.induct)
  case (2 ty p es)
  have "ledger_ok (snd (append_event i ty p [] lg))" "since < lg_next (snd (append_event i ty p [] lg))"
    using 2(2,3) by (simp_all add: ledger_ok_append, simp add: append_event_def)
  from 2(1) [OF this] show ?case using 2(2,3) by (simp add: emit_event_def case_prod_beta events_after_append)
next
  case (3 s r d es)
  have "lg_next (mark_status i s r d now lg) = lg_next lg" by (simp add: mark_status_def)
  then show ?case using 3 by (simp add: ledger_ok_mark)
qed simp

lemma get_mark:
  "get_investigation (mark_status i s r d now lg) i = map_option (\<lambda>x. x\<lparr>iv_status := s, iv_root_cause := coalesce r (iv_root_cause x),
     iv_outcome := coalesce d (iv_outcome x), iv_completed := (if terminal_status s then Some now else iv_completed x)\<rparr>) (get_investigation lg i)"
  by (simp add: mark_status_def get_investigation_def find_mapped)

lemma get_emit [simp]: "get_investigation (snd (emit_event ok j ty p tags lg)) i = get_investigation lg i"
  by (simp add: emit_event_def append_event_def get_investigation_def)

lemma status_of_effects:
  "map_option iv_status (get_investigation (apply_effects i ok now n es lg) i)
     = (case last_mark es of None \<Rightarrow> map_option iv_status (get_investigation lg i)
        | Some s \<Rightarrow> map_option (\<lambda>_. s) (get_investigation lg i))"
proof (induction es arbitrary: n lg rule: last_mark.induct)
  case (2 ty p es)
  then show ?case by (cases "last_mark es") simp_all
next
  case (3 s r d es)
  show ?case
    by (cases "get_investigation lg i"; cases "last_mark es") (simp_all add: 3 get_mark)
qed simp_all

text \<open>The status of the row after a run that ended in the event \<open>ended\<close>.\<close>

definition final_status :: "inv_world \<Rightarrow> string \<Rightarrow> string \<Rightarrow> string" where
  "final_status w initial ended =
     (if ended = ''investigation_completed'' then ''completed'' else if is_ok (iw_mark_failed w) then ''failed'' else initial)"

lemma run_one_marks:
  "(case last_mark (run_one env w alert) of None \<Rightarrow> initial | Some s \<Rightarrow> s) = final_status w initial (last (emitted_types (run_one env w alert)))"
proof -
  obtain start rest where sr: "run_one env w alert = start @ rest" "last_mark start = None" "run_ends env w rest"
    by (rule run_one_shape)
  from sr(3) show ?thesis
    by cases (simp_all add: sr(1,2) last_mark_append final_status_def rounds_no_mark)
qed

text \<open>C18: If every append succeeds, a subscriber, however it was cut off while the run wrote, can still finish, and then it has
  seen all events of the run in order. The row says completed if the last event does; else it says failed, unless that
  status could not be written: then it stays as it was.\<close>

theorem run_reaches_subscriber:
  assumes "ledger_ok lg" "events_after lg i 0 = []" "create_investigation i alert now lg = Inr lg1"
    and "lg2 = apply_effects i (\<lambda>k. True) now 0 (run_one env w (py_strip alert)) lg1"
    and "(watch_step i)\<^sup>*\<^sup>* (lg1, new_subscriber 0) (lg2, c)"
  shows "(\<exists>r1 r. get_investigation lg1 i = Some r1 \<and> get_investigation lg2 i = Some r
       \<and> iv_status r = final_status w (iv_status r1) (last (emitted_types (run_one env w (py_strip alert)))))
     \<and> (\<exists>c'. (watch_step i)\<^sup>*\<^sup>* (lg2, c) (lg2, c') \<and> sb_done c'
           \<and> map ev_type (sb_seen c') = emitted_types (run_one env w (py_strip alert)))"
proof -
  let ?es = "run_one env w (py_strip alert)"
  have lg1: "lg1 = create_row i (py_strip alert) (extract_target (py_strip alert)) now lg"
    using assms(3) by (simp add: create_investigation_def Let_def split: if_splits)
  have ok: "ledger_ok lg1" "0 < lg_next lg1" "events_after lg1 i 0 = []"
    using assms(1,2) by (simp_all add: lg1 create_row_def ledger_ok_def events_after_def)
  have types: "map ev_type (events_after lg2 i 0) = emitted_types ?es"
    using events_of_effects [OF ok(1,2)] ok(3) by (simp add: assms(4))
  have "get_investigation lg1 i \<noteq> None" by (auto simp: lg1 create_row_def get_investigation_def find_None_iff intro!: exI)
  then obtain r1 where r1: "get_investigation lg1 i = Some r1" by blast
  have "map_option iv_status (get_investigation lg2 i) = Some (final_status w (iv_status r1) (last (emitted_types ?es)))"
    using status_of_effects [of i "\<lambda>k. True" now 0 ?es lg1] run_one_marks [where env = env and w = w and alert = "py_strip alert" and initial = "iv_status r1", symmetric]
    by (auto simp: assms(4) r1 split: option.splits)
  then have row: "\<exists>r. get_investigation lg2 i = Some r \<and> iv_status r = final_status w (iv_status r1) (last (emitted_types ?es))" by auto
  note protocol = run_one_protocol [of env w "py_strip alert"]
  have "events_after lg2 i 0 \<noteq> []" using types protocol by auto
  then have last: "terminal_type (ev_type (last (events_after lg2 i 0)))"
    using protocol by (simp add: types [symmetric] last_map)
  have inner: "\<forall>e \<in> set (butlast (events_after lg2 i 0)). \<not> terminal_type (ev_type e)"
    using protocol by (simp add: types [symmetric] map_butlast [symmetric] list_all_iff)
  have w: "watching i 0 (lg2, c)" by (rule watching_run [OF assms(5) watching_start [OF ok(1,2)]])
  obtain c' where c': "(watch_step i)\<^sup>*\<^sup>* (lg2, c) (lg2, c')" "sb_done c'"
    using watch_finishes [OF w _ last] \<open>events_after lg2 i 0 \<noteq> []\<close> by auto
  have w': "watching i 0 (lg2, c')" by (rule watching_run [OF c'(1) w])
  have ev: "events_after lg2 i 0 = sb_seen c' @ events_after lg2 i (sb_seq c')"
    "\<exists>e \<in> set (sb_seen c'). terminal_type (ev_type e)" using w' c'(2) by (auto simp: watching_def)
  have "events_after lg2 i (sb_seq c') = []"
  proof (rule ccontr)
    assume "events_after lg2 i (sb_seq c') \<noteq> []"
    then have "set (sb_seen c') \<subseteq> set (butlast (events_after lg2 i 0))"
      by (subst ev(1)) (simp add: butlast_append)
    then show False using ev(2) inner by blast
  qed
  then have "map ev_type (sb_seen c') = emitted_types ?es" using ev(1) types by simp
  then show ?thesis using row r1 c' by blast
qed

text \<open>For every run on an empty ledger, with a subscriber that has not read anything yet.\<close>

theorem run_reaches_subscriber_witness:
  "\<exists>lg1 lg2 c'. create_investigation ''i'' '' alert '' 0 new_ledger = Inr lg1
     \<and> lg2 = apply_effects ''i'' (\<lambda>k. True) 0 0 (run_one two_tool_env dead_world (py_strip '' alert '')) lg1
     \<and> (\<exists>r. get_investigation lg2 ''i'' = Some r \<and> terminal_status (iv_status r))
     \<and> (watch_step ''i'')\<^sup>*\<^sup>* (lg2, new_subscriber 0) (lg2, c') \<and> sb_done c'"
proof -
  have "py_strip '' alert '' \<noteq> []" by code_simp
  then obtain lg1 where lg1: "create_investigation ''i'' '' alert '' 0 new_ledger = Inr lg1"
    by (simp add: create_investigation_def Let_def)
  have "events_after new_ledger ''i'' 0 = []" by (simp add: events_after_def new_ledger_def)
  note run = run_reaches_subscriber [OF ledger_ok_new this lg1 refl apply_effects_steps, of two_tool_env dead_world]
  have "terminal_status (final_status dead_world s l)" for s l
    by (simp add: final_status_def dead_world_def terminal_status_def)
  then show ?thesis using run lg1 by metis
qed

text \<open>A lost append of the terminal event leaves the subscriber without it: \<open>emit_event\<close> only logs the failure.\<close>

lemma lost_terminal_event:
  assumes "watching i since (lg, c)" "\<forall>e \<in> set (events_after lg i since). \<not> terminal_type (ev_type e)"
  shows "\<not> sb_done c"
  using assms by (auto simp: watching_def)

end
