(* ===== verification/Evidence.thy ===== *)
theory Evidence
  imports Investigation_Safety
begin

text \<open>
  What the models are shown of a run: the history of calls as dicts, the evidence pool of \<open>evaluator.py\<close>, the blocks with
  the earlier calls and verdicts, the choice of the directive and the board of the conclusion (\<open>runner.py\<close>), and the map
  from environments to clusters. The texts of the directives are left out; \<open>str\<close> of an exception is a parameter.
\<close>

subsection \<open>The history of calls\<close>

definition item_obj :: "(py_error \<Rightarrow> string) \<Rightarrow> tool_item \<Rightarrow> obj" where
  "item_obj err it =
     [(''name'', JStr (ti_name it)), (''args'', JObj (ti_args it))]
     @ (case ti_outcome it of
          Inr v \<Rightarrow> [(''result'', v)]
        | Inl e \<Rightarrow> [(''error'', JStr (err e)), (''result'', JStr [])])"

definition dumped :: "inv_env \<Rightarrow> json \<Rightarrow> string" where
  "dumped env v = json_str (ie_other env) (case v of JObj d \<Rightarrow> JStr (ie_dumps env v) | _ \<Rightarrow> v)"

definition cut_at :: "nat \<Rightarrow> string \<Rightarrow> string \<Rightarrow> string" where
  "cut_at n mark s = (if n < length s then take n s @ mark else s)"

definition evidence_item :: "inv_env \<Rightarrow> nat \<Rightarrow> obj \<Rightarrow> string" where
  "evidence_item env i d =
     (let name = json_str (ie_other env) (py_or (dget JNull ''name'' d) (JStr ''?''));
          args = py_or (dget JNull ''args'' d) (JObj []);
          result = py_or (py_or (dget JNull ''result'' d) (dget JNull ''response'' d)) (JStr []);
          args_str = cut_at 200 '' ...'' (if truthy args then ie_dumps env args else [])
      in ''#'' @ str_nat i @ '' ['' @ name @ ''] args='' @ args_str @ [newline_char] @ ''    result: ''
         @ cut_at 800 '' ...[truncated]'' (dumped env result))"

definition format_evidence_pool :: "inv_env \<Rightarrow> obj list \<Rightarrow> string" where
  "format_evidence_pool env history =
     join [newline_char, newline_char] (map (\<lambda>(i, d). evidence_item env i d) (List.enumerate 1 history))"

subsection \<open>The prompt of a round\<close>

definition prior_item :: "inv_env \<Rightarrow> nat \<Rightarrow> obj \<Rightarrow> string" where
  "prior_item env i d =
     (let name = json_str (ie_other env) (py_or (dget JNull ''name'' d) (JStr ''?''));
          args = take 160 (ie_dumps env (py_or (dget JNull ''args'' d) (JObj [])));
          result = (case map_of d ''result'' of Some v \<Rightarrow> v | None \<Rightarrow> dget (JStr []) ''error'' d)
      in ''#'' @ str_nat i @ '' ['' @ name @ ''] args='' @ args @ [newline_char] @ ''   result: '' @ take 300 (dumped env result))"

definition prior_block :: "inv_env \<Rightarrow> obj list \<Rightarrow> string" where
  "prior_block env history =
     (if history = [] then []
      else join [newline_char] (''=== PRIOR TOOL CALLS THIS INVESTIGATION ==='' # map (\<lambda>(i, d). prior_item env i d) (List.enumerate 1 history))
        @ [newline_char, newline_char])"

definition verdict_block :: "verdict list \<Rightarrow> string" where
  "verdict_block vs =
     (if vs = [] then []
      else join [newline_char] (''=== CURRENT VERDICTS (from evaluator) ===''
          # map (\<lambda>v. ''  '' @ vd_id v @ '': '' @ vd_status v @ '' -- ''
              @ (if vd_evidence v = [] then ''(no evidence yet)'' else take 200 (vd_evidence v))) vs)
        @ [newline_char, newline_char])"

definition quoted :: "string \<Rightarrow> string" where
  "quoted s = [quote_char] @ s @ [quote_char]"

definition empty_shapes :: "string list" where
  "empty_shapes = [quoted ''count'' @ '': 0'', quoted ''result'' @ '': []'', quoted ''pods'' @ '': []'',
     quoted ''items'' @ '': []'', quoted ''events'' @ '': []'']"

definition looks_empty :: "inv_env \<Rightarrow> obj \<Rightarrow> bool" where
  "looks_empty env d =
     (let s = (case py_or (dget JNull ''result'' d) (JStr []) of JStr t \<Rightarrow> t | v \<Rightarrow> ie_dumps env v)
      in list_ex (\<lambda>p. py_in p s) empty_shapes)"

definition empties :: "inv_env \<Rightarrow> obj list \<Rightarrow> nat" where
  "empties env history = length (takeWhile (looks_empty env) (rev history))"

datatype directive = First_Probe | Broaden nat nat | Pivot nat

definition directive_of :: "inv_env \<Rightarrow> nat \<Rightarrow> obj list \<Rightarrow> directive" where
  "directive_of env rnd history =
     (if rnd = 0 then First_Probe else if 2 \<le> empties env history then Broaden rnd (empties env history) else Pivot rnd)"

subsection \<open>The board of the conclusion\<close>

definition verdict_map :: "verdict list \<Rightarrow> string \<Rightarrow> verdict option" where
  "verdict_map vs = map_of (rev (map (\<lambda>v. (vd_id v, v)) vs))"

text \<open>\<open>upper\<close> on the four literals that a status can be.\<close>

definition status_upper :: "string \<Rightarrow> string" where
  "status_upper = map (\<lambda>c. if is_lower c then char_of (of_char c - 32 :: nat) else c)"

definition board_line :: "verdict list \<Rightarrow> hypothesis \<Rightarrow> string" where
  "board_line vs h =
     (let v = verdict_map vs (hy_id h);
          status = (case v of Some v \<Rightarrow> vd_status v | None \<Rightarrow> ''open'');
          evidence = (case v of Some v \<Rightarrow> vd_evidence v | None \<Rightarrow> [])
      in ''  '' @ hy_id h @ '': '' @ hy_text h @ '' ['' @ status_upper status @ ''] -- '' @ evidence)"

definition answer_board :: "verdict list \<Rightarrow> hypothesis list \<Rightarrow> string" where
  "answer_board vs hs = join [newline_char] (map (board_line vs) hs)"

definition answer_evidence :: "inv_env \<Rightarrow> obj list \<Rightarrow> string" where
  "answer_evidence env history =
     (let s = format_evidence_pool env history in take 6000 (if s = [] then ''(no tool calls)'' else s))"

subsection \<open>Environments\<close>

definition cluster_entry :: "(json \<Rightarrow> string) \<Rightarrow> json \<Rightarrow> (string \<times> string) option" where
  "cluster_entry other v =
     (let part = (\<lambda>x. if truthy x then json_str other x else []) in
      case v of
        JList (x # xs) \<Rightarrow>
          (let cluster = part x; project = (case xs of [] \<Rightarrow> [] | y # ys \<Rightarrow> part y)
           in if cluster \<noteq> [] \<or> project \<noteq> [] then Some (cluster, project) else None)
      | JStr s \<Rightarrow> if s = [] then None else Some (s, [])
      | _ \<Rightarrow> None)"

definition load_env_cluster_map ::
  "(string \<Rightarrow> json result) \<Rightarrow> (json \<Rightarrow> string) \<Rightarrow> string option \<Rightarrow> (string, string \<times> string) dict" where
  "load_env_cluster_map parse other var =
     (let raw = py_strip (case var of None \<Rightarrow> [] | Some s \<Rightarrow> s) in
      if raw = [] then []
      else case parse raw of
        Inr (JObj d) \<Rightarrow> fold (\<lambda>(k, v) m. case cluster_entry other v of None \<Rightarrow> m | Some c \<Rightarrow> AList.update (py_lower k) c m) d []
      | _ \<Rightarrow> [])"

subsection \<open>Facts\<close>

text \<open>The same history with an empty text as the result of every call that failed.\<close>

definition silence :: "tool_item \<Rightarrow> tool_item" where
  "silence it = it\<lparr>ti_outcome := (case ti_outcome it of Inl e \<Rightarrow> Inr (JStr []) | Inr v \<Rightarrow> Inr v)\<rparr>"

lemma silent_fields:
  "dget JNull ''name'' (item_obj err (silence it)) = dget JNull ''name'' (item_obj err it)"
  "dget JNull ''args'' (item_obj err (silence it)) = dget JNull ''args'' (item_obj err it)"
  "dget JNull ''result'' (item_obj err (silence it)) = dget JNull ''result'' (item_obj err it)"
  "dget JNull ''response'' (item_obj err (silence it)) = dget JNull ''response'' (item_obj err it)"
  "map_of (item_obj err (silence it)) ''result'' = map_of (item_obj err it) ''result''"
  "map_of (item_obj err it) ''result'' \<noteq> None"
  by (auto simp: item_obj_def silence_def dget_def split: sum.split)

lemma silent_item:
  "evidence_item env i (item_obj err (silence it)) = evidence_item env i (item_obj err it)"
  "prior_item env i (item_obj err (silence it)) = prior_item env i (item_obj err it)"
  "looks_empty env (item_obj err (silence it)) = looks_empty env (item_obj err it)"
  unfolding evidence_item_def prior_item_def looks_empty_def silent_fields(1-5)
  using silent_fields(6) [of err it] by (auto split: option.split)

lemma enumerate_map: "List.enumerate n (map f xs) = map (\<lambda>(i, x). (i, f x)) (List.enumerate n xs)"
  by (induction xs arbitrary: n) auto

lemma silent_blocks:
  "map (\<lambda>(i, d). evidence_item env i d) (List.enumerate 1 (map (item_obj err \<circ> silence) items))
     = map (\<lambda>(i, d). evidence_item env i d) (List.enumerate 1 (map (item_obj err) items))"
  "map (\<lambda>(i, d). prior_item env i d) (List.enumerate 1 (map (item_obj err \<circ> silence) items))
     = map (\<lambda>(i, d). prior_item env i d) (List.enumerate 1 (map (item_obj err) items))"
  by (auto simp: enumerate_map silent_item)

lemma takeWhile_map_cong: "(\<And>x. P (f x) = P (g x)) \<Longrightarrow> length (takeWhile P (map f xs)) = length (takeWhile P (map g xs))"
  by (induction xs) auto

text \<open>Whatever error a call ends with, the evaluator, the next round and the conclusion see what they would see of a call
  that succeeded with an empty text.\<close>

theorem failed_tool_looks_empty:
  "format_evidence_pool env (map (item_obj err \<circ> silence) items) = format_evidence_pool env (map (item_obj err) items)
   \<and> prior_block env (map (item_obj err \<circ> silence) items) = prior_block env (map (item_obj err) items)
   \<and> directive_of env rnd (map (item_obj err \<circ> silence) items) = directive_of env rnd (map (item_obj err) items)
   \<and> answer_evidence env (map (item_obj err \<circ> silence) items) = answer_evidence env (map (item_obj err) items)"
proof -
  have "empties env (map (item_obj err \<circ> silence) items) = empties env (map (item_obj err) items)"
    unfolding empties_def rev_map by (rule takeWhile_map_cong) (simp add: silent_item)
  moreover have pool: "format_evidence_pool env (map (item_obj err \<circ> silence) items) = format_evidence_pool env (map (item_obj err) items)"
    unfolding format_evidence_pool_def silent_blocks by (rule refl)
  moreover have "prior_block env (map (item_obj err \<circ> silence) items) = prior_block env (map (item_obj err) items)"
    unfolding prior_block_def silent_blocks map_is_Nil_conv by (rule refl)
  ultimately show ?thesis unfolding answer_evidence_def directive_of_def by simp
qed

text \<open>Two empty calls of one round make the next directive the one for \<open>two rounds\<close>, and one failed call after them undoes it.\<close>

lemma broaden_after_one_round:
  fixes env err
  defines "e \<equiv> \<lparr>ti_name = ''k8s_list_pods'', ti_args = [], ti_outcome = Inr (JStr (quoted ''count'' @ '': 0''))\<rparr>"
    and "f \<equiv> \<lparr>ti_name = ''k8s_list_pods'', ti_args = [], ti_outcome = Inl IndexError\<rparr>"
  shows "directive_of env 1 (map (item_obj err) [e, e]) = Broaden 1 2"
    "directive_of env 1 (map (item_obj err) [e, e, f]) = Pivot 1"
proof -
  have e: "looks_empty env (item_obj err e)" unfolding e_def
    by (simp add: looks_empty_def item_obj_def dget_def py_or_def empty_shapes_def quoted_def py_in_iff)
  have f: "\<not> looks_empty env (item_obj err f)" unfolding f_def
    by (simp add: looks_empty_def item_obj_def dget_def py_or_def empty_shapes_def quoted_def py_in_iff)
  show "directive_of env 1 (map (item_obj err) [e, e]) = Broaden 1 2"
    "directive_of env 1 (map (item_obj err) [e, e, f]) = Pivot 1"
    using e f by (simp_all add: directive_of_def empties_def)
qed

text \<open>Every environment of the map has a cluster or a project.\<close>

lemma in_update: "x \<in> set (AList.update k v m) \<Longrightarrow> x = (k, v) \<or> x \<in> set m"
  by (induction m) (auto split: if_splits)

lemma entry_useful: "cluster_entry other v = Some cp \<Longrightarrow> fst cp \<noteq> [] \<or> snd cp \<noteq> []"
  by (auto simp: cluster_entry_def Let_def split: json.splits list.splits if_splits)

lemma entries_useful:
  "\<forall>x \<in> set m. fst (snd x) \<noteq> [] \<or> snd (snd x) \<noteq> [] \<Longrightarrow>
     x \<in> set (fold (\<lambda>(k, v) m. case cluster_entry other v of None \<Rightarrow> m | Some c \<Rightarrow> AList.update (py_lower k) c m) d m) \<Longrightarrow>
     fst (snd x) \<noteq> [] \<or> snd (snd x) \<noteq> []"
proof (induction d arbitrary: m)
  case (Cons kv d)
  obtain k v where kv: "kv = (k, v)" by fastforce
  show ?case
  proof (cases "cluster_entry other v")
    case None
    then show ?thesis using Cons by (simp add: kv)
  next
    case (Some cp)
    have "\<forall>x \<in> set (AList.update (py_lower k) cp m). fst (snd x) \<noteq> [] \<or> snd (snd x) \<noteq> []"
      using in_update entry_useful [OF Some] Cons.prems(1) by fastforce
    then show ?thesis using Cons.IH Cons.prems(2) Some by (simp add: kv)
  qed
qed simp

lemma cluster_map_useful: "(e, c, p) \<in> set (load_env_cluster_map parse other var) \<Longrightarrow> c \<noteq> [] \<or> p \<noteq> []"
  using entries_useful [of "[]" "(e, c, p)"]
  by (auto simp: load_env_cluster_map_def Let_def split: if_splits sum.splits json.splits)

end
