(* ===== verification/Dispatcher.thy ===== *)
theory Dispatcher
  imports Channel_Gate
begin

text \<open>
  The flow of a chat message (\<open>channels/dispatcher.py\<close>), the placeholder with its heartbeat (\<open>channels/streaming.py\<close>) and
  feedback (\<open>channels/feedback.py\<close>). What the platform and the agent do is a \<open>chat_world\<close>; the result of a message is
  what is sent to the platform, the turn of the agent, and the usage that is left. A reaction, a denial or a final edit
  that fails is only logged. The texts with emoji are constructors; log lines are left out.
\<close>

subsection \<open>Thread context\<close>

record thread_message =
  tm_author :: string
  tm_text :: string
  tm_self :: bool
  tm_source :: "string option"

definition nl :: char where "nl = CHR 0x0A"

definition thread_header :: string where "thread_header = ''PRIOR THREAD MESSAGES:''"

definition usable_line :: "string option \<Rightarrow> thread_message \<Rightarrow> bool" where
  "usable_line exclude m \<longleftrightarrow> \<not> tm_self m \<and> py_strip (tm_text m) \<noteq> [] \<and> \<not> (exclude \<noteq> None \<and> tm_source m = exclude)"

definition thread_line :: "thread_message \<Rightarrow> string" where
  "thread_line m = tm_author m @ '': '' @ py_strip (tm_text m)"

text \<open>The lines from the newest on; \<open>sel\<close> is what is selected so far.\<close>

fun select_lines :: "nat \<Rightarrow> nat \<Rightarrow> string list \<Rightarrow> string list \<Rightarrow> string list" where
  "select_lines max_chars running sel [] = sel"
| "select_lines max_chars running sel (line # ls) =
     (if max_chars < running + (length line + 1)
      then (if sel \<noteq> [] then sel
            else (let keep = max_chars - running - 1 in if keep = 0 then sel else sel @ [take keep line @ ''...'']))
      else select_lines max_chars (running + (length line + 1)) (sel @ [line]) ls)"

definition serialize_thread_context :: "thread_message list \<Rightarrow> nat \<Rightarrow> string option \<Rightarrow> string" where
  "serialize_thread_context msgs max_chars exclude =
     (let ls = map thread_line (filter (usable_line exclude) msgs);
          sel = select_lines max_chars (length thread_header + 1) [] (rev ls)
      in if sel = [] then [] else join [nl] (thread_header # rev sel))"

subsection \<open>The placeholder\<close>

text \<open>The rungs 1 to 3 of the ladder are edits; rung 0 is the placeholder itself.\<close>

datatype shown = Rung nat | Apology string | Answer obj

record streamer =
  sr_final :: bool
  sr_rung :: "nat option"

datatype stream_op = Start_Heartbeat | Tick | Finalize shown

definition new_streamer :: streamer where "new_streamer = \<lparr>sr_final = False, sr_rung = None\<rparr>"

definition stream_op_step :: "streamer \<Rightarrow> stream_op \<Rightarrow> streamer \<times> shown list" where
  "stream_op_step s act =
     (case act of
        Start_Heartbeat \<Rightarrow> if sr_final s \<or> sr_rung s \<noteq> None then (s, []) else (s\<lparr>sr_rung := Some 0\<rparr>, [])
      | Tick \<Rightarrow> (case sr_rung s of
            None \<Rightarrow> (s, [])
          | Some r \<Rightarrow> if sr_final s \<or> 3 \<le> r then (s, []) else (s\<lparr>sr_rung := Some (r + 1)\<rparr>, [Rung (r + 1)]))
      | Finalize x \<Rightarrow> if sr_final s then (s, []) else (\<lparr>sr_final = True, sr_rung = None\<rparr>, [x]))"

fun stream_ops :: "streamer \<Rightarrow> stream_op list \<Rightarrow> streamer \<times> shown list" where
  "stream_ops s [] = (s, [])"
| "stream_ops s (x # xs) =
     (case stream_op_step s x of (s1, es) \<Rightarrow> (case stream_ops s1 xs of (s2, es') \<Rightarrow> (s2, es @ es')))"

subsection \<open>A message\<close>

record image_ref =
  ir_file :: "string option"
  ir_url :: "string option"
  ir_mime :: string
  ir_size :: "int option"

record image_part =
  ip_data :: string
  ip_mime :: string
  ip_name :: string

record vision_config =
  vc_enabled :: bool
  vc_max_images :: int
  vc_max_bytes :: int
  vc_allowed_mime :: "string list"

record chat_user =
  cu_oid :: "string option"
  cu_email :: "string option"
  cu_name :: "string option"

datatype agent_event = Final_Event obj | Error_Event "string option" | Other_Event

record chat_world =
  cw_placeholder :: "unit result"
  cw_thread :: "thread_message list result"
  cw_image :: "image_ref \<Rightarrow> string option result"
  cw_identity :: "chat_user result"
  cw_events :: "agent_event list"
  cw_raises :: "string option"

record agent_turn =
  at_query :: string
  at_user :: string
  at_thread :: string
  at_email :: "string option"
  at_name :: "string option"
  at_images :: "image_part list"

datatype reaction = Ack | Done | Error_Mark | Thumbs_Up | Thumbs_Down

datatype sent =
    Denial string
  | Placeholder string "string option"
  | React string string reaction
  | Fetched_Image image_ref
  | Shown shown
  | Confirm

record dispatcher =
  ds_name :: string
  ds_vision :: vision_config

definition set_text :: "string option \<Rightarrow> string option" where
  "set_text v = (case v of Some s \<Rightarrow> if s = [] then None else Some s | None \<Rightarrow> None)"

definition session_anchor :: "inbound_message \<Rightarrow> string" where
  "session_anchor msg =
     (case set_text (thread_id msg) of Some t \<Rightarrow> t
      | None \<Rightarrow> if message_id msg \<noteq> [] then message_id msg else ''no-id'')"

definition session_thread_id :: "string \<Rightarrow> inbound_message \<Rightarrow> string" where
  "session_thread_id ch msg =
     (if is_dm msg then ch @ ''-dm:'' @ channel_id msg
      else ch @ ''-thread:'' @ channel_id msg @ '':'' @ session_anchor msg)"

definition react_on :: "inbound_message \<Rightarrow> reaction \<Rightarrow> sent list" where
  "react_on msg r = (if message_id msg \<noteq> [] \<and> \<not> is_dm msg then [React (channel_id msg) (message_id msg) r] else [])"

definition thread_context_of :: "chat_world \<Rightarrow> inbound_message \<Rightarrow> string" where
  "thread_context_of w msg =
     (case set_text (thread_id msg) of
        None \<Rightarrow> []
      | Some t \<Rightarrow> if is_dm msg \<or> t = message_id msg then []
          else (case cw_thread w of Inl e \<Rightarrow> [] | Inr prior \<Rightarrow> serialize_thread_context prior 2000 (Some (message_id msg))))"

definition image_refs :: "vision_config \<Rightarrow> image_ref list \<Rightarrow> image_ref list" where
  "image_refs v images =
     (let refs = filter (\<lambda>r. ir_mime r \<in> set (vc_allowed_mime v)) images
      in if vc_max_images v < int (length refs) then slice_to (vc_max_images v) refs else refs)"

definition fetch_part :: "chat_world \<Rightarrow> vision_config \<Rightarrow> image_ref \<Rightarrow> image_part list" where
  "fetch_part w v r =
     (case cw_image w r of
        Inr (Some raw) \<Rightarrow>
          if raw = [] \<or> vc_max_bytes v < int (length raw) then []
          else [\<lparr>ip_data = raw, ip_mime = ir_mime r,
                 ip_name = (case set_text (ir_file r) of None \<Rightarrow> ''image'' | Some f \<Rightarrow> f)\<rparr>]
      | _ \<Rightarrow> [])"

definition turn_images :: "chat_world \<Rightarrow> vision_config \<Rightarrow> image_ref list \<Rightarrow> sent list \<times> image_part list" where
  "turn_images w v images =
     (if images \<noteq> [] \<and> vc_enabled v
      then (map Fetched_Image (image_refs v images), concat (map (fetch_part w v) (image_refs v images)))
      else ([], []))"

definition combined_query :: "string \<Rightarrow> string \<Rightarrow> string" where
  "combined_query context query = (if context = [] then query else context @ [nl, nl] @ query)"

definition agent_turn_of :: "dispatcher \<Rightarrow> chat_world \<Rightarrow> inbound_message \<Rightarrow> image_ref list \<Rightarrow> sent list \<times> agent_turn" where
  "agent_turn_of d w msg images =
     (let query = py_strip (msg_text msg);
          context = thread_context_of w msg;
          (fetched, parts) = turn_images w (ds_vision d) images;
          query' = (if parts \<noteq> [] \<and> query = [] then ''Please analyze this image.'' else query);
          user = (case cw_identity w of Inl e \<Rightarrow> None | Inr u \<Rightarrow> Some u)
      in (fetched, \<lparr>at_query = combined_query context query',
            at_user = (case set_text (Option.bind user cu_oid) of None \<Rightarrow> ds_name d @ ''-bot-anon'' | Some i \<Rightarrow> i),
            at_thread = session_thread_id (ds_name d) msg,
            at_email = Option.bind user cu_email, at_name = Option.bind user cu_name, at_images = parts\<rparr>))"

text \<open>The last final event and the kind of the last error.\<close>

fun read_events :: "agent_event list \<Rightarrow> obj option \<Rightarrow> string option \<Rightarrow> obj option \<times> string option" where
  "read_events [] final err = (final, err)"
| "read_events (Final_Event d # es) final err = read_events es (Some d) err"
| "read_events (Error_Event m # es) final err = read_events es final (Some ''RuntimeError'')"
| "read_events (Other_Event # es) final err = read_events es final err"

definition run_outcome :: "chat_world \<Rightarrow> obj option \<times> string option" where
  "run_outcome w = (case read_events (cw_events w) None None of (final, err) \<Rightarrow>
     (final, (case cw_raises w of None \<Rightarrow> err | Some k \<Rightarrow> Some k)))"

definition agent_result :: "string \<Rightarrow> obj \<Rightarrow> obj" where
  "agent_result session d =
     [(''answer'', py_or (dget JNull ''answer'' d) (JStr [])),
      (''sources'', py_or (dget JNull ''sources'' d) (JList [])),
      (''diagram_present'', JBool (truthy (dget JNull ''diagram'' d) \<or> truthy (dget JNull ''diagram_present'' d)
         \<or> truthy (dget JNull ''has_diagram'' d))),
      (''session_id'', py_or (dget JNull ''thread_id'' d) (py_or (dget JNull ''session_id'' d) (JStr session))),
      (''investigation_id'', dget JNull ''investigation_id'' d)]"

text \<open>What is sent, the turn of the agent if there is one, and the gate afterwards. The message arrives at \<open>t0\<close>, the run ends
  at \<open>t1\<close> after \<open>ticks\<close> heartbeats.\<close>

definition on_message ::
  "dispatcher \<Rightarrow> chat_world \<Rightarrow> real \<Rightarrow> real \<Rightarrow> nat \<Rightarrow> inbound_message \<Rightarrow> image_ref list \<Rightarrow> channel_permission
    \<Rightarrow> sent list \<times> agent_turn option \<times> channel_permission" where
  "on_message d w t0 t1 ticks msg images p =
     (case perm_allow p msg t0 of
        (p1, False, reason) \<Rightarrow>
          ((case set_text reason of None \<Rightarrow> [] | Some r \<Rightarrow> if user_id msg = [] then [] else [Denial r]), None, p1)
      | (p1, True, reason) \<Rightarrow>
          if py_strip (msg_text msg) = [] \<and> images = [] then ([], None, p1)
          else (let anchor = (if is_dm msg then None
                     else Some (case set_text (thread_id msg) of Some t \<Rightarrow> t | None \<Rightarrow> message_id msg))
                in case cw_placeholder w of
                  Inl e \<Rightarrow> ([], None, p1)
                | Inr u \<Rightarrow>
                    (let (fetched, turn) = agent_turn_of d w msg images;
                         head = Placeholder (channel_id msg) anchor # react_on msg Ack @ fetched;
                         beats = (\<lambda>x. map Shown (snd (stream_ops new_streamer (Start_Heartbeat # replicate ticks Tick @ [Finalize x]))))
                     in case run_outcome w of
                          (Some final, None) \<Rightarrow>
                            (head @ beats (Answer (agent_result (at_thread turn) final)) @ react_on msg Done,
                             Some turn, record_usage p1 (user_id msg) t1)
                        | (final, err) \<Rightarrow>
                            (head @ beats (Apology (case err of None \<Rightarrow> ''EmptyResult'' | Some k \<Rightarrow> k)) @ react_on msg Error_Mark,
                             Some turn, p1))))"

subsection \<open>Feedback\<close>

record feedback_event =
  fe_thumbs :: string
  fe_investigation :: string
  fe_user :: string
  fe_thread :: "string option"
  fe_channel :: string
  fe_ts :: string
  fe_snippet :: string

record feedback_row =
  fr_investigation :: string
  fr_direction :: int
  fr_thread :: "string option"
  fr_user :: string
  fr_query :: "string option"
  fr_answer :: "string option"

text \<open>The cache answers with the question and the answer of the investigation it has, or raises. The row is what is handed to
  the feedback store.\<close>

definition record_feedback ::
  "string \<Rightarrow> (string \<Rightarrow> string \<Rightarrow> (string option \<times> string option) option result) option \<Rightarrow> feedback_event \<Rightarrow> feedback_row option" where
  "record_feedback ch cache fb =
     (let thumbs = py_strip (fe_thumbs fb); i = py_strip (fe_investigation fb) in
      if thumbs \<notin> {''up'', ''down''} \<or> i = [] then None
      else (let found = (case cache of None \<Rightarrow> None | Some f \<Rightarrow> (case f i thumbs of Inr r \<Rightarrow> r | Inl e \<Rightarrow> None));
                answer = set_text (Option.bind found snd)
            in Some \<lparr>fr_investigation = i, fr_direction = (if thumbs = ''up'' then 1 else -1), fr_thread = fe_thread fb,
                 fr_user = ch @ '':'' @ (if fe_user fb = [] then ''unknown'' else fe_user fb), fr_query = Option.bind found fst,
                 fr_answer = (case answer of Some a \<Rightarrow> Some a | None \<Rightarrow> set_text (Some (fe_snippet fb)))\<rparr>))"

definition on_feedback ::
  "string \<Rightarrow> (string \<Rightarrow> string \<Rightarrow> (string option \<times> string option) option result) option \<Rightarrow> feedback_event \<Rightarrow> feedback_row option \<times> sent list" where
  "on_feedback ch cache fb =
     (case record_feedback ch cache fb of
        None \<Rightarrow> (None, [])
      | Some row \<Rightarrow>
          (Some row,
           (if fe_channel fb \<noteq> [] \<and> fe_ts fb \<noteq> []
            then [React (fe_channel fb) (fe_ts fb) (if fe_thumbs fb = ''up'' then Thumbs_Up else Thumbs_Down)] else []) @ [Confirm]))"

subsection \<open>Facts\<close>

lemma select_lines_Cons: "sel \<noteq> [] \<Longrightarrow> \<exists>k. select_lines m r sel ls = sel @ take k ls
   \<and> r + sum_list (map (\<lambda>l. length l + 1) (take k ls)) \<le> max r m"
proof (induction ls arbitrary: r sel)
  case (Cons l ls)
  show ?case
  proof (cases "m < r + (length l + 1)")
    case True
    then show ?thesis using Cons.prems by (intro exI [of _ 0]) simp
  next
    case False
    have "sel @ [l] \<noteq> []" by simp
    from Cons.IH [OF this, of "r + (length l + 1)"] obtain k where
      "select_lines m (r + (length l + 1)) (sel @ [l]) ls = (sel @ [l]) @ take k ls"
      "r + (length l + 1) + sum_list (map (\<lambda>l. length l + 1) (take k ls)) \<le> max (r + (length l + 1)) m" by blast
    then show ?thesis using False by (intro exI [of _ "Suc k"]) simp
  qed
qed simp

lemma select_lines_cases:
  obtains (whole) k where "select_lines m r [] ls = take k ls" "r + sum_list (map (\<lambda>l. length l + 1) (take k ls)) \<le> max r m"
    | (cut) l rest where "ls = l # rest" "select_lines m r [] ls = [take (m - r - 1) l @ ''...'']" "r + 1 < m"
proof (cases ls)
  case Nil
  then show ?thesis by (intro whole [of 0]) simp_all
next
  case (Cons l rest)
  show ?thesis
  proof (cases "m < r + (length l + 1)")
    case True
    show ?thesis
    proof (cases "m - r - 1 = 0")
      case True
      then show ?thesis using Cons \<open>m < r + (length l + 1)\<close> by (intro whole [of 0]) simp_all
    next
      case False
      then show ?thesis using Cons \<open>m < r + (length l + 1)\<close> by (intro cut [of l rest]) simp_all
    qed
  next
    case False
    obtain k where "select_lines m (r + (length l + 1)) [l] rest = [l] @ take k rest"
      "r + (length l + 1) + sum_list (map (\<lambda>l. length l + 1) (take k rest)) \<le> max (r + (length l + 1)) m"
      using select_lines_Cons [of "[l]" m "r + (length l + 1)" rest] by auto
    then show ?thesis using Cons False by (intro whole [of "Suc k"]) simp_all
  qed
qed

lemma length_join_nl: "xs \<noteq> [] \<Longrightarrow> Suc (length (join [c] xs)) = sum_list (map (\<lambda>l. length l + 1) xs)"
proof (induction xs)
  case (Cons x xs)
  then show ?case by (cases xs) auto
qed simp

text \<open>The thread block shows the newest usable messages, or a cut of the newest one; it stays within the budget, but for a
  cut line, whose ellipsis the budget forgets: then it is two characters longer.\<close>

theorem thread_context_bounded:
  fixes msgs max_chars exclude
  defines "ls \<equiv> map thread_line (filter (usable_line exclude) msgs)"
    and "out \<equiv> serialize_thread_context msgs max_chars exclude"
  assumes "length thread_header + 1 \<le> max_chars"
  shows "length out \<le> max_chars + 2
     \<and> (out = [] \<or> (\<exists>shown. out = join [nl] (thread_header # shown)
          \<and> (suffix shown ls \<and> length out < max_chars \<or> (\<exists>k. shown = [take k (last ls) @ ''...''] \<and> k < length (last ls)))))"
proof -
  let ?r = "length thread_header + 1"
  have out: "out = (let sel = select_lines max_chars ?r [] (rev ls) in if sel = [] then [] else join [nl] (thread_header # rev sel))"
    by (simp add: out_def serialize_thread_context_def ls_def Let_def)
  show ?thesis
  proof (cases rule: select_lines_cases [of max_chars ?r "rev ls"])
    case (whole k)
    show ?thesis
    proof (cases "take k (rev ls) = []")
      case True
      then show ?thesis using whole by (simp add: out)
    next
      case False
      then have o: "out = join [nl] (thread_header # rev (take k (rev ls)))" using whole by (simp add: out)
      have "Suc (length out) = ?r + sum_list (map (\<lambda>l. length l + 1) (rev (take k (rev ls))))"
        unfolding o by (subst length_join_nl) simp_all
      also have "sum_list (map (\<lambda>l. length l + 1) (rev (take k (rev ls)))) = sum_list (map (\<lambda>l. length l + 1) (take k (rev ls)))"
        by (simp only: rev_map [symmetric] sum_list_rev)
      finally have "length out < max_chars" using whole(2) assms(3) by simp
      moreover have "suffix (rev (take k (rev ls))) ls" by (metis rev_rev_ident suffix_to_prefix take_is_prefix)
      ultimately show ?thesis using o by auto
    qed
  next
    case (cut l rest)
    have l: "l = last ls" using cut(1) by (metis hd_rev list.sel(1))
    have o: "out = join [nl] [thread_header, take (max_chars - ?r - 1) l @ ''...'']" using cut by (simp add: out)
    have "Suc (length out) = ?r + (length (take (max_chars - ?r - 1) l) + 4)"
      unfolding o by (subst length_join_nl) simp_all
    then have "length out \<le> max_chars + 2" using cut(3) by simp
    moreover have "\<exists>k. [take (max_chars - ?r - 1) l @ ''...''] = [take k (last ls) @ ''...''] \<and> k < length (last ls)"
    proof -
      have "max_chars < ?r + (length l + 1)"
      proof (rule ccontr)
        assume "\<not> max_chars < ?r + (length l + 1)"
        then have "select_lines max_chars ?r [] (rev ls) = select_lines max_chars (?r + (length l + 1)) [l] rest"
          using cut(1) by simp
        then have "hd (select_lines max_chars ?r [] (rev ls)) = l"
          using select_lines_Cons [of "[l]" max_chars "?r + (length l + 1)" rest] by auto
        then have "take (max_chars - ?r - 1) l @ ''...'' = l" using cut(2) by simp
        then show False using \<open>\<not> max_chars < ?r + (length l + 1)\<close> by simp
      qed
      then show ?thesis using cut(3) l by (intro exI [of _ "max_chars - ?r - 1"]) auto
    qed
    ultimately show ?thesis using o by blast
  qed
qed

theorem thread_context_bounded_witness:
  "length (serialize_thread_context [\<lparr>tm_author = ''a'', tm_text = ''bbbbbbbbbb'', tm_self = False, tm_source = None\<rparr>] 30 None) = 32"
proof -
  let ?m = "[\<lparr>tm_author = ''a'', tm_text = ''bbbbbbbbbb'', tm_self = False, tm_source = None\<rparr>]"
  have "length thread_header + 1 \<le> 30" by (simp add: thread_header_def)
  from thread_context_bounded [OF this, of ?m None] have "length (serialize_thread_context ?m 30 None) \<le> 32" by simp
  moreover have "length (serialize_thread_context ?m 30 None) = 32" by code_simp
  ultimately show ?thesis by simp
qed

text \<open>The rungs of the ladder in order, then at most one ending, and nothing after it.\<close>

definition rungs :: "nat \<Rightarrow> shown list" where "rungs k = map Rung [1..<Suc k]"

definition streamed_so_far :: "streamer \<Rightarrow> shown list \<Rightarrow> bool" where
  "streamed_so_far s out \<longleftrightarrow>
     (\<exists>k \<le> 3. if sr_final s then sr_rung s = None \<and> (\<exists>x. out = rungs k @ [x])
            else out = rungs k \<and> k = (case sr_rung s of None \<Rightarrow> 0 | Some r \<Rightarrow> r))"

lemma rungs_simps [simp]: "rungs 0 = []" "rungs (Suc k) = rungs k @ [Rung (Suc k)]"
  by (simp_all add: rungs_def)

lemma stream_op_step_simps [simp]:
  "stream_op_step s Tick = (case sr_rung s of None \<Rightarrow> (s, [])
     | Some r \<Rightarrow> if sr_final s \<or> 3 \<le> r then (s, []) else (s\<lparr>sr_rung := Some (r + 1)\<rparr>, [Rung (r + 1)]))"
  "stream_op_step s (Finalize x) = (if sr_final s then (s, []) else (\<lparr>sr_final = True, sr_rung = None\<rparr>, [x]))"
  "stream_op_step s Start_Heartbeat = (if sr_final s \<or> sr_rung s \<noteq> None then (s, []) else (s\<lparr>sr_rung := Some 0\<rparr>, []))"
  by (simp_all add: stream_op_step_def)

lemma streamed_step:
  assumes "streamed_so_far s out" "stream_op_step s act = (s', es)"
  shows "streamed_so_far s' (out @ es)"
proof (cases "sr_final s")
  case True
  then have "sr_rung s = None" using assms(1) by (auto simp: streamed_so_far_def)
  then have "stream_op_step s act = (s, [])" using True by (cases act) simp_all
  then show ?thesis using assms by simp
next
  case False
  define k where "k = (case sr_rung s of None \<Rightarrow> 0 | Some r \<Rightarrow> r)"
  have k: "k \<le> 3" "out = rungs k" using assms(1) False by (auto simp: streamed_so_far_def k_def)
  show ?thesis
  proof (cases act)
    case Start_Heartbeat
    show ?thesis
    proof (cases "sr_rung s")
      case None
      then show ?thesis using assms(2) Start_Heartbeat False k unfolding streamed_so_far_def
        by (intro exI [of _ 0]) (auto simp: k_def)
    qed (use assms Start_Heartbeat False in simp)
  next
    case Tick
    show ?thesis
    proof (cases "sr_rung s")
      case (Some r)
      show ?thesis
      proof (cases "3 \<le> r")
        case True
        then show ?thesis using assms Tick Some by simp
      next
        case r3: False
        then have "s' = s\<lparr>sr_rung := Some (Suc r)\<rparr>" "es = [Rung (Suc r)]" "k = r" using assms(2) Tick Some False k_def by simp_all
        then show ?thesis using k r3 False unfolding streamed_so_far_def by (intro exI [of _ "Suc r"]) simp
      qed
    qed (use assms Tick in simp)
  next
    case (Finalize x)
    then have "s' = \<lparr>sr_final = True, sr_rung = None\<rparr>" "es = [x]" using assms(2) False by simp_all
    then show ?thesis using k unfolding streamed_so_far_def by (intro exI [of _ k]) simp
  qed
qed

lemma streamed_ops: "streamed_so_far s out \<Longrightarrow> streamed_so_far (fst (stream_ops s xs)) (out @ snd (stream_ops s xs))"
proof (induction xs arbitrary: s out)
  case (Cons x xs)
  obtain s1 es where s1: "stream_op_step s x = (s1, es)" by fastforce
  from Cons.IH [OF streamed_step [OF Cons.prems s1]] show ?case by (simp add: s1 case_prod_beta)
qed simp

lemma streamer_outputs:
  "streamed_so_far (fst (stream_ops new_streamer xs)) (snd (stream_ops new_streamer xs))"
  using streamed_ops [of new_streamer "[]" xs] by (simp add: streamed_so_far_def new_streamer_def)

lemma stream_ops_append: "stream_ops s (xs @ ys) =
  (fst (stream_ops (fst (stream_ops s xs)) ys), snd (stream_ops s xs) @ snd (stream_ops (fst (stream_ops s xs)) ys))"
  by (induction xs arbitrary: s) (simp_all add: case_prod_beta del: stream_op_step_simps)

lemma ticks_not_final: "sr_final (fst (stream_ops t (replicate n Tick))) = sr_final t"
proof (induction n arbitrary: t)
  case (Suc n)
  have "sr_final (fst (stream_op_step t Tick)) = sr_final t" by (simp split: option.split)
  then show ?case using Suc.IH by (simp add: case_prod_beta del: stream_op_step_simps)
qed simp

lemma ticks_then_end:
  "\<exists>k \<le> 3. snd (stream_ops new_streamer (Start_Heartbeat # replicate n Tick @ [Finalize x])) = rungs k @ [x]"
proof -
  let ?run = "stream_ops new_streamer (Start_Heartbeat # replicate n Tick)"
  have nf: "\<not> sr_final (fst ?run)"
    by (simp add: new_streamer_def case_prod_beta ticks_not_final)
  moreover have "streamed_so_far (fst ?run) (snd ?run)" by (rule streamer_outputs)
  ultimately obtain k where "k \<le> 3" "snd ?run = rungs k" by (auto simp: streamed_so_far_def)
  moreover have "snd (stream_ops new_streamer ((Start_Heartbeat # replicate n Tick) @ [Finalize x])) = snd ?run @ [x]"
    unfolding stream_ops_append using nf by simp
  ultimately show ?thesis by auto
qed

fun is_shown :: "sent \<Rightarrow> bool" where
  "is_shown (Shown x) = True"
| "is_shown x = False"

definition run_answers :: "chat_world \<Rightarrow> bool" where
  "run_answers w \<longleftrightarrow> fst (run_outcome w) \<noteq> None \<and> snd (run_outcome w) = None"

lemma filter_shown:
  "filter is_shown (map Shown xs) = map Shown xs" "filter is_shown (react_on msg r) = []"
  "filter is_shown (map Fetched_Image rs) = []"
  by (induction xs) (simp_all add: react_on_def filter_empty_conv)

text \<open>What a message comes to: denied, empty or without a placeholder nothing reaches the agent; else the turn is run and ends in
  an answer or an apology.\<close>

lemma on_message_quiet:
  assumes "perm_allow p msg t0 = (p1, ok, reason)"
    and "\<not> (ok \<and> (py_strip (msg_text msg) \<noteq> [] \<or> images \<noteq> []) \<and> is_ok (cw_placeholder w))"
  shows "\<exists>ds. on_message d w t0 t1 ticks msg images p = (ds, None, p1) \<and> (ds = [] \<or> (\<exists>r. ds = [Denial r]))"
proof (cases ok)
  case True
  then show ?thesis using assms by (cases "cw_placeholder w") (simp_all add: on_message_def)
next
  case False
  then show ?thesis using assms(1) by (simp add: on_message_def split: option.split)
qed

definition shown_end :: "chat_world \<Rightarrow> string \<Rightarrow> shown" where
  "shown_end w session = (case run_outcome w of
     (Some final, None) \<Rightarrow> Answer (agent_result session final)
   | (final, err) \<Rightarrow> Apology (case err of None \<Rightarrow> ''EmptyResult'' | Some k \<Rightarrow> k))"

lemma on_message_runs:
  assumes "perm_allow p msg t0 = (p1, True, reason)" "py_strip (msg_text msg) \<noteq> [] \<or> images \<noteq> []" "cw_placeholder w = Inr u"
    "agent_turn_of d w msg images = (fetched, turn)"
  shows "on_message d w t0 t1 ticks msg images p =
    (Placeholder (channel_id msg) (if is_dm msg then None
         else Some (case set_text (thread_id msg) of Some t \<Rightarrow> t | None \<Rightarrow> message_id msg)) # react_on msg Ack @ fetched
       @ map Shown (snd (stream_ops new_streamer (Start_Heartbeat # replicate ticks Tick @ [Finalize (shown_end w (at_thread turn))])))
       @ react_on msg (if run_answers w then Done else Error_Mark),
     Some turn, if run_answers w then record_usage p1 (user_id msg) t1 else p1)"
proof -
  obtain final err where r: "run_outcome w = (final, err)" by fastforce
  show ?thesis using assms
    by (cases final; cases err) (simp_all add: on_message_def r shown_end_def run_answers_def Let_def del: stream_ops.simps)
qed

lemma fetched_shown: "filter is_shown (fst (agent_turn_of d w msg images)) = []"
  by (simp add: agent_turn_of_def Let_def turn_images_def filter_shown split: prod.split if_split)

text \<open>C9: A message reaches the agent exactly if the gate lets it through, it has a text or an image, and its placeholder was
  posted. Then the placeholder goes up the rungs in order and ends exactly once, in the answer if the run had a last final
  event and no error and in the apology otherwise, and only an answer is counted against the quota. Else nothing is shown but
  a denial, and nothing is counted.\<close>

theorem message_lifecycle:
  "case perm_allow p msg t0 of (p1, ok, reason) \<Rightarrow>
   (case on_message d w t0 t1 ticks msg images p of (out, turn, p2) \<Rightarrow>
     if ok \<and> (py_strip (msg_text msg) \<noteq> [] \<or> images \<noteq> []) \<and> is_ok (cw_placeholder w)
     then turn = Some (snd (agent_turn_of d w msg images))
       \<and> (\<exists>k \<le> 3. filter is_shown out = map Shown (rungs k @ [shown_end w (session_thread_id (ds_name d) msg)]))
       \<and> p2 = (if run_answers w then record_usage p1 (user_id msg) t1 else p1)
     else turn = None \<and> (out = [] \<or> (\<exists>r. out = [Denial r])) \<and> p2 = p1)"
proof -
  obtain p1 ok reason where g: "perm_allow p msg t0 = (p1, ok, reason)" by (metis prod_cases3)
  let ?c = "ok \<and> (py_strip (msg_text msg) \<noteq> [] \<or> images \<noteq> []) \<and> is_ok (cw_placeholder w)"
  show ?thesis
  proof (cases ?c)
    case True
    then have g': "perm_allow p msg t0 = (p1, True, reason)" and q: "py_strip (msg_text msg) \<noteq> [] \<or> images \<noteq> []"
      using g by simp_all
    obtain u where u: "cw_placeholder w = Inr u" using True by (cases "cw_placeholder w") simp_all
    obtain fetched turn where ft: "agent_turn_of d w msg images = (fetched, turn)" by fastforce
    have at: "at_thread turn = session_thread_id (ds_name d) msg"
      using ft by (auto simp: agent_turn_of_def Let_def split: prod.splits)
    have "fetched = fst (agent_turn_of d w msg images)" using ft by simp
    then have nofetch: "filter is_shown fetched = []" by (simp only: fetched_shown)
    note R = on_message_runs [OF g' q u ft, of t1 ticks]
    obtain k where k: "k \<le> 3" "snd (stream_ops new_streamer (Start_Heartbeat # replicate ticks Tick
        @ [Finalize (shown_end w (at_thread turn))])) = rungs k @ [shown_end w (at_thread turn)]"
      using ticks_then_end by blast
    have "filter is_shown (fst (on_message d w t0 t1 ticks msg images p))
        = map Shown (rungs k @ [shown_end w (session_thread_id (ds_name d) msg)])"
      unfolding R by (simp only: k(2) fst_conv) (simp add: filter_shown nofetch at del: rungs_simps)
    then show ?thesis using True k(1) ft g by (auto simp: R)
  next
    case False
    obtain ds where "on_message d w t0 t1 ticks msg images p = (ds, None, p1)" "ds = [] \<or> (\<exists>r. ds = [Denial r])"
      using on_message_quiet [OF g False] by blast
    then show ?thesis using g False by (simp only: prod.case if_False)
  qed
qed

theorem message_lifecycle_witness:
  "\<exists>p w msg a v. fst (snd (perm_allow p msg 0)) \<and> usage p = []
     \<and> (\<exists>k \<le> 3. filter is_shown (fst (on_message \<lparr>ds_name = ''slack'', ds_vision = v\<rparr> w 0 1 2 msg [] p)) = map Shown (rungs k @ [Answer a]))
     \<and> usage (snd (snd (on_message \<lparr>ds_name = ''slack'', ds_vision = v\<rparr> w 0 1 2 msg [] p))) = [(''u'', [1])]"
proof -
  let ?p = "new_permission [] 0 (Some [''*'']) default_deny_message"
  let ?msg = "\<lparr>channel_id = ''d'', user_id = ''u'', msg_text = ''hi'', message_id = ''1'', thread_id = None, is_dm = True, workspace = None\<rparr>"
  let ?w = "\<lparr>cw_placeholder = Inr (), cw_thread = Inr [], cw_image = (\<lambda>r. Inr None),
    cw_identity = Inr \<lparr>cu_oid = None, cu_email = None, cu_name = None\<rparr>, cw_events = [Final_Event []], cw_raises = None\<rparr>"
  let ?d = "\<lparr>ds_name = ''slack'', ds_vision = \<lparr>vc_enabled = False, vc_max_images = 0, vc_max_bytes = 0, vc_allowed_mime = []\<rparr>\<rparr>"
  have g: "perm_allow ?p ?msg 0 = (?p, True, None)" by (simp add: perm_allow_def new_permission_def)
  have q: "py_strip ''hi'' \<noteq> []" by code_simp
  have u: "usage (record_usage ?p ''u'' 1) = [(''u'', [1])]" by (simp add: record_usage_def new_permission_def live_usage_def dget_def)
  have r: "run_outcome ?w = (Some [], None)" by (simp add: run_outcome_def)
  obtain out turn p2 where m: "on_message ?d ?w 0 1 2 ?msg [] ?p = (out, turn, p2)" by (metis prod_cases3)
  have "(\<exists>k \<le> 3. filter is_shown out = map Shown (rungs k @ [Answer (agent_result (session_thread_id ''slack'' ?msg) [])]))
      \<and> p2 = record_usage ?p ''u'' 1"
    using message_lifecycle [of ?msg "[]" ?w ?d 1 0 2 ?p]
    by (simp add: g m q r run_answers_def shown_end_def del: rungs_simps)
  moreover have "usage ?p = []" by (simp add: new_permission_def)
  ultimately show ?thesis using u g m
    by (intro exI [of _ ?p] exI [of _ ?w] exI [of _ ?msg] exI [of _ "agent_result (session_thread_id ''slack'' ?msg) []"]
        exI [of _ "\<lparr>vc_enabled = False, vc_max_images = 0, vc_max_bytes = 0, vc_allowed_mime = []\<rparr>"])
      (simp del: rungs_simps)
qed

text \<open>The images of a turn are the fetched ones whose type is allowed, of at most the allowed size and number.\<close>

theorem images_within_policy:
  assumes "0 \<le> vc_max_images (ds_vision d)"
  shows "int (length (at_images (snd (agent_turn_of d w msg images)))) \<le> vc_max_images (ds_vision d)
     \<and> list_all (\<lambda>i. ip_mime i \<in> set (vc_allowed_mime (ds_vision d)) \<and> ip_data i \<noteq> []
          \<and> int (length (ip_data i)) \<le> vc_max_bytes (ds_vision d)) (at_images (snd (agent_turn_of d w msg images)))"
proof -
  let ?v = "ds_vision d"
  have one: "length (fetch_part w ?v r) \<le> 1" for r
    by (simp add: fetch_part_def split: sum.split option.split)
  have len: "length (concat (map (fetch_part w ?v) rs)) \<le> length rs" for rs
  proof (induction rs)
    case (Cons r rs)
    then show ?case using one [of r] by simp
  qed simp
  have refs: "int (length (image_refs ?v images)) \<le> vc_max_images ?v" and mime: "r \<in> set (image_refs ?v images) \<Longrightarrow> ir_mime r \<in> set (vc_allowed_mime ?v)" for r
    using assms by (auto simp: image_refs_def Let_def dest: in_set_takeD split: if_splits)
  have ok: "\<forall>i \<in> set (fetch_part w ?v r). ip_mime i = ir_mime r \<and> ip_data i \<noteq> [] \<and> int (length (ip_data i)) \<le> vc_max_bytes ?v" for r
    by (auto simp: fetch_part_def split: sum.splits option.splits if_splits)
  have imgs: "at_images (snd (agent_turn_of d w msg images)) = snd (turn_images w ?v images)"
    by (simp add: agent_turn_of_def Let_def split: prod.split)
  show ?thesis
  proof (cases "images \<noteq> [] \<and> vc_enabled ?v")
    case True
    then have im: "at_images (snd (agent_turn_of d w msg images)) = concat (map (fetch_part w ?v) (image_refs ?v images))"
      unfolding imgs by (simp add: turn_images_def)
    have "int (length (concat (map (fetch_part w ?v) (image_refs ?v images)))) \<le> vc_max_images ?v"
      using len [of "image_refs ?v images"] refs by linarith
    then show ?thesis unfolding im using ok mime by (auto simp: list_all_iff)
  next
    case False
    then show ?thesis unfolding imgs using assms by (auto simp: turn_images_def)
  qed
qed

theorem images_within_policy_witness:
  "\<exists>d msg images. vc_max_images (ds_vision d) = 1 \<and> length images = 2
     \<and> int (length (at_images (snd (agent_turn_of d \<lparr>cw_placeholder = Inr (), cw_thread = Inr [], cw_image = (\<lambda>r. Inr (Some ''x'')),
          cw_identity = Inr \<lparr>cu_oid = None, cu_email = None, cu_name = None\<rparr>, cw_events = [], cw_raises = None\<rparr> msg images)))) \<le> 1"
proof -
  let ?d = "\<lparr>ds_name = ''slack'', ds_vision = \<lparr>vc_enabled = True, vc_max_images = 1, vc_max_bytes = 9, vc_allowed_mime = [''image/png'']\<rparr>\<rparr>"
  let ?r = "\<lparr>ir_file = None, ir_url = None, ir_mime = ''image/png'', ir_size = None\<rparr>"
  have "0 \<le> vc_max_images (ds_vision ?d)" by simp
  from images_within_policy [OF this, of _ _ "[?r, ?r]"] show ?thesis by (intro exI [of _ ?d] exI [of _ "[?r, ?r]"] exI) simp
qed

text \<open>An image without a caption, whose bytes are not used, reaches the agent as the empty question.\<close>

lemma empty_query_reaches_agent:
  assumes "py_strip (msg_text msg) = []" "images \<noteq> []" "\<not> vc_enabled (ds_vision d)" "thread_id msg = None"
    "is_ok (cw_placeholder w)" "fst (snd (perm_allow p msg t0))"
  shows "map_option at_query (fst (snd (on_message d w t0 t1 ticks msg images p))) = Some []"
proof -
  obtain p1 reason where g: "perm_allow p msg t0 = (p1, True, reason)" using assms(6) by (cases "perm_allow p msg t0") auto
  obtain u where u: "cw_placeholder w = Inr u" using assms(5) by (cases "cw_placeholder w") simp_all
  obtain fetched turn where ft: "agent_turn_of d w msg images = (fetched, turn)" by fastforce
  have "at_query turn = []"
    using ft assms(1,3,4) by (auto simp: agent_turn_of_def turn_images_def thread_context_of_def set_text_def combined_query_def Let_def)
  then show ?thesis using on_message_runs [OF g _ u ft] assms(2) by simp
qed

text \<open>Two texts up to a character that is in neither of their heads.\<close>

lemma append_sep_eq: "c \<notin> set xs \<Longrightarrow> c \<notin> set ys \<Longrightarrow> xs @ c # us = ys @ c # vs \<longleftrightarrow> xs = ys \<and> us = vs"
proof (induction xs arbitrary: ys)
  case Nil
  then show ?case by (cases ys) auto
next
  case (Cons x xs)
  then show ?case by (cases ys) auto
qed

text \<open>The platforms that have an adapter.\<close>

definition channel_names :: "string list" where
  "channel_names = [''slack'', ''telegram'', ''discord'', ''teams'']"

lemma channel_names_plain: "ch \<in> set channel_names \<Longrightarrow> CHR ''-'' \<notin> set ch"
  by (auto simp: channel_names_def)

text \<open>C37: Two messages of one conversation (one platform; as direct messages of one channel, or in one thread of one channel)
  share an agent session. Two messages that share a session are of one conversation, or in threads of two channels of
  one platform of which one has a colon in its id; direct messages are never mixed up with others.\<close>

theorem session_ids_separate:
  assumes "ch \<in> set channel_names" "ch' \<in> set channel_names"
  shows "(ch = ch' \<and> is_dm m = is_dm m' \<and> channel_id m = channel_id m' \<and> (is_dm m \<or> session_anchor m = session_anchor m')
       \<longrightarrow> session_thread_id ch m = session_thread_id ch' m')
    \<and> (session_thread_id ch m = session_thread_id ch' m' \<longrightarrow>
         ch = ch' \<and> is_dm m = is_dm m'
         \<and> (if channel_id m = channel_id m' then is_dm m \<or> session_anchor m = session_anchor m'
            else \<not> is_dm m \<and> (CHR '':'' \<in> set (channel_id m) \<or> CHR '':'' \<in> set (channel_id m'))))"
proof (intro conjI impI)
  show "session_thread_id ch m = session_thread_id ch' m'"
    if "ch = ch' \<and> is_dm m = is_dm m' \<and> channel_id m = channel_id m' \<and> (is_dm m \<or> session_anchor m = session_anchor m')"
    using that by (auto simp: session_thread_id_def)
  assume eq: "session_thread_id ch m = session_thread_id ch' m'"
  note plain = append_sep_eq [OF assms [THEN channel_names_plain]]
  show "ch = ch'" "is_dm m = is_dm m'"
    using eq by (cases "is_dm m"; cases "is_dm m'"; simp add: session_thread_id_def plain)+
  then show "if channel_id m = channel_id m' then is_dm m \<or> session_anchor m = session_anchor m'
      else \<not> is_dm m \<and> (CHR '':'' \<in> set (channel_id m) \<or> CHR '':'' \<in> set (channel_id m'))"
    using eq append_sep_eq [of "CHR '':''" "channel_id m" "channel_id m'" "session_anchor m" "session_anchor m'"]
    by (cases "is_dm m") (auto simp: session_thread_id_def plain)
qed

text \<open>A reply and the message that it answers share a session.\<close>

theorem session_ids_separate_witness:
  "session_thread_id ''slack'' \<lparr>channel_id = ''C1'', user_id = ''u'', msg_text = [], message_id = ''1'', thread_id = Some ''7'',
       is_dm = False, workspace = None\<rparr>
   = session_thread_id ''slack'' \<lparr>channel_id = ''C1'', user_id = ''v'', msg_text = [], message_id = ''7'', thread_id = None,
       is_dm = False, workspace = None\<rparr>"
proof -
  have "''slack'' \<in> set channel_names" by (simp add: channel_names_def)
  from conjunct1 [OF session_ids_separate [OF this this]] show ?thesis
    by (rule mp) (simp add: session_anchor_def set_text_def)
qed

text \<open>A channel id with a colon can take the session of another one.\<close>

lemma colon_shares_session:
  "session_thread_id ''teams'' \<lparr>channel_id = ''a'', user_id = [], msg_text = [], message_id = ''1'', thread_id = Some ''b:c'',
       is_dm = False, workspace = None\<rparr>
   = session_thread_id ''teams'' \<lparr>channel_id = ''a:b'', user_id = [], msg_text = [], message_id = ''2'', thread_id = Some ''c'',
       is_dm = False, workspace = None\<rparr>"
  by (simp add: session_thread_id_def session_anchor_def set_text_def)

text \<open>Feedback: the row and the reaction.\<close>

lemma set_text_simps [simp]: "set_text None = None" "set_text (Some []) = None" "s \<noteq> [] \<Longrightarrow> set_text (Some s) = Some s"
  by (simp_all add: set_text_def)

text \<open>A click leaves a row exactly if its thumbs, stripped, are up or down and its investigation is named; the row has the
  direction of the stripped thumbs, and the reaction shows that direction exactly if the thumbs needed no stripping or
  were down.\<close>

theorem feedback_row_and_reaction:
  "(fst (on_feedback ch cache fb) \<noteq> None \<longleftrightarrow>
      py_strip (fe_thumbs fb) \<in> {''up'', ''down''} \<and> py_strip (fe_investigation fb) \<noteq> [])
   \<and> (case on_feedback ch cache fb of
        (None, es) \<Rightarrow> es = []
      | (Some row, es) \<Rightarrow>
          (fr_direction row = 1 \<longleftrightarrow> py_strip (fe_thumbs fb) = ''up'')
          \<and> (\<exists>who. fr_user row = ch @ '':'' @ who \<and> who \<noteq> [])
          \<and> (React (fe_channel fb) (fe_ts fb) (if fr_direction row = 1 then Thumbs_Up else Thumbs_Down) \<in> set es
               \<longleftrightarrow> fe_channel fb \<noteq> [] \<and> fe_ts fb \<noteq> [] \<and> (fe_thumbs fb = ''up'' \<or> fr_direction row = -1)))"
proof -
  have up: "py_strip (fe_thumbs fb) = ''up''" if "fe_thumbs fb = ''up''"
    unfolding that by code_simp
  show ?thesis
  proof (cases "py_strip (fe_thumbs fb) \<in> {''up'', ''down''} \<and> py_strip (fe_investigation fb) \<noteq> []")
    case False
    then show ?thesis by (simp add: on_feedback_def record_feedback_def Let_def)
  next
    case True
    then show ?thesis using up by (auto simp: on_feedback_def record_feedback_def Let_def)
  qed
qed

text \<open>Admitted before any of them is counted, a burst of any length gets through, and all of it is counted at the end.\<close>

lemma burst_overruns_quota:
  fixes p msg t n
  assumes "usage p = []" "0 < quota p" "is_dm msg" "''*'' \<in> allowed_dm_users p" "user_id msg \<noteq> []"
  defines "ask \<equiv> (\<lambda>p. fst (perm_allow p msg t))" and "finish \<equiv> (\<lambda>p. record_usage p (user_id msg) t)"
  shows "fst (snd (perm_allow ((ask ^^ n) p) msg t)) \<and> usage_count ((finish ^^ n) ((ask ^^ n) p)) (user_id msg) t = n"
proof -
  let ?u = "user_id msg"
  have ask: "quota ((ask ^^ n) p) = quota p \<and> allowed_dm_users ((ask ^^ n) p) = allowed_dm_users p
      \<and> usage_count ((ask ^^ n) p) ?u t = 0"
  proof (induction n)
    case 0
    then show ?case using assms(1) by (simp add: usage_count_def dget_def)
  next
    case (Suc n)
    have "usage_count (ask q) ?u t = usage_count q ?u t" for q
      unfolding ask_def using perm_allow_iff [of q msg t] by blast
    moreover have "allowed_dm_users (ask q) = allowed_dm_users q" for q
      by (simp add: ask_def perm_allow_def Let_def split: option.splits)
    ultimately show ?case using Suc perm_allow_config(1) by (simp add: ask_def)
  qed
  have count: "usage_count (finish q) ?u t = Suc (usage_count q ?u t)" for q
    using assms(5) by (simp add: finish_def record_usage_def usage_count_def dget_def update_conv' live_usage_def one_day_s_def)
  have "usage_count ((finish ^^ m) q) ?u t = m + usage_count q ?u t" for m q
    by (induction m) (simp_all add: count)
  moreover have "fst (snd (perm_allow ((ask ^^ n) p) msg t))"
    using perm_allow_iff [of "(ask ^^ n) p" msg t] ask assms by auto
  ultimately show ?thesis using ask by simp
qed

end
