(* ===== verification/Regex.thy ===== *)
theory Regex
  imports Py_Prelude
begin

text \<open>
  Python's \<open>re\<close> as far as the code uses it: a backtracking matcher for patterns in which at most one group is read. A
  position is the character before it and the rest of the text; the matches of a pattern come in the order in which
  the engine tries them, so the first one is the match. Characters are below 256, case folding is spelled out in the
  character classes.
\<close>

subsection \<open>Patterns\<close>

datatype re =
    Eps
  | Chars "char \<Rightarrow> bool"
  | Seq re re
  | Alt re re
  | Star re
  | Word_Boundary
  | Behind "char option \<Rightarrow> bool"
  | Ahead "string \<Rightarrow> bool"

type_synonym pos = "char option \<times> string"

text \<open>A word character of a text pattern: a letter, a digit or number sign of Latin-1, or the underscore.\<close>

definition re_word :: "char \<Rightarrow> bool" where
  "re_word c = (let n = (of_char c :: nat) in
     (48 \<le> n \<and> n \<le> 57) \<or> (65 \<le> n \<and> n \<le> 90) \<or> n = 95 \<or> (97 \<le> n \<and> n \<le> 122)
     \<or> n \<in> {170, 178, 179, 181, 185, 186, 188, 189, 190} \<or> (192 \<le> n \<and> n \<noteq> 215 \<and> n \<noteq> 247))"

definition word_at :: "char option \<Rightarrow> bool" where
  "word_at p = (case p of None \<Rightarrow> False | Some c \<Rightarrow> re_word c)"

definition next_char :: "string \<Rightarrow> char option" where
  "next_char s = (case s of [] \<Rightarrow> None | c # cs \<Rightarrow> Some c)"

function runs :: "re \<Rightarrow> pos \<Rightarrow> pos list" where
  "runs Eps st = [st]"
| "runs (Chars P) st = (case snd st of [] \<Rightarrow> [] | c # cs \<Rightarrow> if P c then [(Some c, cs)] else [])"
| "runs (Seq a b) st = concat (map (\<lambda>st'. if length (snd st') \<le> length (snd st) then runs b st' else []) (runs a st))"
| "runs (Alt a b) st = runs a st @ runs b st"
| "runs (Star a) st =
     concat (map (\<lambda>st'. if length (snd st') < length (snd st) then runs (Star a) st' else []) (runs a st)) @ [st]"
| "runs Word_Boundary st = (if word_at (fst st) \<noteq> word_at (next_char (snd st)) then [st] else [])"
| "runs (Behind P) st = (if P (fst st) then [st] else [])"
| "runs (Ahead P) st = (if P (snd st) then [st] else [])"
  by pat_completeness auto
termination by (relation "measures [\<lambda>(r, st). length (snd st), \<lambda>(r, st). size r]") (auto intro: le_neq_implies_less)

declare runs.simps(5) [simp del]

definition Opt :: "re \<Rightarrow> re" where "Opt r = Alt r Eps"

definition Plus :: "re \<Rightarrow> re" where "Plus r = Seq r (Star r)"

fun Least_Times :: "nat \<Rightarrow> re \<Rightarrow> re" where
  "Least_Times 0 r = Star r"
| "Least_Times (Suc n) r = Seq r (Least_Times n r)"

text \<open>At most \<open>n\<close> more, as many as possible; a lookbehind for a character outside a class.\<close>

fun Most_Times :: "nat \<Rightarrow> re \<Rightarrow> re" where
  "Most_Times 0 r = Eps"
| "Most_Times (Suc n) r = Opt (Seq r (Most_Times n r))"

text \<open>\<open>^\<close>, \<open>$\<close>, which also matches before a newline at the very end, and \<open>(?!r)\<close>.\<close>

definition At_Start :: re where "At_Start = Behind (\<lambda>p. p = None)"

definition At_End :: re where "At_End = Ahead (\<lambda>s. s = [] \<or> s = [CHR 0x0A])"

definition Not_Before :: "re \<Rightarrow> re" where "Not_Before r = Ahead (\<lambda>s. runs r (None, s) = [])"

definition Not_After :: "(char \<Rightarrow> bool) \<Rightarrow> re" where
  "Not_After P = Behind (\<lambda>p. case p of None \<Rightarrow> True | Some c \<Rightarrow> \<not> P c)"

fun Word :: "string \<Rightarrow> re" where
  "Word [] = Eps"
| "Word (c # cs) = Seq (Chars ((=) c)) (Word cs)"

text \<open>Without regard to case.\<close>

fun Word_Ci :: "string \<Rightarrow> re" where
  "Word_Ci [] = Eps"
| "Word_Ci (c # cs) = Seq (Chars (\<lambda>d. py_lower_char d = c)) (Word_Ci cs)"

fun Choice :: "re list \<Rightarrow> re" where
  "Choice [] = Chars (\<lambda>c. False)"
| "Choice [r] = r"
| "Choice (r # rs) = Alt r (Choice rs)"

definition match_length :: "re \<Rightarrow> pos \<Rightarrow> nat option" where
  "match_length r st = (case runs r st of [] \<Rightarrow> None | (p, rest) # _ \<Rightarrow> Some (length (snd st) - length rest))"

text \<open>\<open>finditer\<close>: the texts of the matches from left to right.\<close>

function find_all :: "re \<Rightarrow> pos \<Rightarrow> string list" where
  "find_all r st =
     (case match_length r st of
        Some n \<Rightarrow>
          (if 0 < n \<and> n \<le> length (snd st) then take n (snd st) # find_all r (Some (snd st ! (n - 1)), drop n (snd st))
           else [] # (case snd st of [] \<Rightarrow> [] | c # cs \<Rightarrow> find_all r (Some c, cs)))
      | None \<Rightarrow> (case snd st of [] \<Rightarrow> [] | c # cs \<Rightarrow> find_all r (Some c, cs)))"
  by pat_completeness auto
termination by (relation "measure (\<lambda>(r, st). length (snd st))") auto

declare find_all.simps [simp del]

definition finditer :: "re \<Rightarrow> string \<Rightarrow> string list" where
  "finditer r s = find_all r (None, s)"

text \<open>A pattern with one group: what stands before it, in it and after it. \<open>find_groups\<close> lists the group of every match,
  with the first of several alternatives that matches at a position.\<close>

definition match_groups :: "re \<times> re \<times> re \<Rightarrow> pos \<Rightarrow> (string \<times> pos) list" where
  "match_groups = (\<lambda>(pre, grp, post) st.
     concat (map (\<lambda>s1. concat (map (\<lambda>s2. map (Pair (take (length (snd s1) - length (snd s2)) (snd s1))) (runs post s2))
       (runs grp s1))) (runs pre st)))"

function find_groups :: "(re \<times> re \<times> re) list \<Rightarrow> pos \<Rightarrow> string list" where
  "find_groups alts st =
     (case concat (map (\<lambda>a. match_groups a st) alts) of
        (g, st') # _ \<Rightarrow>
          (if length (snd st') < length (snd st) then g # find_groups alts st'
           else g # (case snd st of [] \<Rightarrow> [] | c # cs \<Rightarrow> find_groups alts (Some c, cs)))
      | [] \<Rightarrow> (case snd st of [] \<Rightarrow> [] | c # cs \<Rightarrow> find_groups alts (Some c, cs)))"
  by pat_completeness auto
termination by (relation "measure (\<lambda>(alts, st). length (snd st))") auto

declare find_groups.simps [simp del]

text \<open>\<open>sub(new, s)\<close>: every match replaced.\<close>

function substitute :: "re \<Rightarrow> string \<Rightarrow> pos \<Rightarrow> string" where
  "substitute r new st =
     (let skip = (case snd st of [] \<Rightarrow> [] | c # cs \<Rightarrow> c # substitute r new (Some c, cs))
      in case match_length r st of
        Some n \<Rightarrow>
          (if 0 < n \<and> n \<le> length (snd st) then new @ substitute r new (Some (snd st ! (n - 1)), drop n (snd st))
           else new @ skip)
      | None \<Rightarrow> skip)"
  by pat_completeness auto
termination by (relation "measure (\<lambda>(r, new, st). length (snd st))") auto

declare substitute.simps [simp del]

definition replace_all :: "re \<Rightarrow> string \<Rightarrow> string \<Rightarrow> string" where
  "replace_all r new s = substitute r new (None, s)"

definition searches :: "re \<Rightarrow> string \<Rightarrow> bool" where
  "searches r s = (finditer r s \<noteq> [])"

subsection \<open>Facts\<close>

text \<open>What a pattern can match at all.\<close>

inductive in_lang :: "re \<Rightarrow> string \<Rightarrow> bool" where
  "in_lang Eps []"
| "P c \<Longrightarrow> in_lang (Chars P) [c]"
| "in_lang a x \<Longrightarrow> in_lang b y \<Longrightarrow> in_lang (Seq a b) (x @ y)"
| "in_lang a x \<Longrightarrow> in_lang (Alt a b) x"
| "in_lang b x \<Longrightarrow> in_lang (Alt a b) x"
| "in_lang (Star a) []"
| "in_lang a x \<Longrightarrow> in_lang (Star a) y \<Longrightarrow> in_lang (Star a) (x @ y)"
| "in_lang Word_Boundary []"
| "P p \<Longrightarrow> in_lang (Behind P) []"
| "P s \<Longrightarrow> in_lang (Ahead P) []"

inductive_simps in_lang_simps [simp]:
  "in_lang Eps x" "in_lang (Chars P) x" "in_lang Word_Boundary x" "in_lang (Behind P) x" "in_lang (Ahead P) x" "in_lang (Alt a b) x" "in_lang (Seq a b) x"

lemma runs_lang:
  "(p', rest) \<in> set (runs r (p, s)) \<Longrightarrow> \<exists>x. s = x @ rest \<and> in_lang r x"
proof (induction r "(p, s)" arbitrary: p s p' rest rule: runs.induct)
  case (3 a b)
  then obtain q mid where q: "(q, mid) \<in> set (runs a (p, s))" "length mid \<le> length s" "(p', rest) \<in> set (runs b (q, mid))"
    by (auto split: if_splits)
  obtain x where x: "s = x @ mid" "in_lang a x" using 3(1) [OF q(1)] by blast
  obtain y where y: "mid = y @ rest" "in_lang b y" using 3(2) [OF q(1) _ q(3)] q(2) by auto
  have "in_lang (Seq a b) (x @ y)" by (rule in_lang.intros(3) [OF x(2) y(2)])
  then show ?case using x(1) y(1) by (intro exI [of _ "x @ y"]) simp
next
  case (4 a b)
  from 4(3) have "(p', rest) \<in> set (runs a (p, s)) \<or> (p', rest) \<in> set (runs b (p, s))" by simp
  then show ?case using 4(1,2) by (metis in_lang.intros(4,5))
next
  case (5 a)
  from 5(3) consider "(p', rest) = (p, s)"
    | q mid where "(q, mid) \<in> set (runs a (p, s))" "length mid < length s" "(p', rest) \<in> set (runs (Star a) (q, mid))"
    unfolding runs.simps(5) [of a "(p, s)"] by (auto split: if_splits)
  then show ?case
  proof cases
    case 1
    then show ?thesis by (auto intro: in_lang.intros)
  next
    case (2 q mid)
    obtain x where x: "s = x @ mid" "in_lang a x" using 5(1) [OF 2(1)] by blast
    obtain y where y: "mid = y @ rest" "in_lang (Star a) y" using 5(2) [OF 2(1) _ 2(3)] 2(2) by auto
    have "in_lang (Star a) (x @ y)" by (rule in_lang.intros(7) [OF x(2) y(2)])
    then show ?thesis using x(1) y(1) by (intro exI [of _ "x @ y"]) simp
  qed
qed (auto split: list.splits if_splits)

lemma match_lang:
  assumes "match_length r st = Some n"
  shows "n \<le> length (snd st) \<and> in_lang r (take n (snd st))"
proof -
  obtain p s where st: "st = (p, s)" by fastforce
  obtain q rest qs where q: "runs r st = (q, rest) # qs" "n = length s - length rest"
    using assms by (auto simp: match_length_def st split: list.splits prod.splits)
  obtain x where "s = x @ rest" "in_lang r x" using runs_lang [of q rest r p s] q(1) by (auto simp: st)
  then show ?thesis using q(2) by (simp add: st)
qed

lemma find_all_lang: "t \<in> set (find_all r st) \<Longrightarrow> sublist t (snd st) \<and> in_lang r t"
proof (induction r st rule: find_all.induct)
  case (1 r st)
  have later: "sublist t (drop n (snd st)) \<Longrightarrow> sublist t (snd st)" for n
    by (metis sublist_drop sublist_order.order.trans)
  have tail: "snd st = c # cs \<Longrightarrow> sublist t cs \<Longrightarrow> sublist t (snd st)" for c cs
    by (simp add: sublist_Cons_right)
  show ?case
  proof (cases "match_length r st")
    case None
    then have "find_all r st = (case snd st of [] \<Rightarrow> [] | c # cs \<Rightarrow> find_all r (Some c, cs))"
      by (subst find_all.simps) simp
    then obtain c cs where "snd st = c # cs" "t \<in> set (find_all r (Some c, cs))"
      using 1(4) by (auto split: list.splits)
    then show ?thesis using 1(1) [OF None] tail by auto
  next
    case (Some n)
    note m = match_lang [OF Some]
    show ?thesis
    proof (cases "0 < n")
      case True
      then have "find_all r st = take n (snd st) # find_all r (Some (snd st ! (n - 1)), drop n (snd st))"
        using Some m by (subst find_all.simps) simp
      then consider "t = take n (snd st)" | "t \<in> set (find_all r (Some (snd st ! (n - 1)), drop n (snd st)))"
        using 1(4) by auto
      then show ?thesis
      proof cases
        case 1
        then show ?thesis using m by simp
      next
        case 2
        then show ?thesis using 1(2) [OF Some _ 2] True m later by auto
      qed
    next
      case False
      then have "find_all r st = [] # (case snd st of [] \<Rightarrow> [] | c # cs \<Rightarrow> find_all r (Some c, cs))"
        using Some by (subst find_all.simps) simp
      then consider "t = []" | c cs where "snd st = c # cs" "t \<in> set (find_all r (Some c, cs))"
        using 1(4) by (auto split: list.splits)
      then show ?thesis
      proof cases
        case 1
        then show ?thesis using m False by simp
      next
        case 2
        then show ?thesis using 1(3) [OF Some _ 2] False tail by auto
      qed
    qed
  qed
qed

lemma finditer_lang: "t \<in> set (finditer r s) \<Longrightarrow> sublist t s \<and> in_lang r t"
  using find_all_lang [of t r "(None, s)"] by (simp add: finditer_def)

lemma match_groups_sublist:
  assumes "(g, st') \<in> set (match_groups a st)"
  shows "sublist g (snd st) \<and> suffix (snd st') (snd st)"
proof -
  obtain pre grp post where a: "a = (pre, grp, post)" by (cases a) auto
  obtain p s q rest where st: "st = (p, s)" "st' = (q, rest)" by fastforce
  obtain q1 m1 q2 m2 where r: "(q1, m1) \<in> set (runs pre (p, s))" "(q2, m2) \<in> set (runs grp (q1, m1))" "(q, rest) \<in> set (runs post (q2, m2))"
    "g = take (length m1 - length m2) m1"
    using assms by (auto simp: match_groups_def a st)
  obtain x y z where "s = x @ m1" "m1 = y @ m2" "m2 = z @ rest"
    using runs_lang [OF r(1)] runs_lang [OF r(2)] runs_lang [OF r(3)] by blast
  then show ?thesis using r(4) by (auto simp: st sublist_def suffix_def)
qed

lemma find_groups_sublist: "t \<in> set (find_groups alts st) \<Longrightarrow> sublist t (snd st)"
proof (induction alts st rule: find_groups.induct)
  case (1 alts st)
  let ?m = "concat (map (\<lambda>a. match_groups a st) alts)"
  have tail: "snd st = c # cs \<Longrightarrow> sublist t cs \<Longrightarrow> sublist t (snd st)" for c cs
    by (simp add: sublist_Cons_right)
  show ?case
  proof (cases ?m)
    case Nil
    then have "find_groups alts st = (case snd st of [] \<Rightarrow> [] | c # cs \<Rightarrow> find_groups alts (Some c, cs))"
      by (subst find_groups.simps) (simp only: Nil list.case)
    then obtain c cs where "snd st = c # cs" "t \<in> set (find_groups alts (Some c, cs))"
      using 1(4) by (auto split: list.splits)
    then show ?thesis using 1(1) [OF Nil] tail by auto
  next
    case (Cons x xs)
    obtain g st' where x: "x = (g, st')" by (cases x)
    have "(g, st') \<in> set ?m" unfolding Cons x by simp
    then obtain a where "(g, st') \<in> set (match_groups a st)" by auto
    from match_groups_sublist [OF this] have g: "sublist g (snd st)" "suffix (snd st') (snd st)" by simp_all
    show ?thesis
    proof (cases "length (snd st') < length (snd st)")
      case True
      then have "find_groups alts st = g # find_groups alts st'" using True by (subst find_groups.simps) (simp only: Cons x list.case prod.case if_True)
      then consider "t = g" | "t \<in> set (find_groups alts st')" using 1(4) by auto
      then show ?thesis
      proof cases
        case 2
        then show ?thesis using 1(2) [OF Cons x [symmetric] True] g(2)
          by (metis suffix_imp_sublist sublist_order.order.trans)
      qed (use g in simp)
    next
      case False
      then have "find_groups alts st = g # (case snd st of [] \<Rightarrow> [] | c # cs \<Rightarrow> find_groups alts (Some c, cs))"
        using False by (subst find_groups.simps) (simp only: Cons x list.case prod.case if_False)
      then consider "t = g" | c cs where "snd st = c # cs" "t \<in> set (find_groups alts (Some c, cs))"
        using 1(4) by (auto split: list.splits)
      then show ?thesis
      proof cases
        case 2
        then show ?thesis using 1(3) [OF Cons x [symmetric] False] tail by auto
      qed (use g in simp)
    qed
  qed
qed

end
