(* ===== verification/Anchors.thy ===== *)
theory Anchors
  imports Regex
begin

text \<open>
  The tokens of a question that name something specific (\<open>agent/anchors.py\<close>): tickets, paths, file names and
  hyphenated names, and the test whether a chunk is about one of them.
\<close>

definition alnum :: "char \<Rightarrow> bool" where
  "alnum c = (let n = (of_char c :: nat) in (48 \<le> n \<and> n \<le> 57) \<or> (65 \<le> n \<and> n \<le> 90) \<or> (97 \<le> n \<and> n \<le> 122))"

definition upper_letter :: "char \<Rightarrow> bool" where
  "upper_letter c = (let n = (of_char c :: nat) in 65 \<le> n \<and> n \<le> 90)"

definition decimal :: "char \<Rightarrow> bool" where
  "decimal c = (let n = (of_char c :: nat) in 48 \<le> n \<and> n \<le> 57)"

definition path_char :: "char \<Rightarrow> bool" where
  "path_char c = (alnum c \<or> c = CHR ''_'' \<or> c = CHR ''.'' \<or> c = CHR ''-'')"

definition bounded :: "re \<Rightarrow> re" where
  "bounded r = Seq Word_Boundary (Seq r Word_Boundary)"

definition ticket_re :: re where
  "ticket_re = bounded (Seq (Least_Times 2 (Chars upper_letter)) (Seq (Word ''-'') (Least_Times 2 (Chars decimal))))"

definition path_re :: re where
  "path_re = bounded (Seq (Plus (Chars path_char)) (Plus (Seq (Word ''/'') (Plus (Chars path_char)))))"

definition file_extensions :: "string list" where
  "file_extensions = [''tf'', ''tfvars'', ''yaml'', ''yml'', ''json'', ''sh'', ''py'', ''md'', ''toml'', ''hcl'', ''conf'', ''env'']"

definition dot_file_re :: re where
  "dot_file_re = bounded (Seq (Plus (Chars path_char)) (Seq (Word ''.'') (Choice (map Word_Ci file_extensions))))"

definition hyphen_re :: re where
  "hyphen_re = bounded (Seq (Plus (Chars alnum)) (Plus (Seq (Word ''-'') (Plus (Chars alnum)))))"

definition anchor_stopwords :: "string list" where
  "anchor_stopwords = [''step-by-step'', ''well-known'', ''single-replica'', ''multi-replica'', ''read-only'', ''read-write'',
     ''service-account'', ''service-name'', ''key-value'', ''to-do'']"

definition anchor_ok :: "string \<Rightarrow> bool" where
  "anchor_ok tok \<longleftrightarrow> tok \<notin> set anchor_stopwords
     \<and> (CHR ''-'' \<in> set tok \<and> CHR ''/'' \<notin> set tok \<and> CHR ''.'' \<notin> set tok
          \<longrightarrow> list_ex (\<lambda>seg. 3 \<le> length seg) (split_on CHR ''-'' tok))"

definition extract_anchors :: "string \<Rightarrow> string list" where
  "extract_anchors query =
     unique_in_order (filter anchor_ok (map py_lower (concat (map (\<lambda>r. finditer r query) [ticket_re, path_re, dot_file_re, hyphen_re]))))"

definition strong_stopwords :: "string list" where
  "strong_stopwords =
     [''the'', ''and'', ''for'', ''with'', ''what'', ''where'', ''when'', ''which'', ''how'',
      ''this'', ''that'', ''these'', ''those'', ''from'', ''into'', ''over'', ''your'',
      ''list'', ''show'', ''tell'', ''give'', ''find'', ''want'', ''need'', ''please'',
      ''module'', ''modules'', ''chart'', ''charts'', ''service'', ''services'',
      ''project'', ''projects'', ''value'', ''values'', ''playbook'', ''playbooks'',
      ''environment'', ''environments'', ''ansible'', ''config'', ''configuration'',
      ''file'', ''files'', ''directory'', ''directories'', ''subdir'', ''subdirs'',
      ''all'', ''any'', ''every'', ''some'', ''one'', ''two'', ''three'',
      ''repo'', ''repository'', ''repositories'', ''code'', ''codebase'', ''source'']"

definition weak_re :: re where
  "weak_re = Seq (Chars (\<lambda>c. alnum c \<and> \<not> decimal c))
     (Least_Times 3 (Chars (\<lambda>c. alnum c \<or> c = CHR ''_'' \<or> c = CHR ''-'')))"

definition weak_repo_anchors :: "string \<Rightarrow> string list" where
  "weak_repo_anchors query = unique_in_order (filter (\<lambda>t. t \<notin> set strong_stopwords) (map py_lower (finditer weak_re query)))"

definition path_matches_any_anchor :: "string \<Rightarrow> string \<Rightarrow> string list \<Rightarrow> bool" where
  "path_matches_any_anchor path rp anchors \<longleftrightarrow>
     list_ex (\<lambda>a. py_in a (py_lower (path @ ''|'' @ rp))) anchors"

subsection \<open>Facts\<close>

lemma in_bounded [simp]: "in_lang (bounded r) t \<longleftrightarrow> in_lang r t"
  by (simp add: bounded_def)

lemma in_Word [simp]: "in_lang (Word w) t \<longleftrightarrow> t = w"
  by (induction w arbitrary: t) auto

lemma lower_mark: "c \<in> {CHR ''-'', CHR ''/'', CHR ''.''} \<Longrightarrow> c \<in> set t \<Longrightarrow> c \<in> set (py_lower t)"
proof -
  assume "c \<in> {CHR ''-'', CHR ''/'', CHR ''.''}" "c \<in> set t"
  moreover from this have "py_lower_char c = c" by (auto simp: py_lower_char_def)
  ultimately show ?thesis unfolding py_lower_def set_map by (metis image_eqI)
qed

lemma anchor_mark:
  "in_lang ticket_re t \<Longrightarrow> CHR ''-'' \<in> set t"
  "in_lang path_re t \<Longrightarrow> CHR ''/'' \<in> set t"
  "in_lang dot_file_re t \<Longrightarrow> CHR ''.'' \<in> set t"
  "in_lang hyphen_re t \<Longrightarrow> CHR ''-'' \<in> set t"
  by (auto simp: ticket_re_def path_re_def dot_file_re_def hyphen_re_def Plus_def numeral_2_eq_2)

text \<open>Every anchor stands in the question, is in lower case, and is specific: it has a hyphen, a slash or a dot, and none
  is a stopword or a hyphenated token of short parts only.\<close>

theorem anchors_specific:
  assumes "t \<in> set (extract_anchors q)"
  shows "sublist t (py_lower q) \<and> anchor_ok t \<and> (CHR ''-'' \<in> set t \<or> CHR ''/'' \<in> set t \<or> CHR ''.'' \<in> set t)"
proof -
  obtain m r where m: "t = py_lower m" "m \<in> set (finditer r q)" "r \<in> {ticket_re, path_re, dot_file_re, hyphen_re}" "anchor_ok t"
    using assms by (auto simp: extract_anchors_def)
  note l = finditer_lang [OF m(2)]
  have "CHR ''-'' \<in> set m \<or> CHR ''/'' \<in> set m \<or> CHR ''.'' \<in> set m" using l m(3) anchor_mark by blast
  then have "CHR ''-'' \<in> set t \<or> CHR ''/'' \<in> set t \<or> CHR ''.'' \<in> set t"
    unfolding m(1) using lower_mark by blast
  then show ?thesis using l m(1,4) sublist_lower by blast
qed

theorem anchors_specific_witness: "sublist ''b-cde'' ''a b-cde''"
proof -
  have "''b-cde'' \<in> set (extract_anchors ''a B-cde'')" by code_simp
  moreover have "py_lower ''a B-cde'' = ''a b-cde''" by code_simp
  ultimately show ?thesis using anchors_specific [of "''b-cde''" "''a B-cde''"] by simp
qed

text \<open>Two digits make a ticket, and a ticket of short parts is dropped.\<close>

lemma ticket_examples:
  "extract_anchors ''OPS-12'' = [''ops-12'']" "extract_anchors ''DB-12'' = []"
  by code_simp+

end
