(* ===== verification/Query_Intent.thy ===== *)
theory Query_Intent
  imports Anchors
begin

text \<open>
  What the retriever reads out of a question (the first half of \<open>agent/nodes/vector_retriever.py\<close>): the repository it
  names and whether it names it for certain, a directory, file names and services, and whether it asks for a listing,
  a comparison or several repositories.
\<close>

subsection \<open>Words and patterns\<close>

definition letter :: "char \<Rightarrow> bool" where
  "letter c \<longleftrightarrow> alnum c \<and> \<not> decimal c"

definition retriever_stopwords :: "string list" where
  "retriever_stopwords =
     [''structure'', ''files'', ''file'', ''details'', ''purpose'', ''more'', ''tell'',
      ''give'', ''show'', ''list'', ''what'', ''where'', ''which'', ''this'', ''that'',
      ''the'', ''for'', ''all'', ''and'', ''with'', ''from'', ''into'', ''about'', ''repo'',
      ''repository'', ''directory'', ''service'', ''services'', ''config'', ''yaml'',
      ''yml'', ''production'', ''prod'', ''staging'', ''dev'', ''main'', ''master'',
      ''branch'', ''please'', ''pls'', ''can'', ''you'', ''me'', ''i'', ''of'', ''in'',
      ''at'', ''to'', ''is'', ''are'', ''do'', ''be'', ''have'', ''has'', ''ci'', ''cd'']"

definition listing_hints :: "string list" where
  "listing_hints =
     [''all the files'', ''all files'', ''list of files'', ''structure of'',
      ''what files'', ''what'' @ [CHR 0x27] @ ''s in'', ''what is in'', ''contents of'', ''files in'',
      ''directory structure'', ''tree of'', ''every file'', ''each file'',
      ''how many files'', ''how many distinct files'', ''list all'', ''list the'',
      ''files of'', ''files for'', ''files under'']"

definition spaces :: re where "spaces = Plus (Chars is_space)"

text \<open>Words one after the other, in any case.\<close>

fun Phrase :: "re list \<Rightarrow> re" where
  "Phrase [] = Eps"
| "Phrase [r] = r"
| "Phrase (r # rs) = Seq r (Seq spaces (Phrase rs))"

definition repo_path_re :: re where
  "repo_path_re =
     Seq (Not_After (\<lambda>c. path_char c \<or> c = CHR ''/''))
       (Seq (Plus (Chars (\<lambda>c. alnum c \<or> c = CHR ''_'' \<or> c = CHR ''-'')))
          (let more = Seq (Word ''/'') (Plus (Chars path_char)) in Seq more (Most_Times 3 more)))"

definition slug_re :: re where
  "slug_re = Seq (Chars letter) (Star (Chars path_char))"

definition synthesis_patterns :: re where
  "synthesis_patterns = bounded (Choice
     [Word_Ci ''compare'', Word_Ci ''comparison'', Word_Ci ''relationship'', Word_Ci ''relate'', Word_Ci ''relates'', Word_Ci ''related'',
      Phrase [Word_Ci ''difference'', Word_Ci ''between''], Seq (Word_Ci ''difference'') (Opt (Word_Ci ''s'')),
      Seq (Word_Ci ''vs'') (Opt (Word ''.'')), Word_Ci ''versus'',
      Phrase [Word_Ci ''how'', Choice [Word_Ci ''does'', Word_Ci ''do''], Plus (Chars re_word),
        Choice [Word_Ci ''relate'', Word_Ci ''interact'', Word_Ci ''connect'']],
      Phrase [Word_Ci ''decide'', Choice [Word_Ci ''whether'', Word_Ci ''between'']], Phrase [Word_Ci ''choose'', Word_Ci ''between''],
      Phrase [Word_Ci ''specific'', Word_Ci ''to''], Word_Ci ''distinguish'', Word_Ci ''contrast''])"

definition repo_nouns :: "re list" where
  "repo_nouns = [Seq (Word_Ci ''repo'') (Opt (Word_Ci ''s'')), Word_Ci ''repositories'', Word_Ci ''services'', Word_Ci ''projects'']"

definition has_verbs :: re where
  "has_verbs = Choice [Word_Ci ''has'', Word_Ci ''have'', Word_Ci ''contain'', Word_Ci ''configure'']"

definition plural_patterns :: re where
  "plural_patterns = bounded (Choice
     [Seq (Word_Ci ''all'') (Seq spaces (Seq (Opt (Seq (Word_Ci ''the'') spaces)) (Choice repo_nouns))),
      Phrase [Word_Ci ''which'', Choice repo_nouns],
      Phrase [Word_Ci ''every'', Choice [Word_Ci ''repo'', Word_Ci ''repository'', Word_Ci ''service'']],
      Phrase [Word_Ci ''each'', Choice [Word_Ci ''repo'', Word_Ci ''repository'', Word_Ci ''service'']],
      Phrase [Word_Ci ''across'', Choice (take 3 repo_nouns)],
      Phrase [Choice [Word_Ci ''list'', Word_Ci ''enumerate''], Word_Ci ''all'', Choice repo_nouns],
      Phrase [hd repo_nouns, Word_Ci ''that'', has_verbs],
      Phrase [Word_Ci ''repositories'', Word_Ci ''that'', has_verbs]])"

definition dashed_slug_re :: re where
  "dashed_slug_re = bounded (Seq (Chars letter) (Seq (Star (Chars alnum)) (Plus (Seq (Word ''-'') (Plus (Chars alnum))))))"

definition filename_re :: re where
  "filename_re = bounded (Seq (Plus (Chars path_char)) (Seq (Word ''.'') (Choice
     [Seq (Word ''y'') (Seq (Opt (Word ''a'')) (Word ''ml'')), Word ''tf'', Word ''md'', Word ''py'', Word ''json'', Word ''sh'',
      Word ''hcl'', Word ''toml''])))"

text \<open>The slug of \<open>in|from|inside|within <slug>\<close> and of \<open><slug> repo|repository\<close>.\<close>

definition qualifier_slug :: re where
  "qualifier_slug = Seq (Chars alnum) (Plus (Chars path_char))"

definition qualifier :: "(re \<times> re \<times> re) list" where
  "qualifier =
     [(Seq Word_Boundary (Seq (Choice [Word_Ci ''in'', Word_Ci ''from'', Word_Ci ''inside'', Word_Ci ''within'']) spaces),
         qualifier_slug, Eps),
      (Eps, qualifier_slug, Seq spaces (Seq (Choice [Word_Ci ''repo'', Word_Ci ''repository'']) Word_Boundary))]"

definition dir_path_re :: re where
  "dir_path_re =
     Seq (Not_After (\<lambda>c. path_char c \<or> c = CHR ''/''))
       (Seq (Chars letter) (Seq (Star (Chars path_char))
          (let more = Seq (Word ''/'') (Plus (Chars path_char)) in Seq more (Most_Times 14 more))))"

subsection \<open>Repositories\<close>

text \<open>The tokens of a repository path: its segments and their parts between dashes, in lower case.\<close>

definition slug_tokens :: "string \<Rightarrow> string list" where
  "slug_tokens rp = concat (map (\<lambda>seg.
     (if 2 < length seg then [py_lower seg] else []) @ map py_lower (filter (\<lambda>x. 2 < length x) (split_on CHR ''-'' seg)))
     (split_on CHR ''/'' rp))"

text \<open>The set of repositories of a token is a list without repetitions.\<close>

definition build_token_index :: "string list \<Rightarrow> (string, string list) dict" where
  "build_token_index known =
     fold (\<lambda>r d. fold (\<lambda>tok d. AList.update tok (List.insert r (dget [] tok d)) d) (slug_tokens r) d) known []"

definition longest_first :: "string list \<Rightarrow> string list" where
  "longest_first = sort_desc (\<lambda>s. real (length s))"

definition ends_in_path :: "string \<Rightarrow> string \<Rightarrow> bool" where
  "ends_in_path c r \<longleftrightarrow> endswith r (''/'' @ c) \<or> last (split_on CHR ''/'' r) = c"

definition the_only :: "string list \<Rightarrow> string option" where
  "the_only rs = (case rs of [r] \<Rightarrow> Some r | _ \<Rightarrow> None)"

fun first_some :: "('a \<Rightarrow> 'b option) \<Rightarrow> 'a list \<Rightarrow> 'b option" where
  "first_some f [] = None"
| "first_some f (x # xs) = (case f x of Some y \<Rightarrow> Some y | None \<Rightarrow> first_some f xs)"

definition detect_repo :: "string \<Rightarrow> string list \<Rightarrow> string option" where
  "detect_repo query known =
     (if known = [] then None
      else (let paths = finditer repo_path_re query;
                exact = longest_first (filter (\<lambda>c. c \<in> set known) paths)
            in if exact \<noteq> [] then Some (hd exact)
               else case first_some (\<lambda>c. List.find (ends_in_path c) known) (longest_first paths) of
                 Some r \<Rightarrow> Some r
               | None \<Rightarrow>
                   (let index = build_token_index known;
                        slugs = filter (\<lambda>s. 2 < length s \<and> py_lower s \<notin> set retriever_stopwords) (finditer slug_re query)
                    in first_some (\<lambda>s. the_only (dget [] (py_lower s) index)) (longest_first slugs))))"

definition should_hard_filter_repo :: "string \<Rightarrow> string \<Rightarrow> bool" where
  "should_hard_filter_repo query rp =
     (if rp = [] then False
      else if py_in (py_lower rp) (py_lower query) then True
      else list_ex (\<lambda>slug. slug \<noteq> [] \<and> py_lower slug \<in> set (slug_tokens rp)) (find_groups qualifier (None, py_lower query)))"

subsection \<open>Intents, files, services and directories\<close>

definition is_listing_intent :: "string \<Rightarrow> bool" where
  "is_listing_intent query = list_ex (\<lambda>h. py_in h (py_lower query)) listing_hints"

definition is_synthesis_intent :: "string \<Rightarrow> bool" where
  "is_synthesis_intent query = searches synthesis_patterns query"

definition has_plural_repo_intent :: "string \<Rightarrow> bool" where
  "has_plural_repo_intent query = searches plural_patterns query"

definition extract_filenames :: "string \<Rightarrow> string list" where
  "extract_filenames query = take 5 (unique_in_order (map py_lower (finditer filename_re query)))"

definition extract_service_slugs :: "string \<Rightarrow> string list \<Rightarrow> string list" where
  "extract_service_slugs query known =
     (let dashed = unique_in_order (filter (\<lambda>s. s \<notin> set retriever_stopwords) (map py_lower (finditer dashed_slug_re query)));
          index = build_token_index known;
          bare = unique_in_order (filter (\<lambda>s. s \<notin> set dashed \<and> s \<notin> set retriever_stopwords \<and> 3 \<le> length s
                    \<and> the_only (dget [] s index) \<noteq> None) (map py_lower (finditer slug_re query)))
      in dashed @ (if known = [] then [] else bare))"

definition rstrip_slash :: "string \<Rightarrow> string" where
  "rstrip_slash c = rev (dropWhile (\<lambda>x. x = CHR ''/'') (rev c))"

text \<open>A candidate without the repository it starts with.\<close>

definition dir_candidate :: "string \<Rightarrow> string \<Rightarrow> string option" where
  "dir_candidate rp c0 =
     (let c = rstrip_slash c0 in
      if startswith c ''http://'' \<or> startswith c ''https://'' then None
      else if rp \<noteq> [] \<and> (c = rp \<or> startswith rp (c @ ''/'')) then None
      else (let c' = (if rp \<noteq> [] \<and> startswith c (rp @ ''/'') then drop (length rp + 1) c else c)
            in if CHR ''/'' \<in> set c' then Some c' else None))"

definition detect_path :: "string \<Rightarrow> string option \<Rightarrow> string option" where
  "detect_path query exclude =
     (case List.map_filter (dir_candidate (case exclude of None \<Rightarrow> [] | Some r \<Rightarrow> r)) (finditer dir_path_re query) of
        [] \<Rightarrow> None
      | c # cs \<Rightarrow> Some (argmax_from length c cs))"

subsection \<open>Facts\<close>

lemma first_some_Some: "first_some f xs = Some y \<Longrightarrow> \<exists>x \<in> set xs. f x = Some y"
  by (induction xs) (auto split: option.splits)

lemma set_longest_first [simp]: "set (longest_first xs) = set xs"
  by (simp add: longest_first_def)

lemma token_index_step:
  "set (dget [] tok (fold (\<lambda>t d. AList.update t (List.insert r (dget [] t d)) d) ts d))
     = (if tok \<in> set ts then insert r (set (dget [] tok d)) else set (dget [] tok d))"
proof (induction ts arbitrary: d)
  case (Cons t ts)
  show ?case unfolding fold.simps comp_def Cons.IH by (auto simp: dget_def update_conv')
qed simp

lemma token_index_distinct_step:
  "(\<And>tok. distinct (dget [] tok d)) \<Longrightarrow> distinct (dget [] tok (fold (\<lambda>t d. AList.update t (List.insert r (dget [] t d)) d) ts d))"
proof (induction ts arbitrary: d)
  case (Cons t ts)
  show ?case unfolding fold.simps comp_def
    by (rule Cons.IH) (use Cons.prems in \<open>simp add: dget_def update_conv' split: option.split\<close>)
qed simp

text \<open>The index is what its name says.\<close>

lemma token_index_spec:
  "set (dget [] tok (build_token_index known)) = {r \<in> set known. tok \<in> set (slug_tokens r)}"
  "distinct (dget [] tok (build_token_index known))"
proof -
  let ?add = "\<lambda>r d. fold (\<lambda>t d. AList.update t (List.insert r (dget [] t d)) d) (slug_tokens r) d"
  have "set (dget [] tok (fold ?add known d)) = set (dget [] tok d) \<union> {r \<in> set known. tok \<in> set (slug_tokens r)}" for d
  proof (induction known arbitrary: d)
    case (Cons r known)
    show ?case unfolding fold.simps comp_def Cons.IH token_index_step by auto
  qed simp
  then show "set (dget [] tok (build_token_index known)) = {r \<in> set known. tok \<in> set (slug_tokens r)}"
    by (simp add: build_token_index_def dget_def)
  have "(\<And>tok. distinct (dget [] tok d)) \<Longrightarrow> distinct (dget [] tok (fold ?add known d))" for d
  proof (induction known arbitrary: d)
    case (Cons r known)
    show ?case unfolding fold.simps comp_def by (rule Cons.IH) (rule token_index_distinct_step [OF Cons.prems])
  qed simp
  then show "distinct (dget [] tok (build_token_index known))" by (simp add: build_token_index_def dget_def)
qed

lemma the_only_token:
  "the_only (dget [] tok (build_token_index known)) = Some r \<Longrightarrow> {r' \<in> set known. tok \<in> set (slug_tokens r')} = {r}"
  using token_index_spec(1) [of tok known] by (auto simp: the_only_def split: list.splits)

text \<open>How a question can name a repository: by its path, by the end of its path, or by a word that is a token of it and of
  no other known one.\<close>

inductive names_repo :: "string \<Rightarrow> string list \<Rightarrow> string \<Rightarrow> bool" where
  "r \<in> set known \<Longrightarrow> sublist r query \<Longrightarrow> names_repo query known r"
| "r \<in> set known \<Longrightarrow> sublist c query \<Longrightarrow> CHR ''/'' \<in> set c \<Longrightarrow> suffix (''/'' @ c) r \<Longrightarrow> names_repo query known r"
| "sublist w query \<Longrightarrow> 2 < length w \<Longrightarrow> {r' \<in> set known. py_lower w \<in> set (slug_tokens r')} = {r} \<Longrightarrow> names_repo query known r"

lemma repo_path_slash: "in_lang repo_path_re t \<Longrightarrow> CHR ''/'' \<in> set t"
  by (auto simp: repo_path_re_def Let_def)

text \<open>C31: A repository is only ever picked if the question names it, and picking it for certain takes its whole path or a
  word that is one of its tokens.\<close>

theorem repo_scope_named:
  assumes "detect_repo query known = Some r"
  shows "r \<in> set known \<and> names_repo query known r"
proof -
  let ?paths = "finditer repo_path_re query"
  let ?find = "first_some (\<lambda>c. List.find (ends_in_path c) known) (longest_first ?paths)"
  let ?slugs = "filter (\<lambda>s. 2 < length s \<and> py_lower s \<notin> set retriever_stopwords) (finditer slug_re query)"
  have known: "known \<noteq> []" using assms by (auto simp: detect_repo_def)
  consider (exact) "r \<in> set ?paths" "r \<in> set known" | (tail) "?find = Some r"
    | (word) "first_some (\<lambda>s. the_only (dget [] (py_lower s) (build_token_index known))) (longest_first ?slugs) = Some r"
  proof (cases "longest_first (filter (\<lambda>c. c \<in> set known) ?paths) = []")
    case False
    then have "r = hd (longest_first (filter (\<lambda>c. c \<in> set known) ?paths))" using assms known by (simp add: detect_repo_def Let_def)
    then have "r \<in> set (longest_first (filter (\<lambda>c. c \<in> set known) ?paths))" using False hd_in_set by metis
    then show ?thesis by (intro exact) simp_all
  next
    case True
    then show ?thesis using assms known tail word
      by (cases ?find) (simp_all add: detect_repo_def Let_def)
  qed
  then show ?thesis
  proof cases
    case exact
    then show ?thesis using finditer_lang [OF exact(1)] by (auto intro: names_repo.intros)
  next
    case tail
    then obtain c where c: "c \<in> set ?paths" "List.find (ends_in_path c) known = Some r"
      using first_some_Some by fastforce
    then have r: "r \<in> set known" "ends_in_path c r" by (auto simp: find_Some_iff)
    have c': "sublist c query" "CHR ''/'' \<in> set c" using finditer_lang [OF c(1)] repo_path_slash by auto
    have "last (split_on CHR ''/'' r) \<noteq> c" using c'(2) split_on_no_sep [of "last (split_on CHR ''/'' r)" "CHR ''/''" r] by auto
    then have "suffix (''/'' @ c) r" using r(2) by (simp add: ends_in_path_def endswith_def)
    then show ?thesis using r(1) c' names_repo.intros(2) by simp
  next
    case word
    then obtain w where w: "w \<in> set ?slugs" "the_only (dget [] (py_lower w) (build_token_index known)) = Some r"
      using first_some_Some by fastforce
    have only: "{r' \<in> set known. py_lower w \<in> set (slug_tokens r')} = {r}" using the_only_token [OF w(2)] .
    have "sublist w query" "2 < length w" using w(1) finditer_lang [of w slug_re query] by auto
    then show ?thesis using names_repo.intros(3) only by blast
  qed
qed

theorem repo_scope_named_witness:
  "detect_repo ''a/b x'' [''a/b''] = Some ''a/b'' \<and> names_repo ''a/b x'' [''a/b''] ''a/b''"
proof -
  have "detect_repo ''a/b x'' [''a/b''] = Some ''a/b''" by code_simp
  then show ?thesis using repo_scope_named by blast
qed

lemma hard_filter_named:
  assumes "should_hard_filter_repo query r"
  shows "r \<noteq> [] \<and> (sublist (py_lower r) (py_lower query)
    \<or> (\<exists>w. sublist w (py_lower query) \<and> w \<noteq> [] \<and> py_lower w \<in> set (slug_tokens r)))"
proof (cases "py_in (py_lower r) (py_lower query)")
  case True
  then show ?thesis using assms by (auto simp: should_hard_filter_repo_def py_in_iff)
next
  case False
  then obtain w where w: "w \<in> set (find_groups qualifier (None, py_lower query))" "w \<noteq> []" "py_lower w \<in> set (slug_tokens r)" "r \<noteq> []"
    using assms by (auto simp: should_hard_filter_repo_def list_ex_iff split: if_splits)
  then show ?thesis using find_groups_sublist [OF w(1)] by auto
qed

text \<open>A full stop after the path of a repository hides it, and the end of a path is given to the first repository that ends
  so.\<close>

lemma full_stop_hides_repo:
  "detect_repo ''a/b'' [''a/b''] = Some ''a/b''" "detect_repo ''a/b.'' [''a/b''] = None"
  by code_simp+

lemma ambiguous_tail_takes_first:
  "detect_repo ''x/y'' [''a/x/y'', ''b/x/y''] = Some ''a/x/y''" "detect_repo ''x/y'' [''b/x/y'', ''a/x/y''] = Some ''b/x/y''"
  by code_simp+

end
