(* ===== verification/Retriever.thy ===== *)
theory Retriever
  imports Query_Intent Fusion
begin

text \<open>
  The retriever node (the second half of \<open>agent/nodes/vector_retriever.py\<close>): the plan of a question, the lanes that are
  searched, their fusion, and the directory listing. What the embedders and the store answer, failures included, is the
  record \<open>lanes\<close>; a lane that the store does not have is \<open>None\<close>. The log lines and the timing are left out.
\<close>

subsection \<open>The plan of a question\<close>

record retrieval_plan =
  rp_plural :: bool
  rp_repo :: "string option"
  rp_hard :: bool
  rp_listing :: bool
  rp_path :: "string option"
  rp_synthesis :: bool
  rp_top_k :: int
  rp_slugs :: "string list"
  rp_filenames :: "string list"

definition rerank_candidate_pool :: int where "rerank_candidate_pool = 40"

definition scoped_top_k :: "int \<Rightarrow> bool \<Rightarrow> bool \<Rightarrow> bool \<Rightarrow> bool \<Rightarrow> int" where
  "scoped_top_k k listing hard synthesis scoped =
     max (if listing then min (k * 3) 50 else if hard then min (k * 2) 30
          else if synthesis then min (k * 3) 50 else if scoped then min (k * 3) 50 else k) rerank_candidate_pool"

definition plan_of :: "string list \<Rightarrow> int \<Rightarrow> string \<Rightarrow> retrieval_plan" where
  "plan_of known k query =
     (let plural = has_plural_repo_intent query;
          rp = (if plural then None else detect_repo query known);
          hard = (case rp of None \<Rightarrow> False | Some r \<Rightarrow> r \<noteq> [] \<and> should_hard_filter_repo query r);
          listing = is_listing_intent query;
          synthesis = is_synthesis_intent query
      in \<lparr>rp_plural = plural, rp_repo = rp, rp_hard = hard, rp_listing = listing,
          rp_path = (if listing then detect_path query rp else None), rp_synthesis = synthesis,
          rp_top_k = scoped_top_k k listing hard synthesis (rp \<noteq> None \<and> rp \<noteq> Some []),
          rp_slugs = (if hard then [] else take 3 (extract_service_slugs query known)),
          rp_filenames = (if hard then [] else extract_filenames query)\<rparr>)"

subsection \<open>The lanes\<close>

record lanes =
  la_embed_query :: "string \<Rightarrow> real list result"
  la_embed_doc :: "string \<Rightarrow> real list result"
  la_code_query :: "(string \<Rightarrow> real list result) option"
  la_hybrid :: "real list \<Rightarrow> string \<Rightarrow> int \<Rightarrow> string option \<Rightarrow> real list option \<Rightarrow> search_result list result"
  la_by_text :: "(string \<Rightarrow> int \<Rightarrow> search_result list result) option"
  la_by_path :: "(string \<Rightarrow> int \<Rightarrow> json list option \<Rightarrow> search_result list result) option"
  la_list_files :: "(string option \<Rightarrow> string option \<Rightarrow> int \<Rightarrow> (string list \<times> int) result) option"
  la_sha1 :: "string \<Rightarrow> string"

text \<open>A lane that raises has no hits.\<close>

definition hits :: "'a list result \<Rightarrow> 'a list" where
  "hits r = (case r of Inl e \<Rightarrow> [] | Inr xs \<Rightarrow> xs)"

definition main_embed :: "lanes \<Rightarrow> string \<Rightarrow> string option \<Rightarrow> real list result" where
  "main_embed la query hyde =
     (case hyde of Some h \<Rightarrow> if h = [] then la_embed_query la query else la_embed_doc la h | None \<Rightarrow> la_embed_query la query)"

definition code_embed :: "lanes \<Rightarrow> string \<Rightarrow> real list option" where
  "code_embed la query =
     (case la_code_query la of None \<Rightarrow> None | Some f \<Rightarrow> (case f query of Inl e \<Rightarrow> None | Inr v \<Rightarrow> Some v))"

definition slug_pool :: "lanes \<Rightarrow> int \<Rightarrow> string list \<Rightarrow> search_result list" where
  "slug_pool la k slugs = (case la_by_text la of None \<Rightarrow> [] | Some f \<Rightarrow> concat (map (\<lambda>s. hits (f s (k * 2))) slugs))"

text \<open>The repositories of the main hits, the most frequent first.\<close>

definition context_repo :: "search_result \<Rightarrow> json option result" where
  "context_repo r =
     (let c = sr_chunk r; md = metadata c;
          name = py_or (JStr (repo c)) (py_or (dget JNull ''repo'' md) (py_or (dget JNull ''repository'' md) (JStr [])))
      in if \<not> truthy name then Inr None
         else case name of JList xs \<Rightarrow> Inl (TypeError ''unhashable'') | JObj d \<Rightarrow> Inl (TypeError ''unhashable'') | _ \<Rightarrow> Inr (Some name))"

definition count_repos :: "json option list \<Rightarrow> (json, nat) dict" where
  "count_repos names =
     fold (\<lambda>n d. case n of None \<Rightarrow> d | Some j \<Rightarrow> AList.update j (dget 0 j d + 1) d) names []"

definition ranked_repos :: "search_result list \<Rightarrow> json list result" where
  "ranked_repos results =
     (case traverse context_repo results of Inl e \<Rightarrow> Inl e
      | Inr names \<Rightarrow> Inr (map fst (sort_desc (real \<circ> snd) (count_repos names))))"

definition filename_pool :: "lanes \<Rightarrow> json list \<Rightarrow> string list \<Rightarrow> search_result list" where
  "filename_pool la ranked fnames =
     (case la_by_path la of None \<Rightarrow> []
      | Some f \<Rightarrow> concat (map (\<lambda>n. (if ranked \<noteq> [] then hits (f n 10 (Some ranked)) else []) @ hits (f n 3 None)) fnames))"

definition fuse :: "lanes \<Rightarrow> search_result list \<Rightarrow> search_result list \<Rightarrow> search_result list \<Rightarrow> search_result list result" where
  "fuse la results slugs fnames =
     (if slugs @ fnames = [] then Inr results
      else case rrf_merge_pools (la_sha1 la) [results, slugs, fnames] (int (length results + length (slugs @ fnames)))
          (Some [1, 1 / 2, 1 / 2]) of
        Inl e \<Rightarrow> Inl e
      | Inr merged \<Rightarrow> reboost merged)"

subsection \<open>The directory listing\<close>

definition list_limit :: int where "list_limit = 500"

definition listing_chunk :: "string option \<Rightarrow> string option \<Rightarrow> string list \<Rightarrow> int \<Rightarrow> chunk" where
  "listing_chunk rp path files amount =
     (let some = (\<lambda>v. case v of Some s \<Rightarrow> s \<noteq> [] | None \<Rightarrow> False);
          label = (if some rp then the rp else ''all repos'') @ (if some path then '' - '' @ the path @ ''/'' else []);
          note = (if list_limit < amount then '' (showing first '' @ str_int list_limit @ '', full count above is exact)'' else []);
          md = ''# Directory listing -- '' @ label @ [CHR 0x0A, CHR 0x0A] @ ''**Total distinct files:** '' @ str_int amount @ note
             @ [CHR 0x0A, CHR 0x0A] @ join [CHR 0x0A] (map (\<lambda>f. ''- '' @ f) files)
      in \<lparr>chunk_id = ''synthetic:listing:'' @ (if some rp then the rp else ''*'') @ '':'' @ (if some path then the path else ''*''),
          content = md, chunk_doc_type = GENERIC_MARKDOWN,
          source_path = ''<dir-listing:'' @ (if some path then the path else case rp of Some r \<Rightarrow> r | None \<Rightarrow> ''None'') @ ''>'',
          repo = (case rp of Some r \<Rightarrow> r | None \<Rightarrow> []),
          metadata = [(''synthetic'', JBool True), (''listing_total'', JInt amount), (''listing_shown'', JInt (int (length files)))],
          parent_chunk_id = None, chunk_type = ''parent'', token_count = max 1 (int (length md) div 4), embed_content = None\<rparr>)"

definition listing_of :: "lanes \<Rightarrow> retrieval_plan \<Rightarrow> chunk list" where
  "listing_of la p =
     (let some = (\<lambda>v. case v of Some s \<Rightarrow> s \<noteq> [] | None \<Rightarrow> False) in
      if \<not> (rp_listing p \<and> (some (rp_path p) \<or> some (rp_repo p))) then []
      else case la_list_files la of None \<Rightarrow> []
        | Some f \<Rightarrow> (case f (rp_repo p) (rp_path p) list_limit of
              Inl e \<Rightarrow> []
            | Inr (files, amount) \<Rightarrow> if files = [] then [] else [listing_chunk (rp_repo p) (rp_path p) files amount]))"

subsection \<open>The node\<close>

record retrieval =
  rv_chunks :: "chunk list"
  rv_sources :: "string list"
  rv_plan :: retrieval_plan

definition vector_retrieve :: "string list \<Rightarrow> int \<Rightarrow> lanes \<Rightarrow> string \<Rightarrow> string option \<Rightarrow> retrieval result" where
  "vector_retrieve known k la query hyde =
     (let p = plan_of known k query; code = code_embed la query in
      case main_embed la query hyde of Inl e \<Rightarrow> Inl e
      | Inr v \<Rightarrow>
          (let main_hits = hits (la_hybrid la v query (rp_top_k p) (if rp_hard p then rp_repo p else None) code);
               slugs = slug_pool la k (rp_slugs p)
           in case ranked_repos main_hits of Inl e \<Rightarrow> Inl e
              | Inr ranked \<Rightarrow>
                  (case fuse la main_hits slugs (filename_pool la ranked (rp_filenames p)) of Inl e \<Rightarrow> Inl e
                   | Inr results \<Rightarrow>
                       Inr \<lparr>rv_chunks = listing_of la p @ map sr_chunk results,
                          rv_sources = [''vector'', ''bm25''] @ (if code \<noteq> None then [''code''] else [])
                            @ (if rp_slugs p \<noteq> [] then [''text-fanout''] else []),
                          rv_plan = p\<rparr>)))"

subsection \<open>Facts\<close>

text \<open>The lanes with every failure but that of the main embedding replaced by an empty answer.\<close>

definition quiet_lanes :: "lanes \<Rightarrow> lanes" where
  "quiet_lanes la = la\<lparr>
     la_hybrid := (\<lambda>v q k f c. Inr (hits (la_hybrid la v q k f c))),
     la_by_text := map_option (\<lambda>f s k. Inr (hits (f s k))) (la_by_text la),
     la_by_path := map_option (\<lambda>f s k r. Inr (hits (f s k r))) (la_by_path la),
     la_list_files := map_option (\<lambda>f r p n. case f r p n of Inl e \<Rightarrow> Inr ([], 0) | Inr x \<Rightarrow> Inr x) (la_list_files la)\<rparr>"

lemma hits_simps [simp]: "hits (Inr xs) = xs" "hits (Inl e) = []"
  by (simp_all add: hits_def)

lemma quiet_lanes_simps [simp]:
  "main_embed (quiet_lanes la) q h = main_embed la q h" "code_embed (quiet_lanes la) q = code_embed la q"
  "hits (la_hybrid (quiet_lanes la) v q k f c) = hits (la_hybrid la v q k f c)"
  "slug_pool (quiet_lanes la) k sl = slug_pool la k sl" "filename_pool (quiet_lanes la) rs fl = filename_pool la rs fl"
  "fuse (quiet_lanes la) ms ss ns = fuse la ms ss ns" "listing_of (quiet_lanes la) p = listing_of la p"
  by (simp_all add: quiet_lanes_def main_embed_def code_embed_def slug_pool_def filename_pool_def fuse_def listing_of_def Let_def
      split: option.split sum.split cong: if_cong)

text \<open>A search lane that raises is the same to the retriever as one that finds nothing: only the embedding of the question
  and malformed metadata can make it fail.\<close>

theorem lane_failures_contained:
  "vector_retrieve known k (quiet_lanes la) query hyde = vector_retrieve known k la query hyde"
  unfolding vector_retrieve_def Let_def quiet_lanes_simps by (rule refl)

text \<open>The pool asked for.\<close>

lemma pool_size_bounds:
  "rerank_candidate_pool \<le> rp_top_k (plan_of known k query) \<and> rp_top_k (plan_of known k query) \<le> max 50 k"
  by (simp add: plan_of_def scoped_top_k_def rerank_candidate_pool_def Let_def max_def min_def)

text \<open>Everything that a lane found is in the merge, under its key, and nothing else.\<close>

lemma rrf_merge_all:
  assumes "rrf_merge_pools sha1 pools (int n) (Some ws) = Inr out" "length ws = length pools" "pools \<noteq> []"
    "length (concat pools) \<le> n"
  shows "chunk_key sha1 ` set out = chunk_key sha1 ` set (concat pools) \<and> distinct (map (chunk_key sha1) out)"
proof -
  define K where "K = chunk_key sha1 ` \<Union>(set ` set pools)"
  define st where "st = rrf_pools sha1 (zip pools ws) fusion0"
  define R where "R = rrf_ranked (int n) st"
  have inv: "fusion_inv sha1 K (rrf_total sha1 pools ws) st"
    unfolding K_def st_def by (rule fusion_inv_result) (rule assms(2))
  note emit = rrf_emit_all [OF inv rrf_ranked_subset [of "int n" st], folded R_def]
  note ranked = rrf_ranked_facts [OF inv, of "int n", folded R_def]
  have out: "out = map (rrf_out st) R"
    using assms(1,2,3) emit(1) by (simp add: rrf_merge_pools_def pool_weights_of_def Let_def st_def R_def)
  have K: "K = chunk_key sha1 ` set (concat pools)" by (auto simp: K_def)
  have "card K \<le> n" unfolding K
    by (rule order_trans [OF card_image_le [OF finite_set] order_trans [OF card_length assms(4)]])
  then have "length R = card K" using ranked(2) by simp
  moreover have "card (fst ` set R) = length R" using distinct_card [OF ranked(1)] by simp
  moreover have "fst ` set R \<subseteq> K"
    using rrf_ranked_subset [of "int n" st] inv by (auto simp: R_def fusion_inv_def)
  ultimately have "fst ` set R = K" by (simp add: card_subset_eq K)
  then have "chunk_key sha1 ` set out = K" unfolding out set_map [symmetric] by (simp only: emit(2))
  moreover have "distinct (map (chunk_key sha1) out)" unfolding out emit(2) using ranked(1) by simp
  ultimately show ?thesis using K by simp
qed

lemma reboost_keys:
  assumes "reboost results = Inr out"
  shows "mset (map (chunk_key sha1) out) = mset (map (chunk_key sha1) results)"
proof -
  from assms obtain bs where bs: "traverse reboost_one results = Inr bs" "out = sort_desc score bs"
    by (auto simp: reboost_def split: sum.splits)
  have chunks: "map sr_chunk bs = map sr_chunk results"
    using bs(1) by (rule traverse_mset_chunks) (auto simp: reboost_one_def Let_def split: sum.splits if_splits)
  have key: "chunk_key sha1 = (\<lambda>c. chunk_key sha1 \<lparr>sr_chunk = c, score = 0, distance_metric = []\<rparr>) \<circ> sr_chunk"
    by (rule ext) (simp add: chunk_key_def Let_def)
  have "map (chunk_key sha1) bs = map (chunk_key sha1) results"
    by (subst (1 2) key) (simp only: map_map [symmetric] chunks)
  then have "mset (map (chunk_key sha1) bs) = mset (map (chunk_key sha1) results)" by simp
  then show ?thesis by (simp add: bs(2))
qed

lemma fuse_complete:
  assumes "fuse la ms ss ns = Inr out" "ss @ ns \<noteq> []"
  shows "chunk_key (la_sha1 la) ` set out = chunk_key (la_sha1 la) ` set (ms @ ss @ ns) \<and> distinct (map (chunk_key (la_sha1 la)) out)"
proof -
  let ?h = "la_sha1 la"
  obtain merged where m: "rrf_merge_pools ?h [ms, ss, ns] (int (length ms + length (ss @ ns))) (Some [1, 1 / 2, 1 / 2]) = Inr merged"
    "reboost merged = Inr out" using assms by (auto simp: fuse_def split: sum.splits)
  have "chunk_key ?h ` set merged = chunk_key ?h ` set (concat [ms, ss, ns]) \<and> distinct (map (chunk_key ?h) merged)"
    by (rule rrf_merge_all [OF m(1)]) simp_all
  moreover have "chunk_key ?h ` set out = chunk_key ?h ` set merged" "distinct (map (chunk_key ?h) out) = distinct (map (chunk_key ?h) merged)"
    using reboost_keys [OF m(2), of ?h] mset_eq_imp_distinct_iff by (metis mset_eq_setD set_map)+
  ultimately show ?thesis by simp
qed

text \<open>The hits of the main lane, and those of the two side lanes.\<close>

definition main_hits :: "string list \<Rightarrow> int \<Rightarrow> lanes \<Rightarrow> string \<Rightarrow> real list \<Rightarrow> search_result list" where
  "main_hits known k la query v =
     (let p = plan_of known k query
      in hits (la_hybrid la v query (rp_top_k p) (if rp_hard p then rp_repo p else None) (code_embed la query)))"

definition side_hits :: "string list \<Rightarrow> int \<Rightarrow> lanes \<Rightarrow> string \<Rightarrow> real list \<Rightarrow> search_result list" where
  "side_hits known k la query v =
     slug_pool la k (rp_slugs (plan_of known k query))
     @ (case ranked_repos (main_hits known k la query v) of Inl e \<Rightarrow> []
        | Inr ranked \<Rightarrow> filename_pool la ranked (rp_filenames (plan_of known k query)))"

text \<open>C14: Whatever a lane found reaches the rerank pool. If only the main lane found anything, the pool holds its hits as they
  came; else it holds every key that a lane found exactly once, and no other key. Nothing else is added but at most one
  directory listing at the head.\<close>

theorem retrieval_complete:
  assumes "vector_retrieve known k la query hyde = Inr r"
  shows "\<exists>v out. main_embed la query hyde = Inr v \<and> rv_chunks r = listing_of la (plan_of known k query) @ map sr_chunk out
    \<and> (if side_hits known k la query v = [] then out = main_hits known k la query v
       else distinct (map (chunk_key (la_sha1 la)) out)
         \<and> chunk_key (la_sha1 la) ` set out
           = chunk_key (la_sha1 la) ` (set (main_hits known k la query v) \<union> set (side_hits known k la query v)))
    \<and> length (listing_of la (plan_of known k query)) \<le> 1"
proof -
  let ?p = "plan_of known k query"
  obtain v where v: "main_embed la query hyde = Inr v" using assms by (auto simp: vector_retrieve_def Let_def split: sum.splits)
  define ms where "ms = main_hits known k la query v"
  obtain ranked where rk: "ranked_repos ms = Inr ranked"
    using assms v by (auto simp: vector_retrieve_def Let_def ms_def main_hits_def split: sum.splits)
  obtain out where f: "fuse la ms (slug_pool la k (rp_slugs ?p)) (filename_pool la ranked (rp_filenames ?p)) = Inr out"
    "rv_chunks r = listing_of la ?p @ map sr_chunk out"
    using assms v rk by (auto simp: vector_retrieve_def Let_def ms_def main_hits_def split: sum.splits)
  have side: "side_hits known k la query v = slug_pool la k (rp_slugs ?p) @ filename_pool la ranked (rp_filenames ?p)"
    using rk by (simp add: side_hits_def ms_def)
  have len: "length (listing_of la ?p) \<le> 1"
    by (simp add: listing_of_def Let_def split: option.split sum.split)
  have "if side_hits known k la query v = [] then out = ms
    else distinct (map (chunk_key (la_sha1 la)) out)
      \<and> chunk_key (la_sha1 la) ` set out = chunk_key (la_sha1 la) ` (set ms \<union> set (side_hits known k la query v))"
  proof (cases "side_hits known k la query v = []")
    case True
    then show ?thesis using f(1) by (simp add: side fuse_def)
  next
    case False
    then have "slug_pool la k (rp_slugs ?p) @ filename_pool la ranked (rp_filenames ?p) \<noteq> []" by (simp add: side)
    from fuse_complete [OF f(1) this] False show ?thesis by (simp only: side set_append if_False)
  qed
  then show ?thesis unfolding ms_def using v f(2) len by (intro exI [of _ v] exI [of _ out]) simp
qed

definition demo_lanes :: lanes where
  "demo_lanes = \<lparr>la_embed_query = (\<lambda>q. Inr [1]), la_embed_doc = (\<lambda>q. Inr [2]), la_code_query = None,
     la_hybrid = (\<lambda>v q k f c. Inr [plain_hit ''a'' 1, plain_hit ''b'' (1 / 2)]), la_by_text = None, la_by_path = None,
     la_list_files = None, la_sha1 = (\<lambda>s. s)\<rparr>"

theorem retrieval_complete_witness:
  "\<exists>r. vector_retrieve [] 5 demo_lanes ''hi'' None = Inr r
     \<and> rv_chunks r = map sr_chunk [plain_hit ''a'' 1, plain_hit ''b'' (1 / 2)]"
proof -
  have none: "finditer filename_re ''hi'' = []" "finditer dashed_slug_re ''hi'' = []" "is_listing_intent ''hi'' = False" by code_simp+
  let ?p = "plan_of [] 5 ''hi''"
  have p: "rp_slugs ?p = []" "rp_filenames ?p = []" "rp_listing ?p = False"
    by (simp_all add: plan_of_def Let_def extract_service_slugs_def extract_filenames_def none)
  let ?h = "[plain_hit ''a'' 1, plain_hit ''b'' (1 / 2)]"
  have rk: "ranked_repos ?h = Inr []"
    by (simp add: ranked_repos_def context_repo_def plain_hit_def dget_def py_or_def count_repos_def sort_desc_def)
  have lanes: "main_hits [] 5 demo_lanes ''hi'' v = ?h" "side_hits [] 5 demo_lanes ''hi'' v = []" for v
    using rk by (simp_all add: side_hits_def main_hits_def Let_def demo_lanes_def code_embed_def slug_pool_def filename_pool_def p)
  obtain r where "vector_retrieve [] 5 demo_lanes ''hi'' None = Inr r"
    by (simp add: vector_retrieve_def Let_def demo_lanes_def main_embed_def code_embed_def slug_pool_def filename_pool_def p rk fuse_def)
  moreover from retrieval_complete [OF this] obtain out where "rv_chunks r = listing_of demo_lanes ?p @ map sr_chunk out" "out = ?h"
    by (auto simp: lanes)
  ultimately show ?thesis by (simp add: listing_of_def p)
qed

end
