(* ===== verification/Rerank_Grade.thy ===== *)
theory Rerank_Grade
  imports Anchors Chunk_Model Mmr Agent_Graph
begin

text \<open>
  From the merged pool to the graded chunks: the rerank node with its shared pipeline (\<open>agent/nodes/reranker.py\<close>) and the
  grader with its floor (\<open>agent/nodes/grader.py\<close>). The reranker and the judge of a chunk are parameters that may raise.
  The keys of the state that these nodes read and write are a record; a key that may be missing is an option.
\<close>

subsection \<open>The shared pipeline\<close>

definition path_anchor_bonus :: real where "path_anchor_bonus = 15 / 100"

definition token_overlap :: "string set \<Rightarrow> string set \<Rightarrow> real" where
  "token_overlap a b =
     (if a = {} \<and> b = {} then 1 else if a = {} \<or> b = {} then 0 else real (card (a \<inter> b)) / real (card (a \<union> b)))"

text \<open>\<open>near\<close> says that near-duplicates go too; the tokens of what was kept are only collected then.\<close>

fun dedup_from :: "bool \<Rightarrow> real \<Rightarrow> string set \<Rightarrow> string set list \<Rightarrow> chunk list \<Rightarrow> chunk list" where
  "dedup_from near threshold seen kept [] = []"
| "dedup_from near threshold seen kept (c # cs) =
     (if content c \<in> seen then dedup_from near threshold seen kept cs
      else if near \<and> list_ex (\<lambda>t. threshold < token_overlap (mmr_tokens (content c)) t) kept
      then dedup_from near threshold seen kept cs
      else c # dedup_from near threshold (insert (content c) seen)
             (if near then kept @ [mmr_tokens (content c)] else kept) cs)"

definition content_dedup_pool :: "chunk list \<Rightarrow> bool \<Rightarrow> real \<Rightarrow> bool \<Rightarrow> chunk list" where
  "content_dedup_pool chunks dedup threshold skip_near =
     (if \<not> dedup then chunks else dedup_from (0 < threshold \<and> \<not> skip_near) threshold {} [] chunks)"

definition boost :: "string list \<Rightarrow> chunk \<times> real \<Rightarrow> real \<times> real \<times> chunk" where
  "boost anchors = (\<lambda>(c, base).
     (if path_matches_any_anchor (source_path c) (repo c) anchors then min 1 (base + path_anchor_bonus) else base, base, c))"

definition best_base :: "(real \<times> real \<times> chunk) list \<Rightarrow> real" where
  "best_base xs = (case map (fst \<circ> snd) xs of [] \<Rightarrow> 0 | b # bs \<Rightarrow> fold max bs b)"

definition about_anchor :: "string list \<Rightarrow> chunk \<Rightarrow> bool" where
  "about_anchor anchors c = path_matches_any_anchor (source_path c) (repo c) anchors"

text \<open>The chunks that are kept, the best score before the bonus, and whether a kept chunk is about an anchor.\<close>

definition apply_rerank_enrichments ::
  "chunk list \<Rightarrow> (chunk list \<Rightarrow> (chunk \<times> real) list result) \<Rightarrow> string list \<Rightarrow> int \<Rightarrow> real \<Rightarrow> bool \<Rightarrow> real \<Rightarrow> bool
    \<Rightarrow> (chunk list \<times> real \<times> bool) result" where
  "apply_rerank_enrichments pool rerank anchors top_k diversity dedup threshold skip_near =
     (if pool = [] then Inr ([], 0, False)
      else case rerank (content_dedup_pool pool dedup threshold skip_near) of
        Inl e \<Rightarrow> Inl e
      | Inr reranked \<Rightarrow>
          (let boosted = sort_desc fst (map (boost anchors) reranked);
               kept = (if 0 < diversity \<and> 1 < length boosted
                 then map_sum id (map (snd \<circ> snd))
                   (mmr_reorder boosted (map (Fin \<circ> fst) boosted) (Some diversity) (\<lambda>t. content (snd (snd t)))
                     jaccard_similarity (Some top_k))
                 else Inr (map (snd \<circ> snd) (slice_to top_k boosted)))
           in map_sum id (\<lambda>cs. (cs, best_base boosted, list_ex (about_anchor anchors) cs)) kept))"

subsection \<open>The nodes\<close>

record rerank_state =
  rs_query :: string
  rs_merged :: "chunk list"
  rs_retrieved :: "chunk list"
  rs_min_score :: "real option"
  rs_trust :: "real option"
  rs_listing :: bool
  rs_plural :: bool
  rs_synthesis :: bool
  rs_dedup :: "bool option"
  rs_dedup_threshold :: "real option"
  rs_diversity :: "real option"
  rs_best :: real
  rs_anchors :: "string list"
  rs_matched :: bool
  rs_outage :: bool
  rs_graded :: "chunk list"
  rs_retries :: int
  rs_max_retries :: "int option"
  rs_sub_queries :: "string list"
  rs_top_k :: "int option"

record reranker =
  rk_score :: "string \<Rightarrow> chunk list \<Rightarrow> (chunk \<times> real) list result"
  rk_floor :: "real option"
  rk_trust :: "real option"

record rerank_settings =
  rn_top_k :: int
  rn_diversity :: real
  rn_dedup :: bool
  rn_dedup_threshold :: real

definition default_trust_rerank_score :: real where "default_trust_rerank_score = 65 / 100"

definition candidates :: "rerank_state \<Rightarrow> chunk list" where
  "candidates s = (if rs_merged s \<noteq> [] then rs_merged s else rs_retrieved s)"

text \<open>A reranker that fails gives every chunk the middle between the two floors; the flag tells it.\<close>

definition guarded :: "reranker \<Rightarrow> string \<Rightarrow> real \<Rightarrow> chunk list \<Rightarrow> (chunk \<times> real) list \<times> bool" where
  "guarded rk q neutral cs = (case rk_score rk q cs of Inr rs \<Rightarrow> (rs, False) | Inl e \<Rightarrow> (map (\<lambda>c. (c, neutral)) cs, True))"

definition rerank_node :: "rerank_settings \<Rightarrow> reranker \<Rightarrow> rerank_state \<Rightarrow> rerank_state result" where
  "rerank_node cfg rk s =
     (let chunks = candidates s;
          floor = (case rs_min_score s of Some x \<Rightarrow> x | None \<Rightarrow> get_or (rk_floor rk) default_min_rerank_score);
          trust = get_or (rk_trust rk) default_trust_rerank_score;
          s0 = s\<lparr>rs_min_score := Some floor, rs_trust := Some trust\<rparr>
      in if chunks = [] then Inr (s0\<lparr>rs_merged := [], rs_best := 0, rs_anchors := [], rs_matched := False\<rparr>)
         else (let anchors = extract_anchors (rs_query s) in
           if rs_listing s \<or> rs_plural s
           then (let kept = take 30 chunks in
             Inr (s0\<lparr>rs_merged := kept, rs_best := 1, rs_anchors := anchors, rs_matched := list_ex (about_anchor anchors) kept\<rparr>))
           else (let k = (if rs_synthesis s then max (rn_top_k cfg) 10 else rn_top_k cfg);
                     dedup = get_or (rs_dedup s) (rn_dedup cfg);
                     threshold = get_or (rs_dedup_threshold s) (rn_dedup_threshold cfg);
                     diversity = get_or (rs_diversity s) (rn_diversity cfg);
                     neutral = (floor + trust) / 2;
                     outage = snd (guarded rk (rs_query s) neutral (content_dedup_pool chunks dedup threshold (rs_synthesis s)))
                 in case apply_rerank_enrichments chunks (\<lambda>cs. Inr (fst (guarded rk (rs_query s) neutral cs))) anchors k
                      diversity dedup threshold (rs_synthesis s) of
                      Inl e \<Rightarrow> Inl e
                    | Inr (kept, best, matched) \<Rightarrow>
                        Inr (s0\<lparr>rs_merged := kept, rs_best := best, rs_anchors := anchors, rs_matched := matched,
                               rs_outage := outage\<rparr>))))"

text \<open>The judge of a chunk; an error keeps it.\<close>

definition grade_one :: "(string \<Rightarrow> chunk \<Rightarrow> bool result) \<Rightarrow> string \<Rightarrow> chunk \<Rightarrow> bool" where
  "grade_one judge q c = (case judge q c of Inr b \<Rightarrow> b | Inl e \<Rightarrow> True)"

definition grade_node :: "int \<Rightarrow> (string \<Rightarrow> chunk \<Rightarrow> bool result) \<Rightarrow> rerank_state \<Rightarrow> rerank_state" where
  "grade_node min_relevant judge s =
     (let cs = candidates s in
      if cs = [] then s\<lparr>rs_graded := []\<rparr>
      else (let kept = filter (grade_one judge (rs_query s)) cs in
        if kept = [] \<and> 0 < min_relevant
           \<and> (get_or (rs_trust s) default_trust_rerank_score \<le> rs_best s \<or> get_or (rs_max_retries s) 3 \<le> rs_retries s)
        then (let budget = (case rs_top_k s of None \<Rightarrow> 5 | Some k \<Rightarrow> if k = 0 then 5 else k);
                  n = min (max min_relevant (max (int (length (rs_anchors s))) (int (length (rs_sub_queries s))))) budget
              in s\<lparr>rs_graded := slice_to n cs\<rparr>)
        else s\<lparr>rs_graded := kept\<rparr>))"

text \<open>What the conditional edges read.\<close>

definition route_of :: "rerank_state \<Rightarrow> route_state \<Rightarrow> route_state" where
  "route_of s r = r\<lparr>graded := rs_graded s \<noteq> [], retry_count := rs_retries s, max_retries := rs_max_retries s,
     min_rerank_score := rs_min_score s, best_rerank_score := rs_best s, anchors_named := rs_anchors s \<noteq> [],
     anchors_matched := rs_matched s, kept_any := rs_merged s \<noteq> []\<rparr>"

subsection \<open>Facts\<close>

lemma dedup_exact:
  "subseq (dedup_from False t seen kept cs) cs \<and> distinct (map content (dedup_from False t seen kept cs))
   \<and> content ` set (dedup_from False t seen kept cs) = content ` set cs - seen"
proof (induction cs arbitrary: seen kept)
  case (Cons c cs)
  show ?case using Cons.IH [of seen kept] Cons.IH [of "insert (content c) seen" kept] by auto
qed simp

lemma token_overlap_sym: "token_overlap a b = token_overlap b a"
  by (simp add: token_overlap_def Int_commute Un_commute conj_commute disj_commute)

lemma dedup_near:
  "sorted_wrt (\<lambda>x y. token_overlap (mmr_tokens (content x)) (mmr_tokens (content y)) \<le> t) (dedup_from True t seen kept cs)
   \<and> (\<forall>x \<in> set (dedup_from True t seen kept cs). \<forall>k \<in> set kept. token_overlap (mmr_tokens (content x)) k \<le> t)
   \<and> distinct (map content (dedup_from True t seen kept cs)) \<and> content ` set (dedup_from True t seen kept cs) \<inter> seen = {}
   \<and> subseq (dedup_from True t seen kept cs) cs"
proof (induction cs arbitrary: seen kept)
  case (Cons c cs)
  show ?case
    using Cons.IH [of seen kept] Cons.IH [of "insert (content c) seen" "kept @ [mmr_tokens (content c)]"]
    by (auto simp: list_ex_iff token_overlap_sym not_less)
qed simp

text \<open>The deduplication keeps the order, keeps no text twice, and without the near-duplicate pass loses no text; with it
  no two chunks that are kept overlap by more than the threshold.\<close>

theorem content_dedup_correct:
  "subseq (content_dedup_pool chunks d t skip) chunks
   \<and> (if d then distinct (map content (content_dedup_pool chunks d t skip)) else content_dedup_pool chunks d t skip = chunks)
   \<and> (if d \<and> 0 < t \<and> \<not> skip
      then sorted_wrt (\<lambda>x y. token_overlap (mmr_tokens (content x)) (mmr_tokens (content y)) \<le> t) (content_dedup_pool chunks d t skip)
      else content ` set (content_dedup_pool chunks d t skip) = content ` set chunks)"
  using dedup_exact [of t "{}" "[]" chunks] dedup_near [of t "{}" "[]" chunks]
  by (cases d; cases "0 < t \<and> \<not> skip") (auto simp: content_dedup_pool_def)

lemma boosted_close:
  assumes "snd y \<le> 1" "fst (boost anchors y) \<le> fst (boost anchors x)"
  shows "snd y \<le> snd x + path_anchor_bonus"
  using assms by (auto simp: boost_def path_anchor_bonus_def case_prod_beta split: if_splits)

lemma insort_map: "insort_key f (g x) (map g ys) = map g (insort_key (\<lambda>x. f (g x)) x ys)"
  by (induction ys) auto

lemma sort_desc_map: "sort_desc f (map g xs) = map g (sort_desc (\<lambda>x. f (g x)) xs)"
  by (induction xs) (simp_all add: sort_desc_def insort_map)

text \<open>Without diversity the chunks come in an order in which the anchor bonus has only overturned close calls: a chunk is
  placed before another only if its own score is at most the bonus below, and what is cut off is at most the bonus above.\<close>

theorem anchor_bonus_close_calls:
  assumes "pool \<noteq> []" "rerank (content_dedup_pool pool d t skip) = Inr reranked" "\<And>c b. (c, b) \<in> set reranked \<Longrightarrow> b \<le> 1"
    and "0 \<le> top_k"
  shows "\<exists>ranked best. apply_rerank_enrichments pool rerank anchors top_k 0 d t skip
       = Inr (take (nat top_k) (map fst ranked), best, list_ex (about_anchor anchors) (take (nat top_k) (map fst ranked)))
     \<and> mset ranked = mset reranked \<and> sorted_wrt (\<lambda>x y. snd y \<le> snd x + path_anchor_bonus) ranked"
proof -
  define ranked where "ranked = sort_desc (\<lambda>x. fst (boost anchors x)) reranked"
  have boosted: "sort_desc fst (map (boost anchors) reranked) = map (boost anchors) ranked"
    unfolding ranked_def by (rule sort_desc_map)
  have "snd (snd (boost anchors x)) = fst x" for x by (simp add: boost_def case_prod_beta)
  then have kept: "map (snd \<circ> snd) (take (nat top_k) (map (boost anchors) ranked)) = take (nat top_k) (map fst ranked)"
    by (simp add: take_map comp_def)
  have "sorted_wrt (\<lambda>x y. fst (boost anchors y) \<le> fst (boost anchors x)) ranked"
    using sorted_sort_desc [of "\<lambda>x. fst (boost anchors x)" reranked] by (simp add: ranked_def sorted_wrt_map)
  moreover have "\<And>x. x \<in> set ranked \<Longrightarrow> snd x \<le> 1" using assms(3) by (force simp: ranked_def)
  ultimately have "sorted_wrt (\<lambda>x y. snd y \<le> snd x + path_anchor_bonus) ranked"
    using boosted_close by (rule_tac sorted_wrt_mono_rel) auto
  moreover have "mset ranked = mset reranked" by (simp add: ranked_def)
  moreover have "apply_rerank_enrichments pool rerank anchors top_k 0 d t skip
       = Inr (take (nat top_k) (map fst ranked), best_base (map (boost anchors) ranked),
              list_ex (about_anchor anchors) (take (nat top_k) (map fst ranked)))"
    using assms(1,2,4) by (simp add: apply_rerank_enrichments_def Let_def boosted kept)
  ultimately show ?thesis by blast
qed

lemma anchor_bonus_bounds: "fst (snd (boost anchors x)) = snd x \<and> snd (snd (boost anchors x)) = fst x"
  by (simp add: boost_def case_prod_beta)

text \<open>With scores above 1 the cap turns the bonus into a malus.\<close>

lemma anchor_bonus_demotes: "fst (boost [''a''] (plain\<lparr>source_path := ''a''\<rparr>, 3)) < fst (boost [] (plain, 3))"
proof -
  have "path_matches_any_anchor ''a'' (repo plain) [''a'']"
    by (simp add: path_matches_any_anchor_def py_in_iff py_lower_def py_lower_char_def sublist_def)
      (metis append_Cons append_Nil)
  then show ?thesis by (simp add: boost_def path_anchor_bonus_def path_matches_any_anchor_def)
qed

lemma fold_max_const: "(\<And>x. x \<in> set bs \<Longrightarrow> x = b) \<Longrightarrow> fold max bs b = (b :: real)"
  by (induction bs) (simp, metis fold_simps(2) list.set_intros(1,2) max.idem)

lemma best_base_const:
  assumes "xs \<noteq> []" "\<And>x. x \<in> set xs \<Longrightarrow> fst (snd x) = n"
  shows "best_base xs = n"
proof (cases xs)
  case (Cons x ys)
  have "fold max (map (fst \<circ> snd) ys) n = n" using assms(2) Cons by (intro fold_max_const) auto
  then show ?thesis using assms(2) Cons by (simp add: best_base_def)
qed (use assms(1) in simp)

lemma dedup_nonempty: "chunks \<noteq> [] \<Longrightarrow> content_dedup_pool chunks d t skip \<noteq> []"
  by (cases chunks) (auto simp: content_dedup_pool_def)

text \<open>The pipeline never returns nothing for a pool.\<close>

lemma enrichments_keep_some:
  assumes "pool \<noteq> []" "rerank (content_dedup_pool pool d t skip) = Inr reranked" "reranked \<noteq> []" "1 \<le> top_k"
  shows "\<exists>kept matched. apply_rerank_enrichments pool rerank anchors top_k dv d t skip
      = Inr (kept, best_base (sort_desc fst (map (boost anchors) reranked)), matched) \<and> kept \<noteq> []"
proof -
  define boosted where "boosted = sort_desc fst (map (boost anchors) reranked)"
  have n: "0 < length boosted" using assms(3) by (simp add: boosted_def)
  show ?thesis
  proof (cases "0 < dv \<and> 1 < length boosted")
    case True
    then have en: "mmr_enabled (length boosted) (Some dv)" by (simp add: mmr_enabled_def)
    obtain out where out: "mmr_reorder boosted (map (Fin \<circ> fst) boosted) (Some dv) (\<lambda>t. content (snd (snd t))) jaccard_similarity
        (Some top_k) = Inr out"
      using en by (auto simp: mmr_reorder_def Let_def)
    have "int (length out) = max 1 (mmr_limit (length boosted) (Some top_k))"
      using mmr_length [OF _ out] en by simp
    then have "out \<noteq> []" by auto
    then show ?thesis
      using assms(1,2) True out by (simp add: apply_rerank_enrichments_def boosted_def [symmetric] Let_def)
  next
    case False
    then show ?thesis
      using assms(1,2,4) n by (auto simp: apply_rerank_enrichments_def boosted_def [symmetric] Let_def)
  qed
qed

text \<open>C8: A reranker that fails neither makes the agent refuse nor makes the grader trust the order: the score it stands for
  is strictly between the two floors, so the answer goes on, and if the judge rejects everything the query is rewritten.\<close>

theorem outage_decouples:
  assumes "candidates s \<noteq> []" "\<not> rs_listing s" "\<not> rs_plural s" "1 \<le> rn_top_k cfg"
    and "\<And>cs. rk_score rk (rs_query s) cs = Inl (err cs)"
    and "rs_min_score s' = Some lo" "rs_trust s' = Some hi" "lo < hi"
    and "\<And>c. judge (rs_query s) c = Inr False" "rs_retries s < get_or (rs_max_retries s) 3"
    and "rerank_node cfg rk s = Inr s'"
  shows "rs_outage s' \<and> lo < rs_best s' \<and> rs_best s' < hi \<and> rerank_decision (route_of s' r) = ''ok''
     \<and> grade_decision (route_of (grade_node m judge s') r) = ''needs_rewrite''"
proof -
  define fl where "fl = (case rs_min_score s of Some x \<Rightarrow> x | None \<Rightarrow> get_or (rk_floor rk) default_min_rerank_score)"
  define tr where "tr = get_or (rk_trust rk) default_trust_rerank_score"
  define k where "k = (if rs_synthesis s then max (rn_top_k cfg) 10 else rn_top_k cfg)"
  define d where "d = get_or (rs_dedup s) (rn_dedup cfg)"
  define t where "t = get_or (rs_dedup_threshold s) (rn_dedup_threshold cfg)"
  define dv where "dv = get_or (rs_diversity s) (rn_diversity cfg)"
  define n where "n = (fl + tr) / 2"
  define pool where "pool = content_dedup_pool (candidates s) d t (rs_synthesis s)"
  have g: "guarded rk (rs_query s) n cs = (map (\<lambda>c. (c, n)) cs, True)" for cs using assms(5) by (simp add: guarded_def)
  have k: "1 \<le> k" using assms(4) by (auto simp: k_def max_def)
  have "pool \<noteq> []" unfolding pool_def by (rule dedup_nonempty [OF assms(1)])
  then obtain kept matched where kept: "apply_rerank_enrichments (candidates s) (\<lambda>cs. Inr (fst (guarded rk (rs_query s) n cs)))
        (extract_anchors (rs_query s)) k dv d t (rs_synthesis s)
      = Inr (kept, best_base (sort_desc fst (map (boost (extract_anchors (rs_query s))) (map (\<lambda>c. (c, n)) pool))), matched)" "kept \<noteq> []"
    using enrichments_keep_some [OF assms(1), where rerank = "\<lambda>cs. Inr (fst (guarded rk (rs_query s) n cs))"
        and reranked = "map (\<lambda>c. (c, n)) pool" and top_k = k and d = d and t = t and skip = "rs_synthesis s" and dv = dv]
      k by (fastforce simp: g pool_def)
  have best: "best_base (sort_desc fst (map (boost (extract_anchors (rs_query s))) (map (\<lambda>c. (c, n)) pool))) = n"
    using \<open>pool \<noteq> []\<close> by (intro best_base_const) (auto simp: anchor_bonus_bounds dest: arg_cong [of _ _ length])
  have s': "s' = s\<lparr>rs_min_score := Some fl, rs_trust := Some tr, rs_merged := kept, rs_best := n,
      rs_anchors := extract_anchors (rs_query s), rs_matched := matched, rs_outage := True\<rparr>"
    using assms(1-3,11) kept(1) best unfolding rerank_node_def Let_def fl_def [symmetric] tr_def [symmetric] k_def [symmetric]
      d_def [symmetric] t_def [symmetric] dv_def [symmetric] n_def [symmetric] by (simp add: g)
  then have "fl < n \<and> n < tr" using assms(6-8) by (simp add: n_def)
  moreover have "candidates s' \<noteq> [] \<and> filter (grade_one judge (rs_query s')) (candidates s') = []"
    using kept(2) assms(9) by (auto simp: s' candidates_def grade_one_def)
  ultimately show ?thesis
    using s' kept(2) assms(6-8,10)
    by (simp add: rerank_decision_def route_of_def grade_decision_def grade_node_def Let_def get_or_def)
qed

text \<open>The node never raises.\<close>

lemma rerank_node_returns:
  "\<exists>s'. rerank_node cfg rk s = Inr s'
     \<and> rs_min_score s' = Some (case rs_min_score s of Some x \<Rightarrow> x | None \<Rightarrow> get_or (rk_floor rk) default_min_rerank_score)
     \<and> rs_trust s' = Some (get_or (rk_trust rk) default_trust_rerank_score)"
proof -
  have no: "apply_rerank_enrichments pool (\<lambda>cs. Inr (g cs)) anchors k dv d t skip = Inl e \<longleftrightarrow> False" for pool g anchors k dv d t skip e
    by (auto simp: apply_rerank_enrichments_def Let_def mmr_reorder_def)
  show ?thesis by (auto simp: rerank_node_def Let_def no split: sum.split)
qed

definition plain_state :: rerank_state where
  "plain_state = \<lparr>rs_query = ''a'', rs_merged = [sr_chunk (plain_hit ''x'' 1)], rs_retrieved = [], rs_min_score = None, rs_trust = None,
     rs_listing = False, rs_plural = False, rs_synthesis = False, rs_dedup = None, rs_dedup_threshold = None, rs_diversity = None,
     rs_best = 0, rs_anchors = [], rs_matched = False, rs_outage = False, rs_graded = [], rs_retries = 0, rs_max_retries = None,
     rs_sub_queries = [], rs_top_k = None\<rparr>"

theorem outage_decouples_witness:
  "\<exists>s'. rerank_node \<lparr>rn_top_k = 5, rn_diversity = 0, rn_dedup = True, rn_dedup_threshold = 0\<rparr>
       \<lparr>rk_score = (\<lambda>q cs. Inl IndexError), rk_floor = None, rk_trust = None\<rparr> plain_state = Inr s' \<and> rs_outage s' \<and> 5 / 100 < rs_best s'"
proof -
  let ?cfg = "\<lparr>rn_top_k = 5, rn_diversity = 0, rn_dedup = True, rn_dedup_threshold = 0\<rparr>"
  let ?rk = "\<lparr>rk_score = (\<lambda>q cs. Inl IndexError), rk_floor = None, rk_trust = None\<rparr>"
  obtain s' where s': "rerank_node ?cfg ?rk plain_state = Inr s'" "rs_min_score s' = Some (5 / 100)" "rs_trust s' = Some (65 / 100)"
    using rerank_node_returns [of ?cfg ?rk plain_state]
    by (auto simp: plain_state_def get_or_def default_min_rerank_score_def default_trust_rerank_score_def)
  have "rs_outage s' \<and> 5 / 100 < rs_best s'"
    using outage_decouples [of plain_state ?cfg ?rk "\<lambda>cs. IndexError" s' "5 / 100" "65 / 100" "\<lambda>q c. Inr False", OF _ _ _ _ _ s'(2,3) _ _ _ s'(1)]
    by (simp add: plain_state_def candidates_def get_or_def)
  then show ?thesis using s'(1) by blast
qed

text \<open>When the retries are spent the grader keeps a chunk even if the judge rejected all, so with candidates the graph never
  takes the branch to the honest refusal after grading; it can only be refused by the rerank gate.\<close>

theorem grader_never_refuses:
  assumes "candidates s \<noteq> []" "1 \<le> m" "1 \<le> get_or (rs_top_k s) 5"
  shows "grade_decision (route_of (grade_node m judge s) r) \<noteq> ''insufficient_info''"
proof -
  have "rs_graded (grade_node m judge s) \<noteq> []" if "get_or (rs_max_retries s) 3 \<le> rs_retries s"
    using that assms by (auto simp: grade_node_def Let_def get_or_def split: option.splits)
  moreover have "rs_max_retries (grade_node m judge s) = rs_max_retries s" "rs_retries (grade_node m judge s) = rs_retries s"
    by (simp_all add: grade_node_def Let_def)
  ultimately show ?thesis by (auto simp: grade_decision_def route_of_def)
qed

theorem grader_never_refuses_witness:
  "\<forall>r. grade_decision (route_of (grade_node 1 (\<lambda>q c. Inr False) (plain_state\<lparr>rs_retries := 3\<rparr>)) r) \<noteq> ''insufficient_info''"
proof
  fix r
  show "grade_decision (route_of (grade_node 1 (\<lambda>q c. Inr False) (plain_state\<lparr>rs_retries := 3\<rparr>)) r) \<noteq> ''insufficient_info''"
    by (rule grader_never_refuses) (simp_all add: plain_state_def candidates_def get_or_def)
qed

theorem anchor_bonus_close_calls_witness:
  "\<exists>out. apply_rerank_enrichments [sr_chunk (plain_hit ''x'' 1)] (\<lambda>cs. Inr (map (\<lambda>c. (c, 1)) cs)) [] 3 0 False 0 False = Inr out"
  using anchor_bonus_close_calls [of "[sr_chunk (plain_hit ''x'' 1)]" "\<lambda>cs. Inr (map (\<lambda>c. (c, 1)) cs)" False 0 False
      "[(sr_chunk (plain_hit ''x'' 1), 1)]" 3 "[]"] by (auto simp: content_dedup_pool_def)

end
