(* ===== verification/Retrieval_Flow.thy ===== *)
theory Retrieval_Flow
  imports Retriever Rerank_Grade
begin

text \<open>
  From the retriever through the rerank node to its conditional edge: what a pass over a store that does not answer comes
  to.
\<close>

text \<open>What the node writes into the state: the merged results of the last pass go.\<close>

definition retrieved :: "retrieval \<Rightarrow> rerank_state \<Rightarrow> rerank_state" where
  "retrieved r s = s\<lparr>rs_retrieved := rv_chunks r, rs_merged := [], rs_plural := rp_plural (rv_plan r),
     rs_listing := rp_listing (rv_plan r), rs_synthesis := rp_synthesis (rv_plan r)\<rparr>"


text \<open>After a rewrite of the question the next nodes see the new hits, not those of the pass before.\<close>

lemma rewrite_sees_new_hits: "candidates (retrieved r s) = rv_chunks r"
  by (simp add: candidates_def retrieved_def)

text \<open>A store whose every call raises.\<close>

definition dead_store :: "lanes \<Rightarrow> bool" where
  "dead_store la \<longleftrightarrow> (\<forall>v q k f c. \<not> is_ok (la_hybrid la v q k f c))
     \<and> pred_option (\<lambda>g. \<forall>s k. \<not> is_ok (g s k)) (la_by_text la)
     \<and> pred_option (\<lambda>g. \<forall>s k r. \<not> is_ok (g s k r)) (la_by_path la)
     \<and> pred_option (\<lambda>g. \<forall>r p n. \<not> is_ok (g r p n)) (la_list_files la)"

lemma hits_dead: "\<not> is_ok x \<Longrightarrow> hits x = []"
  by (cases x) simp_all

lemma dead_store_finds_nothing:
  assumes "dead_store la" "main_embed la query hyde = Inr v"
  shows "\<exists>r. vector_retrieve known k la query hyde = Inr r \<and> rv_chunks r = []"
proof -
  let ?p = "plan_of known k query"
  have m: "hits (la_hybrid la v query (rp_top_k ?p) f c) = []" for f c
    using assms(1) by (intro hits_dead) (simp add: dead_store_def)
  have s: "slug_pool la k ss = []" for ss
    using assms(1) by (auto simp: slug_pool_def dead_store_def hits_dead split: option.split)
  have f: "filename_pool la rs fs = []" for rs fs
    using assms(1) by (auto simp: filename_pool_def dead_store_def hits_dead split: option.split)
  have l: "listing_of la ?p = []"
  proof (cases "la_list_files la")
    case (Some g)
    then have "\<not> is_ok (g (rp_repo ?p) (rp_path ?p) list_limit)" using assms(1) by (simp add: dead_store_def)
    then obtain e where "g (rp_repo ?p) (rp_path ?p) list_limit = Inl e" by (cases "g (rp_repo ?p) (rp_path ?p) list_limit") simp_all
    then show ?thesis using Some by (simp add: listing_of_def Let_def)
  qed (simp add: listing_of_def Let_def)
  have "ranked_repos [] = Inr []" by (simp add: ranked_repos_def count_repos_def sort_desc_def)
  then show ?thesis by (simp add: vector_retrieve_def Let_def assms(2) m s f l fuse_def)
qed

text \<open>C13: When the store does not answer at all, the question ends on the edge for a question that the corpus cannot answer: the
  user is told that there is no information, not that the search failed.\<close>

theorem store_outage_reads_as_no_information:
  assumes "dead_store la" "main_embed la query hyde = Inr v"
  shows "\<exists>r s'. vector_retrieve known k la query hyde = Inr r \<and> rerank_node cfg rk (retrieved r s) = Inr s'
    \<and> rerank_decision (route_of s' x) = ''weak_retrieval''"
proof -
  obtain r where r: "vector_retrieve known k la query hyde = Inr r" "rv_chunks r = []"
    using dead_store_finds_nothing [OF assms] by blast
  then have "candidates (retrieved r s) = []" by (simp add: rewrite_sees_new_hits)
  then show ?thesis using r(1) by (simp add: rerank_node_def Let_def rerank_decision_def route_of_def)
qed

theorem store_outage_reads_as_no_information_witness:
  "\<exists>la r s' x. vector_retrieve [] 5 la ''hi'' None = Inr r
     \<and> rerank_node \<lparr>rn_top_k = 5, rn_diversity = 0, rn_dedup = True, rn_dedup_threshold = 0\<rparr>
         \<lparr>rk_score = (\<lambda>q cs. Inl IndexError), rk_floor = None, rk_trust = None\<rparr> (retrieved r plain_state) = Inr s'
     \<and> rerank_decision (route_of s' x) = ''weak_retrieval''"
proof -
  let ?la = "demo_lanes\<lparr>la_hybrid := (\<lambda>v q k f c. Inl IndexError)\<rparr>"
  have "dead_store ?la" "main_embed ?la ''hi'' None = Inr [1]" by (simp_all add: dead_store_def demo_lanes_def main_embed_def)
  from store_outage_reads_as_no_information [OF this] show ?thesis by blast
qed

end
