(* ===== verification/Admin_Users.thy ===== *)
theory Admin_Users
  imports Login Connector_Perms
begin

text \<open>
  User management (\<open>api/routes_admin_users.py\<close>): the catalogs, the list of users, and the two handlers that replace a
  user's roles and connector overrides. The guard is that of \<open>Authz\<close>, the store that of \<open>User_Store\<close>; whether the
  revocation of the sessions raises is an argument. The descriptions of the roles are left out.
\<close>

subsection \<open>Requests and answers\<close>

datatype admin_error = Guarded py_error | Refused nat string

type_synonym 'a admin_result = "admin_error + 'a"

record admin_user =
  ad_id :: string
  ad_email :: string
  ad_name :: "string option"
  ad_roles :: "string list"
  ad_scopes :: "string list"
  ad_allow :: "string list"
  ad_deny :: "string list"
  ad_effective :: "string list"
  ad_has_password :: bool
  ad_email_verified :: bool
  ad_created_at :: "real option"
  ad_updated_at :: "real option"

definition role_labels :: "(string \<times> string) list" where
  "role_labels =
     [(''admin'', ''Admin''), (''member_investigate'', ''Investigate''), (''member_chat'', ''Chat''), (''member_mcp'', ''MCP'')]"

text \<open>What a request brings: the guard's answer for the scope \<open>admin\<close>, and the store and the configuration of the
  application.\<close>

record admin_request =
  aq_user :: "current_user result"
  aq_store :: "user_store option"
  aq_config :: "conn_config option"
  aq_defaults :: "string set"
  aq_now :: real
  aq_revoke_raises :: bool

definition request_of ::
  "(json \<Rightarrow> string) \<Rightarrow> string set \<Rightarrow> auth_request \<Rightarrow> user_store option \<Rightarrow> conn_config option \<Rightarrow> real \<Rightarrow> bool \<Rightarrow> admin_request" where
  "request_of other defaults rq st cfg now raises =
     \<lparr>aq_user = require_scope other defaults scope_admin rq, aq_store = st, aq_config = cfg, aq_defaults = defaults,
      aq_now = now, aq_revoke_raises = raises\<rparr>"

definition no_store :: admin_error where
  "no_store = Refused 503 ''user management requires login mode (no auth user store wired)''"

subsection \<open>The views\<close>

definition connector_config :: "conn_config option \<Rightarrow> string list \<times> string list \<times> (string, string list) dict" where
  "connector_config config =
     (case config of None \<Rightarrow> ([], [], [])
      | Some cfg \<Rightarrow>
          (let on = filter (\<lambda>(name, b). blk_enabled b) (cfg_mcp cfg)
           in (map fst on, map fst (filter (\<lambda>(name, b). blk_restricted b) on),
               case cfg_role_connectors cfg of None \<Rightarrow> [] | Some m \<Rightarrow> m)))"

definition to_admin_user :: "string set \<Rightarrow> conn_config option \<Rightarrow> auth_user \<Rightarrow> admin_user" where
  "to_admin_user defaults config u =
     (case connector_config config of (enabled, restricted, role_connectors) \<Rightarrow>
       (let rs = (if au_roles u \<noteq> [] then au_roles u else sorted_list_of_set (resolve_roles defaults [] None False));
            effective = resolve_allowed_connectors (set rs) (Some role_connectors) restricted enabled
              (au_connectors_allow u) (au_connectors_deny u)
        in \<lparr>ad_id = au_id u, ad_email = au_email u, ad_name = au_name u, ad_roles = rs,
            ad_scopes = sorted_list_of_set (scopes_for_roles (set rs)),
            ad_allow = au_connectors_allow u, ad_deny = au_connectors_deny u, ad_effective = sorted_list_of_set effective,
            ad_has_password = (case au_password_hash u of None \<Rightarrow> False | Some h \<Rightarrow> h \<noteq> []),
            ad_email_verified = au_email_verified u, ad_created_at = au_created_at u, ad_updated_at = au_updated_at u\<rparr>))"

definition list_roles :: "admin_request \<Rightarrow> (string \<times> string \<times> string list) list admin_result" where
  "list_roles q =
     (case aq_user q of Inl e \<Rightarrow> Inl (Guarded e)
      | Inr u \<Rightarrow> Inr (map (\<lambda>(r, label). (r, label, sort (dget [] r role_scopes))) role_labels))"

definition list_users_view :: "admin_request \<Rightarrow> int \<Rightarrow> admin_user list admin_result" where
  "list_users_view q limit =
     (case aq_user q of Inl e \<Rightarrow> Inl (Guarded e)
      | Inr u \<Rightarrow> (case aq_store q of None \<Rightarrow> Inl no_store
          | Some st \<Rightarrow> Inr (map (to_admin_user (aq_defaults q) (aq_config q)) (list_users st limit))))"

definition list_connectors :: "admin_request \<Rightarrow> (string, string) dict \<Rightarrow> (string \<times> string \<times> bool) list admin_result" where
  "list_connectors q display =
     (case aq_user q of Inl e \<Rightarrow> Inl (Guarded e)
      | Inr u \<Rightarrow> (case connector_config (aq_config q) of (enabled, restricted, rc) \<Rightarrow>
          Inr (map (\<lambda>c. (c, dget c c display, c \<in> set restricted)) (sort enabled))))"

subsection \<open>The changes\<close>

definition revoke_quietly :: "admin_request \<Rightarrow> user_store \<Rightarrow> string \<Rightarrow> user_store" where
  "revoke_quietly q st uid = (if aq_revoke_raises q then st else revoke_all_for_user st uid (aq_now q))"

text \<open>The user of the answer: as stored now, or else as it was found.\<close>

definition changed_view :: "admin_request \<Rightarrow> user_store \<Rightarrow> string \<Rightarrow> auth_user \<Rightarrow> admin_user" where
  "changed_view q st uid target =
     to_admin_user (aq_defaults q) (aq_config q) (case get_user_by_id st uid of Some u \<Rightarrow> u | None \<Rightarrow> target)"

definition set_user_roles :: "admin_request \<Rightarrow> string \<Rightarrow> string list \<Rightarrow> user_store option \<times> admin_user admin_result" where
  "set_user_roles q uid body =
     (case aq_user q of
        Inl e \<Rightarrow> (aq_store q, Inl (Guarded e))
      | Inr me \<Rightarrow>
          (case aq_store q of
             None \<Rightarrow> (None, Inl no_store)
           | Some st \<Rightarrow>
               (let requested = unique_in_order body;
                    unknown = filter (\<lambda>r. map_of role_scopes r = None) requested
                in if unknown \<noteq> [] then (Some st, Inl (Refused 400 (''unknown role(s): '' @ join '', '' unknown)))
                   else case get_user_by_id st uid of
                     None \<Rightarrow> (Some st, Inl (Refused 404 ''user not found''))
                   | Some target \<Rightarrow>
                       if sub me = Some uid \<and> ''admin'' \<notin> set requested
                       then (Some st, Inl (Refused 400 ''you cannot remove your own admin role''))
                       else (let st' = revoke_quietly q (set_roles st uid requested (aq_now q)) uid
                             in (Some st', Inr (changed_view q st' uid target))))))"

definition set_user_connectors ::
  "admin_request \<Rightarrow> string \<Rightarrow> string list \<Rightarrow> string list \<Rightarrow> user_store option \<times> admin_user admin_result" where
  "set_user_connectors q uid body_allow body_deny =
     (case aq_user q of
        Inl e \<Rightarrow> (aq_store q, Inl (Guarded e))
      | Inr me \<Rightarrow>
          (case aq_store q of
             None \<Rightarrow> (None, Inl no_store)
           | Some st \<Rightarrow>
               (let enabled = fst (connector_config (aq_config q));
                    allow = unique_in_order body_allow;
                    deny = unique_in_order body_deny;
                    unknown = filter (\<lambda>c. c \<notin> set enabled) (allow @ deny);
                    both = set allow \<inter> set deny
                in if unknown \<noteq> []
                   then (Some st, Inl (Refused 400 (''unknown/disabled connector(s): '' @ join '', '' (sorted_list_of_set (set unknown)))))
                   else if both \<noteq> {}
                   then (Some st, Inl (Refused 400 (''connector(s) in both allow and deny: '' @ join '', '' (sorted_list_of_set both))))
                   else case get_user_by_id st uid of
                     None \<Rightarrow> (Some st, Inl (Refused 404 ''user not found''))
                   | Some target \<Rightarrow>
                       (let st' = revoke_quietly q (set_connector_overrides st uid allow deny (aq_now q)) uid
                        in (Some st', Inr (changed_view q st' uid target))))))"

subsection \<open>Facts\<close>

lemma user_after_change:
  "get_user_by_id (revoke_quietly q st uid') uid = get_user_by_id st uid"
  "get_user_by_id (set_roles st uid rs now) uid = map_option (\<lambda>u. u\<lparr>au_roles := rs, au_updated_at := Some now\<rparr>) (get_user_by_id st uid)"
  "get_user_by_id (set_connector_overrides st uid allow deny now) uid
     = map_option (\<lambda>u. u\<lparr>au_connectors_allow := allow, au_connectors_deny := deny, au_updated_at := Some now\<rparr>) (get_user_by_id st uid)"
  by (simp_all add: revoke_quietly_def revoke_all_for_user_def get_user_by_id_def set_roles_def set_connector_overrides_def
      replace_user_def split: option.split)

text \<open>What a request that was carried out has done.\<close>

lemma set_user_roles_done:
  assumes "set_user_roles q uid body = (st', Inr view)"
  obtains me st u where "aq_user q = Inr me" "aq_store q = Some st" "get_user_by_id st uid = Some u"
    "\<forall>r \<in> set body. map_of role_scopes r \<noteq> None" "sub me = Some uid \<longrightarrow> ''admin'' \<in> set body"
    "st' = Some (revoke_quietly q (set_roles st uid (unique_in_order body) (aq_now q)) uid)"
    "view = changed_view q (revoke_quietly q (set_roles st uid (unique_in_order body) (aq_now q)) uid) uid u"
proof -
  obtain me st where q: "aq_user q = Inr me" "aq_store q = Some st"
    using assms by (cases "aq_user q"; cases "aq_store q") (auto simp: set_user_roles_def)
  note run = assms [unfolded set_user_roles_def q sum.case option.case Let_def]
  have unknown: "filter (\<lambda>r. map_of role_scopes r = None) (unique_in_order body) = []"
    by (rule ccontr) (use run in simp)
  note run = run [unfolded unknown, simplified]
  obtain u where u: "get_user_by_id st uid = Some u" using run by (cases "get_user_by_id st uid") simp_all
  have self: "\<not> (sub me = Some uid \<and> ''admin'' \<notin> set body)"
    by (rule ccontr) (use run u in simp)
  have "st' = Some (revoke_quietly q (set_roles st uid (unique_in_order body) (aq_now q)) uid)
    \<and> view = changed_view q (revoke_quietly q (set_roles st uid (unique_in_order body) (aq_now q)) uid) uid u"
    using run u self by (auto split: if_splits)
  moreover have "\<forall>r \<in> set body. map_of role_scopes r \<noteq> None" using unknown by (simp add: filter_empty_conv)
  ultimately show ?thesis using u q self that by blast
qed

lemma set_user_connectors_done:
  assumes "set_user_connectors q uid allow deny = (st', Inr view)"
  obtains me st u where "aq_user q = Inr me" "aq_store q = Some st" "get_user_by_id st uid = Some u"
    "set allow \<union> set deny \<subseteq> set (fst (connector_config (aq_config q)))" "set allow \<inter> set deny = {}"
    "st' = Some (revoke_quietly q (set_connector_overrides st uid (unique_in_order allow) (unique_in_order deny) (aq_now q)) uid)"
    "view = changed_view q (revoke_quietly q (set_connector_overrides st uid (unique_in_order allow) (unique_in_order deny) (aq_now q)) uid) uid u"
proof -
  obtain me st where q: "aq_user q = Inr me" "aq_store q = Some st"
    using assms by (cases "aq_user q"; cases "aq_store q") (auto simp: set_user_connectors_def)
  note run = assms [unfolded set_user_connectors_def q sum.case option.case Let_def]
  have unknown: "filter (\<lambda>c. c \<notin> set (fst (connector_config (aq_config q)))) (unique_in_order allow @ unique_in_order deny) = []"
    by (rule ccontr) (use run in \<open>simp del: filter_append\<close>)
  note run = run [unfolded unknown]
  have both: "set (unique_in_order allow) \<inter> set (unique_in_order deny) = {}"
    by (rule ccontr) (use run in \<open>simp only: if_False if_True simp_thms not_Cons_self prod.inject sum.distinct\<close>)
  obtain u where u: "get_user_by_id st uid = Some u"
    using run both by (cases "get_user_by_id st uid") (simp_all del: set_unique_in_order)
  have sub: "set allow \<union> set deny \<subseteq> set (fst (connector_config (aq_config q)))"
    using unknown by (simp only: filter_empty_conv) auto
  have "st' = Some (revoke_quietly q (set_connector_overrides st uid (unique_in_order allow) (unique_in_order deny) (aq_now q)) uid)
    \<and> view = changed_view q (revoke_quietly q (set_connector_overrides st uid (unique_in_order allow) (unique_in_order deny) (aq_now q)) uid) uid u"
    using run by (simp only: both u if_False option.case simp_thms prod.inject sum.inject)
  then show ?thesis using u both sub q that by simp
qed

text \<open>A session is active only while it is not revoked.\<close>

lemma revoked_by_change:
  assumes "get_refresh_session (revoke_all_for_user st uid now) th = Some s" "rs_user_id s = uid"
  shows "rs_revoked_at s \<noteq> None"
proof -
  have "(th, s) \<in> set (us_sessions (revoke_all_for_user st uid now))"
    using assms(1) by (intro map_of_SomeD) (simp add: get_refresh_session_def)
  then obtain s0 where s: "s = (if rs_user_id s0 = uid \<and> rs_revoked_at s0 = None then s0\<lparr>rs_revoked_at := Some now\<rparr> else s0)"
    by (auto simp: revoke_all_for_user_def)
  show ?thesis
  proof (cases "rs_user_id s0 = uid \<and> rs_revoked_at s0 = None")
    case True
    then show ?thesis unfolding s if_P [OF True] by simp
  next
    case False
    then have "s = s0" unfolding s by (rule if_not_P)
    then show ?thesis using False assms(2) by simp
  qed
qed

text \<open>C15: After the roles of a user are replaced, no refresh token that the user had works again, whatever requests follow,
  and the next session carries exactly the new roles, or the default roles if there are none.\<close>

theorem role_change_cuts_sessions:
  assumes "set_user_roles q uid body = (Some st, Inr view)" "\<not> aq_revoke_raises q"
    and "la_store app = Some st" "get_refresh_session st (ev_hash_token env raw) = Some s" "rs_user_id s = uid"
    and "(login_step env)\<^sup>*\<^sup>* app app'"
  shows "(\<exists>err. refresh env dr app' (Some raw) = (app', Inl err))
    \<and> (\<exists>u. get_user_by_id st uid = Some u \<and> roles_for env u =
         (if body = [] then resolve_roles (ev_default_roles env) [] (Some (ev_role_mappings env)) False else set body))"
proof -
  obtain me st0 u where d: "get_user_by_id st0 uid = Some u"
    "st = revoke_quietly q (set_roles st0 uid (unique_in_order body) (aq_now q)) uid"
    using set_user_roles_done [OF assms(1)] by (metis option.inject)
  have "rs_revoked_at s \<noteq> None"
    using revoked_by_change assms(2,4,5) d(2) by (simp add: revoke_quietly_def)
  then have "dead app (ev_hash_token env raw)" using assms(3,4) by (auto simp: dead_def)
  with assms(6) have "dead app' (ev_hash_token env raw)"
    by (induction rule: rtranclp_induct) (auto dest: login_step_dead)
  then have "\<exists>err. refresh env dr app' (Some raw) = (app', Inl err)"
    by (auto simp: dead_def refresh_def given_def is_active_def Let_def split: option.split)
  moreover have "get_user_by_id st uid = Some (u\<lparr>au_roles := unique_in_order body, au_updated_at := Some (aq_now q)\<rparr>)"
    by (simp add: d user_after_change)
  ultimately show ?thesis by (auto simp: roles_for_def)
qed

text \<open>C36: An administrator who changes his own roles stays an administrator.\<close>

theorem admin_keeps_admin:
  assumes "set_user_roles q uid body = (Some st, Inr view)" "aq_user q = Inr me" "sub me = Some uid"
  shows "\<exists>u. get_user_by_id st uid = Some u \<and> scope_admin \<in> scopes_for_roles (roles_for env u)
    \<and> scope_admin \<in> set (ad_scopes view)"
proof -
  obtain me' st0 u where d: "aq_user q = Inr me'" "get_user_by_id st0 uid = Some u" "sub me' = Some uid \<longrightarrow> ''admin'' \<in> set body"
    "Some st = Some (revoke_quietly q (set_roles st0 uid (unique_in_order body) (aq_now q)) uid)"
    "view = changed_view q (revoke_quietly q (set_roles st0 uid (unique_in_order body) (aq_now q)) uid) uid u"
    using set_user_roles_done [OF assms(1)] by metis
  let ?u = "u\<lparr>au_roles := unique_in_order body, au_updated_at := Some (aq_now q)\<rparr>"
  have body: "''admin'' \<in> set body" using d assms(2,3) by simp
  have admin: "''admin'' \<in> rs \<Longrightarrow> scope_admin \<in> scopes_for_roles rs" for rs
    by (auto simp: in_scopes_for_roles role_grants_def role_scopes_def dget_def intro!: bexI [of _ "''admin''"])
  have fin: "finite (scopes_for_roles (set rs))" for rs by (simp add: scopes_for_roles_def)
  have u: "get_user_by_id st uid = Some ?u" using d(2,4) by (simp add: user_after_change)
  have "ad_scopes view = sorted_list_of_set (scopes_for_roles (set body))"
    using d(4) u body unfolding d(5) changed_view_def to_admin_user_def
    by (auto simp: Let_def split: prod.split)
  then have "scope_admin \<in> set (ad_scopes view)" using fin admin [OF body] by simp
  moreover have "scope_admin \<in> scopes_for_roles (roles_for env ?u)"
    using body by (intro admin) (auto simp: roles_for_def)
  ultimately show ?thesis using u by blast
qed

definition demo_admin :: admin_request where
  "demo_admin =
     \<lparr>aq_user = Inr (user_from_session \<lparr>pl_user_id = ''u1'', pl_email = JStr ''a@x'', pl_roles = [''admin'']\<rparr>),
      aq_store = Some (create_refresh_session (set_roles (fst (create_user new_store ann)) ''u1'' [''admin''] 5) ''u1'' ''#r1'' 100 ''s1'' 6),
      aq_config = Some \<lparr>cfg_mcp = [(''aws'', \<lparr>blk_enabled = True, blk_restricted = True\<rparr>)],
        cfg_external_mcp = [(''ext'', \<lparr>blk_enabled = True, blk_restricted = True\<rparr>)], cfg_role_connectors = None\<rparr>,
      aq_defaults = {default_role}, aq_now = 7, aq_revoke_raises = False\<rparr>"

lemma demo_admin_changes:
  "\<exists>st view. set_user_roles demo_admin ''u1'' [''admin'', ''member_chat''] = (Some st, Inr view)
     \<and> get_refresh_session st ''#r1'' = Some \<lparr>rs_id = ''s1'', rs_user_id = ''u1'', rs_token_hash = ''#r1'', rs_expires_at = 100,
          rs_created_at = Some 6, rs_revoked_at = Some 7\<rparr>"
  by (simp add: set_user_roles_def demo_admin_def user_from_session_def with_authz_def role_scopes_def ann_def new_store_def
      create_user_def user_row_def Let_def set_roles_def replace_user_def create_refresh_session_def get_user_by_id_def
      revoke_quietly_def revoke_all_for_user_def get_refresh_session_def)

theorem role_change_cuts_sessions_witness:
  "\<exists>st view err. set_user_roles demo_admin ''u1'' [''admin'', ''member_chat''] = (Some st, Inr view)
     \<and> refresh demo_env demo_draws ((demo_app ''r1'')\<lparr>la_store := Some st\<rparr>) (Some ''r1'')
         = ((demo_app ''r1'')\<lparr>la_store := Some st\<rparr>, Inl err)"
proof -
  obtain st view where r: "set_user_roles demo_admin ''u1'' [''admin'', ''member_chat''] = (Some st, Inr view)"
    and s: "get_refresh_session st ''#r1'' = Some \<lparr>rs_id = ''s1'', rs_user_id = ''u1'', rs_token_hash = ''#r1'', rs_expires_at = 100,
          rs_created_at = Some 6, rs_revoked_at = Some 7\<rparr>"
    using demo_admin_changes by blast
  have "\<exists>err. refresh demo_env demo_draws ((demo_app ''r1'')\<lparr>la_store := Some st\<rparr>) (Some ''r1'')
         = ((demo_app ''r1'')\<lparr>la_store := Some st\<rparr>, Inl err)"
    by (rule role_change_cuts_sessions [OF r _ _ _ _ rtranclp.rtrancl_refl, THEN conjunct1])
      (use s in \<open>auto simp: demo_admin_def demo_env_def\<close>)
  then show ?thesis using r by blast
qed

theorem admin_keeps_admin_witness:
  "\<exists>st view u. set_user_roles demo_admin ''u1'' [''admin'', ''member_chat''] = (Some st, Inr view)
     \<and> get_user_by_id st ''u1'' = Some u \<and> scope_admin \<in> scopes_for_roles (roles_for demo_env u)"
proof -
  obtain st view where r: "set_user_roles demo_admin ''u1'' [''admin'', ''member_chat''] = (Some st, Inr view)"
    using demo_admin_changes by blast
  have "sub (user_from_session \<lparr>pl_user_id = ''u1'', pl_email = JStr ''a@x'', pl_roles = [''admin'']\<rparr>) = Some ''u1''"
    by (simp add: user_from_session_def with_authz_def Let_def)
  then show ?thesis using r admin_keeps_admin [OF r, of _ demo_env] by (simp add: demo_admin_def) blast
qed

text \<open>Without any role a user has the default ones.\<close>

lemma no_roles_are_default_roles:
  assumes "set_user_roles q uid [] = (Some st, Inr view)"
  shows "\<exists>u. get_user_by_id st uid = Some u \<and> roles_for env u
    = resolve_roles (ev_default_roles env) [] (Some (ev_role_mappings env)) False"
proof -
  obtain me st0 u where "get_user_by_id st0 uid = Some u" "st = revoke_quietly q (set_roles st0 uid [] (aq_now q)) uid"
    using set_user_roles_done [OF assms] by (metis option.inject unique_in_order.simps(1))
  then show ?thesis by (auto simp: user_after_change roles_for_def)
qed

text \<open>A connector that is denied to a user can neither be called nor seen by him once the change is stored, not even by an
  administrator.\<close>

theorem denied_connector_fenced:
  assumes "set_user_connectors q uid allow deny = (Some st, Inr view)" "c \<in> set deny"
    and "list_all (\<lambda>(c', tools). tool \<in> set tools \<longrightarrow> c' = c) (registry g)"
  shows "\<exists>u. get_user_by_id st uid = Some u
    \<and> \<not> is_tool_allowed (install_request_connector_perms g (Some cfg) (roles_for env u)
          (Some (au_connectors_allow u, au_connectors_deny u))) (Some tool)
    \<and> c \<notin> set (ad_effective view)"
proof -
  obtain me st0 u where d: "get_user_by_id st0 uid = Some u"
    "st = revoke_quietly q (set_connector_overrides st0 uid (unique_in_order allow) (unique_in_order deny) (aq_now q)) uid"
    "view = changed_view q st uid u"
    using set_user_connectors_done [OF assms(1)] by (metis option.inject)
  let ?u = "u\<lparr>au_connectors_allow := unique_in_order allow, au_connectors_deny := unique_in_order deny, au_updated_at := Some (aq_now q)\<rparr>"
  have u: "get_user_by_id st uid = Some ?u" by (simp add: d user_after_change)
  have "\<not> is_tool_allowed (install_request_connector_perms g (Some cfg) (roles_for env ?u)
          (Some (au_connectors_allow ?u, au_connectors_deny ?u))) (Some tool)"
    by (rule denied_tool_hidden) (use assms(2,3) in \<open>auto simp: list_all_iff\<close>)
  moreover have "c \<notin> set (ad_effective view)"
  proof -
    obtain en rst rc where cc: "connector_config (aq_config q) = (en, rst, rc)" by (metis prod_cases3)
    let ?eff = "\<lambda>rs. resolve_allowed_connectors rs (Some rc) rst en (unique_in_order allow) (unique_in_order deny)"
    have "finite (?eff rs)" for rs
      by (rule finite_subset [of _ "set en"]) (auto simp: resolve_allowed_connectors_def Let_def)
    moreover have "c \<notin> ?eff rs" for rs using assms(2) not_allowed_denied(1) [of c "unique_in_order deny"] by simp
    ultimately show ?thesis by (simp add: d(3) changed_view_def u to_admin_user_def cc Let_def)
  qed
  ultimately show ?thesis using u by blast
qed

theorem denied_connector_fenced_witness:
  "\<exists>st view u. set_user_connectors demo_admin ''u1'' [] [''aws''] = (Some st, Inr view) \<and> get_user_by_id st ''u1'' = Some u
     \<and> \<not> is_tool_allowed (install_request_connector_perms
          \<lparr>registry = [(''aws'', [''aws_cost''])], active_enabled = None, request_allowed_tools = None, denied_connectors = {},
             tool_to_connector = []\<rparr> (aq_config demo_admin) (roles_for demo_env u)
          (Some (au_connectors_allow u, au_connectors_deny u))) (Some ''aws_cost'')"
proof -
  have "\<exists>st view. set_user_connectors demo_admin ''u1'' [] [''aws''] = (Some st, Inr view)"
    by (simp add: set_user_connectors_def demo_admin_def connector_config_def ann_def new_store_def
      create_user_def user_row_def Let_def set_roles_def replace_user_def create_refresh_session_def get_user_by_id_def)
  then obtain st view where r: "set_user_connectors demo_admin ''u1'' [] [''aws''] = (Some st, Inr view)" by blast
  obtain cfg where cfg: "aq_config demo_admin = Some cfg" by (simp add: demo_admin_def)
  show ?thesis unfolding cfg
    using r denied_connector_fenced [OF r, of "''aws''" "''aws_cost''"
      "\<lparr>registry = [(''aws'', [''aws_cost''])], active_enabled = None, request_allowed_tools = None, denied_connectors = {},
        tool_to_connector = []\<rparr>" cfg demo_env] by simp blast
qed

text \<open>The handlers know only the native connectors: an external one cannot be granted or denied to a user, and its effective
  connectors leave it out, although the gate of a request knows it.\<close>

lemma external_connector_unmanageable:
  assumes "aq_user q = Inr me" "aq_store q = Some st" "aq_config q = Some cfg" "c \<notin> fst ` set (cfg_mcp cfg)"
    "c \<in> set allow \<union> set deny"
  shows "\<exists>e. set_user_connectors q uid allow deny = (Some st, Inl (Refused 400 e))"
proof -
  have "c \<notin> set (fst (connector_config (aq_config q)))" using assms(3,4) by (auto simp: connector_config_def Let_def)
  then have "filter (\<lambda>c. c \<notin> set (fst (connector_config (aq_config q)))) (unique_in_order allow @ unique_in_order deny) \<noteq> []"
    unfolding filter_empty_conv using assms(5) by auto
  then show ?thesis unfolding set_user_connectors_def assms(1,2) sum.case option.case Let_def by simp
qed

lemma external_connector_gated:
  "''ext'' \<in> set (fst (enabled_and_restricted (the (aq_config demo_admin))))"
  "''ext'' \<in> set (snd (enabled_and_restricted (the (aq_config demo_admin))))"
  by (simp_all add: enabled_and_restricted_def demo_admin_def)

end
