(* ===== verification/Verifier.thy ===== *)
theory Verifier
  imports Chunk_Model
begin

text \<open>
  The answer verifier (\<open>agent/nodes/answer_verifier.py\<close>): the evidence it shows to a model, and what it does to the
  answer. The judge answers the message with the verified and the unverifiable claims or fails, by error or by timeout;
  JSON printing is a parameter.
\<close>

subsection \<open>The evidence\<close>

definition max_evidence_chars :: nat where "max_evidence_chars = 16000"
definition max_answer_chars :: nat where "max_answer_chars = 8000"
definition max_tool_evidence_chars :: nat where "max_tool_evidence_chars = 6000"

definition lf :: string where "lf = [CHR 0x0A]"

definition snippet_of :: "chunk \<Rightarrow> string" where
  "snippet_of c =
     (if repo c \<noteq> [] then ''[Source: '' @ repo c @ ''/'' @ source_path c @ '']'' else ''[Source: '' @ source_path c @ '']'')
     @ lf @ content c"

fun evidence_parts :: "nat \<Rightarrow> chunk list \<Rightarrow> string list" where
  "evidence_parts used [] = []"
| "evidence_parts used (c # cs) =
     (if max_evidence_chars < used + length (snippet_of c)
      then (if 200 < max_evidence_chars - used then [take (max_evidence_chars - used) (snippet_of c)] else [])
      else snippet_of c # evidence_parts (used + length (snippet_of c)) cs)"

definition part_separator :: string where "part_separator = lf @ lf @ ''---'' @ lf @ lf"

definition build_evidence_block :: "chunk list \<Rightarrow> string" where
  "build_evidence_block chunks =
     (if chunks = [] then ''(no evidence chunks)'' else join part_separator (evidence_parts 0 chunks))"

text \<open>A memory is an object with a \<open>value\<close> that is a dict, a dict, a text, or something else. A text that is not a string
  raises.\<close>

datatype memory = Memory_Value obj | Memory_Dict obj | Memory_Text string | Memory_Other

definition stripped :: "json \<Rightarrow> string result" where
  "stripped v = (if \<not> truthy v then Inr [] else case v of JStr s \<Rightarrow> Inr (py_strip s) | _ \<Rightarrow> Inl (AttributeError ''strip''))"

definition memory_text :: "memory \<Rightarrow> string result" where
  "memory_text m =
     (let of_dict = (\<lambda>d. stripped (py_or (dget JNull ''memory'' d) (py_or (dget JNull ''text'' d) (JStr []))))
      in case m of Memory_Value d \<Rightarrow> of_dict d | Memory_Dict d \<Rightarrow> of_dict d | Memory_Text s \<Rightarrow> Inr (py_strip s) | Memory_Other \<Rightarrow> Inr [])"

definition format_memory_evidence :: "memory list \<Rightarrow> string result" where
  "format_memory_evidence mems =
     (case traverse memory_text (take 8 mems) of Inl e \<Rightarrow> Inl e
      | Inr ts \<Rightarrow> Inr (join lf (map (\<lambda>t. ''- '' @ t) (filter (\<lambda>t. t \<noteq> []) ts))))"

text \<open>The tools that were called without an error, and what they returned.\<close>

definition called_line :: "(json \<Rightarrow> string) \<Rightarrow> (json \<Rightarrow> string) \<Rightarrow> json \<Rightarrow> string list" where
  "called_line other dumps a =
     (case a of JObj d \<Rightarrow>
        (let name = dget JNull ''name'' d; args = dget JNull ''args'' d in
         if \<not> truthy name \<or> truthy (dget JNull ''error'' d) then []
         else [''- '' @ json_str other name @ ''('' @ (if truthy args then take 200 (dumps args) else []) @ '')''])
      | _ \<Rightarrow> [])"

definition payload_line :: "(json \<Rightarrow> string) \<Rightarrow> (json \<Rightarrow> string) \<Rightarrow> json \<Rightarrow> string list result" where
  "payload_line other dumps msg =
     (case msg of JObj m \<Rightarrow>
        (if dget JNull ''role'' m \<noteq> JStr ''tool_result'' then Inr []
         else (let name = py_or (dget JNull ''name'' m) (JStr ''tool''); resp = dget JNull ''response'' m;
                   put = (\<lambda>t. case t of Inl e \<Rightarrow> Inl e
                        | Inr s \<Rightarrow> Inr (if s = [] then [] else [''['' @ json_str other name @ ''] '' @ s]))
               in case resp of
                    JObj d \<Rightarrow> if truthy (dget JNull ''error'' d) then Inr []
                       else put (case dget JNull ''text'' d of JNull \<Rightarrow> Inr (py_strip (dumps resp)) | t \<Rightarrow> stripped t)
                  | JNull \<Rightarrow> Inr []
                  | _ \<Rightarrow> put (Inr (py_strip (json_str other resp)))))
      | _ \<Rightarrow> Inr [])"

definition format_tool_evidence :: "(json \<Rightarrow> string) \<Rightarrow> (json \<Rightarrow> string) \<Rightarrow> json list \<Rightarrow> json list \<Rightarrow> string result" where
  "format_tool_evidence other dumps audit hist =
     (case traverse (payload_line other dumps) hist of Inl e \<Rightarrow> Inl e
      | Inr pss \<Rightarrow>
          (let called = concat (map (called_line other dumps) audit); payloads = concat pss;
               ls = (if called \<noteq> [] then ''Tools called (succeeded):'' # called else [])
                  @ (if payloads \<noteq> [] then [lf @ ''Tool results:'', join (lf @ lf) payloads] else [])
           in Inr (take max_tool_evidence_chars (py_strip (join lf ls)))))"

subsection \<open>The node\<close>

record verifier_state =
  vs_generation :: string
  vs_final :: "chunk list"
  vs_graded :: "chunk list"
  vs_merged :: "chunk list"
  vs_retrieved :: "chunk list"
  vs_memories :: "memory list"
  vs_audit :: "json list"
  vs_history :: "json list"

datatype verification =
    Empty_Answer
  | Could_Not_Verify
  | Verified "string list" "string list"

definition caution :: string where
  "caution = lf @ lf @ ''_Note: I could not verify the concrete file paths / keys / resource '' @
    ''names in this answer against the corpus (verification step failed). '' @
    ''Double-check anything load-bearing before acting on it._''"

definition format_hedge :: "string list \<Rightarrow> string" where
  "format_hedge claims =
     (let overflow = length claims - length (take 5 claims) in
      ''Warning: Some claims could not be verified against the corpus: ''
      @ join '', '' (map (\<lambda>x. ''`'' @ x @ ''`'') (take 5 claims))
      @ (if 0 < overflow then '' (+'' @ str_nat overflow @ '' more)'' else []) @ ''. Treat with caution.'' @ lf @ lf)"

definition chunks_of :: "verifier_state \<Rightarrow> chunk list" where
  "chunks_of s =
     (if vs_final s \<noteq> [] then vs_final s else if vs_graded s \<noteq> [] then vs_graded s
      else if vs_merged s \<noteq> [] then vs_merged s else vs_retrieved s)"

definition evidence_of :: "(json \<Rightarrow> string) \<Rightarrow> (json \<Rightarrow> string) \<Rightarrow> verifier_state \<Rightarrow> string result" where
  "evidence_of other dumps s =
     (case format_memory_evidence (vs_memories s) of Inl e \<Rightarrow> Inl e
      | Inr mem \<Rightarrow> (case format_tool_evidence other dumps (vs_audit s) (vs_history s) of Inl e \<Rightarrow> Inl e
          | Inr tools \<Rightarrow> Inr (build_evidence_block (chunks_of s)
              @ (if mem = [] then [] else lf @ lf @ ''=== Known facts about this user (valid evidence from past conversations) ==='' @ lf @ mem)
              @ (if tools = [] then []
                 else lf @ lf @ ''=== Live tool calls + results (valid evidence -- the answer may legitimately cite these) ==='' @ lf @ tools))))"

definition verifier_message :: "string \<Rightarrow> string \<Rightarrow> string" where
  "verifier_message evidence answer =
     ''Evidence chunks:'' @ lf @ evidence @ lf @ lf @ ''Answer to verify:'' @ lf @ take max_answer_chars answer @ lf @ lf
     @ ''Return ONLY the JSON object.''"

text \<open>The result and the answer, if the node writes one.\<close>

definition verify_answer ::
  "(json \<Rightarrow> string) \<Rightarrow> (json \<Rightarrow> string) \<Rightarrow> (string \<Rightarrow> (string list \<times> string list) result) \<Rightarrow> verifier_state
    \<Rightarrow> (verification \<times> string option) result" where
  "verify_answer other dumps judge s =
     (let answer = vs_generation s in
      if py_strip answer = [] then Inr (Empty_Answer, None)
      else case evidence_of other dumps s of Inl e \<Rightarrow> Inl e
        | Inr evidence \<Rightarrow>
            (case judge (verifier_message evidence answer) of
               Inl e \<Rightarrow> Inr (Could_Not_Verify, Some (answer @ caution))
             | Inr (ok, bad) \<Rightarrow> Inr (Verified ok bad, if bad = [] then None else Some (format_hedge bad @ answer))))"


subsection \<open>Facts\<close>



lemma evidence_parts_bound:
  "used \<le> max_evidence_chars \<Longrightarrow> used + sum_list (map length (evidence_parts used cs)) \<le> max_evidence_chars"
  by (induction used cs rule: evidence_parts.induct) (auto simp: min_def)

text \<open>Text of the sources that the judge sees, without the separators.\<close>

lemma evidence_bounded: "sum_list (map length (evidence_parts 0 cs)) \<le> max_evidence_chars"
  using evidence_parts_bound [of 0 cs] by simp

lemma tool_evidence_bounded: "format_tool_evidence other dumps audit hist = Inr t \<Longrightarrow> length t \<le> max_tool_evidence_chars"
  by (auto simp: format_tool_evidence_def Let_def split: sum.splits)

text \<open>What comes after the first 8000 characters of an answer is never seen by the judge: two answers that agree so far get
  the same verdict, and if it is clean both pass unmarked, whatever the rest of them claims.\<close>

theorem long_answer_tail_unverified:
  assumes "take max_answer_chars (vs_generation s) = take max_answer_chars a" "py_strip (vs_generation s) \<noteq> []" "py_strip a \<noteq> []"
  shows "map_sum id fst (verify_answer other dumps judge (s\<lparr>vs_generation := a\<rparr>)) = map_sum id fst (verify_answer other dumps judge s)
    \<and> (map_sum id snd (verify_answer other dumps judge s) = Inr None
        \<longleftrightarrow> map_sum id snd (verify_answer other dumps judge (s\<lparr>vs_generation := a\<rparr>)) = Inr None)"
proof -
  have m: "verifier_message e a = verifier_message e (vs_generation s)" for e
    using assms(1) by (simp add: verifier_message_def)
  have e: "evidence_of other dumps (s\<lparr>vs_generation := a\<rparr>) = evidence_of other dumps s"
  proof -
    let ?s = "s\<lparr>vs_generation := a\<rparr>"
    have f: "vs_final ?s = vs_final s" "vs_graded ?s = vs_graded s" "vs_merged ?s = vs_merged s" "vs_retrieved ?s = vs_retrieved s"
      "vs_memories ?s = vs_memories s" "vs_audit ?s = vs_audit s" "vs_history ?s = vs_history s" by simp_all
    show ?thesis unfolding evidence_of_def chunks_of_def f by (rule refl)
  qed
  show ?thesis using assms(2,3)
    by (simp add: verify_answer_def Let_def e m split: sum.split prod.split)
qed

theorem long_answer_tail_unverified_witness:
  "\<exists>a b. a \<noteq> b \<and> (\<exists>s. vs_generation s = a \<and> map_sum id fst (verify_answer (\<lambda>j. []) (\<lambda>j. []) (\<lambda>m. Inr ([], [])) (s\<lparr>vs_generation := b\<rparr>))
     = map_sum id fst (verify_answer (\<lambda>j. []) (\<lambda>j. []) (\<lambda>m. Inr ([], [])) s))"
proof -
  let ?a = "replicate 8000 CHR ''x''" and ?b = "replicate 8000 CHR ''x'' @ ''y''"
  let ?s = "\<lparr>vs_generation = ?a, vs_final = [], vs_graded = [], vs_merged = [], vs_retrieved = [], vs_memories = [], vs_audit = [], vs_history = []\<rparr>"
  have x: "\<not> is_space CHR ''x''" "\<not> is_space CHR ''y''" by code_simp+
  have "py_strip (CHR ''x'' # t) \<noteq> []" for t
    using x by (auto simp: py_strip_def py_lstrip_def py_rstrip_def dropWhile_eq_Nil_conv)
  moreover have "?a = CHR ''x'' # replicate 7999 CHR ''x''" using replicate_Suc [of 7999 "CHR ''x''"] by simp
  ultimately have "py_strip ?a \<noteq> []" "py_strip ?b \<noteq> []" by simp_all
  then have "map_sum id fst (verify_answer (\<lambda>j. []) (\<lambda>j. []) (\<lambda>m. Inr ([], [])) (?s\<lparr>vs_generation := ?b\<rparr>))
     = map_sum id fst (verify_answer (\<lambda>j. []) (\<lambda>j. []) (\<lambda>m. Inr ([], [])) ?s)"
    by (intro long_answer_tail_unverified [THEN conjunct1]) (simp_all add: max_answer_chars_def)
  moreover have "?a \<noteq> ?b" by (simp only: self_append_conv) simp
  ultimately show ?thesis by (intro exI [of _ ?a] exI [of _ ?b] conjI exI [of _ ?s]) simp_all
qed

end
