(* ===== verification/Qa_Keys.thy ===== *)
theory Qa_Keys
  imports Anchors
begin

text \<open>
  The text side of the answer cache: the normal form of a question (\<open>qa_cache_normalize.py\<close>), the tokens that must agree
  for two questions to share an answer (\<open>qa_cache.py\<close>, \<open>qa_cache_ner.py\<close>), the answers that are not worth keeping, the
  questions that bypass the cache, and the repositories read off a list of sources. The name recognizer of spaCy and the
  deployment's names are parameters.
\<close>

subsection \<open>Normal form\<close>

definition leading_polite :: re where
  "leading_polite = Seq At_Start (Seq (Star (Chars is_space)) (Seq (Choice (map Word_Ci
     [''could you please'', ''can you please'', ''would you please'', ''i would like to'', ''i would like'', [CHR ''i'', CHR 0x27] @ ''d like to'',
      [CHR ''i'', CHR 0x27] @ ''d like'', ''could you'', ''can you'', ''would you'', ''i need to'', ''i want to'', ''i need'', ''i want'',
      ''help me'', ''please tell me'', ''tell me'', ''please'']))
     (Seq Word_Boundary (Star (Chars (\<lambda>c. is_space c \<or> c = CHR '','' \<or> c = CHR '':''))))))"

definition trailing_polite :: re where
  "trailing_polite =
     Seq (Star (Chars (\<lambda>c. is_space c \<or> c = CHR '','')))
       (Seq (Choice [Word_Ci ''please'', Seq (Word_Ci ''thanks'') (Opt (Choice [Word_Ci '' a lot'', Word_Ci '' very much''])),
          Word_Ci ''thank you'', Word_Ci ''thx'', Word_Ci ''ty''])
        (Seq (Star (Chars (\<lambda>c. is_space c \<or> c \<in> {CHR '','', CHR ''.'', CHR ''!'', CHR ''?''}))) At_End))"

text \<open>A negation may come without its apostrophe; a contracted verb may not.\<close>

definition negations :: "(string \<times> string) list" where
  "negations =
     [(''won'', ''will not''), (''can'', ''can not''), (''shan'', ''shall not''), (''don'', ''do not''), (''doesn'', ''does not''),
      (''didn'', ''did not''), (''isn'', ''is not''), (''aren'', ''are not''), (''wasn'', ''was not''), (''weren'', ''were not''),
      (''hasn'', ''has not''), (''haven'', ''have not''), (''hadn'', ''had not''), (''wouldn'', ''would not''),
      (''shouldn'', ''should not''), (''couldn'', ''could not''), (''mustn'', ''must not'')]"

definition apostrophe :: string where "apostrophe = [CHR 0x27]"

definition verb_forms :: "(string \<times> string \<times> string) list" where
  "verb_forms =
     [(''it'', ''s'', ''it is''), (''what'', ''s'', ''what is''), (''who'', ''s'', ''who is''), (''where'', ''s'', ''where is''),
      (''when'', ''s'', ''when is''), (''how'', ''s'', ''how is''), (''that'', ''s'', ''that is''), (''there'', ''s'', ''there is''),
      (''here'', ''s'', ''here is''), (''let'', ''s'', ''let us''), (''i'', ''m'', ''i am''), (''i'', ''ve'', ''i have''),
      (''i'', ''ll'', ''i will''), (''i'', ''d'', ''i would''), (''you'', ''re'', ''you are''), (''you'', ''ve'', ''you have''),
      (''you'', ''ll'', ''you will''), (''you'', ''d'', ''you would''), (''we'', ''re'', ''we are''), (''we'', ''ve'', ''we have''),
      (''we'', ''ll'', ''we will''), (''they'', ''re'', ''they are''), (''they'', ''ve'', ''they have''), (''they'', ''ll'', ''they will'')]"

definition contractions :: "(re \<times> string) list" where
  "contractions =
     map (\<lambda>(stem, full). (bounded (Seq (Word_Ci stem) (Seq (Opt (Word apostrophe)) (Word_Ci ''t''))), full)) negations
     @ map (\<lambda>(stem, tail, full). (bounded (Word_Ci (stem @ apostrophe @ tail)), full)) verb_forms"

lemma substitute_nil:
  "length (substitute r [] st) \<le> length (snd st)
   \<and> (length (substitute r [] st) = length (snd st) \<longrightarrow> substitute r [] st = snd st)"
proof (induction r "[] :: string" st rule: substitute.induct)
  case (1 r st)
  obtain p s where st: "st = (p, s)" by (cases st)
  let ?skip = "case s of [] \<Rightarrow> [] | c # cs \<Rightarrow> c # substitute r [] (Some c, cs)"
  have skip: "length ?skip \<le> length s \<and> (length ?skip = length s \<longrightarrow> ?skip = s)"
    using 1(1) by (auto simp: st split: list.splits)
  show ?case
  proof (cases "match_length r st")
    case None
    then have "substitute r [] st = ?skip" by (subst substitute.simps) (simp add: st)
    then show ?thesis using skip by (simp add: st)
  next
    case (Some n)
    show ?thesis
    proof (cases "0 < n \<and> n \<le> length s")
      case True
      then have eq: "substitute r [] st = substitute r [] (Some (s ! (n - 1)), drop n s)"
        using Some by (subst substitute.simps) (simp add: st)
      have "length (substitute r [] (Some (s ! (n - 1)), drop n s)) \<le> length s - n"
        using 1(2) [OF _ Some] True by (simp add: st)
      then have "length (substitute r [] st) < length s" unfolding eq using True by linarith
      then show ?thesis by (simp add: st)
    next
      case False
      then have "substitute r [] st = ?skip" using Some by (subst substitute.simps) (auto simp: st)
      then show ?thesis using skip by (simp add: st)
    qed
  qed
qed

lemma replace_all_shrinks: "replace_all r [] s \<noteq> s \<Longrightarrow> length (replace_all r [] s) < length s"
  using substitute_nil [of r "(None, s)"] by (auto simp: replace_all_def le_less)

function remove_until_stable :: "re \<Rightarrow> string \<Rightarrow> string" where
  "remove_until_stable r s = (let s' = replace_all r [] s in if s' = s then s else remove_until_stable r s')"
  by pat_completeness auto
termination by (relation "measure (\<lambda>(r, s). length s)") (auto simp: replace_all_shrinks)

declare remove_until_stable.simps [simp del]

definition normalize_query :: "string \<Rightarrow> string" where
  "normalize_query s =
     (let expanded = fold (\<lambda>(r, full) t. replace_all r full t) contractions (py_lower s);
          bare = remove_until_stable trailing_polite (remove_until_stable leading_polite expanded)
      in if s = [] then [] else py_strip (replace_all (Plus (Chars is_space)) '' '' bare))"

text \<open>The id of a point: a hash of the normal form, apart for every user scope.\<close>

definition make_point_id :: "(string \<Rightarrow> 'i) \<Rightarrow> string \<Rightarrow> string option \<Rightarrow> 'i" where
  "make_point_id uuid question user_scope =
     (let normal = (if normalize_query question \<noteq> [] then normalize_query question else py_lower (py_strip question))
      in uuid (case user_scope of None \<Rightarrow> normal | Some u \<Rightarrow> if u = [] then normal else normal @ ''|scope:'' @ u))"

subsection \<open>Discriminators\<close>

record deployment_names =
  dn_environments :: "string list"
  dn_services :: "string list"
  dn_router_examples :: "(string \<times> string list) list"

definition lower_alnum :: "char \<Rightarrow> bool" where
  "lower_alnum c \<longleftrightarrow> alnum c \<and> \<not> upper_letter c"

definition hex_digit :: "char \<Rightarrow> bool" where
  "hex_digit c \<longleftrightarrow> decimal c \<or> c \<in> {CHR ''a'', CHR ''b'', CHR ''c'', CHR ''d'', CHR ''e'', CHR ''f''}"

definition number_re :: re where "number_re = bounded (Least_Times 2 (Chars decimal))"

definition year_re :: re where
  "year_re = bounded (Seq (Choice [Word ''19'', Word ''20'']) (Seq (Chars decimal) (Chars decimal)))"

definition semver_re :: "(re \<times> re \<times> re) list" where
  "semver_re =
     [(Seq Word_Boundary (Opt (Word ''v'')),
       Seq (Plus (Chars decimal)) (Seq (Word ''.'') (Seq (Plus (Chars decimal)) (Opt (Seq (Word ''.'') (Plus (Chars decimal)))))),
       Word_Boundary)]"

definition ticket_id_re :: re where
  "ticket_id_re = bounded (Seq (Chars upper_letter) (Seq (Chars upper_letter) (Seq (Most_Times 3 (Chars upper_letter))
     (Seq (Word ''-'') (Least_Times 2 (Chars decimal))))))"

definition sha_re :: re where
  "sha_re = (let h = Chars hex_digit in
     bounded (Seq h (Seq h (Seq h (Seq h (Seq h (Seq h (Seq h (Most_Times 33 h)))))))))"

definition kebab_re :: re where
  "kebab_re = (let tail = Seq (Word ''-'') (Plus (Chars lower_alnum)) in
     bounded (Seq (Chars (\<lambda>c. lower_alnum c \<and> \<not> decimal c)) (Seq (Plus (Chars lower_alnum)) (Seq tail (Most_Times 3 tail)))))"

definition gl_path_re :: "(re \<times> re \<times> re) list" where
  "gl_path_re =
     [(Seq (Word ''/'') (Seq (Choice (map Word_Ci [''pipelines'', ''jobs'', ''merge_requests'', ''commit'', ''builds''])) (Word ''/'')),
       Plus (Chars (\<lambda>c. hex_digit (py_lower_char c))), Eps)]"

definition kebab_noise :: "string list" where
  "kebab_noise = [''right-now'', ''real-time'', ''build-up'', ''follow-up'', ''sign-off'', ''step-by-step'', ''end-to-end'']"

definition names_re :: "string list \<Rightarrow> re" where
  "names_re tokens = bounded (Choice (map Word_Ci (sort_key (\<lambda>t. (- int (length t), t)) (remdups tokens))))"

definition stripped_names :: "string list \<Rightarrow> string list" where
  "stripped_names ns = filter (\<lambda>n. n \<noteq> []) (map (\<lambda>n. py_lower (py_strip n)) ns)"

definition env_discriminator :: "deployment_names \<Rightarrow> re" where
  "env_discriminator ctx =
     names_re ([''prod'', ''production'', ''staging'', ''dev'', ''test''] @ stripped_names (dn_environments ctx))"

definition service_discriminator :: "deployment_names \<Rightarrow> re option" where
  "service_discriminator ctx =
     (if stripped_names (dn_services ctx) = [] then None else Some (names_re (stripped_names (dn_services ctx))))"

definition tagged :: "string \<Rightarrow> string list \<Rightarrow> string list" where
  "tagged tag ms = map ((@) tag) ms"

definition regex_tokens :: "deployment_names \<Rightarrow> string \<Rightarrow> string list" where
  "regex_tokens ctx query =
     (let q = py_lower query in
        tagged ''num:'' (finditer number_re q)
        @ tagged ''year:'' (finditer year_re q)
        @ tagged ''semver:'' (find_groups semver_re (None, q))
        @ tagged ''ticket:'' (finditer ticket_id_re query)
        @ tagged ''env:'' (map (\<lambda>m. if m = ''production'' then ''prod'' else m) (finditer (env_discriminator ctx) q))
        @ tagged ''sha:'' (filter (\<lambda>m. \<not> list_all decimal m) (finditer sha_re q))
        @ tagged ''kebab:'' (filter (\<lambda>m. m \<notin> set kebab_noise \<and> 5 \<le> length m) (finditer kebab_re q))
        @ (case service_discriminator ctx of None \<Rightarrow> [] | Some r \<Rightarrow> tagged ''svc:'' (finditer r q))
        @ tagged ''glpath:'' (find_groups gl_path_re (None, q)))"

text \<open>The recognizer is absent, fails, or lists labels with texts.\<close>

definition useful_labels :: "string list" where
  "useful_labels = [''PERSON'', ''ORG'', ''GPE'', ''LOC'', ''DATE'', ''TIME'', ''CARDINAL'', ''ORDINAL'', ''QUANTITY'', ''PERCENT'', ''MONEY'']"

type_synonym recognizer = "(string \<Rightarrow> (string \<times> string) list result) option"

definition extract_entities :: "recognizer \<Rightarrow> string \<Rightarrow> string list" where
  "extract_entities nlp s =
     (case nlp of None \<Rightarrow> []
      | Some f \<Rightarrow> (if s = [] then [] else case f (take 1000 s) of Inl e \<Rightarrow> []
          | Inr ents \<Rightarrow> map (\<lambda>(lab, t). ''ner:'' @ lab @ '':'' @ py_lower (py_strip t))
              (filter (\<lambda>(lab, t). lab \<in> set useful_labels \<and> 2 \<le> length (py_strip t)) ents)))"

definition discriminator_tokens :: "deployment_names \<Rightarrow> recognizer \<Rightarrow> string \<Rightarrow> string set" where
  "discriminator_tokens ctx nlp query =
     (if query = [] then {} else set (regex_tokens ctx query) \<union> set (extract_entities nlp query))"

subsection \<open>Answers, questions and sources\<close>

definition is_alpha :: "char \<Rightarrow> bool" where
  "is_alpha c \<longleftrightarrow> re_word c \<and> \<not> decimal c \<and> c \<noteq> CHR ''_'' \<and> (of_char c :: nat) \<notin> {178, 179, 185, 188, 189, 190}"

definition occurrences :: "string \<Rightarrow> char \<Rightarrow> nat" where
  "occurrences s c = length (filter ((=) c) s)"

definition blank :: "char \<Rightarrow> bool" where
  "blank c \<longleftrightarrow> c \<in> {CHR '' '', CHR 0x0A, CHR 0x09}"

definition most_common :: "string \<Rightarrow> char" where
  "most_common s = argmax_from (occurrences s) (hd s) (tl (unique_in_order s))"

definition is_degenerate_answer :: "string \<Rightarrow> bool" where
  "is_degenerate_answer answer =
     (let s = py_strip answer in
        length s < 40
        \<or> length (filter is_alpha s) < 25
        \<or> 95 * length s < 100 * length (filter blank s)
        \<or> length (unique_in_order s) \<le> 3
        \<or> (\<not> blank (most_common s) \<and> 70 * length s < 100 * occurrences s (most_common s)))"

definition skip_patterns :: re where
  "skip_patterns = bounded (Choice (map Word_Ci [''current'', ''latest'', ''now'', ''today'', ''right now'', ''just now'', ''recently'']))"

definition user_scoped :: re where
  "user_scoped = bounded (Choice (map Word_Ci [''my'', ''our'', ''your'']))"

definition should_skip_cache :: "string \<Rightarrow> bool" where
  "should_skip_cache query = (query = [] \<or> searches skip_patterns query \<or> searches user_scoped query)"

definition document_ending :: "string \<Rightarrow> bool" where
  "document_ending s = list_ex (endswith s) [''yaml'', ''yml'', ''md'', ''tf'', ''json'']"

definition repo_guess :: "string \<Rightarrow> string option" where
  "repo_guess s =
     (let parts = split_on CHR ''/'' s in
      if s = [] \<or> startswith s ''<'' \<or> length parts < 2 then None
      else find (\<lambda>c. CHR ''/'' \<in> set c \<and> \<not> document_ending c) (map (\<lambda>k. join ''/'' (take k parts)) [4, 3, 2]))"

definition derive_repos :: "string list \<Rightarrow> string list" where
  "derive_repos sources = sort (remdups (List.map_filter repo_guess sources))"

text \<open>A word that ends in \<open>ty\<close> loses its ending: it is taken for a word of thanks.\<close>

lemma ending_taken_for_thanks: "remove_until_stable trailing_polite ''duty'' = ''du''"
  by code_simp

end
