(* ===== verification/Vector_Client.thy ===== *)
theory Vector_Client
  imports Py_Prelude
begin

text \<open>
  The client of the vector database as the two answer caches use it (\<open>qa_cache.py\<close>, \<open>agent/cache/investigation_cache.py\<close>).
  The client is a parameter: a record of its calls, each of which takes the state of the database and gives back the new
  state and a value or the text of an exception. \<open>vector_laws\<close> states what Qdrant documents of its calls.
\<close>

subsection \<open>Filters and calls\<close>

datatype condition =
    Is_Empty string
  | Match_Value string string
  | Match_Text string string
  | Below string real
  | Above string real

datatype point_filter = Must "condition list" | Should "condition list"

type_synonym 'a reply = "string + 'a"

record ('q, 'i, 'v, 'p) vector_client =
  vc_names :: "'q \<Rightarrow> string set reply"
  vc_get :: "string \<Rightarrow> 'q \<Rightarrow> int reply"
  vc_create :: "string \<Rightarrow> nat \<Rightarrow> 'q \<Rightarrow> 'q \<times> unit reply"
  vc_index :: "string \<Rightarrow> string \<Rightarrow> 'q \<Rightarrow> 'q \<times> unit reply"
  vc_drop :: "string \<Rightarrow> 'q \<Rightarrow> 'q \<times> unit reply"
  vc_query :: "string \<Rightarrow> 'v \<Rightarrow> nat \<Rightarrow> point_filter \<Rightarrow> 'q \<Rightarrow> ('i \<times> 'p \<times> real) list reply"
  vc_upsert :: "string \<Rightarrow> 'i \<Rightarrow> 'v \<Rightarrow> 'p \<Rightarrow> 'q \<Rightarrow> 'q \<times> unit reply"
  vc_delete :: "string \<Rightarrow> point_filter \<Rightarrow> 'q \<Rightarrow> 'q \<times> unit reply"
  vc_set_payload :: "string \<Rightarrow> 'i \<Rightarrow> ('p \<Rightarrow> 'p) \<Rightarrow> 'q \<Rightarrow> 'q \<times> unit reply"
  vc_retrieve :: "string \<Rightarrow> 'i \<Rightarrow> 'q \<Rightarrow> ('i \<times> 'p) list reply"
  vc_scroll :: "string \<Rightarrow> condition \<Rightarrow> nat \<Rightarrow> nat option \<Rightarrow> 'q \<Rightarrow> (('i \<times> 'p) list \<times> nat option) reply"

definition passes :: "(condition \<Rightarrow> 'p \<Rightarrow> bool) \<Rightarrow> point_filter \<Rightarrow> 'p \<Rightarrow> bool" where
  "passes sat f p = (case f of Must cs \<Rightarrow> list_all (\<lambda>c. sat c p) cs | Should cs \<Rightarrow> list_ex (\<lambda>c. sat c p) cs)"

text \<open>A caller may see what nobody owns and, if he has a name, what is his.\<close>

definition shared_or_mine :: "string option \<Rightarrow> point_filter" where
  "shared_or_mine user =
     (case user of None \<Rightarrow> Must [Is_Empty ''user_scope'']
      | Some u \<Rightarrow> if u = [] then Must [Is_Empty ''user_scope''] else Should [Is_Empty ''user_scope'', Match_Value ''user_scope'' u])"

text \<open>A scope that is empty is not stamped.\<close>

definition stamp :: "string option \<Rightarrow> string option" where
  "stamp user_scope = (case user_scope of None \<Rightarrow> None | Some u \<Rightarrow> if u = [] then None else Some u)"

subsection \<open>What the database promises\<close>

text \<open>\<open>pts q coll\<close> are the points of a collection. A query answers with points that are there and pass its filter, an upsert
  adds one point at most, setting a payload changes the points of one id, and nothing else adds anything; a delete leaves
  what does not pass.\<close>

definition vector_laws ::
  "('q \<Rightarrow> string \<Rightarrow> ('i \<times> 'p) set) \<Rightarrow> (condition \<Rightarrow> 'p \<Rightarrow> bool) \<Rightarrow> ('q, 'i, 'v, 'p) vector_client \<Rightarrow> bool" where
  "vector_laws pts sat c \<longleftrightarrow>
     (\<forall>coll v k f q ps. vc_query c coll v k f q = Inr ps \<longrightarrow>
        length ps \<le> k \<and> (\<forall>(i, p, sc) \<in> set ps. (i, p) \<in> pts q coll \<and> passes sat f p))
     \<and> (\<forall>coll n q. pts (fst (vc_create c coll n q)) coll \<subseteq> pts q coll)
     \<and> (\<forall>coll field q. pts (fst (vc_index c coll field q)) coll \<subseteq> pts q coll)
     \<and> (\<forall>coll q. pts (fst (vc_drop c coll q)) coll \<subseteq> pts q coll)
     \<and> (\<forall>coll i v p q. pts (fst (vc_upsert c coll i v p q)) coll \<subseteq> insert (i, p) (pts q coll))
     \<and> (\<forall>coll f q. pts (fst (vc_delete c coll f q)) coll \<subseteq> pts q coll)
     \<and> (\<forall>coll f q i p. (i, p) \<in> pts q coll \<longrightarrow> \<not> passes sat f p \<longrightarrow> (i, p) \<in> pts (fst (vc_delete c coll f q)) coll)
     \<and> (\<forall>coll i g q. pts (fst (vc_set_payload c coll i g q)) coll \<subseteq> pts q coll \<union> (\<lambda>p. (i, g p)) ` {p. (i, p) \<in> pts q coll})"

lemma law_query:
  assumes "vector_laws pts sat c" "vc_query c coll v k f q = Inr ps" "(i, p, sc) \<in> set ps"
  shows "(i, p) \<in> pts q coll \<and> passes sat f p"
proof -
  have "\<forall>coll v k f q ps. vc_query c coll v k f q = Inr ps \<longrightarrow>
        length ps \<le> k \<and> (\<forall>(i, p, sc) \<in> set ps. (i, p) \<in> pts q coll \<and> passes sat f p)"
    using assms(1) unfolding vector_laws_def by (rule conjunct1)
  then have "\<forall>(i, p, sc) \<in> set ps. (i, p) \<in> pts q coll \<and> passes sat f p" using assms(2) by blast
  then show ?thesis using assms(3) by auto
qed

lemma vector_lawsD:
  assumes "vector_laws pts sat c"
  shows "pts (fst (vc_create c coll n q)) coll \<subseteq> pts q coll"
    "pts (fst (vc_index c coll field q)) coll \<subseteq> pts q coll"
    "pts (fst (vc_drop c coll q)) coll \<subseteq> pts q coll"
    "pts (fst (vc_upsert c coll i v p q)) coll \<subseteq> insert (i, p) (pts q coll)"
    "pts (fst (vc_delete c coll f q)) coll \<subseteq> pts q coll"
    "pts (fst (vc_set_payload c coll i g q)) coll \<subseteq> pts q coll \<union> (\<lambda>p. (i, g p)) ` {p. (i, p) \<in> pts q coll}"
  using assms unfolding vector_laws_def by simp_all

lemma law_delete_keeps:
  "vector_laws pts sat c \<Longrightarrow> (i, p) \<in> pts q coll \<Longrightarrow> \<not> passes sat f p \<Longrightarrow> (i, p) \<in> pts (fst (vc_delete c coll f q)) coll"
  unfolding vector_laws_def by simp

subsection \<open>A database in memory\<close>

text \<open>A client whose state is the list of collections with their points, to show that the laws can hold. Every vector
  scores one, so that a query lists points in the order of their ids' last writing.\<close>

type_synonym ('i, 'p) memory_db = "(string, ('i, 'p) dict) dict"

definition db_points :: "('i, 'p) memory_db \<Rightarrow> string \<Rightarrow> ('i \<times> 'p) set" where
  "db_points q coll = set (dget [] coll q)"

definition on_collection :: "(('i, 'p) dict \<Rightarrow> ('i, 'p) dict) \<Rightarrow> string \<Rightarrow> ('i, 'p) memory_db \<Rightarrow> ('i, 'p) memory_db \<times> unit reply" where
  "on_collection f coll q =
     (case map_of q coll of None \<Rightarrow> (q, Inl ''404'') | Some ps \<Rightarrow> (AList.update coll (f ps) q, Inr ()))"

definition memory_client :: "(condition \<Rightarrow> 'p \<Rightarrow> bool) \<Rightarrow> (('i, 'p) memory_db, 'i, 'v, 'p) vector_client" where
  "memory_client sat =
     \<lparr>vc_names = (\<lambda>q. Inr (set (map fst q))),
      vc_get = (\<lambda>coll q. case map_of q coll of None \<Rightarrow> Inl ''404'' | Some ps \<Rightarrow> Inr (int (length ps))),
      vc_create = (\<lambda>coll n q. (AList.update coll [] q, Inr ())),
      vc_index = (\<lambda>coll field q. (q, Inr ())),
      vc_drop = (\<lambda>coll q. (AList.delete coll q, Inr ())),
      vc_query = (\<lambda>coll v k f q. case map_of q coll of None \<Rightarrow> Inl ''404''
         | Some ps \<Rightarrow> Inr (take k (map (\<lambda>(i, p). (i, p, 1)) (filter (\<lambda>(i, p). passes sat f p) ps)))),
      vc_upsert = (\<lambda>coll i v p. on_collection (\<lambda>ps. (i, p) # filter (\<lambda>x. fst x \<noteq> i) ps) coll),
      vc_delete = (\<lambda>coll f. on_collection (filter (\<lambda>(i, p). \<not> passes sat f p)) coll),
      vc_set_payload = (\<lambda>coll i g. on_collection (map (\<lambda>(j, p). if j = i then (j, g p) else (j, p))) coll),
      vc_retrieve = (\<lambda>coll i q. case map_of q coll of None \<Rightarrow> Inl ''404'' | Some ps \<Rightarrow> Inr (filter (\<lambda>x. fst x = i) ps)),
      vc_scroll = (\<lambda>coll cond k off q. case map_of q coll of None \<Rightarrow> Inl ''404''
         | Some ps \<Rightarrow> Inr (filter (\<lambda>(i, p). sat cond p) ps, None))\<rparr>"

lemma db_points_on_collection: "db_points (fst (on_collection f coll q)) coll = (case map_of q coll of None \<Rightarrow> {} | Some ps \<Rightarrow> set (f ps))"
  by (simp add: on_collection_def db_points_def dget_def split: option.split)

lemma memory_client_laws: "vector_laws db_points sat (memory_client sat)"
  unfolding vector_laws_def memory_client_def
  by (auto simp: db_points_on_collection split: option.splits)
     (auto simp: db_points_def dget_def dest!: in_set_takeD split: if_splits)

end
