(* ===== verification/Qa_Cache.thy ===== *)
theory Qa_Cache
  imports Qa_Keys Vector_Client
begin

text \<open>
  The semantic answer cache (\<open>qa_cache.py\<close>) and the judge of its borderline hits (\<open>qa_cache_judge.py\<close>). The database client
  is a parameter; the object itself keeps one flag, whether its collection is known to exist. A method gives back the flag,
  the state of the database and a value or the text of the exception that leaves it.
\<close>

subsection \<open>Entries\<close>

text \<open>The payload of a point. An entry of an older version lacks what is optional.\<close>

record cache_entry =
  ce_question :: string
  ce_answer :: string
  ce_sources :: "string list"
  ce_source_urls :: "string option list"
  ce_contents :: "(string \<times> string) list"
  ce_repos :: "string list"
  ce_source_repos :: "string list"
  ce_ttl :: "int option"
  ce_created :: "real option"
  ce_quality :: "string option"
  ce_scope :: "string option"

text \<open>The conditions on these fields.\<close>

fun entry_sat :: "condition \<Rightarrow> cache_entry \<Rightarrow> bool" where
  "entry_sat (Is_Empty f) e = (f = ''user_scope'' \<and> ce_scope e = None)"
| "entry_sat (Match_Value f v) e =
     ((f = ''user_scope'' \<and> ce_scope e = Some v) \<or> (f = ''repos'' \<and> v \<in> set (ce_repos e))
      \<or> (f = ''source_repos'' \<and> v \<in> set (ce_source_repos e)) \<or> (f = ''quality_flag'' \<and> ce_quality e = Some v))"
| "entry_sat (Match_Text f t) e = (f = ''question'' \<and> sublist t (ce_question e))"
| "entry_sat (Below f r) e = (f = ''created_at'' \<and> (\<exists>c. ce_created e = Some c \<and> c < r))"
| "entry_sat (Above f r) e = False"

record cache_config =
  cc_collection :: string
  cc_dimension :: nat
  cc_threshold :: real
  cc_default_ttl :: int

type_synonym 'q cache_state = "bool \<times> 'q"

definition default_cache :: cache_config where
  "default_cache = \<lparr>cc_collection = ''opsrag_qa_cache'', cc_dimension = 768, cc_threshold = 93 / 100, cc_default_ttl = 14 * 24 * 3600\<rparr>"

definition index_fields :: "string list" where
  "index_fields = [''repos'', ''source_repos'', ''quality_flag'', ''user_scope'']"

definition ensure_collection ::
  "('q, 'i, 'v, 'p) vector_client \<Rightarrow> cache_config \<Rightarrow> 'q cache_state \<Rightarrow> 'q cache_state \<times> unit reply" where
  "ensure_collection c cfg = (\<lambda>(ensured, q).
     if ensured then ((True, q), Inr ())
     else case vc_names c q of Inl e \<Rightarrow> ((False, q), Inl e)
       | Inr names \<Rightarrow>
           (if cc_collection cfg \<in> names then ((True, q), Inr ())
            else case vc_create c (cc_collection cfg) (cc_dimension cfg) q of
                (q1, Inl e) \<Rightarrow> ((False, q1), Inl e)
              | (q1, Inr u) \<Rightarrow> ((True, fold (\<lambda>f q. fst (vc_index c (cc_collection cfg) f q)) index_fields q1), Inr ())))"

definition is_collection_missing :: "string \<Rightarrow> bool" where
  "is_collection_missing msg \<longleftrightarrow> py_in ''404'' msg \<or> py_in (''doesn'' @ [CHR 0x27] @ ''t exist'') msg \<or> py_in ''Not found'' msg"

subsection \<open>Looking up\<close>

record qa_hit =
  qh_question :: string
  qh_answer :: string
  qh_sources :: "string list"
  qh_source_urls :: "string option list"
  qh_contents :: "(string \<times> string) list"
  qh_similarity :: real
  qh_age :: real
  qh_stale :: bool

record lookup_request =
  lr_query :: "string option"
  lr_user :: "string option"
  lr_serve_stale :: bool
  lr_max_stale :: real
  lr_min_score :: "real option"
  lr_now :: real

text \<open>The verdict on the nearest point.\<close>

definition serve ::
  "(string \<Rightarrow> string set) \<Rightarrow> cache_config \<Rightarrow> lookup_request \<Rightarrow> cache_entry \<Rightarrow> real \<Rightarrow> qa_hit option" where
  "serve tokens cfg r e score =
     (let least = (case lr_min_score r of None \<Rightarrow> cc_threshold cfg | Some m \<Rightarrow> m);
          ttl = real_of_int (case ce_ttl e of None \<Rightarrow> cc_default_ttl cfg | Some t \<Rightarrow> t);
          created = (case ce_created e of None \<Rightarrow> 0 | Some t \<Rightarrow> t);
          age = lr_now r - created;
          expired = (created \<noteq> 0 \<and> ttl < age)
      in if score < least then None
         else if ce_quality e = Some ''low'' then None
         else if (case lr_query r of None \<Rightarrow> False | Some q \<Rightarrow> tokens q \<noteq> tokens (ce_question e)) then None
         else if expired \<and> \<not> lr_serve_stale r then None
         else if expired \<and> lr_max_stale r < age - ttl then None
         else if is_degenerate_answer (ce_answer e) then None
         else Some \<lparr>qh_question = ce_question e, qh_answer = ce_answer e, qh_sources = ce_sources e, qh_source_urls = ce_source_urls e,
             qh_contents = ce_contents e, qh_similarity = score, qh_age = age, qh_stale = expired\<rparr>)"

definition qa_lookup ::
  "('q, 'i, 'v, cache_entry) vector_client \<Rightarrow> (string \<Rightarrow> string set) \<Rightarrow> cache_config \<Rightarrow> lookup_request \<Rightarrow> 'v
    \<Rightarrow> 'q cache_state \<Rightarrow> 'q cache_state \<times> qa_hit option reply" where
  "qa_lookup c tokens cfg r v st =
     (case ensure_collection c cfg st of
        (st1, Inl e) \<Rightarrow> (st1, Inl e)
      | (st1, Inr u) \<Rightarrow>
          (case vc_query c (cc_collection cfg) v 1 (shared_or_mine (lr_user r)) (snd st1) of
             Inl e \<Rightarrow>
               (if is_collection_missing e
                then (case ensure_collection c cfg (False, snd st1) of (st2, Inl e2) \<Rightarrow> (st2, Inl e2) | (st2, Inr u2) \<Rightarrow> (st2, Inr None))
                else (st1, Inr None))
           | Inr [] \<Rightarrow> (st1, Inr None)
           | Inr ((i, e, score) # _) \<Rightarrow> (st1, Inr (serve tokens cfg r e score))))"

subsection \<open>Storing\<close>

record store_request =
  sq_question :: string
  sq_answer :: string
  sq_sources :: "string list"
  sq_contents :: "(string \<times> string) list"
  sq_source_repos :: "string list"
  sq_ttl :: "int option"
  sq_source_urls :: "string option list"
  sq_user_scope :: "string option"
  sq_now :: real

definition entry_of :: "cache_config \<Rightarrow> store_request \<Rightarrow> cache_entry" where
  "entry_of cfg s =
     (let repos = (if sq_source_repos s \<noteq> [] then sq_source_repos s else derive_repos (sq_sources s)) in
      \<lparr>ce_question = sq_question s, ce_answer = sq_answer s, ce_sources = sq_sources s, ce_source_urls = sq_source_urls s,
       ce_contents = map (\<lambda>(src, t). (src, take 2500 t)) (sq_contents s), ce_repos = repos, ce_source_repos = repos,
       ce_ttl = Some (case sq_ttl s of None \<Rightarrow> cc_default_ttl cfg | Some t \<Rightarrow> if t = 0 then cc_default_ttl cfg else t),
       ce_created = Some (sq_now s), ce_quality = Some ''ok'', ce_scope = stamp (sq_user_scope s)\<rparr>)"

text \<open>Errors of the upsert are logged; the second attempt, after the collection was made again, is under another id.\<close>

definition qa_store ::
  "('q, 'i, 'v, cache_entry) vector_client \<Rightarrow> (string \<Rightarrow> 'i) \<Rightarrow> cache_config \<Rightarrow> store_request \<Rightarrow> 'v
    \<Rightarrow> 'q cache_state \<Rightarrow> 'q cache_state \<times> unit reply" where
  "qa_store c uuid cfg s v st =
     (if sq_question s = [] \<or> sq_answer s = [] \<or> is_degenerate_answer (sq_answer s) then (st, Inr ())
      else case ensure_collection c cfg st of
        (st1, Inl e) \<Rightarrow> (st1, Inl e)
      | (st1, Inr u) \<Rightarrow>
          (case vc_upsert c (cc_collection cfg) (make_point_id uuid (sq_question s) (sq_user_scope s)) v (entry_of cfg s) (snd st1) of
             (q2, Inr u2) \<Rightarrow> ((fst st1, q2), Inr ())
           | (q2, Inl e) \<Rightarrow>
               (if is_collection_missing e
                then (case ensure_collection c cfg (False, q2) of
                    (st3, Inl e3) \<Rightarrow> (st3, Inr ())
                  | (st3, Inr u3) \<Rightarrow>
                      ((fst st3, fst (vc_upsert c (cc_collection cfg) (make_point_id uuid (sq_question s) None) v (entry_of cfg s) (snd st3))),
                       Inr ()))
                else ((fst st1, q2), Inr ()))))"

subsection \<open>Invalidation and feedback\<close>

definition delete_matching ::
  "('q, 'i, 'v, 'p) vector_client \<Rightarrow> cache_config \<Rightarrow> point_filter \<Rightarrow> 'q cache_state \<Rightarrow> 'q cache_state \<times> int reply" where
  "delete_matching c cfg f st =
     (case vc_delete c (cc_collection cfg) f (snd st) of
        (q, Inl e) \<Rightarrow> ((fst st, q), Inr 0) | (q, Inr u) \<Rightarrow> ((fst st, q), Inr (- 1)))"

definition invalidate_repo ::
  "('q, 'i, 'v, 'p) vector_client \<Rightarrow> cache_config \<Rightarrow> string \<Rightarrow> 'q cache_state \<Rightarrow> 'q cache_state \<times> int reply" where
  "invalidate_repo c cfg rp st =
     (case ensure_collection c cfg st of
        (st1, Inl e) \<Rightarrow> (st1, Inl e)
      | (st1, Inr u) \<Rightarrow> delete_matching c cfg (Should [Match_Value ''repos'' rp, Match_Value ''source_repos'' rp]) st1)"

record purge_request =
  pr_all :: bool
  pr_repo :: string
  pr_quality :: string
  pr_older_than :: "int option"
  pr_substring :: string

definition purge_conditions :: "purge_request \<Rightarrow> real \<Rightarrow> condition list" where
  "purge_conditions p now =
     (if pr_repo p = [] then [] else [Match_Value ''source_repos'' (pr_repo p)])
     @ (if pr_quality p = [] then [] else [Match_Value ''quality_flag'' (pr_quality p)])
     @ (case pr_older_than p of None \<Rightarrow> [] | Some n \<Rightarrow> if 0 < n then [Below ''created_at'' (now - real_of_int n)] else [])
     @ (if pr_substring p = [] then [] else [Match_Text ''question'' (pr_substring p)])"

definition qa_purge ::
  "('q, 'i, 'v, 'p) vector_client \<Rightarrow> cache_config \<Rightarrow> purge_request \<Rightarrow> real \<Rightarrow> 'q cache_state \<Rightarrow> 'q cache_state \<times> int reply" where
  "qa_purge c cfg p now st =
     (case ensure_collection c cfg st of
        (st1, Inl e) \<Rightarrow> (st1, Inl e)
      | (st1, Inr u) \<Rightarrow>
          (if pr_all p
           then (case vc_drop c (cc_collection cfg) (snd st1) of
               (q, Inl e) \<Rightarrow> ((fst st1, q), Inr 0)
             | (q, Inr u2) \<Rightarrow>
                 (case ensure_collection c cfg (False, q) of (st2, Inl e) \<Rightarrow> (st2, Inr 0) | (st2, Inr u3) \<Rightarrow> (st2, Inr (- 1))))
           else if purge_conditions p now = [] then (st1, Inr 0)
           else delete_matching c cfg (Must (purge_conditions p now)) st1))"

definition flag_low_quality ::
  "('q, 'i, 'v, cache_entry) vector_client \<Rightarrow> (string \<Rightarrow> 'i) \<Rightarrow> cache_config \<Rightarrow> string \<Rightarrow> 'q cache_state \<Rightarrow> 'q cache_state" where
  "flag_low_quality c uuid cfg question st =
     (fst st, fst (vc_set_payload c (cc_collection cfg) (make_point_id uuid question None) (ce_quality_update (\<lambda>_. Some ''low'')) (snd st)))"

record qa_cache_stats =
  cs_points :: int
  cs_threshold :: real
  cs_ttl :: int

definition qa_stats :: "('q, 'i, 'v, 'p) vector_client \<Rightarrow> cache_config \<Rightarrow> 'q cache_state \<Rightarrow> 'q cache_state \<times> qa_cache_stats reply" where
  "qa_stats c cfg st =
     (case ensure_collection c cfg st of
        (st1, Inl e) \<Rightarrow> (st1, Inl e)
      | (st1, Inr u) \<Rightarrow> (st1, (case vc_get c (cc_collection cfg) (snd st1) of Inl e \<Rightarrow> Inl e
            | Inr n \<Rightarrow> Inr \<lparr>cs_points = n, cs_threshold = cc_threshold cfg, cs_ttl = cc_default_ttl cfg\<rparr>)))"

subsection \<open>The judge\<close>

definition judge_lower :: real where "judge_lower = 93 / 100"

record judge_config =
  jc_enabled :: bool
  jc_upper :: real
  jc_fail_open :: bool

text \<open>The environment wins over the configured bounds.\<close>

definition on_words :: "string list" where "on_words = [''1'', ''true'', ''yes'', ''on'']"

definition resolve_judge ::
  "(string \<Rightarrow> real option) \<Rightarrow> string option \<Rightarrow> string option \<Rightarrow> string option \<Rightarrow> real \<Rightarrow> bool \<Rightarrow> judge_config" where
  "resolve_judge parse_float env_judge env_upper env_fail_open upper fail_open =
     \<lparr>jc_enabled = (case env_judge of None \<Rightarrow> True | Some s \<Rightarrow> py_lower s \<in> set on_words),
      jc_upper = (case env_upper of None \<Rightarrow> upper | Some s \<Rightarrow> (case parse_float s of None \<Rightarrow> upper | Some x \<Rightarrow> x)),
      jc_fail_open = (case env_fail_open of None \<Rightarrow> fail_open | Some s \<Rightarrow> py_lower (py_strip s) \<in> set on_words)\<rparr>"

definition py_upper_char :: "char \<Rightarrow> char" where
  "py_upper_char ch = (let n = (of_char ch :: nat) in
     if (97 \<le> n \<and> n \<le> 122) \<or> (224 \<le> n \<and> n \<le> 254 \<and> n \<noteq> 247) then char_of (n - 32) else ch)"

definition says :: "string \<Rightarrow> string \<Rightarrow> bool" where
  "says text word \<longleftrightarrow> startswith text word \<or> py_in ('' '' @ word) text"

definition judge_match ::
  "judge_config \<Rightarrow> (string \<Rightarrow> string \<Rightarrow> string reply) option \<Rightarrow> string \<Rightarrow> string \<Rightarrow> real \<Rightarrow> real option \<Rightarrow> bool" where
  "judge_match jc llm current cached cosine min_score =
     (case llm of None \<Rightarrow> True
      | Some ask \<Rightarrow>
          (if \<not> jc_enabled jc then True
           else if current = [] \<or> cached = [] then True
           else if py_lower (py_strip current) = py_lower (py_strip cached) then True
           else if jc_upper jc \<le> cosine then True
           else if cosine < (case min_score of None \<Rightarrow> judge_lower | Some m \<Rightarrow> max m judge_lower) then True
           else case ask (take 500 current) (take 500 cached) of
               Inl e \<Rightarrow> jc_fail_open jc
             | Inr reply_text \<Rightarrow>
                 (let t = map py_upper_char (py_strip reply_text) in
                  \<not> (says t ''DIFFERENT'' \<and> \<not> says t ''SAME''))))"

subsection \<open>What a lookup serves\<close>

lemma ensure_adds_nothing:
  assumes "vector_laws pts sat c" "ensure_collection c cfg st = (st', x)"
  shows "pts (snd st') (cc_collection cfg) \<subseteq> pts (snd st) (cc_collection cfg)"
proof -
  let ?coll = "cc_collection cfg"
  have idx: "pts (fold (\<lambda>f q. fst (vc_index c ?coll f q)) fs q) ?coll \<subseteq> pts q ?coll" for fs q
    by (induction fs arbitrary: q) (auto dest!: subsetD [OF vector_lawsD(2) [OF assms(1)]])
  obtain b q where st: "st = (b, q)" by (cases st)
  show ?thesis
  proof (cases "vc_create c ?coll (cc_dimension cfg) q")
    case (Pair q1 y)
    have "pts q1 ?coll \<subseteq> pts q ?coll" using vector_lawsD(1) [OF assms(1), of ?coll "cc_dimension cfg" q] Pair by simp
    then show ?thesis using assms(2) idx [of index_fields q1] Pair
      by (auto simp: ensure_collection_def st split: if_splits sum.splits)
  qed
qed

text \<open>Who may see an entry.\<close>

definition may_see :: "string option \<Rightarrow> cache_entry \<Rightarrow> bool" where
  "may_see user e \<longleftrightarrow> ce_scope e = None \<or> (\<exists>u. u \<noteq> [] \<and> user = Some u \<and> ce_scope e = Some u)"

lemma shared_or_mine_sees: "passes entry_sat (shared_or_mine user) e \<longleftrightarrow> may_see user e"
  by (auto simp: passes_def shared_or_mine_def may_see_def split: option.splits)

lemma serve_SomeD:
  assumes "serve tokens cfg r e score = Some h"
  shows "qh_question h = ce_question e" "qh_answer h = ce_answer e" "qh_sources h = ce_sources e" "qh_contents h = ce_contents e"
    "qh_similarity h = score"
    "(case lr_min_score r of None \<Rightarrow> cc_threshold cfg | Some m \<Rightarrow> m) \<le> score"
    "ce_quality e \<noteq> Some ''low''" "\<not> is_degenerate_answer (ce_answer e)"
    "lr_query r = Some q \<Longrightarrow> tokens q = tokens (ce_question e)"
    "qh_stale h \<Longrightarrow> lr_serve_stale r"
    "ce_created e = Some t \<Longrightarrow> ce_ttl e = Some n \<Longrightarrow> t \<noteq> 0 \<Longrightarrow>
       lr_now r - t \<le> real_of_int n + (if qh_stale h then lr_max_stale r else 0)"
  using assms by (auto simp: serve_def Let_def split: if_splits option.splits)

lemma qa_lookup_hit:
  assumes "vector_laws pts entry_sat c" "qa_lookup c tokens cfg r v st = (st', Inr (Some h))"
  obtains i e score where "(i, e) \<in> pts (snd st') (cc_collection cfg)" "may_see (lr_user r) e"
    "serve tokens cfg r e score = Some h" "(i, e) \<in> pts (snd st) (cc_collection cfg)"
proof -
  obtain st1 u where en: "ensure_collection c cfg st = (st1, Inr u)"
    using assms(2) by (auto simp: qa_lookup_def split: prod.splits sum.splits if_splits)
  obtain i e score ps where q: "vc_query c (cc_collection cfg) v 1 (shared_or_mine (lr_user r)) (snd st1) = Inr ((i, e, score) # ps)"
    and s: "st' = st1" "serve tokens cfg r e score = Some h"
    using assms(2) en by (auto simp: qa_lookup_def split: prod.splits sum.splits if_splits list.splits)
  have "(i, e) \<in> pts (snd st1) (cc_collection cfg) \<and> passes entry_sat (shared_or_mine (lr_user r)) e"
    by (rule law_query [OF assms(1) q, of i e score]) simp
  then show ?thesis using that s ensure_adds_nothing [OF assms(1) en] by (auto simp: shared_or_mine_sees)
qed

text \<open>A lookup serves an entry of the collection that the caller may see, above the score asked for, not flagged, with
  the same discriminators as the question, not degenerate and within its time, or, if stale ones are asked for, within the
  allowance after it.\<close>

theorem lookup_serves_valid:
  assumes "vector_laws pts entry_sat c" "qa_lookup c tokens cfg r v st = (st', Inr (Some h))"
  shows "\<exists>i e. (i, e) \<in> pts (snd st') (cc_collection cfg) \<and> qh_answer h = ce_answer e \<and> may_see (lr_user r) e
    \<and> ce_quality e \<noteq> Some ''low'' \<and> \<not> is_degenerate_answer (qh_answer h)
    \<and> (case lr_min_score r of None \<Rightarrow> cc_threshold cfg | Some m \<Rightarrow> m) \<le> qh_similarity h
    \<and> (\<forall>q. lr_query r = Some q \<longrightarrow> tokens q = tokens (ce_question e))
    \<and> (qh_stale h \<longrightarrow> lr_serve_stale r)
    \<and> (\<forall>t n. ce_created e = Some t \<longrightarrow> t \<noteq> 0 \<longrightarrow> ce_ttl e = Some n \<longrightarrow>
         lr_now r - t \<le> real_of_int n + (if qh_stale h then lr_max_stale r else 0))"
proof -
  obtain i e score where h: "(i, e) \<in> pts (snd st') (cc_collection cfg)" "may_see (lr_user r) e" "serve tokens cfg r e score = Some h"
    using qa_lookup_hit [OF assms] by blast
  show ?thesis
    using h(1,2) serve_SomeD [OF h(3)] by (intro exI [of _ i] exI [of _ e]) simp
qed

text \<open>What the other operations add: a store its own entry, if the answer is worth it; feedback a flag; nothing else anything.\<close>

definition storable :: "store_request \<Rightarrow> bool" where
  "storable s \<longleftrightarrow> sq_question s \<noteq> [] \<and> sq_answer s \<noteq> [] \<and> \<not> is_degenerate_answer (sq_answer s)"

lemma upsert_adds:
  assumes "vector_laws pts sat c" "vc_upsert c coll i v p q = (q', x)"
  shows "pts q' coll \<subseteq> insert (i, p) (pts q coll)"
  using vector_lawsD(4) [OF assms(1), of coll i v p q] assms(2) by simp

lemma store_adds:
  assumes "vector_laws pts sat c" "qa_store c uuid cfg s v st = (st', x)"
  shows "pts (snd st') (cc_collection cfg) \<subseteq> pts (snd st) (cc_collection cfg) \<union> {(i, e). e = entry_of cfg s \<and> storable s}"
proof (cases "storable s")
  case False
  then show ?thesis using assms(2) by (auto simp: qa_store_def storable_def)
next
  case True
  let ?coll = "cc_collection cfg" and ?e = "entry_of cfg s" and ?i = "make_point_id uuid (sq_question s) (sq_user_scope s)"
  obtain st1 y where en: "ensure_collection c cfg st = (st1, y)" by fastforce
  note first = ensure_adds_nothing [OF assms(1) en]
  show ?thesis
  proof (cases y)
    case (Inl e)
    then show ?thesis using assms(2) True en first by (auto simp: qa_store_def storable_def)
  next
    case (Inr u)
    obtain q2 z where up: "vc_upsert c ?coll ?i v ?e (snd st1) = (q2, z)" by fastforce
    note second = upsert_adds [OF assms(1) up]
    obtain st3 w where en3: "ensure_collection c cfg (False, q2) = (st3, w)" by fastforce
    note third = ensure_adds_nothing [OF assms(1) en3, simplified]
    obtain q4 z4 where up4: "vc_upsert c ?coll (make_point_id uuid (sq_question s) None) v ?e (snd st3) = (q4, z4)" by fastforce
    note fourth = upsert_adds [OF assms(1) up4]
    have "snd st' \<in> {q2, snd st3, q4}"
      using assms(2) True en Inr up en3 up4 by (auto simp: qa_store_def storable_def split: sum.splits if_splits)
    then show ?thesis using first second third fourth True by (elim insertE emptyE) fastforce+
  qed
qed

lemma lookup_adds_nothing:
  assumes "vector_laws pts sat c" "qa_lookup c tokens cfg r v st = (st', x)"
  shows "pts (snd st') (cc_collection cfg) \<subseteq> pts (snd st) (cc_collection cfg)"
proof -
  obtain st1 y where en: "ensure_collection c cfg st = (st1, y)" by fastforce
  obtain st2 z where en2: "ensure_collection c cfg (False, snd st1) = (st2, z)" by fastforce
  have "st' = st1 \<or> st' = st2"
    using assms(2) en en2 by (auto simp: qa_lookup_def split: sum.splits list.splits if_splits)
  then show ?thesis using ensure_adds_nothing [OF assms(1) en] ensure_adds_nothing [OF assms(1) en2] by auto
qed

lemma delete_adds_nothing:
  assumes "vector_laws pts sat c"
  shows "pts (snd (fst (delete_matching c cfg f st))) (cc_collection cfg) \<subseteq> pts (snd st) (cc_collection cfg)"
  using vector_lawsD(5) [OF assms, of "cc_collection cfg" f "snd st"]
  by (auto simp: delete_matching_def split: prod.splits sum.splits)

lemma invalidate_adds_nothing:
  assumes "vector_laws pts sat c"
  shows "pts (snd (fst (invalidate_repo c cfg rp st))) (cc_collection cfg) \<subseteq> pts (snd st) (cc_collection cfg)"
proof -
  obtain st1 y where en: "ensure_collection c cfg st = (st1, y)" by fastforce
  show ?thesis
    using ensure_adds_nothing [OF assms en] delete_adds_nothing [OF assms, of cfg _ st1]
    by (cases y) (auto simp: invalidate_repo_def en)
qed

lemma purge_adds_nothing:
  assumes "vector_laws pts sat c"
  shows "pts (snd (fst (qa_purge c cfg p now st))) (cc_collection cfg) \<subseteq> pts (snd st) (cc_collection cfg)"
proof -
  obtain st1 y where en: "ensure_collection c cfg st = (st1, y)" by fastforce
  obtain q z where dr: "vc_drop c (cc_collection cfg) (snd st1) = (q, z)" by fastforce
  obtain st2 w where en2: "ensure_collection c cfg (False, q) = (st2, w)" by fastforce
  have "pts q (cc_collection cfg) \<subseteq> pts (snd st1) (cc_collection cfg)"
    using vector_lawsD(3) [OF assms, of "cc_collection cfg" "snd st1"] dr by simp
  then show ?thesis
    using ensure_adds_nothing [OF assms en] ensure_adds_nothing [OF assms en2]
    by (cases y) (auto simp: qa_purge_def en dr en2 split: sum.splits if_splits dest!: subsetD [OF delete_adds_nothing [OF assms]])
qed

lemma flag_adds_flags:
  assumes "vector_laws pts sat c"
  shows "pts (snd (flag_low_quality c uuid cfg question st)) (cc_collection cfg)
    \<subseteq> pts (snd st) (cc_collection cfg) \<union> {(i, e\<lparr>ce_quality := Some ''low''\<rparr>) | i e. (i, e) \<in> pts (snd st) (cc_collection cfg)}"
  using vector_lawsD(6) [OF assms, of "cc_collection cfg"] by (fastforce simp: flag_low_quality_def)

subsection \<open>Reindexing and deep sources\<close>

lemma split_on_append: "split_on c (a @ c # b) = split_on c a @ split_on c b"
  by (induction a) (auto split: list.splits)

lemma slashes_join: "list_all (\<lambda>p. CHR ''/'' \<notin> set p) ps \<Longrightarrow> occurrences (join ''/'' ps) CHR ''/'' = length ps - 1"
proof (induction ps)
  case (Cons x xs)
  then show ?case by (cases xs) (auto simp: occurrences_def filter_empty_conv)
qed (simp add: occurrences_def)

text \<open>The repository guessed for a file below a directory, or for a code file, is not its repository.\<close>

lemma guess_is_deep:
  assumes "repo_guess s = Some g" "3 \<le> length (split_on CHR ''/'' s)" "\<not> document_ending (join ''/'' (take 3 (split_on CHR ''/'' s)))"
  shows "2 \<le> occurrences g CHR ''/''"
proof -
  let ?ps = "split_on CHR ''/'' s"
  have none: "list_all (\<lambda>p. CHR ''/'' \<notin> set p) ?ps" by (auto simp: list_all_iff dest: split_on_no_sep)
  have sl: "occurrences (join ''/'' (take k ?ps)) CHR ''/'' = min k (length ?ps) - 1" for k
  proof -
    have "list_all (\<lambda>p. CHR ''/'' \<notin> set p) (take k ?ps)" using none by (auto simp: list_all_iff dest: in_set_takeD)
    then show ?thesis using slashes_join [of "take k ?ps"] by (simp add: min.commute)
  qed
  have "occurrences (join ''/'' (take 3 ?ps)) CHR ''/'' = 2" using sl [of 3] assms(2) by simp
  then have "filter ((=) CHR ''/'') (join ''/'' (take 3 ?ps)) \<noteq> []" by (auto simp: occurrences_def)
  then have "CHR ''/'' \<in> set (join ''/'' (take 3 ?ps))" by (auto simp: filter_empty_conv)
  then have "g \<in> {join ''/'' (take 4 ?ps), join ''/'' (take 3 ?ps)}"
    using assms(1,3) by (auto simp: repo_guess_def Let_def split: if_splits)
  then show ?thesis using sl [of 4] sl [of 3] assms(2) by auto
qed

text \<open>C33: A cached answer all of whose sources are files below a directory of the repository, or code files, survives the
  invalidation of that repository, unless the caller named its repositories.\<close>

theorem deep_answer_survives_reindex:
  assumes "vector_laws pts entry_sat c" "(i, entry_of cfg s) \<in> pts q (cc_collection cfg)" "sq_source_repos s = []"
    and "occurrences rp CHR ''/'' \<le> 1"
    and "list_all (\<lambda>src. \<exists>path. src = rp @ CHR ''/'' # path
       \<and> 3 \<le> length (split_on CHR ''/'' src) \<and> \<not> document_ending (join ''/'' (take 3 (split_on CHR ''/'' src)))) (sq_sources s)"
  shows "(i, entry_of cfg s) \<in> pts (snd (fst (invalidate_repo c cfg rp (True, q)))) (cc_collection cfg)"
proof -
  have "repo_guess src \<noteq> Some rp" if "src \<in> set (sq_sources s)" for src
    using guess_is_deep [of src rp] that assms(4,5) by (fastforce simp: list_all_iff)
  then have "rp \<notin> set (derive_repos (sq_sources s))" by (auto simp: derive_repos_def List.map_filter_def)
  then have "\<not> passes entry_sat (Should [Match_Value ''repos'' rp, Match_Value ''source_repos'' rp]) (entry_of cfg s)"
    using assms(3) by (simp add: passes_def entry_of_def Let_def)
  from law_delete_keeps [OF assms(1,2) this] show ?thesis
    by (auto simp: invalidate_repo_def ensure_collection_def delete_matching_def split: prod.splits sum.splits)
qed

text \<open>The retry writes a scoped answer under the id of the shared one.\<close>

lemma retry_drops_namespace:
  assumes "storable s" "vc_upsert c (cc_collection cfg) (make_point_id uuid (sq_question s) (sq_user_scope s)) v (entry_of cfg s) q = (q2, Inl e)"
    and "is_collection_missing e" "vc_names c q2 = Inr names" "cc_collection cfg \<in> names"
  shows "qa_store c uuid cfg s v (True, q)
    = ((True, fst (vc_upsert c (cc_collection cfg) (make_point_id uuid (sq_question s) None) v (entry_of cfg s) q2)), Inr ())"
  using assms by (simp add: qa_store_def storable_def ensure_collection_def)

text \<open>A score between a lower floor and the judge's own lower bound is never judged.\<close>

lemma low_floor_unjudged:
  assumes "m \<le> judge_lower" "cosine < judge_lower"
  shows "judge_match jc llm current cached cosine (Some m)"
  using assms by (simp add: judge_match_def max_def split: option.split)

text \<open>A judge that fails keeps the hit out, unless told otherwise; one that says both words lets it in.\<close>

lemma failing_judge_rejects:
  assumes "jc_enabled jc" "current \<noteq> []" "cached \<noteq> []" "py_lower (py_strip current) \<noteq> py_lower (py_strip cached)"
    "judge_lower \<le> cosine" "cosine < jc_upper jc" "ask (take 500 current) (take 500 cached) = Inl e"
  shows "judge_match jc (Some ask) current cached cosine None = jc_fail_open jc"
  using assms by (simp add: judge_match_def)

lemma both_words_accepted:
  assumes "ask (take 500 current) (take 500 cached) = Inr ''not the same''"
  shows "judge_match jc (Some ask) current cached cosine m"
proof -
  have "says (map py_upper_char (py_strip ''not the same'')) ''SAME''" by code_simp
  then show ?thesis using assms by (simp add: judge_match_def Let_def)
qed

text \<open>An entry in a database of memory, a source below a directory.\<close>

definition deep_request :: store_request where
  "deep_request =
     \<lparr>sq_question = ''q'', sq_answer = ''a'', sq_sources = [''o/n/d/f''], sq_contents = [], sq_source_repos = [], sq_ttl = None,
      sq_source_urls = [], sq_user_scope = None, sq_now = 1\<rparr>"

theorem deep_answer_survives_reindex_witness:
  "(0 :: nat, entry_of default_cache deep_request)
     \<in> db_points (snd (fst (invalidate_repo (memory_client entry_sat :: ((nat, cache_entry) memory_db, nat, nat, cache_entry) vector_client)
          default_cache ''o/n'' (True, [(''opsrag_qa_cache'', [(0, entry_of default_cache deep_request)])])))) ''opsrag_qa_cache''"
proof -
  have src: "split_on CHR ''/'' ''o/n/d/f'' = [''o'', ''n'', ''d'', ''f'']" "\<not> document_ending ''o/n/d''" "occurrences ''o/n'' CHR ''/'' = 1"
    by code_simp+
  then have deep: "list_all (\<lambda>src. \<exists>path. src = ''o/n'' @ CHR ''/'' # path
       \<and> 3 \<le> length (split_on CHR ''/'' src) \<and> \<not> document_ending (join ''/'' (take 3 (split_on CHR ''/'' src)))) (sq_sources deep_request)"
    by (simp add: deep_request_def)
  have pt: "(0, entry_of default_cache deep_request) \<in> db_points [(''opsrag_qa_cache'', [(0, entry_of default_cache deep_request)])] (cc_collection default_cache)"
    by (simp add: db_points_def dget_def default_cache_def)
  have rest: "sq_source_repos deep_request = []" "occurrences ''o/n'' CHR ''/'' \<le> 1" "cc_collection default_cache = ''opsrag_qa_cache''"
    by (simp add: deep_request_def, simp add: src(3), simp add: default_cache_def)
  let ?c = "memory_client entry_sat :: ((nat, cache_entry) memory_db, nat, nat, cache_entry) vector_client"
  have laws: "vector_laws db_points entry_sat ?c" by (rule memory_client_laws)
  have "(0, entry_of default_cache deep_request) \<in> db_points (snd (fst (invalidate_repo ?c default_cache ''o/n''
      (True, [(''opsrag_qa_cache'', [(0, entry_of default_cache deep_request)])])))) (cc_collection default_cache)"
    by (rule deep_answer_survives_reindex [where pts = db_points and cfg = default_cache, OF laws pt rest(1,2) deep])
  then show ?thesis by (simp only: rest(3))
qed

theorem lookup_serves_valid_witness:
  "\<exists>h. snd (qa_lookup (memory_client entry_sat :: ((nat, cache_entry) memory_db, nat, nat, cache_entry) vector_client) (\<lambda>q. {}) default_cache
        \<lparr>lr_query = None, lr_user = None, lr_serve_stale = False, lr_max_stale = 0, lr_min_score = None, lr_now = 2\<rparr> 0
        (True, [(''opsrag_qa_cache'', [(0, entry_of default_cache (deep_request\<lparr>sq_answer := ''The quick brown fox jumps over the lazy dog and runs away''\<rparr>))])]))
      = Inr (Some h) \<and> \<not> qh_stale h"
proof -
  let ?a = "''The quick brown fox jumps over the lazy dog and runs away''"
  let ?c = "memory_client entry_sat :: ((nat, cache_entry) memory_db, nat, nat, cache_entry) vector_client"
  let ?r = "\<lparr>lr_query = None, lr_user = None, lr_serve_stale = False, lr_max_stale = 0, lr_min_score = None, lr_now = 2\<rparr>"
  let ?e = "entry_of default_cache (deep_request\<lparr>sq_answer := ?a\<rparr>)"
  have text_ok: "\<not> is_degenerate_answer ?a" by code_simp
  have e: "ce_scope ?e = None" "ce_quality ?e = Some ''ok''" "ce_answer ?e = ?a" "ce_ttl ?e = Some 1209600" "ce_created ?e = Some 1"
    by (simp_all add: entry_of_def deep_request_def stamp_def default_cache_def Let_def)
  obtain h where h: "serve (\<lambda>q. {}) default_cache ?r ?e 1 = Some h"
    using e text_ok by (simp add: serve_def default_cache_def Let_def)
  have "passes entry_sat (shared_or_mine None) ?e" by (simp add: shared_or_mine_sees may_see_def e)
  then have l: "qa_lookup ?c (\<lambda>q. {}) default_cache ?r 0 (True, [(''opsrag_qa_cache'', [(0, ?e)])])
      = ((True, [(''opsrag_qa_cache'', [(0, ?e)])]), Inr (Some h))"
    using h by (simp add: qa_lookup_def ensure_collection_def memory_client_def default_cache_def)
  have laws: "vector_laws db_points entry_sat ?c" by (rule memory_client_laws)
  from lookup_serves_valid [where pts = db_points and cfg = default_cache, OF laws l] have "qh_stale h \<longrightarrow> lr_serve_stale ?r" by blast
  then show ?thesis using l by simp
qed

end
