(* ===== verification/Investigation_Cache.thy ===== *)
theory Investigation_Cache
  imports Vector_Client
begin

text \<open>
  The cache of tool-path investigations (\<open>agent/cache/investigation_cache.py\<close>): past answers that the reasoner reads as
  context, with a decay by age and the users' feedback. The database client, the fresh ids, the clock and the test for a
  UUID are parameters.
\<close>

subsection \<open>Entries\<close>

record feedback =
  fb_up :: int
  fb_down :: int
  fb_corrections :: "(string \<times> real) list"

record inv_entry =
  ie_question :: string
  ie_answer :: string
  ie_audit :: "json list"
  ie_route :: obj
  ie_thread :: string
  ie_user :: string
  ie_created :: "real option"
  ie_scope :: "string option"
  ie_feedback :: "feedback option"

fun inv_sat :: "condition \<Rightarrow> inv_entry \<Rightarrow> bool" where
  "inv_sat (Is_Empty f) e = (f = ''user_scope'' \<and> ie_scope e = None)"
| "inv_sat (Match_Value f v) e = ((f = ''user_scope'' \<and> ie_scope e = Some v) \<or> (f = ''thread_id'' \<and> ie_thread e = v))"
| "inv_sat (Match_Text f t) e = (f = ''question'' \<and> sublist t (ie_question e))"
| "inv_sat (Below f r) e = (f = ''created_at'' \<and> (\<exists>c. ie_created e = Some c \<and> c < r))"
| "inv_sat (Above f r) e = (f = ''feedback.down'' \<and> (\<exists>b. ie_feedback e = Some b \<and> r < real_of_int (fb_down b)))"

record inv_config =
  ic_collection :: string
  ic_vector_size :: nat
  ic_threshold :: real
  ic_top_k :: nat

definition default_investigations :: inv_config where
  "default_investigations =
     \<lparr>ic_collection = ''opsrag_investigations'', ic_vector_size = 768, ic_threshold = 85 / 100, ic_top_k = 3\<rparr>"

type_synonym 'q inv_state = "bool \<times> 'q"
type_synonym ('q, 'i) inv_client = "('q, 'i, real list, inv_entry) vector_client"

text \<open>The collection is made if it cannot be read; a failure is logged and leaves the flag down.\<close>

definition ensure_investigations :: "('q, 'i) inv_client \<Rightarrow> inv_config \<Rightarrow> 'q inv_state \<Rightarrow> 'q inv_state" where
  "ensure_investigations c cfg = (\<lambda>(ensured, q).
     let coll = ic_collection cfg;
         finish = (\<lambda>q. (True, fst (vc_index c coll ''thread_id'' q)))
     in if ensured then (True, q)
        else case vc_get c coll q of
          Inr n \<Rightarrow> finish q
        | Inl e \<Rightarrow> (case vc_create c coll (ic_vector_size cfg) q of
              (q1, Inl e1) \<Rightarrow> (False, q1) | (q1, Inr u) \<Rightarrow> finish (fst (vc_index c coll ''user_scope'' q1))))"

subsection \<open>Storing and searching\<close>

record inv_request =
  iq_question :: string
  iq_answer :: string
  iq_audit :: "json list"
  iq_route :: obj
  iq_thread :: string
  iq_user :: string
  iq_scope :: "string option"
  iq_now :: real

definition inv_entry_of :: "inv_request \<Rightarrow> inv_entry" where
  "inv_entry_of r =
     \<lparr>ie_question = iq_question r, ie_answer = iq_answer r, ie_audit = iq_audit r, ie_route = iq_route r, ie_thread = iq_thread r,
      ie_user = iq_user r, ie_created = Some (iq_now r), ie_scope = stamp (iq_scope r), ie_feedback = None\<rparr>"

definition inv_store ::
  "('q, 'i) inv_client \<Rightarrow> inv_config \<Rightarrow> 'i \<Rightarrow> inv_request \<Rightarrow> real list \<Rightarrow> 'q inv_state \<Rightarrow> 'q inv_state \<times> 'i option" where
  "inv_store c cfg fresh r v st =
     (let (ensured, q) = ensure_investigations c cfg st in
      if \<not> ensured \<or> v = [] then ((ensured, q), None)
      else case vc_upsert c (ic_collection cfg) fresh v (inv_entry_of r) q of
          (q1, Inl e) \<Rightarrow> ((ensured, q1), None) | (q1, Inr u) \<Rightarrow> ((ensured, q1), Some fresh))"

definition decay_floor :: real where "decay_floor = 1 / 2"
definition decay_half_life_days :: real where "decay_half_life_days = 180"

definition decay_factor_for_age :: "real \<Rightarrow> real" where
  "decay_factor_for_age age = max decay_floor (1 - max 0 (age / 86400) / decay_half_life_days)"

definition adjusted_similarity :: "real \<Rightarrow> real \<Rightarrow> real" where
  "adjusted_similarity raw age = raw * decay_factor_for_age age"

record 'i inv_hit =
  ih_id :: 'i
  ih_entry :: inv_entry
  ih_similarity :: real
  ih_decayed :: real
  ih_age :: real

definition hit_of :: "real \<Rightarrow> 'i \<times> inv_entry \<times> real \<Rightarrow> 'i inv_hit" where
  "hit_of now = (\<lambda>(i, e, raw).
     let created = (case ie_created e of None \<Rightarrow> now | Some t \<Rightarrow> if t = 0 then now else t);
         age = max 0 (now - created)
     in \<lparr>ih_id = i, ih_entry = e, ih_similarity = raw, ih_decayed = adjusted_similarity raw age, ih_age = age\<rparr>)"

definition rank_hits :: "real \<Rightarrow> real \<Rightarrow> nat \<Rightarrow> ('i \<times> inv_entry \<times> real) list \<Rightarrow> 'i inv_hit list" where
  "rank_hits now threshold k ps = take k (sort_desc ih_decayed (filter (\<lambda>h. threshold \<le> ih_decayed h) (map (hit_of now) ps)))"

definition inv_search ::
  "('q, 'i) inv_client \<Rightarrow> inv_config \<Rightarrow> nat option \<Rightarrow> real option \<Rightarrow> string option \<Rightarrow> real \<Rightarrow> real list
    \<Rightarrow> 'q inv_state \<Rightarrow> 'q inv_state \<times> 'i inv_hit list" where
  "inv_search c cfg top_k threshold user now v st =
     (let (ensured, q) = ensure_investigations c cfg st;
          k = (case top_k of None \<Rightarrow> ic_top_k cfg | Some n \<Rightarrow> if n = 0 then ic_top_k cfg else n);
          least = (case threshold of None \<Rightarrow> ic_threshold cfg | Some t \<Rightarrow> t)
      in ((ensured, q),
          if \<not> ensured \<or> v = [] then []
          else case vc_query c (ic_collection cfg) v (max (k * 3) k) (shared_or_mine user) q of
              Inl e \<Rightarrow> [] | Inr ps \<Rightarrow> rank_hits now least k ps))"

subsection \<open>Feedback\<close>

definition loaded_runbook :: "(json \<Rightarrow> string) \<Rightarrow> json \<Rightarrow> string option result" where
  "loaded_runbook other row =
     (case row of JObj d \<Rightarrow>
        (if dget JNull ''name'' d \<noteq> JStr ''runbook_load'' \<or> map_of d ''error'' \<noteq> None then Inr None
         else case py_or (dget JNull ''args'' d) (JObj []) of
             JObj args \<Rightarrow>
               (let name = json_str other (py_or (dget JNull ''name'' args) (JStr []));
                    rb = drop 3 name
                in Inr (if startswith name ''rb-'' \<and> rb \<noteq> [] then Some rb else None))
           | _ \<Rightarrow> Inl (AttributeError ''get''))
      | _ \<Rightarrow> Inr None)"

definition extract_loaded_runbook_ids :: "(json \<Rightarrow> string) \<Rightarrow> json list \<Rightarrow> string list result" where
  "extract_loaded_runbook_ids other audit =
     (case traverse (loaded_runbook other) audit of Inl e \<Rightarrow> Inl e
      | Inr ids \<Rightarrow> Inr (unique_in_order (List.map_filter id ids)))"

record 'i feedback_result =
  fr_ok :: bool
  fr_point :: "'i option"
  fr_runbooks :: "string list"
  fr_query :: "string option"
  fr_answer :: "string option"

definition not_recorded :: "'i feedback_result" where
  "not_recorded = \<lparr>fr_ok = False, fr_point = None, fr_runbooks = [], fr_query = None, fr_answer = None\<rparr>"

text \<open>Every page of a scroll; the fuel is the number of pages.\<close>

fun scroll_all ::
  "('q, 'i) inv_client \<Rightarrow> string \<Rightarrow> condition \<Rightarrow> 'q \<Rightarrow> nat \<Rightarrow> nat option \<Rightarrow> ('i \<times> inv_entry) list reply option" where
  "scroll_all c coll cond q 0 off = None"
| "scroll_all c coll cond q (Suc n) off =
     (case vc_scroll c coll cond 256 off q of
        Inl e \<Rightarrow> Some (Inl e)
      | Inr (ps, None) \<Rightarrow> Some (Inr ps)
      | Inr (ps, Some off') \<Rightarrow>
          (case scroll_all c coll cond q n (Some off') of None \<Rightarrow> None
           | Some (Inl e) \<Rightarrow> Some (Inl e) | Some (Inr qs) \<Rightarrow> Some (Inr (ps @ qs))))"

definition created_or_zero :: "'i \<times> inv_entry \<Rightarrow> real" where
  "created_or_zero p = (case ie_created (snd p) of None \<Rightarrow> 0 | Some t \<Rightarrow> t)"

definition pick_turn :: "string \<Rightarrow> ('i \<times> inv_entry) list \<Rightarrow> ('i \<times> inv_entry) option" where
  "pick_turn snippet ps =
     (case (if snippet = [] then ps else filter (\<lambda>p. py_in snippet (ie_answer (snd p))) ps) of
        [] \<Rightarrow> None | x # xs \<Rightarrow> Some (argmax_from created_or_zero x xs))"

definition resolve_point ::
  "('q, 'i) inv_client \<Rightarrow> inv_config \<Rightarrow> (string \<Rightarrow> 'i option) \<Rightarrow> nat \<Rightarrow> string \<Rightarrow> string \<Rightarrow> 'q \<Rightarrow> ('i \<times> inv_entry) option option" where
  "resolve_point c cfg as_uuid pages investigation_id snippet q =
     (case as_uuid investigation_id of
        None \<Rightarrow>
          (case scroll_all c (ic_collection cfg) (Match_Value ''thread_id'' investigation_id) q pages None of
             None \<Rightarrow> None | Some (Inl e) \<Rightarrow> Some None | Some (Inr ps) \<Rightarrow> Some (pick_turn snippet ps))
      | Some i \<Rightarrow>
          (case vc_retrieve c (ic_collection cfg) i q of
             Inl e \<Rightarrow> Some None | Inr [] \<Rightarrow> Some None | Inr (p # _) \<Rightarrow> Some (Some p)))"

definition add_feedback :: "string \<Rightarrow> string \<Rightarrow> real \<Rightarrow> feedback option \<Rightarrow> feedback" where
  "add_feedback thumbs correction now fb0 =
     (let fb = (case fb0 of None \<Rightarrow> \<lparr>fb_up = 0, fb_down = 0, fb_corrections = []\<rparr> | Some b \<Rightarrow> b);
          fb1 = (if thumbs = ''up'' then fb\<lparr>fb_up := fb_up fb + 1\<rparr> else fb\<lparr>fb_down := fb_down fb + 1\<rparr>)
      in if correction = [] then fb1
         else fb1\<lparr>fb_corrections := take 20 (fb_corrections fb1 @ [(take 1000 correction, now)])\<rparr>)"

definition text_or_none :: "string \<Rightarrow> string option" where
  "text_or_none s = (if s = [] then None else Some s)"

text \<open>\<open>None\<close>: the pages did not end.\<close>

definition inv_record_feedback ::
  "('q, 'i) inv_client \<Rightarrow> inv_config \<Rightarrow> (string \<Rightarrow> 'i option) \<Rightarrow> (json \<Rightarrow> string) \<Rightarrow> nat \<Rightarrow> string \<Rightarrow> string \<Rightarrow> string \<Rightarrow> string \<Rightarrow> real
    \<Rightarrow> 'q inv_state \<Rightarrow> ('q inv_state \<times> 'i feedback_result) option" where
  "inv_record_feedback c cfg as_uuid other pages investigation_id thumbs correction snippet now st =
     (if thumbs \<notin> {''up'', ''down''} then Some (st, not_recorded)
      else let (ensured, q) = ensure_investigations c cfg st in
        if \<not> ensured then Some ((ensured, q), not_recorded)
        else case resolve_point c cfg as_uuid pages investigation_id snippet q of
            None \<Rightarrow> None
          | Some None \<Rightarrow> Some ((ensured, q), not_recorded)
          | Some (Some (i, e)) \<Rightarrow>
              (let fb = add_feedback thumbs correction now (ie_feedback e) in
               case vc_set_payload c (ic_collection cfg) i (ie_feedback_update (\<lambda>_. Some fb)) q of
                 (q1, Inl err) \<Rightarrow> Some ((ensured, q1), not_recorded)
               | (q1, Inr u) \<Rightarrow>
                   (case extract_loaded_runbook_ids other (ie_audit e) of
                      Inl err \<Rightarrow> Some ((ensured, q1), not_recorded)
                    | Inr ids \<Rightarrow> Some ((ensured, q1), \<lparr>fr_ok = True, fr_point = Some i, fr_runbooks = ids,
                        fr_query = text_or_none (ie_question e), fr_answer = text_or_none (ie_answer e)\<rparr>))))"

subsection \<open>Housekeeping\<close>

record inv_purge_request =
  ip_all :: bool
  ip_older_than :: "int option"
  ip_thumbs_down :: bool
  ip_substring :: string

definition inv_purge_conditions :: "inv_purge_request \<Rightarrow> real \<Rightarrow> condition list" where
  "inv_purge_conditions p now =
     (case ip_older_than p of None \<Rightarrow> [] | Some n \<Rightarrow> if 0 < n then [Below ''created_at'' (now - real_of_int n)] else [])
     @ (if ip_thumbs_down p then [Above ''feedback.down'' 0] else [])
     @ (if ip_substring p = [] then [] else [Match_Text ''question'' (ip_substring p)])"

definition inv_purge ::
  "('q, 'i) inv_client \<Rightarrow> inv_config \<Rightarrow> inv_purge_request \<Rightarrow> real \<Rightarrow> 'q inv_state \<Rightarrow> 'q inv_state \<times> int" where
  "inv_purge c cfg p now st =
     (let (ensured, q) = ensure_investigations c cfg st; conds = inv_purge_conditions p now in
      if \<not> ensured then ((ensured, q), 0)
      else if ip_all p
      then (case vc_drop c (ic_collection cfg) q of
          (q1, Inl e) \<Rightarrow> ((ensured, q1), 0) | (q1, Inr u) \<Rightarrow> (ensure_investigations c cfg (False, q1), - 1))
      else if conds = [] then ((ensured, q), 0)
      else case vc_delete c (ic_collection cfg) (Must conds) q of
          (q1, Inl e) \<Rightarrow> ((ensured, q1), 0) | (q1, Inr u) \<Rightarrow> ((ensured, q1), - 1))"

definition inv_count :: "('q, 'i) inv_client \<Rightarrow> inv_config \<Rightarrow> 'q inv_state \<Rightarrow> 'q inv_state \<times> int" where
  "inv_count c cfg st =
     (let (ensured, q) = ensure_investigations c cfg st in
      ((ensured, q), if \<not> ensured then 0 else case vc_get c (ic_collection cfg) q of Inl e \<Rightarrow> 0 | Inr n \<Rightarrow> n))"

subsection \<open>Facts\<close>

definition may_read :: "string option \<Rightarrow> inv_entry \<Rightarrow> bool" where
  "may_read user e \<longleftrightarrow> ie_scope e = None \<or> (\<exists>u. u \<noteq> [] \<and> user = Some u \<and> ie_scope e = Some u)"

lemma shared_or_mine_reads: "passes inv_sat (shared_or_mine user) e \<longleftrightarrow> may_read user e"
  by (auto simp: passes_def shared_or_mine_def may_read_def split: option.splits)

lemma hit_of_fields [simp]: "ih_entry (hit_of now (i, e, raw)) = e" "ih_id (hit_of now (i, e, raw)) = i"
  "ih_similarity (hit_of now (i, e, raw)) = raw" "ih_decayed (hit_of now (i, e, raw)) = adjusted_similarity raw (ih_age (hit_of now (i, e, raw)))"
  by (simp_all add: hit_of_def Let_def)

lemma in_rank_hits:
  "h \<in> set (rank_hits now threshold k ps) \<Longrightarrow> h \<in> hit_of now ` set ps \<and> threshold \<le> ih_decayed h"
  by (auto simp: rank_hits_def dest!: in_set_takeD)

text \<open>A search shows stored investigations only, to their author if they are personal, best first and no more than asked for.\<close>

lemma search_shows_own:
  assumes "vector_laws pts inv_sat c" "inv_search c cfg (Some (Suc k)) threshold user now v st = (st', hits)"
  shows "(\<forall>h \<in> set hits. (ih_id h, ih_entry h) \<in> pts (snd st') (ic_collection cfg) \<and> may_read user (ih_entry h)
      \<and> (case threshold of None \<Rightarrow> ic_threshold cfg | Some t \<Rightarrow> t) \<le> ih_decayed h)
    \<and> length hits \<le> Suc k \<and> sorted_wrt (\<lambda>a b. ih_decayed b \<le> ih_decayed a) hits"
proof -
  obtain ensured q where en: "ensure_investigations c cfg st = (ensured, q)" by fastforce
  let ?query = "vc_query c (ic_collection cfg) v (max (Suc k * 3) (Suc k)) (shared_or_mine user) q"
  let ?least = "case threshold of None \<Rightarrow> ic_threshold cfg | Some t \<Rightarrow> t"
  have st: "snd st' = q" "hits = (if \<not> ensured \<or> v = [] then [] else case ?query of Inl e \<Rightarrow> [] | Inr ps \<Rightarrow> rank_hits now ?least (Suc k) ps)"
    using assms(2) by (auto simp: inv_search_def en Let_def)
  show ?thesis
  proof (cases "hits = []")
    case False
    then obtain ps where ps: "?query = Inr ps" "hits = rank_hits now ?least (Suc k) ps"
      using st(2) by (auto split: if_splits sum.splits)
    have "(ih_id h, ih_entry h) \<in> pts q (ic_collection cfg) \<and> may_read user (ih_entry h) \<and> ?least \<le> ih_decayed h"
      if "h \<in> set hits" for h
    proof -
      have "h \<in> set (rank_hits now ?least (Suc k) ps)" using that ps(2) by simp
      from in_rank_hits [OF this] obtain i e raw where h: "(i, e, raw) \<in> set ps" "h = hit_of now (i, e, raw)" "?least \<le> ih_decayed h"
        by (auto simp del: hit_of_fields)
      show ?thesis using law_query [OF assms(1) ps(1) h(1)] h by (simp add: shared_or_mine_reads)
    qed
    moreover have "length hits \<le> Suc k" by (simp add: ps(2) rank_hits_def)
    moreover have "sorted_wrt (\<lambda>a b. ih_decayed b \<le> ih_decayed a) hits"
      unfolding ps(2) rank_hits_def by (rule sorted_wrt_take) (rule sorted_sort_desc)
    ultimately show ?thesis using st(1) by blast
  qed simp
qed

text \<open>With the default threshold an investigation older than 27 days is never shown, however close its question is; the
  floor of the decay is never reached.\<close>

lemma month_old_unreachable:
  assumes "raw \<le> 1" "27 * 86400 < age" "0 \<le> raw"
  shows "adjusted_similarity raw age < ic_threshold default_investigations"
proof -
  have "decay_factor_for_age age < 85 / 100"
    using assms(2) by (simp add: decay_factor_for_age_def decay_floor_def decay_half_life_days_def field_simps max_def)
  moreover have "0 \<le> decay_factor_for_age age" by (simp add: decay_factor_for_age_def decay_floor_def max_def)
  ultimately have "raw * decay_factor_for_age age < 85 / 100"
    using assms(1) mult_right_mono [of raw 1 "decay_factor_for_age age"] by linarith
  then show ?thesis by (simp add: adjusted_similarity_def default_investigations_def)
qed

text \<open>The corrections kept are the first twenty: the twenty-first is thanked for and dropped.\<close>

lemma later_correction_lost:
  assumes "length (fb_corrections fb) = 20"
  shows "fb_corrections (add_feedback thumbs correction now (Some fb)) = fb_corrections fb"
  using assms by (simp add: add_feedback_def Let_def)

text \<open>A database whose pages move forward below a bound ends the scroll.\<close>

lemma scroll_all_ends:
  assumes "\<And>o1 ps o2. vc_scroll c coll cond 256 o1 q = Inr (ps, Some o2) \<Longrightarrow> o2 \<le> bound \<and> (\<forall>x. o1 = Some x \<longrightarrow> x < o2)"
    and "\<forall>x. off = Some x \<longrightarrow> x \<le> bound \<and> bound < n + x" "off = None \<longrightarrow> bound + 1 < n"
  shows "scroll_all c coll cond q n off \<noteq> None"
  using assms(2,3)
proof (induction n arbitrary: off)
  case 0
  then show ?case using assms(1) by (cases off) auto
next
  case (Suc n)
  have step: "scroll_all c coll cond q n (Some o2) \<noteq> None" if "vc_scroll c coll cond 256 off q = Inr (ps, Some o2)" for ps o2
    using Suc.prems assms(1) [OF that] by (intro Suc.IH) (cases off; auto)+
  then show ?case by (auto split: sum.split prod.split option.split)
qed

end
