(* ===== verification/Classifier.thy ===== *)
theory Classifier
  imports Qa_Keys Query_Intent
begin

text \<open>
  The query classifier (\<open>agent/classifier.py\<close>): patterns, a router over embedded examples and a model as the last resort
  put a question into a category, which decides whether and how long its answer is cached and whether anything is
  retrieved for it. The embedder, the model and the deployment's names are parameters.
\<close>

datatype query_category = FORENSIC | LIVE | PROCEDURAL | MIXED | INFRA_GRAPH | CASUAL | UNKNOWN

fun category_value :: "query_category \<Rightarrow> string" where
  "category_value FORENSIC = ''forensic''"
| "category_value LIVE = ''live''"
| "category_value PROCEDURAL = ''procedural''"
| "category_value MIXED = ''mixed''"
| "category_value INFRA_GRAPH = ''infra_graph''"
| "category_value CASUAL = ''casual''"
| "category_value UNKNOWN = ''unknown''"

definition all_categories :: "query_category list" where
  "all_categories = [FORENSIC, LIVE, PROCEDURAL, MIXED, INFRA_GRAPH, CASUAL, UNKNOWN]"

subsection \<open>Patterns\<close>

definition ws :: re where "ws = Star (Chars is_space)"

definition one_of :: "string list \<Rightarrow> re" where "one_of words = Choice (map Word_Ci words)"

definition live_re :: re where
  "live_re = bounded (Choice [one_of [''current'', ''currently'', ''now'', ''right now'', ''just now'', ''today'', ''tonight'', ''this hour'',
     ''recently'', ''at the moment''], Seq (Word_Ci ''present'') (Opt (Word_Ci ''ly''))])"

definition digit_re :: re where "digit_re = Chars decimal"

definition date_re :: re where
  "date_re = (let d2 = Seq digit_re digit_re in Seq d2 (Seq d2 (Seq (Word ''-'') (Seq d2 (Seq (Word ''-'') d2)))))"

definition numbered :: "string list \<Rightarrow> string \<Rightarrow> nat \<Rightarrow> re" where
  "numbered words marks n =
     bounded (Seq (one_of words) (Seq ws (Seq (Opt (Chars (\<lambda>c. c \<in> set marks))) (Seq ws (Least_Times n digit_re)))))"

definition commit_re :: re where
  "commit_re = (let h = Chars (\<lambda>c. hex_digit (py_lower_char c)) in
     bounded (Seq (Word_Ci ''commit'') (Seq spaces (Seq h (Seq h (Seq h (Seq h (Seq h (Seq h (Seq h (Most_Times 33 h)))))))))))"

definition forensic_patterns :: "re list" where
  "forensic_patterns =
     [bounded (Choice [Word_Ci ''yesterday'', Seq (Word_Ci ''last '') (one_of [''week'', ''month'', ''quarter'', ''year'', ''night'']),
        Seq (Word_Ci ''on '') date_re, Seq (Word_Ci ''between '') digit_re]),
      bounded date_re,
      numbered [''pipeline'', ''build'', ''job''] ''#'' 3,
      numbered [''mr'', ''merge request'', ''pr'', ''pull request''] ''!#'' 2,
      commit_re,
      bounded (Seq (one_of [''ticket'', ''inc'', ''sre'', ''ops'']) (Seq (Word ''-'') (Least_Times 3 digit_re))),
      bounded (Phrase [Word_Ci ''incident'', Least_Times 3 (Chars re_word)])]"

definition env_pod_pattern :: "deployment_names \<Rightarrow> re" where
  "env_pod_pattern ctx =
     (let tokens = unique_in_order (stripped_names (dn_environments ctx) @ [''prod'', ''staging'', ''dev'', ''test''])
      in bounded (Seq (Chars letter) (Seq (Plus (Chars alnum)) (Seq (Word ''-'')
           (Seq (one_of tokens) (Plus (Seq (Word ''-'') (Plus (Chars alnum)))))))))"

definition casual_anchored :: re where
  "casual_anchored =
     (let you = one_of [''you'', ''u''];
          y_all = Seq (Word_Ci ''y'') (Seq (Opt (Word apostrophe)) (Word_Ci ''all''))
      in Seq At_Start (Seq ws (Seq (Choice
       [Seq (one_of [''hi'', ''hello'', ''hey'', ''yo'', ''sup'', ''howdy''])
          (Opt (Seq spaces (Choice [one_of [''there'', ''team'', ''man'', ''bro''], y_all, one_of [''all'', ''opsrag'', ''everyone'']]))),
        Seq (Word_Ci ''good'') (Seq ws (one_of [''morning'', ''afternoon'', ''evening'', ''night''])),
        Seq (Word_Ci ''thank'') (Seq (Opt (Word_Ci ''s'')) (Opt (Seq spaces (Choice [Word_Ci ''you'', Phrase [Word_Ci ''a'', Word_Ci ''lot''],
          Phrase [Word_Ci ''so'', Word_Ci ''much''], Word_Ci ''man'', Word_Ci ''bro''])))),
        Seq (Word_Ci ''thank'') (Seq ws (Word_Ci ''you'')), one_of [''thx'', ''ty'', ''bye'', ''goodbye''],
        Seq (Word_Ci ''see'') (Seq ws (Word_Ci ''ya'')), one_of [''cya'', ''ok'', ''okay'', ''cool'', ''nice'', ''great'', ''awesome''],
        Seq (Phrase [Word_Ci ''how'', Word_Ci ''are'', you])
          (Seq (Opt (Seq spaces (one_of [''doing'', ''going'']))) (Opt (Seq spaces (Word_Ci ''today'')))),
        Seq (Word_Ci ''how'') (Seq (Opt (Choice [Seq (Opt (Word apostrophe)) (Word_Ci ''s''), Word_Ci '' is'']))
          (Seq spaces (Phrase [one_of [''it'', ''everything'', ''things''], Word_Ci ''going'']))),
        Seq (Word_Ci ''what'') (Seq (Opt (Word apostrophe)) (Seq (Word_Ci ''s'') (Seq spaces (Word_Ci ''up'')))),
        Phrase [Word_Ci ''nice'', Word_Ci ''to'', Word_Ci ''meet'', you]])
      (Seq ws (Seq (Star (Chars (\<lambda>c. c \<in> {CHR ''!'', CHR ''?'', CHR ''.''} \<or> is_space c))) At_End)))))"

definition sources_nouns :: "re list" where
  "sources_nouns = [Seq (Word_Ci ''source'') (Opt (Word_Ci ''s'')), Seq (Word_Ci ''tool'') (Opt (Word_Ci ''s'')),
     Seq (Word_Ci ''integration'') (Opt (Word_Ci ''s'')), Seq (Word_Ci ''capabilit'') (one_of [''y'', ''ies'']),
     Seq (Word_Ci ''feature'') (Opt (Word_Ci ''s'')), Seq (Word_Ci ''connector'') (Opt (Word_Ci ''s'')),
     Seq (Word_Ci ''system'') (Opt (Word_Ci ''s''))]"

definition casual_meta :: "re list" where
  "casual_meta =
     (let bot = one_of [''you'', ''opsrag''] in
      [bounded (Phrase (map Word_Ci [''who'', ''are'', ''you''])),
       Seq (bounded (Phrase (map Word_Ci [''what'', ''are'', ''you''])))
         (Not_Before (Seq spaces (Choice [Word_Ci ''doing'', Word_Ci ''investigating'', Phrase [Word_Ci ''working'', Word_Ci ''on'']]))),
       bounded (Phrase (map Word_Ci [''what'', ''is'', ''opsrag''])),
       bounded (Phrase [one_of [''introduce'', ''describe''], Word_Ci ''yourself'']),
       bounded (Phrase [Word_Ci ''tell'', Word_Ci ''me'', Word_Ci ''about'', one_of [''yourself'', ''opsrag'']]),
       bounded (Seq (Word_Ci ''what'') (Seq spaces (Seq (Opt (Seq (one_of [''else'', ''other'', ''more'']) spaces))
         (Phrase [one_of [''can'', ''could''], bot, Word_Ci ''do''])))),
       bounded (Phrase [Word_Ci ''what'', one_of [''do'', ''are''], Word_Ci ''you'', Choice [one_of [''do'', ''capable''],
         Phrase [Word_Ci ''good'', Word_Ci ''at''], Phrase [Word_Ci ''useful'', Word_Ci ''for'']]]),
       bounded (Phrase [one_of [''what'', ''which''],
         Choice (sources_nouns @ [Phrase [Word_Ci ''data'', Seq (Word_Ci ''source'') (Opt (Word_Ci ''s''))]]),
         one_of [''do'', ''does'', ''can'', ''could'', ''are'', ''have'', ''you'', ''opsrag'']]),
       bounded (Seq (one_of [''list'', ''show'']) (Seq spaces (Seq (Opt (Seq (Word_Ci ''out'') spaces)) (Seq (Opt (Seq (Word_Ci ''all'') spaces))
         (Phrase [Choice [one_of [''your'', ''the''], Seq (Word_Ci ''opsrag'') (Opt (Seq (Word apostrophe) (Word_Ci ''s'')))],
           Choice sources_nouns]))))),
       Seq Word_Boundary (Phrase [Word_Ci ''describe'', Word_Ci ''how'', bot, one_of [''work'', ''operate'']]),
       bounded (Phrase [Word_Ci ''how'', one_of [''do'', ''does''], one_of [''you'', ''opsrag'', ''this''], Word_Ci ''work'']),
       bounded (Phrase (map Word_Ci [''how'', ''are'', ''you'', ''built''])),
       bounded (Phrase [Word_Ci ''are'', Word_Ci ''you'', Choice [Phrase [Word_Ci ''a'', Word_Ci ''bot''],
         Phrase [Seq (Word_Ci ''a'') (Opt (Word_Ci ''n'')), Word_Ci ''ai''],
         one_of [''claude'', ''gemini'', ''gpt'', ''chatgpt'', ''human'', ''real'']]]),
       bounded (Phrase [Word_Ci ''who'', one_of [''made'', ''created'', ''built'', ''trained'', ''developed''], bot])])"

definition procedural_re :: re where
  "procedural_re =
     (let steps = one_of [''process'', ''procedure'', ''step'', ''way''] in
      bounded (Choice
        [Seq (Word_Ci ''how '') (one_of [''do'', ''to'', ''can'', ''does'', ''should'']),
         Seq (Word_Ci ''what '') (Seq (one_of [''is'', ''does'', ''are'']) (Seq (Word '' '') (Seq (Star (Chars (\<lambda>c. c \<noteq> CHR 0x0A)))
           (Seq (Word '' '') (one_of [''mean'', ''do'']))))),
         Seq (Word_Ci ''what '') (Seq (one_of [''is'', ''are'']) (Seq (Word_Ci '' the '') (Choice [steps, Word_Ci ''steps'']))),
         Seq (Word_Ci ''what'') (Seq (Opt (Word apostrophe)) (Seq (Word_Ci ''s the '') (Seq steps (Word_Ci '' to'')))),
         one_of [''the procedure to'', ''explain'', ''define'', ''definition'']]))"

definition matches_any :: "string \<Rightarrow> re list \<Rightarrow> bool" where
  "matches_any query patterns = list_ex (\<lambda>r. searches r query) patterns"

definition classify_by_regex :: "deployment_names \<Rightarrow> string \<Rightarrow> query_category" where
  "classify_by_regex ctx query =
     (let has_live = searches live_re query;
          has_forensic = (matches_any query forensic_patterns \<or> searches (env_pod_pattern ctx) query);
          has_procedural = searches procedural_re query
      in if has_live \<and> has_forensic then MIXED
         else if has_live then LIVE
         else if has_forensic then FORENSIC
         else if has_procedural then PROCEDURAL
         else UNKNOWN)"

subsection \<open>The router over examples\<close>

fun generic_examples :: "query_category \<Rightarrow> string list" where
  "generic_examples FORENSIC =
     [''why did pipeline 1531171 fail'', ''what was the root cause of incident TICKET-7890'',
      ''show me the postmortem for the outage last week'', ''what happened during the deployment yesterday at 2pm'',
      ''why did the deployment on 2026-04-15 break'', ''summarize the resolved incident from monday'',
      ''trace the failure of build #4892'', ''investigate the merged MR !567'', ''review commit a1b2c3d4 changes'',
      ''why did the pipeline fail to deploy'']"
| "generic_examples LIVE =
     [''is the service slow right now'', ''what is the current cpu usage of the database'', ''show me current alerts'',
      ''are there any open incidents at the moment'', ''what services are degraded right now'',
      ''current memory of the pods'', ''are pods crashlooping now'', ''is the api latency high now'',
      ''show currently failing jobs'', ''is the service currently slow'']"
| "generic_examples PROCEDURAL =
     [''how do I rotate the ssl certificate'', ''what does this metric mean'', ''explain the deployment process'',
      ''how to add a new helm chart'', ''what is the procedure to onboard an app'', ''how does the auth tunnel work'',
      ''what are the steps to escalate a P1'', ''define the term tiered cache'', ''how do I run a metrics query'',
      ''how do I rotate a certificate'']"
| "generic_examples INFRA_GRAPH =
     [''who can cluster-admin in our production cluster'', ''list every cloud sql instance in the production project'',
      ''draw the request flow for a service'', ''what does the backend pod use -- service account, secrets, node'',
      ''which DNS records point at a given IP'', ''is the service account bound to a cloud identity'',
      ''trace workload identity for a kubernetes service account'',
      ''show me all object storage buckets in the project'', ''what cloud service accounts exist in production'',
      ''what zero-trust apps protect our domains'', ''diagram how users reach a service'',
      ''who has the view role across our kubernetes clusters'', ''list all kubernetes services matching a name'',
      ''find every DNS record containing a token'', ''what compute instances are running in the project'',
      ''show the RBAC blast radius for cluster-admin'', ''who has cluster-admin permission in the cluster'',
      ''list all secret manager secrets in the project'']"
| "generic_examples CASUAL =
     [''hi there'', ''hello'', ''thanks for the help'', ''good morning'', ''how are you doing today'',
      ''what can you do for me'', ''tell me about yourself'', ''who built you'', ''are you a bot or a real person'',
      ''what kind of questions can you answer'', ''introduce yourself please'', ''nice to meet you'',
      (''i'' @ apostrophe @ ''m new here, what should I ask you''), (''what'' @ apostrophe @ ''s your job exactly''),
      ''are you connected to chat as well'', ''what sources can you connect to'',
      ''what data sources do you have access to'', ''list out all your integrations'', ''list all your tools'',
      ''what tools are available to you'', ''how do you work internally'',
      ''can you describe how you operate end to end'', ''besides those examples what else can you do'',
      ''what other capabilities do you have'', ''show me everything you can do'', ''what systems do you connect to'']"
| "generic_examples MIXED = []"
| "generic_examples UNKNOWN = []"

definition derived_examples :: "deployment_names \<Rightarrow> query_category \<Rightarrow> string list" where
  "derived_examples ctx cat =
     (let services = filter (\<lambda>s. py_strip s \<noteq> []) (dn_services ctx);
          environments = filter (\<lambda>e. py_strip e \<noteq> []) (dn_environments ctx)
      in case cat of
        FORENSIC \<Rightarrow> map (\<lambda>s. ''why did the '' @ s @ '' deployment break yesterday'') services
      | LIVE \<Rightarrow> map (\<lambda>s. ''is '' @ s @ '' slow right now'') services
          @ map (\<lambda>e. ''what is the current cpu usage in '' @ e) environments
      | PROCEDURAL \<Rightarrow> map (\<lambda>s. ''how do I deploy '' @ s) services
      | INFRA_GRAPH \<Rightarrow> map (\<lambda>s. ''diagram how users reach '' @ s) services
          @ map (\<lambda>e. ''who has cluster-admin in the '' @ e @ '' cluster'') environments
      | _ \<Rightarrow> [])"

definition operator_examples :: "deployment_names \<Rightarrow> query_category \<Rightarrow> string list" where
  "operator_examples ctx cat =
     filter (\<lambda>s. py_strip s \<noteq> [])
       (concat (map snd (filter (\<lambda>(k, v). py_lower (py_strip k) = category_value cat) (dn_router_examples ctx))))"

fun first_by :: "('a \<Rightarrow> 'b) \<Rightarrow> 'a list \<Rightarrow> 'a list" where
  "first_by f [] = []"
| "first_by f (x # xs) = x # filter (\<lambda>y. f y \<noteq> f x) (first_by f xs)"

definition router_categories :: "query_category list" where
  "router_categories = [FORENSIC, LIVE, PROCEDURAL, INFRA_GRAPH, CASUAL]"

definition build_reference_examples :: "deployment_names \<Rightarrow> (query_category \<times> string list) list" where
  "build_reference_examples ctx =
     map (\<lambda>cat. (cat, first_by py_lower (filter (\<lambda>s. s \<noteq> []) (map py_strip
       (generic_examples cat @ derived_examples ctx cat @ operator_examples ctx cat))))) router_categories"

type_synonym vector = "real list"

type_synonym anchors = "(query_category \<times> vector list) list"

text \<open>An example whose embedding fails is left out.\<close>

definition fit :: "(string \<Rightarrow> vector result) \<Rightarrow> (query_category \<times> string list) list \<Rightarrow> anchors \<Rightarrow> anchors" where
  "fit emb references anchors =
     (if anchors \<noteq> [] then anchors
      else map (\<lambda>(cat, exs). (cat, List.map_filter (\<lambda>s. case emb s of Inl e \<Rightarrow> None | Inr v \<Rightarrow> Some v) exs)) references)"

definition cosine_of :: "vector \<Rightarrow> vector \<Rightarrow> real" where
  "cosine_of a b =
     (let dot = sum_list (map2 (*) a b);
          na = sqrt (sum_list (map (\<lambda>x. x * x) a));
          nb = sqrt (sum_list (map (\<lambda>x. x * x) b))
      in if a = [] \<or> b = [] \<or> na = 0 \<or> nb = 0 then 0 else dot / (na * nb))"

definition abstain_top_threshold :: real where "abstain_top_threshold = 55 / 100"
definition llm_fallback_margin :: real where "llm_fallback_margin = 5 / 100"
definition casual_semantic_min_score :: real where "casual_semantic_min_score = 72 / 100"
definition casual_semantic_min_margin :: real where "casual_semantic_min_margin = 10 / 100"

definition router_scores :: "anchors \<Rightarrow> vector \<Rightarrow> (query_category \<times> real) list" where
  "router_scores anchors v =
     sort_desc snd (map (\<lambda>(cat, vs). (cat, Max (set (map (cosine_of v) vs)))) (filter (\<lambda>(cat, vs). vs \<noteq> []) anchors))"

definition router_classify :: "anchors \<Rightarrow> vector \<Rightarrow> query_category \<times> real \<times> real" where
  "router_classify anchors v =
     (if anchors = [] \<or> v = [] then (UNKNOWN, 0, 0)
      else case router_scores anchors v of
        [] \<Rightarrow> (UNKNOWN, 0, 0)
      | (cat, top1) # rest \<Rightarrow>
          (let top2 = (case rest of [] \<Rightarrow> 0 | (cat2, s) # _ \<Rightarrow> s)
           in if top1 < abstain_top_threshold then (UNKNOWN, top1, top2) else (cat, top1, top2)))"

subsection \<open>Layers\<close>

text \<open>The first word of the model's reply; a reply of blanks raises inside, which counts as no answer.\<close>

definition first_word :: "string \<Rightarrow> string" where
  "first_word s = takeWhile (\<lambda>c. \<not> is_space c) (py_lower (py_strip s))"

definition classify_by_llm :: "(string \<Rightarrow> string result) option \<Rightarrow> string \<Rightarrow> query_category" where
  "classify_by_llm llm query =
     (case llm of None \<Rightarrow> UNKNOWN
      | Some ask \<Rightarrow> (case ask (take 500 query) of Inl e \<Rightarrow> UNKNOWN
          | Inr t \<Rightarrow> (case find (\<lambda>cat. first_word t = category_value cat) all_categories of None \<Rightarrow> UNKNOWN | Some cat \<Rightarrow> cat)))"

record classification =
  cl_category :: query_category
  cl_layer :: string
  cl_top1 :: real
  cl_top2 :: real
  cl_margin :: real

definition classified :: "query_category \<Rightarrow> string \<Rightarrow> classification" where
  "classified cat layer = \<lparr>cl_category = cat, cl_layer = layer, cl_top1 = 0, cl_top2 = 0, cl_margin = 0\<rparr>"

definition routed :: "query_category \<Rightarrow> string \<Rightarrow> real \<Rightarrow> real \<Rightarrow> classification" where
  "routed cat layer top1 top2 =
     \<lparr>cl_category = cat, cl_layer = layer, cl_top1 = top1, cl_top2 = top2, cl_margin = top1 - top2\<rparr>"

definition underconfident :: "query_category \<Rightarrow> real \<Rightarrow> real \<Rightarrow> bool" where
  "underconfident cat top1 top2 \<longleftrightarrow>
     cat = CASUAL \<and> (top1 < casual_semantic_min_score \<or> top1 - top2 < casual_semantic_min_margin)"

definition semantic_layer ::
  "(query_category \<times> real \<times> real) option \<Rightarrow> (string \<Rightarrow> string result) option \<Rightarrow> bool \<Rightarrow> string \<Rightarrow> classification" where
  "semantic_layer verdict llm enable_llm query =
     (case verdict of None \<Rightarrow> classified UNKNOWN ''default''
      | Some (cat, top1, top2) \<Rightarrow>
          (if cat \<noteq> UNKNOWN \<and> llm_fallback_margin \<le> top1 - top2 \<and> \<not> underconfident cat top1 top2
           then routed cat ''semantic'' top1 top2
           else if enable_llm \<and> llm \<noteq> None \<and> classify_by_llm llm query \<noteq> UNKNOWN
           then routed (classify_by_llm llm query) ''llm'' top1 top2
           else if cat \<noteq> UNKNOWN \<and> \<not> underconfident cat top1 top2 then routed cat ''semantic-low-conf'' top1 top2
           else classified UNKNOWN ''default''))"

text \<open>The router and an embedding of the question may be missing.\<close>

definition classify_query ::
  "deployment_names \<Rightarrow> anchors option \<Rightarrow> vector option \<Rightarrow> (string \<Rightarrow> string result) option \<Rightarrow> bool \<Rightarrow> string \<Rightarrow> classification" where
  "classify_query ctx router embedding llm enable_llm query =
     (let verdict = (case (router, embedding) of (Some anchors, Some v) \<Rightarrow> Some (router_classify anchors v) | _ \<Rightarrow> None);
          cat = classify_by_regex ctx query;
          normal = (if cat \<noteq> UNKNOWN then classified cat ''regex'' else semantic_layer verdict llm enable_llm query)
      in if searches casual_anchored query then classified CASUAL ''regex''
         else if matches_any query casual_meta
         then (case verdict of None \<Rightarrow> normal
           | Some (c, top1, top2) \<Rightarrow>
               (if c = CASUAL \<and> casual_semantic_min_score \<le> top1 \<and> casual_semantic_min_margin \<le> top1 - top2
                then routed CASUAL ''regex+semantic'' top1 top2 else normal))
         else normal)"

subsection \<open>Policy\<close>

record category_policy =
  cp_ttl :: int
  cp_skip_cache :: bool
  cp_threshold :: real

fun policy_for :: "query_category \<Rightarrow> category_policy" where
  "policy_for FORENSIC = \<lparr>cp_ttl = 90 * 86400, cp_skip_cache = False, cp_threshold = 92 / 100\<rparr>"
| "policy_for PROCEDURAL = \<lparr>cp_ttl = 30 * 86400, cp_skip_cache = False, cp_threshold = 93 / 100\<rparr>"
| "policy_for MIXED = \<lparr>cp_ttl = 300, cp_skip_cache = False, cp_threshold = 96 / 100\<rparr>"
| "policy_for LIVE = \<lparr>cp_ttl = 0, cp_skip_cache = True, cp_threshold = 99 / 100\<rparr>"
| "policy_for INFRA_GRAPH = \<lparr>cp_ttl = 4 * 3600, cp_skip_cache = False, cp_threshold = 94 / 100\<rparr>"
| "policy_for CASUAL = \<lparr>cp_ttl = 0, cp_skip_cache = True, cp_threshold = 99 / 100\<rparr>"
| "policy_for UNKNOWN = \<lparr>cp_ttl = 14 * 86400, cp_skip_cache = False, cp_threshold = 93 / 100\<rparr>"

subsection \<open>Facts\<close>

lemma classify_by_regex_not_casual: "classify_by_regex ctx query \<noteq> CASUAL"
  by (simp add: classify_by_regex_def Let_def)

text \<open>C34: A question skips retrieval as small talk only if all of it is a greeting, or the router is sure of it, or the model
  asked by a router that was not sure says so; in every other case it is answered from what is retrieved.\<close>

theorem casual_is_guarded:
  assumes "cl_category (classify_query ctx router embedding llm enable_llm query) = CASUAL"
  shows "searches casual_anchored query
    \<or> (\<exists>anchors v top1 top2. router = Some anchors \<and> embedding = Some v \<and>
         ((router_classify anchors v = (CASUAL, top1, top2) \<and> casual_semantic_min_score \<le> top1 \<and> casual_semantic_min_margin \<le> top1 - top2)
          \<or> (enable_llm \<and> classify_by_llm llm query = CASUAL \<and> classify_by_regex ctx query = UNKNOWN)))"
proof (cases "searches casual_anchored query")
  case False
  obtain anchors v where av: "router = Some anchors" "embedding = Some v"
    using assms False classify_by_regex_not_casual [of ctx query]
    by (cases router; cases embedding) (auto simp: classify_query_def semantic_layer_def classified_def Let_def split: if_splits)
  obtain c top1 top2 where r: "router_classify anchors v = (c, top1, top2)" by (cases "router_classify anchors v") auto
  let ?sure = "c = CASUAL \<and> casual_semantic_min_score \<le> top1 \<and> casual_semantic_min_margin \<le> top1 - top2"
  let ?llm = "enable_llm \<and> classify_by_llm llm query = CASUAL \<and> classify_by_regex ctx query = UNKNOWN"
  have layer: "?sure \<or> (enable_llm \<and> classify_by_llm llm query = CASUAL)"
    if "cl_category (semantic_layer (Some (c, top1, top2)) llm enable_llm query) = CASUAL"
    using that by (auto simp: semantic_layer_def routed_def classified_def underconfident_def not_less split: if_splits)
  have "?sure \<or> ?llm"
  proof (cases "?sure")
    case no: False
    then have "cl_category (if classify_by_regex ctx query \<noteq> UNKNOWN then classified (classify_by_regex ctx query) ''regex''
        else semantic_layer (Some (c, top1, top2)) llm enable_llm query) = CASUAL"
      using assms False unfolding av classify_query_def Let_def by (simp add: r split: if_splits)
    then have "classify_by_regex ctx query = UNKNOWN" "cl_category (semantic_layer (Some (c, top1, top2)) llm enable_llm query) = CASUAL"
      using classify_by_regex_not_casual [of ctx query] by (auto simp: classified_def split: if_splits)
    then show ?thesis using layer no by blast
  qed simp
  then show ?thesis using av r by auto
qed simp

text \<open>A marker of the present without one of the past makes a question live, whatever the later layers would say.\<close>

lemma live_marker_decides:
  assumes "searches live_re query" "\<not> matches_any query forensic_patterns" "\<not> searches (env_pod_pattern ctx) query"
    and "\<not> searches casual_anchored query" "\<not> matches_any query casual_meta"
  shows "cl_category (classify_query ctx router embedding llm enable_llm query) = LIVE"
    and "cp_skip_cache (policy_for (cl_category (classify_query ctx router embedding llm enable_llm query)))"
  using assms by (simp_all add: classify_query_def classify_by_regex_def classified_def Let_def)

text \<open>A question without a word matches no pattern that begins at the edge of a word.\<close>

lemma no_word_no_match:
  "\<not> searches (Seq Word_Boundary r) ''?''" "\<not> searches (Seq (Seq Word_Boundary r) r') ''?''"
  by (simp_all add: searches_def finditer_def find_all.simps match_length_def word_at_def next_char_def re_word_def)

lemma question_mark_unclassified:
  "\<not> searches casual_anchored ''?''" "\<not> matches_any ''?'' casual_meta" "classify_by_regex ctx ''?'' = UNKNOWN" "\<not> should_skip_cache ''?''"
proof -
  show "\<not> searches casual_anchored ''?''" by code_simp
  show "\<not> matches_any ''?'' casual_meta" by (simp add: matches_any_def casual_meta_def Let_def bounded_def no_word_no_match)
  show "classify_by_regex ctx ''?'' = UNKNOWN"
    by (simp add: classify_by_regex_def matches_any_def forensic_patterns_def live_re_def numbered_def commit_re_def env_pod_pattern_def
        procedural_re_def Let_def bounded_def no_word_no_match)
  show "\<not> should_skip_cache ''?''" by (simp add: should_skip_cache_def skip_patterns_def user_scoped_def bounded_def no_word_no_match)
qed

theorem casual_is_guarded_witness: "\<exists>llm. classify_by_llm llm ''?'' = CASUAL"
proof -
  have "first_word ''casual'' = ''casual''" by code_simp
  then have llm: "classify_by_llm (Some (\<lambda>p. Inr ''casual'')) ''?'' = CASUAL" by (simp add: classify_by_llm_def all_categories_def)
  have "cl_category (classify_query ctx (Some []) (Some [1]) (Some (\<lambda>p. Inr ''casual'')) True ''?'') = CASUAL" for ctx
    by (simp add: classify_query_def semantic_layer_def router_classify_def routed_def llm question_mark_unclassified)
  from casual_is_guarded [OF this] show ?thesis by (auto simp: question_mark_unclassified router_classify_def)
qed

end
