(* ===== verification/Query_Rewrite.thy ===== *)
theory Query_Rewrite
  imports Query_Intent
begin

text \<open>
  What becomes of a question before anything else sees it: a bare "again" stands for the last real question
  (\<open>_expand_retry_meta\<close> in \<open>agent/graph.py\<close>), and a follow-up is rewritten by a model into a question of its own
  (\<open>agent/query_rewrite.py\<close>). The earlier messages come from the session store as a role and a text each; the model
  answers a prompt or fails.
\<close>

subsection \<open>Again\<close>

record prior_message =
  pm_role :: string
  pm_text :: string

definition retry_phrases :: "string list" where
  "retry_phrases =
     [''retry'', ''again'', ''redo'', ''do it again'', ''do that again'', ''once more'', ''try again'', ''go again'', ''repeat'',
      ''repeat that'', ''repeat it'', ''same thing'']"

definition strip_set :: "char set \<Rightarrow> string \<Rightarrow> string" where
  "strip_set cs s = rev (dropWhile (\<lambda>c. c \<in> cs) (rev (dropWhile (\<lambda>c. c \<in> cs) s)))"

definition is_retry_meta :: "string \<Rightarrow> bool" where
  "is_retry_meta s \<longleftrightarrow>
     strip_set {CHR '' '', CHR 0x09, CHR ''?'', CHR ''!'', CHR ''.''} (replace_all spaces '' '' (py_lower (py_strip s))) \<in> set retry_phrases"

definition real_question :: "prior_message \<Rightarrow> bool" where
  "real_question m \<longleftrightarrow> pm_role m = ''user'' \<and> py_strip (pm_text m) \<noteq> [] \<and> \<not> is_retry_meta (py_strip (pm_text m))"

definition expand_retry_meta :: "string \<Rightarrow> prior_message list \<Rightarrow> string" where
  "expand_retry_meta query prior =
     (if \<not> is_retry_meta query then query
      else case find real_question (rev prior) of None \<Rightarrow> query | Some m \<Rightarrow> py_strip (pm_text m))"

subsection \<open>Follow-ups\<close>

definition ref_re :: re where
  "ref_re = bounded (Choice
     (map Word_Ci [''this'', ''that'', ''these'', ''those'', ''it'', ''its'', ''they'', ''them'', ''their'']
      @ [Phrase [Word_Ci ''the'', Choice (map Word_Ci [''repo'', ''repository'', ''service'', ''file'', ''path'', ''chart'', ''config'', ''value'',
           ''env'', ''environment'', ''var'', ''variable'', ''secret'', ''alert'', ''error'', ''incident'', ''deploy'', ''deployment''])],
         Phrase [Choice (map Word_Ci [''tell'', ''show'', ''give'', ''explain'']), Word_Ci ''me'', Word_Ci ''more''],
         Phrase [Word_Ci ''more'', Choice (map Word_Ci [''about'', ''on'', ''details''])],
         Phrase [Word_Ci ''what'', Word_Ci ''about''], Phrase [Word_Ci ''how'', Word_Ci ''about''],
         Phrase [Word_Ci ''and'', Choice (map Word_Ci [''for'', ''in'', ''the''])],
         Phrase [Word_Ci ''same'', Choice (map Word_Ci [''for'', ''in'', ''but''])],
         Word_Ci ''continue'', Phrase [Word_Ci ''go'', Word_Ci ''on'']]))"

definition self_contained_re :: re where
  "self_contained_re = (let nouns = Choice [Seq (Word_Ci ''repo'') (Opt (Word_Ci ''s'')), Word_Ci ''repositories'', Word_Ci ''services''] in
     bounded (Choice [Phrase [Word_Ci ''all'', nouns], Phrase [Word_Ci ''which'', nouns]]))"

definition word_count :: "string \<Rightarrow> nat" where
  "word_count s = length (finditer (Plus (Chars (\<lambda>c. \<not> is_space c))) s)"

definition looks_like_followup :: "string \<Rightarrow> bool" where
  "looks_like_followup query =
     (let q = py_strip query in
      q \<noteq> [] \<and> \<not> searches self_contained_re q \<and> searches ref_re q \<and> (word_count q < 12 \<or> runs ref_re (None, q) \<noteq> []))"

definition blank_line :: string where "blank_line = [CHR 0x0A, CHR 0x0A]"

definition prompt_part :: "prior_message \<Rightarrow> string list" where
  "prompt_part m =
     (let t = py_strip (pm_text m);
          t' = (if pm_role m = ''assistant'' \<and> 600 < length t then take 600 t @ ''...'' else t)
      in if t = [] then [] else [''['' @ pm_role m @ '']'' @ [CHR 0x0A] @ t'])"

definition last_messages :: "nat \<Rightarrow> 'a list \<Rightarrow> 'a list" where
  "last_messages n xs = drop (length xs - n) xs"

definition build_rewrite_prompt :: "prior_message list \<Rightarrow> string \<Rightarrow> string" where
  "build_rewrite_prompt prior query =
     join blank_line (concat (map prompt_part (last_messages 4 prior))
       @ [''[user - current message]'' @ [CHR 0x0A] @ py_strip query, [CHR 0x0A] @ ''Rewrite the current message as a standalone query.''])"

text \<open>What is taken off a reply: quotes around it and a preface.\<close>

definition quote_mark :: "char \<Rightarrow> bool" where
  "quote_mark c \<longleftrightarrow> c = CHR 0x27 \<or> c = CHR 0x22"

definition preface_re :: re where
  "preface_re = Seq At_Start (Seq (Choice [Word_Ci ''rewritten'', Phrase [Word_Ci ''standalone'', Word_Ci ''query''], Word_Ci ''query'', Word_Ci ''output''])
     (Seq (Star (Chars is_space)) (Seq (Chars (\<lambda>c. c = CHR '':'' \<or> c = CHR ''-'')) (Star (Chars is_space)))))"

definition clean_rewrite :: "string \<Rightarrow> string" where
  "clean_rewrite reply_text =
     (let t = py_strip reply_text;
          t' = (if t \<noteq> [] \<and> quote_mark (hd t) \<and> quote_mark (last t) then py_strip (butlast (tl t)) else t)
      in py_strip (replace_all preface_re [] t'))"

definition rewrite_rejected :: "string \<Rightarrow> string \<Rightarrow> bool" where
  "rewrite_rejected query t \<longleftrightarrow>
     t = [] \<or> 500 < length t \<or> word_count t < 5 \<or> 10 * length t < 8 * length (py_strip query)
     \<or> py_lower t = py_lower (py_strip query)"

text \<open>Identifiers of the question, and of the two messages before it, that the rewrite dropped; two at most come back.\<close>

definition missing_anchors :: "string \<Rightarrow> prior_message list \<Rightarrow> string \<Rightarrow> string list" where
  "missing_anchors query prior t =
     take 2 (filter (\<lambda>a. \<not> py_in (py_lower a) (py_lower t))
       (unique_in_order (extract_anchors query @ concat (map (extract_anchors \<circ> pm_text) (last_messages 2 prior)))))"

definition accept_rewrite :: "string \<Rightarrow> prior_message list \<Rightarrow> string \<Rightarrow> string" where
  "accept_rewrite query prior reply_text =
     (let t = clean_rewrite reply_text; missing = missing_anchors query prior t
      in if rewrite_rejected query t then query else if missing = [] then t else t @ '' '' @ join '' '' missing)"

definition maybe_rewrite_query :: "string \<Rightarrow> prior_message list \<Rightarrow> (string \<Rightarrow> string result) option \<Rightarrow> string" where
  "maybe_rewrite_query query prior llm =
     (if prior = [] \<or> \<not> looks_like_followup query then query
      else case llm of None \<Rightarrow> query
        | Some ask \<Rightarrow> (case ask (build_rewrite_prompt prior query) of Inl e \<Rightarrow> query | Inr t \<Rightarrow> accept_rewrite query prior t))"

subsection \<open>Facts\<close>

text \<open>A bare "again" never reaches the agent while an earlier question stands behind it, and expanding twice is expanding once.\<close>

lemma expand_retry_real:
  assumes "is_retry_meta query" "\<exists>m \<in> set prior. real_question m"
  shows "\<not> is_retry_meta (expand_retry_meta query prior)"
proof -
  obtain m where "find real_question (rev prior) = Some m" "real_question m"
    using assms(2) by (cases "find real_question (rev prior)") (auto simp: find_None_iff dest: find_SomeD)
  then show ?thesis using assms(1) by (simp add: expand_retry_meta_def real_question_def)
qed

lemma expand_retry_idem: "expand_retry_meta (expand_retry_meta query prior) prior = expand_retry_meta query prior"
proof (cases "is_retry_meta query \<and> (\<exists>m \<in> set prior. real_question m)")
  case True
  then show ?thesis using expand_retry_real [of query prior] by (simp add: expand_retry_meta_def [of "expand_retry_meta query prior"])
next
  case False
  then have "expand_retry_meta query prior = query"
    by (auto simp: expand_retry_meta_def find_None_iff split: option.split dest: find_SomeD)
  then show ?thesis by simp
qed

lemma lower_char_idem: "py_lower_char (py_lower_char c) = py_lower_char c"
proof -
  define n where "n = (of_char c :: nat)"
  show ?thesis
  proof (cases "(65 \<le> n \<and> n \<le> 90) \<or> (192 \<le> n \<and> n \<le> 222 \<and> n \<noteq> 215)")
    case True
    then have "py_lower_char c = char_of (n + 32)" by (simp add: py_lower_char_def n_def Let_def)
    moreover have "n + 32 < 256" using True by linarith
    then have "(of_char (char_of (n + 32) :: char) :: nat) = n + 32" by simp
    ultimately have "py_lower_char c = char_of (n + 32)" "(of_char (char_of (n + 32) :: char) :: nat) = n + 32" by simp_all
    moreover have "\<not> ((33 \<le> n \<and> n \<le> 58) \<or> (160 \<le> n \<and> n \<le> 190 \<and> n \<noteq> 183))" using True by linarith
    ultimately show ?thesis by (simp add: py_lower_char_def [of "char_of (n + 32)"] Let_def)
  next
    case False
    then have "py_lower_char c = c" by (simp only: py_lower_char_def Let_def n_def [symmetric] if_False)
    then show ?thesis by simp
  qed
qed

lemma lower_idem [simp]: "py_lower (py_lower s) = py_lower s"
  by (simp add: py_lower_def lower_char_idem)

lemma lower_append [simp]: "py_lower (s @ t) = py_lower s @ py_lower t"
  by (simp add: py_lower_def)

lemma part_in_join: "x \<in> set xs \<Longrightarrow> sublist x (join sep xs)"
proof (induction sep xs rule: join.induct)
  case (3 sep y z ys)
  then consider "x = y" | "sublist x (join sep (z # ys))" by auto
  then show ?case
  proof cases
    case 2
    then show ?thesis by (auto simp: sublist_def) (metis append_assoc)+
  qed simp
qed auto

lemma anchor_in_question:
  assumes "a \<in> set (extract_anchors query)"
  shows "sublist a (py_lower query)"
proof -
  obtain m r where "a = py_lower m" "m \<in> set (finditer r query)" using assms by (auto simp: extract_anchors_def)
  then show ?thesis using finditer_lang sublist_lower by blast
qed

lemma own_anchor_returns:
  assumes "length (extract_anchors query) \<le> 2" "a \<in> set (extract_anchors query)" "\<not> py_in (py_lower a) (py_lower t)"
  shows "a \<in> set (missing_anchors query prior t)"
proof -
  let ?own = "extract_anchors query" and ?P = "\<lambda>a. \<not> py_in (py_lower a) (py_lower t)"
  have d: "distinct ?own" by (simp add: extract_anchors_def)
  have u: "\<exists>zs. unique_in_order (xs @ ys) = xs @ zs" if "distinct xs" for xs ys :: "string list"
    using that
  proof (induction xs)
    case (Cons x xs)
    then obtain zs where "unique_in_order (xs @ ys) = xs @ zs" by auto
    then have "unique_in_order ((x # xs) @ ys) = (x # xs) @ filter (\<lambda>y. y \<noteq> x) zs"
      using Cons.prems by (simp add: filter_id_conv) metis
    then show ?case by (rule exI)
  qed auto
  from u [OF d] obtain zs where z: "unique_in_order (?own @ concat (map (extract_anchors \<circ> pm_text) (last_messages 2 prior))) = ?own @ zs" by blast
  have "length (filter ?P ?own) \<le> 2" by (rule order_trans [OF length_filter_le assms(1)])
  then have "take 2 (filter ?P (?own @ zs)) = filter ?P ?own @ take (2 - length (filter ?P ?own)) (filter ?P zs)" by simp
  then show ?thesis using assms(2,3) unfolding missing_anchors_def z by simp
qed

lemma rewrite_cases:
  "maybe_rewrite_query query prior llm = query
   \<or> (\<exists>ask t. llm = Some ask \<and> ask (build_rewrite_prompt prior query) = Inr t \<and> \<not> rewrite_rejected query (clean_rewrite t)
        \<and> maybe_rewrite_query query prior llm = accept_rewrite query prior t)"
proof (cases "prior = [] \<or> \<not> looks_like_followup query \<or> llm = None")
  case True
  then show ?thesis by (auto simp: maybe_rewrite_query_def)
next
  case False
  then obtain ask where ask: "llm = Some ask" by auto
  show ?thesis
  proof (cases "ask (build_rewrite_prompt prior query)")
    case (Inl e)
    then show ?thesis using ask by (simp add: maybe_rewrite_query_def)
  next
    case (Inr t)
    then have "maybe_rewrite_query query prior llm = accept_rewrite query prior t"
      using False ask by (simp add: maybe_rewrite_query_def)
    moreover have "rewrite_rejected query (clean_rewrite t) \<Longrightarrow> accept_rewrite query prior t = query"
      by (simp add: accept_rewrite_def Let_def)
    ultimately show ?thesis using Inr ask by auto
  qed
qed

text \<open>The identifiers of a follow-up, if it has no more than two, stand in the question that the agent gets; whatever else
  the model says, a reply that fails, is empty, too long or too short leaves the question as it was.\<close>

theorem rewrite_keeps_identifiers:
  assumes "length (extract_anchors query) \<le> 2"
  shows "(\<forall>a \<in> set (extract_anchors query). sublist a (py_lower (maybe_rewrite_query query prior llm)))
    \<and> (maybe_rewrite_query query prior llm = query
        \<or> (\<exists>ask t. llm = Some ask \<and> ask (build_rewrite_prompt prior query) = Inr t
             \<and> prefix (clean_rewrite t) (maybe_rewrite_query query prior llm) \<and> \<not> rewrite_rejected query (clean_rewrite t)))"
proof -
  let ?own = "extract_anchors query"
  have lower: "py_lower a = a" if "a \<in> set ?own" for a using that by (auto simp: extract_anchors_def)
  have same: "sublist a (py_lower query)" if "a \<in> set ?own" for a using anchor_in_question that by simp
  consider "maybe_rewrite_query query prior llm = query"
    | ask t where "llm = Some ask" "ask (build_rewrite_prompt prior query) = Inr t" "\<not> rewrite_rejected query (clean_rewrite t)"
        "maybe_rewrite_query query prior llm = accept_rewrite query prior t"
    using rewrite_cases by blast
  then show ?thesis
  proof cases
    case 1
    then show ?thesis using same by simp
  next
    case (2 ask t)
    let ?t = "clean_rewrite t" and ?m = "missing_anchors query prior (clean_rewrite t)"
    have m: "maybe_rewrite_query query prior llm = (if ?m = [] then ?t else ?t @ '' '' @ join '' '' ?m)"
      using 2 by (simp add: accept_rewrite_def Let_def)
    have "sublist a (py_lower (maybe_rewrite_query query prior llm))" if "a \<in> set ?own" for a
    proof (cases "py_in a (py_lower ?t)")
      case True
      moreover have "sublist (py_lower ?t) (py_lower (maybe_rewrite_query query prior llm))"
        unfolding m by (simp add: prefix_imp_sublist)
      ultimately show ?thesis unfolding py_in_iff by (rule sublist_order.order.trans)
    next
      case False
      then have "a \<in> set ?m" using own_anchor_returns [OF assms that] lower [OF that] by simp
      then have "sublist a (join '' '' ?m)" "?m \<noteq> []" by (auto intro: part_in_join)
      then have "sublist a (maybe_rewrite_query query prior llm)"
        unfolding m using suffix_imp_sublist [of "join '' '' ?m" "?t @ '' '' @ join '' '' ?m"]
        by (auto simp: suffix_def intro: sublist_order.order.trans)
      from sublist_lower [OF this] have "sublist (py_lower a) (py_lower (maybe_rewrite_query query prior llm))" .
      then show ?thesis using lower [OF that] by simp
    qed
    then show ?thesis using 2 m by auto
  qed
qed


theorem rewrite_keeps_identifiers_witness:
  "sublist ''a-bcd'' (py_lower (maybe_rewrite_query ''and a-bcd'' [\<lparr>pm_role = ''user'', pm_text = ''x''\<rparr>] (Some (\<lambda>p. Inr ''who owns the thing called that''))))"
proof -
  have "extract_anchors ''and a-bcd'' = [''a-bcd'']" by code_simp
  then show ?thesis
    using rewrite_keeps_identifiers [of "''and a-bcd''" "[\<lparr>pm_role = ''user'', pm_text = ''x''\<rparr>]" "Some (\<lambda>p. Inr ''who owns the thing called that'')"]
    by simp
qed

text \<open>A rewrite may be a fifth shorter than the question it replaces.\<close>

lemma shorter_rewrite_accepted:
  "word_count t = 5 \<Longrightarrow> length t = 16 \<Longrightarrow> length (py_strip query) = 20 \<Longrightarrow> py_lower t \<noteq> py_lower (py_strip query) \<Longrightarrow> \<not> rewrite_rejected query t"
  by (auto simp: rewrite_rejected_def)

end
