(* ===== verification/Session_Query.thy ===== *)
theory Session_Query
  imports Qa_Cache Investigation_Cache Classifier Query_Rewrite Chunk_Model
begin

text \<open>
  One question to the agent (\<open>query_with_session\<close> and \<open>query_with_session_events\<close> in \<open>agent/graph.py\<close>): what becomes of
  the question, the lookup in the answer cache with the judge behind it, the state a run of the graph starts from, and
  what of its result is cached. The compiled graph is a parameter: a function of the initial state. The models, the
  embedder and the session store are parameters too.
\<close>

subsection \<open>Sources and links\<close>

record url_bases =
  ub_confluence :: "string option"
  ub_slack :: "string option"
  ub_rootly :: "string option"
  ub_gitlab :: "string option"

text \<open>A missing base is printed like any other value.\<close>

definition printed :: "string option \<Rightarrow> string" where
  "printed base = (case base of None \<Rightarrow> ''None'' | Some s \<Rightarrow> s)"

definition src :: "chunk \<Rightarrow> string" where
  "src c = (if repo c \<noteq> [] then repo c @ ''/'' @ source_path c else source_path c)"

text \<open>What stands before and after the first separator.\<close>

definition before :: "char \<Rightarrow> string \<Rightarrow> string" where "before x s = takeWhile (\<lambda>c. c \<noteq> x) s"
definition after :: "char \<Rightarrow> string \<Rightarrow> string" where "after x s = tl (dropWhile (\<lambda>c. c \<noteq> x) s)"

definition id_part :: "string \<Rightarrow> string" where
  "id_part path = (if CHR '':'' \<in> set path then before CHR '':'' path else [])"

definition channel_of :: "string \<Rightarrow> string" where
  "channel_of rp = dropWhile (\<lambda>c. c = CHR ''#'') (after CHR '':'' rp)"

definition confluence_url :: "url_bases \<Rightarrow> string \<Rightarrow> string option" where
  "confluence_url bases page =
     (if page = [] then None else Some (printed (ub_confluence bases) @ ''/wiki/pages/viewpage.action?pageId='' @ page))"

definition rootly_url :: "url_bases \<Rightarrow> string \<Rightarrow> string option" where
  "rootly_url bases inc = (if inc = [] then None else Some (printed (ub_rootly bases) @ ''/incidents/'' @ inc))"

definition src_url :: "url_bases \<Rightarrow> chunk \<Rightarrow> string option" where
  "src_url bases c =
     (if repo c = [] then None
      else if startswith (repo c) ''confluence:'' then confluence_url bases (id_part (source_path c))
      else if startswith (repo c) ''slack:'' then Some (printed (ub_slack bases) @ ''/archives/'' @ channel_of (repo c))
      else if startswith (repo c) ''rootly:'' then rootly_url bases (id_part (source_path c))
      else Some (printed (ub_gitlab bases) @ ''/'' @ repo c @ ''/-/blob/master/'' @ source_path c))"

definition src_url_from_string :: "url_bases \<Rightarrow> string \<Rightarrow> string option" where
  "src_url_from_string bases s =
     (let rest = (if CHR ''/'' \<in> set s then after CHR ''/'' s else []) in
      if s = [] then None
      else if startswith s ''confluence:'' then confluence_url bases (id_part rest)
      else if startswith s ''slack:'' then Some (printed (ub_slack bases) @ ''/archives/'' @ channel_of (before CHR ''/'' s))
      else if startswith s ''rootly:'' then rootly_url bases (id_part rest)
      else if CHR ''/'' \<in> set s \<and> CHR ''/'' \<in> set rest
      then Some (printed (ub_gitlab bases) @ ''/'' @ before CHR ''/'' s @ ''/'' @ before CHR ''/'' rest @ ''/-/blob/master/'' @ after CHR ''/'' rest)
      else None)"

subsection \<open>What a turn gets from outside\<close>

record llm_roles =
  lm_rewrite :: "string \<Rightarrow> string result"
  lm_classify :: "string \<Rightarrow> string result"
  lm_judge :: "string \<Rightarrow> string \<Rightarrow> string reply"

record ('q, 'r, 'i, 'j) services =
  sv_qa :: "(('q, 'i, real list, cache_entry) vector_client \<times> cache_config) option"
  sv_inv :: "(('r, 'j) inv_client \<times> inv_config) option"
  sv_uuid :: "string \<Rightarrow> 'i"
  sv_names :: deployment_names
  sv_recognizer :: recognizer
  sv_judge :: judge_config
  sv_embed :: "(string \<Rightarrow> vector result) option"
  sv_router :: "anchors option"
  sv_llm :: "llm_roles option"
  sv_models :: "(string \<times> string result) option list"
  sv_bases :: url_bases
  sv_cache_disabled :: bool
  sv_swr_default :: bool

text \<open>The fields of the final state that are read.\<close>

record graph_result =
  gr_final :: "chunk list"
  gr_graded :: "chunk list"
  gr_merged :: "chunk list"
  gr_retrieved :: "chunk list"
  gr_paths :: "json list"
  gr_generation :: string
  gr_grounded :: "bool option"
  gr_checked :: "bool option"
  gr_tool_path :: bool
  gr_memories :: "json list"
  gr_audit :: "json list"
  gr_route :: obj
  gr_query_type :: json
  gr_plan :: "json list"

record 'j turn =
  tu_query :: string
  tu_user :: string
  tu_thread :: string
  tu_images :: "string list"
  tu_serve_stale :: "bool option"
  tu_prior :: "prior_message list result option"
  tu_graph :: "obj \<Rightarrow> graph_result result"
  tu_now :: real
  tu_fresh :: 'j

subsection \<open>Before the graph\<close>

record prepared =
  pp_query :: string
  pp_prior :: "prior_message list"
  pp_embedding :: "vector option"
  pp_class :: "classification option"

definition prior_of :: "'j turn \<Rightarrow> prior_message list" where
  "prior_of tu = (case tu_prior tu of None \<Rightarrow> [] | Some r \<Rightarrow> if tu_thread tu = [] then [] else (case r of Inl e \<Rightarrow> [] | Inr ms \<Rightarrow> ms))"

definition asked :: "('q, 'r, 'i, 'j) services \<Rightarrow> 'j turn \<Rightarrow> string" where
  "asked sv tu =
     (if tu_prior tu = None \<or> tu_thread tu = [] then tu_query tu
      else maybe_rewrite_query (expand_retry_meta (tu_query tu) (prior_of tu)) (prior_of tu) (map_option lm_rewrite (sv_llm sv)))"

definition prepare :: "('q, 'r, 'i, 'j) services \<Rightarrow> 'j turn \<Rightarrow> prepared" where
  "prepare sv tu =
     (let query = asked sv tu;
          emb = (case sv_embed sv of None \<Rightarrow> None | Some f \<Rightarrow> (case f query of Inl e \<Rightarrow> None | Inr v \<Rightarrow> Some v))
      in \<lparr>pp_query = query, pp_prior = prior_of tu, pp_embedding = emb,
          pp_class = (case emb of None \<Rightarrow> None
            | Some v \<Rightarrow> Some (classify_query (sv_names sv) (sv_router sv) (Some v) (map_option lm_classify (sv_llm sv)) True query))\<rparr>)"

definition policy_of :: "prepared \<Rightarrow> category_policy option" where
  "policy_of pp = map_option (policy_for \<circ> cl_category) (pp_class pp)"

definition skip_cache :: "('q, 'r, 'i, 'j) services \<Rightarrow> 'j turn \<Rightarrow> prepared \<Rightarrow> bool" where
  "skip_cache sv tu pp \<longleftrightarrow>
     should_skip_cache (pp_query pp) \<or> sv_cache_disabled sv \<or> tu_images tu \<noteq> []
     \<or> (case policy_of pp of None \<Rightarrow> False | Some p \<Rightarrow> cp_skip_cache p)"

definition lookup_of :: "('q, 'r, 'i, 'j) services \<Rightarrow> 'j turn \<Rightarrow> prepared \<Rightarrow> lookup_request" where
  "lookup_of sv tu pp =
     \<lparr>lr_query = Some (pp_query pp), lr_user = Some (tu_user tu),
      lr_serve_stale = (case tu_serve_stale tu of None \<Rightarrow> sv_swr_default sv | Some b \<Rightarrow> b), lr_max_stale = 7 * 24 * 3600,
      lr_min_score = map_option cp_threshold (policy_of pp), lr_now = tu_now tu\<rparr>"

definition tokens_of :: "('q, 'r, 'i, 'j) services \<Rightarrow> string \<Rightarrow> string set" where
  "tokens_of sv = discriminator_tokens (sv_names sv) (sv_recognizer sv)"

definition judged :: "('q, 'r, 'i, 'j) services \<Rightarrow> prepared \<Rightarrow> qa_hit \<Rightarrow> bool" where
  "judged sv pp h =
     judge_match (sv_judge sv) (map_option lm_judge (sv_llm sv)) (pp_query pp) (qh_question h) (qh_similarity h)
       (map_option cp_threshold (policy_of pp))"

text \<open>An exception of the cache is a miss.\<close>

definition cached_hit ::
  "('q, 'r, 'i, 'j) services \<Rightarrow> 'j turn \<Rightarrow> prepared \<Rightarrow> 'q cache_state \<Rightarrow> 'q cache_state \<times> qa_hit option" where
  "cached_hit sv tu pp st =
     (case (sv_qa sv, pp_embedding pp) of
        (Some (c, cfg), Some v) \<Rightarrow>
          (if skip_cache sv tu pp then (st, None)
           else case qa_lookup c (tokens_of sv) cfg (lookup_of sv tu pp) v st of
               (st1, Inl e) \<Rightarrow> (st1, None)
             | (st1, Inr None) \<Rightarrow> (st1, None)
             | (st1, Inr (Some h)) \<Rightarrow> (st1, if judged sv pp h then Some h else None))
      | _ \<Rightarrow> (st, None))"

definition vision_markers :: "string list" where
  "vision_markers =
     [''claude-3'', ''claude-4'', ''claude-opus-4'', ''claude-sonnet-4'', ''claude-haiku-4'', ''opus-4'', ''sonnet-4'', ''haiku-4'',
      ''gpt-4o'', ''gpt-4.1'', ''gpt-5'', ''o4-'', ''gemini-1.5'', ''gemini-2'', ''gemini-3'']"

definition is_vision_capable :: "string \<Rightarrow> bool" where
  "is_vision_capable model = (model \<noteq> [] \<and> list_ex (\<lambda>m. py_in m (py_lower model)) vision_markers)"

definition image_context :: "(string \<times> string result) option list \<Rightarrow> string list \<Rightarrow> string" where
  "image_context models images =
     (if images = [] then []
      else case find (is_vision_capable \<circ> fst) (List.map_filter id models) of
          None \<Rightarrow> [] | Some (m, Inl e) \<Rightarrow> [] | Some (m, Inr t) \<Rightarrow> py_strip t)"

definition query_for_state :: "('q, 'r, 'i, 'j) services \<Rightarrow> 'j turn \<Rightarrow> prepared \<Rightarrow> string" where
  "query_for_state sv tu pp =
     (let names = join '', '' (map (\<lambda>n. if n = [] then ''image'' else n) (tu_images tu));
          ctx = image_context (sv_models sv) (tu_images tu)
      in if tu_images tu = [] then pp_query pp
         else if ctx \<noteq> [] then py_strip (pp_query pp @ blank_line @ ''IMAGE CONTEXT (attached '' @ names
           @ '', transcribed by the vision model): '' @ ctx)
         else py_strip (pp_query pp @ '' [attached image: '' @ names @ '']''))"

text \<open>The fields that every turn starts with, whatever the thread's checkpoint holds.\<close>

definition turn_resets :: obj where
  "turn_resets =
     [(''retry_count'', JInt 0), (''max_retries'', JInt 3), (''regen_count'', JInt 0), (''max_regens'', JInt 3),
      (''rewrite_history'', JList []), (''best_rerank_score'', JFloat (Fin 0)), (''verification_result'', JObj []),
      (''anchors'', JList []), (''anchors_matched_in_results'', JBool False), (''hyde_text'', JNull), (''sub_queries'', JList []),
      (''retrieved_chunks'', JList []), (''merged_results'', JList []), (''graded_chunks'', JList []), (''final_chunks'', JList []),
      (''keyword_results'', JList []), (''graph_context'', JNull), (''sources_searched'', JList []), (''query_type'', JNull),
      (''intent_confidence'', JFloat (Fin 0)), (''requires_graph'', JBool False), (''scoped_repo'', JNull),
      (''scoped_repo_mode'', JNull), (''plural_repo_intent'', JBool False), (''fanout_slugs'', JList []),
      (''listing_intent'', JBool False), (''scoped_path'', JNull), (''current_step'', JStr []), (''error'', JNull),
      (''generation'', JStr []), (''generation_grounded'', JBool False), (''tool_calls'', JList []), (''tool_results'', JList []),
      (''tool_call_count'', JInt 0), (''tool_message_history'', JList []), (''tool_path_active'', JBool False),
      (''tool_call_audit'', JList []), (''model_route_decision'', JObj [])]"

definition category_of :: "prepared \<Rightarrow> string option" where
  "category_of pp = map_option (category_value \<circ> cl_category) (pp_class pp)"

definition past_entry :: "'j inv_hit \<Rightarrow> json result" where
  "past_entry h =
     (case traverse (\<lambda>a. case a of JObj d \<Rightarrow> Inr (dget JNull ''name'' d) | _ \<Rightarrow> Inl (AttributeError ''get'')) (ie_audit (ih_entry h)) of
        Inl e \<Rightarrow> Inl e
      | Inr names \<Rightarrow> Inr (JObj [(''question'', JStr (ie_question (ih_entry h))), (''answer'', JStr (ie_answer (ih_entry h))),
          (''tool_calls'', JList (filter truthy names)), (''similarity'', JFloat (Fin (ih_similarity h))),
          (''age_seconds'', JFloat (Fin (ih_age h))), (''thread_id'', JStr (ie_thread (ih_entry h)))]))"

definition past_investigations ::
  "('q, 'r, 'i, 'j) services \<Rightarrow> 'j turn \<Rightarrow> prepared \<Rightarrow> 'r inv_state \<Rightarrow> 'r inv_state \<times> json list" where
  "past_investigations sv tu pp st =
     (case (sv_inv sv, pp_embedding pp) of
        (Some (c, cfg), Some v) \<Rightarrow>
          (let (st1, hits) = inv_search c cfg (Some 3) None (Some (tu_user tu)) (tu_now tu) v st
           in (st1, case traverse past_entry hits of Inl e \<Rightarrow> [] | Inr ps \<Rightarrow> ps))
      | _ \<Rightarrow> (st, []))"

definition initial_state :: "('q, 'r, 'i, 'j) services \<Rightarrow> 'j turn \<Rightarrow> prepared \<Rightarrow> json list \<Rightarrow> obj" where
  "initial_state sv tu pp past =
     [(''query'', JStr (query_for_state sv tu pp)), (''user_id'', JStr (tu_user tu)), (''thread_id'', JStr (tu_thread tu))]
     @ turn_resets
     @ [(''past_investigations'', JList past),
        (''conversation_history'', JList (map (\<lambda>m. JObj [(''role'', JStr (pm_role m)), (''content'', JStr (pm_text m))]) (pp_prior pp))),
        (''query_category'', case category_of pp of None \<Rightarrow> JNull | Some s \<Rightarrow> JStr s)]"

subsection \<open>After the graph\<close>

definition graded_of :: "graph_result \<Rightarrow> chunk list" where
  "graded_of r =
     (if gr_final r \<noteq> [] then gr_final r else if gr_graded r \<noteq> [] then gr_graded r
      else if gr_merged r \<noteq> [] then gr_merged r else gr_retrieved r)"

definition cited :: "graph_result \<Rightarrow> chunk list" where
  "cited r = first_by src (graded_of r)"

definition explicitly_ungrounded :: "graph_result \<Rightarrow> bool" where
  "explicitly_ungrounded r \<longleftrightarrow> gr_grounded r = Some False \<and> gr_checked r = Some True"

definition scope_of :: "'j turn \<Rightarrow> graph_result \<Rightarrow> string option" where
  "scope_of tu r = (if gr_memories r = [] then None else Some (tu_user tu))"

definition store_of :: "'j turn \<Rightarrow> prepared \<Rightarrow> url_bases \<Rightarrow> graph_result \<Rightarrow> store_request" where
  "store_of tu pp bases r =
     \<lparr>sq_question = pp_query pp, sq_answer = gr_generation r, sq_sources = map src (cited r),
      sq_contents = map (\<lambda>c. (src c, take 4000 (content c))) (cited r), sq_source_repos = [],
      sq_ttl = map_option cp_ttl (policy_of pp), sq_source_urls = map (src_url bases) (cited r),
      sq_user_scope = scope_of tu r, sq_now = tu_now tu\<rparr>"

definition cacheable :: "'j turn \<Rightarrow> graph_result \<Rightarrow> bool" where
  "cacheable tu r \<longleftrightarrow> gr_generation r \<noteq> [] \<and> \<not> explicitly_ungrounded r \<and> \<not> gr_tool_path r \<and> tu_images tu = []"

definition store_answer ::
  "('q, 'r, 'i, 'j) services \<Rightarrow> 'j turn \<Rightarrow> prepared \<Rightarrow> graph_result \<Rightarrow> 'q cache_state \<Rightarrow> 'q cache_state" where
  "store_answer sv tu pp r st =
     (case (sv_qa sv, pp_embedding pp) of
        (Some (c, cfg), Some v) \<Rightarrow> (if cacheable tu r then fst (qa_store c (sv_uuid sv) cfg (store_of tu pp (sv_bases sv) r) v st) else st)
      | _ \<Rightarrow> st)"

definition investigation_of :: "'j turn \<Rightarrow> prepared \<Rightarrow> graph_result \<Rightarrow> inv_request" where
  "investigation_of tu pp r =
     \<lparr>iq_question = pp_query pp, iq_answer = gr_generation r, iq_audit = gr_audit r, iq_route = gr_route r, iq_thread = tu_thread tu,
      iq_user = tu_user tu, iq_scope = scope_of tu r, iq_now = tu_now tu\<rparr>"

definition store_investigation ::
  "('q, 'r, 'i, 'j) services \<Rightarrow> 'j turn \<Rightarrow> prepared \<Rightarrow> graph_result \<Rightarrow> 'r inv_state \<Rightarrow> 'r inv_state \<times> 'j option" where
  "store_investigation sv tu pp r st =
     (case (sv_inv sv, pp_embedding pp) of
        (Some (c, cfg), Some v) \<Rightarrow>
          (if gr_tool_path r \<and> gr_generation r \<noteq> [] \<and> \<not> explicitly_ungrounded r
           then inv_store c cfg (tu_fresh tu) (investigation_of tu pp r) v st else (st, None))
      | _ \<Rightarrow> (st, None))"

record 'j answer_out =
  ao_answer :: string
  ao_sources :: "string list"
  ao_urls :: "string option list"
  ao_contents :: "(string \<times> string) list"
  ao_paths :: "json list"
  ao_grounded :: bool
  ao_query_type :: json
  ao_thread :: string
  ao_cache_hit :: bool
  ao_stale :: bool
  ao_investigation :: "'j option"
  ao_plan :: "json list"
  ao_category :: "string option"

definition answer_of_hit :: "url_bases \<Rightarrow> 'j turn \<Rightarrow> prepared \<Rightarrow> qa_hit \<Rightarrow> 'j answer_out" where
  "answer_of_hit bases tu pp h =
     \<lparr>ao_answer = qh_answer h, ao_sources = qh_sources h,
      ao_urls = (if qh_source_urls h \<noteq> [] then qh_source_urls h else map (src_url_from_string bases) (qh_sources h)),
      ao_contents = qh_contents h, ao_paths = [], ao_grounded = True, ao_query_type = JNull, ao_thread = tu_thread tu,
      ao_cache_hit = True, ao_stale = qh_stale h, ao_investigation = None, ao_plan = [], ao_category = category_of pp\<rparr>"

definition answer_of_graph :: "url_bases \<Rightarrow> 'j turn \<Rightarrow> graph_result \<Rightarrow> 'j option \<Rightarrow> string option \<Rightarrow> 'j answer_out" where
  "answer_of_graph bases tu r iid category =
     \<lparr>ao_answer = gr_generation r, ao_sources = map src (cited r), ao_urls = map (src_url bases) (cited r),
      ao_contents = map (\<lambda>c. (src c, take 4000 (content c))) (cited r), ao_paths = gr_paths r,
      ao_grounded = (gr_grounded r = Some True), ao_query_type = gr_query_type r, ao_thread = tu_thread tu, ao_cache_hit = False,
      ao_stale = False, ao_investigation = iid, ao_plan = gr_plan r, ao_category = category\<rparr>"

subsection \<open>A turn\<close>

text \<open>The new states of the two caches, the answer or the exception of the graph, and whether a stale hit is refreshed in the
  background.\<close>

definition query_with_session ::
  "('q, 'r, 'i, 'j) services \<Rightarrow> 'j turn \<Rightarrow> 'q cache_state \<times> 'r inv_state
    \<Rightarrow> ('q cache_state \<times> 'r inv_state) \<times> 'j answer_out result \<times> bool" where
  "query_with_session sv tu = (\<lambda>(qst, ist).
     let pp = prepare sv tu; (qst1, hit) = cached_hit sv tu pp qst in
     case hit of
       Some h \<Rightarrow> ((qst1, ist), Inr (answer_of_hit (sv_bases sv) tu pp h), qh_stale h)
     | None \<Rightarrow>
         (let (ist1, past) = past_investigations sv tu pp ist in
          case tu_graph tu (initial_state sv tu pp past) of
            Inl e \<Rightarrow> ((qst1, ist1), Inl e, False)
          | Inr r \<Rightarrow>
              (let (ist2, iid) = store_investigation sv tu pp r ist1
               in ((store_answer sv tu pp r qst1, ist2), Inr (answer_of_graph (sv_bases sv) tu r iid (category_of pp)), False))))"

text \<open>The refresh asks the question as it was looked up, on a thread of its own with its own messages, and takes no stale
  answer.\<close>

definition revalidation :: "('q, 'r, 'i, 'j) services \<Rightarrow> prior_message list result \<Rightarrow> 'j turn \<Rightarrow> 'j turn" where
  "revalidation sv prior tu =
     tu\<lparr>tu_query := pp_query (prepare sv tu), tu_thread := tu_thread tu @ ''__swr'', tu_images := [], tu_serve_stale := Some False,
        tu_prior := map_option (\<lambda>_. prior) (tu_prior tu)\<rparr>"

end
