(* ===== verification/Session_Events.thy ===== *)
theory Session_Events
  imports Session_Query
begin

text \<open>
  The streaming form of a turn (\<open>query_with_session_events\<close> in \<open>agent/graph.py\<close>, the label of a tool call in
  \<open>agent/nodes/multi_agent.py\<close>): the same turn, told as events while the graph runs. The events of the graph are a
  parameter: a list, and the exception that ends it, if any. Unlike the call, this form does not look for past
  investigations. The messages of the tools, which the last event also carries, are left out.
\<close>

subsection \<open>Labels\<close>

definition node_labels :: "(string \<times> string) list" where
  "node_labels =
     [(''load_memory'', ''Loading conversation history...''), (''route_query'', ''Routing query...''),
      (''hyde_expansion'', ''Expanding query (HyDE)...''), (''vector_retrieve'', ''Searching documentation...''),
      (''keyword_retrieve'', ''Scanning keywords...''), (''merge_results'', ''Merging results...''),
      (''rerank'', ''Ranking by relevance...''), (''grade_documents'', ''Verifying retrieval coverage...''),
      (''rewrite_query'', ''Refining search...''), (''generate'', ''Generating answer...''),
      (''verify_answer'', ''Verifying claims against the corpus...''),
      (''check_hallucination'', ''Checking grounding...''), (''insufficient_info'', ''No relevant information found...''),
      (''save_memory'', ''Saving conversation...''), (''tool_decide'', ''Deciding whether to call live tools...''),
      (''tool_execute'', ''Calling live GitLab tools...''), (''tool_synthesize'', ''Synthesizing tool results...''),
      (''triage'', ''Triaging the query...''), (''tool_caller'', ''Calling live tools...''),
      (''reasoner'', ''Reasoning over results...''), (''generator'', ''Writing the answer...''),
      (''friendly_generator'', ''Replying...'')]"

definition mcp_prefix_labels :: "(string \<times> string) list" where
  "mcp_prefix_labels =
     [(''gitlab_'', ''GitLab''), (''github_'', ''GitHub''), (''k8s_'', ''Kubernetes''), (''prometheus_'', ''Prometheus''),
      (''grafana_'', ''Grafana''), (''loki_'', ''Loki''), (''rootly_'', ''Rootly''), (''pagerduty_'', ''PagerDuty''),
      (''datadog_'', ''Datadog''), (''sentry_'', ''Sentry''), (''splunk_'', ''Splunk''), (''aws_'', ''AWS''),
      (''cloudwatch_'', ''CloudWatch''), (''gcp_'', ''Google Cloud''), (''billing_gcp_'', ''GCP Billing''),
      (''billing_datadog_'', ''Datadog Billing''), (''billing_kubecost_'', ''Kubecost''),
      (''billing_atlas_'', ''Atlas Billing''), (''stackdriver_'', ''Stackdriver''), (''azure_'', ''Azure''),
      (''slack_'', ''Slack''), (''elasticsearch_'', ''Elasticsearch''), (''knowledge_'', ''Knowledge Base''),
      (''runbook_'', ''Runbook''), (''code_'', ''Code''), (''cloudflare_'', ''Cloudflare'')]"

text \<open>The label of the pending tool calls, given by their names.\<close>

definition tool_caller_label :: "string list \<Rightarrow> string" where
  "tool_caller_label pending =
     (let mcps = remdups (List.map_filter (\<lambda>name. map_option snd (find (\<lambda>(p, lab). startswith name p) mcp_prefix_labels)) pending)
      in if mcps = [] then ''Calling live tools...'' else ''Calling '' @ join '' + '' (sort mcps) @ '' tools...'')"

subsection \<open>Events\<close>

datatype graph_event =
    Chain_Start string "string list"
  | Chain_End string "graph_result option"
  | Reasoner_Token string
  | Other_Event

datatype 'j turn_event =
    Node_Start string string
  | Node_End string string
  | Token string
  | Cache_Hit real int bool
  | Final "'j answer_out"
  | Stream_Error string

definition node_label :: "string \<Rightarrow> string list \<Rightarrow> string option" where
  "node_label name pending =
     map_option (\<lambda>lab. if name = ''tool_caller'' \<and> pending \<noteq> [] then tool_caller_label pending else lab) (map_of node_labels name)"

fun told_of :: "graph_event \<Rightarrow> 'j turn_event list" where
  "told_of (Chain_Start name pending) = (case node_label name pending of None \<Rightarrow> [] | Some lab \<Rightarrow> [Node_Start name lab])"
| "told_of (Chain_End name out) = (case map_of node_labels name of None \<Rightarrow> [] | Some lab \<Rightarrow> [Node_End name lab])"
| "told_of (Reasoner_Token delta) = (if delta = [] then [] else [Token delta])"
| "told_of Other_Event = []"

text \<open>The state that the end of a chain which is no node carries; the last one is the outermost.\<close>

fun end_state :: "graph_event \<Rightarrow> graph_result option" where
  "end_state (Chain_End name (Some r)) = (if map_of node_labels name = None then Some r else None)"
| "end_state _ = None"

definition graph_outcome :: "graph_event list \<Rightarrow> graph_result option" where
  "graph_outcome evs = (case rev (List.map_filter end_state evs) of [] \<Rightarrow> None | r # _ \<Rightarrow> Some r)"

type_synonym graph_stream = "obj \<Rightarrow> graph_event list \<times> py_error option"

definition query_with_session_events ::
  "('q, 'r, 'i, 'j) services \<Rightarrow> graph_stream \<Rightarrow> 'j turn \<Rightarrow> 'q cache_state \<times> 'r inv_state
    \<Rightarrow> ('q cache_state \<times> 'r inv_state) \<times> 'j turn_event list \<times> bool" where
  "query_with_session_events sv stream tu = (\<lambda>(qst, ist).
     let pp = prepare sv tu; (qst1, hit) = cached_hit sv tu pp qst in
     case hit of
       Some h \<Rightarrow> ((qst1, ist),
         [Cache_Hit (qh_similarity h) (py_trunc (qh_age h)) (qh_stale h), Final (answer_of_hit (sv_bases sv) tu pp h)], qh_stale h)
     | None \<Rightarrow>
         (let (evs, failure) = stream (initial_state sv tu pp []);
              told = concat (map told_of evs)
          in case failure of
            Some e \<Rightarrow> ((qst1, ist), told @ [Stream_Error ''internal error while answering the query''], False)
          | None \<Rightarrow>
              (case graph_outcome evs of
                 None \<Rightarrow> ((qst1, ist), told @ [Stream_Error ''graph completed without producing a result''], False)
               | Some r \<Rightarrow>
                   (let (ist2, iid) = store_investigation sv tu pp r ist
                    in ((store_answer sv tu pp r qst1, ist2),
                        told @ [Final (answer_of_graph (sv_bases sv) tu r iid None)], False)))))"

subsection \<open>The stream and the call agree\<close>

text \<open>A graph that streams what a call of it returns.\<close>

definition streams_as_called :: "graph_stream \<Rightarrow> 'j turn \<Rightarrow> bool" where
  "streams_as_called stream tu \<longleftrightarrow>
     (\<forall>i. case stream i of
        (evs, Some e) \<Rightarrow> \<exists>e'. tu_graph tu i = Inl e'
      | (evs, None) \<Rightarrow> (\<exists>r. graph_outcome evs = Some r \<and> tu_graph tu i = Inr r))"

lemma streams_as_calledD:
  assumes "streams_as_called stream tu" "stream i = (evs, failure)"
  shows "failure = Some e \<Longrightarrow> \<exists>e'. tu_graph tu i = Inl e'"
    "failure = None \<Longrightarrow> \<exists>r. graph_outcome evs = Some r \<and> tu_graph tu i = Inr r"
  using assms(1)[unfolded streams_as_called_def, rule_format, of i] assms(2) by simp_all

definition without_category :: "'j answer_out \<Rightarrow> 'j answer_out" where
  "without_category a = (if ao_cache_hit a then a else a\<lparr>ao_category := None\<rparr>)"

text \<open>The turn with a graph that gets no past investigations, as the stream gives it none.\<close>

definition forget_past :: "obj \<Rightarrow> obj" where
  "forget_past = map (\<lambda>(k, v). if k = ''past_investigations'' then (k, JList []) else (k, v))"

definition unbriefed :: "'j turn \<Rightarrow> 'j turn" where
  "unbriefed tu = tu\<lparr>tu_graph := (\<lambda>i. tu_graph tu (forget_past i))\<rparr>"

lemma forget_resets: "forget_past turn_resets = turn_resets"
  by (simp add: forget_past_def turn_resets_def)

lemma forget_initial: "forget_past (initial_state sv tu pp past) = initial_state sv tu pp []"
  using forget_resets by (simp add: initial_state_def forget_past_def)

lemma unbriefed_fields [simp]:
  "tu_graph (unbriefed tu) i = tu_graph tu (forget_past i)"
  "tu_query (unbriefed tu) = tu_query tu" "tu_user (unbriefed tu) = tu_user tu" "tu_thread (unbriefed tu) = tu_thread tu"
  "tu_images (unbriefed tu) = tu_images tu" "tu_serve_stale (unbriefed tu) = tu_serve_stale tu" "tu_prior (unbriefed tu) = tu_prior tu"
  "tu_now (unbriefed tu) = tu_now tu" "tu_fresh (unbriefed tu) = tu_fresh tu"
  by (simp_all add: unbriefed_def)

lemma unbriefed_before [simp]:
  "prepare sv (unbriefed tu) = prepare sv tu" "cached_hit sv (unbriefed tu) pp qst = cached_hit sv tu pp qst"
  "initial_state sv (unbriefed tu) pp past = initial_state sv tu pp past"
  "past_investigations sv (unbriefed tu) pp ist = past_investigations sv tu pp ist"
  unfolding prepare_def asked_def prior_of_def cached_hit_def skip_cache_def lookup_of_def initial_state_def query_for_state_def
    past_investigations_def unbriefed_fields
  by (rule refl)+

lemma unbriefed_after [simp]:
  "store_answer sv (unbriefed tu) pp r qst = store_answer sv tu pp r qst"
  "store_investigation sv (unbriefed tu) pp r ist = store_investigation sv tu pp r ist"
  "answer_of_hit bases (unbriefed tu) pp h = answer_of_hit bases tu pp h"
  "answer_of_graph bases (unbriefed tu) r iid category = answer_of_graph bases tu r iid category"
  unfolding store_answer_def cacheable_def store_of_def scope_of_def store_investigation_def investigation_of_def answer_of_hit_def
    answer_of_graph_def unbriefed_fields
  by (rule refl)+

text \<open>The search for past investigations only sets up their collection.\<close>

lemma search_leaves_ready:
  assumes "sv_inv sv = None \<or> fst ist"
  shows "fst (past_investigations sv tu pp ist) = ist"
  using assms by (cases ist)
    (auto simp: past_investigations_def inv_search_def ensure_investigations_def Let_def split: option.split)

text \<open>C11: The stream leaves both caches as a call does whose graph is given no past investigations, and its last event is the
  answer of that call, but for the category of a fresh one, or an error if and only if the call raises. The collection of
  investigations, if there is one, is set up already: the call would do so before its graph runs, the stream after it.\<close>

theorem stream_agrees_with_call:
  assumes "streams_as_called stream tu" "sv_inv sv = None \<or> fst (snd st)" "query_with_session sv (unbriefed tu) st = (st', res, reval)"
  shows "\<exists>events. query_with_session_events sv stream tu st = (st', events, reval) \<and> events \<noteq> []
    \<and> (case res of Inr a \<Rightarrow> last events = Final (without_category a) | Inl e \<Rightarrow> \<exists>msg. last events = Stream_Error msg)"
proof -
  obtain qst ist where st: "st = (qst, ist)" by (cases st)
  obtain pp where pp: "prepare sv tu = pp" by blast
  obtain qst1 hit where h: "cached_hit sv tu pp qst = (qst1, hit)" by fastforce
  show ?thesis
  proof (cases hit)
    case (Some x)
    then have "(st', res, reval) = ((qst1, ist), Inr (answer_of_hit (sv_bases sv) tu pp x), qh_stale x)"
      using assms(3) by (simp add: query_with_session_def st pp h)
    then show ?thesis
      by (simp add: query_with_session_events_def st pp h Some without_category_def answer_of_hit_def)
  next
    case None
    obtain past where p: "past_investigations sv tu pp ist = (ist, past)"
      using search_leaves_ready [of sv ist tu pp] assms(2) by (metis st snd_conv prod.collapse)
    obtain evs failure where ev: "stream (initial_state sv tu pp []) = (evs, failure)" by fastforce
    note run = assms(3) [unfolded query_with_session_def st Let_def, simplified, unfolded pp h, simplified, unfolded None p,
        simplified, unfolded forget_initial]
    show ?thesis
    proof (cases failure)
      case (Some e)
      then obtain e' where "tu_graph tu (initial_state sv tu pp []) = Inl e'"
        using streams_as_calledD(1) [OF assms(1) ev] by blast
      then show ?thesis using run by (auto simp: query_with_session_events_def st pp h None ev Some)
    next
      case none: None
      then obtain r where r: "graph_outcome evs = Some r" "tu_graph tu (initial_state sv tu pp []) = Inr r"
        using streams_as_calledD(2) [OF assms(1) ev] by blast
      obtain ist2 iid where i: "store_investigation sv tu pp r ist = (ist2, iid)" by fastforce
      show ?thesis using run
        by (auto simp: query_with_session_events_def st pp h None ev none r i without_category_def answer_of_graph_def)
    qed
  qed
qed

end
