(* ===== verification/Session_Facts.thy ===== *)
theory Session_Facts
  imports Session_Events
begin

text \<open>
  What holds of the answer cache as the turns use it: whose answers reach whom, what a failing cache costs, which answers
  are kept, and what of a thread's last turn the next one still sees.
\<close>

subsection \<open>The life of the cache\<close>

text \<open>An entry is the answer of a turn.\<close>

definition stored_by :: "('q, 'r, 'i, 'j) services \<Rightarrow> 'j turn \<Rightarrow> cache_entry \<Rightarrow> bool" where
  "stored_by sv tu e \<longleftrightarrow>
     (\<exists>i r. tu_graph tu i = Inr r \<and> cacheable tu r \<and> ce_question e = pp_query (prepare sv tu) \<and> ce_answer e = gr_generation r
        \<and> ce_scope e = stamp (scope_of tu r))"

text \<open>Turns, reindexing, purges and feedback in any order; the second component lists the turns so far.\<close>

inductive cache_life ::
  "('q, 'r, 'i, 'j) services \<Rightarrow> ('q cache_state \<times> 'r inv_state) \<times> 'j turn list \<Rightarrow> ('q cache_state \<times> 'r inv_state) \<times> 'j turn list \<Rightarrow> bool"
  for sv where
  life_turn: "query_with_session sv tu st = (st', res) \<Longrightarrow> cache_life sv (st, turns) (st', tu # turns)"
| life_reindex: "sv_qa sv = Some (c, cfg) \<Longrightarrow> cache_life sv ((q, i), turns) ((fst (invalidate_repo c cfg rp q), i), turns)"
| life_purge: "sv_qa sv = Some (c, cfg) \<Longrightarrow> cache_life sv ((q, i), turns) ((fst (qa_purge c cfg p now q), i), turns)"
| life_flag: "sv_qa sv = Some (c, cfg) \<Longrightarrow> cache_life sv ((q, i), turns) ((flag_low_quality c (sv_uuid sv) cfg question q, i), turns)"

inductive_cases cache_lifeE: "cache_life sv a b"

definition accounted ::
  "('q \<Rightarrow> string \<Rightarrow> ('i \<times> cache_entry) set) \<Rightarrow> string \<Rightarrow> ('q, 'r, 'i, 'j) services
    \<Rightarrow> ('q cache_state \<times> 'r inv_state) \<times> 'j turn list \<Rightarrow> bool" where
  "accounted pts coll sv a \<longleftrightarrow> (\<forall>i e. (i, e) \<in> pts (snd (fst (fst a))) coll \<longrightarrow> (\<exists>tu \<in> set (snd a). stored_by sv tu e))"

lemma cached_hit_served:
  assumes "cached_hit sv tu pp st = (st', Some h)" "sv_qa sv = Some (c, cfg)"
  obtains v where "pp_embedding pp = Some v" "qa_lookup c (tokens_of sv) cfg (lookup_of sv tu pp) v st = (st', Inr (Some h))"
    "judged sv pp h" "\<not> skip_cache sv tu pp"
proof -
  obtain v where v: "pp_embedding pp = Some v" using assms by (cases "pp_embedding pp") (auto simp: cached_hit_def)
  obtain st1 y where l: "qa_lookup c (tokens_of sv) cfg (lookup_of sv tu pp) v st = (st1, y)" by fastforce
  show ?thesis using assms that v l by (auto simp: cached_hit_def split: if_splits sum.splits option.splits)
qed

lemma cached_hit_adds_nothing:
  assumes "vector_laws pts entry_sat c" "sv_qa sv = Some (c, cfg)" "cached_hit sv tu pp st = (st', x)"
  shows "pts (snd st') (cc_collection cfg) \<subseteq> pts (snd st) (cc_collection cfg)"
proof (cases "pp_embedding pp")
  case None
  then show ?thesis using assms(2,3) by (simp add: cached_hit_def)
next
  case (Some v)
  obtain st1 y where l: "qa_lookup c (tokens_of sv) cfg (lookup_of sv tu pp) v st = (st1, y)" by fastforce
  have "st' = st \<or> st' = st1"
    using assms(2,3) Some l by (auto simp: cached_hit_def split: if_splits sum.splits option.splits)
  then show ?thesis using lookup_adds_nothing [OF assms(1) l] by auto
qed

lemma store_answer_adds:
  assumes "vector_laws pts entry_sat c" "sv_qa sv = Some (c, cfg)"
  shows "pts (snd (store_answer sv tu pp r st)) (cc_collection cfg)
    \<subseteq> pts (snd st) (cc_collection cfg) \<union> {(i, e). cacheable tu r \<and> e = entry_of cfg (store_of tu pp (sv_bases sv) r)}"
proof (cases "pp_embedding pp")
  case None
  then show ?thesis using assms(2) by (simp add: store_answer_def)
next
  case (Some v)
  obtain st1 y where s: "qa_store c (sv_uuid sv) cfg (store_of tu pp (sv_bases sv) r) v st = (st1, y)" by fastforce
  have "store_answer sv tu pp r st = (if cacheable tu r then st1 else st)" by (simp add: store_answer_def assms(2) Some s)
  then show ?thesis using store_adds [OF assms(1) s] by auto
qed

lemma entry_of_store [simp]:
  "ce_question (entry_of cfg s) = sq_question s" "ce_answer (entry_of cfg s) = sq_answer s"
  "ce_scope (entry_of cfg s) = stamp (sq_user_scope s)"
  by (simp_all add: entry_of_def Let_def)

text \<open>What a turn does, by cases.\<close>

lemma turn_cases:
  assumes "query_with_session sv tu (qst, ist) = (st', res, reval)"
  obtains (hit) qst1 h where "cached_hit sv tu (prepare sv tu) qst = (qst1, Some h)" "st' = (qst1, ist)"
      "res = Inr (answer_of_hit (sv_bases sv) tu (prepare sv tu) h)" "reval = qh_stale h"
  | (raised) qst1 ist1 past e where "cached_hit sv tu (prepare sv tu) qst = (qst1, None)"
      "past_investigations sv tu (prepare sv tu) ist = (ist1, past)"
      "tu_graph tu (initial_state sv tu (prepare sv tu) past) = Inl e" "st' = (qst1, ist1)" "res = Inl e" "\<not> reval"
  | (answered) qst1 ist1 past r ist2 iid where "cached_hit sv tu (prepare sv tu) qst = (qst1, None)"
      "past_investigations sv tu (prepare sv tu) ist = (ist1, past)"
      "tu_graph tu (initial_state sv tu (prepare sv tu) past) = Inr r"
      "store_investigation sv tu (prepare sv tu) r ist1 = (ist2, iid)" "st' = (store_answer sv tu (prepare sv tu) r qst1, ist2)"
      "res = Inr (answer_of_graph (sv_bases sv) tu r iid (category_of (prepare sv tu)))" "\<not> reval"
proof -
  obtain qst1 hit where h: "cached_hit sv tu (prepare sv tu) qst = (qst1, hit)" by fastforce
  show ?thesis
  proof (cases hit)
    case (Some x)
    then show ?thesis using assms h by (intro that(1) [of qst1 x]) (simp_all add: query_with_session_def Let_def)
  next
    case None
    obtain ist1 past where p: "past_investigations sv tu (prepare sv tu) ist = (ist1, past)" by fastforce
    show ?thesis
    proof (cases "tu_graph tu (initial_state sv tu (prepare sv tu) past)")
      case (Inl e)
      then show ?thesis using assms h p None by (intro that(2) [of qst1 ist1 past e]) (simp_all add: query_with_session_def Let_def)
    next
      case (Inr r)
      obtain ist2 iid where i: "store_investigation sv tu (prepare sv tu) r ist1 = (ist2, iid)" by fastforce
      then show ?thesis using assms h p None Inr
        by (intro that(3) [of qst1 ist1 past r ist2 iid]) (simp_all add: query_with_session_def Let_def)
    qed
  qed
qed

lemma life_accounted:
  assumes "vector_laws pts entry_sat c" "sv_qa sv = Some (c, cfg)" "cache_life sv a b" "accounted pts (cc_collection cfg) sv a"
  shows "accounted pts (cc_collection cfg) sv b"
  using assms(3)
proof cases
  case (life_turn tu st st' res turns)
  obtain qst ist where st: "st = (qst, ist)" by (cases st)
  obtain out reval where res: "res = (out, reval)" by (cases res)
  have old: "\<exists>tu \<in> set turns. stored_by sv tu e" if "(i, e) \<in> pts (snd qst) (cc_collection cfg)" for i e
    using assms(4) that life_turn(1) st by (auto simp: accounted_def)
  from life_turn(3) [unfolded st res] show ?thesis
  proof (cases rule: turn_cases)
    case (hit qst1 h)
    then show ?thesis using old cached_hit_adds_nothing [OF assms(1,2) hit(1)] life_turn(2) by (fastforce simp: accounted_def)
  next
    case (raised qst1 ist1 past e)
    then show ?thesis using old cached_hit_adds_nothing [OF assms(1,2) raised(1)] life_turn(2) by (fastforce simp: accounted_def)
  next
    case (answered qst1 ist1 past r ist2 iid)
    have new: "stored_by sv tu (entry_of cfg (store_of tu (prepare sv tu) (sv_bases sv) r))" if "cacheable tu r"
      using that answered(3) by (auto simp: stored_by_def store_of_def)
    have "\<exists>t \<in> set (tu # turns). stored_by sv t e" if "(i, e) \<in> pts (snd (store_answer sv tu (prepare sv tu) r qst1)) (cc_collection cfg)" for i e
      using that store_answer_adds [OF assms(1,2), of tu "prepare sv tu" r qst1] cached_hit_adds_nothing [OF assms(1,2) answered(1)] old new
      by fastforce
    then show ?thesis using answered(5) life_turn(2) by (auto simp: accounted_def)
  qed
next
  case (life_reindex c' cfg' q i turns rp)
  then show ?thesis using assms(2,4) invalidate_adds_nothing [OF assms(1), of cfg rp q] by (fastforce simp: accounted_def)
next
  case (life_purge c' cfg' q i turns p now)
  then show ?thesis using assms(2,4) purge_adds_nothing [OF assms(1), of cfg p now q] by (fastforce simp: accounted_def)
next
  case (life_flag c' cfg' q i turns question)
  have low: "stored_by sv tu (e\<lparr>ce_quality := Some ''low''\<rparr>) = stored_by sv tu e" for tu e by (simp add: stored_by_def)
  have "c' = c" "cfg' = cfg" using life_flag(3) assms(2) by simp_all
  then have b: "snd (fst (fst b)) = snd (flag_low_quality c (sv_uuid sv) cfg question q)" "snd b = turns" using life_flag(2) by simp_all
  have "\<exists>tu \<in> set turns. stored_by sv tu e" if "(j, e) \<in> pts (snd (fst (fst b))) (cc_collection cfg)" for j e
  proof -
    from that flag_adds_flags [OF assms(1), of "sv_uuid sv" cfg question q]
    obtain e' where "(j, e') \<in> pts (snd q) (cc_collection cfg)" "e = e' \<or> e = e'\<lparr>ce_quality := Some ''low''\<rparr>"
      unfolding b by blast
    then show ?thesis using assms(4) life_flag(1) low by (fastforce simp: accounted_def)
  qed
  then show ?thesis by (simp add: accounted_def b(2))
qed

text \<open>C10: Whatever turns, reindexing, purges and feedback came before, a cached answer is the answer of an earlier turn with the
  same discriminators, which was not found ungrounded and came from no tool; if it drew on memories of a user, then on those
  of the one who asks now, unless that turn had no user.\<close>

theorem cached_answers_stay_private:
  assumes "vector_laws pts entry_sat c" "sv_qa sv = Some (c, cfg)" "pts (snd (fst st0)) (cc_collection cfg) = {}"
    and "(cache_life sv)\<^sup>*\<^sup>* (st0, []) (st, turns)" "query_with_session sv tu st = (st', Inr out, reval)" "ao_cache_hit out"
  shows "\<exists>tu0 \<in> set turns. \<exists>i r. tu_graph tu0 i = Inr r \<and> ao_answer out = gr_generation r
    \<and> \<not> explicitly_ungrounded r \<and> \<not> gr_tool_path r \<and> tu_images tu0 = []
    \<and> (gr_memories r = [] \<or> tu_user tu0 = tu_user tu \<or> tu_user tu0 = [])
    \<and> tokens_of sv (pp_query (prepare sv tu)) = tokens_of sv (pp_query (prepare sv tu0))"
proof -
  have "accounted pts (cc_collection cfg) sv (st0, [])" using assms(3) by (simp add: accounted_def)
  with assms(4) have acc: "accounted pts (cc_collection cfg) sv (st, turns)"
    by (induction rule: rtranclp_induct) (auto dest: life_accounted [OF assms(1,2)])
  obtain qst ist where st: "st = (qst, ist)" by (cases st)
  from assms(5) [unfolded st] obtain qst1 h where h: "cached_hit sv tu (prepare sv tu) qst = (qst1, Some h)"
    and out: "out = answer_of_hit (sv_bases sv) tu (prepare sv tu) h"
    by (cases rule: turn_cases) (use assms(6) in \<open>auto simp: answer_of_graph_def\<close>)
  obtain v where l: "qa_lookup c (tokens_of sv) cfg (lookup_of sv tu (prepare sv tu)) v qst = (qst1, Inr (Some h))"
    using cached_hit_served [OF h assms(2)] by blast
  obtain i e score where e: "may_see (Some (tu_user tu)) e" "serve (tokens_of sv) cfg (lookup_of sv tu (prepare sv tu)) e score = Some h"
    "(i, e) \<in> pts (snd qst) (cc_collection cfg)"
    using qa_lookup_hit [OF assms(1) l] by (metis lookup_of_def lookup_request.select_convs(2))
  have "\<exists>tu0 \<in> set turns. stored_by sv tu0 e" using acc e(3) unfolding accounted_def st by simp
  then obtain tu0 j r where t: "tu0 \<in> set turns" "tu_graph tu0 j = Inr r" "cacheable tu0 r" "ce_question e = pp_query (prepare sv tu0)"
    "ce_answer e = gr_generation r" "ce_scope e = stamp (scope_of tu0 r)"
    by (auto simp: stored_by_def)
  have "tokens_of sv (pp_query (prepare sv tu)) = tokens_of sv (ce_question e)"
    by (rule serve_SomeD(9) [OF e(2)]) (simp add: lookup_of_def)
  moreover have "gr_memories r = [] \<or> tu_user tu0 = tu_user tu \<or> tu_user tu0 = []"
    using e(1) t(6) by (auto simp: may_see_def stamp_def scope_of_def split: if_splits)
  moreover have "ao_answer out = gr_generation r" using out serve_SomeD(2) [OF e(2)] t(5) by (simp add: answer_of_hit_def)
  ultimately show ?thesis using t by (auto simp: cacheable_def)
qed

subsection \<open>A failing cache\<close>

lemma prepare_without_cache [simp]: "prepare (sv\<lparr>sv_qa := None\<rparr>) tu = prepare sv tu"
  by (simp add: prepare_def asked_def cong: option.case_cong)

lemma failing_query_misses:
  assumes "\<And>coll v k f q. \<exists>e. vc_query c coll v k f q = Inl e" "sv_qa sv = Some (c, cfg)"
  shows "\<exists>st'. cached_hit sv tu pp st = (st', None)"
proof (cases "snd (cached_hit sv tu pp st)")
  case None
  then show ?thesis by (metis prod.collapse)
next
  case (Some h)
  then obtain st' where "cached_hit sv tu pp st = (st', Some h)" by (metis prod.collapse)
  from cached_hit_served [OF this assms(2)] obtain v where
    l: "qa_lookup c (tokens_of sv) cfg (lookup_of sv tu pp) v st = (st', Inr (Some h))" by blast
  obtain st1 y where en: "ensure_collection c cfg st = (st1, y)" by fastforce
  obtain e where "vc_query c (cc_collection cfg) v 1 (shared_or_mine (lr_user (lookup_of sv tu pp))) (snd st1) = Inl e"
    using assms(1) by blast
  then show ?thesis using l en by (auto simp: qa_lookup_def split: sum.splits prod.splits if_splits)
qed

text \<open>C32: A database that answers no search costs the cache and nothing else: the turn ends as it would without a cache.\<close>

theorem cache_outage_costs_nothing:
  assumes "\<And>coll v k f q. \<exists>e. vc_query c coll v k f q = Inl e" "sv_qa sv = Some (c, cfg)"
  shows "snd (query_with_session sv tu st) = snd (query_with_session (sv\<lparr>sv_qa := None\<rparr>) tu st)"
proof -
  obtain qst ist where st: "st = (qst, ist)" by (cases st)
  obtain qst' where h: "cached_hit sv tu (prepare sv tu) qst = (qst', None)"
    using failing_query_misses [OF assms] by blast
  have n: "cached_hit (sv\<lparr>sv_qa := None\<rparr>) tu pp qst = (qst, None)" for pp by (simp add: cached_hit_def)
  have i: "past_investigations (sv\<lparr>sv_qa := None\<rparr>) = past_investigations sv" "initial_state (sv\<lparr>sv_qa := None\<rparr>) = initial_state sv"
    "store_investigation (sv\<lparr>sv_qa := None\<rparr>) = store_investigation sv"
    by (intro ext, simp add: past_investigations_def initial_state_def query_for_state_def store_investigation_def)+
  show ?thesis
    by (simp add: query_with_session_def st Let_def h n i split: prod.split sum.split)
qed

text \<open>The background refresh of a stale answer is never served a stale answer itself.\<close>

lemma refresh_serves_fresh:
  assumes "cached_hit sv (revalidation sv prior tu) pp st = (st', Some h)" "sv_qa sv = Some (c, cfg)"
  shows "\<not> qh_stale h"
proof -
  obtain v where l: "qa_lookup c (tokens_of sv) cfg (lookup_of sv (revalidation sv prior tu) pp) v st = (st', Inr (Some h))"
    using cached_hit_served [OF assms] by blast
  then obtain e score where "serve (tokens_of sv) cfg (lookup_of sv (revalidation sv prior tu) pp) e score = Some h"
    by (auto simp: qa_lookup_def split: prod.splits sum.splits if_splits list.splits)
  from serve_SomeD(10) [OF this] show ?thesis by (auto simp: lookup_of_def revalidation_def)
qed

subsection \<open>What is kept\<close>

text \<open>C12: A question that may not be answered from the cache, because it asks about the present or about its user, still leaves
  its answer in it, for everybody and, when it is live or small talk, for the default time of the cache.\<close>

theorem bypassed_answer_is_kept:
  assumes "query_with_session sv tu ((True, q), ist) = (st', Inr out, reval)" "skip_cache sv tu (prepare sv tu)"
    and "sv_qa sv = Some (c, cfg)" "pp_embedding (prepare sv tu) = Some v"
    and "tu_graph tu = (\<lambda>i. Inr r)" "cacheable tu r" "gr_memories r = []" "pp_query (prepare sv tu) \<noteq> []"
    and "\<not> is_degenerate_answer (gr_generation r)" "\<And>i e. snd (vc_upsert c (cc_collection cfg) i v e q) = Inr ()"
  shows "\<exists>i e. snd (fst st') = fst (vc_upsert c (cc_collection cfg) i v e q) \<and> ce_answer e = ao_answer out \<and> may_see user e
    \<and> (cl_category (the (pp_class (prepare sv tu))) \<in> {LIVE, CASUAL} \<longrightarrow> ce_ttl e = Some (cc_default_ttl cfg))"
proof -
  let ?pp = "prepare sv tu"
  let ?s = "store_of tu ?pp (sv_bases sv) r"
  have h: "cached_hit sv tu ?pp (True, q) = ((True, q), None)" using assms(2,3,4) by (simp add: cached_hit_def)
  obtain ist1 past where p: "past_investigations sv tu ?pp ist = (ist1, past)" by fastforce
  obtain ist2 iid where i: "store_investigation sv tu ?pp r ist1 = (ist2, iid)" by fastforce
  let ?i = "make_point_id (sv_uuid sv) (sq_question ?s) (sq_user_scope ?s)" and ?e = "entry_of cfg ?s"
  obtain q2 where up: "vc_upsert c (cc_collection cfg) ?i v ?e q = (q2, Inr ())"
    using assms(10) [of ?i ?e] by (metis prod.collapse)
  have "st' = (store_answer sv tu ?pp r (True, q), ist2)" "out = answer_of_graph (sv_bases sv) tu r iid (category_of ?pp)"
    using assms(1) h p i by (simp_all add: query_with_session_def Let_def assms(5))
  moreover have "store_answer sv tu ?pp r (True, q) = (True, q2)"
    using up assms(3,4,6,8,9)
    by (simp add: store_answer_def qa_store_def ensure_collection_def cacheable_def) (simp add: store_of_def)
  moreover have "ce_ttl ?e = Some (cc_default_ttl cfg)" if "cl_category (the (pp_class ?pp)) \<in> {LIVE, CASUAL}"
    using that assms(4) by (auto simp: entry_of_def store_of_def policy_of_def Let_def prepare_def split: option.splits)
  moreover have "may_see user ?e" "ce_answer ?e = gr_generation r"
    using assms(7) by (simp_all add: may_see_def store_of_def scope_of_def stamp_def)
  ultimately show ?thesis using up
    by (intro exI [of _ ?i] exI [of _ ?e]) (auto simp: answer_of_graph_def)
qed

text \<open>A forensic question is looked up above 0.92, and what is found below 0.93 is served without the judge.\<close>

lemma forensic_band_unjudged:
  assumes "pp_class pp = Some cl" "cl_category cl = FORENSIC" "qh_similarity h < judge_lower"
  shows "judged sv pp h"
  unfolding judged_def using assms
  by (simp add: policy_of_def low_floor_unjudged judge_lower_def)

subsection \<open>From turn to turn\<close>



subsection \<open>Links\<close>

text \<open>A deployment without a base gets links that begin with the word None.\<close>

lemma missing_base_printed:
  assumes "ub_gitlab bases = None" "repo c \<noteq> []" "\<not> startswith (repo c) ''confluence:''" "\<not> startswith (repo c) ''slack:''"
    "\<not> startswith (repo c) ''rootly:''"
  shows "\<exists>rest. src_url bases c = Some (''None/'' @ rest)"
  using assms by (simp add: src_url_def printed_def)

text \<open>A cited source has one link, and every retrieved chunk is cited under its source.\<close>

lemma first_by_keys: "f ` set (first_by f xs) = f ` set xs"
proof (induction xs)
  case (Cons x xs)
  have "f ` set (first_by f (x # xs)) = insert (f x) (f ` {y \<in> set (first_by f xs). f y \<noteq> f x})" by simp
  also have "\<dots> = insert (f x) (f ` set (first_by f xs))" by auto
  finally show ?case using Cons by simp
qed simp

lemma first_by_distinct: "distinct (map f (first_by f xs))"
proof (induction xs)
  case (Cons x xs)
  then show ?case by (auto simp: distinct_map_filter)
qed simp

lemma answer_cites_all:
  "set (ao_sources (answer_of_graph bases tu r iid cat)) = src ` set (graded_of r)"
  "distinct (ao_sources (answer_of_graph bases tu r iid cat))"
  "length (ao_urls (answer_of_graph bases tu r iid cat)) = length (ao_sources (answer_of_graph bases tu r iid cat))"
  by (simp_all add: answer_of_graph_def cited_def first_by_keys first_by_distinct)

subsection \<open>A small deployment\<close>

text \<open>A deployment with a database in memory, no models and one answer, to apply the theorems to.\<close>

definition demo_answer :: string where
  "demo_answer = ''The quick brown fox jumps over the lazy dog and runs away''"

definition demo_result :: graph_result where
  "demo_result =
     \<lparr>gr_final = [], gr_graded = [], gr_merged = [], gr_retrieved = [], gr_paths = [], gr_generation = demo_answer,
      gr_grounded = Some True, gr_checked = Some True, gr_tool_path = False, gr_memories = [], gr_audit = [], gr_route = [],
      gr_query_type = JNull, gr_plan = []\<rparr>"

definition demo_turn :: "string \<Rightarrow> real \<Rightarrow> nat turn" where
  "demo_turn query now =
     \<lparr>tu_query = query, tu_user = ''u1'', tu_thread = ''t1'', tu_images = [], tu_serve_stale = None, tu_prior = None,
      tu_graph = (\<lambda>i. Inr demo_result), tu_now = now, tu_fresh = 7\<rparr>"

type_synonym demo_db = "(nat, cache_entry) memory_db"

definition demo_client :: "(demo_db, nat, real list, cache_entry) vector_client" where
  "demo_client = memory_client entry_sat"

definition demo_services :: "(demo_db, unit, nat, nat) services" where
  "demo_services =
     \<lparr>sv_qa = Some (demo_client, default_cache), sv_inv = None, sv_uuid = (\<lambda>s. 0),
      sv_names = \<lparr>dn_environments = [], dn_services = [], dn_router_examples = []\<rparr>, sv_recognizer = None,
      sv_judge = \<lparr>jc_enabled = True, jc_upper = 99 / 100, jc_fail_open = False\<rparr>, sv_embed = Some (\<lambda>s. Inr [1]), sv_router = None,
      sv_llm = None, sv_models = [], sv_bases = \<lparr>ub_confluence = None, ub_slack = None, ub_rootly = None, ub_gitlab = None\<rparr>,
      sv_cache_disabled = False, sv_swr_default = True\<rparr>"

lemma demo_text [simp]: "\<not> is_degenerate_answer demo_answer" "demo_answer \<noteq> []"
  by (code_simp, simp add: demo_answer_def)

lemma demo_parts [simp]:
  "sv_qa demo_services = Some (demo_client, default_cache)" "sv_inv demo_services = None" "sv_llm demo_services = None"
  "sv_uuid demo_services = (\<lambda>s. 0)" "sv_embed demo_services = Some (\<lambda>s. Inr [1])" "sv_router demo_services = None"
  "sv_cache_disabled demo_services = False" "cc_collection default_cache = ''opsrag_qa_cache''" "cc_default_ttl default_cache = 14 * 86400"
  "tu_query (demo_turn q t) = q" "tu_user (demo_turn q t) = ''u1''" "tu_images (demo_turn q t) = []" "tu_serve_stale (demo_turn q t) = None"
  "tu_prior (demo_turn q t) = None" "tu_graph (demo_turn q t) = (\<lambda>i. Inr demo_result)" "tu_now (demo_turn q t) = t"
  "gr_generation demo_result = demo_answer" "gr_memories demo_result = []" "gr_tool_path demo_result = False" "cited demo_result = []"
  "\<not> explicitly_ungrounded demo_result"
  by (simp_all add: demo_services_def default_cache_def demo_turn_def demo_result_def cited_def graded_of_def explicitly_ungrounded_def)

lemma demo_calls [simp]:
  "vc_names demo_client q = Inr (set (map fst q))" "vc_create demo_client coll n q = (AList.update coll [] q, Inr ())"
  "vc_index demo_client coll field q = (q, Inr ())"
  "vc_query demo_client coll v k f q = (case map_of q coll of None \<Rightarrow> Inl ''404''
     | Some ps \<Rightarrow> Inr (take k (map (\<lambda>(i, p). (i, p, 1)) (filter (\<lambda>(i, p). passes entry_sat f p) ps))))"
  "vc_upsert demo_client coll i v p = on_collection (\<lambda>ps. (i, p) # filter (\<lambda>x. fst x \<noteq> i) ps) coll"
  by (simp_all add: demo_client_def memory_client_def)

lemma demo_prepare [simp]:
  "prepare demo_services (demo_turn ''?'' now) = \<lparr>pp_query = ''?'', pp_prior = [], pp_embedding = Some [1], pp_class = Some (classified UNKNOWN ''default'')\<rparr>"
  by (simp add: prepare_def asked_def prior_of_def classify_query_def semantic_layer_def Let_def question_mark_unclassified)

definition demo_entry :: "real \<Rightarrow> cache_entry" where
  "demo_entry now =
     \<lparr>ce_question = ''?'', ce_answer = demo_answer, ce_sources = [], ce_source_urls = [], ce_contents = [], ce_repos = [],
      ce_source_repos = [], ce_ttl = Some (14 * 86400), ce_created = Some now, ce_quality = Some ''ok'', ce_scope = None\<rparr>"

definition demo_state :: "real \<Rightarrow> demo_db cache_state \<times> unit inv_state" where
  "demo_state now = ((True, [(''opsrag_qa_cache'', [(0, demo_entry now)])]), (False, ()))"

lemma demo_unskipped: "\<not> skip_cache demo_services (demo_turn ''?'' now) (prepare demo_services (demo_turn ''?'' now))"
  by (simp add: skip_cache_def question_mark_unclassified policy_of_def classified_def)

text \<open>The first turn fills the cache, the second is answered from it.\<close>

lemma demo_first_turn:
  "fst (query_with_session demo_services (demo_turn ''?'' now) ((False, []), (False, ()))) = demo_state now"
proof -
  have h: "cached_hit demo_services (demo_turn ''?'' now) (prepare demo_services (demo_turn ''?'' now)) (False, []) = ((True, [(''opsrag_qa_cache'', [])]), None)"
    using demo_unskipped [of now] by (simp add: cached_hit_def qa_lookup_def ensure_collection_def index_fields_def)
  have e: "entry_of default_cache (store_of (demo_turn ''?'' now) (prepare demo_services (demo_turn ''?'' now)) bases demo_result) = demo_entry now" for bases
    by (simp add: entry_of_def store_of_def scope_of_def stamp_def demo_entry_def policy_of_def classified_def derive_repos_def Let_def)
  have r: "past_investigations demo_services (demo_turn ''?'' now) pp ist = (ist, [])" "store_investigation demo_services (demo_turn ''?'' now) pp r ist = (ist, None)" for pp r ist
    by (simp_all add: past_investigations_def store_investigation_def)
  have st: "store_answer demo_services (demo_turn ''?'' now) (prepare demo_services (demo_turn ''?'' now)) demo_result (True, [(''opsrag_qa_cache'', [])])
      = (True, [(''opsrag_qa_cache'', [(0, demo_entry now)])])"
    using e [of "sv_bases demo_services"]
    by (simp add: store_answer_def cacheable_def qa_store_def ensure_collection_def make_point_id_def on_collection_def) (simp add: store_of_def)
  have q: "query_with_session demo_services (demo_turn ''?'' now) ((False, []), (False, ()))
    = (demo_state now, Inr (answer_of_graph (sv_bases demo_services) (demo_turn ''?'' now) demo_result None (Some ''unknown'')), False)"
    using h st r by (simp add: query_with_session_def demo_state_def Let_def category_of_def classified_def)
  then show ?thesis by simp
qed

lemma demo_second_turn:
  "\<exists>out reval. query_with_session demo_services (demo_turn ''?'' 20) (demo_state 10) = (demo_state 10, Inr out, reval) \<and> ao_cache_hit out"
proof -
  have "\<exists>h. serve (tokens_of demo_services) default_cache (lookup_of demo_services (demo_turn ''?'' 20) (prepare demo_services (demo_turn ''?'' 20))) (demo_entry 10) 1 = Some h
      \<and> qh_question h = ''?''"
    by (simp add: serve_def demo_entry_def lookup_of_def policy_of_def classified_def Let_def)
  then obtain h where h: "serve (tokens_of demo_services) default_cache
      (lookup_of demo_services (demo_turn ''?'' 20) (prepare demo_services (demo_turn ''?'' 20))) (demo_entry 10) 1 = Some h" by blast
  have "may_see (Some ''u1'') (demo_entry 10)" by (simp add: may_see_def demo_entry_def)
  then have "qa_lookup demo_client (tokens_of demo_services) default_cache (lookup_of demo_services (demo_turn ''?'' 20) (prepare demo_services (demo_turn ''?'' 20))) [1]
      (fst (demo_state 10)) = (fst (demo_state 10), Inr (Some h))"
    using h by (simp add: qa_lookup_def ensure_collection_def demo_state_def shared_or_mine_sees) (simp add: lookup_of_def)
  moreover have "judged demo_services (prepare demo_services (demo_turn ''?'' 20)) h" by (simp add: judged_def judge_match_def)
  ultimately have "cached_hit demo_services (demo_turn ''?'' 20) (prepare demo_services (demo_turn ''?'' 20)) (fst (demo_state 10)) = (fst (demo_state 10), Some h)"
    using demo_unskipped [of 20] by (simp add: cached_hit_def)
  then show ?thesis by (simp add: query_with_session_def demo_state_def Let_def answer_of_hit_def)
qed

lemma demo_laws: "vector_laws db_points entry_sat demo_client"
  unfolding demo_client_def by (rule memory_client_laws)

theorem cached_answers_stay_private_witness:
  "\<exists>turns. (cache_life demo_services)\<^sup>*\<^sup>* (((False, []), (False, ())), []) (demo_state 10, turns) \<and> turns \<noteq> []"
proof -
  obtain res where "query_with_session demo_services (demo_turn ''?'' 10) ((False, []), (False, ())) = (demo_state 10, res)"
    using demo_first_turn [of 10] by (metis prod.collapse)
  then have life: "(cache_life demo_services)\<^sup>*\<^sup>* (((False, []), (False, ())), []) (demo_state 10, [demo_turn ''?'' 10])"
    by (intro r_into_rtranclp life_turn)
  obtain out reval where hit: "query_with_session demo_services (demo_turn ''?'' 20) (demo_state 10) = (demo_state 10, Inr out, reval)" "ao_cache_hit out"
    using demo_second_turn by blast
  have "db_points (snd (fst ((False, [] :: demo_db), (False, ())))) (cc_collection default_cache) = {}"
    by (simp add: db_points_def dget_def)
  from cached_answers_stay_private [OF demo_laws demo_parts(1) this life hit] show ?thesis using life by blast
qed

theorem cache_outage_costs_nothing_witness:
  "\<exists>sv :: (demo_db, unit, nat, nat) services. sv_qa sv \<noteq> None
     \<and> snd (query_with_session sv (demo_turn ''?'' 1) ((False, []), (False, ()))) = snd (query_with_session (sv\<lparr>sv_qa := None\<rparr>) (demo_turn ''?'' 1) ((False, []), (False, ())))"
proof -
  let ?c = "demo_client\<lparr>vc_query := \<lambda>coll v k f q. Inl ''timeout''\<rparr>"
  let ?sv = "demo_services\<lparr>sv_qa := Some (?c, default_cache)\<rparr>"
  have "\<exists>e. vc_query ?c coll v k f q = Inl e" for coll v k f q by simp
  from cache_outage_costs_nothing [OF this, of ?sv default_cache "demo_turn ''?'' 1" "((False, []), (False, ()))"]
  show ?thesis by (intro exI [of _ ?sv]) simp
qed


theorem bypassed_answer_is_kept_witness:
  "\<exists>st' out reval. query_with_session demo_services (demo_turn ''my'' 3) ((True, [(''opsrag_qa_cache'', [])]), (False, ())) = (st', Inr out, reval)
     \<and> snd (fst st') \<noteq> [(''opsrag_qa_cache'', [])]"
proof -
  have my: "should_skip_cache ''my''" by code_simp
  have pp: "pp_query (prepare demo_services (demo_turn ''my'' 3)) = ''my''" "pp_embedding (prepare demo_services (demo_turn ''my'' 3)) = Some [1]"
    by (simp_all add: prepare_def asked_def Let_def)
  have skip: "skip_cache demo_services (demo_turn ''my'' 3) (prepare demo_services (demo_turn ''my'' 3))"
    by (simp add: skip_cache_def pp my)
  obtain st' res reval where run: "query_with_session demo_services (demo_turn ''my'' 3) ((True, [(''opsrag_qa_cache'', [])]), (False, ())) = (st', res, reval)"
    by (metis prod.collapse)
  then obtain out where out: "res = Inr out" by (cases rule: turn_cases) (auto simp: answer_of_hit_def)
  have up: "snd (vc_upsert demo_client (cc_collection default_cache) i [1] e [(''opsrag_qa_cache'', [])]) = Inr ()" for i e
    by (simp add: on_collection_def)
  have "\<exists>i e. snd (fst st') = fst (vc_upsert demo_client (cc_collection default_cache) i [1] e [(''opsrag_qa_cache'', [])])"
    using bypassed_answer_is_kept [where user = None, OF run [unfolded out] skip demo_parts(1) pp(2) demo_parts(15) _ demo_parts(18) _ _ up] pp(1)
    by (auto simp: cacheable_def)
  then show ?thesis using run out by (auto simp: on_collection_def)
qed

definition demo_stream :: graph_stream where
  "demo_stream i = ([Chain_Start ''rerank'' [], Chain_End ''rerank'' None, Chain_End ''LangGraph'' (Some demo_result)], None)"

theorem stream_agrees_with_call_witness:
  "\<exists>events a. fst (snd (query_with_session_events demo_services demo_stream (demo_turn ''?'' 5) ((False, []), (False, ())))) = events
     \<and> events \<noteq> [] \<and> last events = Final a"
proof -
  have "graph_outcome [Chain_Start ''rerank'' [], Chain_End ''rerank'' None, Chain_End ''LangGraph'' (Some demo_result)] = Some demo_result"
    by (simp add: graph_outcome_def List.map_filter_def node_labels_def)
  then have streams: "streams_as_called demo_stream (demo_turn ''?'' 5)" by (simp add: streams_as_called_def demo_stream_def)
  obtain st' res reval where run: "query_with_session demo_services (unbriefed (demo_turn ''?'' 5)) ((False, []), (False, ())) = (st', res, reval)"
    by (metis prod.collapse)
  then obtain out where out: "res = Inr out" by (cases rule: turn_cases) (auto simp: answer_of_hit_def)
  have "sv_inv demo_services = None \<or> fst (snd ((False, []), (False, ())))" by simp
  from stream_agrees_with_call [OF streams this run [unfolded out]] obtain events where
    "query_with_session_events demo_services demo_stream (demo_turn ''?'' 5) ((False, []), (False, ())) = (st', events, reval)"
    "events \<noteq> []" "last events = Final (without_category out)" by auto
  then show ?thesis by (intro exI [of _ events] exI [of _ "without_category out"]) simp
qed

end
