(* ===== verification/Spec2Isabelle.thy ===== *)
theory Spec2Isabelle
  imports Fusion Mmr Rate_Limits Channel_Gate Connector_Perms Login Tool_Cache Index_Tracker Plan_Tool
    Path_Tree Eval_Metrics Agent_Loop Ingest_Facts Evidence Dispatcher Retrieval_Flow Admin_Users Verifier
    Session_Facts
begin

text \<open>
  OpsRAG: a model of its decision logic.

  OpsRAG answers operations questions over indexed repositories and live tools. Repositories are cut
  into chunks, enriched and indexed. A chat channel or the API takes a question, decides who asks and
  what he may use, retrieves chunks from several pools, fuses and diversifies them, lets a language
  model call tools under a plan and several budgets, and answers. An alert starts an investigation that
  runs in the background and reports through a ledger of events. This development models the parts of
  \<open>src/opsrag\<close> where that behaviour is decided in the code itself. Models, stores, transports and prompt
  texts are outside.

  \<^bold>\<open>Theories and code.\<close>

  \<^item> \<open>Py_Prelude\<close>: the shared fragment of Python. Strings are lists of characters (code points below
    256), dicts are association lists in insertion order with distinct keys, exceptions are the left
    side of a sum, floats are exact reals (\<open>pyfloat\<close> adds NaN and the infinities where the code treats
    them), JSON-like values are a datatype. \<open>Chunk_Model\<close>: chunks and search results
    (\<open>interfaces/chunker.py\<close>, \<open>parser.py\<close>, \<open>vectorstore.py\<close>).
  \<^item> \<open>Fusion\<close>: reciprocal rank fusion and the priority tiers (\<open>vectorstores/rrf.py\<close>, \<open>priority.py\<close>,
    the re-boost in \<open>agent/nodes/vector_retriever.py\<close> and \<open>vectorstores/pgvector.py\<close>). \<open>Mmr\<close>: the
    diversity re-ordering (\<open>rerankers/mmr.py\<close>). \<open>Regex\<close>: the backtracking matcher of Python's \<open>re\<close>, for the
    patterns written out. \<open>Anchors\<close>: the specific names in a question (\<open>agent/anchors.py\<close>). \<open>Rerank_Grade\<close>: the
    rerank and grade nodes between retrieval and answer (\<open>agent/nodes/reranker.py\<close>, \<open>grader.py\<close>).
  \<^item> \<open>Query_Intent\<close> and \<open>Retriever\<close>: the node that turns a question into lanes over the stores, runs them,
    and fuses what they return (\<open>agent/nodes/vector_retriever.py\<close>): first what the question says of the repository,
    the file and the kind of document, then the plan of lanes and the run of it. \<open>Retrieval_Flow\<close> composes it with
    the rerank and grade nodes.
  \<^item> \<open>Rate_Limits\<close>: the MCP token limiter (\<open>mcp_server/rate_limit.py\<close>) and the in-memory API and
    login limiter (\<open>api/rate_limit_backend.py\<close>). \<open>Channel_Gate\<close>: who may ask in a chat channel and how
    often (\<open>channels/permission.py\<close>). \<open>Dispatcher\<close>: a chat message from the gate to its final edit, and a click
    on the feedback buttons (\<open>channels/dispatcher.py\<close>, \<open>streaming.py\<close>, \<open>feedback.py\<close>, \<open>types.py\<close>).
  \<^item> \<open>Authz\<close>: scopes, roles and the identity of a request (\<open>auth/scopes.py\<close>, \<open>auth/middleware.py\<close>,
    the claims of \<open>auth/oidc.py\<close>). \<open>Connector_Perms\<close>: which connectors and tools a user may use
    (\<open>auth/connector_perms.py\<close>, \<open>api/_connector_perms.py\<close>, \<open>mcp_server/registry_loader.py\<close>).
  \<^item> \<open>User_Store\<close>: accounts, identities and refresh sessions in memory (\<open>auth/user_store.py\<close>).
    \<open>Login\<close>: single sign-on and the login, refresh, logout and callback handlers (\<open>auth/sso.py\<close>,
    \<open>auth/login.py\<close>). \<open>Admin_Users\<close>: what an administrator does to accounts, roles, sessions and connector
    grants (\<open>api/routes_admin_users.py\<close>).
  \<^item> \<open>Agent_Graph\<close>: the four graphs of nodes and edges (\<open>agent/graph.py\<close>) and the decisions on their
    conditional edges (\<open>agent/nodes/grader.py\<close>, \<open>hallucination.py\<close>, \<open>reranker.py\<close>, \<open>tool_caller.py\<close>,
    \<open>multi_agent.py\<close>). \<open>Agent_Tools\<close>: the node that dispatches tool calls, and \<open>Agent_Loop\<close>: triage, the
    reasoner with its breakers, and the loop of the two (\<open>agent/nodes/multi_agent.py\<close>). \<open>Verifier\<close>: the
    judge of the finished answer (\<open>agent/nodes/answer_verifier.py\<close>).
  \<^item> \<open>Query_Rewrite\<close>, \<open>Classifier\<close>: what becomes of a question before the agent sees it (\<open>agent/query_rewrite.py\<close>, the
    retry words of \<open>agent/graph.py\<close>) and the category it is put into (\<open>agent/classifier.py\<close>). \<open>Qa_Keys\<close> and \<open>Qa_Cache\<close>: the
    answer cache and its judge (\<open>qa_cache.py\<close>, \<open>qa_cache_normalize.py\<close>, \<open>qa_cache_ner.py\<close>, \<open>qa_cache_judge.py\<close>);
    \<open>Investigation_Cache\<close>: the investigations kept as context (\<open>agent/cache/investigation_cache.py\<close>); \<open>Vector_Client\<close>: the
    client of the database behind both, a record of calls, and the laws it is documented to keep. \<open>Session_Query\<close> and
    \<open>Session_Events\<close>: a turn of a session as a call and as a stream (\<open>query_with_session\<close>, \<open>query_with_session_events\<close> of
    \<open>agent/graph.py\<close>); \<open>Session_Facts\<close> holds what the turns make of the caches.
  \<^item> \<open>Compactor\<close>: the message history and its compaction (\<open>agent/services/toolmsg_compactor.py\<close>).
    \<open>Chart_Tool\<close>: charts and their way through the history (\<open>agent/services/chart_tool.py\<close>). \<open>Plan_Tool\<close>: the
    plan of a turn (\<open>agent/services/plan_tool.py\<close>). \<open>Path_Tree\<close>: the directory tree shown to the model
    (\<open>agent/path_tree.py\<close>). \<open>Tool_Cache\<close>: the cache of tool outputs (\<open>mcp/tool_cache.py\<close>).
  \<^item> \<open>Chunk_Split\<close> and \<open>Chunkers\<close>: the two chunkers (\<open>chunkers/parent_child.py\<close>, \<open>fixed_size.py\<close>) and the
    token estimate (\<open>tokenization.py\<close>). \<open>Enrich\<close>: the facets of a chunk (\<open>ingestion/metadata.py\<close>,
    \<open>enrich.py\<close>). \<open>File_Store\<close>: the table of indexed files and the chunk table (\<open>indexed_files/postgres.py\<close>,
    \<open>vectorstores/pgvector.py\<close>). \<open>Ingest\<close>: one file, one run and the webhook (\<open>ingestion/pipeline.py\<close>,
    the batch download of \<open>scm/gitlab.py\<close>); \<open>Ingest_Facts\<close> holds its theorems. \<open>Index_Tracker\<close>: the progress
    and history of indexing (\<open>indexing_tracker.py\<close>).
  \<^item> \<open>Event_Ledger\<close>: the tables of investigations and the stream that tails them
    (\<open>investigations/store.py\<close>, \<open>api/routes_investigations.py\<close>). \<open>Alert_Text\<close>: what is read out of an alert,
    and \<open>Tool_Args\<close>: the two filters on tool arguments; \<open>Investigation\<close>: the three lanes, the insight, the
    hypotheses, the rounds and the conclusion (\<open>investigations/runner.py\<close>, \<open>evaluator.py\<close>); \<open>Evidence\<close>: what
    the models are shown of it. \<open>Investigation_Facts\<close> and \<open>Investigation_Safety\<close> hold the theorems.
  \<^item> \<open>Eval_Match\<close> and \<open>Eval_Metrics\<close>: the goldens, the path matching, the metrics, the regression gate
    and the offline scores (\<open>eval/loaders.py\<close>, \<open>eval/metrics/\<close>, \<open>eval/runner.py\<close>, \<open>eval/report.py\<close>,
    \<open>eval/cli.py\<close>, \<open>eval/retrieval_offline.py\<close>).

  \<^bold>\<open>State.\<close> A class of the code is a record of its fields and a method is a function that returns the
  new record; a method that holds its lock throughout is one step. Where the code gives up the lock or
  the event loop in between (\<open>get_or_compute\<close> of the tool cache, the stream of the ledger) it is split
  there, and the invariants range over every interleaving of the pieces. Clock readings, fresh ids and
  random tokens are arguments. Everything that a run gets from outside, failures included, is one record:
  \<open>hop_world\<close> for a hop of the tool loop, \<open>file_world\<close> and \<open>repo_run\<close> for indexing, \<open>inv_world\<close> for an
  investigation. \<open>User_Store\<close>, \<open>Login\<close>, \<open>Tool_Cache\<close>, \<open>Index_Tracker\<close>, \<open>Event_Ledger\<close> and the answer cache have inductive step
  relations (\<open>store_step\<close>, \<open>login_step\<close>, \<open>cache_run\<close>, \<open>tracker_step\<close>, \<open>watch_step\<close>, and \<open>cache_life\<close> of \<open>Session_Facts\<close>) for what holds along
  every run.

  \<^bold>\<open>Interfaces.\<close> Five locales state the contracts between components. \<open>sliding_log\<close> is a pruned log
  of timestamps; the two rate limiters and the channel quota interpret it, and the bound on accepted
  calls per window is proved once in it. \<open>user_store_api\<close> is what the login layer needs of a user
  store; the in-memory store interprets it and the rules of single sign-on are proved in it. \<open>metric\<close>
  is a test metric with a score in the unit interval; each metric of the evaluation suite interprets it.
  \<open>variant_loop\<close> is a loop with a variant: a run of it is no longer than the variant at its start; the full graph of
  the agent, with its rewrite and regenerate loops, interprets it. \<open>chunk_table\<close> is what indexing needs
  of the chunk store: what a lookup by file returns after an upsert and after a delete; the table of
  \<open>pgvector.py\<close> interprets it.

  \<^bold>\<open>What the lemmas show.\<close> Fusion returns exactly the weighted reciprocal-rank sums in order and its
  bonuses stay within the documented band; MMR is the greedy optimum step by step. A reranker that fails makes
  the agent neither refuse nor trust what it retrieved. A retrieval lane that fails costs its own results only, and
  every result of a lane that did not fail reaches the fused pool; when every store is down the agent reads it as no
  information. An answer whose verification fails is not passed as grounded. A chat message ends in exactly one edit, and only
  an answered one is counted. No window of a
  limiter admits more calls than its cap, and denied calls leave no trace. A denied connector's tools
  cannot be called or seen in a chat; a guarded route admits exactly the users with its scope. A change of
  roles cuts the sessions of the account, and the administrators cannot lock themselves out by it. A refresh
  token works once, a revoked session stays revoked, an address belongs to one account, and sign-on
  reaches an existing account only over a link or a verified address. A cache hit is a recent outcome of
  the same key. A cached answer is one that an earlier turn was given, and a personal one goes to its own user only; a
  database that does not answer costs the cache and nothing else; a streamed turn agrees with a called one whose graph gets no past investigations. The graphs are wired, the full graph ends and answers only through its gates, the tool
  loop ends unless every call is refused, and the concurrent dispatch equals the serial one. A plan
  update loses no hypothesis, compaction keeps the recent results and changes no call. The pieces of a
  text concatenate to it and the children of a chunk cover all of it but white space. A completed indexing run brings
  the chunk table in line with the repository, for either chunker, unless the names of two files make their chunk ids
  collide. The tracker closes the run it opened. An investigation writes its
  events in the promised order with one terminal event, within its bounds and without the text of an
  exception, and a subscriber sees them once each; its row tells how it ended, unless a failure could not be recorded. The evaluation scores lie in the unit interval and a
  green gate leaves no capped golden over its cap. Some theorems state a weakness instead: a loop that
  does not end, a file that is lost, a live answer that is kept for two weeks, a cached
  answer that outlives its sources.

  \<^bold>\<open>Bounds, fuel and termination.\<close> Most loops run over a finite list and are structural recursion or a
  fold; \<open>mmr_loop\<close>, \<open>evict_lru\<close> and \<open>find_tokens\<close> shrink a list in every round. Fuel is used where the code may
  not end. \<open>run_graph\<close> takes the number of node visits: 12 + 5 * retries + 3 * regenerations are enough for
  the full graph, 36 with the default limits, below LangGraph's limit in the code. \<open>tool_loop\<close> takes the
  number of hops: twelve are enough unless every call is refused. The loops of the chunkers take the length
  of the text: they end within it when every window moves forward, and the theorems give the configurations
  in which it does and one in which it does not. The rounds of an investigation count down from three as
  the code does. \<open>scroll_all\<close> takes the number of pages; more than the last offset are enough when offsets grow.

  \<^bold>\<open>Not modelled.\<close> IEEE rounding; characters above 255; log texts and latencies; prompt texts beyond those
  that decide something. Calls that reach outside are parameters: hashes, password verification, JSON
  printing, float parsing, the tokenizer, the trigger and signature patterns of the agent, the OIDC
  signature check, the vector store's enumeration and its searches, the parsers, the extractors of the light
  graph, the texts of the contextual step, the models and the judge. The Redis and Postgres twins of the in-memory stores, the graph lane of indexing and
  the edges of the light graph, the generators of the agent, the LLM, embedder, reranker and graph
  backends, the connectors' HTTP clients and the rest of the web layer are not part of the model.
\<close>

end
